(* ===== verification/Prelude.thy ===== *)
theory Prelude
  imports Complex_Main "HOL-Library.AList" "HOL-Library.Multiset"
begin

text \<open>
  Shared vocabulary of the development.  JavaScript data and control that every component
  uses is fixed here once:
  \<^item> a JavaScript \<open>Map\<close> (and a \<open>Record<string, V>\<close> object, and an Immutable.js
    \<open>Map\<close>) is the list of its entries in iteration order (\<open>jsmap\<close>);
    assigning a present key keeps its place, assigning a new key appends;
  \<^item> a thrown error or rejected promise is the \<open>Inl\<close> of a sum, a normal
    completion the \<open>Inr\<close>; \<open>bind_res\<close> and \<open>map_res\<close> run such computations in
    order and stop at the first error;
  \<^item> \<open>undefined\<close> is \<open>None\<close>.
\<close>

section \<open>Collections of hints\<close>

named_theorems jsmap_simps \<open>lookups, keys and distinctness of JavaScript maps\<close>
named_theorems res_simps \<open>computations that may throw\<close>

section \<open>JavaScript maps\<close>

type_synonym ('k, 'v) jsmap = "('k \<times> 'v) list"

abbreviation js_get :: "('k, 'v) jsmap \<Rightarrow> 'k \<Rightarrow> 'v option" where
  "js_get m k \<equiv> map_of m k"

abbreviation js_set :: "('k, 'v) jsmap \<Rightarrow> 'k \<Rightarrow> 'v \<Rightarrow> ('k, 'v) jsmap" where
  "js_set m k v \<equiv> AList.update k v m"

abbreviation js_delete :: "('k, 'v) jsmap \<Rightarrow> 'k \<Rightarrow> ('k, 'v) jsmap" where
  "js_delete m k \<equiv> AList.delete k m"

abbreviation js_keys :: "('k, 'v) jsmap \<Rightarrow> 'k list" where
  "js_keys m \<equiv> map fst m"

abbreviation js_values :: "('k, 'v) jsmap \<Rightarrow> 'v list" where
  "js_values m \<equiv> map snd m"

abbreviation js_has :: "('k, 'v) jsmap \<Rightarrow> 'k \<Rightarrow> bool" where
  "js_has m k \<equiv> map_of m k \<noteq> None"

definition wf_map :: "('k, 'v) jsmap \<Rightarrow> bool" where
  "wf_map m \<longleftrightarrow> distinct (map fst m)"

lemma wf_map_Nil [simp]: "wf_map []"
  by (simp add: wf_map_def)

lemma wf_map_set [simp, intro]: "wf_map m \<Longrightarrow> wf_map (js_set m k v)"
  by (simp add: wf_map_def distinct_update)

lemma wf_map_delete [simp, intro]: "wf_map m \<Longrightarrow> wf_map (js_delete m k)"
  by (simp add: wf_map_def distinct_delete)

lemma js_get_set [simp, jsmap_simps]: "js_get (js_set m k v) = (js_get m)(k \<mapsto> v)"
  by (rule update_conv')

lemma js_get_delete [simp, jsmap_simps]: "js_get (js_delete m k) = (js_get m)(k := None)"
  by (rule delete_conv')

lemma js_keys_set [simp, jsmap_simps]:
  "set (js_keys (js_set m k v)) = insert k (set (js_keys m))"
  by (induction m) auto

lemma js_get_None: "k \<notin> set (js_keys m) \<Longrightarrow> js_get m k = None"
  by (simp add: map_of_eq_None_iff)

lemma js_get_notin [jsmap_simps]: "k \<notin> fst ` set m \<Longrightarrow> js_get m k = None"
  by (simp add: map_of_eq_None_iff)

lemma js_has_iff: "js_get m k \<noteq> None \<longleftrightarrow> k \<in> fst ` set m"
  by (simp add: map_of_eq_None_iff)

lemma length_wf_map: "wf_map m \<Longrightarrow> length m = card (dom (js_get m))"
  by (metis dom_map_of_conv_image_fst distinct_card length_map list.set_map wf_map_def)

lemma js_get_in: "wf_map m \<Longrightarrow> (k, v) \<in> set m \<Longrightarrow> js_get m k = Some v"
  by (simp add: wf_map_def)

lemma js_get_mem: "js_get m k = Some v \<Longrightarrow> (k, v) \<in> set m"
  by (rule map_of_SomeD)

lemma js_set_new: "k \<notin> fst ` set m \<Longrightarrow> js_set m k v = m @ [(k, v)]"
  by (induction m) auto

text \<open>A plain object used as a table also has the members of \<open>Object.prototype\<close>: a lookup of such a
  name finds the member, which is truthy, and \<open>k in m\<close> holds for it.\<close>

definition object_prototype :: "string list" where
  "object_prototype =
     [''constructor'', ''hasOwnProperty'', ''isPrototypeOf'', ''propertyIsEnumerable'', ''toLocaleString'',
      ''toString'', ''valueOf'', ''__defineGetter__'', ''__defineSetter__'', ''__lookupGetter__'', ''__lookupSetter__'',
      ''__proto__'']"

definition in_object :: "(string, 'v) jsmap \<Rightarrow> string \<Rightarrow> bool" where
  "in_object m k \<longleftrightarrow> js_has m k \<or> k \<in> set object_prototype"

text \<open>No variable is named like a member of \<open>Object.prototype\<close>.\<close>

definition plain_names :: "string set \<Rightarrow> bool" where
  "plain_names vs \<longleftrightarrow> vs \<inter> set object_prototype = {}"

lemma proto_member [simp]: "''__proto__'' \<in> set object_prototype"
  by (simp add: object_prototype_def)

lemma js_set_present:
  "js_get m k = Some d \<Longrightarrow>
     \<exists>xs ys. m = xs @ (k, d) # ys \<and> (\<forall>d'. js_set m k d' = xs @ (k, d') # ys)"
proof (induction m)
  case Nil
  then show ?case by simp
next
  case (Cons p m)
  show ?case
  proof (cases "fst p = k")
    case True
    with Cons.prems have "p # m = [] @ (k, d) # m \<and> (\<forall>d'. js_set (p # m) k d' = [] @ (k, d') # m)"
      by (cases p) auto
    then show ?thesis by blast
  next
    case False
    with Cons obtain xs ys where "m = xs @ (k, d) # ys" "\<forall>d'. js_set m k d' = xs @ (k, d') # ys"
      by (cases p) auto
    with False have "p # m = (p # xs) @ (k, d) # ys \<and>
        (\<forall>d'. js_set (p # m) k d' = (p # xs) @ (k, d') # ys)"
      by (cases p) auto
    then show ?thesis by blast
  qed
qed

lemma map_of_rev_wf [jsmap_simps]: "wf_map m \<Longrightarrow> map_of (rev m) = map_of m"
  by (simp add: wf_map_def map_of_inject_set rev_map [symmetric])

section \<open>Computations that may throw\<close>

fun bind_res :: "'e + 'a \<Rightarrow> ('a \<Rightarrow> 'e + 'b) \<Rightarrow> 'e + 'b" where
  "bind_res (Inl e) f = Inl e"
| "bind_res (Inr a) f = f a"

fun map_res :: "('a \<Rightarrow> 'e + 'b) \<Rightarrow> 'a list \<Rightarrow> 'e + 'b list" where
  "map_res f [] = Inr []"
| "map_res f (x # xs) =
     bind_res (f x) (\<lambda>y. bind_res (map_res f xs) (\<lambda>ys. Inr (y # ys)))"

lemma bind_res_eq_Inr [res_simps]:
  "bind_res r f = Inr b \<longleftrightarrow> (\<exists>a. r = Inr a \<and> f a = Inr b)"
  by (cases r) auto

lemma bind_res_eq_Inl [res_simps]:
  "bind_res r f = Inl e \<longleftrightarrow> r = Inl e \<or> (\<exists>a. r = Inr a \<and> f a = Inl e)"
  by (cases r) auto

lemma rethrow_eq_Inr [res_simps]:
  "(case r of Inl e \<Rightarrow> Inl (f e) | Inr u \<Rightarrow> Inr u) = Inr v \<longleftrightarrow> r = Inr v"
  by (cases r) auto

lemma map_res_Inr_length: "map_res f xs = Inr ys \<Longrightarrow> length ys = length xs"
  by (induction xs arbitrary: ys) (auto simp: res_simps)

lemma map_res_Inr_nth:
  "map_res f xs = Inr ys \<Longrightarrow> i < length xs \<Longrightarrow> f (xs ! i) = Inr (ys ! i)"
proof (induction xs arbitrary: ys i)
  case Nil
  then show ?case by simp
next
  case (Cons x xs)
  then show ?case by (cases i) (auto simp: res_simps)
qed

lemma map_res_pure [simp]: "map_res (\<lambda>x. Inr (f x)) xs = Inr (map f xs)"
  by (induction xs) auto

section \<open>Positions in a list\<close>

text \<open>\<open>precedes xs a b\<close>: an occurrence of \<open>a\<close> is before one of \<open>b\<close>.\<close>

definition precedes :: "'a list \<Rightarrow> 'a \<Rightarrow> 'a \<Rightarrow> bool" where
  "precedes xs a b \<longleftrightarrow> (\<exists>us vs. xs = us @ b # vs \<and> a \<in> set us)"

lemma precedes_snoc: "a \<in> set xs \<Longrightarrow> precedes (xs @ [b]) a b"
  unfolding precedes_def by blast

lemma precedes_append: "precedes xs a b \<Longrightarrow> precedes (xs @ ys) a b"
  unfolding precedes_def by fastforce

lemma nth_upd: "xs[i := x] ! j = (if i = j \<and> i < length xs then x else xs ! j)"
  by (cases "i < length xs") (simp_all add: nth_list_update list_update_beyond)

lemma mem_fst_image: "(a, b) \<in> S \<Longrightarrow> a \<in> fst ` S"
  by force

lemma find_Some_mem: "find P xs = Some x \<Longrightarrow> x \<in> set xs \<and> P x"
  by (auto simp: find_Some_iff)

section \<open>Numbers as strings\<close>

text \<open>The decimal digits of a natural number, as \<open>String(n)\<close> gives them.\<close>

definition digit_char :: "nat \<Rightarrow> char" where
  "digit_char d = char_of (48 + d)"

fun nat_string :: "nat \<Rightarrow> string" where
  "nat_string n = (if n < 10 then [digit_char n] else nat_string (n div 10) @ [digit_char (n mod 10)])"

declare nat_string.simps [simp del]

section \<open>Joined strings\<close>

text \<open>\<open>Array.join\<close>.\<close>

fun join_strings :: "string \<Rightarrow> string list \<Rightarrow> string" where
  "join_strings sep [] = []"
| "join_strings sep [s] = s"
| "join_strings sep (s # t # ts) = s @ sep @ join_strings sep (t # ts)"

lemma join_strings_parts:
  assumes "list_all (\<lambda>s. c \<notin> set s) ss" and "list_all (\<lambda>s. c \<notin> set s) ts" and "length ss = length ts"
    and "join_strings [c] ss = join_strings [c] ts"
  shows "ss = ts"
  using assms(3,1,2,4)
proof (induction ss ts rule: list_induct2)
  case (Cons s ss t ts)
  show ?case
  proof (cases ss)
    case Nil
    with Cons show ?thesis by simp
  next
    case (Cons s' ss')
    then obtain t' ts' where ts: "ts = t' # ts'" using Cons.hyps by (cases ts) auto
    have eq: "s @ c # join_strings [c] ss = t @ c # join_strings [c] ts"
      using Cons.prems(3) by (simp add: Cons ts)
    have sep: "takeWhile (\<lambda>d. d \<noteq> c) (u @ c # w) = u" if "c \<notin> set u" for u w :: "string"
      using that by (induction u) auto
    have "s = t"
      using arg_cong [OF eq, of "takeWhile (\<lambda>d. d \<noteq> c)"] sep Cons.prems(1,2) by simp
    with eq have "join_strings [c] ss = join_strings [c] ts" by simp
    with Cons.IH Cons.prems \<open>s = t\<close> show ?thesis by simp
  qed
qed simp

end
