(* ===== verification/Bus.thy ===== *)
theory Bus
  imports Prelude
begin

text \<open>
  The publish-subscribe bus of \<open>packages/core/lib/Bus.ts\<close> and the indexed bus of
  \<open>BusIndexed.ts\<close>.  Actors are compared by object identity in the code, so they are
  values of a type \<open>'a\<close> here; what an actor replies to a test is a function argument of
  \<open>publish\<close>.  A method that may throw after having changed the bus returns the error (if
  any) together with the state it leaves behind.
\<close>

section \<open>The bus\<close>

datatype bus_error =
  Cyclic_dependency_links string
| No_actors_reply string

record ('a, 'o) bus =
  bus_name :: string
  actors :: "'a list"
  observers :: "'o list"
  dependencyLinks :: "('a, 'a list) jsmap"
  failMessage :: string

definition new_bus :: "string \<Rightarrow> ('a, 'o) bus" where
  "new_bus n =
     \<lparr>bus_name = n, actors = [], observers = [], dependencyLinks = [],
      failMessage = ''All actors over bus '' @ n @ '' failed to handle an action''\<rparr>"

text \<open>
  \<open>reorderForDependencies\<close>: the first loop takes every actor with a dependency link out
  of the bus, in the order of the links.
\<close>

fun take_dependent :: "'a list \<Rightarrow> 'a list \<Rightarrow> 'a list \<Rightarrow> 'a list \<times> 'a list" where
  "take_dependent [] acts after = (acts, after)"
| "take_dependent (k # ks) acts after =
     (if k \<in> set acts then take_dependent ks (remove1 k acts) (after @ [k])
      else take_dependent ks acts after)"

text \<open>A pending actor may be put back when none of its dependents is itself pending.\<close>

definition valid_link ::
  "('a, 'a list) jsmap \<Rightarrow> 'a list \<Rightarrow> 'a list \<Rightarrow> 'a \<Rightarrow> bool" where
  "valid_link links acts after a =
     list_all (\<lambda>d. \<not> (d \<notin> set acts \<and> d \<in> set after))
       (case js_get links a of None \<Rightarrow> [] | Some ds \<Rightarrow> ds)"

text \<open>
  The second loop appends the first pending actor that may be put back, until none is pending;
  it throws when none may be, leaving the actors that are pending out of the bus.
\<close>

function place_pending ::
  "('a, 'a list) jsmap \<Rightarrow> 'a list \<Rightarrow> 'a list \<Rightarrow> bool \<times> 'a list" where
  "place_pending links acts after =
     (if after = [] then (True, acts)
      else (case find (valid_link links acts after) after of
              None \<Rightarrow> (False, acts)
            | Some a \<Rightarrow> place_pending links (acts @ [a]) (remove1 a after)))"
  by pat_completeness auto
termination
  by (relation "measure (\<lambda>(links, acts, after). length after)")
     (auto dest!: find_Some_mem simp: length_remove1 neq_Nil_conv)

declare place_pending.simps [simp del]

definition reorderForDependencies ::
  "('a, 'o, 'z) bus_scheme \<Rightarrow> bus_error option \<times> ('a, 'o, 'z) bus_scheme" where
  "reorderForDependencies b =
     (if dependencyLinks b = [] then (None, b)
      else
        let (acts, after) = take_dependent (js_keys (dependencyLinks b)) (actors b) [];
            (ok, acts') = place_pending (dependencyLinks b) acts after
        in ((if ok then None else Some (Cyclic_dependency_links (bus_name b))),
            b\<lparr>actors := acts'\<rparr>))"

definition subscribe ::
  "'a \<Rightarrow> ('a, 'o, 'z) bus_scheme \<Rightarrow> bus_error option \<times> ('a, 'o, 'z) bus_scheme" where
  "subscribe a b = reorderForDependencies (b\<lparr>actors := actors b @ [a]\<rparr>)"

definition subscribeObserver ::
  "'o \<Rightarrow> ('a, 'o, 'z) bus_scheme \<Rightarrow> ('a, 'o, 'z) bus_scheme" where
  "subscribeObserver ob b = b\<lparr>observers := observers b @ [ob]\<rparr>"

definition unsubscribe ::
  "'a \<Rightarrow> ('a, 'o, 'z) bus_scheme \<Rightarrow> bool \<times> ('a, 'o, 'z) bus_scheme" where
  "unsubscribe a b =
     (if a \<in> set (actors b) then (True, b\<lparr>actors := remove1 a (actors b)\<rparr>) else (False, b))"

definition unsubscribeObserver ::
  "'o \<Rightarrow> ('a, 'o, 'z) bus_scheme \<Rightarrow> bool \<times> ('a, 'o, 'z) bus_scheme" where
  "unsubscribeObserver ob b =
     (if ob \<in> set (observers b)
      then (True, b\<lparr>observers := remove1 ob (observers b)\<rparr>) else (False, b))"

definition publish ::
  "('a \<Rightarrow> 'i \<Rightarrow> 'r) \<Rightarrow> 'i \<Rightarrow> ('a, 'o, 'z) bus_scheme \<Rightarrow> ('a \<times> 'r) list" where
  "publish test action b = map (\<lambda>a. (a, test a action)) (actors b)"

text \<open>\<open>onRun\<close> calls the observers in order: the calls it makes, in the order it makes them.\<close>

definition onRun ::
  "'a \<Rightarrow> 'i \<Rightarrow> 'p \<Rightarrow> ('a, 'o, 'z) bus_scheme \<Rightarrow> ('o \<times> 'a \<times> 'i \<times> 'p) list" where
  "onRun a action out b = map (\<lambda>ob. (ob, a, action, out)) (observers b)"

fun link_dependencies ::
  "'a \<Rightarrow> 'a list \<Rightarrow> ('a, 'a list) jsmap \<Rightarrow> ('a, 'a list) jsmap" where
  "link_dependencies dpt [] links = links"
| "link_dependencies dpt (d # ds) links =
     link_dependencies dpt ds
       (js_set links d ((case js_get links d of None \<Rightarrow> [] | Some es \<Rightarrow> es) @ [dpt]))"

definition addDependencies ::
  "'a \<Rightarrow> 'a list \<Rightarrow> ('a, 'o, 'z) bus_scheme \<Rightarrow> bus_error option \<times> ('a, 'o, 'z) bus_scheme" where
  "addDependencies dpt ds b =
     reorderForDependencies
       (b\<lparr>dependencyLinks := link_dependencies dpt ds (dependencyLinks b)\<rparr>)"

text \<open>What the constructor of \<open>Actor\<close> does to its bus.\<close>

definition construct_actor ::
  "'a \<Rightarrow> 'a list \<Rightarrow> string \<Rightarrow> ('a, 'o, 'z) bus_scheme
     \<Rightarrow> bus_error option \<times> ('a, 'o, 'z) bus_scheme" where
  "construct_actor a beforeActors busFailMessage b =
     (case subscribe a b of
        (Some e, b1) \<Rightarrow> (Some e, b1)
      | (None, b1) \<Rightarrow>
          (case (if beforeActors \<noteq> [] then addDependencies a beforeActors b1 else (None, b1)) of
             (Some e, b2) \<Rightarrow> (Some e, b2)
           | (None, b2) \<Rightarrow>
               (None, if busFailMessage \<noteq> [] then b2\<lparr>failMessage := busFailMessage\<rparr> else b2)))"

section \<open>Lemmas on the reordering\<close>

lemma take_dependent_mset:
  "take_dependent ks acts after = (acts', after') \<Longrightarrow>
     mset acts' + mset after' = mset acts + mset after"
  by (induction ks acts after rule: take_dependent.induct) (auto split: if_splits)

lemma take_dependent_after:
  "take_dependent ks acts after = (acts', after') \<Longrightarrow> distinct acts \<Longrightarrow>
     set after' = set after \<union> (set ks \<inter> set acts)"
  by (induction ks acts after rule: take_dependent.induct) (auto split: if_splits)

lemma take_dependent_distinct:
  assumes "take_dependent ks acts [] = (acts', after')" and "distinct acts"
  shows "distinct (acts' @ after')"
proof -
  have "mset (acts' @ after') = mset acts"
    using take_dependent_mset [OF assms(1)] by simp
  then show ?thesis using assms(2) by (metis mset_eq_imp_distinct_iff)
qed

lemma place_pending_mset:
  "place_pending links acts after = (True, acts') \<Longrightarrow> mset acts' = mset acts + mset after"
proof (induction links acts after rule: place_pending.induct)
  case (1 links acts after)
  show ?case
  proof (cases "after = []")
    case True
    with 1 show ?thesis by (simp add: place_pending.simps)
  next
    case False
    with "1.prems" obtain a where a: "find (valid_link links acts after) after = Some a"
      and rec: "place_pending links (acts @ [a]) (remove1 a after) = (True, acts')"
      by (subst (asm) place_pending.simps) (auto split: option.splits)
    from "1.IH" [OF False a rec] find_Some_mem [OF a] show ?thesis by simp
  qed
qed

text \<open>The equation for given arguments, and the form its non-empty case takes.\<close>

lemma place_pending_Nil [simp]: "place_pending links acts [] = (True, acts)"
  by (simp add: place_pending.simps)

lemma place_pending_step:
  "after \<noteq> [] \<Longrightarrow> place_pending links acts after =
     (case find (valid_link links acts after) after of
        None \<Rightarrow> (False, acts)
      | Some a \<Rightarrow> place_pending links (acts @ [a]) (remove1 a after))"
  by (simp add: place_pending.simps [of links acts after])

lemma place_pending_prefix: "\<exists>zs. snd (place_pending links acts after) = acts @ zs"
proof (induction links acts after rule: place_pending.induct)
  case (1 links acts after)
  show ?case
  proof (cases "after = []")
    case True
    then show ?thesis by simp
  next
    case False
    then show ?thesis
    proof (cases "find (valid_link links acts after) after")
      case None
      with False show ?thesis by (simp add: place_pending_step)
    next
      case (Some a)
      with "1.IH" [OF False Some] False show ?thesis by (auto simp: place_pending_step)
    qed
  qed
qed

text \<open>\<open>dependents links a\<close>: the actors that must come before \<open>a\<close>.\<close>

definition dependents :: "('a, 'a list) jsmap \<Rightarrow> 'a \<Rightarrow> 'a list" where
  "dependents links a = (case js_get links a of None \<Rightarrow> [] | Some ds \<Rightarrow> ds)"

lemma valid_link_iff:
  "valid_link links acts after a \<longleftrightarrow>
     (\<forall>d \<in> set (dependents links a). d \<in> set after \<longrightarrow> d \<in> set acts)"
  by (auto simp: valid_link_def dependents_def list_all_iff)

text \<open>
  When the second loop succeeds, each actor it places stands after those of its dependents
  that are in the bus.
\<close>

lemma place_pending_order:
  assumes "place_pending links acts after = (True, acts')"
    and "distinct (acts @ after)" and "a \<in> set after"
    and "d \<in> set (dependents links a)" and "d \<in> set (acts @ after)"
  shows "precedes acts' d a"
  using assms
proof (induction links acts after rule: place_pending.induct)
  case (1 links acts after)
  then have ne: "after \<noteq> []" by auto
  with "1.prems"(1) obtain b where b: "find (valid_link links acts after) after = Some b"
    and rec: "place_pending links (acts @ [b]) (remove1 b after) = (True, acts')"
    by (auto simp: place_pending_step split: option.splits)
  from find_Some_mem [OF b] have mem: "b \<in> set after" and ok: "valid_link links acts after b"
    by auto
  show ?case
  proof (cases "a = b")
    case True
    with ok "1.prems"(2,4,5) have "d \<in> set acts" by (auto simp: valid_link_iff)
    moreover obtain zs where "acts' = (acts @ [b]) @ zs"
      using place_pending_prefix [of links "acts @ [b]" "remove1 b after"] rec by auto
    ultimately show ?thesis using True precedes_append [OF precedes_snoc] by metis
  next
    case False
    have "distinct ((acts @ [b]) @ remove1 b after)"
      using "1.prems"(2) mem by auto
    moreover have "a \<in> set (remove1 b after)"
      using False "1.prems"(3) by simp
    moreover have "d \<in> set ((acts @ [b]) @ remove1 b after)"
      using "1.prems"(2,5) by auto
    ultimately show ?thesis using "1.IH" [OF ne b rec] "1.prems"(4) by simp
  qed
qed

text \<open>A set of actors each of which waits for another of the set: a cycle of links.\<close>

definition link_cycle :: "('a, 'a list) jsmap \<Rightarrow> 'a set \<Rightarrow> bool" where
  "link_cycle links S \<longleftrightarrow> S \<noteq> {} \<and> (\<forall>a \<in> S. \<exists>d \<in> S. d \<in> set (dependents links a))"

lemma place_pending_fails_cycle:
  assumes "place_pending links acts after = (False, acts')"
  shows "\<exists>S \<subseteq> set after. link_cycle links S"
  using assms
proof (induction links acts after rule: place_pending.induct)
  case (1 links acts after)
  show ?case
  proof (cases "after = []")
    case True
    with "1.prems" show ?thesis by simp
  next
    case False
    show ?thesis
    proof (cases "find (valid_link links acts after) after")
      case None
      then have "\<forall>a \<in> set after. \<exists>d \<in> set after. d \<in> set (dependents links a)"
        by (fastforce simp: find_None_iff valid_link_iff)
      with False show ?thesis by (auto simp: link_cycle_def)
    next
      case (Some b)
      with "1.prems" False
      have "place_pending links (acts @ [b]) (remove1 b after) = (False, acts')"
        by (simp add: place_pending_step)
      from "1.IH" [OF False Some this] show ?thesis
        using set_remove1_subset [of b after] by blast
    qed
  qed
qed

lemma place_pending_cycle_fails:
  assumes "link_cycle links S" and "S \<subseteq> set after" and "distinct (acts @ after)"
  shows "fst (place_pending links acts after) = False"
  using assms
proof (induction links acts after rule: place_pending.induct)
  case (1 links acts after)
  then have ne: "after \<noteq> []" by (auto simp: link_cycle_def)
  show ?case
  proof (cases "find (valid_link links acts after) after")
    case None
    with ne show ?thesis by (simp add: place_pending_step)
  next
    case (Some b)
    from find_Some_mem [OF Some] have mem: "b \<in> set after"
      and ok: "valid_link links acts after b" by auto
    have "b \<notin> S"
    proof
      assume "b \<in> S"
      then obtain d where "d \<in> S" "d \<in> set (dependents links b)"
        using "1.prems"(1) by (auto simp: link_cycle_def)
      with ok "1.prems"(2,3) show False by (auto simp: valid_link_iff)
    qed
    with "1.prems" mem have "S \<subseteq> set (remove1 b after)"
      and "distinct ((acts @ [b]) @ remove1 b after)" by auto
    with "1.IH" [OF ne Some "1.prems"(1)] ne Some show ?thesis
      by (simp add: place_pending_step)
  qed
qed

lemma dependents_Nil_key: "a \<notin> set (js_keys links) \<Longrightarrow> dependents links a = []"
  by (simp add: dependents_def js_get_None)

lemma link_cycle_keys: "link_cycle links S \<Longrightarrow> S \<subseteq> set (js_keys links)"
  unfolding link_cycle_def using dependents_Nil_key by fastforce

text \<open>The reordering in one equation, for a bus with links.\<close>

lemma reorder_cases:
  assumes "dependencyLinks b \<noteq> []"
  obtains acts after ok acts' where
    "take_dependent (js_keys (dependencyLinks b)) (actors b) [] = (acts, after)"
    "place_pending (dependencyLinks b) acts after = (ok, acts')"
    "reorderForDependencies b =
       ((if ok then None else Some (Cyclic_dependency_links (bus_name b))),
        b\<lparr>actors := acts'\<rparr>)"
  using assms that
  by (cases "take_dependent (js_keys (dependencyLinks b)) (actors b) []";
      cases "place_pending (dependencyLinks b)
        (fst (take_dependent (js_keys (dependencyLinks b)) (actors b) []))
        (snd (take_dependent (js_keys (dependencyLinks b)) (actors b) []))")
     (auto simp: reorderForDependencies_def)

lemma reorder_links:
  "reorderForDependencies b = (e, b') \<Longrightarrow> dependencyLinks b' = dependencyLinks b"
  by (auto simp: reorderForDependencies_def Let_def split: prod.splits if_splits)

lemma reorder_ok_mset:
  assumes "reorderForDependencies b = (None, b')"
  shows "mset (actors b') = mset (actors b)"
proof (cases "dependencyLinks b = []")
  case True
  with assms show ?thesis by (simp add: reorderForDependencies_def)
next
  case False
  then show ?thesis
  proof (rule reorder_cases)
    fix acts after ok acts'
    assume t: "take_dependent (js_keys (dependencyLinks b)) (actors b) [] = (acts, after)"
      and p: "place_pending (dependencyLinks b) acts after = (ok, acts')"
      and r: "reorderForDependencies b =
        ((if ok then None else Some (Cyclic_dependency_links (bus_name b))),
         b\<lparr>actors := acts'\<rparr>)"
    from r assms have ok and b': "actors b' = acts'" by (auto split: if_splits)
    with place_pending_mset [of "dependencyLinks b" acts after acts'] p
      take_dependent_mset [OF t]
    show ?thesis by simp
  qed
qed

section \<open>Properties of the bus\<close>

text \<open>
  C17. When every actor is subscribed once, a reordering that does not throw keeps exactly
  the subscribed actors and puts each actor after every subscribed actor that was declared
  to come before it.
\<close>

theorem reorder_topological:
  assumes "reorderForDependencies b = (None, b')" and "distinct (actors b)"
  shows "mset (actors b') = mset (actors b) \<and>
    (\<forall>a d. a \<in> set (actors b) \<and> d \<in> set (actors b) \<and>
        d \<in> set (dependents (dependencyLinks b) a) \<longrightarrow> precedes (actors b') d a)"
proof (cases "dependencyLinks b = []")
  case True
  with assms show ?thesis by (simp add: reorderForDependencies_def dependents_def)
next
  case False
  then show ?thesis
  proof (rule reorder_cases)
    fix acts after ok acts'
    assume t: "take_dependent (js_keys (dependencyLinks b)) (actors b) [] = (acts, after)"
      and p: "place_pending (dependencyLinks b) acts after = (ok, acts')"
      and r: "reorderForDependencies b =
        ((if ok then None else Some (Cyclic_dependency_links (bus_name b))),
         b\<lparr>actors := acts'\<rparr>)"
    from r assms(1) p have p': "place_pending (dependencyLinks b) acts after = (True, acts')"
      and b': "actors b' = acts'" by (auto split: if_splits)
    have dist: "distinct (acts @ after)"
      using take_dependent_distinct [OF t assms(2)] .
    have set_eq: "set (acts @ after) = set (actors b)"
      using take_dependent_mset [OF t] by (metis add.right_neutral mset.simps(1) mset_append
        set_mset_mset)
    have "precedes acts' d a"
      if "a \<in> set (actors b)" "d \<in> set (actors b)"
        "d \<in> set (dependents (dependencyLinks b) a)" for a d
    proof (rule place_pending_order [OF p' dist _ that(3)])
      have "a \<in> set (js_keys (dependencyLinks b))"
        using that(3) dependents_Nil_key by fastforce
      then show "a \<in> set after"
        using that(1) take_dependent_after [OF t assms(2)] by simp
      show "d \<in> set (acts @ after)" using that(2) set_eq by simp
    qed
    with reorder_ok_mset [OF assms(1)] b' show ?thesis by blast
  qed
qed

definition sample_bus :: "(nat, unit) bus" where
  "sample_bus = (new_bus ''b'')\<lparr>actors := [1, 2, 3], dependencyLinks := [(1, [2]), (2, [3])]\<rparr>"

theorem reorder_topological_witness:
  "precedes (actors (snd (reorderForDependencies sample_bus))) 2 1 \<and>
   precedes (actors (snd (reorderForDependencies sample_bus))) 3 2"
proof -
  have ok: "reorderForDependencies sample_bus = (None, snd (reorderForDependencies sample_bus))"
    by (simp add: sample_bus_def new_bus_def reorderForDependencies_def place_pending_step
        valid_link_def)
  show ?thesis
    using reorder_topological [OF ok] by (simp add: sample_bus_def dependents_def)
qed

text \<open>
  C18. For a bus whose actors are subscribed once each, the reordering throws exactly when
  some of the subscribed actors wait for each other in a cycle.
\<close>

theorem reorder_throws_iff_cycle:
  assumes "distinct (actors b)"
  shows "fst (reorderForDependencies b) \<noteq> None \<longleftrightarrow>
    (\<exists>S \<subseteq> set (actors b). link_cycle (dependencyLinks b) S)"
proof (cases "dependencyLinks b = []")
  case True
  then show ?thesis
    by (auto simp: reorderForDependencies_def link_cycle_def dependents_def)
next
  case False
  then show ?thesis
  proof (rule reorder_cases)
    fix acts after ok acts'
    assume t: "take_dependent (js_keys (dependencyLinks b)) (actors b) [] = (acts, after)"
      and p: "place_pending (dependencyLinks b) acts after = (ok, acts')"
      and r: "reorderForDependencies b =
        ((if ok then None else Some (Cyclic_dependency_links (bus_name b))),
         b\<lparr>actors := acts'\<rparr>)"
    have aft: "set after = set (js_keys (dependencyLinks b)) \<inter> set (actors b)"
      using take_dependent_after [OF t assms] by simp
    have dist: "distinct (acts @ after)"
      using take_dependent_distinct [OF t assms] .
    show ?thesis
    proof
      assume "fst (reorderForDependencies b) \<noteq> None"
      with r p have "place_pending (dependencyLinks b) acts after = (False, acts')"
        by (auto split: if_splits)
      from place_pending_fails_cycle [OF this] aft
      show "\<exists>S \<subseteq> set (actors b). link_cycle (dependencyLinks b) S" by blast
    next
      assume "\<exists>S \<subseteq> set (actors b). link_cycle (dependencyLinks b) S"
      then obtain S where S: "S \<subseteq> set (actors b)" "link_cycle (dependencyLinks b) S" by blast
      then have "S \<subseteq> set after" using aft link_cycle_keys [OF S(2)] by blast
      from place_pending_cycle_fails [OF S(2) this dist] p r
      show "fst (reorderForDependencies b) \<noteq> None" by simp
    qed
  qed
qed

theorem reorder_throws_iff_cycle_witness:
  "fst (reorderForDependencies sample_bus) \<noteq> None \<longleftrightarrow>
    (\<exists>S \<subseteq> set (actors sample_bus). link_cycle (dependencyLinks sample_bus) S)"
  by (rule reorder_throws_iff_cycle) (simp add: sample_bus_def)

end
