(* ===== verification/Indexed_Bus.thy ===== *)
theory Indexed_Bus
  imports Bus
begin

text \<open>
  The indexed bus of \<open>packages/core/lib/BusIndexed.ts\<close>: a bus that also files its actors
  under string identifiers.  The value an actor holds at its identifier field is a function
  argument (\<open>id_value\<close>: absent, one string, or an array of strings).  The index is
  compared with an abstract subscription log (\<open>index_log\<close>), which the operations extend and
  shrink as the interface promises.
\<close>

section \<open>Data and operations\<close>

datatype id_value = No_id | One_id string | Many_ids "string list"

record ('a, 'o) indexed_bus = "('a, 'o) bus" +
  actorsIndex :: "(string, 'a list) jsmap"

definition new_indexed_bus :: "string \<Rightarrow> ('a, 'o) indexed_bus" where
  "new_indexed_bus n = bus.extend (new_bus n) \<lparr>actorsIndex = []\<rparr>"

text \<open>An empty string is falsy, an array (even an empty one) is not.\<close>

fun getActorIdentifiers :: "id_value \<Rightarrow> string list option" where
  "getActorIdentifiers No_id = None"
| "getActorIdentifiers (One_id s) = (if s = [] then None else Some [s])"
| "getActorIdentifiers (Many_ids ss) = Some ss"

definition actor_ids :: "id_value \<Rightarrow> string list" where
  "actor_ids v = (case getActorIdentifiers v of None \<Rightarrow> [''_undefined_''] | Some ids \<Rightarrow> ids)"

definition index_entry :: "(string, 'a list) jsmap \<Rightarrow> string \<Rightarrow> 'a list" where
  "index_entry idx i = (case js_get idx i of None \<Rightarrow> [] | Some as \<Rightarrow> as)"

fun subscribe_ids ::
  "'a \<Rightarrow> string list \<Rightarrow> ('a, 'o) indexed_bus \<Rightarrow> bus_error option \<times> ('a, 'o) indexed_bus" where
  "subscribe_ids a [] b = (None, b)"
| "subscribe_ids a (i # is) b =
     (case subscribe a
             (b\<lparr>actorsIndex := js_set (actorsIndex b) i (index_entry (actorsIndex b) i @ [a])\<rparr>) of
        (Some e, b') \<Rightarrow> (Some e, b')
      | (None, b') \<Rightarrow> subscribe_ids a is b')"

definition subscribe_indexed ::
  "id_value \<Rightarrow> 'a \<Rightarrow> ('a, 'o) indexed_bus \<Rightarrow> bus_error option \<times> ('a, 'o) indexed_bus" where
  "subscribe_indexed v a b = subscribe_ids a (actor_ids v) b"

definition unfile :: "'a \<Rightarrow> string \<Rightarrow> (string, 'a list) jsmap \<Rightarrow> (string, 'a list) jsmap" where
  "unfile a i idx =
     (case js_get idx i of
        None \<Rightarrow> idx
      | Some as \<Rightarrow>
          (let as' = (if a \<in> set as then remove1 a as else as)
           in if as' = [] then js_delete idx i else js_set idx i as'))"

text \<open>
  \<open>unsubscribed || super.unsubscribe(actor)\<close> is evaluated lazily: once the flag is
  set, the actor is not taken out of the list of actors again.
\<close>

fun unsubscribe_ids ::
  "'a \<Rightarrow> string list \<Rightarrow> bool \<Rightarrow> ('a, 'o) indexed_bus \<Rightarrow> bool \<times> ('a, 'o) indexed_bus" where
  "unsubscribe_ids a [] done_before b = (done_before, b)"
| "unsubscribe_ids a (i # is) done_before b =
     (let b1 = b\<lparr>actorsIndex := unfile a i (actorsIndex b)\<rparr>;
          (r, b2) = (if done_before then (True, b1) else unsubscribe a b1)
      in unsubscribe_ids a is r b2)"

definition unsubscribe_indexed ::
  "id_value \<Rightarrow> 'a \<Rightarrow> ('a, 'o) indexed_bus \<Rightarrow> bool \<times> ('a, 'o) indexed_bus" where
  "unsubscribe_indexed v a b = unsubscribe_ids a (actor_ids v) False b"

definition publish_indexed ::
  "('a \<Rightarrow> 'i \<Rightarrow> 'r) \<Rightarrow> string option \<Rightarrow> 'i \<Rightarrow> ('a, 'o) indexed_bus \<Rightarrow> ('a \<times> 'r) list" where
  "publish_indexed test actionId action b =
     (case actionId of
        None \<Rightarrow> publish test action b
      | Some i \<Rightarrow>
          (if i = [] then publish test action b
           else map (\<lambda>a. (a, test a action))
                  (index_entry (actorsIndex b) i @ index_entry (actorsIndex b) ''_undefined_'')))"

section \<open>The abstract subscription log\<close>

type_synonym 'a index_log = "(string \<times> 'a) list"

definition filed_under :: "'a index_log \<Rightarrow> string \<Rightarrow> 'a list" where
  "filed_under l i = map snd (filter (\<lambda>p. fst p = i) l)"

definition index_repr :: "(string, 'a list) jsmap \<Rightarrow> 'a index_log \<Rightarrow> bool" where
  "index_repr idx l \<longleftrightarrow>
     (\<forall>i. index_entry idx i = filed_under l i) \<and> (\<forall>i. js_get idx i \<noteq> Some [])"

lemma filed_under_snoc [simp]:
  "filed_under (l @ [(j, a)]) i = (if i = j then filed_under l i @ [a] else filed_under l i)"
  by (simp add: filed_under_def)

lemma filed_under_Nil [simp]: "filed_under [] i = []"
  by (simp add: filed_under_def)

lemma filed_under_remove1 [simp]:
  "filed_under (remove1 (j, a) l) i =
     (if i = j then remove1 a (filed_under l i) else filed_under l i)"
  by (induction l) (auto simp: filed_under_def)

lemma index_entry_set [simp]:
  "index_entry (js_set idx j as) i = (if i = j then as else index_entry idx i)"
  by (simp add: index_entry_def)

lemma index_entry_delete [simp]:
  "index_entry (js_delete idx j) i = (if i = j then [] else index_entry idx i)"
  by (simp add: index_entry_def)

lemma index_repr_file:
  "index_repr idx l \<Longrightarrow>
     index_repr (js_set idx i (index_entry idx i @ [a])) (l @ [(i, a)])"
  by (auto simp: index_repr_def)

lemma index_entry_unfile [simp]:
  "index_entry (unfile a i idx) j =
     (if j = i then remove1 a (index_entry idx j) else index_entry idx j)"
  by (auto simp: unfile_def index_entry_def Let_def remove1_idem split: option.splits)

lemma unfile_nonempty:
  "\<forall>j. js_get idx j \<noteq> Some [] \<Longrightarrow> js_get (unfile a i idx) j \<noteq> Some []"
  by (simp add: unfile_def Let_def split: option.splits)

lemma index_repr_unfile:
  "index_repr idx l \<Longrightarrow> index_repr (unfile a i idx) (remove1 (i, a) l)"
  by (simp add: index_repr_def unfile_nonempty)

lemma subscribe_index [simp]: "actorsIndex (snd (subscribe a b)) = actorsIndex b"
  by (simp add: subscribe_def reorderForDependencies_def Let_def split: prod.splits)

lemma unsubscribe_index [simp]: "actorsIndex (snd (unsubscribe a b)) = actorsIndex b"
  by (simp add: unsubscribe_def)

lemma subscribe_ids_repr:
  "subscribe_ids a is b = (None, b') \<Longrightarrow> index_repr (actorsIndex b) l \<Longrightarrow>
     index_repr (actorsIndex b') (l @ map (\<lambda>i. (i, a)) is)"
proof (induction a "is" b arbitrary: l rule: subscribe_ids.induct)
  case (1 a b)
  then show ?case by simp
next
  case (2 a i "is" b)
  let ?b = "b\<lparr>actorsIndex := js_set (actorsIndex b) i (index_entry (actorsIndex b) i @ [a])\<rparr>"
  from "2.prems"(1) obtain b1 where s: "subscribe a ?b = (None, b1)"
    and r: "subscribe_ids a is b1 = (None, b')"
    by (auto split: prod.splits option.splits)
  have "actorsIndex b1 = actorsIndex ?b" using subscribe_index [of a ?b] s by simp
  then have "index_repr (actorsIndex b1) (l @ [(i, a)])"
    using index_repr_file [OF "2.prems"(2)] by simp
  from "2.IH" [OF s [symmetric] refl r this] show ?case by simp
qed

lemma unsubscribe_ids_repr:
  "unsubscribe_ids a is d b = (r, b') \<Longrightarrow> index_repr (actorsIndex b) l \<Longrightarrow>
     index_repr (actorsIndex b') (fold (\<lambda>i. remove1 (i, a)) is l)"
proof (induction "is" arbitrary: d b l)
  case Nil
  then show ?case by simp
next
  case (Cons i "is")
  let ?b = "b\<lparr>actorsIndex := unfile a i (actorsIndex b)\<rparr>"
  obtain r2 b2 where s: "(if d then (True, ?b) else unsubscribe a ?b) = (r2, b2)"
    by (cases "if d then (True, ?b) else unsubscribe a ?b")
  then have "actorsIndex b2 = unfile a i (actorsIndex b)"
    by (cases d) (auto simp: unsubscribe_def split: if_splits)
  moreover have "unsubscribe_ids a is r2 b2 = (r, b')"
    using Cons.prems(1) s by (simp add: Let_def)
  ultimately show ?case using Cons.IH index_repr_unfile [OF Cons.prems(2)] by simp
qed

text \<open>The buses reachable by subscribing and unsubscribing actors, with their logs.\<close>

inductive ibus_reach ::
  "('a \<Rightarrow> id_value) \<Rightarrow> ('a, 'o) indexed_bus \<Rightarrow> 'a index_log \<Rightarrow> bool"
  for idf :: "'a \<Rightarrow> id_value" where
  fresh: "ibus_reach idf (new_indexed_bus n) []"
| subscribed: "ibus_reach idf b l \<Longrightarrow> subscribe_indexed (idf a) a b = (None, b') \<Longrightarrow>
    ibus_reach idf b' (l @ map (\<lambda>i. (i, a)) (actor_ids (idf a)))"
| unsubscribed: "ibus_reach idf b l \<Longrightarrow> unsubscribe_indexed (idf a) a b = (r, b') \<Longrightarrow>
    ibus_reach idf b' (fold (\<lambda>i. remove1 (i, a)) (actor_ids (idf a)) l)"

lemma ibus_reach_repr: "ibus_reach idf b l \<Longrightarrow> index_repr (actorsIndex b) l"
proof (induction rule: ibus_reach.induct)
  case (fresh n)
  show ?case
    by (simp add: index_repr_def new_indexed_bus_def bus.defs index_entry_def)
next
  case (subscribed b l a b')
  then show ?case by (auto simp: subscribe_indexed_def dest: subscribe_ids_repr)
next
  case (unsubscribed b l a r b')
  then show ?case by (auto simp: unsubscribe_indexed_def dest: unsubscribe_ids_repr)
qed

lemma unsubscribe_ids_done:
  "unsubscribe_ids a is True b = (r, b') \<Longrightarrow> r \<and> actors b' = actors b"
  by (induction "is" arbitrary: b) auto

lemma unsubscribe_ids_actors:
  "is \<noteq> [] \<Longrightarrow> unsubscribe_ids a is False b = (r, b') \<Longrightarrow>
     actors b' = remove1 a (actors b) \<and> (r \<longleftrightarrow> a \<in> set (actors b))"
proof (induction "is" arbitrary: b)
  case Nil
  then show ?case by simp
next
  case (Cons i "is")
  show ?case
  proof (cases "a \<in> set (actors b)")
    case True
    with Cons.prems show ?thesis
      by (auto simp: unsubscribe_def dest!: unsubscribe_ids_done)
  next
    case False
    let ?b = "b\<lparr>actorsIndex := unfile a i (actorsIndex b)\<rparr>"
    from False Cons.prems(2) have rest: "unsubscribe_ids a is False ?b = (r, b')"
      by (simp add: unsubscribe_def Let_def)
    show ?thesis
    proof (cases "is = []")
      case True
      with rest False show ?thesis by (auto simp: remove1_idem)
    next
      case False
      from Cons.IH [OF False rest] show ?thesis by simp
    qed
  qed
qed

section \<open>Properties of the indexed bus\<close>

text \<open>
  On every reachable indexed bus, publishing an action with a non-empty identifier asks
  exactly the actors filed under it, then those filed without an identifier, each group in
  the order of subscription.
\<close>

theorem publish_indexed_log:
  assumes "ibus_reach idf b l" and "i \<noteq> []"
  shows "publish_indexed test (Some i) action b =
    map (\<lambda>a. (a, test a action)) (filed_under l i @ filed_under l ''_undefined_'')"
  using ibus_reach_repr [OF assms(1)] assms(2)
  by (simp add: publish_indexed_def index_repr_def)

definition sample_ids :: "nat \<Rightarrow> id_value" where
  "sample_ids a = (if a = 1 then Many_ids [''x'', ''y''] else No_id)"

definition sample_ibus :: "(nat, unit) indexed_bus" where
  "sample_ibus = snd (subscribe_indexed (sample_ids 1) 1 (new_indexed_bus ''b''))"

lemmas sample_ibus_eval =
  sample_ibus_def sample_ids_def subscribe_indexed_def actor_ids_def new_indexed_bus_def
  new_bus_def bus.defs subscribe_def reorderForDependencies_def index_entry_def

theorem publish_indexed_log_witness:
  "publish_indexed (\<lambda>a i. (a, i)) (Some ''x'') ''act'' sample_ibus =
     map (\<lambda>a. (a, (a, ''act'')))
       (filed_under ([] @ map (\<lambda>i. (i, 1)) (actor_ids (sample_ids 1))) ''x'' @
        filed_under ([] @ map (\<lambda>i. (i, 1)) (actor_ids (sample_ids 1))) ''_undefined_'')"
proof (rule publish_indexed_log)
  show "ibus_reach sample_ids sample_ibus ([] @ map (\<lambda>i. (i, 1)) (actor_ids (sample_ids 1)))"
    by (rule ibus_reach.subscribed [OF ibus_reach.fresh [of sample_ids "''b''"]])
       (simp add: sample_ibus_eval)
qed simp

text \<open>
  Unsubscribing takes an actor out of the index under all its identifiers, but out of the
  list of actors only once, although subscribing it had added it once per identifier.
\<close>

theorem unsubscribe_indexed_once:
  assumes "unsubscribe_indexed v a b = (r, b')" and "actor_ids v \<noteq> []"
  shows "actors b' = remove1 a (actors b) \<and> (r \<longleftrightarrow> a \<in> set (actors b)) \<and>
    (\<forall>l. index_repr (actorsIndex b) l \<longrightarrow>
       index_repr (actorsIndex b') (fold (\<lambda>i. remove1 (i, a)) (actor_ids v) l))"
proof -
  from assms(1) have u: "unsubscribe_ids a (actor_ids v) False b = (r, b')"
    by (simp add: unsubscribe_indexed_def)
  show ?thesis
    using unsubscribe_ids_actors [OF assms(2) u] unsubscribe_ids_repr [OF u] by blast
qed

theorem unsubscribe_indexed_once_witness:
  "actors sample_ibus = [1, 1] \<and>
   actors (snd (unsubscribe_indexed (sample_ids 1) 1 sample_ibus)) = [1]"
proof -
  have two: "actors sample_ibus = [1, 1]" by (simp add: sample_ibus_eval)
  have "actors (snd (unsubscribe_indexed (sample_ids 1) 1 sample_ibus)) =
      remove1 1 (actors sample_ibus)"
    using unsubscribe_indexed_once
      [OF surjective_pairing, of "sample_ids 1" 1 sample_ibus]
    by (simp add: sample_ids_def actor_ids_def)
  with two show ?thesis by simp
qed

end
