(* ===== verification/JS_Number.thy ===== *)
theory JS_Number
  imports Prelude
begin

text \<open>
  JavaScript numbers: the exact rationals with the two infinities and \<open>NaN\<close>.
  Comparison, the propagation of \<open>NaN\<close> and the arithmetic of the infinities are those of
  the language (IEEE 754); the rounding of finite results to 53 bits, underflow and the sign of
  zero are not modelled, which the components that use numbers as costs, cardinalities and
  positions do not depend on.
\<close>

datatype jsnum = NaN | NInf | Num rat | PInf

fun num_lt :: "jsnum \<Rightarrow> jsnum \<Rightarrow> bool" where
  "num_lt NaN y = False"
| "num_lt x NaN = False"
| "num_lt (Num a) (Num b) = (a < b)"
| "num_lt NInf y = (y \<noteq> NInf)"
| "num_lt x PInf = (x \<noteq> PInf)"
| "num_lt x y = False"

definition num_le :: "jsnum \<Rightarrow> jsnum \<Rightarrow> bool" where
  "num_le x y \<longleftrightarrow> x \<noteq> NaN \<and> y \<noteq> NaN \<and> \<not> num_lt y x"

fun num_add :: "jsnum \<Rightarrow> jsnum \<Rightarrow> jsnum" where
  "num_add (Num a) (Num b) = Num (a + b)"
| "num_add PInf PInf = PInf"
| "num_add PInf (Num b) = PInf"
| "num_add (Num a) PInf = PInf"
| "num_add NInf NInf = NInf"
| "num_add NInf (Num b) = NInf"
| "num_add (Num a) NInf = NInf"
| "num_add x y = NaN"

fun num_neg :: "jsnum \<Rightarrow> jsnum" where
  "num_neg NaN = NaN"
| "num_neg NInf = PInf"
| "num_neg (Num a) = Num (- a)"
| "num_neg PInf = NInf"

definition num_sub :: "jsnum \<Rightarrow> jsnum \<Rightarrow> jsnum" where
  "num_sub x y = num_add x (num_neg y)"

fun num_sgn :: "jsnum \<Rightarrow> rat" where
  "num_sgn NaN = 0"
| "num_sgn NInf = -1"
| "num_sgn (Num a) = sgn a"
| "num_sgn PInf = 1"

definition signed_inf :: "rat \<Rightarrow> jsnum" where
  "signed_inf s = (if s = 0 then NaN else if 0 < s then PInf else NInf)"

fun num_mul :: "jsnum \<Rightarrow> jsnum \<Rightarrow> jsnum" where
  "num_mul NaN y = NaN"
| "num_mul x NaN = NaN"
| "num_mul (Num a) (Num b) = Num (a * b)"
| "num_mul x y = signed_inf (num_sgn x * num_sgn y)"

fun num_div :: "jsnum \<Rightarrow> jsnum \<Rightarrow> jsnum" where
  "num_div NaN y = NaN"
| "num_div x NaN = NaN"
| "num_div (Num a) (Num b) = (if b = 0 then signed_inf (sgn a) else Num (a / b))"
| "num_div (Num a) y = Num 0"
| "num_div x (Num b) = signed_inf (if b = 0 then num_sgn x else num_sgn x * sgn b)"
| "num_div x y = NaN"

text \<open>\<open>Math.max\<close> and \<open>Math.min\<close> of two numbers and of a list.\<close>

definition num_max :: "jsnum \<Rightarrow> jsnum \<Rightarrow> jsnum" where
  "num_max x y = (if x = NaN \<or> y = NaN then NaN else if num_lt x y then y else x)"

definition num_min :: "jsnum \<Rightarrow> jsnum \<Rightarrow> jsnum" where
  "num_min x y = (if x = NaN \<or> y = NaN then NaN else if num_lt y x then y else x)"

definition num_max_list :: "jsnum list \<Rightarrow> jsnum" where
  "num_max_list xs = foldl num_max NInf xs"

definition num_min_list :: "jsnum list \<Rightarrow> jsnum" where
  "num_min_list xs = foldl num_min PInf xs"

lemma num_lt_irrefl [simp]: "\<not> num_lt x x"
  by (cases x) auto

lemma num_lt_trans: "num_lt x y \<Longrightarrow> num_lt y z \<Longrightarrow> num_lt x z"
  by (cases x; cases y; cases z) auto

lemma num_lt_linear: "x \<noteq> NaN \<Longrightarrow> y \<noteq> NaN \<Longrightarrow> num_lt x y \<or> x = y \<or> num_lt y x"
  by (cases x; cases y) auto

lemma num_lt_not_NaN: "num_lt x y \<Longrightarrow> x \<noteq> NaN \<and> y \<noteq> NaN"
  by (cases x; cases y) auto

lemma num_not_lt_trans:
  "\<not> num_lt y x \<Longrightarrow> \<not> num_lt z y \<Longrightarrow> y \<noteq> NaN \<Longrightarrow> \<not> num_lt z x"
  by (cases x; cases y; cases z) auto

lemma num_lt_NInf [simp]: "\<not> num_lt x NInf"
  by (cases x) auto

lemma num_lt_PInf [simp]: "\<not> num_lt PInf x"
  by (cases x) auto

lemma num_le_refl [simp]: "x \<noteq> NaN \<Longrightarrow> num_le x x"
  by (simp add: num_le_def)

lemma num_le_trans: "num_le x y \<Longrightarrow> num_le y z \<Longrightarrow> num_le x z"
  unfolding num_le_def by (metis num_not_lt_trans)

lemma num_le_Num [simp]: "num_le (Num a) (Num b) \<longleftrightarrow> a \<le> b"
  by (auto simp: num_le_def)

end
