(* ===== verification/Mediators.thy ===== *)
theory Mediators
  imports Indexed_Bus JS_Number
begin

text \<open>
  Test results (\<open>packages/core/lib/TestResult.ts\<close>), the abstract mediator
  (\<open>packages/core/lib/Mediator.ts\<close>) and the mediators of the packages
  \<open>mediator-number\<close>, \<open>mediator-race\<close>, \<open>mediator-all\<close>,
  \<open>mediator-combine-union\<close>, \<open>mediator-combine-pipeline\<close>.

  An actor's reply to a test is a promise: \<open>Inl\<close> if it rejects (with the error's
  message), \<open>Inr\<close> of the test result otherwise.  Promises awaited together by
  \<open>Promise.all\<close> are taken in the order of the list; only the race mediator depends on the
  order in which replies settle, which is an argument of its model.
\<close>

section \<open>Test results\<close>

datatype ('t, 's) test_result = Passed 't 's | Failed string

fun isPassed :: "('t, 's) test_result \<Rightarrow> bool" where
  "isPassed (Passed t s) = True"
| "isPassed (Failed m) = False"

fun getOrThrow :: "('t, 's) test_result \<Rightarrow> string + 't" where
  "getOrThrow (Passed t s) = Inr t"
| "getOrThrow (Failed m) = Inl m"

fun getSideData :: "('t, 's) test_result \<Rightarrow> string + 's" where
  "getSideData (Passed t s) = Inr s"
| "getSideData (Failed m) = Inl m"

fun getFailMessage :: "('t, 's) test_result \<Rightarrow> string option" where
  "getFailMessage (Passed t s) = None"
| "getFailMessage (Failed m) = Some m"

fun map_test :: "('t \<Rightarrow> 's \<Rightarrow> 'u) \<Rightarrow> ('t, 's) test_result \<Rightarrow> ('u, 's) test_result" where
  "map_test f (Passed t s) = Passed (f t s) s"
| "map_test f (Failed m) = Failed m"

fun mapAsync_test ::
  "('t \<Rightarrow> 's \<Rightarrow> string + 'u) \<Rightarrow> ('t, 's) test_result \<Rightarrow> string + ('u, 's) test_result" where
  "mapAsync_test f (Passed t s) = bind_res (f t s) (\<lambda>u. Inr (Passed u s))"
| "mapAsync_test f (Failed m) = Inr (Failed m)"

type_synonym ('a, 't, 's) reply = "'a \<times> (string + ('t, 's) test_result)"

section \<open>The abstract mediator\<close>

text \<open>
  \<open>constructFailureMessage\<close> expands the template references \<open>${path}\<close> of the bus's
  failure message: the shortest text up to the next closing brace on the same line.  The value
  found in the action at a path, as text, is the argument \<open>lk\<close> (\<open>None\<close> when it is
  falsy).
\<close>

fun split_on :: "char \<Rightarrow> string \<Rightarrow> string list" where
  "split_on c [] = [[]]"
| "split_on c (x # xs) =
     (if x = c then [] # split_on c xs
      else (case split_on c xs of [] \<Rightarrow> [[x]] | w # ws \<Rightarrow> (x # w) # ws))"

definition newline :: char where "newline = CHR 0x0A"

fun until_brace :: "string \<Rightarrow> (string \<times> string) option" where
  "until_brace [] = None"
| "until_brace (x # xs) =
     (if x = CHR ''}'' then Some ([], xs)
      else if x = newline \<or> x = CHR 0x0D then None
      else (case until_brace xs of None \<Rightarrow> None | Some (k, r) \<Rightarrow> Some (x # k, r)))"

lemma until_brace_length: "until_brace xs = Some (k, r) \<Longrightarrow> length r < length xs"
  by (induction xs arbitrary: k) (auto split: if_splits option.splits)

function expand_template :: "(string list \<Rightarrow> string option) \<Rightarrow> string \<Rightarrow> string" where
  "expand_template lk [] = []"
| "expand_template lk (x # xs) =
     (case (if x = CHR ''$'' then xs else []) of
        [] \<Rightarrow> x # expand_template lk xs
      | y # ys \<Rightarrow>
          (if y \<noteq> CHR ''{'' then x # expand_template lk xs
           else (case until_brace ys of
                   None \<Rightarrow> x # expand_template lk xs
                 | Some (k, r) \<Rightarrow>
                     (case lk (split_on (CHR ''.'') k) of
                        None \<Rightarrow> ''${'' @ k @ ''}''
                      | Some v \<Rightarrow> v) @ expand_template lk r)))"
  by pat_completeness auto
termination
  by (relation "measure (\<lambda>(lk, xs). length xs)")
     (auto dest!: until_brace_length split: if_splits)

definition constructFailureMessage ::
  "(string list \<Rightarrow> string option) \<Rightarrow> string \<Rightarrow> string list \<Rightarrow> string" where
  "constructFailureMessage lk busMessage actorFailures =
     (let prefix = newline # ''        '' in
      expand_template lk busMessage @ newline # ''    Error messages of failing actors:'' @
        prefix @ join_strings prefix actorFailures)"

definition mediator_publish ::
  "string \<Rightarrow> ('a, 't, 's) reply list \<Rightarrow> string + ('a, 't, 's) reply list" where
  "mediator_publish busName replies =
     (if replies = [] then
        Inl (''No actors are able to reply to a message in the bus '' @ busName)
      else Inr replies)"

text \<open>
  \<open>mediateWith\<close> is the abstract method; it returns a promise, which may never settle
  (\<open>None\<close>), reject, or give the test result that holds the chosen actor.
\<close>

type_synonym ('a, 't, 's) chooser =
  "('a, 't, 's) reply list \<Rightarrow> (string + ('a, 's) test_result) option"

definition mediateActor ::
  "('a, 't, 's) chooser \<Rightarrow> ('a \<Rightarrow> 'i \<Rightarrow> string + ('t, 's) test_result) \<Rightarrow> 'i \<Rightarrow>
     ('a, 'o, 'z) bus_scheme \<Rightarrow> (string + ('a, 's) test_result) option" where
  "mediateActor mediateWith test action b =
     (case mediator_publish (bus_name b) (publish test action b) of
        Inl e \<Rightarrow> Some (Inl e)
      | Inr rs \<Rightarrow> mediateWith rs)"

definition mediateTestable ::
  "('a, 't, 's) chooser \<Rightarrow> ('a \<Rightarrow> 'i \<Rightarrow> string + ('t, 's) test_result) \<Rightarrow>
     ('a \<Rightarrow> 'i \<Rightarrow> 's \<Rightarrow> string + 'r) \<Rightarrow> 'i \<Rightarrow> ('a, 'o, 'z) bus_scheme \<Rightarrow>
     (string + ('r, 's) test_result) option" where
  "mediateTestable mediateWith test run action b =
     map_option (\<lambda>r. bind_res r (mapAsync_test (\<lambda>a s. run a action s)))
       (mediateActor mediateWith test action b)"

definition mediate ::
  "('a, 't, 's) chooser \<Rightarrow> ('a \<Rightarrow> 'i \<Rightarrow> string + ('t, 's) test_result) \<Rightarrow>
     ('a \<Rightarrow> 'i \<Rightarrow> 's \<Rightarrow> string + 'r) \<Rightarrow> 'i \<Rightarrow> ('a, 'o, 'z) bus_scheme \<Rightarrow> (string + 'r) option" where
  "mediate mediateWith test run action b =
     map_option (\<lambda>r. bind_res r getOrThrow) (mediateTestable mediateWith test run action b)"

text \<open>
  The contract of \<open>mediateWith\<close>: the actor it chooses is one whose test passed, and it is
  handed the side data of its own test.
\<close>

locale mediator_law =
  fixes mediateWith :: "('a, 't, 's) chooser"
  assumes chosen_passed:
    "mediateWith rs = Some (Inr (Passed a s)) \<Longrightarrow> \<exists>t. (a, Inr (Passed t s)) \<in> set rs"
begin

lemma mediate_runs_passed:
  assumes "mediate mediateWith test run action b = Some (Inr r)"
  shows "\<exists>a t s. a \<in> set (actors b) \<and> test a action = Inr (Passed t s) \<and> run a action s = Inr r"
proof -
  obtain x where x: "mediateActor mediateWith test action b = Some (Inr x)"
    and r: "bind_res (mapAsync_test (\<lambda>a s. run a action s) x) getOrThrow = Inr r"
    using assms by (auto simp: mediate_def mediateTestable_def res_simps)
  from r obtain a s where p: "x = Passed a s" and run: "run a action s = Inr r"
    by (cases x) (auto simp: res_simps)
  from x have "mediateWith (publish test action b) = Some (Inr (Passed a s))"
    unfolding mediateActor_def mediator_publish_def p by (auto split: if_splits)
  from chosen_passed [OF this] obtain t
    where "(a, Inr (Passed t s)) \<in> set (publish test action b)" by blast
  then have "a \<in> set (actors b)" and "test a action = Inr (Passed t s)"
    by (auto simp: publish_def)
  with run show ?thesis by blast
qed

lemma mediate_empty_bus:
  assumes "actors b = []"
  shows "mediate mediateWith test run action b =
    Some (Inl (''No actors are able to reply to a message in the bus '' @ bus_name b))"
  using assms
  by (simp add: mediate_def mediateTestable_def mediateActor_def mediator_publish_def publish_def)

end

end
