(* ===== verification/Metadata.thy ===== *)
theory Metadata
  imports JS_Number
begin

text \<open>
  Metadata of streams: \<open>packages/utils-metadata/lib\<close> (validation states and cached metadata
  callbacks), the metadata interfaces of \<open>packages/types/lib/IMetadata.ts\<close>, and the actors
  of \<open>packages/actor-rdf-metadata-accumulate-*\<close>.

  Validation states and cached callbacks are objects shared by reference.  They live in a store
  here: a state or a callback is its position in a list.  The listeners that the repository adds
  to a state invalidate another state (\<open>Invalidate\<close>) or clear the variable \<open>lastReturn\<close>
  of a cached callback (\<open>Forget\<close>).
\<close>

section \<open>Data\<close>

datatype cardinality_type = Exact | Estimate

record cardinality =
  card_type :: cardinality_type
  card_value :: jsnum
  card_dataset :: "string option"

record metadata =
  md_state :: nat
  md_variables :: "(string \<times> bool) list"
  md_cardinality :: cardinality
  md_pageSize :: "jsnum option"
  md_requestTime :: "jsnum option"

datatype listener = Invalidate nat | Forget nat

record validation_state =
  vs_valid :: bool
  vs_listeners :: "listener list"

text \<open>The variable \<open>lastReturn\<close>: unset, or a promise that is pending, rejected, or resolved
  to metadata with the given state.\<close>

datatype last_return = NoReturn | Pending | Rejected | Returned nat

record store =
  states :: "validation_state list"
  caches :: "last_return list"

section \<open>Operations\<close>

definition new_state :: "store \<Rightarrow> nat \<times> store" where
  "new_state st =
     (length (states st), st\<lparr>states := states st @ [\<lparr>vs_valid = True, vs_listeners = []\<rparr>]\<rparr>)"

definition addInvalidateListener :: "nat \<Rightarrow> listener \<Rightarrow> store \<Rightarrow> store" where
  "addInvalidateListener s l st =
     st\<lparr>states := (states st)[s := (states st ! s)\<lparr>vs_listeners := vs_listeners (states st ! s) @ [l]\<rparr>]\<rparr>"

definition is_valid :: "store \<Rightarrow> nat \<Rightarrow> bool" where
  "is_valid st s \<longleftrightarrow> s < length (states st) \<and> vs_valid (states st ! s)"

definition set_invalid :: "nat \<Rightarrow> store \<Rightarrow> store" where
  "set_invalid s st = st\<lparr>states := (states st)[s := (states st ! s)\<lparr>vs_valid := False\<rparr>]\<rparr>"

definition forget :: "nat \<Rightarrow> store \<Rightarrow> store" where
  "forget c st = st\<lparr>caches := (caches st)[c := NoReturn]\<rparr>"

lemma filter_update_less:
  "i < length xs \<Longrightarrow> P (xs ! i) \<Longrightarrow> \<not> P y \<Longrightarrow>
     length (filter P (xs[i := y])) < length (filter P xs)"
proof (induction xs arbitrary: i)
  case Nil
  then show ?case by simp
next
  case (Cons x xs)
  then show ?case by (cases i) auto
qed

lemma card_valid_less:
  "is_valid st s \<Longrightarrow>
     length (filter vs_valid (states (set_invalid s st))) < length (filter vs_valid (states st))"
  by (auto simp: is_valid_def set_invalid_def intro: filter_update_less)

text \<open>Running listeners in order; the listeners of a state run before the listeners that follow
  the one which invalidated it.\<close>

function run_listeners :: "listener list \<Rightarrow> store \<Rightarrow> store" where
  "run_listeners [] st = st"
| "run_listeners (Forget c # ls) st = run_listeners ls (forget c st)"
| "run_listeners (Invalidate s # ls) st =
     (if is_valid st s
      then run_listeners (vs_listeners (states st ! s) @ ls) (set_invalid s st)
      else run_listeners ls st)"
  by pat_completeness auto

termination
  by (relation "measures [\<lambda>(ls, st). length (filter vs_valid (states st)), \<lambda>(ls, st). length ls]")
     (auto simp: card_valid_less forget_def)

definition invalidate :: "nat \<Rightarrow> store \<Rightarrow> store" where
  "invalidate s st = run_listeners [Invalidate s] st"

text \<open>A state that is invalidated with each of the given states (\<open>constructState\<close> of the
  join actors).\<close>

definition constructState :: "metadata list \<Rightarrow> store \<Rightarrow> nat \<times> store" where
  "constructState metadatas st =
     (let (s, st') = new_state st
      in (s, fold (\<lambda>m. addInvalidateListener (md_state m) (Invalidate s)) metadatas st'))"

text \<open>A cached callback: it is called, its promise settles, its state is invalidated.\<close>

definition call_cached :: "nat \<Rightarrow> store \<Rightarrow> store" where
  "call_cached c st =
     (if caches st ! c = NoReturn then st\<lparr>caches := (caches st)[c := Pending]\<rparr> else st)"

definition resolve_cached :: "nat \<Rightarrow> nat \<Rightarrow> store \<Rightarrow> store" where
  "resolve_cached c s st =
     addInvalidateListener s (Forget c) (st\<lparr>caches := (caches st)[c := Returned s]\<rparr>)"

definition reject_cached :: "nat \<Rightarrow> store \<Rightarrow> store" where
  "reject_cached c st = st\<lparr>caches := (caches st)[c := Rejected]\<rparr>"

inductive store_step :: "store \<Rightarrow> store \<Rightarrow> bool" where
  step_new_state: "store_step st (snd (new_state st))"
| step_new_cache: "store_step st (st\<lparr>caches := caches st @ [NoReturn]\<rparr>)"
| step_listen: "s < length (states st) \<Longrightarrow> t < length (states st) \<Longrightarrow>
     store_step st (addInvalidateListener s (Invalidate t) st)"
| step_call: "c < length (caches st) \<Longrightarrow> store_step st (call_cached c st)"
| step_resolve: "c < length (caches st) \<Longrightarrow> caches st ! c = Pending \<Longrightarrow> s < length (states st) \<Longrightarrow>
     store_step st (resolve_cached c s st)"
| step_reject: "c < length (caches st) \<Longrightarrow> caches st ! c = Pending \<Longrightarrow>
     store_step st (reject_cached c st)"
| step_invalidate: "s < length (states st) \<Longrightarrow> store_step st (invalidate s st)"

inductive_cases store_stepE: "store_step st st'"

section \<open>Raw metadata\<close>

datatype metadata_error = Missing_metadata string

fun validate_keys :: "string list \<Rightarrow> (string, 'a) jsmap \<Rightarrow> metadata_error + (string, 'a) jsmap" where
  "validate_keys [] raw = Inr raw"
| "validate_keys (k # ks) raw =
     (if \<not> js_has raw k then Inl (Missing_metadata k) else validate_keys ks raw)"

definition validateMetadataQuads :: "(string, 'a) jsmap \<Rightarrow> metadata_error + (string, 'a) jsmap" where
  "validateMetadataQuads raw = validate_keys [''cardinality''] raw"

definition validateMetadataBindings :: "(string, 'a) jsmap \<Rightarrow> metadata_error + (string, 'a) jsmap" where
  "validateMetadataBindings raw = validate_keys [''cardinality'', ''variables''] raw"

section \<open>Accumulating metadata\<close>

text \<open>The fields of the accumulated and appended metadata that the accumulating actors read.\<close>

record acc_metadata =
  am_cardinality :: "cardinality option"
  am_defaultGraph :: "string option"
  am_subsetOf :: "string option"
  am_pageSize :: "jsnum option"
  am_requestTime :: "jsnum option"

datatype accumulate_error = Undefined_cardinality

definition truthy_string :: "string option \<Rightarrow> bool" where
  "truthy_string s \<longleftrightarrow> s \<noteq> None \<and> s \<noteq> Some []"

definition is_finite :: "jsnum \<Rightarrow> bool" where
  "is_finite x \<longleftrightarrow> x \<noteq> NaN \<and> x \<noteq> PInf \<and> x \<noteq> NInf"

text \<open>The last part of the cardinality actor: adding the values.\<close>

definition add_cardinality :: "cardinality \<Rightarrow> cardinality option \<Rightarrow> cardinality" where
  "add_cardinality acc app =
     (case app of
        None \<Rightarrow> acc\<lparr>card_type := Estimate, card_value := PInf\<rparr>
      | Some a \<Rightarrow>
          (if \<not> is_finite (card_value a) then acc\<lparr>card_type := Estimate, card_value := PInf\<rparr>
           else acc\<lparr>card_type := (if card_type a = Estimate then Estimate else card_type acc),
                    card_value := num_add (card_value acc) (card_value a)\<rparr>))"

definition initialize_cardinality :: cardinality where
  "initialize_cardinality = \<lparr>card_type = Exact, card_value = Num 0, card_dataset = None\<rparr>"

definition append_cardinality :: "cardinality \<Rightarrow> string option \<Rightarrow> acc_metadata \<Rightarrow>
    accumulate_error + cardinality" where
  "append_cardinality cardinality defaultGraph app =
     (if truthy_string (card_dataset cardinality) then
        (case am_cardinality app of
           None \<Rightarrow> Inl Undefined_cardinality
         | Some a \<Rightarrow>
             (if defaultGraph = card_dataset cardinality \<and>
                 card_dataset cardinality \<noteq> card_dataset a then Inr a
              else if truthy_string (card_dataset a) then
                (if card_dataset cardinality \<noteq> card_dataset a \<and>
                    am_subsetOf app = card_dataset cardinality then Inr a
                 else if card_dataset cardinality = card_dataset a then Inr cardinality
                 else Inr (add_cardinality (cardinality\<lparr>card_dataset := None\<rparr>) (Some a)))
              else Inr cardinality))
      else Inr (add_cardinality cardinality (am_cardinality app)))"

definition append_optional :: "jsnum option \<Rightarrow> jsnum option \<Rightarrow> jsnum option" where
  "append_optional acc app =
     (if acc \<noteq> None \<or> app \<noteq> None
      then Some (num_add (case acc of None \<Rightarrow> Num 0 | Some x \<Rightarrow> x)
                         (case app of None \<Rightarrow> Num 0 | Some x \<Rightarrow> x))
      else None)"

definition append_pageSize :: "acc_metadata \<Rightarrow> acc_metadata \<Rightarrow> jsnum option" where
  "append_pageSize acc app = append_optional (am_pageSize acc) (am_pageSize app)"

definition append_requestTime :: "acc_metadata \<Rightarrow> acc_metadata \<Rightarrow> jsnum option" where
  "append_requestTime acc app = append_optional (am_requestTime acc) (am_requestTime app)"

section \<open>Validation\<close>

lemma store_lengths [simp]:
  "length (states (set_invalid s st)) = length (states st)"
  "length (states (forget c st)) = length (states st)"
  "length (caches (set_invalid s st)) = length (caches st)"
  "length (caches (forget c st)) = length (caches st)"
  "length (states (addInvalidateListener s l st)) = length (states st)"
  "caches (addInvalidateListener s l st) = caches st"
  "caches (set_invalid s st) = caches st"
  "states (forget c st) = states st"
  by (simp_all add: set_invalid_def forget_def addInvalidateListener_def)

lemma listeners_set_invalid [simp]:
  "vs_listeners (states (set_invalid s st) ! t) = vs_listeners (states st ! t)"
  by (simp add: set_invalid_def nth_upd)

lemma is_valid_set_invalid [simp]: "is_valid (set_invalid s st) t \<longleftrightarrow> is_valid st t \<and> t \<noteq> s"
  by (auto simp: is_valid_def set_invalid_def nth_upd)

lemma is_valid_forget [simp]: "is_valid (forget c st) t = is_valid st t"
  by (simp add: is_valid_def)

lemma is_valid_listen [simp]: "is_valid (addInvalidateListener s l st) t = is_valid st t"
  by (auto simp: is_valid_def addInvalidateListener_def nth_upd)

lemma listeners_listen:
  "s < length (states st) \<Longrightarrow> vs_listeners (states (addInvalidateListener s l st) ! t) =
     (if t = s then vs_listeners (states st ! t) @ [l] else vs_listeners (states st ! t))"
  by (auto simp: addInvalidateListener_def nth_upd)

lemma run_listeners_frame:
  "length (states (run_listeners ls st)) = length (states st) \<and>
   length (caches (run_listeners ls st)) = length (caches st) \<and>
   vs_listeners (states (run_listeners ls st) ! t) = vs_listeners (states st ! t)"
  by (induction ls st rule: run_listeners.induct) auto

lemma run_listeners_valid: "is_valid (run_listeners ls st) t \<Longrightarrow> is_valid st t"
  by (induction ls st rule: run_listeners.induct) (auto split: if_splits)

text \<open>A callback that holds metadata listens to the state of that metadata, and to no other valid
  state.\<close>

definition caches_listen :: "store \<Rightarrow> bool" where
  "caches_listen st \<longleftrightarrow> (\<forall>c < length (caches st). \<forall>s. caches st ! c = Returned s \<longrightarrow>
     s < length (states st) \<and> Forget c \<in> set (vs_listeners (states st ! s)))"

definition listeners_hold :: "store \<Rightarrow> bool" where
  "listeners_hold st \<longleftrightarrow> (\<forall>t c. is_valid st t \<longrightarrow> Forget c \<in> set (vs_listeners (states st ! t)) \<longrightarrow>
     c < length (caches st) \<and> caches st ! c = Returned t)"

text \<open>The callbacks that the listeners still to run clear hold no valid metadata.\<close>

definition forgets_due :: "listener list \<Rightarrow> store \<Rightarrow> bool" where
  "forgets_due ls st \<longleftrightarrow> (\<forall>c t. Forget c \<in> set ls \<longrightarrow> caches st ! c = Returned t \<longrightarrow> \<not> is_valid st t)"

lemma forget_nth: "c < length (caches st) \<Longrightarrow> caches (forget d st) ! c = (if c = d then NoReturn else caches st ! c)"
  by (simp add: forget_def nth_upd)

lemma run_listeners_caches:
  "c < length (caches st) \<Longrightarrow> caches (run_listeners ls st) ! c \<in> {caches st ! c, NoReturn}"
  by (induction ls st rule: run_listeners.induct) (auto simp: forget_nth)

lemma run_listeners_clear:
  "Forget c \<in> set ls \<Longrightarrow> c < length (caches st) \<Longrightarrow> caches (run_listeners ls st) ! c = NoReturn"
proof (induction ls st rule: run_listeners.induct)
  case (2 d ls st)
  show ?case
  proof (cases "c = d")
    case True
    then show ?thesis using run_listeners_caches [of c "forget d st" ls] 2 by (simp add: forget_nth)
  qed (use 2 in simp)
qed auto

lemma caches_listen_run: "caches_listen st \<Longrightarrow> caches_listen (run_listeners ls st)"
  unfolding caches_listen_def
proof (intro allI impI)
  fix c s assume st: "\<forall>c < length (caches st). \<forall>s. caches st ! c = Returned s \<longrightarrow>
      s < length (states st) \<and> Forget c \<in> set (vs_listeners (states st ! s))"
    and c: "c < length (caches (run_listeners ls st))" "caches (run_listeners ls st) ! c = Returned s"
  note frame = run_listeners_frame [of ls st s]
  from c frame run_listeners_caches [of c st ls] have "c < length (caches st)" "caches st ! c = Returned s" by auto
  with st frame show "s < length (states (run_listeners ls st)) \<and>
      Forget c \<in> set (vs_listeners (states (run_listeners ls st) ! s))" by simp
qed

lemma forget_returned: "caches (forget c st) ! d = Returned t \<Longrightarrow> caches st ! d = Returned t"
  by (cases "c < length (caches st)") (auto simp: forget_def nth_list_update list_update_beyond split: if_splits)

lemma forgets_due_forget:
  assumes "listeners_hold st" "forgets_due (Forget c # ls) st"
  shows "listeners_hold (forget c st) \<and> forgets_due ls (forget c st)"
proof
  have "d < length (caches st) \<and> caches (forget c st) ! d = Returned t"
    if t: "is_valid st t" "Forget d \<in> set (vs_listeners (states st ! t))" for t d
  proof -
    from assms(1) t have d: "d < length (caches st)" "caches st ! d = Returned t" by (simp_all add: listeners_hold_def)
    with assms(2) t(1) have "d \<noteq> c" unfolding forgets_due_def by (meson list.set_intros(1))
    with d show ?thesis by (simp add: forget_nth)
  qed
  then show "listeners_hold (forget c st)" by (simp add: listeners_hold_def)
  show "forgets_due ls (forget c st)"
    using assms(2) forget_returned unfolding forgets_due_def is_valid_forget by (meson list.set_intros(2))
qed

lemma forgets_due_invalid:
  assumes hold: "listeners_hold st" and due: "forgets_due (Invalidate s # ls) st" and s: "is_valid st s"
  shows "listeners_hold (set_invalid s st) \<and> forgets_due (vs_listeners (states st ! s) @ ls) (set_invalid s st)"
proof
  show "listeners_hold (set_invalid s st)" using hold unfolding listeners_hold_def by simp blast
  show "forgets_due (vs_listeners (states st ! s) @ ls) (set_invalid s st)"
    unfolding forgets_due_def
  proof (intro allI impI)
    fix c t assume c: "Forget c \<in> set (vs_listeners (states st ! s) @ ls)" "caches (set_invalid s st) ! c = Returned t"
    show "\<not> is_valid (set_invalid s st) t"
    proof (cases "Forget c \<in> set ls")
      case True
      with c(2) due show ?thesis by (simp add: forgets_due_def)
    next
      case False
      with c hold s have "t = s" by (auto simp: listeners_hold_def)
      then show ?thesis by simp
    qed
  qed
qed

lemma listeners_hold_run: "listeners_hold st \<Longrightarrow> forgets_due ls st \<Longrightarrow> listeners_hold (run_listeners ls st)"
proof (induction ls st rule: run_listeners.induct)
  case (2 c ls st)
  with forgets_due_forget [OF 2(2,3)] show ?case by simp
next
  case (3 s ls st)
  show ?case
  proof (cases "is_valid st s")
    case True
    with 3 forgets_due_invalid [OF 3(3,4) True] show ?thesis by simp
  next
    case False
    with 3 show ?thesis by (simp add: forgets_due_def)
  qed
qed simp

text \<open>Valid metadata is cleared exactly when its state is invalidated.\<close>

lemma run_listeners_cached:
  "caches_listen st \<Longrightarrow> listeners_hold st \<Longrightarrow> forgets_due ls st \<Longrightarrow> c < length (caches st) \<Longrightarrow>
   caches st ! c = Returned s \<Longrightarrow> is_valid st s \<Longrightarrow>
   caches (run_listeners ls st) ! c = (if is_valid (run_listeners ls st) s then Returned s else NoReturn)"
proof (induction ls st rule: run_listeners.induct)
  case (2 d ls st)
  have "d \<noteq> c" using "2.prems" by (auto simp: forgets_due_def)
  moreover have "caches_listen (forget d st)"
    using "2.prems"(1) by (auto simp: caches_listen_def forget_def nth_upd)
  ultimately show ?case using 2 forgets_due_forget [OF "2.prems"(2,3)] by (simp add: forget_nth)
next
  case (3 t ls st)
  show ?case
  proof (cases "is_valid st t")
    case True
    note due = forgets_due_invalid [OF "3.prems"(2,3) True]
    show ?thesis
    proof (cases "s = t")
      case s: True
      let ?r = "run_listeners (vs_listeners (states st ! t) @ ls) (set_invalid t st)"
      have "Forget c \<in> set (vs_listeners (states st ! t) @ ls)"
        using "3.prems" s by (auto simp: caches_listen_def)
      then have "caches ?r ! c = NoReturn" by (rule run_listeners_clear) (use "3.prems" in simp)
      moreover have "\<not> is_valid ?r s" using run_listeners_valid [of _ "set_invalid t st" s] s by auto
      ultimately show ?thesis using True by simp
    next
      case False
      with 3 True due show ?thesis by (simp add: caches_listen_def)
    qed
  next
    case False
    with 3 show ?thesis by (simp add: forgets_due_def)
  qed
qed simp

text \<open>Invalid states have passed their invalidity on, except by listeners still to run.\<close>

definition invalidity_closed :: "listener list \<Rightarrow> store \<Rightarrow> bool" where
  "invalidity_closed ls st \<longleftrightarrow> (\<forall>s < length (states st). \<forall>t. \<not> is_valid st s \<longrightarrow>
     Invalidate t \<in> set (vs_listeners (states st ! s)) \<longrightarrow> is_valid st t \<longrightarrow> Invalidate t \<in> set ls)"

lemma run_listeners_closed:
  "invalidity_closed ls st \<Longrightarrow> invalidity_closed [] (run_listeners ls st)"
proof (induction ls st rule: run_listeners.induct)
  case (1 st)
  then show ?case by simp
next
  case (2 c ls st)
  have "invalidity_closed ls (forget c st)"
    using "2.prems" by (auto simp: invalidity_closed_def)
  with 2 show ?case by simp
next
  case (3 s ls st)
  show ?case
  proof (cases "is_valid st s")
    case True
    have "invalidity_closed (vs_listeners (states st ! s) @ ls) (set_invalid s st)"
      using "3.prems" by (auto simp: invalidity_closed_def)
    with 3 True show ?thesis by simp
  next
    case False
    with 3 show ?thesis by (auto simp: invalidity_closed_def)
  qed
qed

lemma run_listeners_invalidates:
  "Invalidate t \<in> set ls \<Longrightarrow> \<not> is_valid (run_listeners ls st) t"
proof (induction ls st rule: run_listeners.induct)
  case (1 st)
  then show ?case by simp
next
  case (2 c ls st)
  then show ?case by simp
next
  case (3 s ls st)
  then show ?case by (cases "s = t") (auto dest: run_listeners_valid)
qed

lemma caches_listen_step:
  assumes "store_step st st'" and "caches_listen st"
  shows "caches_listen st'"
  using assms
proof (cases rule: store_step.cases)
  case (step_invalidate s)
  from caches_listen_run [OF assms(2)] show ?thesis unfolding step_invalidate(1) invalidate_def .
qed (auto simp: caches_listen_def new_state_def nth_append listeners_listen call_cached_def resolve_cached_def
      reject_cached_def nth_upd less_Suc_eq split: if_splits)

lemma listeners_hold_step:
  assumes "store_step st st'" and "listeners_hold st"
  shows "listeners_hold st'"
  using assms
proof (cases rule: store_step.cases)
  case (step_resolve c s)
  let ?st = "st\<lparr>caches := (caches st)[c := Returned s]\<rparr>"
  have s: "s < length (states ?st)" using step_resolve by simp
  have v: "is_valid ?st t = is_valid st t" for t by (simp add: is_valid_def)
  show ?thesis
    using assms(2) step_resolve unfolding listeners_hold_def resolve_cached_def
    by (auto simp: nth_upd listeners_listen [OF s] v)
next
  case (step_invalidate s)
  have "forgets_due [Invalidate s] st" by (simp add: forgets_due_def)
  from listeners_hold_run [OF assms(2) this] show ?thesis unfolding step_invalidate(1) invalidate_def .
next
  case step_new_cache
  with assms(2) show ?thesis by (auto simp: listeners_hold_def is_valid_def nth_append less_SucI)
qed (auto simp: listeners_hold_def new_state_def is_valid_def nth_append listeners_listen call_cached_def
      reject_cached_def addInvalidateListener_def nth_upd split: if_splits)

definition empty_store :: store where
  "empty_store = \<lparr>states = [], caches = []\<rparr>"

lemma reach_listening: "store_step\<^sup>*\<^sup>* empty_store st \<Longrightarrow> caches_listen st \<and> listeners_hold st"
proof (induction rule: rtranclp_induct)
  case base
  then show ?case by (simp add: caches_listen_def listeners_hold_def empty_store_def is_valid_def)
next
  case (step y z)
  then show ?case using caches_listen_step listeners_hold_step by blast
qed

text \<open>A step other than an invalidation changes neither valid states nor what is cached.\<close>

lemma step_cached:
  assumes "store_step st st'" and inv: "caches_listen st" "listeners_hold st"
    and c: "c < length (caches st)" "caches st ! c = Returned s" "is_valid st s"
  shows "caches st' ! c = (if is_valid st' s then Returned s else NoReturn)"
  using assms(1)
proof (cases rule: store_step.cases)
  case (step_invalidate t)
  have "forgets_due [Invalidate t] st" by (simp add: forgets_due_def)
  from run_listeners_cached [OF inv this c] step_invalidate show ?thesis by (simp add: invalidate_def)
next
  case (step_resolve d t)
  then have "d \<noteq> c" using c by auto
  with step_resolve c show ?thesis
    by (simp add: resolve_cached_def nth_upd) (simp add: is_valid_def)
next
  case (step_reject d)
  then have "d \<noteq> c" using c by auto
  with step_reject c show ?thesis by (simp add: reject_cached_def nth_upd is_valid_def)
next
  case (step_call d)
  then have "caches st' ! c = Returned s" "states st' = states st"
    using c by (auto simp: call_cached_def nth_upd)
  with c show ?thesis by (simp add: is_valid_def)
next
  case (step_listen t u)
  with c show ?thesis by simp
qed (use c in \<open>auto simp: new_state_def is_valid_def nth_append\<close>)

lemma fold_listen:
  assumes "\<forall>m \<in> set ms. f m < length (states st)"
  shows "length (states (fold (\<lambda>m. addInvalidateListener (f m) l) ms st)) = length (states st) \<and>
    is_valid (fold (\<lambda>m. addInvalidateListener (f m) l) ms st) t = is_valid st t \<and>
    set (vs_listeners (states (fold (\<lambda>m. addInvalidateListener (f m) l) ms st) ! t)) =
      set (vs_listeners (states st ! t)) \<union> (if t \<in> f ` set ms then {l} else {})"
  using assms
  by (induction ms arbitrary: st) (auto simp: listeners_listen)

lemma constructState_spec:
  assumes "constructState ms st = (s, st')" and "\<forall>m \<in> set ms. md_state m < length (states st)"
  shows "s = length (states st) \<and> length (states st') = Suc (length (states st)) \<and>
    is_valid st' s \<and> (\<forall>t < length (states st). is_valid st' t = is_valid st t) \<and>
    (\<forall>t < Suc (length (states st)). set (vs_listeners (states st' ! t)) =
       (if t < length (states st) then set (vs_listeners (states st ! t)) else {}) \<union>
       (if t \<in> md_state ` set ms then {Invalidate s} else {}))"
proof -
  let ?st = "snd (new_state st)"
  have new: "length (states ?st) = Suc (length (states st))"
    "is_valid ?st t \<longleftrightarrow> is_valid st t \<or> t = length (states st)"
    "t < Suc (length (states st)) \<Longrightarrow> vs_listeners (states ?st ! t) =
       (if t < length (states st) then vs_listeners (states st ! t) else [])" for t
    by (auto simp: new_state_def is_valid_def nth_append less_Suc_eq)
  have eq: "s = length (states st)"
    "st' = fold (\<lambda>m. addInvalidateListener (md_state m) (Invalidate s)) ms ?st"
    using assms(1) by (auto simp: constructState_def new_state_def)
  have "\<forall>m \<in> set ms. md_state m < length (states ?st)"
    using assms(2) new(1) by (auto simp: less_SucI)
  note fold = fold_listen [OF this, of "Invalidate s", folded eq(2)]
  show ?thesis using fold new eq(1) by auto
qed

section \<open>Accumulation\<close>

text \<open>Appending one by one the cardinalities that are not bound to a dataset.\<close>

definition accumulate_all :: "acc_metadata list \<Rightarrow> accumulate_error + cardinality" where
  "accumulate_all apps =
     foldl (\<lambda>r a. bind_res r (\<lambda>c. append_cardinality c None a)) (Inr initialize_cardinality) apps"

definition finite_value :: "cardinality option \<Rightarrow> rat option" where
  "finite_value c = (case c of
      None \<Rightarrow> None
    | Some k \<Rightarrow> (case card_value k of Num q \<Rightarrow> Some q | _ \<Rightarrow> None))"

definition total_cardinality :: "cardinality option list \<Rightarrow> cardinality" where
  "total_cardinality cs =
     (let qs = map finite_value cs
      in \<lparr>card_type = (if None \<in> set qs \<or>
                        (\<exists>c \<in> set cs. map_option card_type c = Some Estimate) then Estimate else Exact),
          card_value = (if None \<in> set qs then PInf else Num (sum_list (map the qs))),
          card_dataset = None\<rparr>)"

lemma total_cardinality_snoc:
  "add_cardinality (total_cardinality cs) c = total_cardinality (cs @ [c])"
  by (cases c; cases "card_value (the c)")
     (auto simp: add_cardinality_def total_cardinality_def finite_value_def is_finite_def Let_def
        split: option.splits)

lemma accumulate_all_total:
  "accumulate_all apps = Inr (total_cardinality (map am_cardinality apps))"
proof (induction apps rule: rev_induct)
  case Nil
  then show ?case
    by (simp add: accumulate_all_def total_cardinality_def initialize_cardinality_def)
next
  case (snoc a apps)
  have "accumulate_all (apps @ [a]) =
      bind_res (accumulate_all apps) (\<lambda>c. append_cardinality c None a)"
    by (simp add: accumulate_all_def)
  also have "\<dots> = Inr (add_cardinality (total_cardinality (map am_cardinality apps)) (am_cardinality a))"
    by (simp add: snoc append_cardinality_def truthy_string_def total_cardinality_def Let_def)
  finally show ?case by (simp add: total_cardinality_snoc)
qed

section \<open>Properties of metadata\<close>

text \<open>
  C35. In every store that the operations reach, a step keeps metadata that is cached and whose state is
  valid as long as that state stays valid, and clears it from the cache in the step that makes the state
  invalid, however far the invalidation comes through the states that listen to each other.  (Metadata that
  is resolved with an invalid state is not cleared, \<open>stale_metadata_cached\<close>.)
\<close>

theorem cached_metadata_is_valid:
  assumes "store_step\<^sup>*\<^sup>* empty_store st" and "store_step st st'" and "c < length (caches st)"
    and "caches st ! c = Returned s" and "is_valid st s"
  shows "caches st' ! c = (if is_valid st' s then Returned s else NoReturn)"
  using step_cached [OF assms(2) _ _ assms(3-5)] reach_listening [OF assms(1)] by blast

definition sample_store :: store where
  "sample_store = \<lparr>states = [\<lparr>vs_valid = True, vs_listeners = [Forget 0]\<rparr>], caches = [Returned 0]\<rparr>"

lemma sample_store_reach: "store_step\<^sup>*\<^sup>* empty_store sample_store"
proof -
  let ?s1 = "snd (new_state empty_store)"
  let ?s2 = "?s1\<lparr>caches := caches ?s1 @ [NoReturn]\<rparr>"
  have "store_step empty_store ?s1" by (rule step_new_state)
  moreover have "store_step ?s1 ?s2" by (rule step_new_cache)
  moreover have "store_step ?s2 (call_cached 0 ?s2)"
    by (rule step_call) (simp add: empty_store_def new_state_def)
  moreover have "store_step (call_cached 0 ?s2) (resolve_cached 0 0 (call_cached 0 ?s2))"
    by (rule step_resolve) (simp_all add: empty_store_def new_state_def call_cached_def)
  moreover have "resolve_cached 0 0 (call_cached 0 ?s2) = sample_store"
    by (simp add: empty_store_def new_state_def call_cached_def resolve_cached_def
        addInvalidateListener_def sample_store_def)
  ultimately show ?thesis by (metis (no_types, lifting) r_into_rtranclp rtranclp_trans)
qed

theorem cached_metadata_is_valid_witness:
  "caches (invalidate 0 sample_store) ! 0 = NoReturn"
  using cached_metadata_is_valid [OF sample_store_reach step_invalidate [of 0 sample_store], of 0 0]
  by (simp add: sample_store_def is_valid_def invalidate_def set_invalid_def)

text \<open>Metadata whose state is invalid when the promise resolves stays cached: its listener is added
  to a state that never calls it.\<close>

theorem stale_metadata_cached:
  assumes "c < length (caches st)" and "caches st ! c = Pending" and "s < length (states st)" and "\<not> is_valid st s"
  shows "store_step st (resolve_cached c s st) \<and> caches (resolve_cached c s st) ! c = Returned s \<and>
    \<not> is_valid (resolve_cached c s st) s \<and> invalidate s (resolve_cached c s st) = resolve_cached c s st"
proof -
  have "\<not> is_valid (resolve_cached c s st) s"
    using assms by (simp add: resolve_cached_def) (simp add: is_valid_def)
  with assms show ?thesis
    by (auto simp: resolve_cached_def invalidate_def intro: step_resolve [unfolded resolve_cached_def])
qed

text \<open>
  The state of a join result is new and valid, and becomes invalid as soon as the state of
  any of the joined entries that is still valid is invalidated.
\<close>

theorem joined_state_invalidated:
  assumes "constructState ms st = (s, st')" and "\<forall>m \<in> set ms. md_state m < length (states st)"
    and "m \<in> set ms" and "is_valid st (md_state m)"
  shows "is_valid st' s \<and> \<not> is_valid (invalidate (md_state m) st') s"
proof -
  from constructState_spec [OF assms(1,2)] assms(2-4)
  have v: "is_valid st' s" "is_valid st' (md_state m)"
    and l: "Invalidate s \<in> set (vs_listeners (states st' ! md_state m))"
    by (auto simp: is_valid_def)
  from l have "\<not> is_valid (run_listeners (vs_listeners (states st' ! md_state m))
      (set_invalid (md_state m) st')) s"
    by (rule run_listeners_invalidates)
  with v show ?thesis by (simp add: invalidate_def)
qed

definition sample_metadata :: metadata where
  "sample_metadata = \<lparr>md_state = 0, md_variables = [(''x'', False)],
     md_cardinality = \<lparr>card_type = Exact, card_value = Num 3, card_dataset = None\<rparr>,
     md_pageSize = None, md_requestTime = None\<rparr>"

theorem joined_state_invalidated_witness:
  "is_valid (snd (constructState [sample_metadata] sample_store)) 1 \<and>
   \<not> is_valid (invalidate 0 (snd (constructState [sample_metadata] sample_store))) 1"
proof -
  have c: "constructState [sample_metadata] sample_store =
      (1, snd (constructState [sample_metadata] sample_store))"
    by (simp add: constructState_def new_state_def sample_store_def)
  have "md_state sample_metadata = 0" by (simp add: sample_metadata_def)
  then show ?thesis
    using joined_state_invalidated [OF c, of sample_metadata]
    by (simp add: sample_store_def is_valid_def)
qed

text \<open>
  Accumulating the metadata of several sources whose cardinalities are not tied to a dataset
  gives the sum of the values, infinity when one of them is unknown or not finite, and is exact
  only when every source is.
\<close>

theorem accumulated_cardinality_total:
  "accumulate_all apps = Inr (total_cardinality (map am_cardinality apps))"
  by (rule accumulate_all_total)

end
