(* ===== verification/Action_Context.thy ===== *)
theory Action_Context
  imports Prelude
begin

text \<open>
  The action context of \<open>packages/core/lib/ActionContext.ts\<close>: an immutable map from key
  names to values.  A key object is its name.  The value type \<open>'v\<close> contains the value
  \<open>undefined\<close>, the argument \<open>u\<close> of the operations that may return it.
\<close>

type_synonym 'v ctx = "(string, 'v) jsmap"

datatype context_error = Entry_required string

definition ctx_has :: "'v ctx \<Rightarrow> string \<Rightarrow> bool" where
  "ctx_has c k \<longleftrightarrow> js_has c k"

definition ctx_get :: "'v \<Rightarrow> 'v ctx \<Rightarrow> string \<Rightarrow> 'v" where
  "ctx_get u c k = (case js_get c k of None \<Rightarrow> u | Some v \<Rightarrow> v)"

definition ctx_getSafe :: "'v \<Rightarrow> 'v ctx \<Rightarrow> string \<Rightarrow> context_error + 'v" where
  "ctx_getSafe u c k = (if \<not> ctx_has c k then Inl (Entry_required k) else Inr (ctx_get u c k))"

definition ctx_set :: "'v ctx \<Rightarrow> string \<Rightarrow> 'v \<Rightarrow> 'v ctx" where
  "ctx_set c k v = js_set c k v"

definition ctx_setDefault :: "'v ctx \<Rightarrow> string \<Rightarrow> 'v \<Rightarrow> 'v ctx" where
  "ctx_setDefault c k v = (if ctx_has c k then c else ctx_set c k v)"

definition ctx_delete :: "'v ctx \<Rightarrow> string \<Rightarrow> 'v ctx" where
  "ctx_delete c k = js_delete c k"

definition ctx_keys :: "'v ctx \<Rightarrow> string list" where
  "ctx_keys c = js_keys c"

text \<open>\<open>merge\<close> sets, source by source, every key of the source.\<close>

fun ctx_merge_source :: "'v \<Rightarrow> 'v ctx \<Rightarrow> string list \<Rightarrow> 'v ctx \<Rightarrow> 'v ctx" where
  "ctx_merge_source u source [] c = c"
| "ctx_merge_source u source (k # ks) c =
     ctx_merge_source u source ks (ctx_set c k (ctx_get u source k))"

fun ctx_merge :: "'v \<Rightarrow> 'v ctx \<Rightarrow> 'v ctx list \<Rightarrow> 'v ctx" where
  "ctx_merge u c [] = c"
| "ctx_merge u c (source # sources) =
     ctx_merge u (ctx_merge_source u source (ctx_keys source) c) sources"

lemmas ctx_defs =
  ctx_has_def ctx_get_def ctx_set_def ctx_delete_def ctx_keys_def ctx_setDefault_def ctx_getSafe_def

lemma ctx_merge_source_lookup:
  "js_get (ctx_merge_source u s ks c) k = (if k \<in> set ks then Some (ctx_get u s k) else js_get c k)"
  by (induction u s ks c rule: ctx_merge_source.induct) (auto simp: ctx_set_def)

lemma wf_ctx_merge_source: "wf_map c \<Longrightarrow> wf_map (ctx_merge_source u s ks c)"
  by (induction u s ks c rule: ctx_merge_source.induct) (auto simp: ctx_set_def)

lemma ctx_merge_step:
  "js_get (ctx_merge_source u s (ctx_keys s) c) = js_get c ++ js_get s"
proof
  fix k
  show "js_get (ctx_merge_source u s (ctx_keys s) c) k = (js_get c ++ js_get s) k"
  proof (cases "js_get s k")
    case None
    then show ?thesis by (simp add: ctx_merge_source_lookup ctx_defs map_of_eq_None_iff map_add_def js_get_notin)
  next
    case (Some v)
    then have "k \<in> fst ` set s" using js_has_iff [of s k] by simp
    with Some show ?thesis by (simp add: ctx_merge_source_lookup ctx_defs map_add_def)
  qed
qed

text \<open>The laws of the context as a key-value store.\<close>

lemma ctx_merge_lookup:
  "js_get (ctx_merge u c sources) = foldl (++) (js_get c) (map js_get sources)"
  by (induction sources arbitrary: c) (simp_all add: ctx_merge_step)

end
