(* ===== verification/Bindings.thy ===== *)
theory Bindings
  imports Action_Context
begin

text \<open>
  Solution mappings: \<open>packages/utils-bindings-factory/lib/Bindings.ts\<close>,
  \<open>BindingsFactory.ts\<close> and \<open>bindingsToString.ts\<close>.

  A bindings object holds an Immutable.js map from variable names to RDF terms and an optional
  context.  A variable is its name.  The map is a list of its entries; with more than eight entries
  Immutable.js goes through them in the order of their hashes, and no property depends on that order.
  RDF terms are RDF/JS objects, created by a data factory that
  is not part of the repository: they are values of a type \<open>'t\<close> here, and their
  \<open>equals\<close> method, documented as equality of the terms' values, is equality.
\<close>

section \<open>Data\<close>

record 'v context_holder =
  contextMergeHandlers :: "(string, 'v \<Rightarrow> 'v \<Rightarrow> 'v) jsmap"
  holder_context :: "'v ctx option"

record ('t, 'v) bindings =
  entries :: "(string, 't) jsmap"
  contextHolder :: "'v context_holder option"

section \<open>Operations\<close>

definition b_has :: "('t, 'v) bindings \<Rightarrow> string \<Rightarrow> bool" where
  "b_has b k \<longleftrightarrow> js_has (entries b) k"

definition b_get :: "('t, 'v) bindings \<Rightarrow> string \<Rightarrow> 't option" where
  "b_get b k = js_get (entries b) k"

definition b_set :: "('t, 'v) bindings \<Rightarrow> string \<Rightarrow> 't \<Rightarrow> ('t, 'v) bindings" where
  "b_set b k t = b\<lparr>entries := js_set (entries b) k t\<rparr>"

definition b_delete :: "('t, 'v) bindings \<Rightarrow> string \<Rightarrow> ('t, 'v) bindings" where
  "b_delete b k = b\<lparr>entries := js_delete (entries b) k\<rparr>"

definition b_keys :: "('t, 'v) bindings \<Rightarrow> string list" where
  "b_keys b = js_keys (entries b)"

definition b_values :: "('t, 'v) bindings \<Rightarrow> 't list" where
  "b_values b = js_values (entries b)"

definition b_forEach :: "('t \<Rightarrow> string \<Rightarrow> 'r) \<Rightarrow> ('t, 'v) bindings \<Rightarrow> 'r list" where
  "b_forEach f b = map (\<lambda>(k, t). f t k) (entries b)"

definition b_size :: "('t, 'v) bindings \<Rightarrow> nat" where
  "b_size b = length (entries b)"

definition b_equals :: "('t, 'v) bindings \<Rightarrow> ('t, 'w) bindings option \<Rightarrow> bool" where
  "b_equals b other =
     (case other of
        None \<Rightarrow> False
      | Some c \<Rightarrow>
          (if b_size b \<noteq> b_size c then False
           else list_all (\<lambda>k. case b_get b k of None \<Rightarrow> False | Some t \<Rightarrow> b_get c k = Some t)
                  (b_keys b)))"

definition b_filter :: "('t \<Rightarrow> string \<Rightarrow> bool) \<Rightarrow> ('t, 'v) bindings \<Rightarrow> ('t, 'v) bindings" where
  "b_filter f b = b\<lparr>entries := filter (\<lambda>(k, t). f t k) (entries b)\<rparr>"

definition b_map :: "('t \<Rightarrow> string \<Rightarrow> 't) \<Rightarrow> ('t, 'v) bindings \<Rightarrow> ('t, 'v) bindings" where
  "b_map f b = b\<lparr>entries := map (\<lambda>(k, t). (k, f t k)) (entries b)\<rparr>"

text \<open>
  \<open>mergeContext\<close>: the first argument is the value \<open>undefined\<close>, the second tells the
  truthy values.
\<close>

fun merge_context_keys ::
  "'v \<Rightarrow> ('v \<Rightarrow> bool) \<Rightarrow> (string, 'v \<Rightarrow> 'v \<Rightarrow> 'v) jsmap \<Rightarrow> 'v ctx \<Rightarrow> 'v ctx \<Rightarrow>
     string list \<Rightarrow> string list \<Rightarrow> 'v ctx \<Rightarrow> 'v ctx" where
  "merge_context_keys u truthy hs c d [] handled new = new"
| "merge_context_keys u truthy hs c d (k # ks) handled new =
     (if k \<in> set handled then merge_context_keys u truthy hs c d ks handled new
      else
        let both = ctx_has c k \<and> ctx_has d k
        in merge_context_keys u truthy hs c d ks (k # handled)
             (case js_get hs k of
                Some h \<Rightarrow>
                  (if both then js_set new k (h (ctx_get u c k) (ctx_get u d k))
                   else js_set new k
                     (if truthy (ctx_get u c k) then ctx_get u c k else ctx_get u d k))
              | None \<Rightarrow>
                  (if both then new
                   else js_set new k
                     (if truthy (ctx_get u c k) then ctx_get u c k else ctx_get u d k))))"

definition mergeContext ::
  "'v \<Rightarrow> ('v \<Rightarrow> bool) \<Rightarrow> (string, 'v \<Rightarrow> 'v \<Rightarrow> 'v) jsmap \<Rightarrow> 'v ctx \<Rightarrow> 'v ctx \<Rightarrow> 'v ctx" where
  "mergeContext u truthy hs c d = merge_context_keys u truthy hs c d (ctx_keys c @ ctx_keys d) [] []"

definition createBindingsWithContexts ::
  "'v \<Rightarrow> ('v \<Rightarrow> bool) \<Rightarrow> ('t, 'v) bindings \<Rightarrow> (string, 't) jsmap \<Rightarrow> 'v context_holder option \<Rightarrow>
     ('t, 'v) bindings" where
  "createBindingsWithContexts u truthy b es otherHolder =
     (case contextHolder b of
        Some h \<Rightarrow>
          (case holder_context h of
             Some c \<Rightarrow>
               \<lparr>entries = es,
                contextHolder = Some (h\<lparr>holder_context := Some (
                  case otherHolder of
                    Some oh \<Rightarrow>
                      (case holder_context oh of
                         Some d \<Rightarrow> mergeContext u truthy (contextMergeHandlers h) c d
                       | None \<Rightarrow> c)
                  | None \<Rightarrow> c)\<rparr>)\<rparr>
           | None \<Rightarrow> \<lparr>entries = es, contextHolder = otherHolder\<rparr>)
      | None \<Rightarrow> \<lparr>entries = es, contextHolder = otherHolder\<rparr>)"

text \<open>The loop of \<open>merge\<close> over the entries of the other bindings.\<close>

fun merge_loop ::
  "(string, 't) jsmap \<Rightarrow> (string \<times> 't) list \<Rightarrow> (string, 't) jsmap \<Rightarrow> (string, 't) jsmap option" where
  "merge_loop own [] es = Some es"
| "merge_loop own ((k, r) # others) es =
     (case js_get own k of
        Some l \<Rightarrow> (if l \<noteq> r then None else merge_loop own others (js_set es k r))
      | None \<Rightarrow> merge_loop own others (js_set es k r))"

text \<open>\<open>merge\<close>: the smaller of the two is merged into the larger.\<close>

definition merge_into ::
  "'v \<Rightarrow> ('v \<Rightarrow> bool) \<Rightarrow> ('t, 'v) bindings \<Rightarrow> ('t, 'v) bindings \<Rightarrow> ('t, 'v) bindings option" where
  "merge_into u truthy b c =
     map_option (\<lambda>es. createBindingsWithContexts u truthy b es (contextHolder c))
       (merge_loop (entries b) (entries c) (entries b))"

definition b_merge ::
  "'v \<Rightarrow> ('v \<Rightarrow> bool) \<Rightarrow> ('t, 'v) bindings \<Rightarrow> ('t, 'v) bindings \<Rightarrow> ('t, 'v) bindings option" where
  "b_merge u truthy b c =
     (if b_size b < b_size c then merge_into u truthy c b else merge_into u truthy b c)"

text \<open>Merging with bindings of another implementation, given by the entries it iterates over.\<close>

definition b_merge_foreign ::
  "'v \<Rightarrow> ('v \<Rightarrow> bool) \<Rightarrow> ('t, 'v) bindings \<Rightarrow> (string \<times> 't) list \<Rightarrow> ('t, 'v) bindings option" where
  "b_merge_foreign u truthy b others =
     map_option (\<lambda>es. createBindingsWithContexts u truthy b es None)
       (merge_loop (entries b) others (entries b))"

fun mergeWith_loop ::
  "('t \<Rightarrow> 't \<Rightarrow> string \<Rightarrow> 't) \<Rightarrow> (string, 't) jsmap \<Rightarrow> (string \<times> 't) list \<Rightarrow> (string, 't) jsmap \<Rightarrow>
     (string, 't) jsmap" where
  "mergeWith_loop merger own [] es = es"
| "mergeWith_loop merger own ((k, r) # others) es =
     mergeWith_loop merger own others
       (js_set es k
         (case js_get own k of
            Some l \<Rightarrow> if l \<noteq> r then merger l r k else r
          | None \<Rightarrow> r))"

definition mergeWith_into ::
  "'v \<Rightarrow> ('v \<Rightarrow> bool) \<Rightarrow> ('t \<Rightarrow> 't \<Rightarrow> string \<Rightarrow> 't) \<Rightarrow> ('t, 'v) bindings \<Rightarrow> ('t, 'v) bindings \<Rightarrow>
     ('t, 'v) bindings" where
  "mergeWith_into u truthy merger b c =
     createBindingsWithContexts u truthy b
       (mergeWith_loop merger (entries b) (entries c) (entries b)) (contextHolder c)"

definition b_mergeWith ::
  "'v \<Rightarrow> ('v \<Rightarrow> bool) \<Rightarrow> ('t \<Rightarrow> 't \<Rightarrow> string \<Rightarrow> 't) \<Rightarrow> ('t, 'v) bindings \<Rightarrow> ('t, 'v) bindings \<Rightarrow>
     ('t, 'v) bindings" where
  "b_mergeWith u truthy merger b c =
     (if b_size b < b_size c then mergeWith_into u truthy merger c b
      else mergeWith_into u truthy merger b c)"

definition getContext :: "('t, 'v) bindings \<Rightarrow> 'v ctx option" where
  "getContext b = (case contextHolder b of None \<Rightarrow> None | Some h \<Rightarrow> holder_context h)"

definition getContextEntry :: "'v \<Rightarrow> ('t, 'v) bindings \<Rightarrow> string \<Rightarrow> 'v" where
  "getContextEntry u b k = (case getContext b of None \<Rightarrow> u | Some c \<Rightarrow> ctx_get u c k)"

definition setContextEntry :: "('t, 'v) bindings \<Rightarrow> string \<Rightarrow> 'v \<Rightarrow> ('t, 'v) bindings" where
  "setContextEntry b k v =
     (case getContext b of
        Some c \<Rightarrow>
          b\<lparr>contextHolder := map_option (\<lambda>h. h\<lparr>holder_context := Some (ctx_set c k v)\<rparr>)
              (contextHolder b)\<rparr>
      | None \<Rightarrow>
          b\<lparr>contextHolder := Some
              \<lparr>contextMergeHandlers =
                 (case contextHolder b of None \<Rightarrow> [] | Some h \<Rightarrow> contextMergeHandlers h),
               holder_context = Some (ctx_set [] k v)\<rparr>\<rparr>)"

definition deleteContextEntry :: "('t, 'v) bindings \<Rightarrow> string \<Rightarrow> ('t, 'v) bindings" where
  "deleteContextEntry b k =
     (case contextHolder b of
        Some h \<Rightarrow>
          b\<lparr>contextHolder := Some
              (h\<lparr>holder_context := map_option (\<lambda>c. ctx_delete c k) (holder_context h)\<rparr>)\<rparr>
      | None \<Rightarrow> b)"

text \<open>\<open>BindingsFactory\<close>: the map built from a list of entries, later ones overriding.\<close>

definition factory_bindings ::
  "(string, 'v \<Rightarrow> 'v \<Rightarrow> 'v) jsmap option \<Rightarrow> (string \<times> 't) list \<Rightarrow> ('t, 'v) bindings" where
  "factory_bindings hs es =
     \<lparr>entries = fold (\<lambda>(k, t) m. js_set m k t) es [],
      contextHolder =
        map_option (\<lambda>h. \<lparr>contextMergeHandlers = h, holder_context = None\<rparr>) hs\<rparr>"

definition fromBindings ::
  "(string, 'v \<Rightarrow> 'v \<Rightarrow> 'v) jsmap option \<Rightarrow> ('t, 'w) bindings \<Rightarrow> ('t, 'v) bindings" where
  "fromBindings hs b = factory_bindings hs (entries b)"

definition fromRecord ::
  "(string, 'v \<Rightarrow> 'v \<Rightarrow> 'v) jsmap option \<Rightarrow> (string, 't) jsmap \<Rightarrow> ('t, 'v) bindings" where
  "fromRecord hs r = factory_bindings hs r"

text \<open>
  \<open>bindingsToCompactString\<close>: the term strings (the function \<open>ts\<close>, which is
  \<open>termToString\<close> of the package rdf-string) one after the other.
\<close>

definition bindingsToCompactString ::
  "('t \<Rightarrow> string) \<Rightarrow> ('t, 'v) bindings \<Rightarrow> string list \<Rightarrow> string" where
  "bindingsToCompactString ts b vars =
     concat (map (\<lambda>v. case b_get b v of Some t \<Rightarrow> ts t | None \<Rightarrow> []) vars)"

section \<open>Abstract solution mappings\<close>

text \<open>A bindings object stands for a partial function from variable names to terms.\<close>

definition wf_bindings :: "('t, 'v) bindings \<Rightarrow> bool" where
  "wf_bindings b \<longleftrightarrow> wf_map (entries b)"

definition compatible :: "('k \<rightharpoonup> 't) \<Rightarrow> ('k \<rightharpoonup> 't) \<Rightarrow> bool" where
  "compatible f g \<longleftrightarrow> (\<forall>k x y. f k = Some x \<longrightarrow> g k = Some y \<longrightarrow> x = y)"

lemma compatible_sym: "compatible f g \<longleftrightarrow> compatible g f"
  by (auto simp: compatible_def)

lemma compatible_add_comm: "compatible f g \<Longrightarrow> f ++ g = g ++ f"
  by (rule ext) (auto simp: compatible_def map_add_def split: option.splits)

lemma compatible_upd:
  assumes "g k = None"
  shows "compatible f (g(k \<mapsto> r)) \<longleftrightarrow> (f k = None \<or> f k = Some r) \<and> compatible f g"
proof (cases "f k")
  case None
  with assms show ?thesis unfolding compatible_def by (auto split: if_splits) (metis option.distinct(1))
next
  case (Some x)
  with assms show ?thesis unfolding compatible_def by (auto split: if_splits) (metis option.distinct(1))
qed

lemmas b_lookup_defs =
  b_has_def b_get_def b_set_def b_delete_def b_keys_def b_size_def b_filter_def b_map_def

lemma merge_loop_spec:
  assumes "wf_map others"
  shows "merge_loop own others es =
    (if compatible (js_get own) (js_get others)
     then Some (fold (\<lambda>(k, t) m. js_set m k t) others es) else None)"
  using assms
proof (induction own others es rule: merge_loop.induct)
  case (1 own es)
  then show ?case by (simp add: compatible_def)
next
  case (2 own k r others es)
  then have wf: "wf_map others" and k: "js_get others k = None"
    by (auto simp: wf_map_def map_of_eq_None_iff)
  have "compatible (js_get own) (js_get ((k, r) # others)) \<longleftrightarrow>
      (js_get own k = None \<or> js_get own k = Some r) \<and> compatible (js_get own) (js_get others)"
    using compatible_upd [of "js_get others" k "js_get own" r] k by (simp add: fun_upd_def)
  with 2 wf show ?case by (auto split: option.splits)
qed

lemma fold_set_lookup:
  "js_get (fold (\<lambda>(k, t) m. js_set m k t) es m) = js_get m ++ map_of (rev es)"
  by (induction es arbitrary: m) (auto simp: map_add_def fun_eq_iff split: option.splits)

lemma wf_fold_set [simp]: "wf_map m \<Longrightarrow> wf_map (fold (\<lambda>(k, t) m. js_set m k t) es m)"
  by (induction es arbitrary: m) auto

lemma entries_createBindings [simp]:
  "entries (createBindingsWithContexts u truthy b es oh) = es"
  by (simp add: createBindingsWithContexts_def split: option.splits)

lemma merge_into_spec:
  assumes "wf_bindings b" and "wf_bindings c"
  shows "case merge_into u truthy b c of
      None \<Rightarrow> \<not> compatible (b_get b) (b_get c)
    | Some m \<Rightarrow> compatible (b_get b) (b_get c) \<and> wf_bindings m \<and> b_get m = b_get b ++ b_get c"
  using assms
  by (simp add: merge_into_def merge_loop_spec wf_bindings_def b_get_def [abs_def]
      fold_set_lookup map_of_rev_wf)

lemma b_merge_spec:
  assumes "wf_bindings b" and "wf_bindings c"
  shows "case b_merge u truthy b c of
      None \<Rightarrow> \<not> compatible (b_get b) (b_get c)
    | Some m \<Rightarrow> compatible (b_get b) (b_get c) \<and> wf_bindings m \<and> b_get m = b_get b ++ b_get c"
  using merge_into_spec [OF assms, of u truthy] merge_into_spec [OF assms(2,1), of u truthy]
  by (auto simp: b_merge_def compatible_sym [of "b_get c"] split: option.splits
      dest: compatible_add_comm)

lemma b_equals_iff:
  assumes "wf_bindings b" and "wf_bindings c"
  shows "b_equals b (Some c) \<longleftrightarrow> b_get b = b_get c"
proof
  assume eq: "b_equals b (Some c)"
  then have sz: "card (dom (b_get b)) = card (dom (b_get c))"
    using assms by (auto simp: b_equals_def b_size_def b_get_def [abs_def] wf_bindings_def
        length_wf_map split: if_splits)
  have sub: "b_get c k = Some t" if "b_get b k = Some t" for k t
  proof -
    have "k \<in> set (b_keys b)"
      using that js_has_iff [of "entries b" k] by (simp add: b_get_def b_keys_def)
    with eq that show ?thesis by (auto simp: b_equals_def list_all_iff split: if_splits)
  qed
  then have "dom (b_get b) \<subseteq> dom (b_get c)" by (auto simp: dom_def)
  moreover have "finite (dom (b_get c))" by (simp add: b_get_def [abs_def] finite_dom_map_of)
  ultimately have d: "dom (b_get b) = dom (b_get c)" using sz by (metis card_subset_eq)
  show "b_get b = b_get c"
  proof
    fix k
    show "b_get b k = b_get c k" by (metis d domIff not_Some_eq sub)
  qed
next
  assume eq: "b_get b = b_get c"
  have "b_size b = b_size c"
    using assms eq by (simp add: b_size_def wf_bindings_def length_wf_map b_get_def [abs_def])
  moreover have "\<exists>t. b_get b k = Some t" if "k \<in> set (b_keys b)" for k
    using that js_has_iff [of "entries b" k] by (auto simp: b_keys_def b_get_def)
  ultimately show "b_equals b (Some c)"
    using eq by (fastforce simp: b_equals_def list_all_iff)
qed

text \<open>The value a key gets when two contexts are merged.\<close>

definition merged_value ::
  "'v \<Rightarrow> ('v \<Rightarrow> bool) \<Rightarrow> (string, 'v \<Rightarrow> 'v \<Rightarrow> 'v) jsmap \<Rightarrow> 'v ctx \<Rightarrow> 'v ctx \<Rightarrow> string \<Rightarrow> 'v option" where
  "merged_value u truthy hs c d k =
     (case (js_get c k, js_get d k) of
        (Some x, Some y) \<Rightarrow> map_option (\<lambda>h. h x y) (js_get hs k)
      | (Some x, None) \<Rightarrow> Some (if truthy x then x else u)
      | (None, Some y) \<Rightarrow> Some y
      | (None, None) \<Rightarrow> None)"

lemma merge_context_keys_lookup:
  assumes "\<not> truthy u" and "set ks \<subseteq> set (ctx_keys c) \<union> set (ctx_keys d)"
  shows "js_get (merge_context_keys u truthy hs c d ks handled new) k =
    (if k \<in> set ks \<and> k \<notin> set handled
     then (case merged_value u truthy hs c d k of Some v \<Rightarrow> Some v | None \<Rightarrow> js_get new k)
     else js_get new k)"
  using assms
proof (induction ks arbitrary: handled new)
  case Nil
  then show ?case by simp
next
  case (Cons k' ks)
  show ?case
  proof (cases "k' \<in> set handled")
    case True
    with Cons show ?thesis by auto
  next
    case False
    have key: "js_get c k' \<noteq> None \<or> js_get d k' \<noteq> None"
      using Cons.prems(2) js_has_iff [of c k'] js_has_iff [of d k'] by (auto simp: ctx_keys_def)
    let ?new = "case merged_value u truthy hs c d k' of
        Some v \<Rightarrow> js_set new k' v | None \<Rightarrow> new"
    have step: "merge_context_keys u truthy hs c d (k' # ks) handled new =
        merge_context_keys u truthy hs c d ks (k' # handled) ?new"
      using False key Cons.prems(1)
      by (cases "js_get c k'"; cases "js_get d k'"; cases "js_get hs k'")
         (simp_all add: merged_value_def ctx_has_def ctx_get_def)
    have "js_get (merge_context_keys u truthy hs c d ks (k' # handled) ?new) k =
        (if k \<in> set ks \<and> k \<notin> set (k' # handled)
         then (case merged_value u truthy hs c d k of Some v \<Rightarrow> Some v | None \<Rightarrow> js_get ?new k)
         else js_get ?new k)"
      using Cons.IH Cons.prems by simp
    then show ?thesis
      unfolding step using False by (cases "merged_value u truthy hs c d k'"; cases "merged_value u truthy hs c d k") auto
  qed
qed

lemma mergeContext_lookup:
  assumes "\<not> truthy u"
  shows "js_get (mergeContext u truthy hs c d) k = merged_value u truthy hs c d k"
proof -
  have "k \<notin> set (ctx_keys c @ ctx_keys d) \<Longrightarrow> merged_value u truthy hs c d k = None"
    by (simp add: merged_value_def ctx_keys_def js_get_notin)
  then show ?thesis
    unfolding mergeContext_def
    by (subst merge_context_keys_lookup [where truthy = truthy, OF assms])
       (auto split: option.splits)
qed

section \<open>Properties of solution mappings\<close>

text \<open>
  C29. Merging two bindings yields nothing exactly when they disagree on a variable they share;
  otherwise it yields the union of the two mappings, whichever of them is the larger.
\<close>

theorem merge_is_compatible_union:
  assumes "wf_bindings b" and "wf_bindings c"
  shows "case b_merge u truthy b c of
      None \<Rightarrow> \<not> compatible (b_get b) (b_get c)
    | Some m \<Rightarrow> compatible (b_get b) (b_get c) \<and> wf_bindings m \<and> b_get m = b_get b ++ b_get c"
  using assms by (rule b_merge_spec)

definition sample_b1 :: "(string, bool) bindings" where
  "sample_b1 = \<lparr>entries = [(''x'', ''ex:a'')], contextHolder = None\<rparr>"

definition sample_b2 :: "(string, bool) bindings" where
  "sample_b2 = \<lparr>entries = [(''x'', ''ex:a''), (''y'', ''ex:b'')], contextHolder = None\<rparr>"

theorem merge_is_compatible_union_witness:
  "\<exists>m. b_merge False (\<lambda>v. v) sample_b1 sample_b2 = Some m \<and>
     b_get m = b_get sample_b1 ++ b_get sample_b2"
proof -
  have wf: "wf_bindings sample_b1" "wf_bindings sample_b2"
    by (simp_all add: wf_bindings_def wf_map_def sample_b1_def sample_b2_def)
  have "compatible (b_get sample_b1) (b_get sample_b2)"
    by (simp add: compatible_def sample_b1_def sample_b2_def b_get_def)
  with merge_is_compatible_union [OF wf, of False "\<lambda>v. v"] show ?thesis
    by (auto split: option.splits)
qed

text \<open>
  Equality of two bindings is equality of the mappings they stand for, whatever the order
  in which their entries were added.
\<close>

theorem equals_is_extensional:
  assumes "wf_bindings b" and "wf_bindings c"
  shows "b_equals b (Some c) \<longleftrightarrow> b_get b = b_get c"
  using assms by (rule b_equals_iff)

theorem equals_is_extensional_witness:
  "b_equals (b_set sample_b1 ''y'' ''ex:b'') (Some sample_b2) \<longleftrightarrow>
     b_get (b_set sample_b1 ''y'' ''ex:b'') = b_get sample_b2"
  by (rule equals_is_extensional)
     (simp_all add: wf_bindings_def wf_map_def sample_b1_def sample_b2_def b_set_def)

text \<open>
  The compact string of a bindings object does not identify it: two bindings with different
  IRIs for the same variables can have the same string, since the terms' strings are joined
  without a separator.
\<close>

definition clash_b1 :: "(string, bool) bindings" where
  "clash_b1 = \<lparr>entries = [(''x'', ''ex:1/''), (''y'', ''a:urn:z'')], contextHolder = None\<rparr>"

definition clash_b2 :: "(string, bool) bindings" where
  "clash_b2 = \<lparr>entries = [(''x'', ''ex:1/a:''), (''y'', ''urn:z'')], contextHolder = None\<rparr>"

theorem compact_string_clash:
  "b_get clash_b1 ''x'' \<noteq> b_get clash_b2 ''x'' \<and> b_get clash_b1 ''y'' \<noteq> b_get clash_b2 ''y'' \<and>
   bindingsToCompactString (\<lambda>t. t) clash_b1 [''x'', ''y''] =
   bindingsToCompactString (\<lambda>t. t) clash_b2 [''x'', ''y'']"
  by (simp add: clash_b1_def clash_b2_def b_get_def bindingsToCompactString_def)

end
