(* ===== verification/Rdf_Join.thy ===== *)
theory Rdf_Join
  imports Mediators Metadata Bindings
begin

text \<open>
  The abstract join actor \<open>packages/bus-rdf-join/lib/ActorRdfJoin.ts\<close> and the join entries of
  \<open>packages/types/lib/IJoinEntry.ts\<close>.

  A join entry carries the list of bindings that its stream produces, the metadata that its
  \<open>metadata()\<close> callback resolves to, and its operation (of a type \<open>'o\<close>).
  The actors that are called over a bus (selectivity, entries sort) are arguments: functions
  that may throw.
\<close>

section \<open>Data\<close>

datatype logical_join_type = Inner | Optional | Minus

record ('t, 'v, 'o) join_entry =
  je_type :: string
  je_bindings :: "('t, 'v) bindings list"
  je_metadata :: metadata
  je_operation :: 'o
  je_operationModified :: bool
  je_operationRequired :: bool

record ('t, 'v, 'o) join_action =
  ja_type :: logical_join_type
  ja_entries :: "('t, 'v, 'o) join_entry list"

text \<open>The options a concrete actor gives to the constructor; \<open>None\<close> for an option not given.\<close>

record join_options =
  jo_logicalType :: logical_join_type
  jo_limitEntries :: "nat option"
  jo_limitEntriesMin :: "bool option"
  jo_canHandleUndefs :: "bool option"
  jo_requiresVariableOverlap :: "bool option"
  jo_canHandleOperationRequired :: "bool option"

text \<open>The fields of the actor; the limit \<open>None\<close> is infinity.\<close>

record join_actor =
  act_logicalType :: logical_join_type
  act_limitEntries :: "nat option"
  act_limitEntriesMin :: bool
  act_canHandleUndefs :: bool
  act_requiresVariableOverlap :: bool
  act_canHandleOperationRequired :: bool

record join_coefficients =
  jc_iterations :: jsnum
  jc_persistedItems :: jsnum
  jc_blockingItems :: jsnum
  jc_requestTime :: jsnum

definition new_join_actor :: "join_options \<Rightarrow> join_actor" where
  "new_join_actor opts =
     \<lparr>act_logicalType = jo_logicalType opts,
      act_limitEntries = jo_limitEntries opts,
      act_limitEntriesMin = (case jo_limitEntriesMin opts of None \<Rightarrow> False | Some b \<Rightarrow> b),
      act_canHandleUndefs = (case jo_canHandleUndefs opts of None \<Rightarrow> False | Some b \<Rightarrow> b),
      act_requiresVariableOverlap = (case jo_requiresVariableOverlap opts of None \<Rightarrow> False | Some b \<Rightarrow> b),
      act_canHandleOperationRequired =
        (case jo_canHandleOperationRequired opts of None \<Rightarrow> False | Some b \<Rightarrow> b)\<rparr>"

section \<open>Variables and bindings of a join\<close>

text \<open>The tables of \<open>overlappingVariables\<close> and \<open>joinVariables\<close> are plain objects.  In the first, a
  name of a member of \<open>Object.prototype\<close> is found without an entry, and gets none.  In the second it
  reads as a truthy value, which \<open>\<or>\<close> passes on as \<open>canBeUndef\<close>; an assignment to \<open>__proto__\<close> makes
  no entry.  (\<open>Object.values\<close> and \<open>Object.entries\<close> put names that are array indices first; no
  property here depends on the order of the entries.)\<close>

fun count_variables :: "(string \<times> bool) list \<Rightarrow> (string, bool \<times> nat) jsmap \<Rightarrow> (string, bool \<times> nat) jsmap" where
  "count_variables [] m = m"
| "count_variables ((v, u) # vs) m =
     count_variables vs
       (case js_get m v of
          None \<Rightarrow> if v \<in> set object_prototype then m else js_set m v (u, Suc 0)
        | Some (cu, n) \<Rightarrow> js_set m v (cu \<or> u, Suc n))"

definition overlappingVariables :: "metadata list \<Rightarrow> (string \<times> bool) list" where
  "overlappingVariables mds =
     map (\<lambda>(v, cu, n). (v, cu))
       (filter (\<lambda>(v, cu, n). n = length mds)
         (fold (\<lambda>md. count_variables (md_variables md)) mds []))"

fun join_variables_of :: "bool \<Rightarrow> (string \<times> bool) list \<Rightarrow> (string, bool) jsmap \<Rightarrow> (string, bool) jsmap" where
  "join_variables_of later [] m = m"
| "join_variables_of later ((v, u) # vs) m =
     join_variables_of later vs
       (if v = ''__proto__'' then m
        else js_set m v
          (js_get m v = Some True \<or> \<not> js_has m v \<and> v \<in> set object_prototype \<or> u \<or>
           (later \<and> \<not> in_object m v)))"

fun join_variables_rest :: "bool \<Rightarrow> metadata list \<Rightarrow> (string, bool) jsmap \<Rightarrow> (string, bool) jsmap" where
  "join_variables_rest later [] m = m"
| "join_variables_rest later (md # mds) m =
     join_variables_rest later mds (join_variables_of later (md_variables md) m)"

definition joinVariables :: "metadata list \<Rightarrow> bool \<Rightarrow> (string \<times> bool) list" where
  "joinVariables mds optional =
     (case mds of
        [] \<Rightarrow> []
      | md # rest \<Rightarrow> join_variables_rest optional rest (join_variables_of False (md_variables md) []))"

fun join_fold ::
  "'v \<Rightarrow> ('v \<Rightarrow> bool) \<Rightarrow> ('t, 'v) bindings \<Rightarrow> ('t, 'v) bindings list \<Rightarrow> ('t, 'v) bindings option" where
  "join_fold u truthy acc [] = Some acc"
| "join_fold u truthy acc (b # bs) =
     (case b_merge u truthy acc b of None \<Rightarrow> None | Some m \<Rightarrow> join_fold u truthy m bs)"

fun joinBindings ::
  "'v \<Rightarrow> ('v \<Rightarrow> bool) \<Rightarrow> ('t, 'v) bindings list \<Rightarrow> ('t, 'v) bindings option" where
  "joinBindings u truthy [] = None"
| "joinBindings u truthy [b] = Some b"
| "joinBindings u truthy (b # c # bs) = join_fold u truthy b (c # bs)"

section \<open>Metadata of a join\<close>

definition getCardinality :: "metadata \<Rightarrow> cardinality" where
  "getCardinality md = md_cardinality md"

definition getMetadatas :: "('t, 'v, 'o) join_entry list \<Rightarrow> metadata list" where
  "getMetadatas es = map je_metadata es"

definition num_truthy :: "jsnum option \<Rightarrow> bool" where
  "num_truthy x \<longleftrightarrow> x \<noteq> None \<and> x \<noteq> Some NaN \<and> x \<noteq> Some (Num 0)"

definition or_zero :: "jsnum option \<Rightarrow> jsnum" where
  "or_zero x = (case x of None \<Rightarrow> Num 0 | Some n \<Rightarrow> n)"

definition getRequestInitialTimes :: "metadata list \<Rightarrow> jsnum list" where
  "getRequestInitialTimes mds =
     map (\<lambda>md. if num_truthy (md_pageSize md) then Num 0 else or_zero (md_requestTime md)) mds"

definition getRequestItemTimes :: "metadata list \<Rightarrow> jsnum list" where
  "getRequestItemTimes mds =
     map (\<lambda>md. if num_truthy (md_pageSize md)
                then num_div (or_zero (md_requestTime md)) (the (md_pageSize md)) else Num 0) mds"

definition number_MIN_VALUE :: jsnum where
  "number_MIN_VALUE = Num (1 / 2 ^ 1074)"

record partial_metadata =
  pm_state :: "nat option"
  pm_cardinality :: "cardinality option"
  pm_pageSize :: "jsnum option"
  pm_requestTime :: "jsnum option"

definition no_partial_metadata :: partial_metadata where
  "no_partial_metadata =
     \<lparr>pm_state = None, pm_cardinality = None, pm_pageSize = None, pm_requestTime = None\<rparr>"

definition reduce_cardinality :: "bool \<Rightarrow> cardinality \<Rightarrow> metadata \<Rightarrow> cardinality" where
  "reduce_cardinality optional acc md =
     (let this = getCardinality md
      in \<lparr>card_type = (if card_type this = Estimate then Estimate else card_type acc),
          card_value = num_mul (card_value acc)
            (if optional then num_max (Num 1) (card_value this) else card_value this),
          card_dataset = None\<rparr>)"

definition joined_cardinality ::
  "bool \<Rightarrow> (unit \<Rightarrow> string + jsnum) \<Rightarrow> metadata list \<Rightarrow> string + cardinality" where
  "joined_cardinality optional selectivity mds =
     (let hasZero = (\<exists>md \<in> set mds. card_value (getCardinality md) = Num 0);
          c = foldl (reduce_cardinality optional)
                \<lparr>card_type = Exact, card_value = Num 1, card_dataset = None\<rparr> mds
      in if \<not> hasZero \<or> optional
         then bind_res (selectivity ()) (\<lambda>s.
           let v = num_mul (card_value c) s
           in Inr (c\<lparr>card_value := (if v = Num 0 then number_MIN_VALUE else v)\<rparr>))
         else Inr c)"

definition constructResultMetadata ::
  "(unit \<Rightarrow> string + jsnum) \<Rightarrow> metadata list \<Rightarrow> partial_metadata \<Rightarrow> bool \<Rightarrow> store \<Rightarrow>
     string + (metadata \<times> store)" where
  "constructResultMetadata selectivity mds partial optional st =
     bind_res
       (case pm_cardinality partial of
          Some c \<Rightarrow> Inr c
        | None \<Rightarrow> joined_cardinality optional selectivity mds)
       (\<lambda>c. let (s, st') = constructState mds st
            in Inr (\<lparr>md_state = (case pm_state partial of None \<Rightarrow> s | Some t \<Rightarrow> t),
                     md_variables = joinVariables mds optional,
                     md_cardinality =
                       \<lparr>card_type = card_type c, card_value = card_value c, card_dataset = None\<rparr>,
                     md_pageSize = pm_pageSize partial,
                     md_requestTime = pm_requestTime partial\<rparr>, st'))"

section \<open>Testing and sorting\<close>

text \<open>The failures of \<open>test\<close>; the text of the messages is left out.\<close>

datatype join_failure =
    Other_logical_type
  | Fewer_than_two_entries
  | Operation_required
  | Too_few_entries
  | Too_many_entries
  | Not_bindings string
  | Contains_undefs
  | No_common_variable
  | Coefficients_failure string

fun occurrences_of :: "string list \<Rightarrow> (string, nat) jsmap \<Rightarrow> (string, nat) jsmap" where
  "occurrences_of [] m = m"
| "occurrences_of (v # vs) m =
     occurrences_of vs (js_set m v (Suc (case js_get m v of None \<Rightarrow> 0 | Some n \<Rightarrow> n)))"

definition multiOccurrenceVariables :: "('t, 'v, 'o) join_entry list \<Rightarrow> string list" where
  "multiOccurrenceVariables es =
     map fst (filter (\<lambda>(v, n). 2 \<le> n)
       (fold (\<lambda>e. occurrences_of (map fst (md_variables (je_metadata e)))) es []))"

definition sortJoinEntries ::
  "(('t, 'v, 'o) join_entry list \<Rightarrow> string + ('t, 'v, 'o) join_entry list) \<Rightarrow>
     ('t, 'v, 'o) join_entry list \<Rightarrow> string + (('t, 'v, 'o) join_entry list, unit) test_result" where
  "sortJoinEntries sorter es =
     (if list_ex (\<lambda>e. list_ex snd (md_variables (je_metadata e))) es then Inr (Passed es ())
      else if multiOccurrenceVariables es = []
      then Inr (Failed ''Bind join can only join entries with at least one common variable'')
      else bind_res (sorter es) (\<lambda>sorted. Inr (Passed sorted ())))"

text \<open>\<open>test\<close>: the coefficients of the concrete actor are the argument \<open>coefficients\<close>, given
  the metadata.\<close>

definition limit_failure :: "join_actor \<Rightarrow> nat \<Rightarrow> join_failure option" where
  "limit_failure a n =
     (case act_limitEntries a of
        None \<Rightarrow> (if act_limitEntriesMin a then Some Too_few_entries else None)
      | Some l \<Rightarrow>
          (if act_limitEntriesMin a then (if n < l then Some Too_few_entries else None)
           else (if l < n then Some Too_many_entries else None)))"

definition test_join ::
  "join_actor \<Rightarrow> (('t, 'v, 'o) join_action \<Rightarrow> metadata list \<Rightarrow> join_failure + 'r) \<Rightarrow>
     ('t, 'v, 'o) join_action \<Rightarrow> join_failure + 'r" where
  "test_join a coefficients action =
     (let es = ja_entries action;
          someRequired = list_ex je_operationRequired es
      in if ja_type action \<noteq> act_logicalType a then Inl Other_logical_type
      else if length es \<le> 1 then Inl Fewer_than_two_entries
      else if \<not> act_canHandleOperationRequired a \<and> someRequired then Inl Operation_required
      else case limit_failure a (length es) of Some f \<Rightarrow> Inl f | None \<Rightarrow>
      (case find (\<lambda>e. je_type e \<noteq> ''bindings'') es of Some e \<Rightarrow> Inl (Not_bindings (je_type e)) | None \<Rightarrow>
      (let mds = getMetadatas es; overlapping = overlappingVariables mds
       in if \<not> act_canHandleUndefs a \<and> list_ex snd overlapping then Inl Contains_undefs
       else if act_requiresVariableOverlap a \<and> overlapping = [] \<and> \<not> someRequired
       then Inl No_common_variable
       else coefficients action mds)))"

section \<open>Overlapping and joined variables\<close>

definition variable_entry :: "(string, bool \<times> nat) jsmap \<Rightarrow> string \<Rightarrow> bool \<times> nat" where
  "variable_entry m v = (case js_get m v of None \<Rightarrow> (False, 0) | Some e \<Rightarrow> e)"

lemma count_variables_wf: "wf_map m \<Longrightarrow> wf_map (count_variables vs m)"
  by (induction vs m rule: count_variables.induct) (auto split: option.splits)

lemma fold_count_variables_wf:
  "wf_map m \<Longrightarrow> wf_map (fold (\<lambda>md. count_variables (md_variables md)) mds m)"
  by (induction mds arbitrary: m) (auto intro: count_variables_wf)

lemma count_variables_entry:
  assumes "v \<notin> set object_prototype"
  shows "variable_entry (count_variables vs m) v =
     (fst (variable_entry m v) \<or> (v, True) \<in> set vs,
      snd (variable_entry m v) + count_list (map fst vs) v) \<and>
   (js_has (count_variables vs m) v \<longleftrightarrow> js_has m v \<or> v \<in> fst ` set vs)"
  using assms
  by (induction vs m rule: count_variables.induct)
     (auto simp: variable_entry_def split: option.splits)

lemma fold_count_variables:
  assumes "v \<notin> set object_prototype"
  shows "variable_entry (fold (\<lambda>md. count_variables (md_variables md)) mds m) v =
     (fst (variable_entry m v) \<or> (\<exists>md \<in> set mds. (v, True) \<in> set (md_variables md)),
      snd (variable_entry m v) + sum_list (map (\<lambda>md. count_list (map fst (md_variables md)) v) mds)) \<and>
   (js_has (fold (\<lambda>md. count_variables (md_variables md)) mds m) v \<longleftrightarrow>
      js_has m v \<or> (\<exists>md \<in> set mds. v \<in> fst ` set (md_variables md)))"
proof (induction mds arbitrary: m)
  case Nil
  then show ?case by simp
next
  case (Cons md mds)
  from Cons [of "count_variables (md_variables md) m"]
    count_variables_entry [OF assms, of "md_variables md" m]
  show ?case by auto
qed

lemma count_variables_prototype:
  assumes "v \<in> set object_prototype" and "js_get m v = None"
  shows "js_get (count_variables vs m) v = None"
  using assms(2)
proof (induction vs arbitrary: m)
  case (Cons p vs)
  then show ?case using assms(1) by (cases p) (auto intro!: Cons.IH split: option.split)
qed simp

lemma fold_count_variables_prototype:
  assumes "v \<in> set object_prototype"
  shows "js_get m v = None \<Longrightarrow> js_get (fold (\<lambda>md. count_variables (md_variables md)) mds m) v = None"
  by (induction mds arbitrary: m) (simp_all add: count_variables_prototype [OF assms])

lemma overlapping_plain: "(v, cu) \<in> set (overlappingVariables mds) \<Longrightarrow> v \<notin> set object_prototype"
proof
  assume "(v, cu) \<in> set (overlappingVariables mds)" and proto: "v \<in> set object_prototype"
  then have "v \<in> fst ` set (fold (\<lambda>md. count_variables (md_variables md)) mds [])"
    by (force simp: overlappingVariables_def)
  then have "js_get (fold (\<lambda>md. count_variables (md_variables md)) mds []) v \<noteq> None"
    by (simp only: js_has_iff)
  with fold_count_variables_prototype [OF proto, of "[]" mds] show False by simp
qed

definition md_vars :: "metadata \<Rightarrow> string set" where
  "md_vars md = fst ` set (md_variables md)"

definition wf_metadata :: "metadata \<Rightarrow> bool" where
  "wf_metadata md \<longleftrightarrow> distinct (map fst (md_variables md))"

lemma count_list_distinct: "distinct xs \<Longrightarrow> count_list xs x = (if x \<in> set xs then 1 else 0)"
  by (induction xs) auto

lemma sum_indicator:
  "sum_list (map (\<lambda>x. if P x then 1 else 0 :: nat) xs) = length xs \<longleftrightarrow> (\<forall>x \<in> set xs. P x)"
proof (induction xs)
  case Nil
  then show ?case by simp
next
  case (Cons x xs)
  have "sum_list (map (\<lambda>x. if P x then 1 else 0 :: nat) xs) \<le> length xs"
    by (induction xs) auto
  with Cons show ?case by auto
qed

lemma overlappingVariables_spec:
  assumes "\<forall>md \<in> set mds. wf_metadata md" and "mds \<noteq> []" and plain: "v \<notin> set object_prototype"
  shows "(v, cu) \<in> set (overlappingVariables mds) \<longleftrightarrow>
    (\<forall>md \<in> set mds. v \<in> md_vars md) \<and>
    cu = (\<exists>md \<in> set mds. (v, True) \<in> set (md_variables md))"
proof -
  let ?m = "fold (\<lambda>md. count_variables (md_variables md)) mds []"
  note f = fold_count_variables [OF plain, of mds "[]"]
  have wf: "wf_map ?m" by (rule fold_count_variables_wf) simp
  have occ: "sum_list (map (\<lambda>md. count_list (map fst (md_variables md)) v) mds) =
      sum_list (map (\<lambda>md. if v \<in> md_vars md then 1 else 0 :: nat) mds)"
    using assms(1) by (intro arg_cong [where f = sum_list] map_cong)
      (auto simp: count_list_distinct wf_metadata_def md_vars_def)
  have "(v, cu) \<in> set (overlappingVariables mds) \<longleftrightarrow> (v, cu, length mds) \<in> set ?m"
    by (force simp: overlappingVariables_def image_iff)
  also have "\<dots> \<longleftrightarrow> js_get ?m v = Some (cu, length mds)"
    using js_get_in [of ?m v] js_get_mem [of ?m v] wf by metis
  also have "\<dots> \<longleftrightarrow> js_has ?m v \<and> variable_entry ?m v = (cu, length mds)"
    by (auto simp: variable_entry_def split: option.splits)
  also have "\<dots> \<longleftrightarrow> (\<exists>md \<in> set mds. v \<in> md_vars md) \<and>
      cu = (\<exists>md \<in> set mds. (v, True) \<in> set (md_variables md)) \<and>
      (\<forall>md \<in> set mds. v \<in> md_vars md)"
    using f occ sum_indicator [of "\<lambda>md. v \<in> md_vars md" mds]
    by (auto simp: variable_entry_def md_vars_def)
  finally show ?thesis using assms(2) by (auto simp: neq_Nil_conv)
qed

lemma join_variables_of_get:
  assumes "v \<noteq> ''__proto__''"
  shows "js_get (join_variables_of later vs m) v =
     (if v \<notin> fst ` set vs then js_get m v
      else Some (js_get m v = Some True \<or> \<not> js_has m v \<and> v \<in> set object_prototype \<or>
                 (v, True) \<in> set vs \<or> (later \<and> \<not> js_has m v)))"
  using assms
  by (induction later vs m rule: join_variables_of.induct) (auto simp: in_object_def dest: mem_fst_image)

lemma join_variables_of_wf: "wf_map m \<Longrightarrow> wf_map (join_variables_of later vs m)"
  by (induction later vs m rule: join_variables_of.induct) auto

lemma join_variables_rest_wf: "wf_map m \<Longrightarrow> wf_map (join_variables_rest later mds m)"
  by (induction later mds m rule: join_variables_rest.induct) (auto intro: join_variables_of_wf)

lemma join_variables_rest_get:
  assumes "v \<noteq> ''__proto__''"
  shows "js_get (join_variables_rest later mds m) v =
     (if v \<notin> (\<Union>md \<in> set mds. md_vars md) then js_get m v
      else Some (js_get m v = Some True \<or> \<not> js_has m v \<and> v \<in> set object_prototype \<or>
                 (\<exists>md \<in> set mds. (v, True) \<in> set (md_variables md)) \<or> (later \<and> \<not> js_has m v)))"
proof (induction later mds m rule: join_variables_rest.induct)
  case (2 later md mds m)
  with join_variables_of_get [OF assms, of later "md_variables md" m] show ?case
    by (auto simp: md_vars_def dest: mem_fst_image)
qed simp

lemma joinVariables_get:
  assumes "v \<noteq> ''__proto__''"
  shows "js_get (joinVariables (md # mds) optional) v =
     (if v \<notin> (\<Union>md \<in> set (md # mds). md_vars md) then None
      else Some ((\<exists>md \<in> set (md # mds). (v, True) \<in> set (md_variables md)) \<or> v \<in> set object_prototype \<or>
                 (optional \<and> v \<notin> md_vars md)))"
  using join_variables_of_get [OF assms, of False "md_variables md" "[]"]
    join_variables_rest_get [OF assms, of optional mds "join_variables_of False (md_variables md) []"]
  by (simp add: joinVariables_def md_vars_def) (blast dest: mem_fst_image)

lemma join_variables_proto:
  "js_get (join_variables_of later vs m) ''__proto__'' = js_get m ''__proto__''"
  "js_get (join_variables_rest later mds m) ''__proto__'' = js_get m ''__proto__''"
proof -
  show of_vars: "js_get (join_variables_of later vs m) ''__proto__'' = js_get m ''__proto__''" for vs m later
    by (induction later vs m rule: join_variables_of.induct) auto
  show "js_get (join_variables_rest later mds m) ''__proto__'' = js_get m ''__proto__''"
    by (induction later mds m rule: join_variables_rest.induct) (auto simp: of_vars)
qed

lemma joinVariables_proto: "js_get (joinVariables mds optional) ''__proto__'' = None"
  by (cases mds) (simp_all add: joinVariables_def join_variables_proto)

lemma wf_joinVariables: "wf_map (joinVariables mds optional)"
  by (cases mds) (auto simp: joinVariables_def intro!: join_variables_of_wf join_variables_rest_wf)

text \<open>The promise of metadata about the bindings of a stream.\<close>

definition conforms :: "metadata \<Rightarrow> ('t, 'v) bindings \<Rightarrow> bool" where
  "conforms md b \<longleftrightarrow>
     dom (b_get b) \<subseteq> md_vars md \<and> (\<forall>v. (v, True) \<notin> set (md_variables md) \<longrightarrow>
        v \<in> md_vars md \<longrightarrow> v \<in> dom (b_get b))"

text \<open>The joined bindings are the union of pairwise compatible bindings.\<close>

definition all_compatible :: "('t, 'v) bindings list \<Rightarrow> bool" where
  "all_compatible bs \<longleftrightarrow> (\<forall>b \<in> set bs. \<forall>c \<in> set bs. compatible (b_get b) (b_get c))"

definition union_of :: "('t, 'v) bindings list \<Rightarrow> string \<rightharpoonup> 't" where
  "union_of bs = foldl (++) Map.empty (map b_get bs)"

lemma compatible_refl: "compatible f f"
  by (simp add: compatible_def)

lemma compatible_union:
  "compatible f g \<Longrightarrow> compatible (f ++ g) h \<longleftrightarrow> compatible f h \<and> compatible g h"
  unfolding compatible_def map_add_Some_iff by (metis not_None_eq option.inject)

lemma all_compatible_Cons:
  "all_compatible (b # bs) \<longleftrightarrow>
     (\<forall>c \<in> set bs. compatible (b_get b) (b_get c)) \<and> all_compatible bs"
  unfolding all_compatible_def using compatible_refl compatible_sym by (metis set_ConsD list.set_intros)

lemma join_fold_spec:
  assumes "wf_bindings acc" and "\<forall>b \<in> set bs. wf_bindings b"
  shows "case join_fold u truthy acc bs of
      None \<Rightarrow> \<not> all_compatible (acc # bs)
    | Some m \<Rightarrow> all_compatible (acc # bs) \<and> wf_bindings m \<and>
        b_get m = foldl (++) (b_get acc) (map b_get bs)"
  using assms
proof (induction bs arbitrary: acc)
  case Nil
  then show ?case by (simp add: all_compatible_def compatible_refl)
next
  case (Cons b bs)
  from Cons.prems have b: "wf_bindings b" by simp
  note spec = b_merge_spec [OF Cons.prems(1) b, of u truthy]
  show ?case
  proof (cases "b_merge u truthy acc b")
    case None
    with spec show ?thesis by (simp add: all_compatible_Cons)
  next
    case (Some m)
    with spec have m: "compatible (b_get acc) (b_get b)" "wf_bindings m"
      "b_get m = b_get acc ++ b_get b" by auto
    from m(1,3) have "all_compatible (acc # b # bs) \<longleftrightarrow> all_compatible (m # bs)"
      by (auto simp: all_compatible_Cons compatible_union)
    with Cons.IH [OF m(2)] Cons.prems Some m(3) show ?thesis by (simp split: option.splits)
  qed
qed

lemma joinBindings_spec:
  assumes "bs \<noteq> []" and "\<forall>b \<in> set bs. wf_bindings b"
  shows "case joinBindings u truthy bs of
      None \<Rightarrow> \<not> all_compatible bs
    | Some m \<Rightarrow> all_compatible bs \<and> wf_bindings m \<and> b_get m = union_of bs"
proof (cases bs)
  case Nil
  with assms show ?thesis by simp
next
  case (Cons b rest)
  then have "joinBindings u truthy bs = join_fold u truthy b rest" by (cases rest) auto
  with join_fold_spec [of b rest u truthy] Cons assms(2) show ?thesis
    by (simp add: union_of_def split: option.splits)
qed

lemma dom_foldl_add: "dom (foldl (++) f fs) = dom f \<union> (\<Union>g \<in> set fs. dom g)"
  by (induction fs arbitrary: f) auto

lemma dom_union_of: "dom (union_of bs) = (\<Union>b \<in> set bs. dom (b_get b))"
  by (simp add: union_of_def dom_foldl_add)

section \<open>Cardinality\<close>

text \<open>The finite cardinalities of the entries.\<close>

definition finite_card :: "metadata \<Rightarrow> rat \<Rightarrow> bool" where
  "finite_card md q \<longleftrightarrow> card_value (md_cardinality md) = Num q \<and> 0 \<le> q"

lemma reduce_cardinality_value:
  assumes "list_all2 finite_card mds qs" and "card_value c = Num p"
  shows "card_value (foldl (reduce_cardinality False) c mds) = Num (p * prod_list qs)"
  using assms
proof (induction mds qs arbitrary: c p rule: list_all2_induct)
  case Nil
  then show ?case by simp
next
  case (Cons md mds q qs)
  from Cons.hyps(1) Cons.prems have "card_value (reduce_cardinality False c md) = Num (p * q)"
    by (simp add: reduce_cardinality_def getCardinality_def finite_card_def Let_def)
  from Cons.IH [OF this] show ?case by (simp add: mult.assoc)
qed

lemma reduce_cardinality_dataset:
  "card_dataset c = None \<Longrightarrow> card_dataset (foldl (reduce_cardinality optional) c mds) = None"
  by (induction mds arbitrary: c) (simp_all add: reduce_cardinality_def Let_def)

lemma prod_list_zero: "prod_list qs = (0 :: rat) \<longleftrightarrow> 0 \<in> set qs"
  by (induction qs) auto

lemma has_zero_iff:
  "list_all2 finite_card mds qs \<Longrightarrow>
     (\<exists>md \<in> set mds. card_value (getCardinality md) = Num 0) \<longleftrightarrow> 0 \<in> set qs"
  by (induction mds qs rule: list_all2_induct) (auto simp: finite_card_def getCardinality_def)

lemma joined_cardinality_value:
  assumes "list_all2 finite_card mds qs" and "selectivity () = Inr (Num s)"
    and "joined_cardinality False selectivity mds = Inr c"
  shows "card_value c =
    (if 0 \<in> set qs then Num 0
     else if prod_list qs * s = 0 then number_MIN_VALUE else Num (prod_list qs * s))"
proof -
  let ?c = "foldl (reduce_cardinality False) \<lparr>card_type = Exact, card_value = Num 1, card_dataset = None\<rparr> mds"
  have v: "card_value ?c = Num (prod_list qs)"
    using reduce_cardinality_value [OF assms(1), of _ 1] by simp
  show ?thesis
  proof (cases "0 \<in> set qs")
    case True
    then have "card_value ?c = Num 0" using v prod_list_zero by simp
    with True assms(3) has_zero_iff [OF assms(1)] show ?thesis
      by (simp add: joined_cardinality_def Let_def)
  next
    case False
    with assms(2,3) has_zero_iff [OF assms(1)] v show ?thesis
      by (auto simp: joined_cardinality_def Let_def)
  qed
qed

section \<open>Properties of joins\<close>

text \<open>
  C38. If the bindings of every entry are as the metadata of the entry promises, and no entry has a variable named
  \<open>__proto__\<close>, then the joined bindings are as the metadata of an inner join promises: no further variable is bound
  and every variable not marked as possibly undefined is bound.
\<close>

theorem joined_bindings_conform:
  assumes "list_all2 conforms (md # mds) bs" and "\<forall>b \<in> set bs. wf_bindings b"
    and "joinBindings u truthy bs = Some m" and "md_variables result = joinVariables (md # mds) False"
    and proto: "\<forall>d \<in> set (md # mds). ''__proto__'' \<notin> md_vars d"
  shows "conforms result m"
proof -
  have bs: "bs \<noteq> []" using assms(1) by auto
  from joinBindings_spec [OF bs assms(2), of u truthy] assms(3)
  have m: "b_get m = union_of bs" by simp
  let ?J = "joinVariables (md # mds) False"
  have keys: "v \<in> md_vars result \<longleftrightarrow> v \<in> (\<Union>md \<in> set (md # mds). md_vars md)" for v
  proof (cases "v = ''__proto__''")
    case True
    then show ?thesis
      using proto joinVariables_proto [of "md # mds" False] js_has_iff [of ?J v] assms(4) by (auto simp: md_vars_def)
  next
    case False
    then show ?thesis
      using joinVariables_get [of v md mds False] js_has_iff [of ?J v] assms(4)
      by (auto simp: md_vars_def split: if_splits)
  qed
  have nth: "\<exists>i < length bs. b = bs ! i \<and> conforms ((md # mds) ! i) b" if "b \<in> set bs" for b
    using that assms(1) by (metis in_set_conv_nth list_all2_conv_all_nth)
  have "dom (b_get m) \<subseteq> md_vars result"
  proof
    fix v assume "v \<in> dom (b_get m)"
    then obtain b where b: "b \<in> set bs" "v \<in> dom (b_get b)" unfolding m dom_union_of by blast
    from nth [OF b(1)] obtain i where i: "i < length bs" "conforms ((md # mds) ! i) b" by blast
    then have "(md # mds) ! i \<in> set (md # mds)" using list_all2_lengthD [OF assms(1)] nth_mem by metis
    moreover have "v \<in> md_vars ((md # mds) ! i)" using i(2) b(2) by (auto simp: conforms_def)
    ultimately show "v \<in> md_vars result" unfolding keys by blast
  qed
  moreover have "v \<in> dom (b_get m)"
    if v: "(v, True) \<notin> set ?J" "v \<in> md_vars result" for v
  proof -
    have "js_get ?J v \<noteq> Some True" using v(1) js_get_mem by metis
    obtain d where d: "d \<in> set (md # mds)" "v \<in> md_vars d" using v(2) keys by blast
    have "(v, True) \<notin> set (md_variables d)"
    proof
      assume "(v, True) \<in> set (md_variables d)"
      with d(1) have "\<exists>d \<in> set (md # mds). (v, True) \<in> set (md_variables d)" by blast
      moreover from d have "v \<in> (\<Union>md \<in> set (md # mds). md_vars md)" by blast
      moreover from d proto have "v \<noteq> ''__proto__''" by blast
      ultimately have "js_get ?J v = Some True" using joinVariables_get [of v md mds False] by simp
      with \<open>js_get ?J v \<noteq> Some True\<close> show False ..
    qed
    note d = d this
    from d(1) obtain i where i: "i < length (md # mds)" "d = (md # mds) ! i"
      by (metis in_set_conv_nth)
    with assms(1) have "conforms d (bs ! i)" "i < length bs" by (auto simp: list_all2_conv_all_nth)
    with d show ?thesis unfolding m dom_union_of conforms_def by (metis UN_iff nth_mem)
  qed
  ultimately show ?thesis using assms(4) by (simp add: conforms_def)
qed

definition sample_md :: "(string \<times> bool) list \<Rightarrow> jsnum \<Rightarrow> metadata" where
  "sample_md vs n = \<lparr>md_state = 0, md_variables = vs,
     md_cardinality = \<lparr>card_type = Exact, card_value = n, card_dataset = None\<rparr>,
     md_pageSize = None, md_requestTime = None\<rparr>"

theorem joined_bindings_conform_witness:
  "conforms (sample_md [(''x'', False), (''y'', True)] (Num 1))
     (the (joinBindings False (\<lambda>v. v) [sample_b1, sample_b2]))"
proof (rule joined_bindings_conform)
  show "list_all2 conforms
      (sample_md [(''x'', False)] (Num 1) # [sample_md [(''x'', False), (''y'', True)] (Num 1)])
      [sample_b1, sample_b2]"
    by (simp add: conforms_def sample_md_def md_vars_def b_get_def [abs_def] sample_b1_def sample_b2_def)
  show "\<forall>b \<in> set [sample_b1, sample_b2]. wf_bindings b"
    by (simp add: wf_bindings_def wf_map_def sample_b1_def sample_b2_def)
  show "joinBindings False (\<lambda>v. v) [sample_b1, sample_b2] =
      Some (the (joinBindings False (\<lambda>v. v) [sample_b1, sample_b2]))"
    by (simp add: b_merge_def b_size_def merge_into_def sample_b1_def sample_b2_def)
  show "md_variables (sample_md [(''x'', False), (''y'', True)] (Num 1)) =
      joinVariables (sample_md [(''x'', False)] (Num 1) # [sample_md [(''x'', False), (''y'', True)] (Num 1)]) False"
    by (simp add: sample_md_def joinVariables_def object_prototype_def)
qed (simp add: md_vars_def sample_md_def)

text \<open>A variable \<open>?__proto__\<close> is missing from the metadata of a join of entries that bind it, and
  \<open>?constructor\<close> is not a common variable of entries that both bind it.\<close>

theorem join_prototype_variables:
  "joinVariables [sample_md [(''__proto__'', False)] n, sample_md [(''__proto__'', False)] n'] False = []"
  "joinVariables [sample_md [(''constructor'', False)] n, sample_md [(''constructor'', False)] n'] False = [(''constructor'', True)]"
  "overlappingVariables [sample_md [(''constructor'', False)] n, sample_md [(''constructor'', False)] n'] = []"
  by (simp_all add: joinVariables_def overlappingVariables_def sample_md_def object_prototype_def)

text \<open>
  The estimated cardinality of an inner join of entries with finite cardinalities is zero
  exactly when one of the entries has cardinality zero, whatever the selectivity.
\<close>

theorem joined_cardinality_zero_iff:
  assumes "list_all2 finite_card mds qs" and "selectivity () = Inr (Num s)"
    and "joined_cardinality False selectivity mds = Inr c"
  shows "card_value c = Num 0 \<longleftrightarrow> (\<exists>md \<in> set mds. card_value (md_cardinality md) = Num 0)"
  using joined_cardinality_value [OF assms] has_zero_iff [OF assms(1)] prod_list_zero [of qs]
  by (auto simp: number_MIN_VALUE_def getCardinality_def split: if_splits)

theorem joined_cardinality_zero_iff_witness:
  "card_value (case joined_cardinality False (\<lambda>u. Inr (Num 0)) [sample_md [] (Num 3), sample_md [] (Num 4)]
     of Inr c \<Rightarrow> c) \<noteq> Num 0"
proof -
  let ?mds = "[sample_md [] (Num 3), sample_md [] (Num 4)]"
  have "list_all2 finite_card ?mds [3, 4]" by (simp add: finite_card_def sample_md_def)
  moreover have "joined_cardinality False (\<lambda>u. Inr (Num 0)) ?mds = Inr (case joined_cardinality False (\<lambda>u. Inr (Num 0)) ?mds of Inr c \<Rightarrow> c)"
    by (simp add: joined_cardinality_def sample_md_def getCardinality_def Let_def)
  ultimately show ?thesis
    using joined_cardinality_zero_iff [of ?mds "[3, 4]" "\<lambda>u. Inr (Num 0)" 0]
    by (simp add: sample_md_def)
qed

end
