(* ===== verification/Join_Costs.thy ===== *)
theory Join_Costs
  imports Rdf_Join
begin

text \<open>
  The join coefficients (cost estimates) of the physical join actors
  \<open>packages/actor-rdf-join-*\<close> (methods \<open>test\<close> and \<open>getJoinCoefficients\<close>), and the
  mediator \<open>packages/mediator-join-coefficients-fixed\<close> that chooses the actor of least cost.

  Arithmetic on decimal factors such as 0.8 is exact here.  The actors reached over a bus are
  arguments: \<open>selectivity\<close> of a list of entries and \<open>sorter\<close>.  The sort that prefers entries
  with a modified operation has a comparator that is not symmetric, so its result is left to the
  engine: it is the argument \<open>prioritize\<close>.
\<close>

section \<open>Coefficients of the physical joins\<close>

type_synonym ('s) coefficients_result = "string + (join_coefficients, 's) test_result"

definition card :: "metadata \<Rightarrow> jsnum" where
  "card md = card_value (md_cardinality md)"

definition no_cost :: join_coefficients where
  "no_cost = \<lparr>jc_iterations = Num 0, jc_persistedItems = Num 0, jc_blockingItems = Num 0,
     jc_requestTime = Num 0\<rparr>"

text \<open>The time to request the two streams: initial times plus a time per item.\<close>

definition two_streams_time :: "metadata list \<Rightarrow> jsnum" where
  "two_streams_time mds =
     (let initial = getRequestInitialTimes mds; item = getRequestItemTimes mds
      in num_add (num_add (num_add (initial ! 0) (num_mul (card (mds ! 0)) (item ! 0))) (initial ! 1))
           (num_mul (card (mds ! 1)) (item ! 1)))"

definition none_coefficients :: "nat \<Rightarrow> 's \<Rightarrow> 's coefficients_result" where
  "none_coefficients n side =
     (if 0 < n then Inr (Failed ''can only join zero entries'') else Inr (Passed no_cost side))"

definition single_coefficients :: "nat \<Rightarrow> 's \<Rightarrow> 's coefficients_result" where
  "single_coefficients n side =
     (if n \<noteq> 1 then Inr (Failed ''can only join a single entry'') else Inr (Passed no_cost side))"

definition multi_empty_test ::
  "metadata list \<Rightarrow> 's coefficients_result \<Rightarrow> 's coefficients_result" where
  "multi_empty_test mds super =
     (if list_all (\<lambda>md. num_lt (Num 0) (card_value (getCardinality md))) mds
      then Inr (Failed ''can only join entries where at least one is empty'') else super)"

definition multi_empty_coefficients :: "'s \<Rightarrow> 's coefficients_result" where
  "multi_empty_coefficients side = Inr (Passed no_cost side)"

definition multi_empty_output :: "metadata list \<Rightarrow> store \<Rightarrow> ('t, 'v) bindings list \<times> metadata \<times> store" where
  "multi_empty_output mds st =
     (let (s, st') = new_state st
      in ([], \<lparr>md_state = s, md_variables = joinVariables mds False,
               md_cardinality = \<lparr>card_type = Exact, card_value = Num 0, card_dataset = None\<rparr>,
               md_pageSize = None, md_requestTime = None\<rparr>, st'))"

definition none_output :: "(string, 'v \<Rightarrow> 'v \<Rightarrow> 'v) jsmap option \<Rightarrow> store \<Rightarrow>
    ('t, 'v) bindings list \<times> metadata \<times> store" where
  "none_output handlers st =
     (let (s, st') = new_state st
      in ([factory_bindings handlers []],
          \<lparr>md_state = s, md_variables = [],
           md_cardinality = \<lparr>card_type = Exact, card_value = Num 1, card_dataset = None\<rparr>,
           md_pageSize = None, md_requestTime = None\<rparr>, st'))"

definition single_output :: "('t, 'v, 'o) join_entry list \<Rightarrow> ('t, 'v) bindings list" where
  "single_output es = je_bindings (es ! 0)"

text \<open>The hash join swaps its entries so that the smaller one is indexed.\<close>

definition hash_coefficients ::
  "bool \<Rightarrow> 'e list \<Rightarrow> metadata list \<Rightarrow> (metadata list \<times> 'e list) coefficients_result" where
  "hash_coefficients canHandleUndefs es metadatas =
     (let swap = num_lt (card (metadatas ! 1)) (card (metadatas ! 0));
          mds = (if swap then [metadatas ! 1, metadatas ! 0] else metadatas);
          entriesSorted = (if swap then [es ! 1, es ! 0] else es);
          both = num_add (card (mds ! 0)) (card (mds ! 1))
      in Inr (Passed
           \<lparr>jc_iterations = (if canHandleUndefs then both else num_mul both (Num (8 / 10))),
            jc_persistedItems = card (mds ! 0),
            jc_blockingItems = card (mds ! 0),
            jc_requestTime = two_streams_time mds\<rparr> (mds, entriesSorted)))"

definition symmetric_hash_coefficients :: "metadata list \<Rightarrow> metadata list coefficients_result" where
  "symmetric_hash_coefficients mds =
     (let both = num_add (card (mds ! 0)) (card (mds ! 1))
      in Inr (Passed \<lparr>jc_iterations = both, jc_persistedItems = both, jc_blockingItems = Num 0,
           jc_requestTime = two_streams_time mds\<rparr> mds))"

text \<open>The inner and the optional nested loop join.\<close>

definition nested_loop_coefficients :: "metadata list \<Rightarrow> metadata list coefficients_result" where
  "nested_loop_coefficients mds =
     Inr (Passed \<lparr>jc_iterations = num_mul (card (mds ! 0)) (card (mds ! 1)),
       jc_persistedItems = Num 0, jc_blockingItems = Num 0, jc_requestTime = two_streams_time mds\<rparr> mds)"

definition optional_nested_loop_coefficients :: "metadata list \<Rightarrow> metadata list coefficients_result" where
  "optional_nested_loop_coefficients mds =
     Inr (Passed \<lparr>jc_iterations = num_mul (card (mds ! 0)) (card (mds ! 1)),
       jc_persistedItems = Num 0, jc_blockingItems = Num 0, jc_requestTime = two_streams_time mds\<rparr> mds)"

definition minus_hash_coefficients :: "bool \<Rightarrow> metadata list \<Rightarrow> metadata list coefficients_result" where
  "minus_hash_coefficients canHandleUndefs mds =
     (let both = num_add (card (mds ! 0)) (card (mds ! 1))
      in Inr (Passed
           \<lparr>jc_iterations = (if canHandleUndefs then both else num_mul both (Num (8 / 10))),
            jc_persistedItems = card (mds ! 0),
            jc_blockingItems = card (mds ! 0),
            jc_requestTime = two_streams_time mds\<rparr> mds))"

definition optional_hash_coefficients :: "bool \<Rightarrow> bool \<Rightarrow> metadata list \<Rightarrow> metadata list coefficients_result" where
  "optional_hash_coefficients canHandleUndefs blocking mds =
     (let both = num_add (card (mds ! 0)) (card (mds ! 1));
          its = (if canHandleUndefs then both else num_mul both (Num (8 / 10)))
      in Inr (Passed
           \<lparr>jc_iterations = (if blocking then num_mul its (Num (9 / 10)) else its),
            jc_persistedItems = card (mds ! 0),
            jc_blockingItems = (if blocking then card (mds ! 0) else Num 0),
            jc_requestTime = two_streams_time mds\<rparr> mds))"

definition optplus_coefficients :: "metadata list \<Rightarrow> metadata list coefficients_result" where
  "optplus_coefficients mds =
     Inr (Passed \<lparr>jc_iterations = num_add (card (mds ! 0)) (card (mds ! 1)),
       jc_persistedItems = Num 0, jc_blockingItems = Num 0, jc_requestTime = Num 0\<rparr> mds)"

text \<open>\<open>reduce\<close> over the remaining metadata: the index passed to the reducer is that in the
  shortened list.\<close>

definition sequential_rest_time :: "metadata list \<Rightarrow> jsnum" where
  "sequential_rest_time mds =
     (let initial = getRequestInitialTimes mds; item = getRequestItemTimes mds
      in foldl (\<lambda>sum (md, i). num_add (num_add sum (initial ! i)) (num_mul (card md) (item ! i)))
           (Num 0) (zip (drop 2 mds) [0..<length (drop 2 mds)]))"

definition sequential_coefficients :: "metadata list \<Rightarrow> metadata list coefficients_result" where
  "sequential_coefficients mds =
     Inr (Passed
       \<lparr>jc_iterations = num_mul (num_mul (card (mds ! 0)) (card (mds ! 1)))
          (foldl (\<lambda>acc md. num_mul acc (card md)) (Num 1) (drop 2 mds)),
        jc_persistedItems = Num 0, jc_blockingItems = Num 0,
        jc_requestTime = num_add (two_streams_time mds) (sequential_rest_time mds)\<rparr> mds)"

definition with_metadata ::
  "('t, 'v, 'o) join_entry list \<Rightarrow> metadata list \<Rightarrow> ('t, 'v, 'o) join_entry list" where
  "with_metadata es mds = map (\<lambda>(e, md). e\<lparr>je_metadata := md\<rparr>) (zip es mds)"

definition smallest_coefficients ::
  "(('t, 'v, 'o) join_entry list \<Rightarrow> string + ('t, 'v, 'o) join_entry list) \<Rightarrow>
     ('t, 'v, 'o) join_entry list \<Rightarrow> metadata list \<Rightarrow> ('t, 'v, 'o) join_entry list coefficients_result" where
  "smallest_coefficients sorter es metadatas =
     bind_res (sorter (with_metadata es metadatas)) (\<lambda>ordered.
       let mds = map je_metadata ordered;
           initial = getRequestInitialTimes mds; item = getRequestItemTimes mds
       in Inr (Passed
            \<lparr>jc_iterations = foldl (\<lambda>acc md. num_mul acc (card md)) (Num 1) mds,
             jc_persistedItems = Num 0, jc_blockingItems = Num 0,
             jc_requestTime =
               foldl (\<lambda>sum (md, i). num_add (num_add sum (initial ! i)) (num_mul (card md) (item ! i)))
                 (Num 0) (zip mds [0..<length mds])\<rparr> ordered))"

section \<open>Bind joins\<close>

text \<open>\<open>visited\<close> gives the types of the operations that \<open>visitOperation\<close> meets.\<close>

definition canBindWithOperation :: "('o \<Rightarrow> string list) \<Rightarrow> 'o \<Rightarrow> bool" where
  "canBindWithOperation visited op =
     (\<not> list_ex (\<lambda>ty. ty = ''extend'' \<or> ty = ''group'') (visited op))"

definition num_sum :: "jsnum list \<Rightarrow> jsnum" where
  "num_sum xs = foldl num_add (Num 0) xs"

definition bind_selectivities ::
  "(('t, 'v, 'o) join_entry list \<Rightarrow> string + jsnum) \<Rightarrow> jsnum \<Rightarrow> ('t, 'v, 'o) join_entry \<Rightarrow>
     ('t, 'v, 'o) join_entry list \<Rightarrow> string + jsnum list" where
  "bind_selectivities selectivity modifier first remaining =
     map_res (\<lambda>e. bind_res (selectivity [first, e]) (\<lambda>s. Inr (num_mul s modifier))) remaining"

definition too_large_to_bind :: "jsnum \<Rightarrow> metadata list \<Rightarrow> bool" where
  "too_large_to_bind ratio mds =
     (let isRemoteAccess = list_ex (num_lt (Num 0)) (getRequestItemTimes mds)
      in num_lt (num_max_list (map card mds))
           (num_div (num_mul (card (mds ! 0)) ratio) (if isRemoteAccess then Num 1 else Num 3)))"

definition multi_bind_coefficients ::
  "(('t, 'v, 'o) join_entry list \<Rightarrow> string + ('t, 'v, 'o) join_entry list) \<Rightarrow>
     (('t, 'v, 'o) join_entry list \<Rightarrow> string + jsnum) \<Rightarrow> ('o \<Rightarrow> string list) \<Rightarrow> jsnum \<Rightarrow> jsnum \<Rightarrow>
     ('t, 'v, 'o) join_entry list \<Rightarrow> metadata list \<Rightarrow>
     (('t, 'v, 'o) join_entry list \<times> ('t, 'v, 'o) join_entry list) coefficients_result" where
  "multi_bind_coefficients sorter selectivity visited modifier ratio es metadatas =
     (let unsorted = with_metadata es metadatas
      in bind_res (sortJoinEntries sorter unsorted) (\<lambda>t. case t of
           Failed m \<Rightarrow> Inr (Failed m)
         | Passed ordered u \<Rightarrow>
             (let mds = map je_metadata ordered;
                  initial = getRequestInitialTimes mds; item = getRequestItemTimes mds;
                  remaining = drop 1 ordered
              in if list_ex (\<lambda>e. \<not> canBindWithOperation visited (je_operation e)) remaining
                 then Inr (Failed ''can not bind on Extend and Group operations'')
                 else if list_ex je_operationModified remaining
                 then Inr (Failed ''can not be used over remaining entries with modified operations'')
                 else if too_large_to_bind ratio mds
                 then Inr (Failed ''can only run if the smallest stream is much smaller than largest stream'')
                 else bind_res (bind_selectivities selectivity modifier (ordered ! 0) remaining) (\<lambda>sels.
                   let cardinalityRemaining =
                         num_sum (map2 (\<lambda>e s. num_mul (card (je_metadata e)) s) remaining sels);
                       initialRemaining = num_sum (drop 1 initial);
                       itemRemaining = num_sum (drop 1 item)
                   in Inr (Passed
                        \<lparr>jc_iterations = num_mul (card (mds ! 0)) cardinalityRemaining,
                         jc_persistedItems = Num 0, jc_blockingItems = Num 0,
                         jc_requestTime = num_add (initial ! 0) (num_mul (card (mds ! 0))
                           (num_add (num_add (item ! 0) initialRemaining)
                             (num_mul cardinalityRemaining itemRemaining)))\<rparr>
                        (unsorted, ordered))))))"

definition optional_bind_coefficients ::
  "(('t, 'v, 'o) join_entry list \<Rightarrow> string + jsnum) \<Rightarrow> ('o \<Rightarrow> string) \<Rightarrow> jsnum \<Rightarrow>
     ('t, 'v, 'o) join_entry list \<Rightarrow> metadata list \<Rightarrow> metadata list coefficients_result" where
  "optional_bind_coefficients selectivity op_type modifier es mds =
     (let initial = getRequestInitialTimes mds; item = getRequestItemTimes mds;
          ty = op_type (je_operation (es ! 1))
      in if ty = ''extend'' \<or> ty = ''group''
         then Inr (Failed ''can not bind on Extend and Group operations'')
         else bind_res (selectivity es) (\<lambda>s0.
           let s = num_mul s0 modifier
           in Inr (Passed
                \<lparr>jc_iterations = num_mul (num_mul (card (mds ! 0)) (card (mds ! 1))) s,
                 jc_persistedItems = Num 0, jc_blockingItems = Num 0,
                 jc_requestTime = num_add (initial ! 0) (num_mul (card (mds ! 0))
                   (num_add (num_add (item ! 0) (initial ! 1))
                     (num_mul (num_mul s (card (mds ! 1))) (item ! 1))))\<rparr> mds)))"

text \<open>The bind join over a source: \<open>source_of\<close> is the source annotated on an operation,
  \<open>accepts\<close> tells whether the source of the entries takes the joined operation with bindings.\<close>

definition bind_source_sort ::
  "(('t, 'v, 'o) join_entry list \<Rightarrow> string + ('t, 'v, 'o) join_entry list) \<Rightarrow>
     (('t, 'v, 'o) join_entry list \<Rightarrow> ('t, 'v, 'o) join_entry list) \<Rightarrow>
     ('t, 'v, 'o) join_entry list \<Rightarrow> string + (('t, 'v, 'o) join_entry list, unit) test_result" where
  "bind_source_sort sorter prioritize es =
     bind_res (sortJoinEntries sorter es) (\<lambda>t. case t of
       Failed m \<Rightarrow> Inr (Failed m)
     | Passed ordered u \<Rightarrow> Inr (Passed (prioritize ordered) ()))"

definition createOperationFromEntries ::
  "('o list \<Rightarrow> 'o) \<Rightarrow> ('t, 'v, 'o) join_entry list \<Rightarrow> 'o" where
  "createOperationFromEntries createJoin es =
     (if length es = 1 then je_operation (es ! 0) else createJoin (map je_operation es))"

definition bind_source_coefficients ::
  "(('t, 'v, 'o) join_entry list \<Rightarrow> string + ('t, 'v, 'o) join_entry list) \<Rightarrow>
     (('t, 'v, 'o) join_entry list \<Rightarrow> ('t, 'v, 'o) join_entry list) \<Rightarrow>
     (('t, 'v, 'o) join_entry list \<Rightarrow> string + jsnum) \<Rightarrow> ('o \<Rightarrow> 'src option) \<Rightarrow>
     ('src \<Rightarrow> 'o \<Rightarrow> string + bool) \<Rightarrow> ('o list \<Rightarrow> 'o) \<Rightarrow> jsnum \<Rightarrow>
     ('t, 'v, 'o) join_entry list \<Rightarrow> metadata list \<Rightarrow>
     (('t, 'v, 'o) join_entry list \<times> ('t, 'v, 'o) join_entry list) coefficients_result" where
  "bind_source_coefficients sorter prioritize selectivity source_of accepts createJoin modifier es metadatas =
     (let unsorted = with_metadata es metadatas
      in bind_res (bind_source_sort sorter prioritize unsorted) (\<lambda>t. case t of
           Failed m \<Rightarrow> Inr (Failed m)
         | Passed ordered u \<Rightarrow>
             (let mds = map je_metadata ordered;
                  initial = getRequestInitialTimes mds; item = getRequestItemTimes mds;
                  remaining = drop 1 ordered;
                  sources = map (\<lambda>e. source_of (je_operation e)) remaining
              in if list_ex (\<lambda>s. s = None) sources
                 then Inr (Failed ''can not bind on remaining operations without source annotation'')
                 else if list_ex (\<lambda>s. s \<noteq> sources ! 0) sources
                 then Inr (Failed ''can not bind on remaining operations with non-equal source annotation'')
                 else bind_res (accepts (the (sources ! 0)) (createOperationFromEntries createJoin remaining)) (\<lambda>ok.
                   if \<not> ok
                   then Inr (Failed ''detected a source that can not handle passing down join bindings'')
                   else bind_res (bind_selectivities selectivity modifier (ordered ! 0) remaining) (\<lambda>sels.
                     let cardinalityRemaining =
                           num_sum (map2 (\<lambda>e s. num_mul (card (je_metadata e)) s) remaining sels)
                     in Inr (Passed
                          \<lparr>jc_iterations = Num 1,
                           jc_persistedItems = card (mds ! 0), jc_blockingItems = card (mds ! 0),
                           jc_requestTime =
                             num_add (num_add (num_add (initial ! 0) (num_mul (card (mds ! 0)) (item ! 0)))
                               (initial ! 1)) (num_mul cardinalityRemaining (item ! 1))\<rparr>
                          (unsorted, ordered)))))))"

definition wrap_stream_test :: "bool \<Rightarrow> metadata list \<Rightarrow> metadata list coefficients_result" where
  "wrap_stream_test wrapped mds =
     (if wrapped then Inr (Failed ''Unable to wrap join operation multiple times'')
      else Inr (Passed \<lparr>jc_iterations = Num (- 1), jc_persistedItems = Num (- 1),
             jc_blockingItems = Num (- 1), jc_requestTime = Num (- 1)\<rparr> mds))"

section \<open>The mediator over join coefficients\<close>

record join_weights =
  cpuWeight :: jsnum
  memoryWeight :: jsnum
  timeWeight :: jsnum
  ioWeight :: jsnum

definition join_cost :: "join_weights \<Rightarrow> join_coefficients \<Rightarrow> jsnum" where
  "join_cost w c =
     num_add (num_add (num_add
       (num_mul (jc_iterations c) (cpuWeight w))
       (num_mul (jc_persistedItems c) (memoryWeight w)))
       (num_mul (jc_blockingItems c) (timeWeight w)))
       (num_mul (jc_requestTime c) (ioWeight w))"

fun passed_result :: "('t, 's) test_result \<Rightarrow> ('t \<times> 's) option" where
  "passed_result (Passed t s) = Some (t, s)"
| "passed_result (Failed m) = None"

text \<open>With a limit, actors that block and iterate over more items than the limit cost more.\<close>

definition limited_cost ::
  "jsnum \<Rightarrow> jsnum \<Rightarrow> jsnum option \<Rightarrow> (join_coefficients \<times> 's) option \<Rightarrow> jsnum option" where
  "limited_cost limit maxCost cost result =
     (case (cost, result) of
        (Some c, Some (k, s)) \<Rightarrow>
          (if num_lt (Num 0) (jc_blockingItems k) \<and> num_lt limit (jc_iterations k)
           then Some (num_add c maxCost) else Some c)
      | _ \<Rightarrow> cost)"

definition join_costs ::
  "join_weights \<Rightarrow> jsnum option \<Rightarrow> (join_coefficients \<times> 's) option list \<Rightarrow> jsnum option list" where
  "join_costs w limitIndicator results =
     (let costs = map (map_option (\<lambda>(k, s). join_cost w k)) results;
          maxCost = num_max_list (List.map_filter (\<lambda>c. c) costs)
      in if num_truthy limitIndicator
         then map2 (limited_cost (the limitIndicator) maxCost) costs results else costs)"

definition min_cost_step :: "int \<times> jsnum \<Rightarrow> int \<times> jsnum option \<Rightarrow> int \<times> jsnum" where
  "min_cost_step acc p =
     (case (acc, p) of ((minIndex, minValue), (i, cost)) \<Rightarrow>
        (case cost of
           None \<Rightarrow> acc
         | Some c \<Rightarrow> if minIndex = -1 \<or> num_lt c minValue then (i, c) else acc))"

definition min_cost_index :: "jsnum option list \<Rightarrow> int" where
  "min_cost_index costs =
     fst (foldl min_cost_step (-1, PInf) (zip (map int [0..<length costs]) costs))"

definition mediateWith_join ::
  "join_weights \<Rightarrow> jsnum option \<Rightarrow> (string list \<Rightarrow> string) \<Rightarrow> ('a, join_coefficients, 's) chooser" where
  "mediateWith_join w limitIndicator msg rs = Some (
     bind_res (map_res snd rs) (\<lambda>ts.
       let errors = List.map_filter getFailMessage ts;
           results = map passed_result ts;
           minIndex = min_cost_index (join_costs w limitIndicator results)
       in if minIndex < 0 then Inr (Failed (msg errors))
          else Inr (Passed (fst (rs ! nat minIndex)) (snd (the (results ! nat minIndex))))))"

section \<open>The choice of the mediator\<close>

text \<open>The reducer holds the first index of a cost than which no cost seen is smaller.\<close>

definition least_cost_at :: "jsnum option list \<Rightarrow> nat \<Rightarrow> jsnum \<Rightarrow> bool" where
  "least_cost_at costs i c \<longleftrightarrow>
     i < length costs \<and> costs ! i = Some c \<and> (\<forall>d. Some d \<in> set costs \<longrightarrow> \<not> num_lt d c)"

lemma min_cost_step_simps [simp]:
  "min_cost_step (i, c) (j, None) = (i, c)"
  "min_cost_step (i, c) (j, Some d) = (if i = -1 \<or> num_lt d c then (j, d) else (i, c))"
  by (simp_all add: min_cost_step_def)

lemma min_cost_foldl:
  "case foldl min_cost_step (-1, PInf) (zip (map int [0..<length costs]) costs) of (i, c) \<Rightarrow>
     (i = -1 \<and> (\<forall>d \<in> set costs. d = None)) \<or> (0 \<le> i \<and> least_cost_at costs (nat i) c)"
proof (induction costs rule: rev_induct)
  case Nil
  then show ?case by simp
next
  case (snoc x costs)
  obtain i c where acc: "foldl min_cost_step (-1, PInf) (zip (map int [0..<length costs]) costs) = (i, c)"
    by fastforce
  have step: "foldl min_cost_step (-1, PInf) (zip (map int [0..<length (costs @ [x])]) (costs @ [x])) =
      min_cost_step (i, c) (int (length costs), x)"
    using acc by simp
  from snoc acc have IH: "(i = -1 \<and> (\<forall>d \<in> set costs. d = None)) \<or>
      (0 \<le> i \<and> least_cost_at costs (nat i) c)" by simp
  show ?case
  proof (cases x)
    case None
    with IH show ?thesis unfolding step by (auto simp: least_cost_at_def nth_append)
  next
    case (Some d)
    show ?thesis
    proof (cases "i = -1 \<or> num_lt d c")
      case True
      have "\<not> num_lt e d" if "Some e \<in> set costs" for e
        using True that IH num_lt_trans [of e d c] by (auto simp: least_cost_at_def)
      with True Some show ?thesis unfolding step by (auto simp: least_cost_at_def nth_append)
    next
      case False
      with IH have "0 \<le> i" "least_cost_at costs (nat i) c" by auto
      moreover from this False Some have "least_cost_at (costs @ [x]) (nat i) c"
        by (auto simp: least_cost_at_def nth_append)
      ultimately show ?thesis using False Some unfolding step by simp
    qed
  qed
qed

lemma min_cost_index_spec:
  "(min_cost_index costs = -1 \<and> (\<forall>d \<in> set costs. d = None)) \<or>
   (0 \<le> min_cost_index costs \<and> (\<exists>c. least_cost_at costs (nat (min_cost_index costs)) c))"
  using min_cost_foldl [of costs] by (auto simp: min_cost_index_def split: prod.splits)

lemma limited_cost_None [simp]: "limited_cost l m cost result = None \<longleftrightarrow> cost = None"
  by (auto simp: limited_cost_def split: option.splits)

lemma join_costs_length [simp]: "length (join_costs w l results) = length results"
  by (simp add: join_costs_def Let_def)

lemma join_costs_None:
  "i < length results \<Longrightarrow> join_costs w l results ! i = None \<longleftrightarrow> results ! i = None"
  by (simp add: join_costs_def Let_def)

lemma passed_result_Some: "passed_result r = Some (t, s) \<longleftrightarrow> r = Passed t s"
  by (cases r) auto

lemma passed_result_None: "passed_result r = None \<longleftrightarrow> \<not> isPassed r"
  by (cases r) auto

definition replied :: "('a \<times> ('t, 's) test_result) list \<Rightarrow> ('a, 't, 's) reply list" where
  "replied xs = map (\<lambda>(a, r). (a, Inr r)) xs"

lemma mediateWith_join_replied:
  "mediateWith_join w l msg (replied xs) = Some (
     let costs = join_costs w l (map (passed_result \<circ> snd) xs); i = min_cost_index costs
     in if i < 0 then Inr (Failed (msg (List.map_filter (getFailMessage \<circ> snd) xs)))
        else Inr (Passed (fst (xs ! nat i)) (snd (the (passed_result (snd (xs ! nat i)))))))"
proof -
  let ?costs = "join_costs w l (map (passed_result \<circ> snd) xs)"
  have "\<not> min_cost_index ?costs < 0 \<Longrightarrow> nat (min_cost_index ?costs) < length xs"
    using min_cost_index_spec [of ?costs] by (auto simp: least_cost_at_def)
  moreover have "map_res snd (replied xs) = Inr (map snd xs)"
    by (induction xs) (simp_all add: replied_def case_prod_beta)
  moreover have "fst (replied xs ! i) = fst (xs ! i)" if "i < length xs" for i
    using that by (simp add: replied_def case_prod_beta)
  ultimately show ?thesis
    by (simp add: mediateWith_join_def comp_def Let_def List.map_filter_def filter_map)
qed

interpretation join_med: mediator_law "mediateWith_join w l msg" for w l msg
proof
  fix rs :: "('a, join_coefficients, 's) reply list" and a s
  assume med: "mediateWith_join w l msg rs = Some (Inr (Passed a s))"
  then obtain ts where ts: "map_res snd rs = Inr ts"
    by (cases "map_res snd rs") (auto simp: mediateWith_join_def)
  have len: "length ts = length rs" using map_res_Inr_length [OF ts] .
  let ?costs = "join_costs w l (map passed_result ts)"
  let ?i = "nat (min_cost_index ?costs)"
  from med ts have ge: "0 \<le> min_cost_index ?costs"
    and a: "a = fst (rs ! ?i)" and s: "s = snd (the (map passed_result ts ! ?i))"
    by (auto simp: mediateWith_join_def Let_def split: if_splits)
  from ge min_cost_index_spec [of ?costs] obtain c where c: "least_cost_at ?costs ?i c" by auto
  then have i: "?i < length ts" and "?costs ! ?i \<noteq> None" by (auto simp: least_cost_at_def)
  then have "passed_result (ts ! ?i) \<noteq> None"
    using join_costs_None [of ?i "map passed_result ts" w l] by simp
  then obtain t s' where t: "ts ! ?i = Passed t s'"
    using passed_result_Some by (metis not_None_eq surj_pair)
  with s i have "s = s'" by simp
  moreover have "snd (rs ! ?i) = Inr (ts ! ?i)" using map_res_Inr_nth [OF ts] i len by simp
  ultimately have "rs ! ?i = (a, Inr (Passed t s))" using a t by (metis prod.collapse)
  then show "\<exists>t. (a, Inr (Passed t s)) \<in> set rs" using i len nth_mem by metis
qed

section \<open>Properties of the costs\<close>

text \<open>
  C28. The join mediator fails, with the messages of the failed tests, exactly when every test
  failed; otherwise it chooses an actor whose test passed, with its own side data, such that no
  actor that passed has a smaller cost.
\<close>

theorem join_mediator_least_cost:
  "case mediateWith_join w l msg (replied xs) of
     Some (Inr (Failed m)) \<Rightarrow>
       list_all (\<lambda>x. \<not> isPassed (snd x)) xs \<and> m = msg (List.map_filter (getFailMessage \<circ> snd) xs)
   | Some (Inr (Passed a s)) \<Rightarrow>
       (\<exists>i t c. i < length xs \<and> xs ! i = (a, Passed t s) \<and>
          least_cost_at (join_costs w l (map (passed_result \<circ> snd) xs)) i c)
   | _ \<Rightarrow> False"
proof -
  let ?rs = "map (passed_result \<circ> snd) xs"
  let ?costs = "join_costs w l ?rs"
  from min_cost_index_spec [of ?costs] show ?thesis
  proof
    assume none: "min_cost_index ?costs = -1 \<and> (\<forall>d \<in> set ?costs. d = None)"
    have "\<not> isPassed (snd (xs ! i))" if "i < length xs" for i
      using that none join_costs_None [of i ?rs w l] passed_result_None
      by (metis comp_apply join_costs_length length_map nth_map nth_mem)
    with none show ?thesis
      by (simp add: mediateWith_join_replied list_all_length)
  next
    assume "0 \<le> min_cost_index ?costs \<and> (\<exists>c. least_cost_at ?costs (nat (min_cost_index ?costs)) c)"
    then obtain c where ge: "0 \<le> min_cost_index ?costs"
      and c: "least_cost_at ?costs (nat (min_cost_index ?costs)) c" by blast
    let ?i = "nat (min_cost_index ?costs)"
    from c have i: "?i < length xs" and "?costs ! ?i \<noteq> None" by (auto simp: least_cost_at_def)
    then have "passed_result (snd (xs ! ?i)) \<noteq> None"
      using join_costs_None [of ?i ?rs w l] by simp
    then obtain t s where t: "snd (xs ! ?i) = Passed t s"
      using passed_result_Some by (metis not_None_eq surj_pair)
    then have "xs ! ?i = (fst (xs ! ?i), Passed t s)" by (metis prod.collapse)
    with ge i c t show ?thesis by (simp add: mediateWith_join_replied Let_def) blast
  qed
qed

text \<open>
  The hash join indexes the entry with the smaller cardinality: the entries and their metadata
  stay paired, and the first one, which blocks, is not larger than the second.
\<close>

theorem hash_indexes_smaller:
  "case hash_coefficients undef [e0, e1] [m0, m1] of
     Inr (Passed c (mds, es)) \<Rightarrow>
       mset (zip es mds) = {#(e0, m0), (e1, m1)#} \<and>
       jc_blockingItems c = card (mds ! 0) \<and> \<not> num_lt (card (mds ! 1)) (card (mds ! 0))
   | _ \<Rightarrow> False"
  using num_lt_trans [of "card m1" "card m0" "card m1"]
  by (auto simp: hash_coefficients_def Let_def add_mset_commute)

text \<open>
  The request time that the sequential join of three entries reports does not depend on how
  long requests to the third entry take: the reducer reads the times at the indexes of the
  shortened list.
\<close>

theorem sequential_ignores_third_time:
  "map_test (\<lambda>c s. jc_requestTime c) (case sequential_coefficients
       [m0, m1, m2\<lparr>md_requestTime := t, md_pageSize := p\<rparr>] of Inr r \<Rightarrow> r) =
   Passed (num_add (two_streams_time [m0, m1])
     (num_add (num_add (Num 0) (getRequestInitialTimes [m0] ! 0))
        (num_mul (card m2) (getRequestItemTimes [m0] ! 0))))
     [m0, m1, m2\<lparr>md_requestTime := t, md_pageSize := p\<rparr>]"
  by (simp add: sequential_coefficients_def sequential_rest_time_def two_streams_time_def Let_def
      getRequestInitialTimes_def getRequestItemTimes_def card_def)

end
