(* ===== verification/Bindings_Index.thy ===== *)
theory Bindings_Index
  imports Bindings
begin

text \<open>
  The indexes over bindings of \<open>packages/utils-bindings-index/lib\<close>: the hash index
  \<open>BindingsIndexDef\<close> for bindings without undefined values, and the tree index
  \<open>BindingsIndexUndef\<close>, which branches on the hash of one variable per level and in which
  an undefined value (the hash \<open>''\<close>) stands for any term.

  The stored values are objects or \<open>true\<close>, that is, truthy.  The hash functions are arguments.
  The tree is compared with the list of its paths: one pair of the hashes on the way from the
  root and the value at the leaf.
\<close>

section \<open>The hash index\<close>

type_synonym 'v def_index = "(string, 'v) jsmap"

definition put_def_index ::
  "('b \<Rightarrow> string list \<Rightarrow> string) \<Rightarrow> string list \<Rightarrow> 'b \<Rightarrow> 'v \<Rightarrow> 'v def_index \<Rightarrow> 'v def_index" where
  "put_def_index hashFn keys b v idx = js_set idx (hashFn b keys) v"

definition getFirst_def_index ::
  "('b \<Rightarrow> string list \<Rightarrow> string) \<Rightarrow> string list \<Rightarrow> 'v def_index \<Rightarrow> 'b \<Rightarrow> 'v option" where
  "getFirst_def_index hashFn keys idx b = js_get idx (hashFn b keys)"

definition get_def_index ::
  "('b \<Rightarrow> string list \<Rightarrow> string) \<Rightarrow> string list \<Rightarrow> 'v def_index \<Rightarrow> 'b \<Rightarrow> 'v list" where
  "get_def_index hashFn keys idx b =
     (case getFirst_def_index hashFn keys idx b of None \<Rightarrow> [] | Some v \<Rightarrow> [v])"

definition values_def_index :: "'v def_index \<Rightarrow> 'v list" where
  "values_def_index idx = js_values idx"

section \<open>The tree index\<close>

datatype 'v data_index = Leaf 'v | Node "(string \<times> 'v data_index) list"

record 'v undef_index =
  ui_keys :: "string list"
  ui_data :: "'v data_index"
  ui_allowDisjointDomains :: bool

definition new_undef_index :: "string list \<Rightarrow> bool \<Rightarrow> 'v undef_index" where
  "new_undef_index keys allow =
     \<lparr>ui_keys = keys, ui_data = Node [], ui_allowDisjointDomains = (allow \<and> 0 < length keys)\<rparr>"

definition isBindingsValid :: "string list \<Rightarrow> ('t, 'c) bindings \<Rightarrow> bool" where
  "isBindingsValid keys b = list_ex (b_has b) keys"

text \<open>
  The walk of \<open>put\<close>: missing levels are created, a value already present is kept.  The list
  holds the hashes of the keys' terms.
\<close>

fun put_path :: "string list \<Rightarrow> 'v \<Rightarrow> 'v data_index \<Rightarrow> 'v data_index" where
  "put_path [] v d = d"
| "put_path (k # ks) v (Leaf w) = Leaf w"
| "put_path (k # ks) v (Node m) =
     (case js_get m k of
        None \<Rightarrow> Node (js_set m k (if ks = [] then Leaf v else put_path ks v (Node [])))
      | Some d \<Rightarrow> Node (js_set m k (put_path ks v d)))"

definition data_keys :: "('t option \<Rightarrow> string) \<Rightarrow> string list \<Rightarrow> ('t, 'c) bindings \<Rightarrow> string list" where
  "data_keys hashFn keys b = map (\<lambda>k. hashFn (b_get b k)) keys"

definition put_undef_index ::
  "('t option \<Rightarrow> string) \<Rightarrow> ('t, 'c) bindings \<Rightarrow> 'v \<Rightarrow> 'v undef_index \<Rightarrow> 'v undef_index" where
  "put_undef_index hashFn b v idx =
     (if ui_allowDisjointDomains idx \<or> isBindingsValid (ui_keys idx) b
      then idx\<lparr>ui_data := put_path (data_keys hashFn (ui_keys idx) b) v (ui_data idx)\<rparr>
      else idx)"

text \<open>The sub-indexes to visit for a hash, and all of them.\<close>

fun sub_datas :: "string \<Rightarrow> 'v data_index \<Rightarrow> 'v data_index list" where
  "sub_datas k (Leaf v) = []"
| "sub_datas k (Node m) = List.map_filter (js_get m) [k, []]"

fun all_datas :: "'v data_index \<Rightarrow> 'v data_index list" where
  "all_datas (Leaf v) = []"
| "all_datas (Node m) = js_values m"

fun leaf_value :: "'v data_index \<Rightarrow> 'v option" where
  "leaf_value (Leaf v) = Some v"
| "leaf_value (Node m) = None"

fun getRecursive :: "string list \<Rightarrow> 'v data_index list \<Rightarrow> 'v list" where
  "getRecursive [] ds = List.map_filter leaf_value ds"
| "getRecursive (k # ks) ds =
     concat (map (\<lambda>d.
       let subDatas = (if k \<noteq> [] then sub_datas k d else all_datas d)
       in if subDatas = [] then [] else getRecursive ks subDatas) ds)"

definition get_undef_index ::
  "('t option \<Rightarrow> string) \<Rightarrow> 'v undef_index \<Rightarrow> ('t, 'c) bindings \<Rightarrow> 'v list" where
  "get_undef_index hashFn idx b =
     (if \<not> (ui_allowDisjointDomains idx \<or> isBindingsValid (ui_keys idx) b) then []
      else getRecursive (data_keys hashFn (ui_keys idx) b) [ui_data idx])"

fun getRecursiveFirst :: "bool \<Rightarrow> string list \<Rightarrow> 'v data_index list \<Rightarrow> 'v option" where
  "getRecursiveFirst wild [] [] = None"
| "getRecursiveFirst wild [] (d # ds) = leaf_value d"
| "getRecursiveFirst wild (k # ks) [] = None"
| "getRecursiveFirst wild (k # ks) (d # ds) =
     (let subDatas = (if k \<noteq> [] \<or> \<not> wild then sub_datas k d else all_datas d)
      in if subDatas = [] then getRecursiveFirst wild (k # ks) ds
         else (case getRecursiveFirst wild ks subDatas of
                 Some r \<Rightarrow> Some r
               | None \<Rightarrow> getRecursiveFirst wild (k # ks) ds))"

definition getFirst_undef_index ::
  "('t option \<Rightarrow> string) \<Rightarrow> bool \<Rightarrow> 'v undef_index \<Rightarrow> ('t, 'c) bindings \<Rightarrow> 'v option" where
  "getFirst_undef_index hashFn wild idx b =
     (if \<not> (ui_allowDisjointDomains idx \<or> isBindingsValid (ui_keys idx) b) then None
      else getRecursiveFirst wild (data_keys hashFn (ui_keys idx) b) [ui_data idx])"

text \<open>\<open>values\<close> searches with undefined bindings, whose hash is that of \<open>undefined\<close>.\<close>

definition values_undef_index :: "('t option \<Rightarrow> string) \<Rightarrow> 'v undef_index \<Rightarrow> 'v list" where
  "values_undef_index hashFn idx =
     (if length (ui_keys idx) = 0 then []
      else getRecursive (map (\<lambda>k. hashFn None) (ui_keys idx)) [ui_data idx])"

section \<open>The paths of a tree\<close>

fun wf_data :: "nat \<Rightarrow> 'v data_index \<Rightarrow> bool" where
  "wf_data 0 (Leaf v) = True"
| "wf_data 0 (Node m) = False"
| "wf_data (Suc n) (Leaf v) = False"
| "wf_data (Suc n) (Node m) = (wf_map m \<and> (\<forall>p \<in> set m. wf_data n (snd p)))"

fun paths :: "nat \<Rightarrow> 'v data_index \<Rightarrow> (string list \<times> 'v) list" where
  "paths 0 (Leaf v) = [([], v)]"
| "paths 0 (Node m) = []"
| "paths (Suc n) (Leaf v) = []"
| "paths (Suc n) (Node m) =
     concat (map (\<lambda>p. map (\<lambda>q. (fst p # fst q, snd q)) (paths n (snd p))) m)"

text \<open>A query hash matches a stored hash if they agree or the stored one is undefined; a
  wildcard query hash matches all.\<close>

definition hash_match :: "bool \<Rightarrow> string \<Rightarrow> string \<Rightarrow> bool" where
  "hash_match wild k q \<longleftrightarrow> q = k \<or> q = [] \<or> (wild \<and> k = [])"

definition path_match :: "bool \<Rightarrow> string list \<Rightarrow> string list \<Rightarrow> bool" where
  "path_match wild ks p \<longleftrightarrow> list_all2 (hash_match wild) ks p"

lemma path_match_simps [simp]:
  "path_match wild [] p \<longleftrightarrow> p = []"
  "path_match wild (k # ks) (q # p) \<longleftrightarrow> hash_match wild k q \<and> path_match wild ks p"
  "\<not> path_match wild (k # ks) []"
  by (simp_all add: path_match_def)

lemma wf_data_Suc: "wf_data (Suc n) d \<Longrightarrow> \<exists>m. d = Node m \<and> wf_map m \<and> (\<forall>p \<in> set m. wf_data n (snd p))"
  by (cases d) auto

lemma wf_data_0: "wf_data 0 d \<Longrightarrow> \<exists>v. d = Leaf v"
  by (cases d) auto

lemma js_get_wf_data:
  "\<forall>p \<in> set m. wf_data n (snd p) \<Longrightarrow> js_get m k = Some d \<Longrightarrow> wf_data n d"
  by (metis js_get_mem snd_conv)

lemma sub_datas_wf:
  "wf_data (Suc n) d \<Longrightarrow> e \<in> set (sub_datas k d) \<union> set (all_datas d) \<Longrightarrow> wf_data n e"
  by (cases d) (auto simp: List.map_filter_def split: if_splits intro: js_get_wf_data)

text \<open>The matching values below a node, by the value of its next hash.\<close>

definition found :: "bool \<Rightarrow> string list \<Rightarrow> 'v data_index \<Rightarrow> 'v list" where
  "found wild ks d = map snd (filter (\<lambda>p. path_match wild ks (fst p)) (paths (length ks) d))"

lemma found_Nil: "wf_data 0 d \<Longrightarrow> found wild [] d = List.map_filter leaf_value [d]"
  by (cases d) (simp_all add: found_def List.map_filter_def)

lemma found_Node:
  "found wild (k # ks) (Node m) =
     concat (map (\<lambda>p. if hash_match wild k (fst p) then found wild ks (snd p) else []) m)"
  by (induction m)
     (auto simp: found_def filter_map comp_def)

lemma mset_filter_keys:
  assumes "wf_map m"
  shows "mset (filter (\<lambda>p. fst p = a) m) =
    (case js_get m a of None \<Rightarrow> {#} | Some d \<Rightarrow> {#(a, d)#})"
  using assms
proof (induction m)
  case Nil
  then show ?case by simp
next
  case (Cons p m)
  obtain k d where p: "p = (k, d)" by fastforce
  with Cons have "k \<notin> fst ` set m" "wf_map m" by (auto simp: wf_map_def)
  moreover from this have "filter (\<lambda>p. fst p = k) m = []" by (auto simp: filter_empty_conv)
  ultimately show ?case using Cons p by (auto simp: js_get_notin)
qed

lemma mset_concat_if:
  "mset (concat (map (\<lambda>p. if P p then f p else []) m)) =
     (\<Sum>p \<in># mset (filter P m). mset (f p))"
  by (induction m) auto

lemma mset_filter_two:
  assumes "a \<noteq> b"
  shows "mset (filter (\<lambda>p. fst p = a \<or> fst p = b) m) =
    mset (filter (\<lambda>p. fst p = a) m) + mset (filter (\<lambda>p. fst p = b) m)"
  using assms by (induction m) auto

lemma found_sub_datas:
  assumes "wf_data (Suc n) d" and "k \<noteq> []" and "n = length ks"
  shows "mset (found wild (k # ks) d) = (\<Sum>e \<in># mset (sub_datas k d). mset (found wild ks e))"
proof -
  from wf_data_Suc [OF assms(1)] obtain m where d: "d = Node m" and m: "wf_map m" by blast
  have "mset (found wild (k # ks) d) =
      (\<Sum>p \<in># mset (filter (\<lambda>p. fst p = k \<or> fst p = []) m). mset (found wild ks (snd p)))"
    using assms(2) by (simp only: d found_Node mset_concat_if hash_match_def) simp
  also have "\<dots> = (\<Sum>e \<in># mset (sub_datas k d). mset (found wild ks e))"
    unfolding mset_filter_two [OF assms(2)] mset_filter_keys [OF m]
    by (auto simp: d List.map_filter_def split: option.splits)
  finally show ?thesis .
qed

lemma found_all_datas:
  assumes "wf_data (Suc n) d"
  shows "found True ([] # ks) d = concat (map (found True ks) (all_datas d))"
proof -
  from wf_data_Suc [OF assms(1)] obtain m where d: "d = Node m" by blast
  show ?thesis by (simp add: d found_Node hash_match_def comp_def)
qed

lemma mset_concat_map: "mset (concat (map f xs)) = (\<Sum>x \<in># mset xs. mset (f x))"
  by (induction xs) auto

lemma found_set:
  assumes "wf_data (Suc n) d" and "n = length ks"
  shows "set (found wild (k # ks) d) =
    (\<Union>e \<in> set (if k \<noteq> [] \<or> \<not> wild then sub_datas k d else all_datas d). set (found wild ks e))"
proof -
  from wf_data_Suc [OF assms(1)] obtain m where d: "d = Node m" and m: "wf_map m" by blast
  have "set (found wild (k # ks) d) =
      (\<Union>p \<in> {p \<in> set m. hash_match wild k (fst p)}. set (found wild ks (snd p)))"
    by (auto simp: d found_Node)
  also have "\<dots> = (\<Union>e \<in> set (if k \<noteq> [] \<or> \<not> wild then sub_datas k d else all_datas d).
      set (found wild ks e))"
  proof (cases "k \<noteq> [] \<or> \<not> wild")
    case True
    have img: "snd ` {p \<in> set m. hash_match wild k (fst p)} = set (sub_datas k d)"
      using True m
      by (force simp: d hash_match_def List.map_filter_def image_iff js_get_in
          dest: js_get_mem split: option.splits)
    show ?thesis using True by (simp add: img [symmetric])
  next
    case False
    then show ?thesis by (auto simp: d hash_match_def)
  qed
  finally show ?thesis .
qed

text \<open>\<open>getRecursive\<close> finds every matching path once.\<close>

lemma getRecursive_found:
  assumes "\<forall>d \<in> set ds. wf_data (length ks) d"
  shows "mset (getRecursive ks ds) = (\<Sum>d \<in># mset ds. mset (found True ks d))"
  using assms
proof (induction ks arbitrary: ds)
  case Nil
  then show ?case
    by (induction ds) (auto simp: found_Nil List.map_filter_def dest: wf_data_0)
next
  case (Cons k ks)
  have one: "mset (let subDatas = (if k \<noteq> [] then sub_datas k d else all_datas d)
       in if subDatas = [] then [] else getRecursive ks subDatas) = mset (found True (k # ks) d)"
    if "d \<in> set ds" for d
  proof -
    have wf: "wf_data (Suc (length ks)) d" using Cons.prems that by simp
    let ?subs = "if k \<noteq> [] then sub_datas k d else all_datas d"
    have "\<forall>e \<in> set ?subs. wf_data (length ks) e" using sub_datas_wf [OF wf] by auto
    then have "mset (getRecursive ks ?subs) = (\<Sum>e \<in># mset ?subs. mset (found True ks e))"
      by (rule Cons.IH)
    also have "\<dots> = mset (found True (k # ks) d)"
      using found_sub_datas [OF wf, of k ks True] found_all_datas [OF wf, of ks]
      by (cases "k = []") (simp_all add: mset_concat_map)
    finally have "mset (getRecursive ks ?subs) = mset (found True (k # ks) d)" .
    moreover have "?subs = [] \<Longrightarrow> found True (k # ks) d = []"
      using found_sub_datas [OF wf, of k ks True] found_all_datas [OF wf, of ks]
      by (cases "k = []") simp_all
    ultimately show ?thesis by (simp add: Let_def)
  qed
  have "mset (getRecursive (k # ks) ds) = (\<Sum>d \<in># mset ds. mset (
      let subDatas = (if k \<noteq> [] then sub_datas k d else all_datas d)
       in if subDatas = [] then [] else getRecursive ks subDatas))"
    by (simp add: mset_concat_map)
  also have "\<dots> = (\<Sum>d \<in># mset ds. mset (found True (k # ks) d))"
    using one by (intro arg_cong [where f = sum_mset] image_mset_cong) simp
  finally show ?case .
qed

text \<open>\<open>getRecursiveFirst\<close> finds a matching value if there is one.\<close>

lemma getRecursiveFirst_found:
  assumes "\<forall>d \<in> set ds. wf_data (length ks) d"
  shows "case getRecursiveFirst wild ks ds of
      None \<Rightarrow> \<forall>d \<in> set ds. found wild ks d = []
    | Some v \<Rightarrow> \<exists>d \<in> set ds. v \<in> set (found wild ks d)"
  using assms
proof (induction wild ks ds rule: getRecursiveFirst.induct)
  case (1 wild)
  then show ?case by simp
next
  case (2 wild d ds)
  then show ?case by (auto simp: found_Nil List.map_filter_def dest!: wf_data_0)
next
  case (3 wild k ks)
  then show ?case by simp
next
  case (4 wild k ks d ds)
  let ?subs = "if k \<noteq> [] \<or> \<not> wild then sub_datas k d else all_datas d"
  from "4.prems" have wf: "wf_data (Suc (length ks)) d" by simp
  then have wfs: "\<forall>e \<in> set ?subs. wf_data (length ks) e" using sub_datas_wf [OF wf] by (auto split: if_splits)
  have set_eq: "set (found wild (k # ks) d) = (\<Union>e \<in> set ?subs. set (found wild ks e))"
    by (rule found_set [OF wf refl])
  have rest: "case getRecursiveFirst wild (k # ks) ds of
      None \<Rightarrow> \<forall>d \<in> set ds. found wild (k # ks) d = []
    | Some v \<Rightarrow> \<exists>d \<in> set ds. v \<in> set (found wild (k # ks) d)"
    if "?subs = [] \<or> getRecursiveFirst wild ks ?subs = None"
  proof (cases "?subs = []")
    case True
    then show ?thesis using "4.IH"(1) [OF refl True] "4.prems" by simp
  next
    case False
    with that have "getRecursiveFirst wild ks ?subs = None" by blast
    then show ?thesis using "4.IH"(3) [OF refl False] "4.prems" by simp
  qed
  show ?case
  proof (cases "?subs = [] \<or> getRecursiveFirst wild ks ?subs = None")
    case True
    have "found wild (k # ks) d = []"
    proof (cases "?subs = []")
      case True
      then show ?thesis using set_eq by simp
    next
      case False
      with \<open>?subs = [] \<or> getRecursiveFirst wild ks ?subs = None\<close>
      have "\<forall>e \<in> set ?subs. found wild ks e = []"
        using "4.IH"(2) [OF refl False] wfs by simp
      then show ?thesis using set_eq by simp
    qed
    moreover have "getRecursiveFirst wild (k # ks) (d # ds) = getRecursiveFirst wild (k # ks) ds"
      using True by (auto simp: Let_def)
    ultimately show ?thesis using rest [OF True] by (auto split: option.splits)
  next
    case False
    then obtain v where ne: "?subs \<noteq> []" and v: "getRecursiveFirst wild ks ?subs = Some v"
      by auto
    from "4.IH"(2) [OF refl ne wfs] v have "\<exists>e \<in> set ?subs. v \<in> set (found wild ks e)" by simp
    then have "v \<in> set (found wild (k # ks) d)" using set_eq by auto
    moreover have "getRecursiveFirst wild (k # ks) (d # ds) = Some v"
      using ne v by (simp add: Let_def)
    ultimately show ?thesis by simp
  qed
qed

lemma paths_Node_mem:
  "k # ks \<in> fst ` set (paths (Suc l) (Node m)) \<longleftrightarrow>
     (\<exists>e. (k, e) \<in> set m \<and> ks \<in> fst ` set (paths l e))"
  by (force simp: image_iff)

text \<open>\<open>put\<close> adds one path, or leaves the tree as it is if the path is there.\<close>

lemma put_path_spec:
  assumes "wf_data n d" and "length ks = n" and "0 < n"
  shows "wf_data n (put_path ks v d) \<and>
    (if ks \<in> fst ` set (paths n d) then put_path ks v d = d
     else mset (paths n (put_path ks v d)) = add_mset (ks, v) (mset (paths n d)))"
  using assms
proof (induction ks arbitrary: n d)
  case Nil
  then show ?case by simp
next
  case (Cons k ks)
  then obtain l where n: "n = Suc l" and len: "length ks = l" by auto
  from Cons.prems(1) n obtain m where d: "d = Node m" and m: "wf_map m"
    and sub: "\<forall>p \<in> set m. wf_data l (snd p)" using wf_data_Suc by blast
  show ?case
  proof (cases "js_get m k")
    case None
    then have k: "k \<notin> fst ` set m" by (simp add: map_of_eq_None_iff)
    define e where "e = (if ks = [] then Leaf v else put_path ks v (Node []))"
    have e: "wf_data l e \<and> mset (paths l e) = {#(ks, v)#}"
    proof (cases "ks = []")
      case True
      with len show ?thesis by (auto simp: e_def)
    next
      case False
      with len obtain l' where l': "l = Suc l'" by (cases l) auto
      with Cons.IH [of l "Node []"] len False show ?thesis by (simp add: e_def)
    qed
    have put: "put_path (k # ks) v d = Node (m @ [(k, e)])"
      using None k by (simp add: d js_set_new e_def)
    have "k # ks \<notin> fst ` set (paths n d)"
      using k by (auto simp: n d image_iff)
    moreover have "mset (paths n (put_path (k # ks) v d)) = add_mset (k # ks, v) (mset (paths n d))"
      using e by (simp only: put) (simp add: n d)
    moreover have "wf_data n (put_path (k # ks) v d)"
      using e k m sub by (simp only: put) (auto simp: n wf_map_def)
    ultimately show ?thesis by simp
  next
    case (Some e)
    then obtain xs ys where m_eq: "m = xs @ (k, e) # ys"
      and upd: "\<And>e'. js_set m k e' = xs @ (k, e') # ys" using js_set_present by metis
    have wfe: "wf_data l e" using sub m_eq by auto
    have put: "put_path (k # ks) v d = Node (xs @ (k, put_path ks v e) # ys)"
      using Some by (simp add: d upd)
    have mem: "k # ks \<in> fst ` set (paths n d) \<longleftrightarrow> ks \<in> fst ` set (paths l e)"
      unfolding n d paths_Node_mem
      by (metis js_get_in [OF m] js_get_mem [OF Some] Some option.inject)
    show ?thesis
    proof (cases "l = 0")
      case True
      with wfe len obtain w where w: "e = Leaf w" "ks = []" using wf_data_0 by auto
      then have "put_path ks v e = e" by simp
      then have "put_path (k # ks) v d = d" by (metis put d m_eq)
      moreover have "k # ks \<in> fst ` set (paths n d)" using mem w True by simp
      ultimately show ?thesis using Cons.prems(1) by simp
    next
      case False
      with Cons.IH [OF wfe len] have IH: "wf_data l (put_path ks v e) \<and>
          (if ks \<in> fst ` set (paths l e) then put_path ks v e = e
           else mset (paths l (put_path ks v e)) = add_mset (ks, v) (mset (paths l e)))" by simp
      have "wf_data n (put_path (k # ks) v d)"
        using IH m sub by (simp only: put) (auto simp: n wf_map_def m_eq)
      moreover have "mset (paths n (put_path (k # ks) v d)) = add_mset (k # ks, v) (mset (paths n d))"
        if "ks \<notin> fst ` set (paths l e)"
        using IH that by (simp only: put) (simp add: n d m_eq)
      moreover have "put_path (k # ks) v d = d" if "ks \<in> fst ` set (paths l e)"
        using IH that put d m_eq by metis
      ultimately show ?thesis using mem by simp
    qed
  qed
qed

lemma paths_length: "p \<in> set (paths n d) \<Longrightarrow> length (fst p) = n"
  by (induction n d arbitrary: p rule: paths.induct) auto

section \<open>The interface of an index used as a set\<close>

text \<open>
  An index into which bindings are put and which is asked whether some indexed bindings match:
  \<open>matches q b\<close> says which queries a stored \<open>b\<close> answers.
\<close>

locale bindings_lookup =
  fixes empty_index :: 'i
    and put :: "'b \<Rightarrow> 'i \<Rightarrow> 'i"
    and present :: "'i \<Rightarrow> 'b \<Rightarrow> bool"
    and matches :: "'b \<Rightarrow> 'b \<Rightarrow> bool"
    and invar :: "'i \<Rightarrow> bool"
  assumes invar_empty: "invar empty_index"
    and invar_put: "invar i \<Longrightarrow> invar (put b i)"
    and present_empty: "\<not> present empty_index q"
    and present_put: "invar i \<Longrightarrow> present (put b i) q \<longleftrightarrow> matches q b \<or> present i q"
begin

lemma present_fold:
  "invar i \<Longrightarrow> present (fold put bs i) q \<longleftrightarrow> (\<exists>b \<in> set bs. matches q b) \<or> present i q"
  by (induction bs arbitrary: i) (auto simp: present_put invar_put)

lemma present_all:
  "present (fold put bs empty_index) q \<longleftrightarrow> (\<exists>b \<in> set bs. matches q b)"
  by (simp add: present_fold invar_empty present_empty)

lemma anti_join:
  "filter (\<lambda>q. \<not> present (fold put bs empty_index) q) qs =
     filter (\<lambda>q. \<forall>b \<in> set bs. \<not> matches q b) qs"
  by (simp add: present_all)

end

definition matches_def_index :: "('b \<Rightarrow> string list \<Rightarrow> string) \<Rightarrow> string list \<Rightarrow> 'b \<Rightarrow> 'b \<Rightarrow> bool" where
  "matches_def_index hashFn keys q b \<longleftrightarrow> hashFn q keys = hashFn b keys"

interpretation def_lookup: bindings_lookup
  "[]"
  "\<lambda>b i. put_def_index hashFn keys b True i"
  "\<lambda>i q. getFirst_def_index hashFn keys i q \<noteq> None"
  "matches_def_index hashFn keys"
  "\<lambda>i. True"
  for hashFn keys
  by unfold_locales
     (auto simp: put_def_index_def getFirst_def_index_def matches_def_index_def)

definition indexable :: "bool \<Rightarrow> string list \<Rightarrow> ('t, 'c) bindings \<Rightarrow> bool" where
  "indexable allow keys b \<longleftrightarrow> (allow \<and> keys \<noteq> []) \<or> isBindingsValid keys b"

definition matches_undef_index ::
  "('t option \<Rightarrow> string) \<Rightarrow> bool \<Rightarrow> string list \<Rightarrow> ('t, 'c) bindings \<Rightarrow> ('t, 'c) bindings \<Rightarrow> bool" where
  "matches_undef_index hashFn allow keys q b \<longleftrightarrow>
     indexable allow keys q \<and> indexable allow keys b \<and>
     path_match True (data_keys hashFn keys q) (data_keys hashFn keys b)"

definition wf_undef_index :: "bool \<Rightarrow> string list \<Rightarrow> 'v undef_index \<Rightarrow> bool" where
  "wf_undef_index allow keys idx \<longleftrightarrow>
     ui_keys idx = keys \<and> ui_allowDisjointDomains idx = (allow \<and> keys \<noteq> []) \<and>
     (keys \<noteq> [] \<longrightarrow> wf_data (length keys) (ui_data idx))"

lemma length_data_keys [simp]: "length (data_keys hashFn keys b) = length keys"
  by (simp add: data_keys_def)

lemma indexable_keys: "indexable allow keys b \<Longrightarrow> keys \<noteq> []"
  by (auto simp: indexable_def isBindingsValid_def)

lemma wf_new_undef_index: "wf_undef_index allow keys (new_undef_index keys allow)"
  by (auto simp: wf_undef_index_def new_undef_index_def neq_Nil_conv)

lemma wf_put_undef_index:
  assumes "wf_undef_index allow keys idx"
  shows "wf_undef_index allow keys (put_undef_index hashFn b v idx)"
  using assms put_path_spec [of "length keys" "ui_data idx" "data_keys hashFn keys b" v]
  by (auto simp: wf_undef_index_def put_undef_index_def)

lemma indexable_iff:
  "wf_undef_index allow keys idx \<Longrightarrow>
     ui_allowDisjointDomains idx \<or> isBindingsValid (ui_keys idx) b \<longleftrightarrow> indexable allow keys b"
  by (auto simp: wf_undef_index_def indexable_def)

lemma getFirst_undef_iff:
  assumes "wf_undef_index allow keys idx"
  shows "getFirst_undef_index hashFn wild idx q \<noteq> None \<longleftrightarrow> indexable allow keys q \<and>
    (\<exists>p \<in> set (paths (length keys) (ui_data idx)). path_match wild (data_keys hashFn keys q) (fst p))"
proof (cases "indexable allow keys q")
  case False
  with indexable_iff [OF assms, of q] show ?thesis
    by (simp add: getFirst_undef_index_def)
next
  case True
  with assms have wf: "\<forall>d \<in> set [ui_data idx]. wf_data (length (data_keys hashFn keys q)) d"
    and keys: "ui_keys idx = keys"
    using indexable_keys by (auto simp: wf_undef_index_def)
  have "getFirst_undef_index hashFn wild idx q =
      getRecursiveFirst wild (data_keys hashFn keys q) [ui_data idx]"
    using True indexable_iff [OF assms, of q] keys by (simp add: getFirst_undef_index_def)
  moreover have "getRecursiveFirst wild (data_keys hashFn keys q) [ui_data idx] \<noteq> None \<longleftrightarrow>
      found wild (data_keys hashFn keys q) (ui_data idx) \<noteq> []"
    using getRecursiveFirst_found [OF wf, of wild] by (auto split: option.splits)
  ultimately show ?thesis using True by (auto simp: found_def filter_empty_conv)
qed

lemma paths_put_undef_index:
  assumes "wf_undef_index allow keys idx" and "indexable allow keys b"
  shows "set (map fst (paths (length keys) (ui_data (put_undef_index hashFn b v idx)))) =
    insert (data_keys hashFn keys b) (set (map fst (paths (length keys) (ui_data idx))))"
proof -
  have wf: "wf_data (length keys) (ui_data idx)" and keys: "ui_keys idx = keys"
    and ne: "0 < length keys"
    using assms indexable_keys by (auto simp: wf_undef_index_def)
  have data: "ui_data (put_undef_index hashFn b v idx) =
      put_path (data_keys hashFn keys b) v (ui_data idx)"
    using assms indexable_iff [OF assms(1), of b] keys by (simp add: put_undef_index_def)
  let ?k = "data_keys hashFn keys b" and ?ps = "paths (length keys) (ui_data idx)"
  from put_path_spec [OF wf length_data_keys ne, of hashFn b v] show ?thesis
  proof (cases "?k \<in> fst ` set ?ps")
    case True
    with put_path_spec [OF wf length_data_keys ne, of hashFn b v] show ?thesis
      unfolding data by auto
  next
    case False
    with put_path_spec [OF wf length_data_keys ne, of hashFn b v]
    have "mset (paths (length keys) (put_path ?k v (ui_data idx))) = add_mset (?k, v) (mset ?ps)"
      by simp
    then have "set (paths (length keys) (put_path ?k v (ui_data idx))) = insert (?k, v) (set ?ps)"
      by (metis set_mset_mset set_mset_add_mset_insert)
    then show ?thesis unfolding data by simp
  qed
qed

lemma present_put_undef:
  assumes "wf_undef_index allow keys idx"
  shows "getFirst_undef_index hashFn True (put_undef_index hashFn b v idx) q \<noteq> None \<longleftrightarrow>
    matches_undef_index hashFn allow keys q b \<or> getFirst_undef_index hashFn True idx q \<noteq> None"
proof (cases "indexable allow keys b")
  case False
  with indexable_iff [OF assms, of b] show ?thesis
    by (simp add: put_undef_index_def matches_undef_index_def)
next
  case True
  have ex: "(\<exists>p \<in> set (paths (length keys) d). P (fst p)) \<longleftrightarrow>
      (\<exists>k \<in> set (map fst (paths (length keys) d)). P k)" for P and d :: "'e data_index"
    by auto
  show ?thesis
    unfolding getFirst_undef_iff [OF assms] getFirst_undef_iff [OF wf_put_undef_index [OF assms]]
      ex paths_put_undef_index [OF assms True]
    using True by (auto simp: matches_undef_index_def)
qed

lemma paths_Node_Nil [simp]: "paths n (Node []) = []"
  by (cases n) simp_all

lemma present_new_undef:
  "(getFirst_undef_index hashFn wild (new_undef_index keys allow) q \<noteq> None) = False"
  unfolding getFirst_undef_iff [OF wf_new_undef_index] by (simp add: new_undef_index_def)

interpretation undef_lookup: bindings_lookup
  "new_undef_index keys allow"
  "\<lambda>b i. put_undef_index hashFn b True i"
  "\<lambda>i q. getFirst_undef_index hashFn True i q \<noteq> None"
  "matches_undef_index hashFn allow keys"
  "wf_undef_index allow keys"
  for hashFn keys allow
  by unfold_locales
     (simp_all only: wf_new_undef_index wf_put_undef_index present_put_undef
        present_new_undef not_False_eq_True)

section \<open>All values that match\<close>

lemma get_undef_index_paths:
  assumes "wf_undef_index allow keys idx"
  shows "mset (get_undef_index hashFn idx q) =
    (if indexable allow keys q
     then mset (map snd (filter (\<lambda>p. path_match True (data_keys hashFn keys q) (fst p))
                 (paths (length keys) (ui_data idx))))
     else {#})"
proof (cases "indexable allow keys q")
  case False
  with indexable_iff [OF assms, of q] show ?thesis by (simp add: get_undef_index_def)
next
  case True
  with assms have wf: "\<forall>d \<in> set [ui_data idx]. wf_data (length (data_keys hashFn keys q)) d"
    and keys: "ui_keys idx = keys"
    using indexable_keys by (auto simp: wf_undef_index_def)
  have "get_undef_index hashFn idx q = getRecursive (data_keys hashFn keys q) [ui_data idx]"
    using True indexable_iff [OF assms, of q] keys by (simp add: get_undef_index_def)
  with getRecursive_found [OF wf] True show ?thesis by (simp add: found_def)
qed

end
