(* ===== verification/Join_Hash.thy ===== *)
theory Join_Hash
  imports Rdf_Join Bindings_Index
begin

text \<open>
  The join actors that hash bindings with the repository's indexes:
  \<open>packages/actor-rdf-join-inner-hash\<close> (the variant for undefined values),
  \<open>packages/actor-rdf-join-minus-hash\<close> and \<open>packages/actor-rdf-join-optional-hash\<close>
  (the blocking variant).

  The values of the index are arrays that are shared by reference: an array is its position in a
  list of arrays (the heap).  The iterator that flattens the results of a function over a stream
  (\<open>MultiTransformIterator\<close> of the package asynciterator) produces the results of the
  elements one after the other; with its option \<open>optional\<close> it produces an element itself when
  it has no result.  \<open>ts\<close> is \<open>termToString\<close> of the package rdf-string, \<open>is_var\<close>
  tells the terms that are variables.
\<close>

section \<open>Indexes of arrays\<close>

datatype bucket_index = Def_index "nat def_index" | Undef_index "nat undef_index"

definition undef_hash :: "('t \<Rightarrow> bool) \<Rightarrow> ('t \<Rightarrow> string) \<Rightarrow> 't option \<Rightarrow> string" where
  "undef_hash is_var ts t =
     (case t of None \<Rightarrow> [] | Some x \<Rightarrow> if is_var x then [] else ts x)"

text \<open>\<open>constructIndex\<close> of the optional actor; the minus actor does not allow disjoint domains.\<close>

definition constructIndex :: "bool \<Rightarrow> bool \<Rightarrow> string list \<Rightarrow> bucket_index" where
  "constructIndex undef allow keys =
     (if undef then Undef_index (new_undef_index keys allow) else Def_index [])"

fun bi_getFirst ::
  "('t \<Rightarrow> bool) \<Rightarrow> ('t \<Rightarrow> string) \<Rightarrow> string list \<Rightarrow> bool \<Rightarrow> bucket_index \<Rightarrow> ('t, 'v) bindings \<Rightarrow>
     nat option" where
  "bi_getFirst is_var ts keys wild (Def_index i) b = getFirst_def_index (bindingsToCompactString ts) keys i b"
| "bi_getFirst is_var ts keys wild (Undef_index i) b = getFirst_undef_index (undef_hash is_var ts) wild i b"

fun bi_put ::
  "('t \<Rightarrow> bool) \<Rightarrow> ('t \<Rightarrow> string) \<Rightarrow> string list \<Rightarrow> ('t, 'v) bindings \<Rightarrow> nat \<Rightarrow> bucket_index \<Rightarrow>
     bucket_index" where
  "bi_put is_var ts keys b v (Def_index i) = Def_index (put_def_index (bindingsToCompactString ts) keys b v i)"
| "bi_put is_var ts keys b v (Undef_index i) = Undef_index (put_undef_index (undef_hash is_var ts) b v i)"

fun bi_get ::
  "('t \<Rightarrow> bool) \<Rightarrow> ('t \<Rightarrow> string) \<Rightarrow> string list \<Rightarrow> bucket_index \<Rightarrow> ('t, 'v) bindings \<Rightarrow> nat list" where
  "bi_get is_var ts keys (Def_index i) b = get_def_index (bindingsToCompactString ts) keys i b"
| "bi_get is_var ts keys (Undef_index i) b = get_undef_index (undef_hash is_var ts) i b"

text \<open>Filing one binding: push it to the array found, or to a new one.\<close>

definition file_binding ::
  "('i \<Rightarrow> 'b \<Rightarrow> nat option) \<Rightarrow> ('b \<Rightarrow> nat \<Rightarrow> 'i \<Rightarrow> 'i) \<Rightarrow> 'b \<Rightarrow> 'i \<times> 'b list list \<Rightarrow> 'i \<times> 'b list list" where
  "file_binding getFirst put b s =
     (case s of (idx, heap) \<Rightarrow>
        (case getFirst idx b of
           Some a \<Rightarrow> (idx, heap[a := heap ! a @ [b]])
         | None \<Rightarrow> (put b (length heap) idx, heap @ [[b]])))"

definition file_all ::
  "('i \<Rightarrow> 'b \<Rightarrow> nat option) \<Rightarrow> ('b \<Rightarrow> nat \<Rightarrow> 'i \<Rightarrow> 'i) \<Rightarrow> 'i \<Rightarrow> 'b list \<Rightarrow> 'i \<times> 'b list list" where
  "file_all getFirst put idx bs = fold (file_binding getFirst put) bs (idx, [])"

text \<open>The results for one binding of the other stream: the bindings found, joined.\<close>

definition probe :: "('i \<Rightarrow> 'b \<Rightarrow> nat list) \<Rightarrow> ('b \<Rightarrow> 'b \<Rightarrow> 'c option) \<Rightarrow> 'i \<times> 'b list list \<Rightarrow> 'b \<Rightarrow> 'c list" where
  "probe get join s q =
     List.map_filter (join q) (concat (map (\<lambda>a. snd s ! a) (get (fst s) q)))"

section \<open>The operations of the actors\<close>

definition hash_join_undef ::
  "('t \<Rightarrow> bool) \<Rightarrow> ('t \<Rightarrow> string) \<Rightarrow> 'v \<Rightarrow> ('v \<Rightarrow> bool) \<Rightarrow> string list \<Rightarrow>
     ('t, 'v) bindings list \<Rightarrow> ('t, 'v) bindings list \<Rightarrow> ('t, 'v) bindings list" where
  "hash_join_undef is_var ts u truthy keys buffer output =
     (let s = file_all (bi_getFirst is_var ts keys False) (bi_put is_var ts keys)
                (constructIndex True True keys) buffer
      in concat (map (probe (bi_get is_var ts keys) (\<lambda>l r. joinBindings u truthy [l, r]) s) output))"

definition optional_hash_blocking ::
  "('t \<Rightarrow> bool) \<Rightarrow> ('t \<Rightarrow> string) \<Rightarrow> 'v \<Rightarrow> ('v \<Rightarrow> bool) \<Rightarrow> bool \<Rightarrow> string list \<Rightarrow>
     ('t, 'v) bindings list \<Rightarrow> ('t, 'v) bindings list \<Rightarrow> ('t, 'v) bindings list" where
  "optional_hash_blocking is_var ts u truthy undef keys buffer output =
     (let s = file_all (bi_getFirst is_var ts keys True) (bi_put is_var ts keys)
                (constructIndex undef True keys) buffer
      in concat (map (\<lambda>l.
           let rs = probe (bi_get is_var ts keys) (\<lambda>l r. joinBindings u truthy [l, r]) s l
           in if rs = [] then [l] else rs) output))"

text \<open>The variables of the minus actor: the common ones but the variable of an enclosing
  \<open>GRAPH\<close>.  Its index maps bindings to the value \<open>true\<close>.\<close>

definition minus_variables :: "metadata list \<Rightarrow> string option \<Rightarrow> string list" where
  "minus_variables mds graphVariable =
     (let common = map fst (overlappingVariables mds)
      in case graphVariable of None \<Rightarrow> common | Some g \<Rightarrow> filter (\<lambda>v. v \<noteq> g) common)"

definition minus_hash ::
  "('t \<Rightarrow> bool) \<Rightarrow> ('t \<Rightarrow> string) \<Rightarrow> bool \<Rightarrow> metadata list \<Rightarrow> string option \<Rightarrow>
     ('t, 'v) bindings list \<Rightarrow> ('t, 'v) bindings list \<Rightarrow> ('t, 'v) bindings list" where
  "minus_hash is_var ts undef mds graphVariable buffer output =
     (let keys = minus_variables mds graphVariable
      in if keys = [] then output
         else if undef then
           (let idx = fold (\<lambda>b. put_undef_index (undef_hash is_var ts) b True) buffer
                        (new_undef_index keys False)
            in filter (\<lambda>b. getFirst_undef_index (undef_hash is_var ts) True idx b = None) output)
         else
           (let idx = fold (\<lambda>b. put_def_index (bindingsToCompactString ts) keys b True) buffer []
            in filter (\<lambda>b. getFirst_def_index (bindingsToCompactString ts) keys idx b = None) output))"

section \<open>The interface of an index of arrays\<close>

text \<open>
  What the hash joins rely on: an index is a collection of entries, a key and the array filed
  under it; a binding is filed under a key that fits it (\<open>files\<close>) and a probe finds the arrays
  under all keys that match it.
\<close>

locale bucket_lookup =
  fixes empty_index :: 'i
    and getFirst :: "'i \<Rightarrow> 'b \<Rightarrow> nat option"
    and put :: "'b \<Rightarrow> nat \<Rightarrow> 'i \<Rightarrow> 'i"
    and get :: "'i \<Rightarrow> 'b \<Rightarrow> nat list"
    and entries_of :: "'i \<Rightarrow> ('k \<times> nat) multiset"
    and invar :: "'i \<Rightarrow> bool"
    and files :: "'b \<Rightarrow> 'k \<Rightarrow> bool"
    and matches :: "'b \<Rightarrow> 'k \<Rightarrow> bool"
    and ok :: "'b \<Rightarrow> bool"
    and ok_query :: "'b \<Rightarrow> bool"
    and key :: "'b \<Rightarrow> 'k"
  assumes invar_empty: "invar empty_index"
    and entries_empty: "entries_of empty_index = {#}"
    and found: "invar i \<Longrightarrow> ok b \<Longrightarrow> getFirst i b = Some a \<Longrightarrow> \<exists>k. (k, a) \<in># entries_of i \<and> files b k"
    and invar_put: "invar i \<Longrightarrow> ok b \<Longrightarrow> getFirst i b = None \<Longrightarrow> invar (put b a i)"
    and entries_put: "invar i \<Longrightarrow> ok b \<Longrightarrow> getFirst i b = None \<Longrightarrow>
        entries_of (put b a i) = add_mset (key b, a) (entries_of i)"
    and files_key: "ok b \<Longrightarrow> files b (key b)"
    and get_entries: "invar i \<Longrightarrow> ok_query q \<Longrightarrow>
        mset (get i q) = image_mset snd (filter_mset (\<lambda>e. matches q (fst e)) (entries_of i))"
begin

lemma count_mset_distinct: "distinct xs \<Longrightarrow> x \<in> set xs \<Longrightarrow> count (mset xs) x = 1"
  by (simp add: distinct_count_atmost_1)

lemma filter_mset_False_all: "\<forall>x \<in># M. \<not> P x \<Longrightarrow> filter_mset P M = {#}"
  by (induction M) auto

definition filed :: "'i \<times> 'b list list \<Rightarrow> 'b list \<Rightarrow> bool" where
  "filed s bs \<longleftrightarrow> invar (fst s) \<and>
     image_mset snd (entries_of (fst s)) = mset [0..<length (snd s)] \<and>
     (\<forall>e \<in># entries_of (fst s). \<forall>b \<in> set (snd s ! snd e). files b (fst e)) \<and>
     mset (concat (snd s)) = mset bs"

lemma filed_bound:
  assumes "filed s bs" and "(k, a) \<in># entries_of (fst s)"
  shows "a < length (snd s)"
proof -
  have "a \<in># image_mset snd (entries_of (fst s))"
    using assms(2) by (metis image_eqI set_image_mset snd_conv)
  with assms(1) show ?thesis by (simp add: filed_def)
qed

lemma mset_concat_update:
  "a < length h \<Longrightarrow> mset (concat (h[a := h ! a @ [b]])) = add_mset b (mset (concat h))"
proof (induction h arbitrary: a)
  case Nil
  then show ?case by simp
next
  case (Cons x h)
  then show ?case by (cases a) auto
qed

lemma filed_file:
  assumes "filed s bs" and "ok b"
  shows "filed (file_binding getFirst put b s) (bs @ [b])"
proof (cases "getFirst (fst s) b")
  case (Some a)
  from assms have inv: "invar (fst s)" by (simp add: filed_def)
  from found [OF inv assms(2) Some] obtain k where k: "(k, a) \<in># entries_of (fst s)" "files b k"
    by blast
  have a: "a < length (snd s)" by (rule filed_bound [OF assms(1) k(1)])
  have uniq: "k' = k" if "(k', a) \<in># entries_of (fst s)" for k'
  proof -
    from k(1) obtain E where E: "entries_of (fst s) = add_mset (k, a) E"
      by (metis mset_add)
    have "count (mset [0..<length (snd s)]) a = 1"
      using a by (simp add: count_mset_distinct)
    moreover have "add_mset a (image_mset snd E) = mset [0..<length (snd s)]"
      using assms(1) E by (simp add: filed_def)
    ultimately have "count (add_mset a (image_mset snd E)) a = 1" by simp
    then have "count (image_mset snd E) a = 0" by simp
    then have "a \<notin># image_mset snd E" by (simp only: not_in_iff)
    then have "(k', a) \<notin># E" by force
    with that E show ?thesis by simp
  qed
  have "file_binding getFirst put b s = (fst s, (snd s)[a := snd s ! a @ [b]])"
    using Some by (cases s) (simp add: file_binding_def)
  moreover have "files c k'" if "(k', a') \<in># entries_of (fst s)" "c \<in> set ((snd s)[a := snd s ! a @ [b]] ! a')"
    for k' a' c
    using that uniq k(2) assms(1) a unfolding filed_def by (cases "a = a'") fastforce+
  ultimately show ?thesis
    using assms(1) a by (auto simp: filed_def mset_concat_update)
next
  case None
  from assms have inv: "invar (fst s)" by (simp add: filed_def)
  have eq: "file_binding getFirst put b s = (put b (length (snd s)) (fst s), snd s @ [[b]])"
    using None by (cases s) (simp add: file_binding_def)
  note new = invar_put [OF inv assms(2) None] entries_put [OF inv assms(2) None]
  have "files c k'" if "(k', a') \<in># entries_of (fst s)" "c \<in> set ((snd s @ [[b]]) ! a')" for k' a' c
    using that assms(1) filed_bound [OF assms(1)] unfolding filed_def
    by (fastforce simp: nth_append)
  with assms(1) new files_key [OF assms(2)] show ?thesis
    unfolding eq by (auto simp: filed_def nth_append)
qed

lemma filed_all: "\<forall>b \<in> set bs. ok b \<Longrightarrow> filed (file_all getFirst put empty_index bs) bs"
proof (induction bs rule: rev_induct)
  case Nil
  then show ?case by (simp add: file_all_def filed_def invar_empty entries_empty)
next
  case (snoc b bs)
  then show ?case by (simp add: file_all_def filed_file)
qed

lemma sum_filter_matches:
  assumes "\<forall>e \<in># E. \<not> P e \<longrightarrow> f e = {#}"
  shows "(\<Sum>e \<in># filter_mset P E. f e) = (\<Sum>e \<in># E. f e)"
  using assms by (induction E) auto

lemma mset_map_filter_join:
  "mset (List.map_filter f xs) = image_mset (\<lambda>x. the (f x)) (filter_mset (\<lambda>x. f x \<noteq> None) (mset xs))"
  by (induction xs) (auto simp: List.map_filter_def)

lemma filter_mset_sum: "filter_mset P (\<Sum>e \<in># E. f e) = (\<Sum>e \<in># E. filter_mset P (f e))"
  by (induction E) auto

text \<open>A probe finds all bindings that can be joined, each once.\<close>

lemma probe_filed:
  assumes "filed s bs" and "ok_query q"
    and "\<And>b c k. b \<in> set bs \<Longrightarrow> join q b = Some c \<Longrightarrow> files b k \<Longrightarrow> matches q k"
  shows "mset (probe get join s q) = mset (List.map_filter (join q) bs)"
proof -
  let ?E = "entries_of (fst s)" and ?h = "snd s" and ?J = "\<lambda>b. join q b \<noteq> None"
  from assms(1) have inv: "invar (fst s)" and nums: "image_mset snd ?E = mset [0..<length ?h]"
    and all: "mset (concat ?h) = mset bs" by (auto simp: filed_def)
  have miss: "filter_mset ?J (mset (?h ! snd e)) = {#}"
    if e: "e \<in># ?E" "\<not> matches q (fst e)" for e
  proof -
    have "join q b = None" if "b \<in> set (?h ! snd e)" for b
    proof -
      have "snd e < length ?h" using filed_bound [OF assms(1), of "fst e" "snd e"] e(1) by simp
      with that have "b \<in> set (concat ?h)" by (metis UN_I nth_mem set_concat)
      with all have "b \<in> set bs" by (metis set_mset_mset)
      moreover have "files b (fst e)" using assms(1) e(1) that by (auto simp: filed_def)
      ultimately show ?thesis using assms(3) e(2) by (metis not_Some_eq)
    qed
    then show ?thesis by (auto intro: filter_mset_False_all)
  qed
  have "filter_mset ?J (mset (concat (map ((!) ?h) (get (fst s) q)))) =
      filter_mset ?J (\<Sum>a \<in># mset (get (fst s) q). mset (?h ! a))"
    by (simp add: mset_concat_map)
  also have "\<dots> = (\<Sum>e \<in># filter_mset (\<lambda>e. matches q (fst e)) ?E. filter_mset ?J (mset (?h ! snd e)))"
    by (simp add: get_entries [OF inv assms(2)] filter_mset_sum image_mset.compositionality comp_def)
  also have "\<dots> = (\<Sum>e \<in># ?E. filter_mset ?J (mset (?h ! snd e)))"
    by (rule sum_filter_matches) (use miss in auto)
  also have "\<dots> = filter_mset ?J (\<Sum>a \<in># image_mset snd ?E. mset (?h ! a))"
    by (simp add: filter_mset_sum image_mset.compositionality comp_def)
  also have "\<dots> = filter_mset ?J (mset (concat (map ((!) ?h) [0..<length ?h])))"
    unfolding nums by (simp only: mset_concat_map)
  also have "\<dots> = filter_mset ?J (mset bs)" using all by (simp add: map_nth)
  finally show ?thesis by (simp add: probe_def mset_map_filter_join)
qed

lemma probe_all:
  assumes "\<forall>b \<in> set bs. ok b" and "ok_query q"
    and "\<And>b c k. b \<in> set bs \<Longrightarrow> join q b = Some c \<Longrightarrow> files b k \<Longrightarrow> matches q k"
  shows "mset (probe get join (file_all getFirst put empty_index bs) q) =
    mset (List.map_filter (join q) bs)"
  using probe_filed [OF filed_all [OF assms(1)] assms(2,3)] .

end

section \<open>The indexes of the repository\<close>

definition keys_bound :: "('t \<Rightarrow> bool) \<Rightarrow> ('t \<Rightarrow> string) \<Rightarrow> string list \<Rightarrow> ('t, 'v) bindings \<Rightarrow> bool" where
  "keys_bound is_var ts keys b \<longleftrightarrow> [] \<notin> set (data_keys (undef_hash is_var ts) keys b)"

definition filable ::
  "('t \<Rightarrow> bool) \<Rightarrow> ('t \<Rightarrow> string) \<Rightarrow> bool \<Rightarrow> string list \<Rightarrow> ('t, 'v) bindings \<Rightarrow> bool" where
  "filable is_var ts wild keys b \<longleftrightarrow>
     keys \<noteq> [] \<and> wf_bindings b \<and> (wild \<longrightarrow> keys_bound is_var ts keys b)"

definition undef_entries :: "string list \<Rightarrow> bucket_index \<Rightarrow> (string list \<times> nat) multiset" where
  "undef_entries keys i =
     (case i of Def_index m \<Rightarrow> {#} | Undef_index d \<Rightarrow> mset (paths (length keys) (ui_data d)))"

definition undef_invar :: "string list \<Rightarrow> bucket_index \<Rightarrow> bool" where
  "undef_invar keys i \<longleftrightarrow> (\<exists>d. i = Undef_index d \<and> wf_undef_index True keys d)"

lemma path_match_refl: "path_match wild ks ks"
  by (simp add: path_match_def hash_match_def list_all2_same)

lemma path_match_no_wildcard: "[] \<notin> set ks \<Longrightarrow> path_match True ks p = path_match False ks p"
proof (induction ks arbitrary: p)
  case Nil
  then show ?case by simp
next
  case (Cons k ks)
  then show ?case by (cases p) (auto simp: hash_match_def)
qed

lemma indexable_True: "keys \<noteq> [] \<Longrightarrow> indexable True keys b"
  by (simp add: indexable_def)

lemma getFirst_undef_found:
  assumes "wf_undef_index True keys d" and "keys \<noteq> []"
  shows "case getFirst_undef_index h wild d b of
      None \<Rightarrow> \<forall>p \<in> set (paths (length keys) (ui_data d)). \<not> path_match wild (data_keys h keys b) (fst p)
    | Some a \<Rightarrow> \<exists>k. (k, a) \<in> set (paths (length keys) (ui_data d)) \<and> path_match wild (data_keys h keys b) k"
proof -
  have wf: "\<forall>e \<in> set [ui_data d]. wf_data (length (data_keys h keys b)) e"
    using assms by (simp add: wf_undef_index_def)
  have "getFirst_undef_index h wild d b = getRecursiveFirst wild (data_keys h keys b) [ui_data d]"
    using assms by (simp add: getFirst_undef_index_def wf_undef_index_def)
  with getRecursiveFirst_found [OF wf, of wild] show ?thesis
    by (auto simp: found_def filter_empty_conv split: option.splits)
qed

interpretation undef_buckets: bucket_lookup
  "constructIndex True True keys"
  "bi_getFirst is_var ts keys wild"
  "bi_put is_var ts keys"
  "bi_get is_var ts keys"
  "undef_entries keys"
  "undef_invar keys"
  "\<lambda>b k. path_match False (data_keys (undef_hash is_var ts) keys b) k"
  "\<lambda>q k. path_match True (data_keys (undef_hash is_var ts) keys q) k"
  "filable is_var ts wild keys"
  "\<lambda>q. keys \<noteq> []"
  "data_keys (undef_hash is_var ts) keys"
  for is_var ts wild keys
proof (unfold_locales, goal_cases)
  case 1
  then show ?case
    by (simp add: constructIndex_def undef_invar_def wf_new_undef_index)
next
  case 2
  then show ?case by (simp add: constructIndex_def undef_entries_def new_undef_index_def)
next
  case (3 i b a)
  then obtain d where d: "i = Undef_index d" "wf_undef_index True keys d" "keys \<noteq> []"
    and bound: "wild \<longrightarrow> keys_bound is_var ts keys b"
    by (auto simp: undef_invar_def filable_def)
  from getFirst_undef_found [OF d(2,3), where h = "undef_hash is_var ts" and wild = wild and b = b] 3 d(1)
  obtain k where "(k, a) \<in> set (paths (length keys) (ui_data d))"
    "path_match wild (data_keys (undef_hash is_var ts) keys b) k" by auto
  moreover from this bound have "path_match False (data_keys (undef_hash is_var ts) keys b) k"
    by (cases wild) (simp_all add: keys_bound_def path_match_no_wildcard)
  ultimately show ?case using d(1) by (auto simp: undef_entries_def)
next
  case (4 i b a)
  then show ?case by (auto simp: undef_invar_def wf_put_undef_index)
next
  case (5 i b a)
  then obtain d where d: "i = Undef_index d" "wf_undef_index True keys d" "keys \<noteq> []"
    by (auto simp: undef_invar_def filable_def)
  let ?ks = "data_keys (undef_hash is_var ts) keys b"
  from getFirst_undef_found [OF d(2,3), where h = "undef_hash is_var ts" and wild = wild and b = b] 5 d(1) path_match_refl
  have "?ks \<notin> fst ` set (paths (length keys) (ui_data d))" by fastforce
  moreover have "wf_data (length keys) (ui_data d)" "0 < length keys"
    using d(2,3) by (simp_all add: wf_undef_index_def)
  ultimately show ?case
    using put_path_spec [of "length keys" "ui_data d" ?ks a] d
    by (simp add: undef_entries_def put_undef_index_def wf_undef_index_def)
next
  case (6 b)
  then show ?case by (simp add: path_match_refl)
next
  case (7 i q)
  then obtain d where d: "i = Undef_index d" "wf_undef_index True keys d" "keys \<noteq> []"
    by (auto simp: undef_invar_def filable_def)
  have "indexable True keys q" by (rule indexable_True [OF d(3)])
  with get_undef_index_paths [OF d(2), where q = q and hashFn = "undef_hash is_var ts"] d(1)
  show ?case by (simp add: undef_entries_def)
qed

definition def_entries :: "bucket_index \<Rightarrow> (string \<times> nat) multiset" where
  "def_entries i = (case i of Def_index m \<Rightarrow> mset m | Undef_index d \<Rightarrow> {#})"

definition def_invar :: "bucket_index \<Rightarrow> bool" where
  "def_invar i \<longleftrightarrow> (\<exists>m. i = Def_index m \<and> wf_map m)"

interpretation def_buckets: bucket_lookup
  "constructIndex False True keys"
  "bi_getFirst is_var ts keys wild"
  "bi_put is_var ts keys"
  "bi_get is_var ts keys"
  "def_entries"
  "def_invar"
  "\<lambda>b k. k = bindingsToCompactString ts b keys"
  "\<lambda>q k. k = bindingsToCompactString ts q keys"
  "filable is_var ts True keys"
  "\<lambda>q. True"
  "\<lambda>b. bindingsToCompactString ts b keys"
  for is_var ts wild keys
proof (unfold_locales, goal_cases)
  case 1
  then show ?case by (simp add: constructIndex_def def_invar_def)
next
  case 2
  then show ?case by (simp add: constructIndex_def def_entries_def)
next
  case (3 i b a)
  then show ?case
    by (auto simp: def_invar_def getFirst_def_index_def def_entries_def dest: js_get_mem)
next
  case (4 i b a)
  then show ?case by (auto simp: def_invar_def put_def_index_def)
next
  case (5 i b a)
  then show ?case
    by (auto simp: def_invar_def getFirst_def_index_def def_entries_def put_def_index_def
        js_set_new map_of_eq_None_iff)
next
  case (6 b)
  then show ?case by simp
next
  case (7 i q)
  then obtain m where m: "i = Def_index m" "wf_map m" by (auto simp: def_invar_def)
  show ?case
    using mset_filter_keys [OF m(2), of "bindingsToCompactString ts q keys"]
    by (simp add: m(1) get_def_index_def getFirst_def_index_def def_entries_def
        flip: mset_filter split: option.splits)
qed

section \<open>Bindings that can be joined are found\<close>

lemma joinBindings_two:
  assumes "joinBindings u truthy [q, b] = Some c" and "wf_bindings q" and "wf_bindings b"
  shows "compatible (b_get q) (b_get b)"
  using b_merge_spec [OF assms(2,3), of u truthy] assms(1) by (auto split: option.splits)

lemma compatible_path_match:
  assumes "compatible (b_get q) (b_get b)"
    and "path_match False (data_keys (undef_hash is_var ts) keys b) k"
  shows "path_match True (data_keys (undef_hash is_var ts) keys q) k"
  using assms(2)
proof (induction keys arbitrary: k)
  case Nil
  then show ?case by (simp add: data_keys_def)
next
  case (Cons v keys)
  then obtain x xs where k: "k = x # xs" by (cases k) (auto simp: data_keys_def)
  with Cons.prems have
    m: "hash_match False (undef_hash is_var ts (b_get b v)) x"
      "path_match False (data_keys (undef_hash is_var ts) keys b) xs"
    by (simp_all add: data_keys_def)
  have "\<forall>s t. b_get q v = Some s \<longrightarrow> b_get b v = Some t \<longrightarrow> s = t"
    using assms(1) by (auto simp: compatible_def)
  with m(1) have "hash_match True (undef_hash is_var ts (b_get q v)) x"
    unfolding hash_match_def undef_hash_def by (cases "b_get q v"; cases "b_get b v") auto
  with Cons.IH [OF m(2)] show ?case by (simp add: k data_keys_def)
qed

lemma compatible_compact_string:
  assumes "compatible (b_get q) (b_get b)" and "\<forall>v \<in> set keys. b_get q v \<noteq> None \<and> b_get b v \<noteq> None"
  shows "bindingsToCompactString ts b keys = bindingsToCompactString ts q keys"
proof -
  have "map (\<lambda>v. case b_get b v of Some t \<Rightarrow> ts t | None \<Rightarrow> []) keys =
      map (\<lambda>v. case b_get q v of Some t \<Rightarrow> ts t | None \<Rightarrow> []) keys"
  proof (rule map_cong [OF refl])
    fix v assume "v \<in> set keys"
    with assms(2) obtain x y where "b_get q v = Some x" "b_get b v = Some y" by blast
    with assms(1) show "(case b_get b v of Some t \<Rightarrow> ts t | None \<Rightarrow> []) =
        (case b_get q v of Some t \<Rightarrow> ts t | None \<Rightarrow> [])" by (auto simp: compatible_def)
  qed
  then show ?thesis unfolding bindingsToCompactString_def by (rule arg_cong)
qed

section \<open>The joins that the actors implement\<close>

definition nested_loop_join ::
  "'v \<Rightarrow> ('v \<Rightarrow> bool) \<Rightarrow> ('t, 'v) bindings list \<Rightarrow> ('t, 'v) bindings list \<Rightarrow> ('t, 'v) bindings list" where
  "nested_loop_join u truthy rs ls =
     concat (map (\<lambda>l. List.map_filter (\<lambda>r. joinBindings u truthy [l, r]) rs) ls)"

definition left_join ::
  "'v \<Rightarrow> ('v \<Rightarrow> bool) \<Rightarrow> ('t, 'v) bindings list \<Rightarrow> ('t, 'v) bindings list \<Rightarrow> ('t, 'v) bindings list" where
  "left_join u truthy rs ls =
     concat (map (\<lambda>l. let js = List.map_filter (\<lambda>r. joinBindings u truthy [l, r]) rs
                      in if js = [] then [l] else js) ls)"

definition sparql_minus :: "('t, 'v) bindings list \<Rightarrow> ('t, 'v) bindings list \<Rightarrow> ('t, 'v) bindings list" where
  "sparql_minus rs ls =
     filter (\<lambda>l. \<not> (\<exists>r \<in> set rs. compatible (b_get l) (b_get r) \<and>
                          dom (b_get l) \<inter> dom (b_get r) \<noteq> {})) ls"

lemma mset_concat_cong:
  "(\<And>x. x \<in> set xs \<Longrightarrow> mset (f x) = mset (g x)) \<Longrightarrow> mset (concat (map f xs)) = mset (concat (map g xs))"
  by (induction xs) auto

lemma hash_join_undef_mset:
  assumes "keys \<noteq> []" and "\<forall>b \<in> set (buffer @ output). wf_bindings b"
  shows "mset (hash_join_undef is_var ts u truthy keys buffer output) =
    mset (nested_loop_join u truthy buffer output)"
  unfolding hash_join_undef_def nested_loop_join_def Let_def
proof (rule mset_concat_cong)
  fix l assume "l \<in> set output"
  with assms(2) have l: "wf_bindings l" by simp
  show "mset (probe (bi_get is_var ts keys) (\<lambda>l r. joinBindings u truthy [l, r])
      (file_all (bi_getFirst is_var ts keys False) (bi_put is_var ts keys)
        (constructIndex True True keys) buffer) l) =
    mset (List.map_filter (\<lambda>r. joinBindings u truthy [l, r]) buffer)"
  proof (rule undef_buckets.probe_all)
    show "\<forall>b \<in> set buffer. filable is_var ts False keys b"
      using assms by (simp add: filable_def)
    show "keys \<noteq> []" by (rule assms(1))
    fix b c k
    assume "b \<in> set buffer" "joinBindings u truthy [l, b] = Some c"
      "path_match False (data_keys (undef_hash is_var ts) keys b) k"
    with assms(2) joinBindings_two [OF _ l] compatible_path_match
    show "path_match True (data_keys (undef_hash is_var ts) keys l) k"
      by (metis Un_iff set_append)
  qed
qed

lemma optional_probe:
  assumes "keys \<noteq> []" and "\<forall>b \<in> set (buffer @ output). wf_bindings b"
    and "\<forall>b \<in> set buffer. keys_bound is_var ts keys b"
    and "undef \<or> (\<forall>b \<in> set output. \<forall>v \<in> set keys. b_get b v \<noteq> None)"
    and "l \<in> set output"
  shows "mset (probe (bi_get is_var ts keys) (\<lambda>l r. joinBindings u truthy [l, r])
      (file_all (bi_getFirst is_var ts keys True) (bi_put is_var ts keys)
        (constructIndex undef True keys) buffer) l) =
    mset (List.map_filter (\<lambda>r. joinBindings u truthy [l, r]) buffer)"
proof -
  have l: "wf_bindings l" using assms(2,5) by simp
  have fil: "\<forall>b \<in> set buffer. filable is_var ts True keys b"
    using assms(1-3) by (simp add: filable_def)
  have comp: "compatible (b_get l) (b_get b)"
    if "b \<in> set buffer" "joinBindings u truthy [l, b] = Some c" for b c
    using that assms(2) joinBindings_two [OF _ l] by (metis Un_iff set_append)
  show ?thesis
  proof (cases undef)
    case True
    have u: "undef = True" using True by simp
    show ?thesis unfolding u
      by (rule undef_buckets.probe_all [OF fil assms(1)])
         (use comp compatible_path_match in blast)
  next
    case False
    have bound: "\<forall>v \<in> set keys. b_get l v \<noteq> None \<and> b_get b v \<noteq> None" if "b \<in> set buffer" for b
      using that assms(3-5) False
      by (auto simp: keys_bound_def data_keys_def undef_hash_def image_iff split: option.splits)
    have u: "undef = False" using False by simp
    show ?thesis unfolding u
      by (rule def_buckets.probe_all [OF fil TrueI])
         (use comp bound compatible_compact_string in metis)
  qed
qed

lemma mset_or_self:
  "mset xs = mset ys \<Longrightarrow> mset (if xs = [] then [l] else xs) = mset (if ys = [] then [l] else ys)"
  by auto

lemma optional_hash_blocking_mset:
  assumes "keys \<noteq> []" and "\<forall>b \<in> set (buffer @ output). wf_bindings b"
    and "\<forall>b \<in> set buffer. keys_bound is_var ts keys b"
    and "undef \<or> (\<forall>b \<in> set output. \<forall>v \<in> set keys. b_get b v \<noteq> None)"
  shows "mset (optional_hash_blocking is_var ts u truthy undef keys buffer output) =
    mset (left_join u truthy buffer output)"
  unfolding optional_hash_blocking_def left_join_def Let_def
proof (rule mset_concat_cong)
  fix l assume "l \<in> set output"
  note optional_probe [OF assms this, of u truthy]
  then show "mset (if probe (bi_get is_var ts keys) (\<lambda>l r. joinBindings u truthy [l, r])
        (file_all (bi_getFirst is_var ts keys True) (bi_put is_var ts keys)
          (constructIndex undef True keys) buffer) l = [] then [l]
      else probe (bi_get is_var ts keys) (\<lambda>l r. joinBindings u truthy [l, r])
        (file_all (bi_getFirst is_var ts keys True) (bi_put is_var ts keys)
          (constructIndex undef True keys) buffer) l) =
    mset (if List.map_filter (\<lambda>r. joinBindings u truthy [l, r]) buffer = [] then [l]
      else List.map_filter (\<lambda>r. joinBindings u truthy [l, r]) buffer)"
    by (rule mset_or_self)
qed

text \<open>A term serialization that identifies terms and is never empty.\<close>

definition identifies :: "('t \<Rightarrow> bool) \<Rightarrow> ('t \<Rightarrow> string) \<Rightarrow> bool" where
  "identifies is_var ts \<longleftrightarrow> (\<forall>s t. \<not> is_var s \<longrightarrow> \<not> is_var t \<longrightarrow> ts s = ts t \<longrightarrow> s = t) \<and>
     (\<forall>t. \<not> is_var t \<longrightarrow> ts t \<noteq> [])"

definition no_variable_terms :: "('t \<Rightarrow> bool) \<Rightarrow> ('t, 'v) bindings \<Rightarrow> bool" where
  "no_variable_terms is_var b \<longleftrightarrow> (\<forall>v t. b_get b v = Some t \<longrightarrow> \<not> is_var t)"

lemma path_match_agree:
  assumes "identifies is_var ts" and "no_variable_terms is_var l" and "no_variable_terms is_var r"
  shows "path_match True (data_keys (undef_hash is_var ts) keys l) (data_keys (undef_hash is_var ts) keys r) \<longleftrightarrow>
    (\<forall>v \<in> set keys. \<forall>x y. b_get l v = Some x \<longrightarrow> b_get r v = Some y \<longrightarrow> x = y)"
proof (induction keys)
  case Nil
  then show ?case by (simp add: data_keys_def)
next
  case (Cons v keys)
  have "hash_match True (undef_hash is_var ts (b_get l v)) (undef_hash is_var ts (b_get r v)) \<longleftrightarrow>
      (\<forall>x y. b_get l v = Some x \<longrightarrow> b_get r v = Some y \<longrightarrow> x = y)"
  proof (cases "b_get l v"; cases "b_get r v")
    fix x y assume "b_get l v = Some x" "b_get r v = Some y"
    with assms have "\<not> is_var x" "\<not> is_var y" "ts x \<noteq> []" "ts y \<noteq> []" "ts x = ts y \<longrightarrow> x = y"
      by (auto simp: no_variable_terms_def identifies_def)
    with \<open>b_get l v = Some x\<close> \<open>b_get r v = Some y\<close> show ?thesis
      by (auto simp: hash_match_def undef_hash_def)
  qed (simp_all add: hash_match_def undef_hash_def)
  with Cons show ?case by (simp add: data_keys_def)
qed

lemma minus_hash_undef_filter:
  assumes "identifies is_var ts"
    and "\<forall>b \<in> set (buffer @ output). no_variable_terms is_var b"
    and "minus_variables mds graphVariable = keys" and "keys \<noteq> []"
  shows "minus_hash is_var ts True mds graphVariable buffer output =
    filter (\<lambda>l. \<not> (\<exists>r \<in> set buffer. isBindingsValid keys l \<and> isBindingsValid keys r \<and>
      (\<forall>v \<in> set keys. \<forall>x y. b_get l v = Some x \<longrightarrow> b_get r v = Some y \<longrightarrow> x = y))) output"
proof -
  have "minus_hash is_var ts True mds graphVariable buffer output =
      filter (\<lambda>l. \<not> (getFirst_undef_index (undef_hash is_var ts) True
        (fold (\<lambda>b. put_undef_index (undef_hash is_var ts) b True) buffer (new_undef_index keys False)) l \<noteq> None)) output"
    using assms(3,4) by (simp add: minus_hash_def)
  also have "\<dots> = filter (\<lambda>l. \<forall>r \<in> set buffer. \<not> matches_undef_index (undef_hash is_var ts) False keys l r) output"
    by (rule undef_lookup.anti_join)
  also have "\<dots> = filter (\<lambda>l. \<not> (\<exists>r \<in> set buffer. isBindingsValid keys l \<and> isBindingsValid keys r \<and>
      (\<forall>v \<in> set keys. \<forall>x y. b_get l v = Some x \<longrightarrow> b_get r v = Some y \<longrightarrow> x = y))) output"
  proof (rule filter_cong [OF refl])
    fix l assume l: "l \<in> set output"
    have "matches_undef_index (undef_hash is_var ts) False keys l r \<longleftrightarrow>
        isBindingsValid keys l \<and> isBindingsValid keys r \<and>
        (\<forall>v \<in> set keys. \<forall>x y. b_get l v = Some x \<longrightarrow> b_get r v = Some y \<longrightarrow> x = y)"
      if "r \<in> set buffer" for r
      using path_match_agree [OF assms(1), of l r keys] assms(2) l that
      by (auto simp: matches_undef_index_def indexable_def)
    then show "(\<forall>r \<in> set buffer. \<not> matches_undef_index (undef_hash is_var ts) False keys l r) \<longleftrightarrow>
        \<not> (\<exists>r \<in> set buffer. isBindingsValid keys l \<and> isBindingsValid keys r \<and>
          (\<forall>v \<in> set keys. \<forall>x y. b_get l v = Some x \<longrightarrow> b_get r v = Some y \<longrightarrow> x = y))"
      by blast
  qed
  finally show ?thesis .
qed

lemma minus_hash_conforming:
  assumes "identifies is_var ts"
    and "\<forall>b \<in> set (buffer @ output). no_variable_terms is_var b"
    and "wf_metadata md" and "wf_metadata md'"
    and "\<forall>l \<in> set output. conforms md l" and "\<forall>r \<in> set buffer. conforms md' r"
    and "\<not> list_ex snd (overlappingVariables [md, md'])" and "plain_names (md_vars md \<inter> md_vars md')"
  shows "minus_hash is_var ts True [md, md'] None buffer output = sparql_minus buffer output"
proof -
  let ?keys = "minus_variables [md, md'] None"
  have wf: "\<forall>m \<in> set [md, md']. wf_metadata m" using assms(3,4) by simp
  have keys: "v \<in> set ?keys \<longleftrightarrow> v \<in> md_vars md \<and> v \<in> md_vars md'" for v
  proof -
    have "v \<in> set ?keys \<longleftrightarrow> (\<exists>cu. (v, cu) \<in> set (overlappingVariables [md, md']))"
      by (force simp: minus_variables_def)
    moreover have "v \<notin> set object_prototype" if "v \<in> md_vars md \<and> v \<in> md_vars md'"
      using assms(8) that by (auto simp: plain_names_def)
    ultimately show ?thesis
      using overlappingVariables_spec [OF wf, of v] overlapping_plain [of v _ "[md, md']"] by auto
  qed
  have bound: "(v, True) \<notin> set (md_variables md) \<and> (v, True) \<notin> set (md_variables md')"
    if "v \<in> set ?keys" for v
  proof -
    have "v \<notin> set object_prototype"
      using assms(8) that keys by (auto simp: plain_names_def)
    from overlappingVariables_spec [OF wf _ this, of True] show ?thesis
      using assms(7) that keys by (auto simp: list_ex_iff)
  qed
  have dl: "v \<in> dom (b_get l)" if "l \<in> set output" "v \<in> set ?keys" for l v
    using that bound keys assms(5) by (auto simp: conforms_def)
  have dr: "v \<in> dom (b_get r)" if "r \<in> set buffer" "v \<in> set ?keys" for r v
    using that bound keys assms(6) by (auto simp: conforms_def)
  have common: "v \<in> dom (b_get l) \<inter> dom (b_get r) \<longleftrightarrow> v \<in> set ?keys"
    if "l \<in> set output" "r \<in> set buffer" for l r v
    using that dl dr keys assms(5,6) unfolding conforms_def by blast
  have agree: "(\<forall>v \<in> set ?keys. \<forall>x y. b_get l v = Some x \<longrightarrow> b_get r v = Some y \<longrightarrow> x = y) \<longleftrightarrow>
      compatible (b_get l) (b_get r)" if "l \<in> set output" "r \<in> set buffer" for l r
    using common [OF that] unfolding compatible_def by (metis IntI domI)
  have valid: "isBindingsValid ?keys b \<longleftrightarrow> ?keys \<noteq> []"
    if "\<And>v. v \<in> set ?keys \<Longrightarrow> v \<in> dom (b_get b)" for b :: "('a, 'b) bindings"
    using that by (fastforce simp: isBindingsValid_def list_ex_iff b_has_def b_get_def neq_Nil_conv)
  show ?thesis
  proof (cases "?keys = []")
    case True
    then have "dom (b_get l) \<inter> dom (b_get r) = {}" if "l \<in> set output" "r \<in> set buffer" for l r
      using common [OF that] by auto
    then have "sparql_minus buffer output = output"
      unfolding sparql_minus_def by (subst filter_True) auto
    with True show ?thesis by (simp add: minus_hash_def Let_def)
  next
    case False
    have "dom (b_get l) \<inter> dom (b_get r) \<noteq> {}" if "l \<in> set output" "r \<in> set buffer" for l r
      using common [OF that] False by (metis empty_iff hd_in_set)
    moreover have "isBindingsValid ?keys l" if "l \<in> set output" for l
      using valid dl that False by blast
    moreover have "isBindingsValid ?keys r" if "r \<in> set buffer" for r
      using valid dr that False by blast
    ultimately have "(isBindingsValid ?keys l \<and> isBindingsValid ?keys r \<and>
        (\<forall>v \<in> set ?keys. \<forall>x y. b_get l v = Some x \<longrightarrow> b_get r v = Some y \<longrightarrow> x = y)) \<longleftrightarrow>
        compatible (b_get l) (b_get r) \<and> dom (b_get l) \<inter> dom (b_get r) \<noteq> {}"
      if "l \<in> set output" "r \<in> set buffer" for l r
      using that agree [OF that] by simp
    then show ?thesis
      unfolding sparql_minus_def minus_hash_undef_filter [OF assms(1,2) refl False]
      by (intro filter_cong [OF refl] arg_cong [where f = Not] bex_cong [OF refl]) simp
  qed
qed

section \<open>Properties of the hash joins\<close>

text \<open>
  C2. The hash join for undefined values produces exactly the solutions of a nested-loop join,
  each as often, whatever the order of the two streams and the terms' hashes.
\<close>

theorem hash_join_is_join:
  assumes "keys \<noteq> []" and "\<forall>b \<in> set (buffer @ output). wf_bindings b"
  shows "mset (hash_join_undef is_var ts u truthy keys buffer output) =
    mset (nested_loop_join u truthy buffer output)"
  using assms by (rule hash_join_undef_mset)

definition b_of :: "(string \<times> string) list \<Rightarrow> (string, bool) bindings" where
  "b_of es = \<lparr>entries = es, contextHolder = None\<rparr>"

lemma wf_b_of: "distinct (map fst es) \<Longrightarrow> wf_bindings (b_of es)"
  by (simp add: b_of_def wf_bindings_def wf_map_def)

lemma b_get_of [simp]: "b_get (b_of es) = map_of es"
  by (simp add: b_of_def b_get_def [abs_def])

theorem hash_join_is_join_witness:
  "mset (hash_join_undef (\<lambda>t. False) id False id [''x'']
      [b_of [(''x'', ''a''), (''z'', ''1'')], b_of [(''z'', ''2'')]] [b_of [(''x'', ''c'')]]) =
   mset (nested_loop_join False id
      [b_of [(''x'', ''a''), (''z'', ''1'')], b_of [(''z'', ''2'')]] [b_of [(''x'', ''c'')]])"
  by (rule hash_join_is_join) (simp_all add: wf_b_of)

text \<open>
  C30. The blocking optional hash join is the left join, provided that the bindings of the optional
  side have a value for every common variable (and those of the main side too for the variant
  without undefined values).
\<close>

theorem optional_hash_is_left_join:
  assumes "keys \<noteq> []" and "\<forall>b \<in> set (buffer @ output). wf_bindings b"
    and "\<forall>b \<in> set buffer. keys_bound is_var ts keys b"
    and "undef \<or> (\<forall>b \<in> set output. \<forall>v \<in> set keys. b_get b v \<noteq> None)"
  shows "mset (optional_hash_blocking is_var ts u truthy undef keys buffer output) =
    mset (left_join u truthy buffer output)"
  using assms by (rule optional_hash_blocking_mset)

theorem optional_hash_is_left_join_witness:
  "mset (optional_hash_blocking (\<lambda>t. False) id False id True [''x'']
      [b_of [(''x'', ''a''), (''z'', ''1'')]] [b_of [(''x'', ''a'')], b_of [(''y'', ''c'')]]) =
   mset (left_join False id
      [b_of [(''x'', ''a''), (''z'', ''1'')]] [b_of [(''x'', ''a'')], b_of [(''y'', ''c'')]])"
  by (rule optional_hash_is_left_join)
     (simp_all add: wf_b_of keys_bound_def data_keys_def undef_hash_def)

text \<open>
  With undefined values on the optional side the blocking optional hash join loses solutions:
  filing a binding searches its array with undefined values as wildcards, so that a binding
  without the variable is filed under another term's hash.
\<close>

theorem optional_hash_loses_solution:
  "optional_hash_blocking (\<lambda>t. False) id False id True [''x'']
     [b_of [(''x'', ''a''), (''z'', ''1'')], b_of [(''z'', ''2'')]] [b_of [(''x'', ''c'')]] =
     [b_of [(''x'', ''c'')]] \<and>
   left_join False id
     [b_of [(''x'', ''a''), (''z'', ''1'')], b_of [(''z'', ''2'')]] [b_of [(''x'', ''c'')]] =
     [b_of [(''x'', ''c''), (''z'', ''2'')]]"
  by (simp add: optional_hash_blocking_def left_join_def constructIndex_def file_all_def
      file_binding_def new_undef_index_def getFirst_undef_index_def put_undef_index_def
      data_keys_def undef_hash_def probe_def get_undef_index_def List.map_filter_def
      b_merge_def b_size_def merge_into_def createBindingsWithContexts_def b_of_def b_get_def)

text \<open>
  C31. The minus actor for undefined values computes the SPARQL \<open>MINUS\<close>, when there is no variable for the graph, the
  streams are as their metadata promises, no common variable can be undefined or is named like a member of
  \<open>Object.prototype\<close>, and the strings of the terms tell them apart: it removes exactly the solutions that are
  compatible with a solution of the other side and share a variable with it.  The variant without undefined values
  is another one, \<open>minus_hash_clash\<close>.
\<close>

theorem minus_hash_is_minus:
  assumes "identifies is_var ts"
    and "\<forall>b \<in> set (buffer @ output). no_variable_terms is_var b"
    and "wf_metadata md" and "wf_metadata md'"
    and "\<forall>l \<in> set output. conforms md l" and "\<forall>r \<in> set buffer. conforms md' r"
    and "\<not> list_ex snd (overlappingVariables [md, md'])" and "plain_names (md_vars md \<inter> md_vars md')"
  shows "minus_hash is_var ts True [md, md'] None buffer output = sparql_minus buffer output"
  using assms by (rule minus_hash_conforming)

theorem minus_hash_is_minus_witness:
  "minus_hash (\<lambda>t. False) (Cons CHR ''t'') True
     [sample_md [(''x'', False)] (Num 2), sample_md [(''x'', False), (''y'', True)] (Num 1)] None
     [b_of [(''x'', ''a'')]] [b_of [(''x'', ''a'')], b_of [(''x'', ''b'')]] =
   sparql_minus [b_of [(''x'', ''a'')]] [b_of [(''x'', ''a'')], b_of [(''x'', ''b'')]]"
  by (rule minus_hash_is_minus)
     (simp_all add: identifies_def no_variable_terms_def wf_metadata_def sample_md_def conforms_def
        md_vars_def overlappingVariables_def object_prototype_def plain_names_def)

text \<open>
  When common variables can be undefined, the minus actor also removes solutions that share no
  bound variable with any solution of the other side, which SPARQL keeps.
\<close>

theorem minus_hash_removes_disjoint:
  "minus_hash (\<lambda>t. False) id True
     [sample_md [(''x'', True), (''y'', True)] (Num 1), sample_md [(''x'', True), (''y'', True)] (Num 1)] None
     [b_of [(''y'', ''b'')]] [b_of [(''x'', ''a'')]] = [] \<and>
   sparql_minus [b_of [(''y'', ''b'')]] [b_of [(''x'', ''a'')]] = [b_of [(''x'', ''a'')]]"
  by (simp add: minus_hash_def minus_variables_def overlappingVariables_def sample_md_def object_prototype_def
      new_undef_index_def put_undef_index_def getFirst_undef_index_def data_keys_def undef_hash_def
      isBindingsValid_def b_has_def b_of_def b_get_def [abs_def] sparql_minus_def List.map_filter_def Let_def)

text \<open>
  The minus actor without undefined values removes a solution although the other side has no
  equal solution, when the concatenated strings of their terms are the same.
\<close>

theorem minus_hash_clash:
  "minus_hash (\<lambda>t. False) id False
     [sample_md [(''x'', False), (''y'', False)] (Num 1), sample_md [(''x'', False), (''y'', False)] (Num 1)] None
     [b_of [(''x'', ''ex:1/a:''), (''y'', ''urn:z'')]] [b_of [(''x'', ''ex:1/''), (''y'', ''a:urn:z'')]] = [] \<and>
   sparql_minus [b_of [(''x'', ''ex:1/a:''), (''y'', ''urn:z'')]] [b_of [(''x'', ''ex:1/''), (''y'', ''a:urn:z'')]] =
     [b_of [(''x'', ''ex:1/''), (''y'', ''a:urn:z'')]]"
proof
  show "minus_hash (\<lambda>t. False) id False
     [sample_md [(''x'', False), (''y'', False)] (Num 1), sample_md [(''x'', False), (''y'', False)] (Num 1)] None
     [b_of [(''x'', ''ex:1/a:''), (''y'', ''urn:z'')]] [b_of [(''x'', ''ex:1/''), (''y'', ''a:urn:z'')]] = []"
    by (simp add: minus_hash_def minus_variables_def overlappingVariables_def sample_md_def object_prototype_def
        put_def_index_def getFirst_def_index_def bindingsToCompactString_def Let_def)
  have "\<not> compatible (b_get (b_of [(''x'', ''ex:1/''), (''y'', ''a:urn:z'')]))
      (b_get (b_of [(''x'', ''ex:1/a:''), (''y'', ''urn:z'')]))"
    unfolding compatible_def b_get_of by (auto intro!: exI [of _ "''x''"])
  then show "sparql_minus [b_of [(''x'', ''ex:1/a:''), (''y'', ''urn:z'')]] [b_of [(''x'', ''ex:1/''), (''y'', ''a:urn:z'')]] =
     [b_of [(''x'', ''ex:1/''), (''y'', ''a:urn:z'')]]"
    by (simp add: sparql_minus_def del: b_get_of)
qed

end
