(* ===== verification/Join_Order.thy ===== *)
theory Join_Order
  imports Join_Costs Join_Hash
begin

text \<open>
  The order in which more than two entries are joined: the actors
  \<open>packages/actor-rdf-join-inner-multi-smallest\<close> and
  \<open>packages/actor-rdf-join-inner-multi-sequential\<close>, the sorting actors
  \<open>packages/actor-rdf-join-entries-sort-cardinality\<close> and
  \<open>packages/actor-rdf-join-entries-sort-selectivity\<close>, and the union of
  \<open>packages/actor-rdf-join-optional-optplus\<close>.

  \<open>Array.prototype.sort\<close> is a stable sort for comparators that are consistent; a comparator
  result that is \<open>NaN\<close> counts as zero.
\<close>

section \<open>Sorting entries\<close>

fun js_insert :: "('a \<Rightarrow> 'a \<Rightarrow> jsnum) \<Rightarrow> 'a \<Rightarrow> 'a list \<Rightarrow> 'a list" where
  "js_insert cmp x [] = [x]"
| "js_insert cmp x (y # ys) = (if num_lt (Num 0) (cmp x y) then y # js_insert cmp x ys else x # y # ys)"

definition js_sort :: "('a \<Rightarrow> 'a \<Rightarrow> jsnum) \<Rightarrow> 'a list \<Rightarrow> 'a list" where
  "js_sort cmp xs = foldr (js_insert cmp) xs []"

definition entry_card :: "('t, 'v, 'o) join_entry \<Rightarrow> jsnum" where
  "entry_card e = card_value (md_cardinality (je_metadata e))"

definition sort_cardinality_accuracy :: "('t, 'v, 'o) join_entry list \<Rightarrow> jsnum" where
  "sort_cardinality_accuracy es =
     (if length es = 0 then Num 1
      else num_div
        (foldl (\<lambda>sum e. num_add sum (if is_finite (entry_card e) then Num 1 else Num 0)) (Num 0) es)
        (Num (of_nat (length es))))"

definition sort_cardinality_run :: "('t, 'v, 'o) join_entry list \<Rightarrow> ('t, 'v, 'o) join_entry list" where
  "sort_cardinality_run es = js_sort (\<lambda>l r. num_sub (entry_card l) (entry_card r)) es"

text \<open>The greedy choice by selectivity: the index of the least selectivity below the greatest
  finite number, \<open>None\<close> for the index -1.\<close>

definition number_MAX_VALUE :: jsnum where
  "number_MAX_VALUE = Num (2 ^ 1024 - 2 ^ 971)"

fun least_selectivity ::
  "('e list \<Rightarrow> jsnum) \<Rightarrow> 'e list \<Rightarrow> 'e list \<Rightarrow> nat \<Rightarrow> jsnum \<times> nat option \<Rightarrow> jsnum \<times> nat option" where
  "least_selectivity selectivity final [] i acc = acc"
| "least_selectivity selectivity final (e # es) i acc =
     (let s = selectivity (e # final)
      in least_selectivity selectivity final es (Suc i)
           (if num_lt s (fst acc) then (s, Some i) else acc))"

text \<open>One round moves the chosen entry; without a choice \<open>undefined\<close> is pushed and the last
  entry is removed (\<open>splice(-1, 1)\<close>).\<close>

definition remove_index :: "nat \<Rightarrow> 'a list \<Rightarrow> 'a list" where
  "remove_index i xs = take i xs @ drop (Suc i) xs"

fun sort_selectivity_rounds ::
  "('e option list \<Rightarrow> jsnum) \<Rightarrow> nat \<Rightarrow> 'e option list \<Rightarrow> 'e option list \<Rightarrow> 'e option list" where
  "sort_selectivity_rounds selectivity 0 remaining final = final"
| "sort_selectivity_rounds selectivity (Suc n) remaining final =
     (if remaining = [] then final
      else (case snd (least_selectivity selectivity final remaining 0 (number_MAX_VALUE, None)) of
              Some i \<Rightarrow> sort_selectivity_rounds selectivity n (remove_index i remaining) (final @ [remaining ! i])
            | None \<Rightarrow> sort_selectivity_rounds selectivity n (butlast remaining) (final @ [None])))"

definition sort_selectivity_run :: "('e option list \<Rightarrow> jsnum) \<Rightarrow> 'e list \<Rightarrow> 'e option list" where
  "sort_selectivity_run selectivity es =
     sort_selectivity_rounds selectivity (length es) (map Some es) []"

section \<open>Joining several entries\<close>

definition hasCommonVariables :: "('t, 'v, 'o) join_entry \<Rightarrow> ('t, 'v, 'o) join_entry \<Rightarrow> bool" where
  "hasCommonVariables e1 e2 =
     list_ex (\<lambda>v. v \<in> set (map fst (md_variables (je_metadata e2))))
       (map fst (md_variables (je_metadata e1)))"

definition getJoinIndexes :: "('t, 'v, 'o) join_entry list \<Rightarrow> nat \<times> nat" where
  "getJoinIndexes es =
     (case find (\<lambda>(i, j). hasCommonVariables (es ! i) (es ! j))
             (concat (map (\<lambda>i. map (\<lambda>j. (i, j)) [Suc i..<length es]) [0..<length es])) of
        Some p \<Rightarrow> p
      | None \<Rightarrow> (0, 1))"

text \<open>\<open>mediatorJoin\<close> joins a list of entries to a list of bindings with metadata;
  \<open>createJoin\<close> is the algebra factory's.\<close>

type_synonym ('t, 'v, 'o) joiner =
  "('t, 'v, 'o) join_entry list \<Rightarrow> string + (('t, 'v) bindings list \<times> metadata)"

definition joined_entry ::
  "('o list \<Rightarrow> 'o) \<Rightarrow> ('t, 'v, 'o) join_entry \<Rightarrow> ('t, 'v, 'o) join_entry \<Rightarrow>
     ('t, 'v) bindings list \<times> metadata \<Rightarrow> ('t, 'v, 'o) join_entry" where
  "joined_entry createJoin e1 e2 out =
     \<lparr>je_type = ''bindings'', je_bindings = fst out, je_metadata = snd out,
      je_operation = createJoin [je_operation e1, je_operation e2],
      je_operationModified = False, je_operationRequired = False\<rparr>"

definition multi_smallest_output ::
  "('t, 'v, 'o) joiner \<Rightarrow> ('o list \<Rightarrow> 'o) \<Rightarrow> ('t, 'v, 'o) joiner" where
  "multi_smallest_output mediatorJoin createJoin sortedEntries =
     (case getJoinIndexes sortedEntries of (i, j) \<Rightarrow>
        let e1 = sortedEntries ! i; e2 = sortedEntries ! j;
            remaining = remove_index i (remove_index j sortedEntries)
        in bind_res (mediatorJoin [e1, e2]) (\<lambda>out.
             mediatorJoin (remaining @ [joined_entry createJoin e1 e2 out])))"

definition sequential_output ::
  "('t, 'v, 'o) joiner \<Rightarrow> ('o list \<Rightarrow> 'o) \<Rightarrow> ('t, 'v, 'o) joiner" where
  "sequential_output mediatorJoin createJoin es =
     bind_res (mediatorJoin [es ! 0, es ! 1]) (\<lambda>out.
       mediatorJoin (joined_entry createJoin (es ! 0) (es ! 1) out # drop 2 es))"

text \<open>The optional join by union: the left solutions, and the inner join (the union interleaves
  the two streams; the list is one after the other).\<close>

definition optplus_output ::
  "('t, 'v, 'o) joiner \<Rightarrow> ('t, 'v, 'o) join_entry list \<Rightarrow> string + ('t, 'v) bindings list" where
  "optplus_output mediatorJoin es =
     bind_res (mediatorJoin es) (\<lambda>out. Inr (je_bindings (es ! 0) @ fst out))"

text \<open>A join bus with the actors for none, one, two (nested loop) and more entries (the smallest
  two first, after sorting); \<open>result_metadata\<close> is the metadata of a result.\<close>

fun smallest_join ::
  "'v \<Rightarrow> ('v \<Rightarrow> bool) \<Rightarrow> (('t, 'v, 'o) join_entry list \<Rightarrow> string + ('t, 'v, 'o) join_entry list) \<Rightarrow>
     ('o list \<Rightarrow> 'o) \<Rightarrow> (metadata list \<Rightarrow> metadata) \<Rightarrow> nat \<Rightarrow> ('t, 'v, 'o) joiner" where
  "smallest_join u truthy sorter createJoin result_metadata 0 es = Inl ''fuel''"
| "smallest_join u truthy sorter createJoin result_metadata (Suc n) es =
     (case es of
        [] \<Rightarrow> Inr ([factory_bindings None []], result_metadata [])
      | [e] \<Rightarrow> Inr (je_bindings e, je_metadata e)
      | [e1, e2] \<Rightarrow>
          Inr (nested_loop_join u truthy (je_bindings e2) (je_bindings e1), result_metadata (getMetadatas es))
      | _ \<Rightarrow> bind_res (sorter es)
          (multi_smallest_output (smallest_join u truthy sorter createJoin result_metadata n) createJoin))"

section \<open>The algebra of solutions\<close>

type_synonym 't solutions = "(string \<rightharpoonup> 't) multiset"

definition sols :: "('t, 'v) bindings list \<Rightarrow> 't solutions" where
  "sols bs = image_mset b_get (mset bs)"

definition join_one :: "(string \<rightharpoonup> 't) \<Rightarrow> (string \<rightharpoonup> 't) \<Rightarrow> 't solutions" where
  "join_one f g = (if compatible f g then {#f ++ g#} else {#})"

definition join_sols :: "'t solutions \<Rightarrow> 't solutions \<Rightarrow> 't solutions" where
  "join_sols A B = (\<Sum>f \<in># A. \<Sum>g \<in># B. join_one f g)"

definition join_all :: "'t solutions list \<Rightarrow> 't solutions" where
  "join_all As = foldr join_sols As {#Map.empty#}"

lemma join_one_comm: "join_one f g = join_one g f"
  using compatible_add_comm compatible_sym unfolding join_one_def by metis

lemma sum_mset_commute:
  "(\<Sum>x \<in># A. \<Sum>y \<in># B. h x y) = (\<Sum>y \<in># B. \<Sum>x \<in># A. h x y)"
  by (rule sum_mset.swap)

lemma join_sols_comm: "join_sols A B = join_sols B A"
  unfolding join_sols_def
  by (subst sum_mset_commute) (simp add: join_one_comm)

lemma join_one_assoc:
  "(\<Sum>x \<in># join_one f g. join_one x h) = (\<Sum>x \<in># join_one g h. join_one f x)"
proof -
  have 1: "compatible f g \<Longrightarrow> compatible (f ++ g) h \<longleftrightarrow> compatible f h \<and> compatible g h"
    by (rule compatible_union)
  have 2: "compatible g h \<Longrightarrow> compatible f (g ++ h) \<longleftrightarrow> compatible f g \<and> compatible f h"
    using compatible_union [of g h f] compatible_sym by metis
  show ?thesis by (auto simp: join_one_def 1 2)
qed

lemma sum_mset_bind: "(\<Sum>x \<in># (\<Sum>a \<in># A. F a). G x) = (\<Sum>a \<in># A. \<Sum>x \<in># F a. G x)"
  by (induction A) auto

lemma join_sols_assoc: "join_sols (join_sols A B) C = join_sols A (join_sols B C)"
proof -
  have "join_sols (join_sols A B) C =
      (\<Sum>f \<in># A. \<Sum>g \<in># B. \<Sum>x \<in># join_one f g. \<Sum>h \<in># C. join_one x h)"
    by (simp add: join_sols_def sum_mset_bind)
  also have "\<dots> = (\<Sum>f \<in># A. \<Sum>g \<in># B. \<Sum>h \<in># C. \<Sum>x \<in># join_one f g. join_one x h)"
    by (simp add: sum_mset_commute [of _ C])
  also have "\<dots> = (\<Sum>f \<in># A. \<Sum>g \<in># B. \<Sum>h \<in># C. \<Sum>x \<in># join_one g h. join_one f x)"
    by (simp add: join_one_assoc)
  also have "\<dots> = join_sols A (join_sols B C)"
    by (simp add: join_sols_def sum_mset_bind)
  finally show ?thesis .
qed

lemma join_sols_left_comm: "join_sols A (join_sols B C) = join_sols B (join_sols A C)"
  by (metis join_sols_assoc join_sols_comm)

lemma join_sols_empty [simp]: "join_sols A {#Map.empty#} = A"
  by (induction A) (simp_all add: join_sols_def join_one_def compatible_def)

lemma join_all_append: "join_all (As @ Bs) = join_sols (join_all As) (join_all Bs)"
  by (induction As) (simp_all add: join_all_def join_sols_assoc join_sols_comm [of "{#Map.empty#}"])

lemma join_all_remove:
  "A \<in> set As \<Longrightarrow> join_all As = join_sols A (join_all (remove1 A As))"
proof (induction As)
  case Nil
  then show ?case by simp
next
  case (Cons B As)
  then show ?case by (cases "A = B") (auto simp: join_all_def join_sols_left_comm)
qed

lemma join_all_perm: "mset As = mset Bs \<Longrightarrow> join_all As = join_all Bs"
proof (induction As arbitrary: Bs)
  case Nil
  then show ?case by simp
next
  case (Cons A As)
  then have "A \<in> set Bs" by (metis list.set_intros(1) mset_eq_setD)
  moreover from Cons.prems have "mset As = mset (remove1 A Bs)" by (simp flip: Cons.prems)
  then have "join_all As = join_all (remove1 A Bs)" by (rule Cons.IH)
  ultimately show ?case using join_all_remove [of A Bs] by (simp add: join_all_def)
qed

section \<open>The joins compute the join of all entries\<close>

definition wf_entry :: "('t, 'v, 'o) join_entry \<Rightarrow> bool" where
  "wf_entry e \<longleftrightarrow> list_all wf_bindings (je_bindings e)"

definition entry_sols :: "('t, 'v, 'o) join_entry \<Rightarrow> 't solutions" where
  "entry_sols e = sols (je_bindings e)"

lemma sols_map_filter:
  assumes "wf_bindings l" and "list_all wf_bindings rs"
  shows "sols (List.map_filter (\<lambda>r. joinBindings u truthy [l, r]) rs) =
      (\<Sum>g \<in># sols rs. join_one (b_get l) g) \<and>
    list_all wf_bindings (List.map_filter (\<lambda>r. joinBindings u truthy [l, r]) rs)"
  using assms(2)
proof (induction rs)
  case Nil
  then show ?case by (simp add: sols_def List.map_filter_def)
next
  case (Cons r rs)
  then have "wf_bindings r" by simp
  with b_merge_spec [OF assms(1) this, of u truthy] Cons show ?case
    by (auto simp: sols_def List.map_filter_def join_one_def split: option.splits)
qed

lemma sols_nested_loop:
  assumes "list_all wf_bindings ls" and "list_all wf_bindings rs"
  shows "sols (nested_loop_join u truthy rs ls) = join_sols (sols ls) (sols rs) \<and>
    list_all wf_bindings (nested_loop_join u truthy rs ls)"
  using assms(1)
proof (induction ls)
  case Nil
  then show ?case by (simp add: nested_loop_join_def sols_def join_sols_def)
next
  case (Cons l ls)
  have split: "nested_loop_join u truthy rs (l # ls) =
      List.map_filter (\<lambda>r. joinBindings u truthy [l, r]) rs @ nested_loop_join u truthy rs ls"
    by (simp add: nested_loop_join_def)
  have app: "sols (xs @ ys) = sols xs + sols ys" for xs ys :: "('a, 'b) bindings list"
    by (simp add: sols_def)
  have cons: "sols (l # ls) = add_mset (b_get l) (sols ls)" by (simp add: sols_def)
  from Cons have l: "wf_bindings l" and IH:
    "sols (nested_loop_join u truthy rs ls) = join_sols (sols ls) (sols rs)"
    "list_all wf_bindings (nested_loop_join u truthy rs ls)" by auto
  from sols_map_filter [OF l assms(2), of u truthy] IH show ?case
    unfolding split app cons by (simp add: join_sols_def)
qed

lemma mset_remove_index:
  "i < length xs \<Longrightarrow> mset xs = add_mset (xs ! i) (mset (remove_index i xs))"
proof -
  assume "i < length xs"
  then have "mset xs = mset (take i xs @ xs ! i # drop (Suc i) xs)" by (simp flip: id_take_nth_drop)
  then show ?thesis by (simp add: remove_index_def)
qed

lemma nth_remove_index: "i < j \<Longrightarrow> j < length xs \<Longrightarrow> remove_index j xs ! i = xs ! i"
  by (simp add: remove_index_def nth_append)

lemma length_remove_index: "i < length xs \<Longrightarrow> length (remove_index i xs) = length xs - 1"
  by (simp add: remove_index_def)

lemma getJoinIndexes_bounds:
  assumes "2 \<le> length es" and "getJoinIndexes es = (i, j)"
  shows "i < j \<and> j < length es"
proof -
  let ?ps = "concat (map (\<lambda>i. map (\<lambda>j. (i, j)) [Suc i..<length es]) [0..<length es])"
  have mem: "(a, b) \<in> set ?ps \<Longrightarrow> a < b \<and> b < length es" for a b by auto
  show ?thesis
  proof (cases "find (\<lambda>(i, j). hasCommonVariables (es ! i) (es ! j)) ?ps")
    case None
    with assms show ?thesis by (auto simp: getJoinIndexes_def)
  next
    case (Some p)
    with assms(2) have "p = (i, j)" by (simp add: getJoinIndexes_def)
    with find_Some_mem [OF Some] have "(i, j) \<in> set ?ps" by simp
    then show ?thesis by (rule mem)
  qed
qed

lemma remove_two:
  assumes "i < j" and "j < length xs"
  shows "mset xs = {#xs ! i, xs ! j#} + mset (remove_index i (remove_index j xs)) \<and>
    length (remove_index i (remove_index j xs)) = length xs - 2"
  using assms mset_remove_index [of j xs] mset_remove_index [of i "remove_index j xs"]
    nth_remove_index [of i j xs] length_remove_index [of j xs] length_remove_index [of i "remove_index j xs"]
  by simp

text \<open>What a joiner of entries is expected to return.\<close>

definition joins :: "('t, 'v, 'o) joiner \<Rightarrow> ('t, 'v, 'o) join_entry list \<Rightarrow> bool" where
  "joins J es \<longleftrightarrow> (\<exists>bs md. J es = Inr (bs, md) \<and> list_all wf_bindings bs \<and>
     sols bs = join_all (map entry_sols es))"

lemma joined_entry_sols:
  assumes "joins J [e1, e2]"
  obtains out where "J [e1, e2] = Inr out" and "wf_entry (joined_entry createJoin e1 e2 out)"
    and "entry_sols (joined_entry createJoin e1 e2 out) = join_sols (entry_sols e1) (entry_sols e2)"
  using assms that
  by (force simp: joins_def wf_entry_def entry_sols_def joined_entry_def join_all_def)

lemma multi_smallest_joins:
  assumes "2 \<le> length es" and "list_all wf_entry es"
    and "\<And>e1 e2. e1 \<in> set es \<Longrightarrow> e2 \<in> set es \<Longrightarrow> joins J [e1, e2]"
    and "\<And>fs. length fs < length es \<Longrightarrow> list_all wf_entry fs \<Longrightarrow> joins J fs"
  shows "joins (multi_smallest_output J createJoin) es"
proof -
  obtain i j where ij: "getJoinIndexes es = (i, j)" by fastforce
  from getJoinIndexes_bounds [OF assms(1) ij] have lt: "i < j" "j < length es" by auto
  let ?rest = "remove_index i (remove_index j es)"
  from remove_two [OF lt] have perm: "mset es = {#es ! i, es ! j#} + mset ?rest"
    and len: "length ?rest = length es - 2" by auto
  have "joins J [es ! i, es ! j]" using assms(3) lt by (simp add: nth_mem)
  then obtain out where out: "J [es ! i, es ! j] = Inr out"
    "wf_entry (joined_entry createJoin (es ! i) (es ! j) out)"
    "entry_sols (joined_entry createJoin (es ! i) (es ! j) out) = join_sols (entry_sols (es ! i)) (entry_sols (es ! j))"
    by (rule joined_entry_sols [where createJoin = createJoin])
  let ?fs = "?rest @ [joined_entry createJoin (es ! i) (es ! j) out]"
  have "set ?rest \<subseteq> set es" using perm by (metis set_mset_mset set_mset_union Un_upper2)
  with assms(2) out(2) have "list_all wf_entry ?fs" by (auto simp: list_all_iff)
  moreover have "length ?fs < length es" using len lt by simp
  ultimately have "joins J ?fs" by (rule assms(4) [rotated])
  moreover have "multi_smallest_output J createJoin es = J ?fs"
    using ij out(1) by (simp add: multi_smallest_output_def Let_def)
  moreover have "join_all (map entry_sols ?fs) = join_all (map entry_sols es)"
  proof -
    have "join_all (map entry_sols es) = join_all (map entry_sols (es ! i # es ! j # ?rest))"
      by (rule join_all_perm) (simp add: perm)
    also have "\<dots> = join_sols (join_sols (entry_sols (es ! i)) (entry_sols (es ! j))) (join_all (map entry_sols ?rest))"
      by (simp add: join_all_def join_sols_assoc)
    also have "\<dots> = join_all (map entry_sols ?fs)"
      using out(3) by (simp add: join_all_append join_sols_comm) (simp add: join_all_def)
    finally show ?thesis by simp
  qed
  ultimately show ?thesis by (simp add: joins_def)
qed

lemma sequential_joins:
  assumes "2 \<le> length es" and "joins J [es ! 0, es ! 1]"
    and "\<And>e. wf_entry e \<Longrightarrow> joins J (e # drop 2 es)"
  shows "joins (sequential_output J createJoin) es"
proof -
  from assms(2) obtain out where out: "J [es ! 0, es ! 1] = Inr out"
    "wf_entry (joined_entry createJoin (es ! 0) (es ! 1) out)"
    "entry_sols (joined_entry createJoin (es ! 0) (es ! 1) out) = join_sols (entry_sols (es ! 0)) (entry_sols (es ! 1))"
    by (rule joined_entry_sols [where createJoin = createJoin])
  let ?fs = "joined_entry createJoin (es ! 0) (es ! 1) out # drop 2 es"
  have "es = es ! 0 # es ! 1 # drop 2 es"
    using assms(1) by (metis Cons_nth_drop_Suc One_nat_def Suc_1 drop0 less_2_cases_iff less_le_trans not_less_eq_eq zero_less_numeral le_less_trans lessI)
  then have "join_all (map entry_sols es) = join_all (map entry_sols (es ! 0 # es ! 1 # drop 2 es))" by simp
  also have "\<dots> = join_all (map entry_sols ?fs)"
    using out(3) by (simp add: join_all_def join_sols_assoc)
  finally show ?thesis
    using assms(3) [OF out(2)] out(1) by (simp add: joins_def sequential_output_def)
qed

lemma smallest_join_joins:
  assumes "\<And>xs :: ('t, 'v, 'o) join_entry list. \<exists>ys. sorter xs = Inr ys \<and> mset ys = mset xs"
    and "length es < n" and "list_all wf_entry es"
  shows "joins (smallest_join u truthy sorter createJoin result_metadata n) es"
  using assms(2,3)
proof (induction n arbitrary: es)
  case 0
  then show ?case by simp
next
  case (Suc n)
  let ?J = "smallest_join u truthy sorter createJoin result_metadata n"
  consider "es = []" | e where "es = [e]" | e1 e2 where "es = [e1, e2]"
    | e1 e2 e3 rest where "es = e1 # e2 # e3 # rest"
    by (metis list.exhaust)
  then show ?case
  proof cases
    case 1
    then show ?thesis
      by (simp add: joins_def sols_def join_all_def factory_bindings_def wf_bindings_def b_get_def [abs_def])
  next
    case 2
    with Suc.prems show ?thesis
      by (simp add: joins_def join_all_def entry_sols_def wf_entry_def)
  next
    case 3
    with Suc.prems sols_nested_loop [of "je_bindings e1" "je_bindings e2" u truthy] show ?thesis
      by (simp add: joins_def join_all_def entry_sols_def wf_entry_def)
  next
    case 4
    obtain ys where ys: "sorter es = Inr ys" "mset ys = mset es" using assms(1) by blast
    have len: "length ys = length es" "3 \<le> length ys" using ys(2) 4 mset_eq_length by fastforce+
    have wf: "list_all wf_entry ys" using ys(2) Suc.prems(2) by (metis list_all_iff mset_eq_setD)
    have pair: "joins ?J [e1, e2]" if "e1 \<in> set ys" "e2 \<in> set ys" for e1 e2
      by (rule Suc.IH) (use that wf len Suc.prems(1) in \<open>auto simp: list_all_iff\<close>)
    have fewer: "joins ?J fs" if "length fs < length ys" "list_all wf_entry fs" for fs
      by (rule Suc.IH) (use that len Suc.prems(1) in auto)
    have "joins (multi_smallest_output ?J createJoin) ys"
      by (rule multi_smallest_joins) (use len wf pair fewer in auto)
    moreover have "smallest_join u truthy sorter createJoin result_metadata (Suc n) es =
        multi_smallest_output ?J createJoin ys"
      using 4 ys(1) by simp
    moreover have "join_all (map entry_sols ys) = join_all (map entry_sols es)"
      by (rule join_all_perm) (simp add: ys(2))
    ultimately show ?thesis by (simp add: joins_def)
  qed
qed

section \<open>The sorting actors\<close>

lemma sub_positive_iff:
  "x \<noteq> NaN \<Longrightarrow> y \<noteq> NaN \<Longrightarrow> num_lt (Num 0) (num_sub x y) \<longleftrightarrow> num_lt y x"
  by (cases x; cases y) (auto simp: num_sub_def)

lemma mset_js_insert [simp]: "mset (js_insert cmp x xs) = add_mset x (mset xs)"
  by (induction xs) auto

lemma mset_js_sort [simp]: "mset (js_sort cmp xs) = mset xs"
  unfolding js_sort_def by (induction xs) auto

lemma js_insert_ordered:
  assumes "\<And>a b. a \<in> insert x (set ys) \<Longrightarrow> b \<in> insert x (set ys) \<Longrightarrow> num_lt (Num 0) (cmp a b) \<longleftrightarrow> num_lt (f b) (f a)"
    and "\<forall>a \<in> insert x (set ys). f a \<noteq> NaN" and "sorted_wrt (\<lambda>a b. num_le (f a) (f b)) ys"
  shows "sorted_wrt (\<lambda>a b. num_le (f a) (f b)) (js_insert cmp x ys)"
  using assms
proof (induction ys)
  case Nil
  then show ?case by simp
next
  case (Cons y ys)
  have set_insert: "set (js_insert cmp x ys) = insert x (set ys)"
    by (metis mset_js_insert set_mset_add_mset_insert set_mset_mset)
  show ?case
  proof (cases "num_lt (Num 0) (cmp x y)")
    case True
    then have "num_le (f y) (f x)"
      using Cons.prems(1) [of x y] Cons.prems(2) num_lt_trans [of "f x" "f y" "f x"]
      by (auto simp: num_le_def)
    with True Cons set_insert show ?thesis by auto
  next
    case False
    then have "num_le (f x) (f y)" using Cons.prems(1) [of x y] Cons.prems(2) by (auto simp: num_le_def)
    with False Cons.prems(3) show ?thesis by (auto intro: num_le_trans)
  qed
qed

lemma js_sort_ordered:
  assumes "\<And>a b. a \<in> set xs \<Longrightarrow> b \<in> set xs \<Longrightarrow> num_lt (Num 0) (cmp a b) \<longleftrightarrow> num_lt (f b) (f a)"
    and "\<forall>a \<in> set xs. f a \<noteq> NaN"
  shows "sorted_wrt (\<lambda>a b. num_le (f a) (f b)) (js_sort cmp xs)"
  using assms
proof (induction xs)
  case Nil
  then show ?case by (simp add: js_sort_def)
next
  case (Cons x xs)
  have s: "set (js_sort cmp xs) = set xs" by (metis mset_js_sort set_mset_mset)
  have "sorted_wrt (\<lambda>a b. num_le (f a) (f b)) (js_insert cmp x (js_sort cmp xs))"
    by (rule js_insert_ordered) (use Cons s in auto)
  then show ?case by (simp add: js_sort_def)
qed

lemma least_selectivity_bound:
  "snd acc = None \<or> (\<exists>k. snd acc = Some k \<and> k < i) \<Longrightarrow>
   case snd (least_selectivity selectivity final es i acc) of
     None \<Rightarrow> snd acc = None \<and> (\<forall>e \<in> set es. \<not> num_lt (selectivity (e # final)) (fst acc))
   | Some k \<Rightarrow> k < i + length es"
proof (induction es arbitrary: i acc)
  case Nil
  then show ?case by (auto split: option.splits)
next
  case (Cons e es)
  show ?case
  proof (cases "num_lt (selectivity (e # final)) (fst acc)")
    case True
    with Cons.IH [of "(selectivity (e # final), Some i)" "Suc i"] show ?thesis
      by (auto simp: Let_def split: option.splits)
  next
    case False
    from Cons.prems have "snd acc = None \<or> (\<exists>k. snd acc = Some k \<and> k < Suc i)" by auto
    from Cons.IH [OF this] False show ?thesis by (auto simp: Let_def split: option.splits)
  qed
qed

lemma sort_selectivity_perm:
  assumes "\<And>es. num_lt (selectivity es) number_MAX_VALUE" and "length remaining \<le> n"
  shows "mset (sort_selectivity_rounds selectivity n remaining final) = mset final + mset remaining"
  using assms(2)
proof (induction n arbitrary: remaining final)
  case 0
  then show ?case by simp
next
  case (Suc n)
  show ?case
  proof (cases "remaining = []")
    case True
    then show ?thesis by simp
  next
    case False
    let ?k = "snd (least_selectivity selectivity final remaining 0 (number_MAX_VALUE, None))"
    from least_selectivity_bound [where acc = "(number_MAX_VALUE, None)" and i = 0 and
        selectivity = selectivity and final = final and es = remaining] assms(1) False
    obtain k where k: "?k = Some k" "k < length remaining"
      by (cases ?k) (auto simp: neq_Nil_conv)
    have "length (remove_index k remaining) \<le> n"
      using length_remove_index [OF k(2)] Suc.prems by simp
    from Suc.IH [OF this, of "final @ [remaining ! k]"] mset_remove_index [OF k(2)] k(1) False
    show ?thesis by simp
  qed
qed

end
