(* ===== verification/RDF_Terms.thy ===== *)
theory RDF_Terms
  imports Prelude
begin

text \<open>
  RDF terms as the interface \<open>@rdfjs/types\<close> defines them: the data model that the repository
  programs against.  The method \<open>equals\<close> is documented as equality of the terms' values,
  which is equality here.  A literal holds its value, language tag, datatype IRI and base direction.
\<close>

datatype rdf_term =
    NamedNode string
  | BlankNode string
  | Literal string string string string
  | Variable string
  | DefaultGraph
  | Quad rdf_term rdf_term rdf_term rdf_term

fun is_variable :: "rdf_term \<Rightarrow> bool" where
  "is_variable (Variable v) = True"
| "is_variable t = False"

fun term_value :: "rdf_term \<Rightarrow> string" where
  "term_value (NamedNode v) = v"
| "term_value (BlankNode v) = v"
| "term_value (Literal v l d b) = v"
| "term_value (Variable v) = v"
| "term_value DefaultGraph = []"
| "term_value (Quad s p ob g) = []"

fun termType :: "rdf_term \<Rightarrow> string" where
  "termType (NamedNode v) = ''NamedNode''"
| "termType (BlankNode v) = ''BlankNode''"
| "termType (Literal v l d b) = ''Literal''"
| "termType (Variable v) = ''Variable''"
| "termType DefaultGraph = ''DefaultGraph''"
| "termType (Quad s p ob g) = ''Quad''"

definition xsd :: string where
  "xsd = ''http://www.w3.org/2001/XMLSchema#''"

fun term_vars :: "rdf_term \<Rightarrow> string set" where
  "term_vars (Variable v) = {v}"
| "term_vars (Quad s p ob g) = term_vars s \<union> term_vars p \<union> term_vars ob \<union> term_vars g"
| "term_vars t = {}"

fun term_variables :: "rdf_term \<Rightarrow> string list" where
  "term_variables (Variable v) = [v]"
| "term_variables (Quad s p ob g) =
     term_variables s @ term_variables p @ term_variables ob @ term_variables g"
| "term_variables t = []"

lemma set_term_variables [simp]: "set (term_variables t) = term_vars t"
  by (induction t) auto

end
