(* ===== verification/Algebra.thy ===== *)
theory Algebra
  imports Join_Order RDF_Terms
begin

text \<open>
  The SPARQL algebra that the optimizers work on (\<open>packages/utils-algebra/lib/Algebra.ts\<close>,
  whose types are those of the package traqula), helpers of \<open>packages/utils-query-operation\<close>
  on it, and the SPARQL semantics against which rewrites are checked.

  Operations that the code modelled here does not tell apart (\<open>Op_other\<close>) hold their type's name,
  their inputs, and the rest of their content as a value of a type \<open>'x\<close>, which is also the type
  of the predicates of paths.  A variable is its name.  The metadata of a pattern, a path or another
  operation is the query source assigned to it, a number.
\<close>

section \<open>Operations and expressions\<close>

datatype 'q expression =
    E_term rdf_term
  | E_operator string "'q expression list"
  | E_named string "'q expression list"
  | E_existence bool 'q
  | E_aggregate string "'q expression"
  | E_wildcard

datatype 'x operation =
    Op_extend "'x operation" string "'x operation expression"
  | Op_filter "'x operation" "'x operation expression"
  | Op_join "'x operation list"
  | Op_nop
  | Op_project "'x operation" "string list"
  | Op_union "'x operation list"
  | Op_values "string list" "(string, rdf_term) jsmap list"
  | Op_leftjoin "'x operation" "'x operation" "'x operation expression option"
  | Op_pattern "nat option" rdf_term rdf_term rdf_term rdf_term
  | Op_path "nat option" rdf_term 'x rdf_term rdf_term
  | Op_bgp "'x operation list"
  | Op_other string "nat option" "'x operation list" 'x

type_synonym 'x expr = "'x operation expression"

definition getOperationSource :: "'x operation \<Rightarrow> nat option" where
  "getOperationSource q =
     (case q of Op_pattern src s p ob g \<Rightarrow> src | Op_path src s p ob g \<Rightarrow> src
      | Op_other ty src inputs x \<Rightarrow> src
      | _ \<Rightarrow> None)"

text \<open>\<open>getExpressionVariables\<close>: \<open>None\<close> for the error of unsupported expressions;
  \<open>inScopeVariables\<close> is the argument \<open>scope\<close>.  \<open>uniqTerms\<close> keeps first occurrences.\<close>

fun uniq_terms :: "'a list \<Rightarrow> 'a list" where
  "uniq_terms [] = []"
| "uniq_terms (x # xs) = x # filter (\<lambda>y. y \<noteq> x) (uniq_terms xs)"

fun getExpressionVariables :: "('q \<Rightarrow> string list) \<Rightarrow> 'q expression \<Rightarrow> string list option" where
  "getExpressionVariables scope (E_existence neg q) = Some (scope q)"
| "getExpressionVariables scope (E_named name args) = Some []"
| "getExpressionVariables scope (E_operator op_name args) =
     (let rs = map (getExpressionVariables scope) args
      in if None \<in> set rs then None else Some (uniq_terms (concat (map the rs))))"
| "getExpressionVariables scope (E_term t) =
     (case t of Variable v \<Rightarrow> Some [v] | _ \<Rightarrow> Some [])"
| "getExpressionVariables scope (E_aggregate name e) = None"
| "getExpressionVariables scope E_wildcard = None"

lemma set_uniq_terms [simp]: "set (uniq_terms xs) = set xs"
  by (induction xs) auto

section \<open>Semantics\<close>

text \<open>
  A semantics of the parts that are not fixed by the algebra itself: the solutions of patterns,
  paths and other operations, whether an expression holds for a solution (is true and raises no
  error), and the value of an expression in \<open>BIND\<close>.
\<close>

record 'x semantics =
  sem_base :: "'x operation \<Rightarrow> rdf_term solutions"
  sem_holds :: "'x expr \<Rightarrow> (string \<rightharpoonup> rdf_term) \<Rightarrow> bool"
  sem_value :: "'x expr \<Rightarrow> (string \<rightharpoonup> rdf_term) \<Rightarrow> rdf_term option"

definition left_join_one ::
  "((string \<rightharpoonup> rdf_term) \<Rightarrow> bool) \<Rightarrow> rdf_term solutions \<Rightarrow> (string \<rightharpoonup> rdf_term) \<Rightarrow> rdf_term solutions" where
  "left_join_one cond B f =
     (let js = filter_mset cond (\<Sum>g \<in># B. join_one f g) in if js = {#} then {#f#} else js)"

fun eval :: "'x semantics \<Rightarrow> 'x operation \<Rightarrow> rdf_term solutions" where
  "eval sem (Op_extend q v e) =
     image_mset (\<lambda>f. case sem_value sem e f of None \<Rightarrow> f | Some t \<Rightarrow> f(v \<mapsto> t)) (eval sem q)"
| "eval sem (Op_filter q e) = filter_mset (sem_holds sem e) (eval sem q)"
| "eval sem (Op_join qs) = join_all (map (eval sem) qs)"
| "eval sem Op_nop = {#Map.empty#}"
| "eval sem (Op_project q vs) = image_mset (\<lambda>f. f |` set vs) (eval sem q)"
| "eval sem (Op_union qs) = sum_list (map (eval sem) qs)"
| "eval sem (Op_values vs rows) = mset (map map_of rows)"
| "eval sem (Op_leftjoin q r e) =
     (\<Sum>f \<in># eval sem q.
        left_join_one (\<lambda>f. case e of None \<Rightarrow> True | Some c \<Rightarrow> sem_holds sem c f) (eval sem r) f)"
| "eval sem (Op_pattern src s p ob g) = sem_base sem (Op_pattern src s p ob g)"
| "eval sem (Op_path src s p ob g) = sem_base sem (Op_path src s p ob g)"
| "eval sem (Op_bgp ps) = join_all (map (eval sem) ps)"
| "eval sem (Op_other ty src inputs x) = sem_base sem (Op_other ty src inputs x)"

text \<open>An expression depends only on the variables \<open>V\<close>.\<close>

definition depends_on :: "((string \<rightharpoonup> rdf_term) \<Rightarrow> bool) \<Rightarrow> string set \<Rightarrow> bool" where
  "depends_on P V \<longleftrightarrow> (\<forall>f g. f |` V = g |` V \<longrightarrow> P f = P g)"

lemma depends_onD: "depends_on P V \<Longrightarrow> (\<And>v. v \<in> V \<Longrightarrow> f v = g v) \<Longrightarrow> P f = P g"
proof -
  assume "depends_on P V" and "\<And>v. v \<in> V \<Longrightarrow> f v = g v"
  then have "f |` V = g |` V" by (intro ext) (simp add: restrict_map_def)
  with \<open>depends_on P V\<close> show ?thesis unfolding depends_on_def by blast
qed

lemma depends_onI:
  assumes "\<And>f g. (\<And>v. v \<in> V \<Longrightarrow> f v = g v) \<Longrightarrow> P f = P g" shows "depends_on P V"
  unfolding depends_on_def
proof (intro allI impI)
  fix f g :: "string \<rightharpoonup> rdf_term" assume "f |` V = g |` V"
  then have "(f |` V) v = (g |` V) v" for v by simp
  then show "P f = P g" by (intro assms) (metis restrict_in)
qed

lemma filter_mset_none: "(\<And>x. x \<in># M \<Longrightarrow> \<not> P x) \<Longrightarrow> filter_mset P M = {#}"
  by (induction M) auto

lemma filter_mset_every: "(\<And>x. x \<in># M \<Longrightarrow> P x) \<Longrightarrow> filter_mset P M = M"
  by (induction M) auto

text \<open>The variables that no solution, and those that every solution binds.\<close>

definition unbound_in :: "string set \<Rightarrow> rdf_term solutions \<Rightarrow> bool" where
  "unbound_in V A \<longleftrightarrow> (\<forall>f \<in># A. \<forall>v \<in> V. f v = None)"

definition bound_in :: "string set \<Rightarrow> rdf_term solutions \<Rightarrow> bool" where
  "bound_in V A \<longleftrightarrow> (\<forall>f \<in># A. \<forall>v \<in> V. f v \<noteq> None)"

lemma unbound_inD: "unbound_in V A \<Longrightarrow> f \<in># A \<Longrightarrow> v \<in> V \<Longrightarrow> f v = None"
  by (simp add: unbound_in_def)

section \<open>Filters and joins\<close>

lemma join_sols_no_right [simp]: "join_sols A {#} = {#}"
  by (simp add: join_sols_def)

lemma join_sols_no_left [simp]: "join_sols {#} A = {#}"
  by (simp add: join_sols_def)

lemma join_sols_empty_left [simp]: "join_sols {#Map.empty#} A = A"
  using join_sols_empty [of A] by (simp only: join_sols_comm)

lemma join_sols_mem:
  "h \<in># join_sols A B \<longleftrightarrow> (\<exists>f g. f \<in># A \<and> g \<in># B \<and> compatible f g \<and> h = f ++ g)"
  by (auto simp: join_sols_def join_one_def split: if_splits)

lemma filter_join_left:
  assumes "depends_on P V" and "\<And>f g v. f \<in># A \<Longrightarrow> g \<in># B \<Longrightarrow> compatible f g \<Longrightarrow> v \<in> V \<Longrightarrow> (f ++ g) v = f v"
  shows "filter_mset P (join_sols A B) = join_sols (filter_mset P A) B"
proof -
  have one: "filter_mset P (\<Sum>g \<in># B. join_one f g) = (if P f then (\<Sum>g \<in># B. join_one f g) else {#})"
    if "f \<in># A" for f
  proof -
    have keep: "P h = P f" if "g \<in># B" "h \<in># join_one f g" for g h
    proof -
      from that(2) have "compatible f g" and h: "h = f ++ g"
        by (simp_all add: join_one_def split: if_splits)
      show ?thesis unfolding h
        by (rule depends_onD [OF assms(1)]) (rule assms(2) [OF \<open>f \<in># A\<close> that(1) \<open>compatible f g\<close>])
    qed
    show ?thesis
    proof (cases "P f")
      case True
      then show ?thesis by (auto intro!: filter_mset_every dest: keep)
    next
      case False
      then show ?thesis by (auto intro!: filter_mset_none dest: keep)
    qed
  qed
  have "filter_mset P (join_sols A' B) = join_sols (filter_mset P A') B"
    if "set_mset A' \<subseteq> set_mset A" for A'
    using that
  proof (induction A')
    case empty
    then show ?case by (simp add: join_sols_def)
  next
    case (add f A')
    then show ?case using one [of f] by (simp add: join_sols_def)
  qed
  then show ?thesis by blast
qed

lemma filter_join_unbound:
  "depends_on P V \<Longrightarrow> unbound_in V B \<Longrightarrow>
     filter_mset P (join_sols A B) = join_sols (filter_mset P A) B"
  by (rule filter_join_left) (auto simp: unbound_in_def map_add_def)

lemma filter_join_bound:
  assumes "depends_on P V" and "bound_in V A"
  shows "filter_mset P (join_sols A B) = join_sols (filter_mset P A) B"
proof (rule filter_join_left [OF assms(1)])
  fix f g v assume "f \<in># A" "g \<in># B" "compatible f g" "v \<in> V"
  with assms(2) obtain x where "f v = Some x" by (auto simp: bound_in_def)
  with \<open>compatible f g\<close> show "(f ++ g) v = f v"
    by (cases "g v") (auto simp: compatible_def map_add_def)
qed

end
