(* ===== verification/Order_By.thy ===== *)
theory Order_By
  imports Algebra
begin

text \<open>
  \<open>ORDER BY\<close> (\<open>packages/actor-query-operation-orderby/lib\<close>): the sort iterator, which inserts each item that it
  reads into a sorted window by binary search, and the actor, which sorts by each expression in turn, the last
  expression first.

  An iterator reads what its source has available and returns; the arrival of items and the calls of
  \<open>_read\<close> are events in any order, and \<open>_flush\<close> follows the last.  A comparator gives an integer.
\<close>

section \<open>The sort iterator\<close>

type_synonym 'a comparator = "'a \<Rightarrow> 'a \<Rightarrow> int"

function bin_search :: "'a comparator \<Rightarrow> 'a \<Rightarrow> 'a list \<Rightarrow> int \<Rightarrow> int \<Rightarrow> int" where
  "bin_search cmp item items left right =
     (if left \<le> right then
        (let mid = (left + right) div 2; order = cmp item (items ! nat mid)
         in if order < 0 then bin_search cmp item items (mid + 1) right
            else if order > 0 then bin_search cmp item items left (mid - 1)
            else mid)
      else left)"
  by pat_completeness auto
termination
  by (relation "measure (\<lambda>(cmp, item, items, l, r). nat (r - l + 1))") auto

declare bin_search.simps [simp del]

definition insert_item :: "'a comparator \<Rightarrow> 'a \<Rightarrow> 'a list \<Rightarrow> 'a list" where
  "insert_item cmp item items =
     (let left = nat (bin_search cmp item items 0 (int (length items) - 1))
      in take left items @ item # drop left items)"

text \<open>The length of the window, \<open>None\<close> if it is infinite.\<close>

definition windowLength :: "nat option \<Rightarrow> nat option" where
  "windowLength window = (case window of Some n \<Rightarrow> if n > 0 then Some n else None | None \<Rightarrow> None)"

fun fill_window :: "'a comparator \<Rightarrow> nat option \<Rightarrow> 'a list \<Rightarrow> 'a list \<Rightarrow> 'a list \<times> 'a list" where
  "fill_window cmp w items [] = (items, [])"
| "fill_window cmp w items (item # source) =
     (if w = Some (length items) then (items, item # source)
      else fill_window cmp w (insert_item cmp item items) source)"

record 'a sort_state =
  source_items :: "'a list"
  sorted_items :: "'a list"
  pushed :: "'a list"

definition new_sort :: "'a sort_state" where
  "new_sort = \<lparr>source_items = [], sorted_items = [], pushed = []\<rparr>"

definition sort_read :: "'a comparator \<Rightarrow> nat option \<Rightarrow> 'a sort_state \<Rightarrow> 'a sort_state" where
  "sort_read cmp w st =
     (let (items, source) = fill_window cmp w (sorted_items st) (source_items st)
      in if w = Some (length items)
         then st\<lparr>source_items := source, sorted_items := butlast items, pushed := pushed st @ [last items]\<rparr>
         else st\<lparr>source_items := source, sorted_items := items\<rparr>)"

definition sort_flush :: "'a sort_state \<Rightarrow> 'a sort_state" where
  "sort_flush st = st\<lparr>sorted_items := [], pushed := pushed st @ rev (sorted_items st)\<rparr>"

datatype 'a sort_event = Arrive "'a list" | Read

fun sort_step :: "'a comparator \<Rightarrow> nat option \<Rightarrow> 'a sort_event \<Rightarrow> 'a sort_state \<Rightarrow> 'a sort_state" where
  "sort_step cmp w (Arrive xs) st = st\<lparr>source_items := source_items st @ xs\<rparr>"
| "sort_step cmp w Read st = sort_read cmp w st"

definition sort_events :: "'a comparator \<Rightarrow> nat option \<Rightarrow> 'a sort_event list \<Rightarrow> 'a sort_state" where
  "sort_events cmp w es = fold (sort_step cmp w) es new_sort"

text \<open>The items of the events, all read when the source ends.\<close>

fun arrived :: "'a sort_event list \<Rightarrow> 'a list" where
  "arrived [] = []"
| "arrived (Arrive xs # es) = xs @ arrived es"
| "arrived (Read # es) = arrived es"

text \<open>A run without pauses of the source: all items arrive, then they are read until the source is empty.\<close>

definition sort_list :: "'a comparator \<Rightarrow> nat option \<Rightarrow> 'a list \<Rightarrow> 'a list" where
  "sort_list cmp window xs =
     pushed (sort_flush (sort_events cmp (windowLength window) (Arrive xs # replicate (Suc (length xs)) Read)))"

section \<open>Properties of the sort iterator\<close>

lemma mset_take_drop: "mset (take n xs) + mset (drop n xs) = mset xs"
  by (metis append_take_drop_id mset_append)

lemma mset_insert [simp]: "mset (insert_item cmp x items) = add_mset x (mset items)"
  by (simp add: insert_item_def Let_def mset_take_drop)

lemma mset_fill:
  "fill_window cmp w items source = (items', source') \<Longrightarrow> mset items' + mset source' = mset items + mset source"
  by (induction cmp w items source arbitrary: items' source' rule: fill_window.induct) (auto split: if_splits)

definition sort_content :: "'a sort_state \<Rightarrow> 'a multiset" where
  "sort_content st = mset (pushed st) + mset (sorted_items st) + mset (source_items st)"

text \<open>A window is not empty when the iterator waits for its length.\<close>

lemma sort_read_content: "w \<noteq> Some 0 \<Longrightarrow> sort_content (sort_read cmp w st) = sort_content st"
proof -
  assume w: "w \<noteq> Some 0"
  obtain items source where f: "fill_window cmp w (sorted_items st) (source_items st) = (items, source)" by fastforce
  have m: "mset items + mset source = mset (sorted_items st) + mset (source_items st)" by (rule mset_fill [OF f])
  have "add_mset (last items) (mset (butlast items) + mset source) = mset items + mset source" if "w = Some (length items)"
  proof -
    have "items = butlast items @ [last items]" using that w by (cases items) auto
    then have "mset items = add_mset (last items) (mset (butlast items))" by (metis mset.simps(1) mset.simps(2) mset_append add_mset_add_single)
    then show ?thesis by simp
  qed
  then show ?thesis using f m by (auto simp: sort_read_def sort_content_def add.assoc)
qed

lemma sort_events_content:
  assumes "w \<noteq> Some 0"
  shows "sort_content (fold (sort_step cmp w) es st) = sort_content st + mset (arrived es)"
proof (induction es arbitrary: st)
  case (Cons e es)
  then show ?case using assms by (cases e) (simp_all add: sort_read_content, simp add: sort_content_def)
qed simp

lemma window_not_zero [simp]: "windowLength window \<noteq> Some 0"
  by (simp add: windowLength_def split: option.split)

lemma sort_iterator_permutation_raw:
  assumes "source_items (sort_events cmp (windowLength window) es) = []"
  shows "mset (pushed (sort_flush (sort_events cmp (windowLength window) es))) = mset (arrived es)"
  using sort_events_content [of "windowLength window" cmp es new_sort] assms
  by (simp add: sort_flush_def sort_events_def sort_content_def new_sort_def)

text \<open>A comparator on the items of a set: a total preorder.\<close>

definition total_preorder :: "'a set \<Rightarrow> 'a comparator \<Rightarrow> bool" where
  "total_preorder S cmp \<longleftrightarrow>
     (\<forall>x \<in> S. \<forall>y \<in> S. (cmp x y < 0 \<longleftrightarrow> cmp y x > 0)) \<and>
     (\<forall>x \<in> S. \<forall>y \<in> S. \<forall>z \<in> S. cmp x y \<le> 0 \<longrightarrow> cmp y z \<le> 0 \<longrightarrow> cmp x z \<le> 0)"

lemma preorder_flip: "total_preorder S cmp \<Longrightarrow> x \<in> S \<Longrightarrow> y \<in> S \<Longrightarrow> 0 \<le> cmp x y \<longleftrightarrow> cmp y x \<le> 0"
  unfolding total_preorder_def by (meson linorder_not_less)

lemma preorder_trans: "total_preorder S cmp \<Longrightarrow> x \<in> S \<Longrightarrow> y \<in> S \<Longrightarrow> z \<in> S \<Longrightarrow> cmp x y \<le> 0 \<Longrightarrow> cmp y z \<le> 0 \<Longrightarrow> cmp x z \<le> 0"
  unfolding total_preorder_def by blast

text \<open>The window is sorted with the smallest item last.\<close>

definition window_sorted :: "'a comparator \<Rightarrow> 'a list \<Rightarrow> bool" where
  "window_sorted cmp items \<longleftrightarrow> sorted_wrt (\<lambda>x y. cmp y x \<le> 0) items"

lemma bin_search_place:
  assumes "total_preorder (insert x (set items)) cmp" "window_sorted cmp items"
    and "0 \<le> left" "left \<le> right + 1" "right < int (length items)"
    and "\<forall>i < nat left. cmp x (items ! i) \<le> 0"
    and "\<forall>i. right < int i \<longrightarrow> i < length items \<longrightarrow> cmp (items ! i) x \<le> 0"
  shows "let p = bin_search cmp x items left right in 0 \<le> p \<and> p \<le> int (length items) \<and>
    (\<forall>i < nat p. cmp x (items ! i) \<le> 0) \<and> (\<forall>i. nat p \<le> i \<longrightarrow> i < length items \<longrightarrow> cmp (items ! i) x \<le> 0)"
  using assms(3-7)
proof (induction "nat (right - left + 1)" arbitrary: left right rule: less_induct)
  case less
  show ?case
  proof (cases "left \<le> right")
    case False
    then have "bin_search cmp x items left right = left" "right = left - 1"
      using less.prems by (simp_all add: bin_search.simps [of cmp x items left right])
    then show ?thesis using less.prems by (auto simp: Let_def nat_le_iff)
  next
    case True
    define mid where "mid = (left + right) div 2"
    have mid: "left \<le> mid" "mid \<le> right" "0 \<le> mid" "nat mid < length items" using True less.prems unfolding mid_def by auto
    have mem: "items ! i \<in> insert x (set items)" if "i < length items" for i using that by simp
    have before: "cmp x (items ! i) \<le> 0" if "i \<le> nat mid" "cmp x (items ! nat mid) \<le> 0" for i
    proof (cases "i = nat mid")
      case False
      then have "cmp (items ! nat mid) (items ! i) \<le> 0"
        using sorted_wrt_nth_less [of "\<lambda>x y. cmp y x \<le> 0" items i "nat mid"] assms(2) that mid(4) by (simp add: window_sorted_def)
      then show ?thesis using preorder_trans [OF assms(1), of x "items ! nat mid" "items ! i"] that mid(4) by simp
    qed (use that in simp)
    have after: "cmp (items ! i) x \<le> 0" if "nat mid \<le> i" "i < length items" "cmp (items ! nat mid) x \<le> 0" for i
    proof (cases "i = nat mid")
      case False
      then have "cmp (items ! i) (items ! nat mid) \<le> 0"
        using sorted_wrt_nth_less [of "\<lambda>x y. cmp y x \<le> 0" items "nat mid" i] assms(2) that by (simp add: window_sorted_def)
      then show ?thesis using preorder_trans [OF assms(1), of "items ! i" "items ! nat mid" x] that mid(4) by simp
    qed (use that in simp)
    consider (lt) "cmp x (items ! nat mid) < 0" | (gt) "cmp x (items ! nat mid) > 0" | (eq) "cmp x (items ! nat mid) = 0"
      by linarith
    then show ?thesis
    proof cases
      case lt
      have "bin_search cmp x items left right = bin_search cmp x items (mid + 1) right"
        using True lt by (subst bin_search.simps) (simp add: mid_def Let_def)
      moreover have "\<forall>i < nat (mid + 1). cmp x (items ! i) \<le> 0" using before lt mid(3) by (simp add: nat_add_distrib less_Suc_eq_le)
      ultimately show ?thesis using less.hyps [of right "mid + 1"] less.prems mid by simp
    next
      case gt
      then have "cmp (items ! nat mid) x \<le> 0" using preorder_flip [OF assms(1), of x "items ! nat mid"] mid(4) by simp
      then have "\<forall>i. mid - 1 < int i \<longrightarrow> i < length items \<longrightarrow> cmp (items ! i) x \<le> 0" using after mid(3) by (auto simp: nat_le_iff)
      moreover have "bin_search cmp x items left right = bin_search cmp x items left (mid - 1)"
        using True gt by (subst bin_search.simps) (simp add: mid_def Let_def)
      ultimately show ?thesis using less.hyps [of "mid - 1" left] less.prems mid by simp
    next
      case eq
      then have "cmp (items ! nat mid) x \<le> 0" using preorder_flip [OF assms(1), of x "items ! nat mid"] mid(4) by simp
      moreover have "bin_search cmp x items left right = mid"
        using True eq by (subst bin_search.simps) (simp add: mid_def Let_def)
      ultimately show ?thesis using before after eq mid by (auto simp: Let_def)
    qed
  qed
qed

lemma insert_item_sorted:
  assumes "total_preorder (insert x (set items)) cmp" "window_sorted cmp items"
  shows "window_sorted cmp (insert_item cmp x items)"
proof -
  let ?p = "nat (bin_search cmp x items 0 (int (length items) - 1))"
  have p: "\<forall>i < ?p. cmp x (items ! i) \<le> 0" "\<forall>i. ?p \<le> i \<longrightarrow> i < length items \<longrightarrow> cmp (items ! i) x \<le> 0"
    using bin_search_place [OF assms, of 0 "int (length items) - 1"] by (simp_all add: Let_def)
  have split: "sorted_wrt (\<lambda>x y. cmp y x \<le> 0) (take ?p items @ drop ?p items)" using assms(2) by (simp add: window_sorted_def)
  have "\<forall>y \<in> set (take ?p items). cmp x y \<le> 0" using p(1) by (auto simp: in_set_conv_nth)
  moreover have "\<forall>y \<in> set (drop ?p items). cmp y x \<le> 0" using p(2) by (auto simp: in_set_conv_nth)
  ultimately show ?thesis
    using split unfolding sorted_wrt_append window_sorted_def insert_item_def Let_def by simp
qed

lemma set_insert_item [simp]: "set (insert_item cmp x items) = insert x (set items)"
  using mset_insert [of cmp x items] by (metis set_mset_mset set_mset_add_mset_insert)

lemma preorder_subset: "total_preorder S cmp \<Longrightarrow> T \<subseteq> S \<Longrightarrow> total_preorder T cmp"
  unfolding total_preorder_def by (meson subsetD)

lemma fill_window_sorted:
  assumes "total_preorder (set items \<union> set source) cmp" "window_sorted cmp items"
  shows "fill_window cmp None items source = (fold (insert_item cmp) source items, []) \<and>
    window_sorted cmp (fold (insert_item cmp) source items)"
  using assms
proof (induction source arbitrary: items)
  case (Cons x source)
  have "window_sorted cmp (insert_item cmp x items)"
    using Cons.prems by (intro insert_item_sorted preorder_subset [OF Cons.prems(1)]) auto
  then show ?case using Cons by simp
qed simp

text \<open>With an infinite window nothing is put out before the source has ended, and the items are sorted then.\<close>

definition sort_ok :: "'a comparator \<Rightarrow> 'a sort_state \<Rightarrow> bool" where
  "sort_ok cmp st \<longleftrightarrow> pushed st = [] \<and> window_sorted cmp (sorted_items st)"

lemma sort_events_sorted:
  assumes "total_preorder (set_mset (sort_content st) \<union> set (arrived es)) cmp" "sort_ok cmp st"
  shows "sort_ok cmp (fold (sort_step cmp None) es st)"
  using assms
proof (induction es arbitrary: st)
  case (Cons e es)
  show ?case
  proof (cases e)
    case (Arrive xs)
    have "sort_ok cmp (fold (sort_step cmp None) es (st\<lparr>source_items := source_items st @ xs\<rparr>))"
      by (rule Cons.IH) (use Cons.prems Arrive in \<open>simp_all add: sort_ok_def sort_content_def Un_ac\<close>)
    then show ?thesis using Arrive by simp
  next
    case Read
    have t: "total_preorder (set (sorted_items st) \<union> set (source_items st)) cmp"
      by (rule preorder_subset [OF Cons.prems(1)]) (auto simp: sort_content_def)
    have "sort_ok cmp (sort_read cmp None st)"
      using fill_window_sorted [OF t] Cons.prems(2) by (simp add: sort_read_def sort_ok_def)
    then show ?thesis using Cons.prems(1) Read by (simp add: Cons.IH sort_read_content)
  qed
qed simp

lemma sort_iterator_sorted_raw:
  assumes "total_preorder (set (arrived es)) cmp"
  shows "sorted_wrt (\<lambda>x y. cmp x y \<le> 0) (pushed (sort_flush (sort_events cmp (windowLength None) es)))"
proof -
  have "sort_ok cmp (sort_events cmp None es)"
    using sort_events_sorted [of new_sort es cmp] assms
    by (simp add: sort_events_def new_sort_def sort_content_def sort_ok_def window_sorted_def)
  then show ?thesis
    by (simp add: sort_flush_def sort_ok_def window_sorted_def windowLength_def sorted_wrt_rev)
qed

lemma arrived_append [simp]: "arrived (es @ fs) = arrived es @ arrived fs"
  by (induction es rule: arrived.induct) simp_all

lemma arrived_reads [simp]: "arrived (replicate n Read) = []"
  by (induction n) simp_all

text \<open>A window that is not full takes an item, so as many reads as there are items empty the source.\<close>

definition window_open :: "nat option \<Rightarrow> 'a sort_state \<Rightarrow> bool" where
  "window_open w st \<longleftrightarrow> (case w of None \<Rightarrow> True | Some n \<Rightarrow> length (sorted_items st) < n)"

lemma length_insert_item [simp]: "length (insert_item cmp x items) = Suc (length items)"
  by (metis mset_insert size_mset size_add_mset)

lemma fill_window_bounds:
  "fill_window cmp w items source = (items', source') \<Longrightarrow> (case w of None \<Rightarrow> True | Some n \<Rightarrow> length items \<le> n) \<Longrightarrow>
     (case w of None \<Rightarrow> source' = [] | Some n \<Rightarrow> length items' \<le> n \<and> (length items' < n \<longrightarrow> source' = [])) \<and>
     length source' \<le> length source"
proof (induction cmp w items source rule: fill_window.induct)
  case (2 cmp w items item source)
  show ?case
  proof (cases "w = Some (length items)")
    case False
    have "length source' \<le> length source \<and>
        (case w of None \<Rightarrow> source' = [] | Some n \<Rightarrow> length items' \<le> n \<and> (length items' < n \<longrightarrow> source' = []))"
      using "2.IH" [OF False] "2.prems" False by (cases w) auto
    then show ?thesis by auto
  qed (use 2 in auto)
qed (auto split: option.splits)

lemma sort_read_progress:
  assumes "window_open w st"
  shows "window_open w (sort_read cmp w st) \<and> length (source_items (sort_read cmp w st)) \<le> length (source_items st) - 1"
proof -
  obtain items source where f: "fill_window cmp w (sorted_items st) (source_items st) = (items, source)" by fastforce
  show ?thesis
  proof (cases "source_items st")
    case Nil
    then show ?thesis using assms by (auto simp: sort_read_def window_open_def split: option.splits)
  next
    case (Cons x xs)
    have "w \<noteq> Some (length (sorted_items st))" using assms by (auto simp: window_open_def)
    then have f': "fill_window cmp w (insert_item cmp x (sorted_items st)) xs = (items, source)" using f Cons by simp
    show ?thesis
      using fill_window_bounds [OF f'] assms Cons f by (cases w) (auto simp: sort_read_def window_open_def)
  qed
qed

lemma sort_reads_empty:
  "window_open w st \<Longrightarrow> length (source_items st) \<le> n \<Longrightarrow> source_items ((sort_read cmp w ^^ n) st) = []"
proof (induction n arbitrary: st)
  case (Suc n)
  have "window_open w (sort_read cmp w st)" "length (source_items (sort_read cmp w st)) \<le> n"
    using sort_read_progress [OF Suc.prems(1), of cmp] Suc.prems(2) by linarith+
  then show ?case using Suc.IH by (simp add: funpow_Suc_right del: funpow.simps)
qed simp

lemma windowLength_positive: "windowLength window = Some n \<Longrightarrow> 0 < n"
  by (simp add: windowLength_def split: option.splits if_splits)

lemma sort_list_source:
  "source_items (sort_events cmp (windowLength window) (Arrive xs # replicate (Suc (length xs)) Read)) = []"
proof -
  have "window_open (windowLength window) (new_sort\<lparr>source_items := xs\<rparr>)"
    using windowLength_positive [of window] by (auto simp: window_open_def new_sort_def split: option.split)
  from sort_reads_empty [OF this, of "Suc (length xs)"]
  have "source_items ((sort_read cmp (windowLength window) ^^ Suc (length xs)) (new_sort\<lparr>source_items := xs\<rparr>)) = []"
    by (simp add: new_sort_def)
  moreover have "sort_step cmp (windowLength window) Read = sort_read cmp (windowLength window)" by (rule ext) simp
  ultimately show ?thesis
    by (simp add: sort_events_def new_sort_def fold_replicate del: replicate_Suc funpow.simps)
qed

lemma mset_sort_list: "mset (sort_list cmp window xs) = mset xs"
  using sort_iterator_permutation_raw [OF sort_list_source, of cmp window xs] by (simp add: sort_list_def del: replicate_Suc)


text \<open>Whatever the comparator, the length of the window, and the order in which items arrive and are read, the
  iterator puts out each item that it is given once, when it is flushed after its source is empty.\<close>

theorem sort_iterator_permutation:
  assumes "source_items (sort_events cmp (windowLength window) es) = []"
  shows "mset (pushed (sort_flush (sort_events cmp (windowLength window) es))) = mset (arrived es)"
  using assms by (rule sort_iterator_permutation_raw)

text \<open>With an infinite window and a comparator that is a total preorder on the items, the iterator puts out its
  items in order, however they arrive.\<close>

theorem sort_iterator_sorted:
  assumes "total_preorder (set (arrived es)) cmp"
  shows "sorted_wrt (\<lambda>x y. cmp x y \<le> 0) (pushed (sort_flush (sort_events cmp (windowLength None) es)))"
  using assms by (rule sort_iterator_sorted_raw)

definition sample_sort :: "int sort_event list" where
  "sample_sort = [Arrive [3, 1], Read, Arrive [2, 5, 4], Read, Read]"

lemma sort_iterator_permutation_witness:
  "mset (pushed (sort_flush (sort_events (\<lambda>x y. x - y) (windowLength (Some 3)) (sample_sort @ [Read, Read])))) = {#1, 2, 3, 4, 5#} \<and>
   pushed (sort_flush (sort_events (\<lambda>x y. x - y) (windowLength (Some 3)) (sample_sort @ [Read, Read]))) = [1, 2, 3, 4, 5]"
proof
  have "source_items (sort_events (\<lambda>x y. x - y) (windowLength (Some 3)) (sample_sort @ [Read, Read])) = ([] :: int list)"
    by code_simp
  from sort_iterator_permutation [OF this]
  show "mset (pushed (sort_flush (sort_events (\<lambda>x y. x - y) (windowLength (Some 3)) (sample_sort @ [Read, Read])))) = {#1, 2, 3, 4, 5#}"
    by (simp add: sample_sort_def add_mset_commute)
  show "pushed (sort_flush (sort_events (\<lambda>x y. x - y) (windowLength (Some 3)) (sample_sort @ [Read, Read]))) = [1, 2, 3, 4, 5 :: int]"
    by code_simp
qed

lemma sort_iterator_sorted_witness:
  "sorted_wrt (\<lambda>x y. x - y \<le> 0) (pushed (sort_flush (sort_events (\<lambda>x y. x - y) (windowLength None) sample_sort))) \<and>
   pushed (sort_flush (sort_events (\<lambda>x y. x - y) (windowLength None) sample_sort)) = [1, 2, 3, 4, 5]"
proof
  have "total_preorder (set (arrived sample_sort)) (\<lambda>x y. x - y :: int)" by (simp add: total_preorder_def)
  from sort_iterator_sorted [OF this]
  show "sorted_wrt (\<lambda>x y. x - y \<le> 0) (pushed (sort_flush (sort_events (\<lambda>x y. x - y) (windowLength None) sample_sort)))" .
  show "pushed (sort_flush (sort_events (\<lambda>x y. x - y) (windowLength None) sample_sort)) = [1, 2, 3, 4, 5]" by code_simp
qed

section \<open>The actor\<close>

text \<open>The outcome of the expression evaluator for a solution.\<close>

datatype 't key_outcome = Value 't | Expression_error | Other_error

definition extractSortExpression :: "'x expr \<Rightarrow> 'x expr" where
  "extractSortExpression e =
     (case e of E_operator operator args \<Rightarrow> if operator = ''desc'' then args ! 0 else e | _ \<Rightarrow> e)"

definition isAscending :: "'x expr \<Rightarrow> bool" where
  "isAscending e = (case e of E_operator operator args \<Rightarrow> operator \<noteq> ''desc'' | _ \<Rightarrow> True)"

text \<open>A solution with the result of the expression, and whether the evaluator threw an error other than an expression
  error, which the stream emits.\<close>

definition annotate :: "('b \<Rightarrow> 't key_outcome) \<Rightarrow> 'b \<Rightarrow> 'b \<times> 't option" where
  "annotate evaluate b = (b, case evaluate b of Value t \<Rightarrow> Some t | _ \<Rightarrow> None)"

definition sort_by ::
    "('t option comparator) \<Rightarrow> ('x expr \<Rightarrow> 'b \<Rightarrow> 't key_outcome) \<Rightarrow> nat option \<Rightarrow> 'x expr \<Rightarrow> 'b list \<Rightarrow> 'b list" where
  "sort_by orderTypes evaluator window e bs =
     map fst (sort_list
       (\<lambda>left right. let compare = orderTypes (snd left) (snd right) in if \<not> isAscending e then compare * -1 else compare)
       window (map (annotate (evaluator (extractSortExpression e))) bs))"

text \<open>The solutions, and whether the stream has emitted an error.\<close>

definition order_by ::
    "('t option comparator) \<Rightarrow> ('x expr \<Rightarrow> 'b \<Rightarrow> 't key_outcome) \<Rightarrow> nat option \<Rightarrow> 'x expr list \<Rightarrow> 'b list \<Rightarrow> 'b list \<times> bool" where
  "order_by orderTypes evaluator window es bs =
     (foldr (sort_by orderTypes evaluator window) es bs,
      \<exists>e \<in> set es. \<exists>b \<in> set bs. evaluator (extractSortExpression e) b = Other_error)"



lemma mset_sort_by [simp]: "mset (sort_by orderTypes evaluator window e bs) = mset bs"
  by (simp add: sort_by_def mset_sort_list multiset.map_comp annotate_def comp_def)

lemma mset_sorts [simp]: "mset (foldr (sort_by orderTypes evaluator window) es bs) = mset bs"
  by (induction es) simp_all

lemma set_sort_by [simp]: "set (sort_by orderTypes evaluator window e bs) = set bs"
  by (metis mset_sort_by set_mset_mset)





text \<open>Solutions with two values, and the comparison of numbers.\<close>

definition compare_int :: "int option comparator" where
  "compare_int x y = (case (x, y) of (Some a, Some b) \<Rightarrow> sgn (a - b) | (None, Some b) \<Rightarrow> -1 | (Some a, None) \<Rightarrow> 1 | _ \<Rightarrow> 0)"

definition pair_value :: "'x expr \<Rightarrow> int \<times> int \<Rightarrow> int key_outcome" where
  "pair_value e b = (case e of E_term (Variable v) \<Rightarrow> Value (if v = ''x'' then fst b else snd b) | _ \<Rightarrow> Expression_error)"

abbreviation by_x :: "'x expr" where "by_x \<equiv> E_term (Variable ''x'')"
abbreviation by_y :: "'x expr" where "by_y \<equiv> E_term (Variable ''y'')"



text \<open>The sort is not stable: the fourth of four solutions with the same first value is inserted in the middle, so
  the order of the second expression is lost.\<close>

theorem order_by_second_key_lost:
  "fst (order_by compare_int pair_value None [by_x :: nat expr, by_y] [(1, 1), (1, 2), (1, 3), (1, 4)]) =
     [(1, 1), (1, 2), (1, 4), (1, 3)]"
  by code_simp

end
