(* ===== verification/Date_Arith.thy ===== *)
theory Date_Arith
  imports Prelude "HOL-Library.Signed_Division"
begin

text \<open>
  Dates, times and durations of the expression evaluator
  (\<open>packages/utils-expression-evaluator/lib/util/DateTimeHelpers.ts\<close>, \<open>SpecAlgos.ts\<close>).  Integer fields are
  unbounded integers and seconds are rationals: rounding to 53 bits and the negative zero of JavaScript
  are not part of the model.  \<open>Math.trunc\<close> and \<open>%\<close> round towards zero, \<open>Math.floor\<close> down.
  A representation with partial fields has options for its fields.
\<close>

section \<open>Representations\<close>

record ('i, 's) duration_rep =
  dur_year :: 'i
  dur_month :: 'i
  dur_day :: 'i
  dur_hours :: 'i
  dur_minutes :: 'i
  dur_seconds :: 's

type_synonym duration = "(int, rat) duration_rep"
type_synonym partial_duration = "(int option, rat option) duration_rep"

record ('i, 's) date_rep =
  dt_year :: 'i
  dt_month :: 'i
  dt_day :: 'i
  dt_hours :: 'i
  dt_minutes :: 'i
  dt_seconds :: 's
  zoneHours :: "int option"
  zoneMinutes :: "int option"

type_synonym date_time = "(int, rat) date_rep"
type_synonym partial_date_time = "(int option, rat option) date_rep"

definition or_else :: "'a option \<Rightarrow> 'a \<Rightarrow> 'a" where
  "or_else x d = (case x of None \<Rightarrow> d | Some a \<Rightarrow> a)"

lemma or_else_simps [simp]: "or_else None d = d" "or_else (Some a) d = a"
  by (simp_all add: or_else_def)

definition jstrunc :: "rat \<Rightarrow> int" where
  "jstrunc x = (if 0 \<le> x then \<lfloor>x\<rfloor> else \<lceil>x\<rceil>)"

definition jsrem :: "rat \<Rightarrow> int \<Rightarrow> rat" where
  "jsrem x c = x - of_int (jstrunc (x / of_int c)) * of_int c"

section \<open>Durations\<close>

text \<open>\<open>defaultedDurationRepresentation\<close> spreads the two other functions, which read disjoint fields.\<close>

definition defaultedDayTimeDurationRepresentation :: "partial_duration \<Rightarrow> duration" where
  "defaultedDayTimeDurationRepresentation rep =
     \<lparr>dur_year = 0, dur_month = 0, dur_day = or_else (dur_day rep) 0, dur_hours = or_else (dur_hours rep) 0,
      dur_minutes = or_else (dur_minutes rep) 0, dur_seconds = or_else (dur_seconds rep) 0\<rparr>"

definition defaultedYearMonthDurationRepresentation :: "partial_duration \<Rightarrow> duration" where
  "defaultedYearMonthDurationRepresentation rep =
     \<lparr>dur_year = or_else (dur_year rep) 0, dur_month = or_else (dur_month rep) 0, dur_day = 0, dur_hours = 0,
      dur_minutes = 0, dur_seconds = 0\<rparr>"

definition defaultedDurationRepresentation :: "partial_duration \<Rightarrow> duration" where
  "defaultedDurationRepresentation rep =
     (defaultedDayTimeDurationRepresentation rep)
       \<lparr>dur_year := dur_year (defaultedYearMonthDurationRepresentation rep),
        dur_month := dur_month (defaultedYearMonthDurationRepresentation rep)\<rparr>"

definition no_duration :: partial_duration where
  "no_duration = \<lparr>dur_year = None, dur_month = None, dur_day = None, dur_hours = None, dur_minutes = None, dur_seconds = None\<rparr>"

text \<open>Each \<open>if\<close> of the code is one of the definitions; they take the fields of \<open>temp\<close> that they
  change and return them with the result.\<close>

definition simplify_years :: "duration \<Rightarrow> partial_duration" where
  "simplify_years temp =
     (let years = dur_year temp + dur_month temp sdiv 12;
          month = (if years \<noteq> 0 then dur_month temp smod 12 else dur_month temp)
      in no_duration\<lparr>dur_year := (if years \<noteq> 0 then Some years else None),
                     dur_month := (if month \<noteq> 0 then Some month else None)\<rparr>)"

definition simplify_days :: "duration \<Rightarrow> int option \<times> int \<times> int \<times> rat" where
  "simplify_days temp =
     (let days = dur_day temp + dur_hours temp sdiv 24 + dur_minutes temp sdiv (24 * 60) +
                 jstrunc (dur_seconds temp / of_int (24 * 60 * 60))
      in if days \<noteq> 0
         then (Some days, dur_hours temp smod 24, dur_minutes temp smod (24 * 60), jsrem (dur_seconds temp) (24 * 60 * 60))
         else (None, dur_hours temp, dur_minutes temp, dur_seconds temp))"

definition simplify_hours :: "int \<Rightarrow> int \<Rightarrow> rat \<Rightarrow> int option \<times> int \<times> rat" where
  "simplify_hours hours minutes seconds =
     (let h = hours + minutes sdiv 60 + jstrunc (seconds / of_int (60 * 60))
      in if h \<noteq> 0 then (Some h, minutes smod 60, jsrem seconds (60 * 60)) else (None, minutes, seconds))"

definition simplify_minutes :: "int \<Rightarrow> rat \<Rightarrow> int option \<times> rat option" where
  "simplify_minutes minutes seconds =
     (let m = minutes + jstrunc (seconds / of_int 60);
          s = (if m \<noteq> 0 then jsrem seconds 60 else seconds)
      in (if m \<noteq> 0 then Some m else None, if s \<noteq> 0 then Some s else None))"

definition simplifyDurationRepresentation :: "partial_duration \<Rightarrow> partial_duration" where
  "simplifyDurationRepresentation rep =
     (let temp = defaultedDurationRepresentation rep;
          (d, h, m, s) = simplify_days temp;
          (hours, m', s') = simplify_hours h m s;
          (minutes, seconds) = simplify_minutes m' s'
      in (simplify_years temp)\<lparr>dur_day := d, dur_hours := hours, dur_minutes := minutes, dur_seconds := seconds\<rparr>)"

definition negateDuration :: "partial_duration \<Rightarrow> partial_duration" where
  "negateDuration dur =
     \<lparr>dur_year = map_option (\<lambda>x. -1 * x) (dur_year dur), dur_month = map_option (\<lambda>x. -1 * x) (dur_month dur),
      dur_day = map_option (\<lambda>x. -1 * x) (dur_day dur), dur_hours = map_option (\<lambda>x. -1 * x) (dur_hours dur),
      dur_minutes = map_option (\<lambda>x. -1 * x) (dur_minutes dur), dur_seconds = map_option (\<lambda>x. -1 * x) (dur_seconds dur)\<rparr>"

definition trimToYearMonthDuration :: "partial_duration \<Rightarrow> partial_duration" where
  "trimToYearMonthDuration dur = no_duration\<lparr>dur_year := dur_year dur, dur_month := dur_month dur\<rparr>"

definition trimToDayTimeDuration :: "partial_duration \<Rightarrow> partial_duration" where
  "trimToDayTimeDuration dur =
     no_duration\<lparr>dur_day := dur_day dur, dur_hours := dur_hours dur, dur_minutes := dur_minutes dur,
                 dur_seconds := dur_seconds dur\<rparr>"

definition yearMonthDurationsToMonths :: "duration \<Rightarrow> int" where
  "yearMonthDurationsToMonths dur = dur_year dur * 12 + dur_month dur"

definition dayTimeDurationsToSeconds :: "duration \<Rightarrow> rat" where
  "dayTimeDurationsToSeconds dur =
     of_int (((dur_day dur * 24) + dur_hours dur) * 60 + dur_minutes dur) * 60 + dur_seconds dur"

text \<open>The value of a duration.\<close>

abbreviation months_of :: "partial_duration \<Rightarrow> int" where
  "months_of d \<equiv> yearMonthDurationsToMonths (defaultedDurationRepresentation d)"

abbreviation seconds_of :: "partial_duration \<Rightarrow> rat" where
  "seconds_of d \<equiv> dayTimeDurationsToSeconds (defaultedDurationRepresentation d)"

lemma seconds_of_fields:
  "seconds_of d = of_int (or_else (dur_day d) 0) * 86400 + of_int (or_else (dur_hours d) 0) * 3600 +
     of_int (or_else (dur_minutes d) 0) * 60 + or_else (dur_seconds d) 0"
  by (simp add: dayTimeDurationsToSeconds_def defaultedDurationRepresentation_def
      defaultedDayTimeDurationRepresentation_def algebra_simps)

lemma months_of_fields: "months_of d = or_else (dur_year d) 0 * 12 + or_else (dur_month d) 0"
  by (simp add: yearMonthDurationsToMonths_def defaultedDurationRepresentation_def
      defaultedYearMonthDurationRepresentation_def)

text \<open>Fields of one sign: all are at least zero, or all at most.\<close>

definition one_sign :: "duration \<Rightarrow> bool" where
  "one_sign d \<longleftrightarrow>
     (0 \<le> dur_year d \<and> 0 \<le> dur_month d \<and> 0 \<le> dur_day d \<and> 0 \<le> dur_hours d \<and> 0 \<le> dur_minutes d \<and> 0 \<le> dur_seconds d) \<or>
     (dur_year d \<le> 0 \<and> dur_month d \<le> 0 \<and> dur_day d \<le> 0 \<and> dur_hours d \<le> 0 \<and> dur_minutes d \<le> 0 \<and> dur_seconds d \<le> 0)"

lemma jstrunc_sign: "0 \<le> x \<Longrightarrow> 0 \<le> jstrunc x" "x \<le> 0 \<Longrightarrow> jstrunc x \<le> 0"
  by (auto simp: jstrunc_def)

lemma sdiv_sign: "0 \<le> (x :: int) \<Longrightarrow> 0 < c \<Longrightarrow> 0 \<le> x sdiv c" "(x :: int) \<le> 0 \<Longrightarrow> 0 < c \<Longrightarrow> x sdiv c \<le> 0"
  by (auto simp: signed_divide_int_def sgn_if pos_imp_zdiv_nonneg_iff)

lemma smod_sign: "0 \<le> (x :: int) \<Longrightarrow> 0 < c \<Longrightarrow> 0 \<le> x smod c \<and> x smod c < c" "(x :: int) \<le> 0 \<Longrightarrow> 0 < c \<Longrightarrow> x smod c \<le> 0 \<and> - c < x smod c"
  by (auto simp: signed_modulo_int_def sgn_if)

lemma jsrem_sign:
  "0 \<le> x \<Longrightarrow> 0 < c \<Longrightarrow> 0 \<le> jsrem x c \<and> jsrem x c < of_int c" "x \<le> 0 \<Longrightarrow> 0 < c \<Longrightarrow> jsrem x c \<le> 0 \<and> - of_int c < jsrem x c"
proof -
  have pos: "0 \<le> jsrem x c \<and> jsrem x c < of_int c" if "0 \<le> x" "0 < c" for x c
  proof -
    have "of_int \<lfloor>x / of_int c\<rfloor> * of_int c \<le> x" "x < (of_int \<lfloor>x / of_int c\<rfloor> + 1) * of_int c"
      using that by (simp_all add: floor_divide_lower floor_divide_upper)
    with that show ?thesis by (simp add: jsrem_def jstrunc_def algebra_simps)
  qed
  show "0 \<le> x \<Longrightarrow> 0 < c \<Longrightarrow> 0 \<le> jsrem x c \<and> jsrem x c < of_int c" by (rule pos)
  have neg: "jsrem (- x) c = - jsrem x c" if "0 < c" for x c
    using that by (auto simp: jsrem_def jstrunc_def ceiling_def zero_le_divide_iff divide_le_0_iff)
  show "x \<le> 0 \<Longrightarrow> 0 < c \<Longrightarrow> jsrem x c \<le> 0 \<and> - of_int c < jsrem x c"
    using pos [of "- x" c] neg [of c x] by auto
qed

lemma sum_zero_signs:
  fixes a b c d :: int
  assumes "(0 \<le> a \<and> 0 \<le> b \<and> 0 \<le> c \<and> 0 \<le> d) \<or> (a \<le> 0 \<and> b \<le> 0 \<and> c \<le> 0 \<and> d \<le> 0)" and "a + b + c + d = 0"
  shows "a = 0 \<and> b = 0 \<and> c = 0 \<and> d = 0"
  using assms by linarith

text \<open>The parts whose sum is zero are not there, so both branches are the same.\<close>

lemma sdiv_zero_smod: "(x :: int) sdiv c = 0 \<Longrightarrow> x smod c = x"
  using sdiv_mult_smod_eq [of x c] by simp

lemma jstrunc_zero_jsrem: "jstrunc (x / of_int c) = 0 \<Longrightarrow> jsrem x c = x"
  by (simp add: jsrem_def)

lemma simplify_days_eq:
  assumes "one_sign t"
  shows "simplify_days t =
    (let D = dur_day t + dur_hours t sdiv 24 + dur_minutes t sdiv 1440 + jstrunc (dur_seconds t / 86400)
     in (if D \<noteq> 0 then Some D else None, dur_hours t smod 24, dur_minutes t smod 1440, jsrem (dur_seconds t) 86400))"
proof -
  have "dur_hours t sdiv 24 = 0 \<and> dur_minutes t sdiv 1440 = 0 \<and> jstrunc (dur_seconds t / of_int 86400) = 0"
    if "dur_day t + dur_hours t sdiv 24 + dur_minutes t sdiv 1440 + jstrunc (dur_seconds t / of_int 86400) = 0"
    using sum_zero_signs [OF _ that] assms sdiv_sign [of "dur_hours t" 24] sdiv_sign [of "dur_minutes t" 1440]
      jstrunc_sign [of "dur_seconds t / of_int 86400"] by (auto simp: one_sign_def)
  then show ?thesis
    using jstrunc_zero_jsrem [of "dur_seconds t" 86400] sdiv_zero_smod [of "dur_hours t" 24] sdiv_zero_smod [of "dur_minutes t" 1440]
    by (auto simp: simplify_days_def Let_def)
qed

lemma simplify_hours_eq:
  assumes "(0 \<le> h \<and> 0 \<le> m \<and> 0 \<le> s) \<or> (h \<le> 0 \<and> m \<le> 0 \<and> s \<le> 0)"
  shows "simplify_hours h m s =
    (let H = h + m sdiv 60 + jstrunc (s / 3600) in (if H \<noteq> 0 then Some H else None, m smod 60, jsrem s 3600))"
proof -
  have "m sdiv 60 = 0 \<and> jstrunc (s / of_int 3600) = 0" if "h + m sdiv 60 + jstrunc (s / of_int 3600) = 0"
    using sum_zero_signs [of h "m sdiv 60" "jstrunc (s / of_int 3600)" 0] that assms sdiv_sign [of m 60]
      jstrunc_sign [of "s / of_int 3600"] by auto
  then show ?thesis
    using jstrunc_zero_jsrem [of s 3600] sdiv_zero_smod [of m 60] by (auto simp: simplify_hours_def Let_def)
qed

lemma simplify_minutes_eq:
  assumes "(0 \<le> m \<and> 0 \<le> s) \<or> (m \<le> 0 \<and> s \<le> 0)"
  shows "simplify_minutes m s =
    (let M = m + jstrunc (s / 60); s' = jsrem s 60
     in (if M \<noteq> 0 then Some M else None, if s' \<noteq> 0 then Some s' else None))"
proof -
  have "jstrunc (s / of_int 60) = 0" if "m + jstrunc (s / of_int 60) = 0"
    using sum_zero_signs [of m "jstrunc (s / of_int 60)" 0 0] that assms jstrunc_sign [of "s / of_int 60"] by auto
  then show ?thesis
    using jstrunc_zero_jsrem [of s 60] by (auto simp: simplify_minutes_def Let_def)
qed

lemma simplify_years_eq:
  assumes "one_sign t"
  shows "simplify_years t =
    (let Y = dur_year t + dur_month t sdiv 12; M = dur_month t smod 12
     in no_duration\<lparr>dur_year := (if Y \<noteq> 0 then Some Y else None), dur_month := (if M \<noteq> 0 then Some M else None)\<rparr>)"
proof -
  have "dur_month t sdiv 12 = 0" if "dur_year t + dur_month t sdiv 12 = 0"
    using sum_zero_signs [of "dur_year t" "dur_month t sdiv 12" 0 0] that assms sdiv_sign [of "dur_month t" 12]
    by (auto simp: one_sign_def)
  then show ?thesis using sdiv_zero_smod [of "dur_month t" 12] by (auto simp: simplify_years_def Let_def)
qed

lemma jsrem_split: "of_int (jstrunc (x / of_int c)) * of_int c + jsrem x c = x"
  by (simp add: jsrem_def)

lemma or_else_if: "or_else (if P then Some x else None) 0 = (if P then x else 0)"
  by simp

lemma of_int_split: "of_int (x sdiv c) * of_int c + of_int (x smod c) = (of_int x :: rat)"
  by (metis of_int_add of_int_mult sdiv_mult_smod_eq)

text \<open>Simplifying a duration whose fields have one sign, as those of a parsed duration have, keeps its months and
  its seconds, and leaves less than twelve months and sixty seconds.\<close>

theorem simplify_keeps_value:
  assumes "one_sign (defaultedDurationRepresentation d)"
  shows "months_of (simplifyDurationRepresentation d) = months_of d \<and>
    seconds_of (simplifyDurationRepresentation d) = seconds_of d \<and>
    \<bar>or_else (dur_month (simplifyDurationRepresentation d)) 0\<bar> < 12 \<and>
    \<bar>or_else (dur_seconds (simplifyDurationRepresentation d)) 0\<bar> < 60"
proof -
  define t where "t = defaultedDurationRepresentation d"
  have t: "one_sign t" using assms by (simp add: t_def)
  define h1 where "h1 = dur_hours t smod 24"
  define m1 where "m1 = dur_minutes t smod 1440"
  define s1 where "s1 = jsrem (dur_seconds t) 86400"
  define m2 where "m2 = m1 smod 60"
  define s2 where "s2 = jsrem s1 3600"
  define s3 where "s3 = jsrem s2 60"
  define D where "D = dur_day t + dur_hours t sdiv 24 + dur_minutes t sdiv 1440 + jstrunc (dur_seconds t / 86400)"
  define H where "H = h1 + m1 sdiv 60 + jstrunc (s1 / 3600)"
  define M where "M = m2 + jstrunc (s2 / 60)"
  have sign1: "(0 \<le> h1 \<and> 0 \<le> m1 \<and> 0 \<le> s1) \<or> (h1 \<le> 0 \<and> m1 \<le> 0 \<and> s1 \<le> 0)"
    using t smod_sign [of "dur_hours t" 24] smod_sign [of "dur_minutes t" 1440] jsrem_sign [of "dur_seconds t" 86400]
    by (auto simp: one_sign_def h1_def m1_def s1_def)
  have sign2: "(0 \<le> m2 \<and> 0 \<le> s2) \<or> (m2 \<le> 0 \<and> s2 \<le> 0)"
    using sign1 smod_sign [of m1 60] jsrem_sign [of s1 3600] by (auto simp: m2_def s2_def)
  have r: "simplifyDurationRepresentation d = (simplify_years t)\<lparr>dur_day := (if D \<noteq> 0 then Some D else None),
      dur_hours := (if H \<noteq> 0 then Some H else None), dur_minutes := (if M \<noteq> 0 then Some M else None),
      dur_seconds := (if s3 \<noteq> 0 then Some s3 else None)\<rparr>"
    unfolding simplifyDurationRepresentation_def t_def [symmetric] Let_def
      simplify_days_eq [OF t, unfolded Let_def, folded h1_def m1_def s1_def D_def] prod.case
      simplify_hours_eq [OF sign1, unfolded Let_def, folded m2_def s2_def H_def]
      simplify_minutes_eq [OF sign2, unfolded Let_def, folded s3_def M_def] ..
  have "seconds_of (simplifyDurationRepresentation d) = of_int D * 86400 + of_int H * 3600 + of_int M * 60 + s3"
    unfolding seconds_of_fields r by simp
  also have "\<dots> = of_int (dur_day t) * 86400 + of_int (dur_hours t) * 3600 + of_int (dur_minutes t) * 60 + dur_seconds t"
    using of_int_split [of "dur_hours t" 24] of_int_split [of "dur_minutes t" 1440] of_int_split [of m1 60]
      jsrem_split [of "dur_seconds t" 86400] jsrem_split [of s1 3600] jsrem_split [of s2 60]
    by (simp add: D_def H_def M_def flip: h1_def m1_def s1_def m2_def s2_def s3_def)
  also have "\<dots> = seconds_of d"
    by (simp add: t_def dayTimeDurationsToSeconds_def algebra_simps)
  finally have secs: "seconds_of (simplifyDurationRepresentation d) = seconds_of d" .
  have "months_of (simplifyDurationRepresentation d) = dur_year t * 12 + dur_month t"
    using sdiv_mult_smod_eq [of "dur_month t" 12]
    by (simp add: months_of_fields r simplify_years_eq [OF t] Let_def no_duration_def algebra_simps)
  also have "\<dots> = months_of d" by (simp add: t_def yearMonthDurationsToMonths_def)
  finally have months: "months_of (simplifyDurationRepresentation d) = months_of d" .
  have "\<bar>dur_month t smod 12\<bar> < 12" "\<bar>s3\<bar> < 60"
    using t smod_sign [of "dur_month t" 12] sign2 jsrem_sign [of s2 60] by (auto simp: one_sign_def s3_def)
  then show ?thesis
    using secs months by (simp add: r simplify_years_eq [OF t] Let_def no_duration_def)
qed

definition sample_duration :: partial_duration where
  "sample_duration = no_duration\<lparr>dur_month := Some 14, dur_hours := Some 23, dur_minutes := Some 1439, dur_seconds := Some 61\<rparr>"

lemma simplify_keeps_value_witness:
  "seconds_of (simplifyDurationRepresentation sample_duration) = seconds_of sample_duration \<and>
   simplifyDurationRepresentation sample_duration =
     no_duration\<lparr>dur_year := Some 1, dur_month := Some 2, dur_hours := Some 46, dur_minutes := Some 60, dur_seconds := Some 1\<rparr>"
proof (rule conjI)
  have "one_sign (defaultedDurationRepresentation sample_duration)" by code_simp
  from simplify_keeps_value [OF this]
  show "seconds_of (simplifyDurationRepresentation sample_duration) = seconds_of sample_duration" by blast
  show "simplifyDurationRepresentation sample_duration =
     no_duration\<lparr>dur_year := Some 1, dur_month := Some 2, dur_hours := Some 46, dur_minutes := Some 60, dur_seconds := Some 1\<rparr>"
    by code_simp
qed

end
