(* ===== verification/Date_Add.thy ===== *)
theory Date_Add
  imports Date_Arith
begin

text \<open>
  Adding durations to dates (\<open>packages/utils-expression-evaluator/lib/util/SpecAlgos.ts\<close>):
  \<open>fDiv\<close>, \<open>maximumDayInMonthFor\<close> and \<open>addDurationToDateTime\<close>, whose loop over the days is the
  recursion \<open>carry_days\<close>.  The timeline of the proleptic Gregorian calendar is the specification: a day has
  a number, a date and time an instant in seconds, and a valid date is the only one with its instant.
\<close>

section \<open>Calendar\<close>

definition fDiv :: "int \<Rightarrow> int \<Rightarrow> int \<Rightarrow> int \<times> int" where
  "fDiv arg high low =
     (let first = arg - low; second = high - low; intDiv = first div second in (intDiv, arg - intDiv * second))"

definition fDiv_seconds :: "rat \<Rightarrow> int \<Rightarrow> int \<times> rat" where
  "fDiv_seconds arg high = (let intDiv = \<lfloor>arg / of_int high\<rfloor> in (intDiv, arg - of_int intDiv * of_int high))"

definition maximumDayInMonthFor :: "int \<Rightarrow> int \<Rightarrow> int" where
  "maximumDayInMonthFor yearValue monthValue =
     (let (additionalYears, month) = fDiv monthValue 13 1; year = yearValue + additionalYears
      in if month \<in> {1, 3, 5, 7, 8, 10, 12} then 31
         else if month \<in> {4, 6, 9, 11} then 30
         else if month = 2 \<and> (snd (fDiv year 400 0) = 0 \<or> snd (fDiv year 100 0) \<noteq> 0 \<and> snd (fDiv year 4 0) = 0) then 29
         else 28)"

lemma max_day_bounds: "28 \<le> maximumDayInMonthFor y m \<and> maximumDayInMonthFor y m \<le> 31"
  by (simp add: maximumDayInMonthFor_def Let_def split_beta)

function carry_days :: "int \<Rightarrow> int \<Rightarrow> int \<Rightarrow> int \<times> int \<times> int" where
  "carry_days year month day =
     (if day < 1 then
        (let (intDiv, remainder) = fDiv (month + -1) 13 1
         in carry_days (year + intDiv) remainder (day + maximumDayInMonthFor year (month - 1)))
      else if day > maximumDayInMonthFor year month then
        (let (intDiv, remainder) = fDiv (month + 1) 13 1
         in carry_days (year + intDiv) remainder (day - maximumDayInMonthFor year month))
      else (year, month, day))"
  by pat_completeness auto
termination
proof (relation "measure (\<lambda>(y, m, d). nat (if d < 1 then 40 - d else d))")
  show "((year + x, y, day + maximumDayInMonthFor year (month - 1)), year, month, day)
      \<in> measure (\<lambda>(y, m, d). nat (if d < 1 then 40 - d else d))" if "day < 1" for year month day x y :: int
    using that max_day_bounds [of year "month - 1"] by auto
  show "((year + x, y, day - maximumDayInMonthFor year month), year, month, day)
      \<in> measure (\<lambda>(y, m, d). nat (if d < 1 then 40 - d else d))"
    if "\<not> day < 1" "maximumDayInMonthFor year month < day" for year month day x y :: int
    using that max_day_bounds [of year month] by auto
qed simp

declare carry_days.simps [simp del]

definition addDurationToDateTime :: "date_time \<Rightarrow> duration \<Rightarrow> date_time" where
  "addDurationToDateTime date dur =
     (let (years, month) = fDiv (dt_month date + dur_month dur) 13 1;
          year = dt_year date + dur_year dur + years;
          (c, seconds) = fDiv_seconds (dt_seconds date + dur_seconds dur) 60;
          (c', minutes) = fDiv (dt_minutes date + dur_minutes dur + c) 60 0;
          (c'', hours) = fDiv (dt_hours date + dur_hours dur + c') 24 0;
          (y, m, d) = carry_days year month (dt_day date + dur_day dur + c'')
      in date\<lparr>dt_year := y, dt_month := m, dt_day := d, dt_hours := hours, dt_minutes := minutes, dt_seconds := seconds\<rparr>)"

section \<open>The timeline\<close>

definition days_before_year :: "int \<Rightarrow> int" where
  "days_before_year y = 365 * (y - 1) + (y - 1) div 4 - (y - 1) div 100 + (y - 1) div 400"

definition leap_year :: "int \<Rightarrow> bool" where
  "leap_year y \<longleftrightarrow> y mod 400 = 0 \<or> y mod 100 \<noteq> 0 \<and> y mod 4 = 0"

definition days_before_month :: "int \<Rightarrow> int \<Rightarrow> int" where
  "days_before_month y m =
     [0, 31, 59, 90, 120, 151, 181, 212, 243, 273, 304, 334] ! nat (m - 1) + (if leap_year y \<and> 2 < m then 1 else 0)"

definition day_number :: "int \<Rightarrow> int \<Rightarrow> int \<Rightarrow> int" where
  "day_number y m d = days_before_year y + days_before_month y m + d"

lemma fDiv_eq [simp]: "fDiv arg high low = ((arg - low) div (high - low), low + (arg - low) mod (high - low))"
  by (simp add: fDiv_def Let_def minus_div_mult_eq_mod [symmetric])

lemma max_day_shift: "maximumDayInMonthFor (y + (m - 1) div 12) (1 + (m - 1) mod 12) = maximumDayInMonthFor y m"
  by (simp add: maximumDayInMonthFor_def)

lemma month_cases:
  fixes m :: int
  assumes "1 \<le> m" "m \<le> 12"
  shows "m = 1 \<or> m = 2 \<or> m = 3 \<or> m = 4 \<or> m = 5 \<or> m = 6 \<or> m = 7 \<or> m = 8 \<or> m = 9 \<or> m = 10 \<or> m = 11 \<or> m = 12"
  using assms by presburger

lemma div_step: "(y :: int) div c = (y - 1) div c + (if y mod c = 0 then 1 else 0)" if "0 < c"
proof (cases "y mod c = 0")
  case True
  have "y - 1 = c * (y div c - 1) + (c - 1)" using mult_div_mod_eq [of c y] True by (simp add: algebra_simps)
  then show ?thesis using int_div_pos_eq [of "y - 1" c "y div c - 1" "c - 1"] that True by simp
next
  case False
  then have "0 \<le> y mod c - 1" "y mod c - 1 < c" using pos_mod_sign [OF that, of y] pos_mod_bound [OF that, of y] by linarith+
  moreover have "y - 1 = c * (y div c) + (y mod c - 1)" using mult_div_mod_eq [of c y] by simp
  ultimately show ?thesis using int_div_pos_eq [of "y - 1" c "y div c" "y mod c - 1"] False by simp
qed

lemma leap_mods: "(y :: int) mod 400 = 0 \<Longrightarrow> y mod 100 = 0" "(y :: int) mod 100 = 0 \<Longrightarrow> y mod 4 = 0"
  using dvd_trans [of 100 400 y] dvd_trans [of 4 100 y] by (auto simp: mod_eq_0_iff_dvd)

lemma days_before_next_year: "days_before_year (y + 1) = days_before_year y + 365 + (if leap_year y then 1 else 0)"
proof -
  have "days_before_year (y + 1) = 365 * y + y div 4 - y div 100 + y div 400"
    by (simp add: days_before_year_def)
  moreover have "y div 4 - y div 100 + y div 400 =
      (y - 1) div 4 - (y - 1) div 100 + (y - 1) div 400 + (if leap_year y then 1 else 0)"
    unfolding div_step [of 4 y, OF zero_less_numeral] div_step [of 100 y, OF zero_less_numeral]
      div_step [of 400 y, OF zero_less_numeral]
    using leap_mods [of y] by (simp add: leap_year_def)
  ultimately show ?thesis by (simp add: days_before_year_def)
qed

lemma max_day_eq:
  "1 \<le> m \<Longrightarrow> m \<le> 12 \<Longrightarrow> maximumDayInMonthFor y m =
     [31, 28, 31, 30, 31, 30, 31, 31, 30, 31, 30, 31] ! nat (m - 1) + (if leap_year y \<and> m = 2 then 1 else 0)"
  using month_cases [of m] by (auto simp: maximumDayInMonthFor_def leap_year_def)

lemma day_number_next:
  assumes "1 \<le> m" "m \<le> 12"
  shows "day_number (y + m div 12) (1 + m mod 12) d = day_number y m (d + maximumDayInMonthFor y m)"
  using month_cases [OF assms]
  by (auto simp: day_number_def days_before_month_def max_day_eq days_before_next_year)

lemma day_number_previous:
  assumes "1 \<le> m" "m \<le> 12"
  shows "day_number (y + (m - 2) div 12) (1 + (m - 2) mod 12) (d + maximumDayInMonthFor y (m - 1)) = day_number y m d"
proof -
  let ?y = "y + (m - 2) div 12" and ?m = "1 + (m - 2) mod 12"
  have "?y + ?m div 12 = y" "1 + ?m mod 12 = m" using month_cases [OF assms] by auto
  moreover have "maximumDayInMonthFor y (m - 1) = maximumDayInMonthFor ?y ?m"
    using max_day_shift [of y "m - 1"] by simp
  moreover have "1 \<le> ?m" "?m \<le> 12" using pos_mod_sign [of 12 "m - 2"] pos_mod_bound [of 12 "m - 2"] by linarith+
  ultimately show ?thesis using day_number_next [of ?m ?y d] by metis
qed

definition valid_day :: "int \<Rightarrow> int \<Rightarrow> int \<Rightarrow> bool" where
  "valid_day y m d \<longleftrightarrow> 1 \<le> m \<and> m \<le> 12 \<and> 1 \<le> d \<and> d \<le> maximumDayInMonthFor y m"

lemma carry_days_correct:
  assumes "1 \<le> m" "m \<le> 12" and "carry_days y m d = (y', m', d')"
  shows "valid_day y' m' d' \<and> day_number y' m' d' = day_number y m d"
  using assms
proof (induction y m d rule: carry_days.induct)
  case (1 y m d)
  let ?prev = "(y + (m - 2) div 12, 1 + (m - 2) mod 12)" and ?next = "(y + m div 12, 1 + m mod 12)"
  have prev: "1 \<le> snd ?prev" "snd ?prev \<le> 12" and nxt: "1 \<le> snd ?next" "snd ?next \<le> 12"
    using pos_mod_sign [of 12 "m - 2"] pos_mod_bound [of 12 "m - 2"] pos_mod_sign [of 12 m] pos_mod_bound [of 12 m]
    by (simp_all flip: less_iff_succ_less_eq)
  consider "d < 1" | "\<not> d < 1" "d > maximumDayInMonthFor y m" | "\<not> d < 1" "\<not> d > maximumDayInMonthFor y m" by blast
  then show ?case
  proof cases
    case 1
    have "carry_days (fst ?prev) (snd ?prev) (d + maximumDayInMonthFor y (m - 1)) = (y', m', d')"
      using "1.prems" 1 by (simp add: carry_days.simps [of y m d])
    from "1.IH"(1) [OF 1 refl, of "(m - 2) div 12" "snd ?prev"] this prev
    show ?thesis using day_number_previous [of m y d] "1.prems" by simp
  next
    case 2
    have "carry_days (fst ?next) (snd ?next) (d - maximumDayInMonthFor y m) = (y', m', d')"
      using "1.prems" 2 by (simp add: carry_days.simps [of y m d])
    from "1.IH"(2) [OF 2 refl, of "m div 12" "snd ?next"] this nxt
    show ?thesis using day_number_next [of m y "d - maximumDayInMonthFor y m"] "1.prems" by simp
  next
    case 3
    then show ?thesis using "1.prems" carry_days.simps [of y m d] by (auto simp: valid_day_def)
  qed
qed

lemma mono_steps:
  fixes f :: "int \<Rightarrow> int"
  assumes "a \<le> b" and "\<And>k. a \<le> k \<Longrightarrow> k < b \<Longrightarrow> f k \<le> f (k + 1)"
  shows "f a \<le> f b"
proof -
  have "b' \<le> b \<longrightarrow> f a \<le> f b'" if "a \<le> b'" for b'
    using that
  proof (induction b' rule: int_ge_induct)
    case (step k)
    then show ?case using assms(2) [of k] by auto
  qed simp
  then show ?thesis using assms(1) by blast
qed

lemma days_before_year_mono: "y \<le> y' \<Longrightarrow> days_before_year y \<le> days_before_year y'"
  by (rule mono_steps) (simp_all add: days_before_next_year)

lemma days_before_next_month:
  "1 \<le> m \<Longrightarrow> m \<le> 11 \<Longrightarrow> days_before_month y (m + 1) = days_before_month y m + maximumDayInMonthFor y m"
  using month_cases [of m] by (auto simp: days_before_month_def max_day_eq)

lemma days_before_month_mono: "1 \<le> m \<Longrightarrow> m \<le> m' \<Longrightarrow> m' \<le> 12 \<Longrightarrow> days_before_month y m \<le> days_before_month y m'"
  by (rule mono_steps) (use max_day_bounds [of y] in \<open>auto simp: days_before_next_month intro: order_trans [of 0 28]\<close>)

lemma valid_day_in_month:
  assumes "valid_day y m d" and "m < m'" "m' \<le> 12"
  shows "days_before_month y m + d \<le> days_before_month y m'"
  using assms days_before_month_mono [of "m + 1" m' y] days_before_next_month [of m y] by (auto simp: valid_day_def)

lemma valid_day_in_year: "valid_day y m d \<Longrightarrow> 0 < days_before_month y m + d \<and> days_before_year y + days_before_month y m + d \<le> days_before_year (y + 1)"
  using valid_day_in_month [of y m d 12] days_before_month_mono [of 1 m y]
  by (cases "m = 12") (auto simp: days_before_next_year valid_day_def max_day_eq days_before_month_def)

lemma day_number_inj:
  assumes "valid_day y m d" "valid_day y' m' d'" "day_number y m d = day_number y' m' d'"
  shows "y = y' \<and> m = m' \<and> d = d'"
proof -
  have y: "y = y'"
    using valid_day_in_year [OF assms(1)] valid_day_in_year [OF assms(2)] assms(3)
      days_before_year_mono [of "y + 1" y'] days_before_year_mono [of "y' + 1" y]
    by (cases y y' rule: linorder_cases) (auto simp: day_number_def)
  have m: "m = m'"
    using valid_day_in_month [OF assms(1), of m'] valid_day_in_month [OF assms(2), of m] assms y
    by (cases m m' rule: linorder_cases) (auto simp: day_number_def valid_day_def)
  show ?thesis using y m assms(3) by (simp add: day_number_def)
qed

lemma carry_days_valid: "valid_day y m d \<Longrightarrow> carry_days y m d = (y, m, d)"
  by (subst carry_days.simps) (simp add: valid_day_def)

lemma carry_days_unique:
  assumes "1 \<le> m" "m \<le> 12" "valid_day y' m' d'" "day_number y' m' d' = day_number y m d"
  shows "carry_days y m d = (y', m', d')"
proof (cases "carry_days y m d" rule: prod_cases3)
  case (fields a b c)
  then show ?thesis using carry_days_correct [OF assms(1,2) fields] day_number_inj [of a b c y' m' d'] assms(3,4) by simp
qed

text \<open>A day with a number has a month of the year before it, whatever number of months is added.\<close>

definition valid_date_time :: "date_time \<Rightarrow> bool" where
  "valid_date_time t \<longleftrightarrow> valid_day (dt_year t) (dt_month t) (dt_day t) \<and> 0 \<le> dt_hours t \<and> dt_hours t < 24 \<and>
     0 \<le> dt_minutes t \<and> dt_minutes t < 60 \<and> 0 \<le> dt_seconds t \<and> dt_seconds t < 60"

definition instant :: "date_time \<Rightarrow> rat" where
  "instant t = of_int ((day_number (dt_year t) (dt_month t) (dt_day t) * 24 + dt_hours t) * 60 + dt_minutes t) * 60 + dt_seconds t"

lemma instant_fields:
  "instant (t\<lparr>dt_year := y, dt_month := m, dt_day := d, dt_hours := h, dt_minutes := mi, dt_seconds := s\<rparr>) =
     of_int ((day_number y m d * 24 + h) * 60 + mi) * 60 + s"
  by (simp add: instant_def)

text \<open>A number of months after a date and time, as XML Schema has it: in the month so many months later, on the
  same day, or on the last day of that month if it has no such day.  \<open>shift_month\<close> leaves the day.\<close>

definition shift_month :: "date_time \<Rightarrow> int \<Rightarrow> date_time" where
  "shift_month t n = t\<lparr>dt_year := dt_year t + (dt_month t + n - 1) div 12, dt_month := 1 + (dt_month t + n - 1) mod 12\<rparr>"

definition days_in_month :: "date_time \<Rightarrow> int" where
  "days_in_month t = maximumDayInMonthFor (dt_year t) (dt_month t)"

definition add_months :: "date_time \<Rightarrow> int \<Rightarrow> date_time" where
  "add_months t n = (let u = shift_month t n in u\<lparr>dt_day := min (dt_day t) (days_in_month u)\<rparr>)"

lemma fDiv_seconds_split:
  assumes "fDiv_seconds x 60 = (c, s)" shows "x = of_int c * 60 + s \<and> 0 \<le> s \<and> s < 60"
  using assms floor_divide_lower [of 60 x] floor_divide_upper [of 60 x]
  by (auto simp: fDiv_seconds_def Let_def algebra_simps)

text \<open>The result is the date and time at exactly the instant of the shifted month and the seconds.\<close>

lemma add_duration_instant:
  "valid_date_time (addDurationToDateTime date dur) \<and>
   instant (addDurationToDateTime date dur) =
     instant (shift_month date (yearMonthDurationsToMonths dur)) + dayTimeDurationsToSeconds dur \<and>
   zoneHours (addDurationToDateTime date dur) = zoneHours date \<and>
   zoneMinutes (addDurationToDateTime date dur) = zoneMinutes date"
proof -
  define m where "m = dt_month date + dur_month dur - 1"
  define mins where "mins c = dt_minutes date + dur_minutes dur + c" for c :: int
  define hrs where "hrs c = dt_hours date + dur_hours dur + c" for c :: int
  obtain c s where s: "fDiv_seconds (dt_seconds date + dur_seconds dur) 60 = (c, s)" by fastforce
  define day where "day = dt_day date + dur_day dur + hrs (mins c div 60) div 24"
  obtain y' m' d' where d: "carry_days (dt_year date + dur_year dur + m div 12) (1 + m mod 12) day = (y', m', d')"
    using prod_cases3 by blast
  have r: "addDurationToDateTime date dur = date\<lparr>dt_year := y', dt_month := m', dt_day := d',
      dt_hours := hrs (mins c div 60) mod 24, dt_minutes := mins c mod 60, dt_seconds := s\<rparr>"
    using s d by (simp add: addDurationToDateTime_def m_def mins_def hrs_def day_def)
  have "1 \<le> 1 + m mod 12" "1 + m mod 12 \<le> 12" using pos_mod_sign [of 12 m] pos_mod_bound [of 12 m] by linarith+
  note day = carry_days_correct [OF this d]
  note secs = fDiv_seconds_split [OF s]
  have valid: "valid_date_time (addDurationToDateTime date dur)" using day secs by (simp add: r valid_date_time_def)
  have start: "shift_month date (yearMonthDurationsToMonths dur) =
      date\<lparr>dt_year := dt_year date + dur_year dur + m div 12, dt_month := 1 + m mod 12\<rparr>"
    using div_mult_self1 [of 12 m "dur_year dur"] mod_mult_self1 [of m "dur_year dur" 12]
    by (simp add: shift_month_def yearMonthDurationsToMonths_def m_def algebra_simps)
  let ?D = "day_number (dt_year date + dur_year dur + m div 12) (1 + m mod 12) 0"
  let ?Z = "((?D + dt_day date + dur_day dur) * 24 + dt_hours date + dur_hours dur) * 60 + dt_minutes date + dur_minutes dur"
  have "(day_number y' m' d' * 24 + hrs (mins c div 60) mod 24) * 60 + mins c mod 60 = ?Z + c"
    using day mult_div_mod_eq [of 24 "hrs (mins c div 60)"] mult_div_mod_eq [of 60 "mins c"]
    by (simp add: day_number_def day_def mins_def hrs_def algebra_simps)
  then have "instant (addDurationToDateTime date dur) = of_int (?Z + c) * 60 + s"
    unfolding r instant_fields by (rule arg_cong)
  also have "\<dots> = of_int ?Z * 60 + (dt_seconds date + dur_seconds dur)" using secs by simp
  also have "\<dots> = instant (shift_month date (yearMonthDurationsToMonths dur)) + dayTimeDurationsToSeconds dur"
    by (simp add: start instant_def dayTimeDurationsToSeconds_def day_number_def algebra_simps)
  finally show ?thesis using valid by (simp add: r)
qed

lemma shift_month_instant:
  "instant (shift_month t n) =
     instant (add_months t n) + 86400 * of_int (max 0 (dt_day t - days_in_month (shift_month t n)))"
proof -
  let ?u = "shift_month t n"
  have "dt_day t = min (dt_day t) (days_in_month ?u) + max 0 (dt_day t - days_in_month ?u)" by (simp add: min_def max_def)
  then have "day_number (dt_year ?u) (dt_month ?u) (dt_day ?u) =
      day_number (dt_year ?u) (dt_month ?u) (min (dt_day t) (days_in_month ?u)) + max 0 (dt_day t - days_in_month ?u)"
    by (simp add: day_number_def shift_month_def)
  then show ?thesis
    by (simp only: instant_def) (simp add: add_months_def Let_def algebra_simps)
qed

text \<open>C22. Adding a duration to a date and time gives a valid date and time with the same time zone.  It is the one of
  the algorithm of XML Schema, the months of the duration later, on the last day of the month if it has no such
  day, and then the seconds of the duration later on the timeline, exactly when that month does have the day
  of the date.  When it has not, the code does not take the last day of the month, as the comment in it says
  that this cannot happen (\<open>add_month_not_clamped\<close>).\<close>

theorem add_duration_exact:
  "valid_date_time (addDurationToDateTime date dur) \<and>
   zoneHours (addDurationToDateTime date dur) = zoneHours date \<and>
   zoneMinutes (addDurationToDateTime date dur) = zoneMinutes date \<and>
   (instant (addDurationToDateTime date dur) =
      instant (add_months date (yearMonthDurationsToMonths dur)) + dayTimeDurationsToSeconds dur \<longleftrightarrow>
    dt_day date \<le> days_in_month (shift_month date (yearMonthDurationsToMonths dur)))"
  using add_duration_instant [of date dur] by (simp add: shift_month_instant) (simp add: max_def)

lemma digits_60: "(a :: int) * 60 + b = c * 60 + d \<Longrightarrow> 0 \<le> b \<Longrightarrow> b < 60 \<Longrightarrow> 0 \<le> d \<Longrightarrow> d < 60 \<Longrightarrow> a = c \<and> b = d"
  by (cases a c rule: linorder_cases) auto

lemma digits_24: "(a :: int) * 24 + b = c * 24 + d \<Longrightarrow> 0 \<le> b \<Longrightarrow> b < 24 \<Longrightarrow> 0 \<le> d \<Longrightarrow> d < 24 \<Longrightarrow> a = c \<and> b = d"
  by (cases a c rule: linorder_cases) auto

lemma valid_date_time_unique:
  assumes "valid_date_time t" "valid_date_time u" "instant t = instant u"
    "zoneHours t = zoneHours u" "zoneMinutes t = zoneMinutes u"
  shows "t = u"
proof -
  let ?n = "\<lambda>t. (day_number (dt_year t) (dt_month t) (dt_day t) * 24 + dt_hours t) * 60 + dt_minutes t"
  have fl: "\<lfloor>instant t / 60\<rfloor> = ?n t" if "valid_date_time t" for t
    using that by (intro floor_unique) (auto simp: instant_def valid_date_time_def field_simps simp flip: of_int_add of_int_mult)
  have n: "?n t = ?n u" using fl [OF assms(1)] fl [OF assms(2)] assms(3) by simp
  have sec: "dt_seconds t = dt_seconds u" using assms(3) n by (simp add: instant_def)
  have m: "day_number (dt_year t) (dt_month t) (dt_day t) * 24 + dt_hours t =
      day_number (dt_year u) (dt_month u) (dt_day u) * 24 + dt_hours u \<and> dt_minutes t = dt_minutes u"
    using assms(1,2) n by (intro digits_60) (auto simp: valid_date_time_def)
  then have h: "day_number (dt_year t) (dt_month t) (dt_day t) = day_number (dt_year u) (dt_month u) (dt_day u) \<and>
      dt_hours t = dt_hours u"
    using assms(1,2) by (intro digits_24) (auto simp: valid_date_time_def)
  then have "dt_year t = dt_year u \<and> dt_month t = dt_month u \<and> dt_day t = dt_day u"
    using assms(1,2) by (intro day_number_inj) (simp_all add: valid_date_time_def)
  then show ?thesis using m h sec assms(4,5) by (intro date_rep.equality) simp_all
qed

lemma or_else_negate: "or_else (map_option (\<lambda>x. -1 * x) v) 0 = - or_else v (0 :: 'a :: ring_1)"
  by (cases v) simp_all

lemma negate_value: "seconds_of (negateDuration d) = - seconds_of d" "months_of (negateDuration d) = - months_of d"
  unfolding seconds_of_fields months_of_fields negateDuration_def duration_rep.simps or_else_negate
  by (simp_all add: algebra_simps)

lemma add_no_months: "valid_date_time t \<Longrightarrow> shift_month t 0 = t"
  by (simp add: shift_month_def valid_date_time_def valid_day_def div_pos_pos_trivial)

text \<open>Adding a duration of days and time to a valid date and time and subtracting it again gives the date and time
  back.\<close>

theorem add_negated_duration:
  assumes "valid_date_time date" and "months_of d = 0"
  shows "addDurationToDateTime (addDurationToDateTime date (defaultedDurationRepresentation d))
    (defaultedDurationRepresentation (negateDuration d)) = date"
proof -
  let ?t = "addDurationToDateTime date (defaultedDurationRepresentation d)"
  note there = add_duration_instant [of date "defaultedDurationRepresentation d"]
  note again = add_duration_instant [of ?t "defaultedDurationRepresentation (negateDuration d)"]
  have "instant (addDurationToDateTime ?t (defaultedDurationRepresentation (negateDuration d))) = instant date"
    using there again assms by (simp add: negate_value add_no_months)
  then show ?thesis using there again assms(1) by (intro valid_date_time_unique) simp_all
qed

definition sample_date :: date_time where
  "sample_date = \<lparr>dt_year = 2000, dt_month = 1, dt_day = 31, dt_hours = 23, dt_minutes = 30, dt_seconds = 5,
     zoneHours = Some 1, zoneMinutes = Some 0\<rparr>"

lemma add_negated_duration_witness:
  "addDurationToDateTime (addDurationToDateTime sample_date (defaultedDurationRepresentation (no_duration\<lparr>dur_hours := Some 50\<rparr>)))
    (defaultedDurationRepresentation (negateDuration (no_duration\<lparr>dur_hours := Some 50\<rparr>))) = sample_date \<and>
   addDurationToDateTime sample_date (defaultedDurationRepresentation (no_duration\<lparr>dur_hours := Some 50\<rparr>)) =
     sample_date\<lparr>dt_month := 2, dt_day := 3, dt_hours := 1\<rparr>"
proof (rule conjI)
  have "valid_date_time sample_date" "months_of (no_duration\<lparr>dur_hours := Some 50\<rparr>) = 0" by code_simp+
  then show "addDurationToDateTime (addDurationToDateTime sample_date
      (defaultedDurationRepresentation (no_duration\<lparr>dur_hours := Some 50\<rparr>)))
    (defaultedDurationRepresentation (negateDuration (no_duration\<lparr>dur_hours := Some 50\<rparr>))) = sample_date"
    by (rule add_negated_duration)
  show "addDurationToDateTime sample_date (defaultedDurationRepresentation (no_duration\<lparr>dur_hours := Some 50\<rparr>)) =
     sample_date\<lparr>dt_month := 2, dt_day := 3, dt_hours := 1\<rparr>"
    by code_simp
qed

text \<open>A month after the last of January is not the last of February: the days over the end of the month are
  carried into the next, where the algorithm of XML Schema takes the last day of the month.\<close>

theorem add_month_not_clamped:
  "addDurationToDateTime sample_date (defaultedDurationRepresentation (no_duration\<lparr>dur_month := Some 1\<rparr>)) =
     sample_date\<lparr>dt_month := 3, dt_day := 2\<rparr> \<and>
   add_months sample_date 1 = sample_date\<lparr>dt_month := 2, dt_day := 29\<rparr>"
  by code_simp

end
