(* ===== verification/Date_Elapsed.thy ===== *)
theory Date_Elapsed
  imports Date_Add
begin

text \<open>
  Instants of dates and the time between them (\<open>toJSDate\<close> and \<open>toUTCDate\<close> of \<open>DateTimeHelpers.ts\<close>,
  \<open>elapsedDuration\<close> of \<open>SpecAlgos.ts\<close>).  Of JavaScript's \<open>Date\<close> the theory has the constructor of
  seven numbers, \<open>getFullYear\<close>, \<open>setFullYear\<close>, \<open>getTime\<close> and \<open>getTimezoneOffset\<close>, without the
  limit of its range.  The clock of the machine is two parameters: \<open>utc\<close> takes a local time to the
  instant with it and \<open>offset\<close> gives the offset of an instant, both in milliseconds since 1970 and minutes.
\<close>

section \<open>JavaScript dates\<close>

definition make_day :: "int \<Rightarrow> int \<Rightarrow> int \<Rightarrow> int" where
  "make_day y m d = day_number (y + m div 12) (1 + m mod 12) 0 + d - day_number 1970 1 1"

definition make_date :: "int \<Rightarrow> int \<Rightarrow> int" where
  "make_date day time = day * 86400000 + time"

definition make_time :: "int \<Rightarrow> int \<Rightarrow> int \<Rightarrow> int \<Rightarrow> int" where
  "make_time h m s ms = h * 3600000 + m * 60000 + s * 1000 + ms"

definition civil :: "int \<Rightarrow> int \<times> int \<times> int" where
  "civil day = carry_days 1970 1 (1 + day)"

definition local_time :: "(int \<Rightarrow> int) \<Rightarrow> int \<Rightarrow> int" where
  "local_time offset t = t - offset t * 60000"

definition getFullYear :: "(int \<Rightarrow> int) \<Rightarrow> int \<Rightarrow> int" where
  "getFullYear offset t = fst (civil (local_time offset t div 86400000))"

definition setFullYear :: "(int \<Rightarrow> int) \<Rightarrow> (int \<Rightarrow> int) \<Rightarrow> int \<Rightarrow> int \<Rightarrow> int" where
  "setFullYear utc offset t year =
     (let (y, m, d) = civil (local_time offset t div 86400000)
      in utc (make_date (make_day year (m - 1) d) (local_time offset t mod 86400000)))"

definition new_Date :: "(int \<Rightarrow> int) \<Rightarrow> int \<Rightarrow> int \<Rightarrow> int \<Rightarrow> int \<Rightarrow> int \<Rightarrow> int \<Rightarrow> int \<Rightarrow> int" where
  "new_Date utc y m d h mi s ms =
     utc (make_date (make_day (if 0 \<le> y \<and> y \<le> 99 then 1900 + y else y) m d) (make_time h mi s ms))"

section \<open>The functions\<close>

definition defaultedDateTimeRepresentation :: "partial_date_time \<Rightarrow> date_time" where
  "defaultedDateTimeRepresentation rep =
     \<lparr>dt_year = or_else (dt_year rep) 0, dt_month = or_else (dt_month rep) 1, dt_day = or_else (dt_day rep) 1,
      dt_hours = or_else (dt_hours rep) 0, dt_minutes = or_else (dt_minutes rep) 0, dt_seconds = or_else (dt_seconds rep) 0,
      zoneHours = zoneHours rep, zoneMinutes = zoneMinutes rep\<rparr>"

definition toJSDate :: "(int \<Rightarrow> int) \<Rightarrow> (int \<Rightarrow> int) \<Rightarrow> date_time \<Rightarrow> int" where
  "toJSDate utc offset date =
     (let res = new_Date utc (dt_year date) (dt_month date - 1) (dt_day date) (dt_hours date) (dt_minutes date)
            (jstrunc (dt_seconds date)) (jstrunc (jsrem (dt_seconds date) 1 * 1000))
      in if 0 \<le> dt_year date \<and> dt_year date < 100
         then setFullYear utc offset res (getFullYear offset res - 1900) else res)"

definition toUTCDate :: "(int \<Rightarrow> int) \<Rightarrow> (int \<Rightarrow> int) \<Rightarrow> partial_date_time \<Rightarrow> int \<times> int \<Rightarrow> int" where
  "toUTCDate utc offset date defaultTimezone =
     (let localTime = toJSDate utc offset (defaultedDateTimeRepresentation date);
          minutesCorrectionLocal = offset localTime;
          hourCorrectionUTC = or_else (zoneHours date) (fst defaultTimezone);
          minutesCorrectionUTC = or_else (zoneMinutes date) (snd defaultTimezone)
      in localTime - (minutesCorrectionLocal + hourCorrectionUTC * 60 + minutesCorrectionUTC) * 60 * 1000)"

definition elapsed :: "int \<Rightarrow> partial_duration" where
  "elapsed diff = no_duration\<lparr>
     dur_day := Some (diff div (1000 * 60 * 60 * 24)),
     dur_hours := Some ((diff smod (1000 * 60 * 60 * 24)) div (1000 * 60 * 60)),
     dur_minutes := Some (diff smod (1000 * 60 * 60) div (1000 * 60)),
     dur_seconds := Some (of_int (diff smod (1000 * 60)))\<rparr>"

definition elapsedDuration ::
    "(int \<Rightarrow> int) \<Rightarrow> (int \<Rightarrow> int) \<Rightarrow> partial_date_time \<Rightarrow> partial_date_time \<Rightarrow> int \<times> int \<Rightarrow> partial_duration" where
  "elapsedDuration utc offset first second defaultTimeZone =
     elapsed (toUTCDate utc offset first defaultTimeZone - toUTCDate utc offset second defaultTimeZone)"

section \<open>Instants\<close>

text \<open>The clock of the machine reads a local time back when the offset of the instant with that local time leads
  back to it.  It does not for the hour that the start of summer time skips.\<close>

definition reads_back :: "(int \<Rightarrow> int) \<Rightarrow> (int \<Rightarrow> int) \<Rightarrow> int \<Rightarrow> bool" where
  "reads_back utc offset l \<longleftrightarrow> local_time offset (utc l) = l"

text \<open>Seconds with at most three decimals.\<close>

definition whole_milliseconds :: "date_time \<Rightarrow> bool" where
  "whole_milliseconds t \<longleftrightarrow> of_int \<lfloor>dt_seconds t * 1000\<rfloor> = dt_seconds t * 1000"

definition milliseconds :: "date_time \<Rightarrow> int" where
  "milliseconds t = make_date (day_number (dt_year t) (dt_month t) (dt_day t) - day_number 1970 1 1)
     (make_time (dt_hours t) (dt_minutes t) 0 \<lfloor>dt_seconds t * 1000\<rfloor>)"

lemma whole_millisecondsD: "whole_milliseconds t \<Longrightarrow> dt_seconds t * 1000 = of_int \<lfloor>dt_seconds t * 1000\<rfloor>"
  unfolding whole_milliseconds_def by (rule sym)

lemma milliseconds_instant:
  "whole_milliseconds t \<Longrightarrow> of_int (milliseconds t) = (instant t - of_int (day_number 1970 1 1) * 86400) * 1000"
  by (drule whole_millisecondsD) (simp add: milliseconds_def make_date_def make_time_def instant_def algebra_simps)

lemma milliseconds_parts:
  assumes "valid_date_time t" "whole_milliseconds t"
  shows "jstrunc (dt_seconds t) * 1000 + jstrunc (jsrem (dt_seconds t) 1 * 1000) = \<lfloor>dt_seconds t * 1000\<rfloor>"
proof -
  have s: "0 \<le> dt_seconds t" using assms(1) by (simp add: valid_date_time_def)
  have "jsrem (dt_seconds t) 1 * 1000 = dt_seconds t * 1000 - of_int (\<lfloor>dt_seconds t\<rfloor> * 1000)"
    using s by (simp add: jsrem_def jstrunc_def algebra_simps)
  then have "jsrem (dt_seconds t) 1 * 1000 = of_int (\<lfloor>dt_seconds t * 1000\<rfloor> - \<lfloor>dt_seconds t\<rfloor> * 1000)"
    by (subst (asm) whole_millisecondsD [OF assms(2)]) simp
  moreover have "0 \<le> jsrem (dt_seconds t) 1 * 1000" using s jsrem_sign(1) [OF s, of 1] by simp
  ultimately have "jstrunc (jsrem (dt_seconds t) 1 * 1000) = \<lfloor>dt_seconds t * 1000\<rfloor> - \<lfloor>dt_seconds t\<rfloor> * 1000"
    by (simp only: jstrunc_def if_True floor_of_int)
  then show ?thesis using s by (simp add: jstrunc_def)
qed

lemma milliseconds_day:
  assumes "valid_date_time t"
  shows "milliseconds t div 86400000 = day_number (dt_year t) (dt_month t) (dt_day t) - day_number 1970 1 1"
proof -
  define n where "n = \<lfloor>dt_seconds t * 1000\<rfloor>"
  have "0 \<le> n" "n < 60000" using assms by (simp_all add: n_def valid_date_time_def floor_less_iff)
  moreover have "0 \<le> dt_hours t" "dt_hours t \<le> 23" "0 \<le> dt_minutes t" "dt_minutes t \<le> 59"
    using assms by (simp_all add: valid_date_time_def)
  ultimately have "0 \<le> make_time (dt_hours t) (dt_minutes t) 0 n"
    "make_time (dt_hours t) (dt_minutes t) 0 n < 86400000"
    by (simp_all add: make_time_def)
  then show ?thesis by (simp add: milliseconds_def make_date_def n_def)
qed

lemma civil_valid: "valid_day y m d \<Longrightarrow> civil (day_number y m d - day_number 1970 1 1) = (y, m, d)"
  unfolding civil_def by (rule carry_days_unique) (simp_all add: day_number_def)

lemma make_day_eq: "1 \<le> m \<Longrightarrow> m \<le> 12 \<Longrightarrow> make_day y (m - 1) d = day_number y m d - day_number 1970 1 1"
  by (simp add: make_day_def day_number_def div_pos_pos_trivial)

lemma new_Date_eq:
  assumes "valid_date_time t" "whole_milliseconds t" "y = (if 0 \<le> dt_year t \<and> dt_year t \<le> 99 then 1900 + dt_year t else dt_year t)"
  shows "new_Date utc (dt_year t) (dt_month t - 1) (dt_day t) (dt_hours t) (dt_minutes t) (jstrunc (dt_seconds t))
      (jstrunc (jsrem (dt_seconds t) 1 * 1000)) = utc (milliseconds (t\<lparr>dt_year := y\<rparr>))"
proof -
  have "make_time h m (jstrunc (dt_seconds t)) (jstrunc (jsrem (dt_seconds t) 1 * 1000)) =
      make_time h m 0 \<lfloor>dt_seconds t * 1000\<rfloor>" for h m
    using milliseconds_parts [OF assms(1,2)] by (simp add: make_time_def)
  then show ?thesis
    using assms by (simp add: new_Date_def milliseconds_def make_day_eq valid_date_time_def valid_day_def)
qed

lemma valid_in_1900s:
  assumes "valid_date_time t" "0 \<le> dt_year t" "dt_year t < 100" "\<not> (dt_year t = 0 \<and> dt_month t = 2 \<and> dt_day t = 29)"
  shows "valid_date_time (t\<lparr>dt_year := 1900 + dt_year t\<rparr>)"
proof -
  have "leap_year (1900 + dt_year t) \<longleftrightarrow> leap_year (dt_year t)" if "dt_year t \<noteq> 0"
  proof -
    have "dt_year t mod 100 = dt_year t" "dt_year t mod 400 = dt_year t" using assms(2,3) by simp_all
    moreover have "(1900 + dt_year t) mod 100 = dt_year t mod 100" "(1900 + dt_year t) mod 4 = dt_year t mod 4"
      using mod_mult_self1 [of "dt_year t" 19 100] mod_mult_self1 [of "dt_year t" 475 4] by (simp_all add: add.commute)
    moreover have "(1900 + dt_year t) mod 400 \<noteq> 0" using leap_mods(1) [of "1900 + dt_year t"] calculation that by metis
    ultimately show ?thesis using that unfolding leap_year_def by metis
  qed
  then have same: "maximumDayInMonthFor (1900 + dt_year t) (dt_month t) = maximumDayInMonthFor (dt_year t) (dt_month t)"
    if "dt_year t \<noteq> 0 \<or> dt_month t \<noteq> 2"
    using that assms(1) by (cases "dt_month t = 2") (auto simp: valid_date_time_def valid_day_def max_day_eq)
  have "maximumDayInMonthFor 0 2 = 29" by code_simp
  then have "dt_day t \<le> maximumDayInMonthFor (1900 + dt_year t) (dt_month t)"
    using same assms(1,4) max_day_bounds [of "1900 + dt_year t" "dt_month t"]
    by (cases "dt_year t = 0 \<and> dt_month t = 2") (auto simp: valid_date_time_def valid_day_def)
  then show ?thesis using assms(1) by (simp add: valid_date_time_def valid_day_def)
qed

lemma toJSDate_eq:
  assumes clock: "0 \<le> dt_year t \<Longrightarrow> dt_year t < 100 \<Longrightarrow>
      reads_back utc offset (milliseconds (t\<lparr>dt_year := 1900 + dt_year t\<rparr>))"
    and t: "valid_date_time t" "whole_milliseconds t"
    and "\<not> (dt_year t = 0 \<and> dt_month t = 2 \<and> dt_day t = 29)"
  shows "toJSDate utc offset t = utc (milliseconds t)"
proof (cases "0 \<le> dt_year t \<and> dt_year t < 100")
  case True
  let ?u = "t\<lparr>dt_year := 1900 + dt_year t\<rparr>"
  have u: "valid_date_time ?u" using valid_in_1900s True assms by blast
  have c: "civil (milliseconds ?u div 86400000) = (1900 + dt_year t, dt_month t, dt_day t)"
    using milliseconds_day [OF u] civil_valid [of "1900 + dt_year t"] u by (simp add: valid_date_time_def)
  have "milliseconds ?u mod 86400000 = milliseconds t - (milliseconds t div 86400000) * 86400000"
    using milliseconds_day [OF u] milliseconds_day [OF t(1)]
    by (simp add: minus_div_mult_eq_mod [symmetric]) (simp add: milliseconds_def make_date_def)
  then have "make_date (make_day (dt_year t) (dt_month t - 1) (dt_day t)) (milliseconds ?u mod 86400000) = milliseconds t"
    using milliseconds_day [OF t(1)] t(1) by (simp add: make_date_def make_day_eq valid_date_time_def valid_day_def)
  moreover have "local_time offset (utc (milliseconds ?u)) = milliseconds ?u"
    using clock True by (simp add: reads_back_def)
  ultimately show ?thesis
    using True c new_Date_eq [OF t refl, of utc] by (simp add: toJSDate_def Let_def setFullYear_def getFullYear_def)
next
  case False
  then show ?thesis using new_Date_eq [OF t refl, of utc] by (auto simp: toJSDate_def Let_def)
qed

text \<open>The instant of a representation with its time zone, or the default one.\<close>

definition utc_instant :: "partial_date_time \<Rightarrow> int \<times> int \<Rightarrow> rat" where
  "utc_instant date zone = instant (defaultedDateTimeRepresentation date) - of_int (day_number 1970 1 1) * 86400 -
     of_int (or_else (zoneHours date) (fst zone) * 60 + or_else (zoneMinutes date) (snd zone)) * 60"

text \<open>Dates that \<open>toUTCDate\<close> takes to their instants: those of the calendar but the 29th of February of the year 0,
  with seconds of at most three decimals.\<close>

definition js_date :: "partial_date_time \<Rightarrow> bool" where
  "js_date date \<longleftrightarrow> (let t = defaultedDateTimeRepresentation date
     in valid_date_time t \<and> whole_milliseconds t \<and> \<not> (dt_year t = 0 \<and> dt_month t = 2 \<and> dt_day t = 29))"

text \<open>The clock reads the local time of the date back, and for a year of one or two digits also that of the same date
  1900 years later, which the code makes first.\<close>

definition clock_reads :: "(int \<Rightarrow> int) \<Rightarrow> (int \<Rightarrow> int) \<Rightarrow> partial_date_time \<Rightarrow> bool" where
  "clock_reads utc offset date \<longleftrightarrow> (let t = defaultedDateTimeRepresentation date
     in reads_back utc offset (milliseconds t) \<and>
        (0 \<le> dt_year t \<and> dt_year t < 100 \<longrightarrow>
           reads_back utc offset (milliseconds (t\<lparr>dt_year := 1900 + dt_year t\<rparr>))))"

lemma utc_date_value:
  assumes "clock_reads utc offset date" and "js_date date"
  shows "toUTCDate utc offset date zone = milliseconds (defaultedDateTimeRepresentation date) -
    (or_else (zoneHours date) (fst zone) * 60 + or_else (zoneMinutes date) (snd zone)) * 60000"
proof -
  let ?t = "defaultedDateTimeRepresentation date"
  have t: "toJSDate utc offset ?t = utc (milliseconds ?t)"
    using toJSDate_eq [of ?t utc offset] assms by (simp add: js_date_def clock_reads_def Let_def)
  have "utc (milliseconds ?t) - offset (utc (milliseconds ?t)) * 60000 = milliseconds ?t"
    using assms(1) by (simp add: clock_reads_def reads_back_def local_time_def Let_def)
  then show ?thesis by (simp add: toUTCDate_def Let_def t algebra_simps)
qed

lemma utc_date_instant:
  assumes "clock_reads utc offset date" and "js_date date"
  shows "of_int (toUTCDate utc offset date zone) = utc_instant date zone * 1000"
  using milliseconds_instant [of "defaultedDateTimeRepresentation date"] assms(2)
  by (simp add: utc_date_value [OF assms] utc_instant_def js_date_def Let_def algebra_simps)

text \<open>C25. The time value of a date and time with its time zone is the milliseconds from 1970 to its instant, for
  years of one and two digits as well.  The conditions: the clock of the machine reads the local time of the date
  back (\<open>clock_reads\<close>: it is not in an hour that a change of the clock skips), the seconds have at most three
  decimals, and the date is not the 29th of February of the year 0 (\<open>leap_day_of_year_zero\<close>).\<close>

theorem utc_date_is_instant:
  assumes "clock_reads utc offset date" and "js_date date"
  shows "of_int (toUTCDate utc offset date zone) = utc_instant date zone * 1000"
  by (rule utc_date_instant [OF assms])

definition full_date :: "int \<Rightarrow> int \<Rightarrow> int \<Rightarrow> int \<Rightarrow> int \<Rightarrow> rat \<Rightarrow> partial_date_time" where
  "full_date y m d h mi s = \<lparr>dt_year = Some y, dt_month = Some m, dt_day = Some d, dt_hours = Some h, dt_minutes = Some mi,
     dt_seconds = Some s, zoneHours = None, zoneMinutes = None\<rparr>"

text \<open>A clock with an hour of summer time, from 26 March to 29 October 2000, one o'clock UTC.\<close>

definition summer_offset :: "int \<Rightarrow> int" where
  "summer_offset t = (if 954032400000 \<le> t \<and> t < 972781200000 then -60 else 0)"

definition summer_utc :: "int \<Rightarrow> int" where
  "summer_utc l = (if 954036000000 \<le> l \<and> l < 972784800000 then l - 3600000 else l)"

lemma summer_reads_back: "reads_back summer_utc summer_offset l \<longleftrightarrow> \<not> (954032400000 \<le> l \<and> l < 954036000000)"
  by (auto simp: reads_back_def local_time_def summer_utc_def summer_offset_def)

lemma utc_date_is_instant_witness:
  "of_int (toUTCDate summer_utc summer_offset (full_date 2000 7 1 12 30 (3 / 2)) (2, 0)) =
     utc_instant (full_date 2000 7 1 12 30 (3 / 2)) (2, 0) * 1000 \<and>
   toUTCDate summer_utc summer_offset (full_date 2000 7 1 12 30 (3 / 2)) (2, 0) = 962447401500 \<and>
   of_int (toUTCDate summer_utc summer_offset (full_date 45 2 28 23 59 (59 / 2)) (2, 0)) =
     utc_instant (full_date 45 2 28 23 59 (59 / 2)) (2, 0) * 1000"
proof (intro conjI)
  have "js_date (full_date 2000 7 1 12 30 (3 / 2))" "js_date (full_date 45 2 28 23 59 (59 / 2))"
    "clock_reads summer_utc summer_offset (full_date 2000 7 1 12 30 (3 / 2))"
    "clock_reads summer_utc summer_offset (full_date 45 2 28 23 59 (59 / 2))" by code_simp+
  then show "of_int (toUTCDate summer_utc summer_offset (full_date 2000 7 1 12 30 (3 / 2)) (2, 0)) =
     utc_instant (full_date 2000 7 1 12 30 (3 / 2)) (2, 0) * 1000"
    "of_int (toUTCDate summer_utc summer_offset (full_date 45 2 28 23 59 (59 / 2)) (2, 0)) =
     utc_instant (full_date 45 2 28 23 59 (59 / 2)) (2, 0) * 1000"
    by (simp_all add: utc_date_is_instant)
  show "toUTCDate summer_utc summer_offset (full_date 2000 7 1 12 30 (3 / 2)) (2, 0) = 962447401500" by code_simp
qed

lemma smod_nonneg: "0 \<le> (a :: int) \<Longrightarrow> 0 < b \<Longrightarrow> a smod b = a mod b"
  by (cases "a = 0") (simp_all add: signed_modulo_int_def)

lemma elapsed_value:
  assumes "0 \<le> diff" "diff mod 60000 = 0"
  shows "seconds_of (elapsed diff) * 1000 = of_int diff"
proof -
  have hour: "diff mod 86400000 mod 3600000 = diff mod 3600000" by (rule mod_mod_cancel) simp
  have minute: "diff mod 3600000 mod 60000 = 0" using assms(2) mod_mod_cancel [of 60000 3600000 diff] by simp
  have "diff = diff div 86400000 * 86400000 + diff mod 86400000" by simp
  also have "diff mod 86400000 = diff mod 86400000 div 3600000 * 3600000 + diff mod 3600000"
    by (metis div_mult_mod_eq hour)
  also have "diff mod 3600000 = diff mod 3600000 div 60000 * 60000"
    by (metis div_mult_mod_eq minute add.right_neutral)
  finally have "diff = ((diff div 86400000 * 24 + diff mod 86400000 div 3600000) * 60 + diff mod 3600000 div 60000) * 60000"
    by (simp add: algebra_simps)
  then have "rat_of_int diff =
      of_int (((diff div 86400000 * 24 + diff mod 86400000 div 3600000) * 60 + diff mod 3600000 div 60000) * 60000)"
    by (rule arg_cong)
  then show ?thesis using assms by (simp add: seconds_of_fields elapsed_def smod_nonneg no_duration_def)
qed

text \<open>The duration between two dates in whole minutes, the first not before the second, is the time between their
  instants.\<close>

theorem elapsed_between_minutes:
  assumes "clock_reads utc offset first" "clock_reads utc offset second" "js_date first" "js_date second"
    and "utc_instant second zone \<le> utc_instant first zone"
    and "dt_seconds first = None" "dt_seconds second = None"
  shows "seconds_of (elapsedDuration utc offset first second zone) = utc_instant first zone - utc_instant second zone"
proof -
  let ?diff = "toUTCDate utc offset first zone - toUTCDate utc offset second zone"
  have whole: "toUTCDate utc offset date zone mod 60000 = 0" if "clock_reads utc offset date" "js_date date" and "dt_seconds date = None" for date
  proof -
    let ?t = "defaultedDateTimeRepresentation date"
    have "toUTCDate utc offset date zone = ((day_number (dt_year ?t) (dt_month ?t) (dt_day ?t) - day_number 1970 1 1) * 1440 +
        dt_hours ?t * 60 + dt_minutes ?t - (or_else (zoneHours date) (fst zone) * 60 + or_else (zoneMinutes date) (snd zone))) * 60000"
      using that(3) by (simp add: utc_date_value [OF that(1,2)] milliseconds_def make_date_def make_time_def
          algebra_simps) (simp add: defaultedDateTimeRepresentation_def)
    then show ?thesis by (simp only: mod_mult_self2_is_0)
  qed
  have d: "of_int ?diff = (utc_instant first zone - utc_instant second zone) * 1000"
    using utc_date_instant [OF assms(1,3), of zone] utc_date_instant [OF assms(2,4), of zone]
    by (simp add: algebra_simps)
  then have "rat_of_int 0 \<le> of_int ?diff" using assms(5) by simp
  then have "0 \<le> ?diff" by (simp only: of_int_le_iff)
  moreover have "?diff mod 60000 = 0" using whole [OF assms(1,3,6)] whole [OF assms(2,4,7)] by (auto simp: mod_eq_0_iff_dvd)
  ultimately show ?thesis using elapsed_value [of ?diff] d by (simp add: elapsedDuration_def)
qed

definition minutes_date :: "int \<Rightarrow> int \<Rightarrow> int \<Rightarrow> int \<Rightarrow> int \<Rightarrow> partial_date_time" where
  "minutes_date y m d h mi = (full_date y m d h mi 0)\<lparr>dt_seconds := None\<rparr>"

lemma elapsed_between_minutes_witness:
  "seconds_of (elapsedDuration summer_utc summer_offset (minutes_date 2000 3 1 0 30) (minutes_date 2000 2 28 23 0) (0, 0)) =
     utc_instant (minutes_date 2000 3 1 0 30) (0, 0) - utc_instant (minutes_date 2000 2 28 23 0) (0, 0) \<and>
   elapsedDuration summer_utc summer_offset (minutes_date 2000 3 1 0 30) (minutes_date 2000 2 28 23 0) (0, 0) =
     no_duration\<lparr>dur_day := Some 1, dur_hours := Some 1, dur_minutes := Some 30, dur_seconds := Some 0\<rparr>"
proof (rule conjI)
  have "clock_reads summer_utc summer_offset (minutes_date 2000 3 1 0 30)"
    "clock_reads summer_utc summer_offset (minutes_date 2000 2 28 23 0)"
    "js_date (minutes_date 2000 3 1 0 30)" "js_date (minutes_date 2000 2 28 23 0)"
    "utc_instant (minutes_date 2000 2 28 23 0) (0, 0) \<le> utc_instant (minutes_date 2000 3 1 0 30) (0, 0)"
    by code_simp+
  from elapsed_between_minutes [OF this]
  show "seconds_of (elapsedDuration summer_utc summer_offset (minutes_date 2000 3 1 0 30) (minutes_date 2000 2 28 23 0) (0, 0)) =
     utc_instant (minutes_date 2000 3 1 0 30) (0, 0) - utc_instant (minutes_date 2000 2 28 23 0) (0, 0)"
    by (simp add: minutes_date_def)
  show "elapsedDuration summer_utc summer_offset (minutes_date 2000 3 1 0 30) (minutes_date 2000 2 28 23 0) (0, 0) =
     no_duration\<lparr>dur_day := Some 1, dur_hours := Some 1, dur_minutes := Some 30, dur_seconds := Some 0\<rparr>"
    by code_simp
qed

text \<open>The seconds of an elapsed duration are milliseconds: between two instants a second apart there are a thousand
  seconds.\<close>

theorem elapsed_seconds_are_milliseconds:
  "elapsedDuration id (\<lambda>_. 0) (full_date 2000 1 1 12 0 1) (full_date 2000 1 1 12 0 0) (0, 0) =
     no_duration\<lparr>dur_day := Some 0, dur_hours := Some 0, dur_minutes := Some 0, dur_seconds := Some 1000\<rparr>"
  by code_simp

text \<open>An elapsed duration of minus one hour is minus one day and minus one hour.\<close>

theorem elapsed_negative:
  "elapsedDuration id (\<lambda>_. 0) (full_date 2000 1 1 11 0 0) (full_date 2000 1 1 12 0 0) (0, 0) =
     no_duration\<lparr>dur_day := Some (-1), dur_hours := Some (-1), dur_minutes := Some 0, dur_seconds := Some 0\<rparr>"
  by code_simp

text \<open>The 29th of February of the year 0 and the first of March have the same instant, as the date is made in the
  year 1900, which has no such day.\<close>

theorem leap_day_of_year_zero:
  "toUTCDate id (\<lambda>_. 0) (full_date 0 2 29 0 0 0) (0, 0) = toUTCDate id (\<lambda>_. 0) (full_date 0 3 1 0 0 0) (0, 0) \<and>
   maximumDayInMonthFor 0 2 = 29"
  by code_simp

end
