(* ===== verification/Number_Text.thy ===== *)
theory Number_Text
  imports Prelude
begin

text \<open>
  Numbers as text, as the parsers and serializers of dates use them: \<open>Number\<close> of a string of digits with an
  optional fraction, the digits of a number, and \<open>toLocaleString\<close> with a minimum of integer digits
  (\<open>numSerializer\<close> of \<open>packages/utils-expression-evaluator/lib/util/Serialization.ts\<close>), which rounds
  to three decimals, in a locale with the digits from 0 to 9 and a decimal point.
\<close>

section \<open>Reading digits\<close>

definition is_digit :: "char \<Rightarrow> bool" where
  "is_digit c \<longleftrightarrow> c \<in> set ''0123456789''"

definition digit_value :: "char \<Rightarrow> nat" where
  "digit_value c = of_char c - 48"

definition nat_value :: "string \<Rightarrow> nat" where
  "nat_value s = foldl (\<lambda>n c. 10 * n + digit_value c) 0 s"

fun frac_value :: "string \<Rightarrow> rat" where
  "frac_value [] = 0"
| "frac_value (c # s) = (of_nat (digit_value c) + frac_value s) / 10"

definition decimal_value :: "string \<Rightarrow> rat" where
  "decimal_value s = of_nat (nat_value (takeWhile is_digit s)) + frac_value (drop 1 (dropWhile is_digit s))"

section \<open>Writing digits\<close>

definition pad_left :: "nat \<Rightarrow> string \<Rightarrow> string" where
  "pad_left n s = replicate (n - length s) CHR ''0'' @ s"

definition strip_zeros :: "string \<Rightarrow> string" where
  "strip_zeros s = rev (dropWhile (\<lambda>c. c = CHR ''0'') (rev s))"

definition fraction_text :: "nat \<Rightarrow> nat \<Rightarrow> string" where
  "fraction_text n k = (let s = strip_zeros (pad_left n (nat_string k)) in if s = [] then [] else CHR ''.'' # s)"

definition numSerializer :: "rat \<Rightarrow> nat \<Rightarrow> string" where
  "numSerializer num digits =
     (let n = nat \<lfloor>\<bar>num\<bar> * 1000 + 1 / 2\<rfloor>
      in (if num < 0 then ''-'' else '''') @ pad_left digits (nat_string (n div 1000)) @ fraction_text 3 (n mod 1000))"

text \<open>The string of a number that is not negative, with at most fifteen decimals: without an exponent, and as JavaScript
  writes it, with an exponent below a millionth and from \<open>10 ^ 21\<close> on.\<close>

definition plain_string :: "rat \<Rightarrow> string" where
  "plain_string x = nat_string (nat \<lfloor>x\<rfloor>) @ fraction_text 15 (nat \<lfloor>(x - of_int \<lfloor>x\<rfloor>) * 10 ^ 15\<rfloor>)"

definition plain_number :: "rat \<Rightarrow> bool" where
  "plain_number x \<longleftrightarrow> x = 0 \<or> 1 / 10 ^ 6 \<le> x \<and> x < 10 ^ 21"

text \<open>The exponent that brings a number below 1 up to the units.\<close>

function small_exponent :: "rat \<Rightarrow> nat" where
  "small_exponent x = (if 0 < x \<and> x < 1 then Suc (small_exponent (x * 10)) else 0)"
  by pat_completeness auto
termination
proof (relation "measure (\<lambda>x. nat \<lceil>1 / x\<rceil>)")
  fix x :: rat assume x: "0 < x \<and> x < 1"
  define n where "n = \<lceil>1 / x\<rceil>"
  have "1 < 1 / x" "1 / x \<le> of_int n" using x by (simp_all add: n_def)
  then have n: "2 \<le> n" by (metis less_le_trans of_int_1 of_int_less_iff zless_iff_Suc_zadd one_add_one zle_add1_eq_le add.commute not_le)
  have "1 / (x * 10) = (1 / x) / 10" by simp
  also have "\<dots> \<le> of_int n / 10" using \<open>1 / x \<le> of_int n\<close> by (rule divide_right_mono) simp
  also have "\<dots> \<le> of_int (n - 1)" using n by simp
  finally have "\<lceil>1 / (x * 10)\<rceil> \<le> n - 1" by (rule ceiling_le)
  with n x show "(x * 10, x) \<in> measure (\<lambda>x. nat \<lceil>1 / x\<rceil>)" by (simp add: n_def)
qed simp

declare small_exponent.simps [simp del]

definition number_string :: "rat \<Rightarrow> string" where
  "number_string x =
     (if plain_number x then plain_string x
      else if x < 1
      then (let n = small_exponent x in plain_string (x * 10 ^ n) @ ''e-'' @ nat_string n)
      else (let n = length (nat_string (nat \<lfloor>x\<rfloor>)) - 1 in plain_string (x / 10 ^ n) @ ''e+'' @ nat_string n))"

section \<open>Reading what was written\<close>

lemma digit_char_digit [simp]: "d < 10 \<Longrightarrow> is_digit (digit_char d)"
proof -
  have "\<forall>d \<in> set [0..<10]. is_digit (digit_char d)" by code_simp
  then show "d < 10 \<Longrightarrow> is_digit (digit_char d)" by simp
qed

lemma digit_value_char [simp]: "d < 10 \<Longrightarrow> digit_value (digit_char d) = d"
  by (simp add: digit_value_def digit_char_def)

lemma nat_value_append: "nat_value (s @ [c]) = 10 * nat_value s + digit_value c"
  by (simp add: nat_value_def)

lemma nat_value_zeros: "nat_value (CHR ''0'' # s) = nat_value s"
  by (simp add: nat_value_def digit_value_def)

lemma nat_value_pad [simp]: "nat_value (pad_left n s) = nat_value s"
proof -
  have "nat_value (replicate k CHR ''0'' @ s) = nat_value s" for k by (induction k) (simp_all add: nat_value_zeros)
  then show ?thesis by (simp add: pad_left_def)
qed

lemma nat_string_digits [simp]: "list_all is_digit (nat_string n)"
proof (induction n rule: nat_string.induct)
  case (1 n)
  then show ?case by (subst nat_string.simps) simp
qed

lemma nat_value_string [simp]: "nat_value (nat_string n) = n"
proof (induction n rule: nat_string.induct)
  case (1 n)
  have "nat_value [digit_char n] = n" if "n < 10" using that nat_value_append [of "[]"] by (simp add: nat_value_def)
  with 1 show ?case by (subst nat_string.simps) (simp add: nat_value_append)
qed

lemma zero_digit [simp]: "is_digit CHR ''0''"
  by (simp add: is_digit_def)

lemma pad_left_digits [simp]: "list_all is_digit s \<Longrightarrow> list_all is_digit (pad_left n s)"
  by (auto simp: pad_left_def list_all_iff)

lemma length_pad_left [simp]: "length (pad_left n s) = max n (length s)"
  by (simp add: pad_left_def)

lemma length_nat_string: "n < 10 ^ k \<Longrightarrow> 0 < k \<Longrightarrow> length (nat_string n) \<le> k"
proof (induction n arbitrary: k rule: nat_string.induct)
  case (1 n)
  show ?case
  proof (cases "n < 10")
    case True
    then show ?thesis using 1(3) by (subst nat_string.simps) simp
  next
    case False
    obtain j where j: "k = Suc j" using 1(3) by (cases k) auto
    have k: "k = Suc j" "0 < j" using j False 1(2) by (cases j; simp)+
    then have "n div 10 < 10 ^ j" using 1(2) by (simp add: less_mult_imp_div_less mult.commute)
    then show ?thesis using 1(1) [OF False _ k(2)] False k by (subst nat_string.simps) simp
  qed
qed

lemma frac_value_append: "frac_value (s @ t) = frac_value s + frac_value t / 10 ^ length s"
  by (induction s) (simp_all add: field_simps)

lemma frac_value_nat: "frac_value s = of_nat (nat_value s) / 10 ^ length s"
proof (induction s rule: rev_induct)
  case Nil
  then show ?case by (simp add: nat_value_def)
next
  case (snoc c s)
  then show ?case by (simp add: frac_value_append nat_value_append field_simps)
qed

lemma frac_value_strip [simp]: "frac_value (strip_zeros s) = frac_value s"
proof (induction s rule: rev_induct)
  case (snoc c s)
  then show ?case by (cases "c = CHR ''0''") (simp_all add: strip_zeros_def frac_value_append digit_value_def)
qed (simp add: strip_zeros_def)

lemma strip_zeros_digits [simp]: "list_all is_digit s \<Longrightarrow> list_all is_digit (strip_zeros s)"
  by (auto simp: strip_zeros_def list_all_iff dest: set_dropWhileD)

lemma fraction_text_value:
  assumes "k < 10 ^ n" "0 < n"
  shows "frac_value (drop 1 (fraction_text n k)) = of_nat k / 10 ^ n"
proof -
  have "length (pad_left n (nat_string k)) = n" using length_nat_string [OF assms] by simp
  then have "frac_value (strip_zeros (pad_left n (nat_string k))) = of_nat k / 10 ^ n"
    unfolding frac_value_strip by (simp add: frac_value_nat)
  then show ?thesis
    by (cases "strip_zeros (pad_left n (nat_string k)) = []") (simp_all del: frac_value_strip add: fraction_text_def Let_def)
qed

text \<open>A fraction is empty, or a point and digits.\<close>

lemma fraction_text_form:
  obtains "fraction_text n k = []" | s where "fraction_text n k = CHR ''.'' # s" "s \<noteq> []" "list_all is_digit s"
  by (cases "strip_zeros (pad_left n (nat_string k)) = []") (auto simp: fraction_text_def Let_def)

end
