(* ===== verification/Date_Text.thy ===== *)
theory Date_Text
  imports Number_Text Date_Add
begin

text \<open>
  The texts of dates, times and durations (\<open>Parsing.ts\<close> and \<open>Serialization.ts\<close> of
  \<open>packages/utils-expression-evaluator/lib/util/\<close>).  Each regular expression of the parser is a function that
  gives the groups of a match; the expressions are deterministic, every group ends where a run of digits or
  the text ends.  A \<open>ParseError\<close> has the text and the name of the type.
\<close>

section \<open>Representations\<close>

datatype parse_error = ParseError string string

record time_zone =
  tz_hours :: "int option"
  tz_minutes :: "int option"

record date_fields = time_zone +
  d_year :: int
  d_month :: int
  d_day :: int

record time_fields = time_zone +
  t_hours :: int
  t_minutes :: int
  t_seconds :: rat

section \<open>Matching\<close>

text \<open>\<open>str.split('T')\<close>, of which the code takes the first two parts.\<close>

definition split_T :: "string \<Rightarrow> string \<times> string option" where
  "split_T s =
     (let rest = dropWhile (\<lambda>c. c \<noteq> CHR ''T'') s
      in (takeWhile (\<lambda>c. c \<noteq> CHR ''T'') s,
          if rest = [] then None else Some (takeWhile (\<lambda>c. c \<noteq> CHR ''T'') (tl rest))))"

text \<open>Two digits, a character, and a time zone up to the end of the text.\<close>

fun two_digits :: "string \<Rightarrow> (string \<times> string) option" where
  "two_digits (a # b # s) = (if is_digit a \<and> is_digit b then Some ([a, b], s) else None)"
| "two_digits _ = None"

fun one_char :: "char \<Rightarrow> string \<Rightarrow> string option" where
  "one_char c (a # s) = (if a = c then Some s else None)"
| "one_char c [] = None"

definition is_zone :: "string \<Rightarrow> bool" where
  "is_zone s \<longleftrightarrow> s = [] \<or> s = ''Z'' \<or>
     (length s = 6 \<and> s ! 0 \<in> {CHR ''+'', CHR ''-''} \<and> is_digit (s ! 1) \<and> is_digit (s ! 2) \<and> s ! 3 = CHR '':'' \<and>
      is_digit (s ! 4) \<and> is_digit (s ! 5))"

definition optional_sign :: "string \<Rightarrow> int \<times> string" where
  "optional_sign s = (if s \<noteq> [] \<and> hd s = CHR ''-'' then (-1, tl s) else (1, s))"

text \<open>The expression of \<open>parseDate\<close>: the number of the sign, and the other groups.  The year is digits of which
  only the last four can be zero.\<close>

definition match_date :: "string \<Rightarrow> (int \<times> string \<times> string \<times> string \<times> string) option" where
  "match_date str =
     (let (sign, s) = optional_sign str; year = takeWhile is_digit s
      in if 4 \<le> length year \<and> list_all (\<lambda>c. c \<noteq> CHR ''0'') (take (length year - 4) year)
         then Option.bind (one_char CHR ''-'' (dropWhile is_digit s)) (\<lambda>s1.
              Option.bind (two_digits s1) (\<lambda>(month, s2).
              Option.bind (one_char CHR ''-'' s2) (\<lambda>s3.
              Option.bind (two_digits s3) (\<lambda>(day, zone).
              if is_zone zone then Some (sign, year, month, day, zone) else None))))
         else None)"

text \<open>The fraction of the seconds, a point and digits, and what follows.\<close>

definition match_fraction :: "string \<Rightarrow> string \<times> string" where
  "match_fraction s =
     (let ds = takeWhile is_digit (tl s)
      in if s \<noteq> [] \<and> hd s = CHR ''.'' \<and> ds \<noteq> [] then (CHR ''.'' # ds, dropWhile is_digit (tl s)) else ([], s))"

definition match_time :: "string \<Rightarrow> (string \<times> string \<times> string \<times> string) option" where
  "match_time str =
     Option.bind (two_digits str) (\<lambda>(hours, s1).
     Option.bind (one_char CHR '':'' s1) (\<lambda>s2.
     Option.bind (two_digits s2) (\<lambda>(minutes, s3).
     Option.bind (one_char CHR '':'' s3) (\<lambda>s4.
     Option.bind (two_digits s4) (\<lambda>(seconds, s5).
     let (fraction, zone) = match_fraction s5
     in if is_zone zone then Some (hours, minutes, seconds @ fraction, zone) else None)))))"

text \<open>An optional part of a duration, digits and a letter, and what follows; without a match the digits are empty.
  The code slices the letter off its groups.\<close>

definition match_part :: "char \<Rightarrow> string \<Rightarrow> string \<times> string" where
  "match_part c s =
     (let ds = takeWhile is_digit s; rest = dropWhile is_digit s
      in if ds \<noteq> [] \<and> rest \<noteq> [] \<and> hd rest = c then (ds, tl rest) else ([], s))"

definition match_seconds :: "string \<Rightarrow> string \<times> string" where
  "match_seconds s =
     (let ds = takeWhile is_digit s; (fraction, rest) = match_fraction (dropWhile is_digit s)
      in if ds \<noteq> [] \<and> rest \<noteq> [] \<and> hd rest = CHR ''S'' then (ds @ fraction, tl rest) else ([], s))"

definition match_days :: "string \<Rightarrow> (int \<times> string \<times> string \<times> string) option" where
  "match_days str =
     (let (sign, s) = optional_sign str
      in Option.bind (one_char CHR ''P'' s) (\<lambda>s1.
         let (year, s2) = match_part CHR ''Y'' s1; (month, s3) = match_part CHR ''M'' s2; (day, s4) = match_part CHR ''D'' s3
         in if s4 = [] then Some (sign, year, month, day) else None))"

definition match_hours :: "string \<Rightarrow> (string \<times> string \<times> string) option" where
  "match_hours s =
     (let (hours, s1) = match_part CHR ''H'' s; (minutes, s2) = match_part CHR ''M'' s1; (seconds, s3) = match_seconds s2
      in if s3 = [] then Some (hours, minutes, seconds) else None)"

section \<open>Parsing\<close>

text \<open>The time zone of a text that \<open>is_zone\<close> accepts.\<close>

definition parseTimeZone :: "string \<Rightarrow> int option \<times> int option" where
  "parseTimeZone s =
     (if s = '''' then (None, None)
      else if s = ''Z'' then (Some 0, Some 0)
      else let sign = (if hd s = CHR ''-'' then -1 else 1)
           in (Some (sign * int (nat_value (take 2 (drop 1 s)))), Some (sign * int (nat_value (drop 4 s)))))"

definition parseDate :: "string \<Rightarrow> parse_error + date_fields" where
  "parseDate dateStr =
     (case match_date dateStr of
        None \<Rightarrow> Inl (ParseError dateStr ''date'')
      | Some (sign, year, month, day, zone) \<Rightarrow>
          let res = \<lparr>tz_hours = fst (parseTimeZone zone), tz_minutes = snd (parseTimeZone zone),
                     d_year = sign * int (nat_value year), d_month = int (nat_value month), d_day = int (nat_value day)\<rparr>
          in if \<not> (1 \<le> d_month res \<and> d_month res \<le> 12) \<or>
                \<not> (1 \<le> d_day res \<and> d_day res \<le> maximumDayInMonthFor (d_year res) (d_month res))
             then Inl (ParseError dateStr ''date'') else Inr res)"

definition parseTime_raw :: "string \<Rightarrow> parse_error + time_fields" where
  "parseTime_raw timeStr =
     (case match_time timeStr of
        None \<Rightarrow> Inl (ParseError timeStr ''time'')
      | Some (hours, minutes, seconds, zone) \<Rightarrow>
          let res = \<lparr>tz_hours = fst (parseTimeZone zone), tz_minutes = snd (parseTimeZone zone),
                     t_hours = int (nat_value hours), t_minutes = int (nat_value minutes), t_seconds = decimal_value seconds\<rparr>
          in if 60 \<le> t_seconds res \<or> 60 \<le> t_minutes res \<or> 24 < t_hours res \<or>
                t_hours res = 24 \<and> (t_minutes res \<noteq> 0 \<or> t_seconds res \<noteq> 0)
             then Inl (ParseError timeStr ''time'') else Inr res)"

definition parseTime :: "string \<Rightarrow> parse_error + time_fields" where
  "parseTime timeStr =
     bind_res (parseTime_raw timeStr) (\<lambda>res. Inr (res\<lparr>t_hours := t_hours res smod 24\<rparr>))"

text \<open>The fields of the time are spread over those of the date, with its time zone.\<close>

definition parseDateTime :: "string \<Rightarrow> parse_error + date_time" where
  "parseDateTime dateTimeStr =
     (case split_T dateTimeStr of
        (date, None) \<Rightarrow> Inl (ParseError dateTimeStr ''dateTime'')
      | (date, Some time) \<Rightarrow>
          bind_res (parseDate date) (\<lambda>d. bind_res (parseTime_raw time) (\<lambda>t.
            Inr \<lparr>dt_year = d_year d, dt_month = d_month d, dt_day = d_day d, dt_hours = t_hours t,
                 dt_minutes = t_minutes t, dt_seconds = t_seconds t, zoneHours = tz_hours t, zoneMinutes = tz_minutes t\<rparr>)))"

definition duration_part :: "int \<Rightarrow> string \<Rightarrow> int option" where
  "duration_part sign s = (if s = [] then None else Some (sign * int (nat_value s)))"

definition parseDuration :: "string \<Rightarrow> parse_error + partial_duration" where
  "parseDuration durationStr =
     (let (dayNotation, timeNotation) = split_T durationStr; failed = Inl (ParseError durationStr ''duration'')
      in case match_days dayNotation of
           None \<Rightarrow> failed
         | Some (sign, year, month, day) \<Rightarrow>
             (case (case timeNotation of None \<Rightarrow> Some ([], [], []) | Some t \<Rightarrow> if t = [] then None else match_hours t) of
                None \<Rightarrow> failed
              | Some (hours, minutes, seconds) \<Rightarrow>
                  if list_all (\<lambda>s. s = []) [year, month, day, hours, minutes, seconds] then failed
                  else Inr (simplifyDurationRepresentation
                    \<lparr>dur_year = duration_part sign year, dur_month = duration_part sign month,
                     dur_day = duration_part sign day, dur_hours = duration_part sign hours,
                     dur_minutes = duration_part sign minutes,
                     dur_seconds = (if seconds = [] then None else Some (of_int sign * decimal_value seconds))\<rparr>)))"

text \<open>A field that is there and not zero.\<close>

definition nonzero :: "'a :: zero option \<Rightarrow> bool" where
  "nonzero x = (case x of None \<Rightarrow> False | Some a \<Rightarrow> a \<noteq> 0)"

definition parseYearMonthDuration :: "string \<Rightarrow> parse_error + partial_duration" where
  "parseYearMonthDuration durationStr =
     bind_res (parseDuration durationStr) (\<lambda>res.
       if nonzero (dur_hours res) \<or> nonzero (dur_minutes res) \<or> nonzero (dur_seconds res) \<or> nonzero (dur_day res)
       then Inl (ParseError durationStr ''yearMonthDuration'') else Inr res)"

definition parseDayTimeDuration :: "string \<Rightarrow> parse_error + partial_duration" where
  "parseDayTimeDuration durationStr =
     bind_res (parseDuration durationStr) (\<lambda>res.
       if nonzero (dur_year res) \<or> nonzero (dur_month res)
       then Inl (ParseError durationStr ''dayTimeDuration'') else Inr res)"

section \<open>Serializing\<close>

definition serializeTimeZone :: "int option \<Rightarrow> int option \<Rightarrow> string" where
  "serializeTimeZone hours minutes =
     (case (hours, minutes) of
        (Some h, Some m) \<Rightarrow>
          if h = 0 \<and> m = 0 then ''Z''
          else (if 0 \<le> h then ''+'' @ numSerializer (of_int h) 2 else numSerializer (of_int h) 2) @ '':'' @
               numSerializer (of_int \<bar>m\<bar>) 2
      | _ \<Rightarrow> '''')"

definition serializeDate :: "date_fields \<Rightarrow> string" where
  "serializeDate date =
     numSerializer (of_int (d_year date)) 4 @ ''-'' @ numSerializer (of_int (d_month date)) 2 @ ''-'' @
     numSerializer (of_int (d_day date)) 2 @ serializeTimeZone (tz_hours date) (tz_minutes date)"

definition serializeTime :: "time_fields \<Rightarrow> string" where
  "serializeTime time =
     numSerializer (of_int (t_hours time)) 2 @ '':'' @ numSerializer (of_int (t_minutes time)) 2 @ '':'' @
     numSerializer (t_seconds time) 2 @ serializeTimeZone (tz_hours time) (tz_minutes time)"

definition serializeDateTime :: "date_time \<Rightarrow> string" where
  "serializeDateTime date =
     serializeDate \<lparr>tz_hours = None, tz_minutes = None, d_year = dt_year date, d_month = dt_month date, d_day = dt_day date\<rparr> @
     ''T'' @ serializeTime \<lparr>tz_hours = zoneHours date, tz_minutes = zoneMinutes date, t_hours = dt_hours date,
       t_minutes = dt_minutes date, t_seconds = dt_seconds date\<rparr>"

definition part_text :: "rat option \<Rightarrow> string \<Rightarrow> string" where
  "part_text x letter = (if nonzero x then number_string \<bar>or_else x 0\<bar> @ letter else '''')"

definition some_values :: "(rat \<Rightarrow> bool) \<Rightarrow> partial_duration \<Rightarrow> bool" where
  "some_values P dur \<longleftrightarrow>
     P (of_int (or_else (dur_year dur) 0)) \<or> P (of_int (or_else (dur_month dur) 0)) \<or> P (of_int (or_else (dur_day dur) 0)) \<or>
     P (of_int (or_else (dur_hours dur) 0)) \<or> P (of_int (or_else (dur_minutes dur) 0)) \<or> P (or_else (dur_seconds dur) 0)"

definition serializeDuration :: "partial_duration \<Rightarrow> string \<Rightarrow> string" where
  "serializeDuration dur zeroString =
     (if \<not> some_values (\<lambda>v. v \<noteq> 0) dur then zeroString
      else let sign = (if some_values (\<lambda>v. v < 0) dur then ''-'' else '''');
               year = part_text (map_option of_int (dur_year dur)) ''Y'';
               month = part_text (map_option of_int (dur_month dur)) ''M'';
               day = part_text (map_option of_int (dur_day dur)) ''D'';
               dayNotation = sign @ ''P'' @ year @ month @ day
           in if \<not> (nonzero (dur_hours dur) \<or> nonzero (dur_minutes dur) \<or> nonzero (dur_seconds dur)) then dayNotation
              else dayNotation @ ''T'' @ part_text (map_option of_int (dur_hours dur)) ''H'' @
                   part_text (map_option of_int (dur_minutes dur)) ''M'' @ part_text (dur_seconds dur) ''S'')"

section \<open>Round trips\<close>

lemma not_digits [simp]:
  "\<not> is_digit CHR ''-''" "\<not> is_digit CHR '':''" "\<not> is_digit CHR ''.''" "\<not> is_digit CHR ''Z''" "\<not> is_digit CHR ''+''"
  "\<not> is_digit CHR ''T''" "\<not> is_digit CHR ''S''" "\<not> is_digit CHR ''Y''" "\<not> is_digit CHR ''M''" "\<not> is_digit CHR ''D''"
  "\<not> is_digit CHR ''H''" "\<not> is_digit CHR ''P''"
  by (simp_all add: is_digit_def)

lemma take_digits:
  assumes "list_all is_digit ds" "s = [] \<or> \<not> is_digit (hd s)"
  shows "takeWhile is_digit (ds @ s) = ds" "dropWhile is_digit (ds @ s) = s"
  using assms by (cases s; simp add: list_all_iff)+

lemma numSerializer_int:
  "numSerializer (of_int k) n = (if k < 0 then ''-'' else '''') @ pad_left n (nat_string (nat \<bar>k\<bar>))"
proof -
  have "\<lfloor>\<bar>rat_of_int k\<bar> * 1000 + 1 / 2\<rfloor> = \<bar>k\<bar> * 1000" by (rule floor_unique) simp_all
  then have "nat \<lfloor>\<bar>rat_of_int k\<bar> * 1000 + 1 / 2\<rfloor> = nat \<bar>k\<bar> * 1000" by (simp add: nat_mult_distrib)
  moreover have "fraction_text 3 0 = []" by code_simp
  ultimately show ?thesis by (simp add: numSerializer_def Let_def)
qed

definition two_text :: "int \<Rightarrow> string" where
  "two_text k = pad_left 2 (nat_string (nat k))"

lemma two_text:
  assumes "0 \<le> k" "k < 100"
  shows "numSerializer (of_int k) 2 = two_text k" "int (nat_value (two_text k)) = k" "length (two_text k) = 2"
    "list_all is_digit (two_text k)"
proof -
  show "length (two_text k) = 2" using length_nat_string [of "nat k" 2] assms by (simp add: two_text_def)
qed (use assms in \<open>simp_all add: numSerializer_int two_text_def\<close>)

lemma two_digits_text: "length t = 2 \<Longrightarrow> list_all is_digit t \<Longrightarrow> two_digits (t @ s) = Some (t, s)"
  by (cases t; cases "tl t") auto

lemma hd_nat_string: "0 < n \<Longrightarrow> hd (nat_string n) \<noteq> CHR ''0''"
proof (induction n rule: nat_string.induct)
  case (1 n)
  have digits: "\<forall>d \<in> set [1..<10]. digit_char d \<noteq> CHR ''0''" by code_simp
  have "nat_string (n div 10) \<noteq> []" by (subst nat_string.simps) simp
  with 1 digits show ?case by (subst nat_string.simps) auto
qed

lemma year_text:
  assumes "\<bar>y\<bar> < 100000"
  defines "t \<equiv> pad_left 4 (nat_string (nat \<bar>y\<bar>))"
  shows "4 \<le> length t" "list_all (\<lambda>c. c \<noteq> CHR ''0'') (take (length t - 4) t)" "list_all is_digit t" "int (nat_value t) = \<bar>y\<bar>"
proof -
  have len: "length (nat_string (nat \<bar>y\<bar>)) \<le> 5" using length_nat_string [of "nat \<bar>y\<bar>" 5] assms(1) by simp
  show "list_all (\<lambda>c. c \<noteq> CHR ''0'') (take (length t - 4) t)"
  proof (cases "length (nat_string (nat \<bar>y\<bar>)) \<le> 4")
    case False
    then have "y \<noteq> 0" using length_nat_string [of 0 1] by auto
    moreover have "t = nat_string (nat \<bar>y\<bar>)" "length t = 5" using False len by (simp_all add: t_def pad_left_def)
    ultimately show ?thesis using hd_nat_string [of "nat \<bar>y\<bar>"] by (cases "nat_string (nat \<bar>y\<bar>)") auto
  qed (simp add: t_def)
qed (simp_all add: t_def)

text \<open>Offsets with hours and minutes of two digits and one sign; those of less than an hour are not negative.\<close>

definition zone_ok :: "int option \<Rightarrow> int option \<Rightarrow> bool" where
  "zone_ok hours minutes =
     (case (hours, minutes) of
        (None, None) \<Rightarrow> True
      | (Some h, Some m) \<Rightarrow> \<bar>h\<bar> < 100 \<and> \<bar>m\<bar> < 100 \<and> (if 0 \<le> h then 0 \<le> m else m \<le> 0)
      | _ \<Rightarrow> False)"

lemma two_text_chars:
  assumes "0 \<le> k" "k < 100"
  obtains a b where "two_text k = [a, b]" "is_digit a" "is_digit b" "int (nat_value [a, b]) = k"
proof -
  obtain a b where "two_text k = [a, b]" using two_text(3) [OF assms] by (cases "two_text k"; cases "tl (two_text k)") auto
  then show thesis using that two_text(2,4) [OF assms] by simp
qed

lemma zone_text_roundtrip:
  assumes "zone_ok h m"
  shows "is_zone (serializeTimeZone h m) \<and> parseTimeZone (serializeTimeZone h m) = (h, m)"
proof (cases h)
  case None
  then show ?thesis using assms by (cases m) (simp_all add: zone_ok_def serializeTimeZone_def parseTimeZone_def is_zone_def)
next
  case (Some i)
  then obtain j where m: "m = Some j" using assms by (cases m) (simp_all add: zone_ok_def)
  have ij: "\<bar>i\<bar> < 100" "\<bar>j\<bar> < 100" "if 0 \<le> i then 0 \<le> j else j \<le> 0" using assms Some m by (simp_all add: zone_ok_def)
  obtain a b where i: "two_text \<bar>i\<bar> = [a, b]" "is_digit a" "is_digit b" "int (nat_value [a, b]) = \<bar>i\<bar>"
    using two_text_chars [of "\<bar>i\<bar>"] ij(1) by auto
  obtain c d where j: "two_text \<bar>j\<bar> = [c, d]" "is_digit c" "is_digit d" "int (nat_value [c, d]) = \<bar>j\<bar>"
    using two_text_chars [of "\<bar>j\<bar>"] ij(2) by auto
  show ?thesis
  proof (cases "i = 0 \<and> j = 0")
    case True
    then show ?thesis using Some m by (simp add: serializeTimeZone_def parseTimeZone_def is_zone_def)
  next
    case False
    have hours: "(if 0 \<le> i then ''+'' @ numSerializer (of_int i) 2 else numSerializer (of_int i) 2) =
        [if 0 \<le> i then CHR ''+'' else CHR ''-'', a, b]"
      using i(1) by (auto simp: numSerializer_int two_text_def)
    have minutes: "numSerializer (rat_of_int \<bar>j\<bar>) 2 = [c, d]" using j(1) unfolding numSerializer_int two_text_def by simp
    have t: "serializeTimeZone h m = [if 0 \<le> i then CHR ''+'' else CHR ''-'', a, b, CHR '':'', c, d]"
      using False unfolding serializeTimeZone_def Some m by (simp only: prod.case option.case hours minutes) simp
    show ?thesis using i j ij(3) Some m unfolding t by (auto simp: is_zone_def parseTimeZone_def)
  qed
qed

lemma zone_start: "serializeTimeZone h m = [] \<or> \<not> is_digit (hd (serializeTimeZone h m)) \<and> hd (serializeTimeZone h m) \<noteq> CHR ''.''"
  by (auto simp: serializeTimeZone_def numSerializer_int split: option.split)

text \<open>Parsing the text of a valid date gives the date, for years of at most five digits and a time zone whose hours
  and minutes have one sign.\<close>

theorem date_roundtrip:
  assumes "valid_day (d_year date) (d_month date) (d_day date)" "\<bar>d_year date\<bar> < 100000"
    and "zone_ok (tz_hours date) (tz_minutes date)"
  shows "parseDate (serializeDate date) = Inr date"
proof -
  let ?z = "serializeTimeZone (tz_hours date) (tz_minutes date)"
  let ?y = "pad_left 4 (nat_string (nat \<bar>d_year date\<bar>))" and ?m = "two_text (d_month date)" and ?d = "two_text (d_day date)"
  have range: "0 \<le> d_month date" "d_month date < 100" "0 \<le> d_day date" "d_day date < 100"
    using assms(1) max_day_bounds [of "d_year date" "d_month date"] by (auto simp: valid_day_def)
  note y = year_text [OF assms(2)] and m = two_text [OF range(1,2)] and d = two_text [OF range(3,4)]
  let ?rest = "?y @ ''-'' @ ?m @ ''-'' @ ?d @ ?z"
  have "serializeDate date = (if d_year date < 0 then ''-'' else '''') @ ?rest"
    by (simp add: serializeDate_def numSerializer_int [of "d_year date"] m d)
  moreover have "hd ?rest \<noteq> CHR ''-''" using y(1,3) by (cases ?y) auto
  ultimately have "optional_sign (serializeDate date) = (if d_year date < 0 then -1 else 1, ?rest)"
    by (auto simp: optional_sign_def)
  moreover have "takeWhile is_digit ?rest = ?y" "dropWhile is_digit ?rest = ''-'' @ ?m @ ''-'' @ ?d @ ?z"
    using take_digits [OF y(3)] by simp_all
  ultimately have "match_date (serializeDate date) = Some (if d_year date < 0 then -1 else 1, ?y, ?m, ?d, ?z)"
    using y(1,2) two_digits_text [OF m(3,4)] two_digits_text [OF d(3,4)] zone_text_roundtrip [OF assms(3)]
    by (simp add: match_date_def Let_def)
  then show ?thesis
    using assms(1) y(4) m(2) d(2) zone_text_roundtrip [OF assms(3)]
    by (simp add: parseDate_def Let_def valid_day_def flip: of_nat_less_iff of_nat_le_iff)
qed

text \<open>Seconds of at most three decimals, which the serializer does not round.\<close>

definition three_decimals :: "rat \<Rightarrow> bool" where
  "three_decimals s \<longleftrightarrow> of_int \<lfloor>s * 1000\<rfloor> = s * 1000"

lemma match_fraction_text:
  assumes "z = [] \<or> \<not> is_digit (hd z) \<and> hd z \<noteq> CHR ''.''"
  shows "match_fraction (fraction_text n k @ z) = (fraction_text n k, z)"
proof (cases rule: fraction_text_form [of n k])
  case 1
  then show ?thesis using assms by (auto simp: match_fraction_def Let_def)
next
  case (2 s)
  have "takeWhile is_digit (s @ z) = s" "dropWhile is_digit (s @ z) = z" using take_digits [of s z] 2(3) assms by auto
  then show ?thesis using 2 by (simp add: match_fraction_def Let_def)
qed

lemma decimal_value_text:
  assumes "list_all is_digit t" "k < 10 ^ n" "0 < n"
  shows "decimal_value (t @ fraction_text n k) = of_nat (nat_value t) + of_nat k / 10 ^ n"
proof -
  have "fraction_text n k = [] \<or> \<not> is_digit (hd (fraction_text n k))" by (cases rule: fraction_text_form [of n k]) auto
  then show ?thesis
    using take_digits [OF assms(1), of "fraction_text n k"] fraction_text_value [OF assms(2,3)] by (simp add: decimal_value_def)
qed

lemma seconds_text:
  assumes "0 \<le> s" "s < 60" "three_decimals s"
  obtains t k where "numSerializer s 2 = t @ fraction_text 3 k" "length t = 2" "list_all is_digit t"
    "decimal_value (t @ fraction_text 3 k) = s"
proof -
  define n where "n = \<lfloor>s * 1000\<rfloor>"
  have s: "s * 1000 = of_int n" using assms(3) unfolding three_decimals_def n_def by (rule sym)
  then have n: "0 \<le> n" "n < 60000" using assms(1,2) by (simp_all add: n_def floor_less_iff)
  have "\<lfloor>\<bar>s\<bar> * 1000 + 1 / 2\<rfloor> = n" using assms(1) s by (intro floor_unique) simp_all
  then have "numSerializer s 2 = two_text (n div 1000) @ fraction_text 3 (nat n mod 1000)"
    using assms(1) n(1) by (simp add: numSerializer_def Let_def two_text_def nat_div_distrib)
  moreover have i: "0 \<le> n div 1000" "n div 1000 < 100" using n by auto
  moreover have "decimal_value (two_text (n div 1000) @ fraction_text 3 (nat n mod 1000)) = s"
  proof -
    have "rat_of_nat (nat_value (two_text (n div 1000))) = of_int (n div 1000)"
      using two_text(2) [OF i] by (metis of_int_of_nat_eq)
    moreover have "rat_of_nat (nat n mod 1000) = of_int (n mod 1000)"
      using n(1) by (metis nat_mod_distrib nat_numeral of_nat_nat pos_mod_sign zero_less_numeral zero_le_numeral of_int_of_nat_eq)
    moreover have "rat_of_int (n div 1000) * 1000 + of_int (n mod 1000) = of_int n"
      by (metis div_mult_mod_eq of_int_add of_int_mult of_int_numeral)
    ultimately show ?thesis
      using decimal_value_text [OF two_text(4) [OF i], of "nat n mod 1000" 3] s by (simp add: field_simps)
  qed
  ultimately show thesis using that [of "two_text (n div 1000)"] two_text(3,4) [OF i] by simp
qed

definition valid_time :: "time_fields \<Rightarrow> bool" where
  "valid_time t \<longleftrightarrow> 0 \<le> t_hours t \<and> t_hours t < 24 \<and> 0 \<le> t_minutes t \<and> t_minutes t < 60 \<and> 0 \<le> t_seconds t \<and>
     t_seconds t < 60 \<and> three_decimals (t_seconds t) \<and> zone_ok (tz_hours t) (tz_minutes t)"

lemma parseTime_raw_text:
  assumes "valid_time time" shows "parseTime_raw (serializeTime time) = Inr time"
proof -
  let ?z = "serializeTimeZone (tz_hours time) (tz_minutes time)"
  let ?h = "two_text (t_hours time)" and ?m = "two_text (t_minutes time)"
  have range: "0 \<le> t_hours time" "t_hours time < 100" "0 \<le> t_minutes time" "t_minutes time < 100"
    "0 \<le> t_seconds time" "t_seconds time < 60" "three_decimals (t_seconds time)" "zone_ok (tz_hours time) (tz_minutes time)"
    using assms by (simp_all add: valid_time_def)
  note h = two_text [OF range(1,2)] and m = two_text [OF range(3,4)]
  obtain t k where s: "numSerializer (t_seconds time) 2 = t @ fraction_text 3 k" "length t = 2" "list_all is_digit t"
    "decimal_value (t @ fraction_text 3 k) = t_seconds time" by (rule seconds_text [OF range(5-7)])
  have "serializeTime time = ?h @ '':'' @ ?m @ '':'' @ t @ fraction_text 3 k @ ?z"
    by (simp add: serializeTime_def h m s)
  then have "match_time (serializeTime time) = Some (?h, ?m, t @ fraction_text 3 k, ?z)"
    using two_digits_text [OF h(3,4)] two_digits_text [OF m(3,4)] two_digits_text [OF s(2,3)]
      match_fraction_text [OF zone_start] zone_text_roundtrip [OF range(8)]
    by (simp add: match_time_def Let_def)
  then show ?thesis
    using assms h(2) m(2) s(4) zone_text_roundtrip [OF range(8)] by (simp add: parseTime_raw_def Let_def valid_time_def)
qed

text \<open>Parsing the text of a time of a day gives the time, when its seconds have at most three decimals.\<close>

theorem time_roundtrip:
  assumes "valid_time time" shows "parseTime (serializeTime time) = Inr time"
proof -
  have "t_hours time smod 24 = t_hours time" using assms by (simp add: valid_time_def signed_modulo_int_def sgn_if)
  then show ?thesis using parseTime_raw_text [OF assms] by (simp add: parseTime_def)
qed

lemma numSerializer_chars: "c \<in> set (numSerializer x n) \<Longrightarrow> is_digit c \<or> c = CHR ''-'' \<or> c = CHR ''.''"
proof -
  assume c: "c \<in> set (numSerializer x n)"
  have digits: "is_digit c" if "c \<in> set (pad_left n (nat_string k))" for k
    using that pad_left_digits [OF nat_string_digits, of n k] by (simp add: list_all_iff)
  have frac: "is_digit c \<or> c = CHR ''.''" if "c \<in> set (fraction_text 3 k)" for k
    using that by (cases rule: fraction_text_form [of 3 k]) (auto simp: list_all_iff)
  show ?thesis using c digits frac by (auto simp: numSerializer_def Let_def split: if_splits)
qed

lemma numSerializer_no_T [simp]: "CHR ''T'' \<notin> set (numSerializer x n)"
  using numSerializer_chars [of "CHR ''T''" x n] by auto

lemma split_T_once: "CHR ''T'' \<notin> set s \<Longrightarrow> CHR ''T'' \<notin> set t \<Longrightarrow> split_T (s @ ''T'' @ t) = (s, Some t)"
  by (auto simp: split_T_def Let_def takeWhile_eq_all_conv dropWhile_append takeWhile_append)

lemma zone_no_T: "CHR ''T'' \<notin> set (serializeTimeZone h m)"
  by (auto simp: serializeTimeZone_def split: option.split)

lemma date_no_T: "CHR ''T'' \<notin> set (serializeDate d)" and time_no_T: "CHR ''T'' \<notin> set (serializeTime t)"
  by (simp_all add: serializeDate_def serializeTime_def zone_no_T)

text \<open>C23. Parsing the text of a valid date and time gives it, with its time zone, when the year has at most five digits,
  the seconds have at most three decimals, and the offset of the time zone has hours and minutes of one sign and two
  digits and is no negative offset of less than an hour.  The other cases are not read back
  (\<open>six_digit_year\<close>, \<open>seconds_rounded_up\<close>, \<open>negative_minutes_offset\<close>).\<close>

theorem date_time_roundtrip:
  assumes "valid_date_time date" "\<bar>dt_year date\<bar> < 100000" "three_decimals (dt_seconds date)"
    and "zone_ok (zoneHours date) (zoneMinutes date)"
  shows "parseDateTime (serializeDateTime date) = Inr date"
proof -
  let ?d = "\<lparr>tz_hours = None, tz_minutes = None, d_year = dt_year date, d_month = dt_month date, d_day = dt_day date\<rparr>"
  let ?t = "\<lparr>tz_hours = zoneHours date, tz_minutes = zoneMinutes date, t_hours = dt_hours date,
    t_minutes = dt_minutes date, t_seconds = dt_seconds date\<rparr>"
  have "split_T (serializeDateTime date) = (serializeDate ?d, Some (serializeTime ?t))"
    unfolding serializeDateTime_def by (intro split_T_once date_no_T time_no_T)
  moreover have "parseDate (serializeDate ?d) = Inr ?d"
    using assms by (intro date_roundtrip) (simp_all add: valid_date_time_def zone_ok_def)
  moreover have "parseTime_raw (serializeTime ?t) = Inr ?t"
    using assms by (intro parseTime_raw_text) (simp add: valid_time_def valid_date_time_def)
  ultimately show ?thesis by (simp add: parseDateTime_def)
qed

lemma digit_values:
  "digit_value CHR ''0'' = 0" "digit_value CHR ''1'' = 1" "digit_value CHR ''2'' = 2" "digit_value CHR ''3'' = 3"
  "digit_value CHR ''4'' = 4" "digit_value CHR ''5'' = 5" "digit_value CHR ''6'' = 6" "digit_value CHR ''7'' = 7"
  "digit_value CHR ''8'' = 8" "digit_value CHR ''9'' = 9"
  by (simp_all add: digit_value_def of_char_def)

lemma digit_chars:
  "digit_char 0 = CHR ''0''" "digit_char (Suc 0) = CHR ''1''" "digit_char 2 = CHR ''2''" "digit_char 3 = CHR ''3''"
  "digit_char 4 = CHR ''4''" "digit_char 5 = CHR ''5''" "digit_char 6 = CHR ''6''" "digit_char 7 = CHR ''7''"
  "digit_char 8 = CHR ''8''" "digit_char 9 = CHR ''9''"
  by (simp_all add: digit_char_def char_of_def bit_0)

lemmas text_simps = numSerializer_int nat_string.simps digit_chars pad_left_def serializeTimeZone_def
  fraction_text_def strip_zeros_def

lemmas parse_simps = match_date_def optional_sign_def is_zone_def is_digit_def parseTimeZone_def nat_value_def digit_values
  parseDate_def Let_def

section \<open>Durations\<close>

text \<open>Seconds of at most fifteen decimals.\<close>

definition finite_decimal :: "rat \<Rightarrow> bool" where
  "finite_decimal s \<longleftrightarrow> of_int \<lfloor>s * 10 ^ 15\<rfloor> = s * 10 ^ 15"

definition plain_part :: "rat option \<Rightarrow> string \<Rightarrow> string" where
  "plain_part x letter = (if nonzero x then plain_string \<bar>or_else x 0\<bar> @ letter else '''')"

text \<open>No field needs an exponent.\<close>

definition plain_duration :: "partial_duration \<Rightarrow> bool" where
  "plain_duration dur \<longleftrightarrow> \<not> some_values (\<lambda>v. \<not> plain_number \<bar>v\<bar>) dur"

lemma part_text_plain: "plain_number \<bar>or_else x 0\<bar> \<Longrightarrow> part_text x l = plain_part x l"
  by (simp add: part_text_def plain_part_def number_string_def)

lemma or_else_of_int: "or_else (map_option rat_of_int x) 0 = of_int (or_else x 0)"
  by (cases x) simp_all

lemma plain_duration_parts:
  assumes "plain_duration dur"
  shows "part_text (map_option of_int (dur_year dur)) l = plain_part (map_option of_int (dur_year dur)) l"
    "part_text (map_option of_int (dur_month dur)) l = plain_part (map_option of_int (dur_month dur)) l"
    "part_text (map_option of_int (dur_day dur)) l = plain_part (map_option of_int (dur_day dur)) l"
    "part_text (map_option of_int (dur_hours dur)) l = plain_part (map_option of_int (dur_hours dur)) l"
    "part_text (map_option of_int (dur_minutes dur)) l = plain_part (map_option of_int (dur_minutes dur)) l"
    "part_text (dur_seconds dur) l = plain_part (dur_seconds dur) l"
  using assms by (simp_all add: plain_duration_def some_values_def part_text_plain or_else_of_int)

lemma plain_string_value:
  assumes "0 \<le> x" "finite_decimal x" shows "decimal_value (plain_string x) = x"
proof -
  let ?f = "(x - of_int \<lfloor>x\<rfloor>) * 10 ^ 15"
  define k where "k = nat \<lfloor>?f\<rfloor>"
  have "x * 10 ^ 15 = of_int \<lfloor>x * 10 ^ 15\<rfloor>" using assms(2) unfolding finite_decimal_def by (rule sym)
  then have f: "?f = of_int (\<lfloor>x * 10 ^ 15\<rfloor> - \<lfloor>x\<rfloor> * 10 ^ 15)" by (simp add: algebra_simps)
  have fl: "\<lfloor>?f\<rfloor> = \<lfloor>x * 10 ^ 15\<rfloor> - \<lfloor>x\<rfloor> * 10 ^ 15" unfolding f floor_of_int ..
  have "0 \<le> x - of_int \<lfloor>x\<rfloor>" "x - of_int \<lfloor>x\<rfloor> < 1" by linarith+
  then have bounds: "0 \<le> ?f" "?f < 10 ^ 15" by simp_all
  then have k: "0 \<le> \<lfloor>?f\<rfloor>" "k < 10 ^ 15" unfolding k_def by (simp_all add: nat_less_iff floor_less_iff)
  have fk: "rat_of_nat k = ?f" using k(1) f fl unfolding k_def by (metis of_nat_nat)
  have "plain_string x = nat_string (nat \<lfloor>x\<rfloor>) @ fraction_text 15 k" unfolding plain_string_def k_def ..
  then have "decimal_value (plain_string x) = of_int \<lfloor>x\<rfloor> + of_nat k / 10 ^ 15"
    using decimal_value_text [OF nat_string_digits k(2), of "nat \<lfloor>x\<rfloor>"] assms(1) by simp
  also have "\<dots> = x" unfolding fk by (simp add: field_simps)
  finally show ?thesis .
qed

lemma plain_string_int: "plain_string (of_int k) = nat_string (nat k)"
proof -
  have "fraction_text 15 0 = []" by (simp add: fraction_text_def strip_zeros_def pad_left_def nat_string.simps digit_chars)
  then show ?thesis by (simp add: plain_string_def)
qed

lemma nat_string_not_Nil [simp]: "nat_string n \<noteq> []"
  by (subst nat_string.simps) simp

definition part_digits :: "int option \<Rightarrow> string" where
  "part_digits x = (if nonzero x then nat_string (nat \<bar>or_else x 0\<bar>) else [])"

lemma plain_part_int: "plain_part (map_option of_int x) l = (if nonzero x then part_digits x @ l else [])"
proof (cases x)
  case (Some a)
  have "plain_string \<bar>rat_of_int a\<bar> = nat_string (nat \<bar>a\<bar>)" using plain_string_int [of "\<bar>a\<bar>"] by simp
  with Some show ?thesis by (simp add: plain_part_def part_digits_def nonzero_def)
qed (simp add: plain_part_def nonzero_def)

text \<open>Text that has no part with the letter in front.\<close>

definition no_part :: "char \<Rightarrow> string \<Rightarrow> bool" where
  "no_part c s \<longleftrightarrow> (let rest = dropWhile is_digit s in rest = [] \<or> hd rest \<noteq> c)"

lemma part_digits_digits [simp]: "list_all is_digit (part_digits x)"
  by (simp add: part_digits_def)

lemma match_part_text:
  assumes "\<not> is_digit c" "no_part c s"
  shows "match_part c (plain_part (map_option of_int x) [c] @ s) = (part_digits x, s)"
proof (cases "nonzero x")
  case True
  then have "part_digits x \<noteq> []" by (simp add: part_digits_def)
  then show ?thesis
    using True take_digits [OF part_digits_digits, of "c # s" x] assms(1) by (simp add: plain_part_int match_part_def Let_def)
next
  case False
  then show ?thesis using assms(2) by (auto simp: plain_part_int match_part_def no_part_def part_digits_def Let_def)
qed

lemma no_part_text: "c \<noteq> d \<Longrightarrow> \<not> is_digit d \<Longrightarrow> no_part c s \<Longrightarrow> no_part c (plain_part (map_option of_int x) [d] @ s)"
  using take_digits [OF part_digits_digits, of "d # s" x] by (simp add: plain_part_int no_part_def Let_def)

lemma no_part_Nil [simp]: "no_part c []"
  by (simp add: no_part_def)

lemma plain_string_form:
  obtains k where "plain_string x = nat_string (nat \<lfloor>x\<rfloor>) @ fraction_text 15 k"
  by (simp add: plain_string_def)

lemma no_part_seconds: "c \<noteq> CHR ''S'' \<Longrightarrow> c \<noteq> CHR ''.'' \<Longrightarrow> no_part c (plain_part x ''S'')"
proof -
  assume c: "c \<noteq> CHR ''S''" "c \<noteq> CHR ''.''"
  obtain k where k: "plain_string \<bar>or_else x 0\<bar> = nat_string (nat \<lfloor>\<bar>or_else x 0\<bar>\<rfloor>) @ fraction_text 15 k"
    by (rule plain_string_form)
  have "hd (fraction_text 15 k @ ''S'') \<noteq> c \<and> \<not> is_digit (hd (fraction_text 15 k @ ''S''))"
    using c by (cases rule: fraction_text_form [of 15 k]) auto
  then show "no_part c (plain_part x ''S'')"
    using take_digits(2) [OF nat_string_digits, of "fraction_text 15 k @ ''S''"] k by (simp add: plain_part_def no_part_def Let_def)
qed

lemma match_seconds_text:
  "match_seconds (plain_part x ''S'') = (if nonzero x then plain_string \<bar>or_else x 0\<bar> else [], [])"
proof (cases "nonzero x")
  case True
  obtain k where k: "plain_string \<bar>or_else x 0\<bar> = nat_string (nat \<lfloor>\<bar>or_else x 0\<bar>\<rfloor>) @ fraction_text 15 k"
    by (rule plain_string_form)
  have "\<not> is_digit (hd (fraction_text 15 k @ ''S''))" by (cases rule: fraction_text_form [of 15 k]) auto
  then show ?thesis
    using True k take_digits [OF nat_string_digits, of "fraction_text 15 k @ ''S''"] match_fraction_text [of "''S''" 15 k]
    by (simp add: plain_part_def match_seconds_def Let_def)
next
  case False
  then show ?thesis by (simp add: plain_part_def match_seconds_def match_fraction_def Let_def)
qed

lemma match_hours_text:
  "match_hours (plain_part (map_option of_int h) ''H'' @ plain_part (map_option of_int m) ''M'' @ plain_part x ''S'') =
     Some (part_digits h, part_digits m, if nonzero x then plain_string \<bar>or_else x 0\<bar> else [])"
proof -
  have "match_part CHR ''H'' (plain_part (map_option of_int h) ''H'' @ plain_part (map_option of_int m) ''M'' @ plain_part x ''S'') =
      (part_digits h, plain_part (map_option of_int m) ''M'' @ plain_part x ''S'')"
    by (intro match_part_text no_part_text no_part_seconds) simp_all
  moreover have "match_part CHR ''M'' (plain_part (map_option of_int m) ''M'' @ plain_part x ''S'') = (part_digits m, plain_part x ''S'')"
    by (intro match_part_text no_part_seconds) simp_all
  ultimately show ?thesis by (simp add: match_hours_def match_seconds_text Let_def)
qed

lemma match_days_text:
  "match_days ((if neg then ''-'' else '''') @ ''P'' @ plain_part (map_option of_int y) ''Y'' @
       plain_part (map_option of_int m) ''M'' @ plain_part (map_option of_int d) ''D'') =
     Some (if neg then -1 else 1, part_digits y, part_digits m, part_digits d)"
proof -
  let ?d = "plain_part (map_option of_int d) ''D''" and ?m = "plain_part (map_option of_int m) ''M''"
  have "match_part CHR ''Y'' (plain_part (map_option of_int y) ''Y'' @ ?m @ ?d @ []) = (part_digits y, ?m @ ?d @ [])"
    by (intro match_part_text no_part_text) simp_all
  moreover have "match_part CHR ''M'' (?m @ ?d @ []) = (part_digits m, ?d @ [])"
    by (intro match_part_text no_part_text) simp_all
  moreover have "match_part CHR ''D'' (?d @ []) = (part_digits d, [])" by (intro match_part_text) simp_all
  ultimately show ?thesis by (simp add: match_days_def optional_sign_def Let_def)
qed


lemma simplify_cong:
  "defaultedDurationRepresentation d = defaultedDurationRepresentation e \<Longrightarrow>
     simplifyDurationRepresentation d = simplifyDurationRepresentation e"
  by (simp add: simplifyDurationRepresentation_def)

lemma parse_zero_duration:
  assumes "zero \<in> {''PT0S'', ''P0M''}" shows "parseDuration zero = Inr (simplifyDurationRepresentation no_duration)"
proof -
  let ?s = "no_duration\<lparr>dur_seconds := Some 0\<rparr>" and ?m = "no_duration\<lparr>dur_month := Some 0\<rparr>"
  have "parseDuration ''PT0S'' = Inr (simplifyDurationRepresentation ?s)"
    by (simp add: parseDuration_def split_T_def match_days_def match_hours_def match_part_def match_seconds_def
        match_fraction_def optional_sign_def is_digit_def duration_part_def decimal_value_def nat_value_def digit_values
        no_duration_def Let_def)
  moreover have "parseDuration ''P0M'' = Inr (simplifyDurationRepresentation ?m)"
    by (simp add: parseDuration_def split_T_def match_days_def match_part_def
        optional_sign_def is_digit_def duration_part_def nat_value_def digit_values no_duration_def Let_def)
  moreover have "defaultedDurationRepresentation ?s = defaultedDurationRepresentation no_duration"
    "defaultedDurationRepresentation ?m = defaultedDurationRepresentation no_duration" by code_simp+
  ultimately show ?thesis using assms simplify_cong [of ?s no_duration] simplify_cong [of ?m no_duration] by auto
qed

lemma plain_part_no_T: "l \<noteq> CHR ''T'' \<Longrightarrow> CHR ''T'' \<notin> set (plain_part x [l])"
proof -
  assume l: "l \<noteq> CHR ''T''"
  obtain k where k: "plain_string \<bar>or_else x 0\<bar> = nat_string (nat \<lfloor>\<bar>or_else x 0\<bar>\<rfloor>) @ fraction_text 15 k"
    by (rule plain_string_form)
  have "CHR ''T'' \<notin> set (nat_string n)" for n
    using nat_string_digits [of n] by (auto simp: list_all_iff)
  moreover have "CHR ''T'' \<notin> set (fraction_text 15 k)"
    by (cases rule: fraction_text_form [of 15 k]) (auto simp: list_all_iff)
  ultimately show ?thesis using l k by (auto simp: plain_part_def)
qed

lemma duration_part_digits: "or_else (duration_part sign (part_digits x)) 0 = sign * \<bar>or_else x 0\<bar>"
  by (cases x) (auto simp: duration_part_def part_digits_def nonzero_def)

lemma nonzero_or_else: "nonzero x \<longleftrightarrow> or_else x 0 \<noteq> 0"
  by (cases x) (simp_all add: nonzero_def)

lemma parseDuration_matched:
  assumes "split_T s = (days, time)" "match_days days = Some (sign, y, m, d)"
    "(case time of None \<Rightarrow> Some ([], [], []) | Some t \<Rightarrow> if t = [] then None else match_hours t) = Some (h, mi, sec)"
    "\<not> list_all (\<lambda>s. s = []) [y, m, d, h, mi, sec]"
  shows "parseDuration s = Inr (simplifyDurationRepresentation
    \<lparr>dur_year = duration_part sign y, dur_month = duration_part sign m, dur_day = duration_part sign d,
     dur_hours = duration_part sign h, dur_minutes = duration_part sign mi,
     dur_seconds = (if sec = [] then None else Some (of_int sign * decimal_value sec))\<rparr>)"
  unfolding parseDuration_def assms(1) Let_def prod.case assms(2) option.case assms(3) using assms(4) by simp

lemma finite_decimal_abs: "finite_decimal x \<Longrightarrow> finite_decimal \<bar>x\<bar>"
proof -
  assume "finite_decimal x"
  then have "x * 10 ^ 15 = of_int \<lfloor>x * 10 ^ 15\<rfloor>" unfolding finite_decimal_def by (rule sym)
  then have "\<bar>x\<bar> * 10 ^ 15 = of_int \<bar>\<lfloor>x * 10 ^ 15\<rfloor>\<bar>" by (simp only: of_int_abs) (simp add: abs_mult)
  then show ?thesis unfolding finite_decimal_def by (simp only: floor_of_int)
qed

lemma part_digits_Nil: "part_digits x = [] \<longleftrightarrow> \<not> nonzero x"
  by (simp add: part_digits_def)

lemma nonzero_of_int: "nonzero (map_option rat_of_int x) \<longleftrightarrow> nonzero x"
  by (cases x) (simp_all add: nonzero_def)

lemma some_nonzero:
  "some_values (\<lambda>v. v \<noteq> 0) dur \<longleftrightarrow> nonzero (dur_year dur) \<or> nonzero (dur_month dur) \<or> nonzero (dur_day dur) \<or>
     nonzero (dur_hours dur) \<or> nonzero (dur_minutes dur) \<or> nonzero (dur_seconds dur)"
  by (simp add: some_values_def nonzero_or_else)

lemma duration_parts_parsed:
  assumes dur: "finite_decimal (or_else (dur_seconds dur) 0)" "some_values (\<lambda>v. v \<noteq> 0) dur"
    and plain: "plain_duration dur"
  defines "neg \<equiv> some_values (\<lambda>v. v < 0) dur"
  shows "\<exists>d. parseDuration (serializeDuration dur zero) = Inr (simplifyDurationRepresentation d) \<and>
    or_else (dur_year d) 0 = (if neg then -1 else 1) * \<bar>or_else (dur_year dur) 0\<bar> \<and>
    or_else (dur_month d) 0 = (if neg then -1 else 1) * \<bar>or_else (dur_month dur) 0\<bar> \<and>
    or_else (dur_day d) 0 = (if neg then -1 else 1) * \<bar>or_else (dur_day dur) 0\<bar> \<and>
    or_else (dur_hours d) 0 = (if neg then -1 else 1) * \<bar>or_else (dur_hours dur) 0\<bar> \<and>
    or_else (dur_minutes d) 0 = (if neg then -1 else 1) * \<bar>or_else (dur_minutes dur) 0\<bar> \<and>
    or_else (dur_seconds d) 0 = (if neg then -1 else 1) * \<bar>or_else (dur_seconds dur) 0\<bar>"
proof -
  let ?days = "(if neg then ''-'' else '''') @ ''P'' @ plain_part (map_option of_int (dur_year dur)) ''Y'' @
    plain_part (map_option of_int (dur_month dur)) ''M'' @ plain_part (map_option of_int (dur_day dur)) ''D''"
  let ?time = "plain_part (map_option of_int (dur_hours dur)) ''H'' @ plain_part (map_option of_int (dur_minutes dur)) ''M'' @
    plain_part (dur_seconds dur) ''S''"
  let ?sec = "if nonzero (dur_seconds dur) then plain_string \<bar>or_else (dur_seconds dur) 0\<bar> else []"
  let ?sign = "if neg then -1 else 1 :: int"
  let ?d = "\<lparr>dur_year = duration_part ?sign (part_digits (dur_year dur)), dur_month = duration_part ?sign (part_digits (dur_month dur)),
    dur_day = duration_part ?sign (part_digits (dur_day dur)), dur_hours = duration_part ?sign (part_digits (dur_hours dur)),
    dur_minutes = duration_part ?sign (part_digits (dur_minutes dur)),
    dur_seconds = (if ?sec = [] then None else Some (of_int ?sign * decimal_value ?sec))\<rparr>"
  have no_T: "CHR ''T'' \<notin> set ?days" "CHR ''T'' \<notin> set ?time" by (simp_all add: plain_part_no_T)
  have sec: "plain_string x \<noteq> []" for x by (simp add: plain_string_def)
  have "parseDuration (serializeDuration dur zero) = Inr (simplifyDurationRepresentation ?d)"
  proof (cases "nonzero (dur_hours dur) \<or> nonzero (dur_minutes dur) \<or> nonzero (dur_seconds dur)")
    case True
    have time: "?time \<noteq> []" using True by (auto simp: plain_part_def nonzero_of_int)
    have written: "serializeDuration dur zero = ?days @ ''T'' @ ?time"
      using True dur(2) by (simp add: serializeDuration_def neg_def plain_duration_parts [OF plain] Let_def)
    show ?thesis unfolding written
      by (rule parseDuration_matched [OF split_T_once [OF no_T] match_days_text])
        (use True time sec in \<open>auto simp: match_hours_text part_digits_Nil\<close>)
  next
    case False
    have written: "serializeDuration dur zero = ?days"
      using False dur(2) by (simp add: serializeDuration_def neg_def plain_duration_parts [OF plain] Let_def)
    have "split_T ?days = (?days, None)"
      using no_T(1) by (simp add: split_T_def Let_def takeWhile_eq_all_conv dropWhile_eq_Nil_conv)
    then show ?thesis unfolding written
      by (rule parseDuration_matched [OF _ match_days_text])
        (use False dur(2) in \<open>auto simp: some_nonzero part_digits_Nil part_digits_def\<close>)
  qed
  moreover have "or_else (dur_seconds ?d) 0 = (if neg then -1 else 1) * \<bar>or_else (dur_seconds dur) 0\<bar>"
    using sec plain_string_value [of "\<bar>or_else (dur_seconds dur) 0\<bar>"] finite_decimal_abs [OF dur(1)]
    by (simp add: nonzero_or_else)
  ultimately show ?thesis by (intro exI [of _ ?d]) (simp add: duration_part_digits)
qed

text \<open>C24. Parsing the text of a duration gives the simplified duration, when its fields have one sign, its seconds have at
  most fifteen decimals, and JavaScript writes none of its fields with an exponent (\<open>plain_duration\<close>; otherwise the
  text is not a duration, \<open>exponent_not_read\<close>).\<close>

theorem duration_roundtrip:
  assumes "one_sign (defaultedDurationRepresentation dur)" "finite_decimal (or_else (dur_seconds dur) 0)"
    and "zero \<in> {''PT0S'', ''P0M''}" and "plain_duration dur"
  shows "parseDuration (serializeDuration dur zero) = Inr (simplifyDurationRepresentation dur)"
proof (cases "some_values (\<lambda>v. v \<noteq> 0) dur")
  case False
  then have "defaultedDurationRepresentation dur = defaultedDurationRepresentation no_duration"
    by (simp add: some_values_def defaultedDurationRepresentation_def defaultedDayTimeDurationRepresentation_def
        defaultedYearMonthDurationRepresentation_def no_duration_def)
  then show ?thesis using False parse_zero_duration [OF assms(3)]
    by (simp add: serializeDuration_def simplifyDurationRepresentation_def)
next
  case True
  obtain d where d: "parseDuration (serializeDuration dur zero) = Inr (simplifyDurationRepresentation d)"
    "defaultedDurationRepresentation d = defaultedDurationRepresentation dur"
    using duration_parts_parsed [OF assms(2) True assms(4), of zero] assms(1)
    by (auto simp: some_values_def one_sign_def defaultedDurationRepresentation_def
        defaultedDayTimeDurationRepresentation_def defaultedYearMonthDurationRepresentation_def split: if_splits)
  then show ?thesis using simplify_cong [OF d(2)] by simp
qed

lemma date_time_roundtrip_witness:
  "parseDateTime (serializeDateTime sample_date) = Inr sample_date \<and>
   serializeDateTime sample_date = ''2000-01-31T23:30:05+01:00''"
proof
  have "valid_date_time sample_date" "\<bar>dt_year sample_date\<bar> < 100000" "three_decimals (dt_seconds sample_date)"
    "zone_ok (zoneHours sample_date) (zoneMinutes sample_date)" by code_simp+
  then show "parseDateTime (serializeDateTime sample_date) = Inr sample_date" by (rule date_time_roundtrip)
  show "serializeDateTime sample_date = ''2000-01-31T23:30:05+01:00''"
    using numSerializer_int [of 2000 4] numSerializer_int [of 1 2] numSerializer_int [of 31 2] numSerializer_int [of 23 2]
      numSerializer_int [of 30 2] numSerializer_int [of 5 2] numSerializer_int [of 0 2]
    by (simp add: serializeDateTime_def serializeDate_def serializeTime_def sample_date_def text_simps)
qed

definition negative_duration :: partial_duration where
  "negative_duration = no_duration\<lparr>dur_day := Some (-1), dur_minutes := Some (-75), dur_seconds := Some (-3 / 2)\<rparr>"

lemma duration_roundtrip_witness:
  "parseDuration (serializeDuration negative_duration ''PT0S'') = Inr (simplifyDurationRepresentation negative_duration) \<and>
   simplifyDurationRepresentation negative_duration =
     no_duration\<lparr>dur_day := Some (-1), dur_hours := Some (-1), dur_minutes := Some (-15), dur_seconds := Some (-3 / 2)\<rparr>"
proof
  have "one_sign (defaultedDurationRepresentation negative_duration)" by code_simp
  moreover have "finite_decimal (or_else (dur_seconds negative_duration) 0)"
    by (simp add: finite_decimal_def negative_duration_def)
  ultimately show "parseDuration (serializeDuration negative_duration ''PT0S'') =
      Inr (simplifyDurationRepresentation negative_duration)"
    by (rule duration_roundtrip) (simp, code_simp)
  show "simplifyDurationRepresentation negative_duration =
     no_duration\<lparr>dur_day := Some (-1), dur_hours := Some (-1), dur_minutes := Some (-15), dur_seconds := Some (-3 / 2)\<rparr>"
    by code_simp
qed

section \<open>What is not read back\<close>

text \<open>A tenth of a microsecond is written with an exponent, which the parser does not read.\<close>

theorem exponent_not_read:
  "serializeDuration (no_duration\<lparr>dur_seconds := Some (1 / 10 ^ 7)\<rparr>) ''PT0S'' = ''PT1e-7S'' \<and>
   (\<exists>err. parseDuration ''PT1e-7S'' = Inl err)"
proof
  show "serializeDuration (no_duration\<lparr>dur_seconds := Some (1 / 10 ^ 7)\<rparr>) ''PT0S'' = ''PT1e-7S''"
    by code_simp
  show "\<exists>err. parseDuration ''PT1e-7S'' = Inl err"
    by (simp add: parseDuration_def split_T_def match_days_def match_hours_def match_part_def match_seconds_def
        match_fraction_def optional_sign_def is_digit_def Let_def)
qed

definition plain_date :: "int \<Rightarrow> int \<Rightarrow> int \<Rightarrow> date_fields" where
  "plain_date y m d = \<lparr>tz_hours = None, tz_minutes = None, d_year = y, d_month = m, d_day = d\<rparr>"

lemma six_digit_text: "serializeDate (plain_date 100000 1 1) = ''100000-01-01''"
  using numSerializer_int [of 100000 4] numSerializer_int [of 1 2]
  by (simp add: serializeDate_def plain_date_def text_simps)

text \<open>The year 100000 is written with six digits and not read back, as the digits before the last four
  can not be zero.\<close>

theorem six_digit_year:
  "parseDate (serializeDate (plain_date 100000 1 1)) = Inl (ParseError ''100000-01-01'' ''date'') \<and>
   parseDate ''123456-01-01'' = Inr (plain_date 123456 1 1)"
  unfolding six_digit_text by (simp add: parse_simps plain_date_def maximumDayInMonthFor_def)

text \<open>Seconds are written with three decimals, so the last ten thousandth of a minute is the second 60, which is not
  read back.\<close>

theorem seconds_rounded_up:
  "serializeTime \<lparr>tz_hours = None, tz_minutes = None, t_hours = 12, t_minutes = 0, t_seconds = 599999 / 10000\<rparr> = ''12:00:60'' \<and>
   parseTime ''12:00:60'' = Inl (ParseError ''12:00:60'' ''time'')"
proof
  have "\<lfloor>\<bar>599999 / 10000 :: rat\<bar> * 1000 + 1 / 2\<rfloor> = 60000" by (rule floor_unique) simp_all
  then have "numSerializer (599999 / 10000) 2 = ''60''"
    unfolding numSerializer_def by (simp add: text_simps Let_def)
  then show "serializeTime \<lparr>tz_hours = None, tz_minutes = None, t_hours = 12, t_minutes = 0, t_seconds = 599999 / 10000\<rparr> =
      ''12:00:60''"
    using numSerializer_int [of 12 2] numSerializer_int [of 0 2] by (simp add: serializeTime_def text_simps)
  show "parseTime ''12:00:60'' = Inl (ParseError ''12:00:60'' ''time'')"
    by (simp add: parseTime_def parseTime_raw_def match_time_def match_fraction_def decimal_value_def parse_simps)
qed

text \<open>A text after a second T is ignored.\<close>

theorem date_time_trailing_text:
  assumes "CHR ''T'' \<notin> set s" "CHR ''T'' \<notin> set t"
  shows "parseDateTime (s @ ''T'' @ t @ ''T'' @ u) = parseDateTime (s @ ''T'' @ t)"
proof -
  have "split_T (s @ ''T'' @ t @ ''T'' @ u) = (s, Some t)"
    using assms by (auto simp: split_T_def Let_def takeWhile_eq_all_conv dropWhile_append takeWhile_append)
  then show ?thesis using split_T_once [OF assms] by (simp add: parseDateTime_def)
qed

text \<open>A negative offset of less than an hour becomes positive when it is written.\<close>

theorem negative_minutes_offset:
  "map_sum id serializeDate (parseDate ''2000-01-01-00:30'') = Inr ''2000-01-01+00:30''"
proof -
  have "parseDate ''2000-01-01-00:30'' = Inr \<lparr>tz_hours = Some 0, tz_minutes = Some (-30), d_year = 2000, d_month = 1, d_day = 1\<rparr>"
    by (simp add: parse_simps maximumDayInMonthFor_def)
  then show ?thesis
    using numSerializer_int [of 2000 4] numSerializer_int [of 1 2] numSerializer_int [of 0 2] numSerializer_int [of 30 2]
    by (simp add: serializeDate_def text_simps)
qed

end
