(* ===== verification/Mediator_Kinds.thy ===== *)
theory Mediator_Kinds
  imports Mediators
begin

text \<open>
  The mediators of the packages \<open>mediator-number\<close>, \<open>mediator-race\<close>,
  \<open>mediator-all\<close>, \<open>mediator-combine-union\<close> and
  \<open>mediator-combine-pipeline\<close>.  The argument \<open>msg\<close> stands for
  \<open>constructFailureMessage\<close> applied to the action at hand.
\<close>

section \<open>MediatorNumber\<close>

text \<open>The value of the mediated field of a test result.\<close>

datatype field_value = F_undefined | F_null | F_number jsnum

datatype number_type = Min_type | Max_type

fun getOrDefault :: "field_value \<Rightarrow> jsnum \<Rightarrow> jsnum option" where
  "getOrDefault F_undefined d = Some d"
| "getOrDefault F_null d = None"
| "getOrDefault (F_number n) d = Some n"

text \<open>
  The reducer of \<open>createIndexPicker\<close>: the best value so far with its index (initially
  \<open>NaN\<close> and -1), the current field value and its index.
\<close>

fun pick_step :: "number_type \<Rightarrow> jsnum \<times> int \<Rightarrow> field_value \<times> nat \<Rightarrow> jsnum \<times> int" where
  "pick_step Min_type (p, j) (v, i) =
     (case getOrDefault v PInf of
        None \<Rightarrow> (p, j)
      | Some w \<Rightarrow> if p = NaN \<or> num_lt w p then (w, int i) else (p, j))"
| "pick_step Max_type (p, j) (v, i) =
     (case getOrDefault v NInf of
        None \<Rightarrow> (p, j)
      | Some w \<Rightarrow> if p = NaN \<or> num_lt p w then (w, int i) else (p, j))"

definition indexPicker :: "number_type \<Rightarrow> field_value list \<Rightarrow> int" where
  "indexPicker ty vs = snd (foldl (pick_step ty) (NaN, -1) (zip vs [0..<length vs]))"

text \<open>
  \<open>mediateWith\<close>.  With \<open>ignoreFailures\<close> a failed test is replaced by a dummy whose
  field is \<open>null\<close> and which has no side data (\<open>None\<close>); otherwise the first failed
  test is thrown.
\<close>

fun wrap_failure ::
  "('t, 's) test_result \<Rightarrow> ('t option, 's option) test_result" where
  "wrap_failure (Passed t s) = Passed (Some t) (Some s)"
| "wrap_failure (Failed m) = Passed None None"

fun keep_failure ::
  "('t, 's) test_result \<Rightarrow> ('t option, 's option) test_result" where
  "keep_failure (Passed t s) = Passed (Some t) (Some s)"
| "keep_failure (Failed m) = Failed m"

definition resolve_test :: "('t, 's) test_result \<Rightarrow> string + ('t \<times> 's)" where
  "resolve_test r =
     bind_res (getOrThrow r) (\<lambda>t. bind_res (getSideData r) (\<lambda>s. Inr (t, s)))"

definition field_of :: "('t \<Rightarrow> field_value) \<Rightarrow> 't option \<Rightarrow> field_value" where
  "field_of fld t = (case t of None \<Rightarrow> F_null | Some t \<Rightarrow> fld t)"

definition mediateWith_number ::
  "number_type \<Rightarrow> bool \<Rightarrow> ('t \<Rightarrow> field_value) \<Rightarrow> (string list \<Rightarrow> string) \<Rightarrow>
     ('a, 't, 's) chooser" where
  "mediateWith_number ty ignoreFailures fld msg rs = Some (
     bind_res (map_res snd rs) (\<lambda>ws.
       let failures = (if ignoreFailures then List.map_filter getFailMessage ws else []);
           wrapped = map (if ignoreFailures then wrap_failure else keep_failure) ws
       in bind_res (map_res resolve_test wrapped) (\<lambda>results.
            let index = indexPicker ty (map (\<lambda>p. field_of fld (fst p)) results)
            in if index < 0 then Inr (Failed (msg failures))
               else (case snd (results ! nat index) of
                       None \<Rightarrow> Inr (Failed (msg failures))
                     | Some s \<Rightarrow> Inr (Passed (fst (rs ! nat index)) s)))))"

text \<open>
  The side data of the chosen index is never missing (lemma \<open>picked_has_side_data\<close>):
  the \<open>None\<close> branch stands for the code's non-null assertion.
\<close>

lemma pick_step_null [simp]: "pick_step ty acc (F_null, i) = acc"
  by (cases ty; cases acc) auto

text \<open>What the reducer has seen: the index it holds is that of a non-null value.\<close>

lemma foldl_pick_index:
  "snd (foldl (pick_step ty) (NaN, -1) (zip vs [0..<length vs])) = j \<Longrightarrow>
     j = -1 \<or> (0 \<le> j \<and> nat j < length vs \<and> vs ! nat j \<noteq> F_null)"
proof (induction vs arbitrary: j rule: rev_induct)
  case Nil
  then show ?case by simp
next
  case (snoc v vs)
  obtain p k where pk: "foldl (pick_step ty) (NaN, -1) (zip vs [0..<length vs]) = (p, k)"
    by fastforce
  with snoc.IH have IH: "k = -1 \<or> (0 \<le> k \<and> nat k < length vs \<and> vs ! nat k \<noteq> F_null)"
    by simp
  from snoc.prems pk have "j = snd (pick_step ty (p, k) (v, length vs))" by simp
  then have "j = k \<or> (j = int (length vs) \<and> v \<noteq> F_null)"
    by (cases ty; cases v) (auto split: if_splits)
  with IH show ?case by (auto simp: nth_append)
qed

lemma indexPicker_nonneg:
  assumes "0 \<le> indexPicker ty vs"
  shows "nat (indexPicker ty vs) < length vs \<and> vs ! nat (indexPicker ty vs) \<noteq> F_null"
  using foldl_pick_index [OF refl, of ty vs] assms by (auto simp: indexPicker_def)

definition default_of :: "number_type \<Rightarrow> jsnum" where
  "default_of ty = (case ty of Min_type \<Rightarrow> PInf | Max_type \<Rightarrow> NInf)"

definition better :: "number_type \<Rightarrow> jsnum \<Rightarrow> jsnum \<Rightarrow> bool" where
  "better ty x y = (case ty of Min_type \<Rightarrow> num_lt x y | Max_type \<Rightarrow> num_lt y x)"

lemma better_trans: "better ty x y \<Longrightarrow> better ty y z \<Longrightarrow> better ty x z"
  by (cases ty) (auto simp: better_def intro: num_lt_trans)

lemma better_irrefl [simp]: "\<not> better ty x x"
  by (cases ty) (auto simp: better_def)

lemma not_better_trans:
  "\<not> better ty y x \<Longrightarrow> \<not> better ty z y \<Longrightarrow> y \<noteq> NaN \<Longrightarrow> \<not> better ty z x"
  by (cases ty) (simp_all add: better_def, (metis num_not_lt_trans)+)

lemma pick_step_eq:
  "pick_step ty (p, j) (v, i) =
     (case getOrDefault v (default_of ty) of
        None \<Rightarrow> (p, j)
      | Some w \<Rightarrow> if p = NaN \<or> better ty w p then (w, int i) else (p, j))"
  by (cases ty) (auto simp: default_of_def better_def split: option.splits)

text \<open>
  \<open>best_at ty vs i w\<close>: the value at index \<open>i\<close> is \<open>w\<close>, no other value is
  better and none before it is as good.
\<close>

definition best_at :: "number_type \<Rightarrow> field_value list \<Rightarrow> nat \<Rightarrow> jsnum \<Rightarrow> bool" where
  "best_at ty vs i w \<longleftrightarrow>
     i < length vs \<and> getOrDefault (vs ! i) (default_of ty) = Some w \<and>
     (\<forall>k u. k < length vs \<and> getOrDefault (vs ! k) (default_of ty) = Some u \<longrightarrow>
        \<not> better ty u w \<and> (k < i \<longrightarrow> better ty w u))"

lemma not_better_imp:
  "\<not> better ty w p \<Longrightarrow> w \<noteq> NaN \<Longrightarrow> p \<noteq> NaN \<Longrightarrow> w = p \<or> better ty p w"
  using num_lt_linear [of w p] by (cases ty) (auto simp: better_def)

lemma foldl_pick_best:
  assumes "\<forall>v \<in> set vs. v \<noteq> F_number NaN"
  shows "case foldl (pick_step ty) (NaN, -1) (zip vs [0..<length vs]) of (p, j) \<Rightarrow>
    (if \<forall>v \<in> set vs. v = F_null then p = NaN \<and> j = -1
     else p \<noteq> NaN \<and> 0 \<le> j \<and> best_at ty vs (nat j) p)"
  using assms
proof (induction vs rule: rev_induct)
  case Nil
  then show ?case by simp
next
  case (snoc v vs)
  obtain p j where pj: "foldl (pick_step ty) (NaN, -1) (zip vs [0..<length vs]) = (p, j)"
    by fastforce
  with snoc have IH: "if \<forall>v \<in> set vs. v = F_null then p = NaN \<and> j = -1
     else p \<noteq> NaN \<and> 0 \<le> j \<and> best_at ty vs (nat j) p" by auto
  have step: "foldl (pick_step ty) (NaN, -1) (zip (vs @ [v]) [0..<length (vs @ [v])]) =
      pick_step ty (p, j) (v, length vs)" using pj by simp
  show ?case
  proof (cases "getOrDefault v (default_of ty)")
    case None
    then have v: "v = F_null" by (cases v) auto
    have "best_at ty (vs @ [v]) i w \<longleftrightarrow> best_at ty vs i w" if "i < length vs" for i w
      using that v by (auto simp: best_at_def nth_append less_Suc_eq)
    with IH v step show ?thesis by (auto simp: best_at_def split: if_splits)
  next
    case (Some w)
    have w: "w \<noteq> NaN" using snoc.prems Some
      by (cases v) (auto simp: default_of_def split: number_type.splits)
    have nn: "v \<noteq> F_null" using Some by auto
    show ?thesis
    proof (cases "p = NaN \<or> better ty w p")
      case True
      have "best_at ty (vs @ [v]) (length vs) w"
      proof (cases "p = NaN")
        case True
        with IH have "\<forall>v \<in> set vs. v = F_null" by (auto split: if_splits)
        then have "vs ! k = F_null" if "k < length vs" for k using that by simp
        then show ?thesis using Some
          by (auto simp: best_at_def nth_append less_Suc_eq)
      next
        case False
        with True IH have b: "best_at ty vs (nat j) p" and bw: "better ty w p"
          by (auto split: if_splits)
        have "better ty w u" if "k < length vs" "getOrDefault (vs ! k) (default_of ty) = Some u"
          for k u
        proof -
          have nb: "\<not> better ty u p" using b that by (auto simp: best_at_def)
          have "u \<noteq> NaN" using that snoc.prems
            by (cases "vs ! k")
               (auto simp: default_of_def dest: nth_mem split: number_type.splits)
          with not_better_imp [OF nb] False bw show ?thesis by (blast intro: better_trans)
        qed
        with Some show ?thesis
          by (auto simp: best_at_def nth_append less_Suc_eq dest: better_trans)
             (metis better_irrefl better_trans)
      qed
      with True Some step nn w show ?thesis by (auto simp: pick_step_eq)
    next
      case False
      with IH have b: "best_at ty vs (nat j) p" and j: "0 \<le> j" and "p \<noteq> NaN"
        by (auto split: if_splits)
      moreover from False have "\<not> better ty w p" by simp
      ultimately have "best_at ty (vs @ [v]) (nat j) p"
        using Some by (auto simp: best_at_def nth_append less_Suc_eq)
      with False Some step nn j show ?thesis by (auto simp: pick_step_eq)
    qed
  qed
qed

text \<open>What \<open>resolve_test\<close> makes of the wrapped results when failures are ignored.\<close>

fun passed_pair :: "('t, 's) test_result \<Rightarrow> 't option \<times> 's option" where
  "passed_pair (Passed t s) = (Some t, Some s)"
| "passed_pair (Failed m) = (None, None)"

lemma resolve_wrap [simp]: "resolve_test (wrap_failure w) = Inr (passed_pair w)"
  by (cases w) (simp_all add: resolve_test_def)

lemma resolve_wrapped [simp]:
  "map_res resolve_test (map wrap_failure ws) = Inr (map passed_pair ws)"
  by (induction ws) auto

definition result_field :: "('t \<Rightarrow> field_value) \<Rightarrow> ('t, 's) test_result \<Rightarrow> field_value" where
  "result_field fld r = (case r of Passed t s \<Rightarrow> fld t | Failed m \<Rightarrow> F_null)"

lemma field_of_passed_pair [simp]: "field_of fld (fst (passed_pair w)) = result_field fld w"
  by (cases w) (simp_all add: field_of_def result_field_def)

lemma map_res_snd_Inr [simp]: "map_res snd (map (\<lambda>(a, r). (a, Inr r)) xs) = Inr (map snd xs)"
  by (induction xs) auto

lemma number_ignoring_eq:
  "mediateWith_number ty True fld msg (map (\<lambda>(a, r). (a, Inr r)) xs) = Some (
     let ws = map snd xs; index = indexPicker ty (map (result_field fld) ws)
     in if index < 0 then Inr (Failed (msg (List.map_filter getFailMessage ws)))
        else (case snd (passed_pair (ws ! nat index)) of
                None \<Rightarrow> Inr (Failed (msg (List.map_filter getFailMessage ws)))
              | Some s \<Rightarrow> Inr (Passed (fst (xs ! nat index)) s)))"
proof (cases "indexPicker ty (map (\<lambda>x. result_field fld (snd x)) xs) < 0")
  case True
  then show ?thesis by (simp add: mediateWith_number_def comp_def)
next
  case False
  then have "nat (indexPicker ty (map (\<lambda>x. result_field fld (snd x)) xs)) < length xs"
    using indexPicker_nonneg [of ty "map (\<lambda>x. result_field fld (snd x)) xs"] by simp
  with False show ?thesis
    by (simp add: mediateWith_number_def comp_def Let_def case_prod_beta split: option.split)
qed

lemma indexPicker_best:
  assumes "\<forall>v \<in> set vs. v \<noteq> F_number NaN"
  shows "if \<forall>v \<in> set vs. v = F_null then indexPicker ty vs = -1
    else 0 \<le> indexPicker ty vs \<and> (\<exists>w. best_at ty vs (nat (indexPicker ty vs)) w)"
  using foldl_pick_best [OF assms, of ty]
  by (auto simp: indexPicker_def split: prod.splits if_splits)



section \<open>MediatorRace\<close>

text \<open>
  The replies in the order in which they settle.  The promise takes its first settlement; a
  failed test settles it only when it is the last of all the failures.
\<close>

fun race_loop ::
  "(string list \<Rightarrow> string) \<Rightarrow> nat \<Rightarrow> string list \<Rightarrow> ('a, 't, 's) reply list \<Rightarrow>
     (string + ('a, 's) test_result) option" where
  "race_loop msg n errors [] = None"
| "race_loop msg n errors ((a, Inl e) # rs) = Some (Inl e)"
| "race_loop msg n errors ((a, Inr (Passed t s)) # rs) = Some (Inr (Passed a s))"
| "race_loop msg n errors ((a, Inr (Failed m)) # rs) =
     (if length (errors @ [m]) = n then Some (Inr (Failed (msg (errors @ [m]))))
      else race_loop msg n (errors @ [m]) rs)"

text \<open>
  \<open>time i\<close> is when reply \<open>i\<close> settles; replies that settle together are handled in
  the order in which the loop attached its handlers.
\<close>

definition settled_order :: "(nat \<Rightarrow> nat) \<Rightarrow> 'x list \<Rightarrow> 'x list" where
  "settled_order time rs = map (\<lambda>i. rs ! i) (sort_key time [0..<length rs])"

definition mediateWith_race ::
  "(nat \<Rightarrow> nat) \<Rightarrow> (string list \<Rightarrow> string) \<Rightarrow> ('a, 't, 's) chooser" where
  "mediateWith_race time msg rs = race_loop msg (length rs) [] (settled_order time rs)"

lemma mset_settled_order [simp]: "mset (settled_order time rs) = mset rs"
proof -
  have "mset (settled_order time rs) = image_mset ((!) rs) (mset [0..<length rs])"
    by (simp add: settled_order_def)
  also have "\<dots> = mset (map ((!) rs) [0..<length rs])"
    by (simp only: mset_map)
  finally show ?thesis by (simp only: map_nth)
qed

lemma set_settled_order [simp]: "set (settled_order time rs) = set rs"
  using mset_settled_order by (rule mset_eq_setD)

lemma length_settled_order [simp]: "length (settled_order time rs) = length rs"
  by (simp add: settled_order_def)

lemma race_loop_passed:
  "race_loop msg n errors rs = Some (Inr (Passed a s)) \<Longrightarrow> \<exists>t. (a, Inr (Passed t s)) \<in> set rs"
  by (induction msg n errors rs rule: race_loop.induct) (auto split: if_splits)

text \<open>The outcome of the race: the first settled reply that is not a failed test decides.\<close>

fun is_failure :: "('a, 't, 's) reply \<Rightarrow> bool" where
  "is_failure (a, Inr (Failed m)) = True"
| "is_failure r = False"

fun failure_message :: "('a, 't, 's) reply \<Rightarrow> string" where
  "failure_message (a, Inr (Failed m)) = m"
| "failure_message r = []"

fun race_decision :: "('a, 't, 's) reply \<Rightarrow> string + ('a, 's) test_result" where
  "race_decision (a, Inl e) = Inl e"
| "race_decision (a, Inr (Passed t s)) = Inr (Passed a s)"
| "race_decision (a, Inr (Failed m)) = Inr (Failed m)"

lemma race_loop_eq:
  "rs \<noteq> [] \<Longrightarrow> n = length errors + length rs \<Longrightarrow>
     race_loop msg n errors rs = Some (
       case find (\<lambda>r. \<not> is_failure r) rs of
         None \<Rightarrow> Inr (Failed (msg (errors @ map failure_message rs)))
       | Some r \<Rightarrow> race_decision r)"
proof (induction msg n errors rs rule: race_loop.induct)
  case (4 msg n errors a m rs)
  then show ?case by (cases "rs = []") (auto split: option.split)
qed auto

lemma race_decision_failure: "\<not> is_failure x \<Longrightarrow> race_decision x \<noteq> Inr (Failed m)"
  by (cases x rule: is_failure.cases) auto

interpretation race_med: mediator_law "mediateWith_race time msg" for time msg
proof
  fix rs :: "('a, 't, 's) reply list" and a s
  assume "mediateWith_race time msg rs = Some (Inr (Passed a s))"
  then show "\<exists>t. (a, Inr (Passed t s)) \<in> set rs"
    using race_loop_passed [of msg "length rs" "[]" "settled_order time rs" a s]
    by (simp add: mediateWith_race_def)
qed

section \<open>MediatorAll\<close>

text \<open>
  The replies are awaited one after the other; a reply that rejects is thrown.  The actors that
  passed are run, and the first output is returned (\<open>None\<close> when no actor passed).
\<close>

fun collect_passed :: "('a, 't, 's) reply list \<Rightarrow> string + ('a \<times> 's) list" where
  "collect_passed [] = Inr []"
| "collect_passed ((a, r) # rs) =
     bind_res r (\<lambda>t. bind_res (collect_passed rs) (\<lambda>ps.
       Inr (case t of Passed t s \<Rightarrow> (a, s) # ps | Failed m \<Rightarrow> ps)))"

definition mediate_all ::
  "('a \<Rightarrow> 'i \<Rightarrow> string + ('t, 's) test_result) \<Rightarrow> ('a \<Rightarrow> 'i \<Rightarrow> 's \<Rightarrow> string + 'r) \<Rightarrow> 'i \<Rightarrow>
     ('a, 'o, 'z) bus_scheme \<Rightarrow> string + 'r option" where
  "mediate_all test run action b =
     bind_res (collect_passed (case mediator_publish (bus_name b) (publish test action b) of
                 Inl e \<Rightarrow> [] | Inr rs \<Rightarrow> rs)) (\<lambda>ps.
     bind_res (map_res (\<lambda>(a, s). run a action s) ps) (\<lambda>outs.
       Inr (case outs of [] \<Rightarrow> None | x # xs \<Rightarrow> Some x)))"

section \<open>MediatorCombineUnion\<close>

text \<open>Object spread \<open>{...x, ...y}\<close>: the entries of \<open>y\<close> written over those of \<open>x\<close>.\<close>

definition js_spread :: "('k, 'v) jsmap \<Rightarrow> ('k, 'v) jsmap \<Rightarrow> ('k, 'v) jsmap" where
  "js_spread x y = fold (\<lambda>(k, v) m. js_set m k v) y x"

definition combiner :: "('k, 'v) jsmap list \<Rightarrow> ('k, 'v) jsmap" where
  "combiner results = foldl (\<lambda>acc value. js_spread value acc) [] ([] # results)"

definition filter_passed :: "('a, 't, 's) reply list \<Rightarrow> string + ('a, 't, 's) reply list" where
  "filter_passed rs =
     bind_res (map_res (\<lambda>(a, r). bind_res r (\<lambda>t. Inr (a, t))) rs) (\<lambda>xs.
       Inr (map (\<lambda>(a, t). (a, Inr t)) (filter (\<lambda>(a, t). isPassed t) xs)))"

definition unwrap_replies :: "('a, 't, 's) reply list \<Rightarrow> string + ('a \<times> 't \<times> 's) list" where
  "unwrap_replies rs =
     map_res (\<lambda>(a, r). bind_res r (\<lambda>w. bind_res (getOrThrow w) (\<lambda>t.
       bind_res (getSideData w) (\<lambda>s. Inr (a, t, s))))) rs"

text \<open>\<open>fieldOf\<close> reads the combined field of an output (an object; \<open>[]\<close> if absent).\<close>

definition mediate_combine_union ::
  "bool \<Rightarrow> ('r \<Rightarrow> ('k, 'v) jsmap) \<Rightarrow> ('a \<Rightarrow> 'i \<Rightarrow> string + ('t, 's) test_result) \<Rightarrow>
     ('a \<Rightarrow> 'i \<Rightarrow> 's \<Rightarrow> string + 'r) \<Rightarrow> 'i \<Rightarrow> ('a, 'o, 'z) bus_scheme \<Rightarrow>
     string + ('k, 'v) jsmap" where
  "mediate_combine_union filterFailures fieldOf test run action b =
     (let published = (case mediator_publish (bus_name b) (publish test action b) of
                         Inl e \<Rightarrow> [] | Inr rs \<Rightarrow> rs)
      in bind_res (if filterFailures then filter_passed published else Inr published) (\<lambda>rs.
         bind_res (unwrap_replies rs) (\<lambda>us.
         bind_res (map_res (\<lambda>(a, t, s). run a action s) us) (\<lambda>outs.
           Inr (combiner (map fieldOf outs))))))"

lemma js_spread_lookup [jsmap_simps]:
  "js_get (js_spread x y) k = (case map_of (rev y) k of None \<Rightarrow> js_get x k | Some v \<Rightarrow> Some v)"
  unfolding js_spread_def
  by (induction y arbitrary: x) (auto split: option.splits simp: map_add_def)

text \<open>Earlier results win: the combined value at a key is that of the first result that has it.\<close>

fun first_defined :: "('k, 'v) jsmap list \<Rightarrow> 'k \<Rightarrow> 'v option" where
  "first_defined [] k = None"
| "first_defined (r # rs) k = (case js_get r k of None \<Rightarrow> first_defined rs k | Some v \<Rightarrow> Some v)"

lemma wf_js_spread: "wf_map x \<Longrightarrow> wf_map (js_spread x y)"
  unfolding js_spread_def by (induction y arbitrary: x) auto

lemma js_spread_wf_lookup:
  "wf_map y \<Longrightarrow> js_get (js_spread x y) k = (case js_get y k of None \<Rightarrow> js_get x k | Some v \<Rightarrow> Some v)"
  by (simp add: js_spread_lookup map_of_rev_wf)

lemma first_defined_append:
  "first_defined (xs @ ys) k =
     (case first_defined xs k of None \<Rightarrow> first_defined ys k | Some v \<Rightarrow> Some v)"
  by (induction xs) (auto split: option.splits)

lemma combine_step:
  "\<forall>r \<in> set rs. wf_map r \<Longrightarrow>
     wf_map (foldl (\<lambda>acc value. js_spread value acc) [] rs) \<and>
     js_get (foldl (\<lambda>acc value. js_spread value acc) [] rs) k = first_defined rs k"
proof (induction rs rule: rev_induct)
  case Nil
  then show ?case by simp
next
  case (snoc r rs)
  then show ?case
    by (simp add: wf_js_spread js_spread_wf_lookup first_defined_append split: option.split)
qed

section \<open>MediatorCombinePipeline\<close>

datatype pipeline_order = Increasing | Decreasing

text \<open>
  The ordering value of a test result: \<open>None\<close> when it is not a number.  The comparator
  reads the value of every element once there are two of them.
\<close>

definition order_results ::
  "pipeline_order option \<Rightarrow> ('t \<Rightarrow> rat option) \<Rightarrow> ('a \<times> 't) list \<Rightarrow> string + ('a \<times> 't) list" where
  "order_results ord val xs =
     (case ord of
        None \<Rightarrow> Inr xs
      | Some d \<Rightarrow>
          (if 2 \<le> length xs \<and> (\<exists>x \<in> set xs. val (snd x) = None)
           then Inl ''Cannot order elements that are not numbers.''
           else Inr (sort_key (\<lambda>x. (case d of Increasing \<Rightarrow> 1 | Decreasing \<Rightarrow> -1) *
                                     the (val (snd x))) xs)))"

text \<open>Each output's fields are written over those of the handle passed on.\<close>

fun run_pipeline ::
  "('a \<Rightarrow> ('k, 'v) jsmap \<Rightarrow> 's \<Rightarrow> string + ('k, 'v) jsmap) \<Rightarrow> ('k, 'v) jsmap \<Rightarrow> ('a \<times> 's) list \<Rightarrow>
     string + ('k, 'v) jsmap" where
  "run_pipeline run h [] = Inr h"
| "run_pipeline run h ((a, s) # xs) =
     bind_res (run a h s) (\<lambda>out. run_pipeline run (js_spread h out) xs)"

text \<open>
  \<open>sideDatas\<close> is filled in the order of the replies and is not sorted with them; the loop
  that runs the actors reads it by position.
\<close>

definition mediate_pipeline ::
  "bool \<Rightarrow> pipeline_order option \<Rightarrow> ('t \<Rightarrow> rat option) \<Rightarrow> (string list \<Rightarrow> string) \<Rightarrow>
     ('a \<Rightarrow> ('k, 'v) jsmap \<Rightarrow> string + ('t, 's) test_result) \<Rightarrow>
     ('a \<Rightarrow> ('k, 'v) jsmap \<Rightarrow> 's \<Rightarrow> string + ('k, 'v) jsmap) \<Rightarrow> ('k, 'v) jsmap \<Rightarrow>
     ('a, 'o, 'z) bus_scheme \<Rightarrow> string + ('k, 'v) jsmap" where
  "mediate_pipeline filterFailures ord val msg test run action b =
     (case mediator_publish (bus_name b) (publish test action b) of
        Inl e \<Rightarrow> Inr action
      | Inr published \<Rightarrow>
          bind_res (if filterFailures then filter_passed published else Inr published) (\<lambda>rs.
          bind_res (case unwrap_replies rs of Inl e \<Rightarrow> Inl (msg [e]) | Inr us \<Rightarrow> Inr us) (\<lambda>us.
          bind_res (order_results ord val (map (\<lambda>(a, t, s). (a, t)) us)) (\<lambda>sorted.
            run_pipeline run action (zip (map fst sorted) (map (\<lambda>(a, t, s). s) us))))))"

lemma js_spread_keeps: "js_has x k \<Longrightarrow> js_has (js_spread x y) k"
  by (simp add: js_spread_lookup split: option.split)

lemma run_pipeline_keeps:
  "run_pipeline run h xs = Inr h' \<Longrightarrow> js_has h k \<Longrightarrow> js_has h' k"
proof (induction run h xs rule: run_pipeline.induct)
  case (1 run h)
  then show ?case by simp
next
  case (2 run h a s xs)
  then obtain out where "run a h s = Inr out"
    and "run_pipeline run (js_spread h out) xs = Inr h'"
    by (auto simp: res_simps)
  with 2 js_spread_keeps [of h k out] show ?case by simp
qed

section \<open>Properties of the mediators\<close>

text \<open>
  The number mediator, told to ignore failures, chooses the first actor whose field value
  is the best of those that passed (an absent field counts as the worst value), hands it its
  own side data, and fails only when every test failed, listing the failures.
\<close>

theorem number_mediator_best:
  assumes "\<forall>x \<in> set xs. \<forall>t s. snd x = Passed t s \<longrightarrow> fld t \<noteq> F_number NaN \<and> fld t \<noteq> F_null"
  shows "case mediateWith_number ty True fld msg (map (\<lambda>(a, r). (a, Inr r)) xs) of
      Some (Inr (Passed a s)) \<Rightarrow>
        (\<exists>i t w. i < length xs \<and> xs ! i = (a, Passed t s) \<and>
           best_at ty (map (\<lambda>x. result_field fld (snd x)) xs) i w)
    | Some (Inr (Failed m)) \<Rightarrow>
        (\<forall>x \<in> set xs. \<not> isPassed (snd x)) \<and>
        m = msg (List.map_filter getFailMessage (map snd xs))
    | _ \<Rightarrow> False"
proof -
  let ?vs = "map (\<lambda>x. result_field fld (snd x)) xs"
  have nan: "\<forall>v \<in> set ?vs. v \<noteq> F_number NaN"
    using assms by (auto simp: result_field_def split: test_result.splits)
  have null: "result_field fld (snd x) = F_null \<longleftrightarrow> \<not> isPassed (snd x)" if "x \<in> set xs" for x
    using assms that by (cases "snd x") (auto simp: result_field_def)
  show ?thesis
  proof (cases "\<forall>v \<in> set ?vs. v = F_null")
    case True
    then have "indexPicker ty ?vs = -1" using indexPicker_best [OF nan, of ty] by simp
    with True null show ?thesis by (simp add: number_ignoring_eq comp_def)
  next
    case False
    with indexPicker_best [OF nan, of ty]
    obtain w where pos: "0 \<le> indexPicker ty ?vs"
      and best: "best_at ty ?vs (nat (indexPicker ty ?vs)) w"
      by (simp only: if_False) blast
    define i where "i = nat (indexPicker ty ?vs)"
    have i: "i < length xs" and nn: "?vs ! i \<noteq> F_null"
      using indexPicker_nonneg [OF pos] by (auto simp: i_def)
    then obtain t s where "snd (xs ! i) = Passed t s"
      by (cases "snd (xs ! i)") (auto simp: result_field_def)
    with i pos best show ?thesis
      by (auto simp: number_ignoring_eq comp_def Let_def i_def [symmetric] prod_eq_iff)
  qed
qed

definition sample_tests :: "(nat \<times> (rat, string) test_result) list" where
  "sample_tests = [(1, Passed 5 ''x''), (2, Failed ''no''), (3, Passed 2 ''y'')]"

theorem number_mediator_best_witness:
  "\<exists>a s. mediateWith_number Min_type True (\<lambda>n. F_number (Num n)) concat
      (map (\<lambda>(a, r). (a, Inr r)) sample_tests) = Some (Inr (Passed a s))"
  using number_mediator_best [of sample_tests "\<lambda>n. F_number (Num n)" Min_type concat]
  by (auto simp: sample_tests_def split: option.splits sum.splits test_result.splits)





text \<open>
  C27. Whatever the order in which the replies settle, the race mediator's promise settles, and
  it reports a failure exactly when every reply is a failed test.
\<close>

theorem race_settles:
  assumes "rs \<noteq> []"
  shows "\<exists>r. mediateWith_race time msg rs = Some r \<and>
    ((\<exists>m. r = Inr (Failed m)) \<longleftrightarrow> (\<forall>x \<in> set rs. is_failure x)) \<and>
    (\<forall>a s. r = Inr (Passed a s) \<longrightarrow> (\<exists>t. (a, Inr (Passed t s)) \<in> set rs))"
proof -
  have ne: "settled_order time rs \<noteq> []"
    using assms length_settled_order [of time rs] by (metis length_0_conv)
  have len: "length rs = length ([] :: string list) + length (settled_order time rs)"
    by simp
  have set: "set (settled_order time rs) = set rs" by simp
  let ?r = "case find (\<lambda>r. \<not> is_failure r) (settled_order time rs) of
         None \<Rightarrow> Inr (Failed (msg ([] @ map failure_message (settled_order time rs))))
       | Some r \<Rightarrow> race_decision r"
  have eq: "mediateWith_race time msg rs = Some ?r"
    unfolding mediateWith_race_def by (rule race_loop_eq [OF ne len])
  have "(\<exists>m. ?r = Inr (Failed m)) \<longleftrightarrow> (\<forall>x \<in> set rs. is_failure x)"
  proof (cases "find (\<lambda>r. \<not> is_failure r) (settled_order time rs)")
    case None
    then have "\<forall>x \<in> set rs. is_failure x" using set by (auto simp: find_None_iff)
    with None show ?thesis by simp
  next
    case (Some x)
    with find_Some_mem [OF Some] set race_decision_failure [of x]
    show ?thesis by auto
  qed
  moreover have "\<exists>t. (a, Inr (Passed t s)) \<in> set rs" if "?r = Inr (Passed a s)" for a s
    using race_med.chosen_passed [of time msg rs a s] eq that by simp
  ultimately show ?thesis using eq by blast
qed

definition sample_replies :: "(nat, nat, string) reply list" where
  "sample_replies = [(1, Inr (Failed ''a'')), (2, Inr (Passed 7 ''s''))]"

theorem race_settles_witness:
  "\<exists>r. mediateWith_race (\<lambda>i. 5 - i) concat sample_replies = Some r \<and>
    \<not> (\<exists>m. r = Inr (Failed m))"
  using race_settles [of sample_replies "\<lambda>i. 5 - i" concat]
  by (auto simp: sample_replies_def)

text \<open>
  The union mediator gives each key the value of the first output, in the order of the bus,
  that has the key; outputs registered later never overwrite it.
\<close>

theorem combine_union_first:
  assumes "\<forall>r \<in> set results. wf_map r"
  shows "wf_map (combiner results) \<and> js_get (combiner results) k = first_defined results k"
  using combine_step [of "[] # results" k] assms by (simp add: combiner_def)

theorem combine_union_first_witness:
  "wf_map (combiner [[(1 :: nat, ''a'')], [(1, ''b''), (2, ''c'')]]) \<and>
   js_get (combiner [[(1 :: nat, ''a'')], [(1, ''b''), (2, ''c'')]]) 1 =
     first_defined [[(1 :: nat, ''a'')], [(1, ''b''), (2, ''c'')]] 1"
  by (rule combine_union_first) (simp add: wf_map_def)

text \<open>
  The pipeline mediator never drops a field of the action: every key of the input is a key
  of the output it returns.
\<close>

theorem pipeline_keeps_fields:
  assumes "mediate_pipeline ff ord val msg test run action b = Inr h" and "js_has action k"
  shows "js_has h k"
proof (cases "mediator_publish (bus_name b) (publish test action b)")
  case (Inl e)
  with assms show ?thesis by (simp add: mediate_pipeline_def)
next
  case (Inr published)
  with assms show ?thesis
    by (auto simp: mediate_pipeline_def res_simps dest!: run_pipeline_keeps)
qed

theorem pipeline_keeps_fields_witness:
  "js_has (js_spread [(''q'', 1 :: nat)] [(''r'', 2)]) ''q''"
  by (rule pipeline_keeps_fields [where ff = False and ord = None and val = "\<lambda>t :: unit. None"
        and msg = concat and test = "\<lambda>a h. Inr (Passed () ())"
        and run = "\<lambda>a h s. Inr [(''r'', 2)]" and action = "[(''q'', 1)]"
        and b = "(new_bus ''b'' :: (nat, unit) bus)\<lparr>actors := [1]\<rparr>"])
     (simp_all add: mediate_pipeline_def mediator_publish_def publish_def new_bus_def
        unwrap_replies_def order_results_def)

text \<open>
  With ordering enabled the side data of the tests is not reordered with the actors: here
  actor 2 is run first and receives the side data of the test of actor 1.
\<close>

theorem pipeline_order_mixes_side_data:
  "mediate_pipeline False (Some Increasing) Some concat
     (\<lambda>a h. Inr (Passed (if a = 1 then 9 else 3) (if a = (1 :: nat) then ''one'' else ''two'')))
     (\<lambda>a h s. Inr [(a, s)]) []
     ((new_bus ''b'' :: (nat, unit) bus)\<lparr>actors := [1, 2]\<rparr>) =
   Inr [(2, ''one''), (1, ''two'')]"
  by (simp add: mediate_pipeline_def mediator_publish_def publish_def new_bus_def
      unwrap_replies_def order_results_def js_spread_def)

end
