(* ===== verification/Join_Selectivity.thy ===== *)
theory Join_Selectivity
  imports Join_Order RDF_Terms
begin

text \<open>
  The selectivity heuristic of
  \<open>packages/actor-rdf-join-selectivity-variable-counting\<close>.

  The patterns and paths that an operation contains, which the code collects with
  \<open>visitOperation\<close>, are an argument.  Patterns are compared by reference when pairs are
  formed, so a pattern carries an identity.  The predicate of a path is not a term; costs are
  exact rationals.
\<close>

section \<open>Data\<close>

record selectivity_pattern =
  sp_id :: nat
  sp_is_path :: bool
  sp_subject :: rdf_term
  sp_predicate :: rdf_term
  sp_object :: rdf_term
  sp_graph :: rdf_term

text \<open>A join type: bound or unbound, and the positions in the first and the second operation.\<close>

datatype position = S | P | Ob | G

datatype join_type = Bound position position | Unbound position position

section \<open>Costs\<close>

definition MAX_PAIRWISE_COST :: rat where "MAX_PAIRWISE_COST = 41 * 2"

definition getPatternCost :: "selectivity_pattern \<Rightarrow> rat" where
  "getPatternCost p =
     (1 + (if is_variable (sp_subject p) then 4 else 0)
        + (if is_variable (sp_predicate p) \<or> sp_is_path p then 1 else 0)
        + (if is_variable (sp_object p) then 2 else 0)
        + (if is_variable (sp_graph p) then 1 else 0)) / 9"

text \<open>The checks of one position of the first operation against the second operation.\<close>

definition position_join_types ::
  "position \<Rightarrow> rdf_term \<Rightarrow> selectivity_pattern \<Rightarrow> join_type list" where
  "position_join_types pos t op2 =
     (let mk = (if is_variable t then Unbound pos else Bound pos)
      in (if t = sp_subject op2 then [mk S] else []) @
         (if \<not> sp_is_path op2 \<and> t = sp_predicate op2 then [mk P] else []) @
         (if t = sp_object op2 then [mk Ob] else []) @
         (if t = sp_graph op2 then [mk G] else []))"

definition getJoinTypes :: "selectivity_pattern \<Rightarrow> selectivity_pattern \<Rightarrow> join_type list" where
  "getJoinTypes op1 op2 =
     position_join_types S (sp_subject op1) op2 @
     (if \<not> sp_is_path op1 then position_join_types P (sp_predicate op1) op2 else []) @
     position_join_types Ob (sp_object op1) op2 @
     position_join_types G (sp_graph op1) op2"

text \<open>The cost that a join type takes away: 2 for subject-subject, 1 for a subject or object with
  an object or subject and for object-object, 3 otherwise, twice as much when bound.\<close>

fun unbound_cost :: "position \<Rightarrow> position \<Rightarrow> rat" where
  "unbound_cost S S = 2"
| "unbound_cost S Ob = 1"
| "unbound_cost Ob S = 1"
| "unbound_cost Ob Ob = 1"
| "unbound_cost p q = 3"

fun pairwise_cost :: "join_type list \<Rightarrow> rat \<Rightarrow> rat" where
  "pairwise_cost [] cost = cost / MAX_PAIRWISE_COST"
| "pairwise_cost (Bound p q # ts) cost =
     (if p = P \<and> q = P then 1 else pairwise_cost ts (cost - unbound_cost p q * 2))"
| "pairwise_cost (Unbound p q # ts) cost = pairwise_cost ts (cost - unbound_cost p q)"

definition getOperationsPairwiseJoinCost :: "selectivity_pattern \<Rightarrow> selectivity_pattern \<Rightarrow> rat" where
  "getOperationsPairwiseJoinCost op1 op2 = pairwise_cost (getJoinTypes op1 op2) MAX_PAIRWISE_COST"

definition getOperationsJoinCost :: "('o \<Rightarrow> selectivity_pattern list) \<Rightarrow> 'o list \<Rightarrow> rat" where
  "getOperationsJoinCost patterns_of operations =
     (let patterns = concat (map patterns_of operations);
          pairs = filter (\<lambda>(p, q). sp_id p \<noteq> sp_id q) (List.product patterns patterns);
          totalCost = sum_list (map (\<lambda>(p, q). getOperationsPairwiseJoinCost p q) pairs);
          costEntries = length pairs
      in if costEntries = 0 then 1
         else totalCost / of_nat costEntries * prod_list (map getPatternCost patterns))"

definition selectivity_run ::
  "('o \<Rightarrow> selectivity_pattern list) \<Rightarrow> ('t, 'v, 'o) join_entry list \<Rightarrow> rat" where
  "selectivity_run patterns_of es =
     (if length es \<le> 1 then 1 else getOperationsJoinCost patterns_of (map je_operation es))"

section \<open>Bounds\<close>

lemma getPatternCost_bounds: "0 < getPatternCost p \<and> getPatternCost p \<le> 1"
  by (simp add: getPatternCost_def)

fun type_cost :: "join_type \<Rightarrow> rat" where
  "type_cost (Bound p q) = unbound_cost p q * 2"
| "type_cost (Unbound p q) = unbound_cost p q"

lemma unbound_cost_nonneg: "0 \<le> unbound_cost p q"
  by (cases p; cases q) simp_all

lemma type_cost_nonneg: "0 \<le> type_cost t"
  using unbound_cost_nonneg by (cases t) simp_all

lemma pairwise_cost_eq:
  "pairwise_cost ts cost =
     (if Bound P P \<in> set ts then 1 else (cost - sum_list (map type_cost ts)) / MAX_PAIRWISE_COST)"
proof (induction ts arbitrary: cost)
  case Nil
  then show ?case by simp
next
  case (Cons t ts)
  then show ?case by (cases t) (auto simp: diff_diff_eq)
qed

text \<open>The most that the checks of one position take away; for the predicate, unless the special
  case of equal bound predicates applies.\<close>

lemma position_types_bound:
  "sum_list (map type_cost (position_join_types S t op2)) \<le> 18"
  "sum_list (map type_cost (position_join_types Ob t op2)) \<le> 16"
  "sum_list (map type_cost (position_join_types G t op2)) \<le> 24"
  "Bound P P \<notin> set (position_join_types P t op2) \<Longrightarrow>
     sum_list (map type_cost (position_join_types P t op2)) \<le> 18"
  by (auto simp: position_join_types_def Let_def)

lemma join_types_cost:
  assumes "Bound P P \<notin> set (getJoinTypes op1 op2)"
  shows "0 \<le> sum_list (map type_cost (getJoinTypes op1 op2)) \<and>
    sum_list (map type_cost (getJoinTypes op1 op2)) \<le> 76"
proof
  show "0 \<le> sum_list (map type_cost (getJoinTypes op1 op2))"
    by (rule sum_list_nonneg) (auto simp: type_cost_nonneg)
  have "sum_list (map type_cost (if \<not> sp_is_path op1 then position_join_types P (sp_predicate op1) op2 else [])) \<le> 18"
    using position_types_bound(4) [of "sp_predicate op1" op2] assms by (auto simp: getJoinTypes_def)
  with position_types_bound(1) [of "sp_subject op1" op2] position_types_bound(2) [of "sp_object op1" op2]
    position_types_bound(3) [of "sp_graph op1" op2]
  show "sum_list (map type_cost (getJoinTypes op1 op2)) \<le> 76" unfolding getJoinTypes_def by simp
qed

lemma pairwise_cost_bounds:
  "0 < getOperationsPairwiseJoinCost op1 op2 \<and> getOperationsPairwiseJoinCost op1 op2 \<le> 1"
  using join_types_cost [of op1 op2]
  by (auto simp: getOperationsPairwiseJoinCost_def pairwise_cost_eq MAX_PAIRWISE_COST_def)

lemma prod_list_bounds:
  "\<forall>x \<in> set xs. 0 < x \<and> x \<le> (1 :: rat) \<Longrightarrow> 0 < prod_list xs \<and> prod_list xs \<le> 1"
  by (induction xs) (auto simp: mult_le_one)

lemma average_bounds:
  assumes "\<forall>x \<in> set xs. 0 < x \<and> x \<le> (1 :: rat)" and "xs \<noteq> []"
  shows "0 < sum_list xs / of_nat (length xs) \<and> sum_list xs / of_nat (length xs) \<le> 1"
proof -
  have le: "sum_list ys \<le> of_nat (length ys)" "0 \<le> sum_list ys" if "\<forall>x \<in> set ys. 0 < x \<and> x \<le> 1"
    for ys :: "rat list"
    using that by (induction ys) (auto simp: add_mono)
  from assms obtain y ys where "xs = y # ys" "0 < y" "\<forall>x \<in> set ys. 0 < x \<and> x \<le> 1"
    by (auto simp: neq_Nil_conv)
  with le(1) [OF assms(1)] le(2) [of ys] have "0 < sum_list xs \<and> sum_list xs \<le> of_nat (length xs)"
    by (simp add: add_pos_nonneg)
  with assms(2) show ?thesis by (simp add: divide_le_eq)
qed

lemma join_cost_bounds:
  "0 < getOperationsJoinCost patterns_of operations \<and> getOperationsJoinCost patterns_of operations \<le> 1"
proof -
  let ?ps = "concat (map patterns_of operations)"
  let ?pairs = "filter (\<lambda>(p, q). sp_id p \<noteq> sp_id q) (List.product ?ps ?ps)"
  let ?costs = "map (\<lambda>(p, q). getOperationsPairwiseJoinCost p q) ?pairs"
  have prod: "0 < prod_list (map getPatternCost ?ps) \<and> prod_list (map getPatternCost ?ps) \<le> 1"
    by (rule prod_list_bounds) (auto simp: getPatternCost_bounds)
  show ?thesis
  proof (cases "?pairs = []")
    case True
    then show ?thesis by (simp add: getOperationsJoinCost_def Let_def)
  next
    case False
    then have "0 < sum_list ?costs / of_nat (length ?costs) \<and> sum_list ?costs / of_nat (length ?costs) \<le> 1"
      by (intro average_bounds) (auto simp: pairwise_cost_bounds)
    moreover have "getOperationsJoinCost patterns_of operations =
        sum_list ?costs / of_nat (length ?costs) * prod_list (map getPatternCost ?ps)"
      using False by (simp add: getOperationsJoinCost_def Let_def)
    ultimately show ?thesis using prod by (metis less_imp_le mult_le_one mult_pos_pos)
  qed
qed

lemma selectivity_bounds: "0 < selectivity_run patterns_of es \<and> selectivity_run patterns_of es \<le> 1"
  using join_cost_bounds [of patterns_of "map je_operation es"] by (simp add: selectivity_run_def)

lemma selectivity_below_max: "num_lt (Num (selectivity_run patterns_of es)) number_MAX_VALUE"
proof -
  have "selectivity_run patterns_of es \<le> 1" using selectivity_bounds [of patterns_of es] by blast
  also have "(1 :: rat) < 2 ^ 1024 - 2 ^ 971" by simp
  finally show ?thesis by (simp add: number_MAX_VALUE_def)
qed

section \<open>Properties of sorting and of join orders\<close>

text \<open>
  The selectivity of a join is greater than zero and at most one, whatever the patterns.
\<close>

theorem selectivity_in_unit_interval:
  "0 < selectivity_run patterns_of es \<and> selectivity_run patterns_of es \<le> 1"
  by (rule selectivity_bounds)

text \<open>
  Sorting entries greedily by this selectivity neither loses nor duplicates an entry.
\<close>

theorem selectivity_sort_permutes:
  "mset (sort_selectivity_run (\<lambda>es. Num (selectivity_run patterns_of (map the es))) es) = mset (map Some es)"
  unfolding sort_selectivity_run_def by (subst sort_selectivity_perm) (simp_all add: selectivity_below_max)

text \<open>
  Sorting entries by cardinality gives the same entries in the order of their cardinalities,
  infinite ones last.
\<close>

theorem cardinality_sort_sorts:
  assumes "\<forall>e \<in> set es. entry_card e \<noteq> NaN"
  shows "mset (sort_cardinality_run es) = mset es \<and>
    sorted_wrt (\<lambda>a b. num_le (entry_card a) (entry_card b)) (sort_cardinality_run es)"
  unfolding sort_cardinality_run_def
  using js_sort_ordered [of es "\<lambda>l r. num_sub (entry_card l) (entry_card r)" entry_card] assms
  by (simp add: sub_positive_iff)

definition sample_entry :: "(string, bool) bindings list \<Rightarrow> (string \<times> bool) list \<Rightarrow> jsnum \<Rightarrow>
    (string, bool, string) join_entry" where
  "sample_entry bs vs n =
     \<lparr>je_type = ''bindings'', je_bindings = bs, je_metadata = sample_md vs n, je_operation = [],
      je_operationModified = False, je_operationRequired = False\<rparr>"

theorem cardinality_sort_sorts_witness:
  "mset (sort_cardinality_run [sample_entry [] [] PInf, sample_entry [] [] (Num 3)]) =
     mset [sample_entry [] [] PInf, sample_entry [] [] (Num 3)] \<and>
   sorted_wrt (\<lambda>a b. num_le (entry_card a) (entry_card b))
     (sort_cardinality_run [sample_entry [] [] PInf, sample_entry [] [] (Num 3)])"
  by (rule cardinality_sort_sorts) (simp add: entry_card_def sample_entry_def sample_md_def)

text \<open>
  C5. Joining any number of entries smallest first, after sorting them by cardinality, always
  returns a result, and its solutions are those of the join of all the entries, each as often: the
  order chosen does not matter.  The fuel is more than the number of entries.
\<close>

theorem smallest_join_is_join:
  assumes "length es < n" and "list_all wf_entry es"
  shows "\<exists>bs md. smallest_join u truthy (\<lambda>xs. Inr (sort_cardinality_run xs)) createJoin result_metadata n es =
      Inr (bs, md) \<and> sols bs = join_all (map entry_sols es)"
  using smallest_join_joins [where sorter = "\<lambda>xs. Inr (sort_cardinality_run xs)" and u = u and
      truthy = truthy and createJoin = createJoin and result_metadata = result_metadata, OF _ assms]
  by (auto simp: joins_def sort_cardinality_run_def)

theorem smallest_join_is_join_witness:
  "\<exists>bs md. smallest_join False id (\<lambda>xs. Inr (sort_cardinality_run xs)) (\<lambda>ops. []) (\<lambda>mds. sample_md [] (Num 0)) 4
     [sample_entry [b_of [(''x'', ''a'')]] [(''x'', False)] (Num 3),
      sample_entry [b_of [(''y'', ''b'')]] [(''y'', False)] (Num 1),
      sample_entry [b_of [(''x'', ''a''), (''y'', ''b'')]] [(''x'', False), (''y'', False)] (Num 2)] = Inr (bs, md) \<and>
   sols bs = join_all (map entry_sols
     [sample_entry [b_of [(''x'', ''a'')]] [(''x'', False)] (Num 3),
      sample_entry [b_of [(''y'', ''b'')]] [(''y'', False)] (Num 1),
      sample_entry [b_of [(''x'', ''a''), (''y'', ''b'')]] [(''x'', False), (''y'', False)] (Num 2)])"
  by (rule smallest_join_is_join) (simp_all add: wf_entry_def sample_entry_def wf_b_of)

end
