(* ===== verification/Filter_Pushdown.thy ===== *)
theory Filter_Pushdown
  imports Algebra
begin

text \<open>
  The filter pushdown optimizer
  (\<open>packages/actor-optimize-query-operation-filter-pushdown\<close>): how a filter moves into each
  operator, and when the rewritten operation has the solutions of the original one.

  The factory and helpers of the algebra package are fields of the record \<open>algebra_lib\<close>; what the
  rewrites rely on is the predicate \<open>algebra_laws\<close>.  \<open>mapTermsNested\<close> is given its callback in
  state-passing form: the callback takes and returns the value of the local variable
  \<open>isModified\<close>.
\<close>

type_synonym quad_terms = "rdf_term \<times> rdf_term \<times> rdf_term \<times> rdf_term"

record 'x algebra_lib =
  inScopeVariables :: "'x operation \<Rightarrow> string list"
  createJoin :: "'x operation list \<Rightarrow> bool \<Rightarrow> 'x operation"
  createUnion :: "'x operation list \<Rightarrow> bool \<Rightarrow> 'x operation"
  mapTermsNested :: "(rdf_term \<Rightarrow> bool \<Rightarrow> rdf_term \<times> bool) \<Rightarrow> quad_terms \<Rightarrow> bool \<Rightarrow> quad_terms \<times> bool"
  no_graph :: rdf_term

record pushdown_options =
  aggressivePushdown :: bool
  maxIterations :: nat
  splitConjunctive :: bool
  mergeConjunctive :: bool
  pushIntoLeftJoins :: bool
  pushEqualityIntoPatterns :: bool

section \<open>Expressions and variables\<close>

definition isExpressionFalse :: "'q expression \<Rightarrow> bool" where
  "isExpressionFalse e =
     (case e of E_term t \<Rightarrow> termType t = ''Literal'' \<and> term_value t = ''false'' | _ \<Rightarrow> False)"

definition is_existence :: "'q expression \<Rightarrow> bool" where
  "is_existence e = (case e of E_existence neg q \<Rightarrow> True | _ \<Rightarrow> False)"

definition variablesIntersect :: "string list \<Rightarrow> string list \<Rightarrow> bool" where
  "variablesIntersect varsA varsB = list_ex (\<lambda>a. list_ex (\<lambda>b. a = b) varsB) varsA"

definition variablesSubSetOf :: "string list \<Rightarrow> string list \<Rightarrow> bool" where
  "variablesSubSetOf needles haystack \<longleftrightarrow>
     length needles \<le> length haystack \<and> list_all (\<lambda>a. list_ex (\<lambda>b. a = b) haystack) needles"

definition isLiteralWithCanonicalLexicalForm :: "rdf_term \<Rightarrow> bool" where
  "isLiteralWithCanonicalLexicalForm t =
     (case t of Literal v l datatype d \<Rightarrow>
        List.member
          [xsd @ ''string'', ''http://www.w3.org/1999/02/22-rdf-syntax-ns#langString'',
           xsd @ ''normalizedString'', xsd @ ''anyURI'', xsd @ ''base64Binary'', xsd @ ''language'',
           xsd @ ''Name'', xsd @ ''NCName'', xsd @ ''NMTOKEN'', xsd @ ''token'', xsd @ ''hexBinary'']
          datatype
      | _ \<Rightarrow> False)"

definition pushable_term :: "rdf_term \<Rightarrow> bool" where
  "pushable_term t \<longleftrightarrow>
     termType t \<noteq> ''Variable'' \<and> (termType t \<noteq> ''Literal'' \<or> isLiteralWithCanonicalLexicalForm t)"

definition getEqualityExpressionPushableIntoPattern ::
  "'q expression \<Rightarrow> (string \<times> rdf_term) option" where
  "getEqualityExpressionPushableIntoPattern e =
     (case e of
        E_operator op_name (E_term t0 # E_term t1 # rest) \<Rightarrow>
          if op_name = ''=''
          then (if pushable_term t0 \<and> is_variable t1 then Some (term_value t1, t0)
                else if is_variable t0 \<and> pushable_term t1 then Some (term_value t0, t1)
                else None)
          else None
      | _ \<Rightarrow> None)"

lemma variablesIntersect_iff [simp]: "variablesIntersect vs ws \<longleftrightarrow> set vs \<inter> set ws \<noteq> {}"
  by (auto simp: variablesIntersect_def list_ex_iff)

lemma variablesSubSetOf_subset: "variablesSubSetOf vs ws \<Longrightarrow> set vs \<subseteq> set ws"
  by (auto simp: variablesSubSetOf_def list_ex_iff list_all_iff)

lemma subset_variablesSubSetOf: "distinct vs \<Longrightarrow> set vs \<subseteq> set ws \<Longrightarrow> variablesSubSetOf vs ws"
  unfolding variablesSubSetOf_def list_ex_iff list_all_iff
  by (metis card_length card_mono distinct_card finite_set le_trans subsetD)

section \<open>Moving a filter into an operation\<close>

text \<open>\<open>getOverlappingOperations\<close>: the three groups of inputs.\<close>

definition fullyOverlapping :: "'x algebra_lib \<Rightarrow> string list \<Rightarrow> 'x operation list \<Rightarrow> 'x operation list" where
  "fullyOverlapping lib vs qs = filter (\<lambda>i. variablesSubSetOf vs (inScopeVariables lib i)) qs"

definition partiallyOverlapping :: "'x algebra_lib \<Rightarrow> string list \<Rightarrow> 'x operation list \<Rightarrow> 'x operation list" where
  "partiallyOverlapping lib vs qs =
     filter (\<lambda>i. \<not> variablesSubSetOf vs (inScopeVariables lib i) \<and>
                 variablesIntersect vs (inScopeVariables lib i)) qs"

definition notOverlapping :: "'x algebra_lib \<Rightarrow> string list \<Rightarrow> 'x operation list \<Rightarrow> 'x operation list" where
  "notOverlapping lib vs qs =
     filter (\<lambda>i. \<not> variablesSubSetOf vs (inScopeVariables lib i) \<and>
                 \<not> variablesIntersect vs (inScopeVariables lib i)) qs"

lemma fullyOverlapping_size [termination_simp]:
  "q \<in> set (fullyOverlapping lib vs qs) \<Longrightarrow> size q < Suc (size_list size qs)"
  by (auto simp: fullyOverlapping_def less_Suc_eq_le intro: size_list_estimation' [OF _ order_refl])

text \<open>The part that \<open>JOIN\<close> and \<open>UNION\<close> share: the filtered full inputs as one operation, the
  partial inputs under the filter, and the others.\<close>

definition regroup ::
  "('x operation list \<Rightarrow> bool \<Rightarrow> 'x operation) \<Rightarrow> 'x expr \<Rightarrow> 'x operation list \<Rightarrow> 'x operation list \<Rightarrow>
   'x operation list \<Rightarrow> bool \<times> 'x operation" where
  "regroup create e full partial others =
     (let parts = (if full \<noteq> [] then [create full True] else []) @
            (if partial \<noteq> [] then [Op_filter (create partial False) e] else []) @ others
      in (full \<noteq> [] \<or> length parts > 1,
          if length parts = 1 then hd parts else create parts True))"

text \<open>The early returns on the expression, before the operation is looked at.\<close>

definition pushdown_guard ::
  "'x algebra_lib \<Rightarrow> 'x expr \<Rightarrow> 'x operation \<Rightarrow> bool \<times> 'x operation \<Rightarrow> bool \<times> 'x operation" where
  "pushdown_guard lib e q r =
     (if isExpressionFalse e then (True, createUnion lib [] True)
      else if is_existence e then (False, Op_filter q e)
      else r)"

text \<open>The callback of \<open>mapTermsNested\<close>, and the \<open>VALUES\<close> clause that keeps the variable bound.\<close>

definition replace_variable :: "string \<Rightarrow> rdf_term \<Rightarrow> rdf_term \<Rightarrow> bool \<Rightarrow> rdf_term \<times> bool" where
  "replace_variable v t x modified = (if x = Variable v then (t, True) else (x, modified))"

definition bound_values :: "string \<Rightarrow> rdf_term \<Rightarrow> 'x operation" where
  "bound_values v t = Op_values [v] [[(v, t)]]"

fun filterPushdown ::
  "pushdown_options \<Rightarrow> 'x algebra_lib \<Rightarrow> 'x expr \<Rightarrow> string list \<Rightarrow> 'x operation \<Rightarrow>
   bool \<times> 'x operation" where
  "filterPushdown opts lib e vs (Op_extend q v ex) =
     pushdown_guard lib e (Op_extend q v ex)
       (if \<not> variablesIntersect [v] vs
        then (True, Op_extend (snd (filterPushdown opts lib e vs q)) v ex)
        else (False, Op_filter (Op_extend q v ex) e))"
| "filterPushdown opts lib e vs (Op_filter q ex) =
     pushdown_guard lib e (Op_filter q ex)
       (case filterPushdown opts lib e vs q of (modified, r) \<Rightarrow> (modified, Op_filter r ex))"
| "filterPushdown opts lib e vs (Op_join qs) =
     pushdown_guard lib e (Op_join qs)
       (if qs = [] then (False, Op_filter (Op_join qs) e)
        else regroup (createJoin lib) e
               (map (\<lambda>i. snd (filterPushdown opts lib e vs i)) (fullyOverlapping lib vs qs))
               (partiallyOverlapping lib vs qs) (notOverlapping lib vs qs))"
| "filterPushdown opts lib e vs Op_nop = pushdown_guard lib e Op_nop (True, Op_nop)"
| "filterPushdown opts lib e vs (Op_project q ws) =
     pushdown_guard lib e (Op_project q ws)
       (if variablesIntersect ws vs
        then (True, Op_project (snd (filterPushdown opts lib e vs q)) ws)
        else (True, Op_project q ws))"
| "filterPushdown opts lib e vs (Op_union qs) =
     pushdown_guard lib e (Op_union qs)
       (regroup (createUnion lib) e
          (map (\<lambda>i. snd (filterPushdown opts lib e vs i)) (fullyOverlapping lib vs qs))
          (partiallyOverlapping lib vs qs) (notOverlapping lib vs qs))"
| "filterPushdown opts lib e vs (Op_values ws rows) =
     pushdown_guard lib e (Op_values ws rows)
       (if variablesIntersect ws vs then (False, Op_filter (Op_values ws rows) e)
        else (True, Op_values ws rows))"
| "filterPushdown opts lib e vs (Op_leftjoin l r c) =
     pushdown_guard lib e (Op_leftjoin l r c)
       (if pushIntoLeftJoins opts \<and> \<not> variablesIntersect vs (inScopeVariables lib r)
        then (True, Op_leftjoin (snd (filterPushdown opts lib e vs l)) r c)
        else (False, Op_filter (Op_leftjoin l r c) e))"
| "filterPushdown opts lib e vs (Op_pattern src s p ob g) =
     pushdown_guard lib e (Op_pattern src s p ob g)
       (case (if pushEqualityIntoPatterns opts then getEqualityExpressionPushableIntoPattern e else None) of
          None \<Rightarrow> (False, Op_filter (Op_pattern src s p ob g) e)
        | Some (v, t) \<Rightarrow>
            (case mapTermsNested lib (replace_variable v t) (s, p, ob, g) False of
               ((s', p', ob', g'), modified) \<Rightarrow>
                 if modified
                 then (True, createJoin lib [Op_pattern src s' p' ob' g', bound_values v t] True)
                 else (False, Op_filter (Op_pattern src s' p' ob' g') e)))"
| "filterPushdown opts lib e vs (Op_path src s x ob g) =
     pushdown_guard lib e (Op_path src s x ob g)
       (case (if pushEqualityIntoPatterns opts then getEqualityExpressionPushableIntoPattern e else None) of
          None \<Rightarrow> (False, Op_filter (Op_path src s x ob g) e)
        | Some (v, t) \<Rightarrow>
            if s = Variable v \<or> ob = Variable v
            then (True, createJoin lib
                    [Op_path src (if s = Variable v then t else s) x
                       (if ob = Variable v then t else ob) (no_graph lib),
                     bound_values v t] True)
            else (False, Op_filter (Op_path src s x ob g) e))"
| "filterPushdown opts lib e vs (Op_bgp ps) =
     pushdown_guard lib e (Op_bgp ps) (False, Op_filter (Op_bgp ps) e)"
| "filterPushdown opts lib e vs (Op_other ty src qs x) =
     pushdown_guard lib e (Op_other ty src qs x) (False, Op_filter (Op_other ty src qs x) e)"

section \<open>When a pushdown keeps the solutions\<close>

text \<open>Variables that every solution of an operation binds.\<close>

definition pattern_variables :: "rdf_term list \<Rightarrow> string list" where
  "pattern_variables ts = map term_value (filter is_variable ts)"

fun certain_variables :: "'x operation \<Rightarrow> string list" where
  "certain_variables (Op_extend q v e) = certain_variables q"
| "certain_variables (Op_filter q e) = certain_variables q"
| "certain_variables (Op_join qs) = concat (map certain_variables qs)"
| "certain_variables Op_nop = []"
| "certain_variables (Op_project q ws) = filter (\<lambda>v. v \<in> set ws) (certain_variables q)"
| "certain_variables (Op_union qs) =
     (case map certain_variables qs of
        [] \<Rightarrow> []
      | vs # vss \<Rightarrow> filter (\<lambda>v. list_all (\<lambda>ws. v \<in> set ws) vss) vs)"
| "certain_variables (Op_values ws rows) = filter (\<lambda>v. list_all (\<lambda>r. map_of r v \<noteq> None) rows) ws"
| "certain_variables (Op_leftjoin l r c) = certain_variables l"
| "certain_variables (Op_pattern src s p ob g) = pattern_variables [s, p, ob, g]"
| "certain_variables (Op_path src s x ob g) = pattern_variables [s, ob]"
| "certain_variables (Op_bgp ps) = concat (map certain_variables ps)"
| "certain_variables (Op_other ty src qs x) = []"

text \<open>What the rewrites rely on: the algebra package and the semantics of patterns and paths.\<close>

definition equality_law :: "'x algebra_lib \<Rightarrow> 'x semantics \<Rightarrow> bool" where
  "equality_law lib sem \<longleftrightarrow>
     (\<forall>src s p ob g v t s' p' ob' g'. pushable_term t \<and> term_vars t = {} \<longrightarrow>
        mapTermsNested lib (replace_variable v t) (s, p, ob, g) False = ((s', p', ob', g'), True) \<longrightarrow>
        filter_mset (\<lambda>f. f v = Some t) (sem_base sem (Op_pattern src s p ob g)) =
          join_sols (sem_base sem (Op_pattern src s' p' ob' g')) {#[v \<mapsto> t]#}) \<and>
     (\<forall>s p ob g v t s' p' ob' g'.
        mapTermsNested lib (replace_variable v t) (s, p, ob, g) False = ((s', p', ob', g'), False) \<longrightarrow>
        (s', p', ob', g') = (s, p, ob, g)) \<and>
     (\<forall>src s x ob v t. pushable_term t \<and> term_vars t = {} \<longrightarrow> s = Variable v \<or> ob = Variable v \<longrightarrow>
        filter_mset (\<lambda>f. f v = Some t) (sem_base sem (Op_path src s x ob (no_graph lib))) =
          join_sols (sem_base sem (Op_path src (if s = Variable v then t else s) x
             (if ob = Variable v then t else ob) (no_graph lib))) {#[v \<mapsto> t]#})"

definition algebra_laws :: "'x algebra_lib \<Rightarrow> 'x semantics \<Rightarrow> bool" where
  "algebra_laws lib sem \<longleftrightarrow>
     (\<forall>q. \<forall>f \<in># eval sem q. dom f \<subseteq> set (inScopeVariables lib q)) \<and>
     (\<forall>qs flat. eval sem (createJoin lib qs flat) = join_all (map (eval sem) qs)) \<and>
     (\<forall>qs flat. eval sem (createUnion lib qs flat) = sum_list (map (eval sem) qs)) \<and>
     (\<forall>src s p ob g. bound_in (set (pattern_variables [s, p, ob, g])) (sem_base sem (Op_pattern src s p ob g))) \<and>
     (\<forall>src s x ob g. bound_in (set (pattern_variables [s, ob])) (sem_base sem (Op_path src s x ob g))) \<and>
     equality_law lib sem"

definition filter_law :: "'x semantics \<Rightarrow> 'x expr \<Rightarrow> string list \<Rightarrow> bool" where
  "filter_law sem e vs \<longleftrightarrow>
     depends_on (sem_holds sem e) (set vs) \<and>
     (isExpressionFalse e \<longrightarrow> (\<forall>f. \<not> sem_holds sem e f)) \<and>
     (\<forall>v t f. getEqualityExpressionPushableIntoPattern e = Some (v, t) \<longrightarrow>
        term_vars t = {} \<and> (sem_holds sem e f \<longleftrightarrow> f v = Some t))"

fun pushdown_safe ::
  "pushdown_options \<Rightarrow> 'x algebra_lib \<Rightarrow> 'x expr \<Rightarrow> string list \<Rightarrow> 'x operation \<Rightarrow> bool" where
  "pushdown_safe opts lib e vs (Op_extend q v ex) = (v \<in> set vs \<or> pushdown_safe opts lib e vs q)"
| "pushdown_safe opts lib e vs (Op_filter q ex) = pushdown_safe opts lib e vs q"
| "pushdown_safe opts lib e vs (Op_join qs) =
     (qs = [] \<or>
      fullyOverlapping lib vs qs = [] \<and> partiallyOverlapping lib vs qs \<noteq> [] \<or>
      fullyOverlapping lib vs qs \<noteq> [] \<and> partiallyOverlapping lib vs qs = [] \<and>
      list_all (\<lambda>i. set vs \<subseteq> set (certain_variables i)) (fullyOverlapping lib vs qs) \<and>
      list_all (\<lambda>i. pushdown_safe opts lib e vs i) (fullyOverlapping lib vs qs))"
| "pushdown_safe opts lib e vs Op_nop = False"
| "pushdown_safe opts lib e vs (Op_project q ws) =
     (vs \<noteq> [] \<and> set vs \<subseteq> set ws \<and> pushdown_safe opts lib e vs q)"
| "pushdown_safe opts lib e vs (Op_union qs) =
     (notOverlapping lib vs qs = [] \<and>
      list_all (\<lambda>i. pushdown_safe opts lib e vs i) (fullyOverlapping lib vs qs))"
| "pushdown_safe opts lib e vs (Op_values ws rows) = variablesIntersect ws vs"
| "pushdown_safe opts lib e vs (Op_leftjoin l r c) =
     (pushIntoLeftJoins opts \<and> \<not> variablesIntersect vs (inScopeVariables lib r) \<longrightarrow>
        pushdown_safe opts lib e vs l)"
| "pushdown_safe opts lib e vs (Op_pattern src s p ob g) = True"
| "pushdown_safe opts lib e vs (Op_path src s x ob g) = (g = no_graph lib)"
| "pushdown_safe opts lib e vs (Op_bgp ps) = True"
| "pushdown_safe opts lib e vs (Op_other ty src qs x) = True"

section \<open>Soundness of the pushdown\<close>

lemma bound_in_join_all:
  "A \<in> set As \<Longrightarrow> bound_in V A \<Longrightarrow> bound_in V (join_all As)"
  by (fastforce simp: join_all_remove bound_in_def join_sols_mem map_add_def split: option.splits)

lemma bound_in_subset: "bound_in V A \<Longrightarrow> W \<subseteq> V \<Longrightarrow> bound_in W A"
  by (auto simp: bound_in_def)

lemma bound_in_Union: "(\<And>V. V \<in> \<V> \<Longrightarrow> bound_in V A) \<Longrightarrow> bound_in (\<Union>\<V>) A"
  by (auto simp: bound_in_def)

lemma join_all_singleton [simp]: "join_all [A] = A"
  by (simp add: join_all_def)

lemma join_all_Nil [simp]: "join_all [] = {#Map.empty#}"
  by (simp add: join_all_def)

lemma join_all_Cons: "join_all (A # As) = join_sols A (join_all As)"
  by (simp add: join_all_def)

lemma sum_list_mem: "f \<in># sum_list Ms \<longleftrightarrow> (\<exists>M \<in> set Ms. f \<in># M)"
  by (induction Ms) auto

lemma left_join_one_extends:
  assumes "h \<in># left_join_one c B f"
  shows "h = f \<or> (\<exists>g. g \<in># B \<and> compatible f g \<and> h = f ++ g)"
  using assms by (auto simp: left_join_one_def Let_def join_one_def split: if_splits)

lemma bound_in_left_join:
  assumes "bound_in V A"
  shows "bound_in V (\<Sum>f \<in># A. left_join_one c B f)"
  unfolding bound_in_def
proof (intro ballI)
  fix h v assume "h \<in># (\<Sum>f \<in># A. left_join_one c B f)" and v: "v \<in> V"
  then obtain f where f: "f \<in># A" "h \<in># left_join_one c B f" by auto
  then have "f v \<noteq> None" using assms v by (simp add: bound_in_def)
  with left_join_one_extends [OF f(2)] show "h v \<noteq> None" by (auto simp: map_add_def split: option.splits)
qed

lemma bound_in_joins:
  assumes "\<And>q. q \<in> set qs \<Longrightarrow> bound_in (set (certain_variables q)) (eval sem q)"
  shows "bound_in (set (concat (map certain_variables qs))) (join_all (map (eval sem) qs))"
proof -
  have "bound_in (\<Union>((\<lambda>q. set (certain_variables q)) ` set qs)) (join_all (map (eval sem) qs))"
  proof (rule bound_in_Union)
    fix V assume "V \<in> (\<lambda>q. set (certain_variables q)) ` set qs"
    then obtain q where "q \<in> set qs" "V = set (certain_variables q)" by blast
    then show "bound_in V (join_all (map (eval sem) qs))"
      using assms bound_in_join_all [of "eval sem q" "map (eval sem) qs"] by simp
  qed
  then show ?thesis by (rule bound_in_subset) auto
qed

lemma certain_variables_bound:
  "algebra_laws lib sem \<Longrightarrow> bound_in (set (certain_variables q)) (eval sem q)"
proof (induction q rule: certain_variables.induct)
  case (1 q v e)
  then show ?case by (auto simp: bound_in_def split: option.splits)
next
  case (2 q e)
  then show ?case by (auto simp: bound_in_def)
next
  case (3 qs)
  then show ?case using bound_in_joins [of qs sem] by simp
next
  case 4
  then show ?case by (simp add: bound_in_def)
next
  case (5 q ws)
  then show ?case by (auto simp: bound_in_def)
next
  case (6 qs)
  have "bound_in (set (certain_variables (Op_union qs))) (eval sem q)" if "q \<in> set qs" for q
  proof -
    have "set (certain_variables (Op_union qs)) \<subseteq> set (certain_variables q)"
      using that by (cases qs) (auto simp: list_all_iff)
    then show ?thesis using 6 that bound_in_subset by blast
  qed
  then show ?case by (auto simp: bound_in_def sum_list_mem simp del: certain_variables.simps)
next
  case (7 ws rows)
  then show ?case by (auto simp: bound_in_def list_all_iff)
next
  case (8 l r c)
  then show ?case using bound_in_left_join by simp
next
  case (9 src s p ob g)
  then show ?case by (simp add: algebra_laws_def)
next
  case (10 src s x ob g)
  then show ?case by (simp add: algebra_laws_def)
next
  case (11 ps)
  then show ?case using bound_in_joins [of ps sem] by simp
next
  case (12 ty src qs x)
  then show ?case by (simp add: bound_in_def)
qed

lemma scope_unbound:
  "algebra_laws lib sem \<Longrightarrow> \<not> variablesIntersect vs (inScopeVariables lib q) \<Longrightarrow>
     unbound_in (set vs) (eval sem q)"
  by (fastforce simp: algebra_laws_def unbound_in_def dom_def)

lemma unbound_in_join_sols: "unbound_in V A \<Longrightarrow> unbound_in V B \<Longrightarrow> unbound_in V (join_sols A B)"
  unfolding unbound_in_def [of V "join_sols A B"] join_sols_mem
proof (intro ballI)
  fix h v assume A: "unbound_in V A" and B: "unbound_in V B" and v: "v \<in> V"
    and "h \<in># join_sols A B"
  then obtain f g where "f \<in># A" "g \<in># B" and h: "h = f ++ g" unfolding join_sols_mem by blast
  then have "f v = None" "g v = None" using A B v by (simp_all add: unbound_in_def)
  then show "h v = None" by (simp add: h map_add_def)
qed

lemma unbound_in_join_all:
  "(\<And>A. A \<in> set As \<Longrightarrow> unbound_in V A) \<Longrightarrow> unbound_in V (join_all As)"
proof (induction As)
  case Nil
  then show ?case by (simp add: unbound_in_def)
next
  case (Cons A As)
  then have "unbound_in V A" "unbound_in V (join_all As)" by simp_all
  then show ?case using unbound_in_join_sols by (simp add: join_all_Cons)
qed

lemma filter_join_all:
  assumes "depends_on P V" and "As \<noteq> []" and "\<And>A. A \<in> set As \<Longrightarrow> bound_in V A"
  shows "filter_mset P (join_all As) = join_all (map (filter_mset P) As)"
  using assms(2,3)
proof (induction As)
  case Nil
  then show ?case by simp
next
  case (Cons A As)
  show ?case
  proof (cases "As = []")
    case False
    then have IH: "filter_mset P (join_all As) = join_all (map (filter_mset P) As)" and
      A: "bound_in V A" and As: "bound_in V (join_all As)"
      using Cons bound_in_join_all by (simp_all, metis last_in_set)
    have both: "bound_in V (filter_mset P (join_all As))" using As by (auto simp: bound_in_def)
    have "filter_mset P (join_sols A (join_all As)) =
        filter_mset P (filter_mset P (join_sols A (join_all As)))" by (simp add: filter_filter_mset)
    also have "\<dots> = filter_mset P (join_sols A (filter_mset P (join_all As)))"
      using filter_join_bound [OF assms(1) As] by (simp add: join_sols_comm)
    also have "\<dots> = join_sols (filter_mset P A) (filter_mset P (join_all As))"
      by (rule filter_join_bound [OF assms(1) A])
    finally show ?thesis by (simp add: join_all_Cons IH)
  qed simp
qed

lemma filter_sum_list: "filter_mset P (sum_list As) = sum_list (map (filter_mset P) As)"
  by (induction As) auto

lemma overlap_mset:
  "mset (fullyOverlapping lib vs qs) + (mset (partiallyOverlapping lib vs qs) +
     mset (notOverlapping lib vs qs)) = mset qs"
  by (induction qs) (auto simp: fullyOverlapping_def partiallyOverlapping_def notOverlapping_def)

lemma join_overlap:
  "join_all (map h qs) =
     join_sols (join_all (map h (fullyOverlapping lib vs qs)))
       (join_sols (join_all (map h (partiallyOverlapping lib vs qs)))
          (join_all (map h (notOverlapping lib vs qs))))"
proof -
  have "mset (map h qs) =
      mset (map h (fullyOverlapping lib vs qs @ partiallyOverlapping lib vs qs @ notOverlapping lib vs qs))"
    by (simp only: mset_map mset_append overlap_mset)
  from join_all_perm [OF this] show ?thesis by (simp add: join_all_append)
qed

lemma union_overlap:
  "sum_list (map h qs) =
     sum_list (map h (fullyOverlapping lib vs qs)) + (sum_list (map h (partiallyOverlapping lib vs qs)) +
       sum_list (map h (notOverlapping lib vs qs)))" for h :: "'x operation \<Rightarrow> 'b multiset"
proof -
  have "sum_list (map h qs) = \<Sum>\<^sub># (image_mset h (mset qs))" by (simp add: sum_mset_sum_list flip: mset_map)
  then show ?thesis by (simp add: overlap_mset [symmetric, of qs lib vs] sum_mset_sum_list flip: mset_map)
qed

lemma regroup_join:
  assumes laws: "algebra_laws lib sem"
  shows "eval sem (snd (regroup (createJoin lib) e full partial others)) =
     join_sols (join_all (map (eval sem) full))
       (join_sols (if partial = [] then {#Map.empty#}
                   else filter_mset (sem_holds sem e) (join_all (map (eval sem) partial)))
          (join_all (map (eval sem) others)))"
proof -
  have create: "eval sem (createJoin lib qs flat) = join_all (map (eval sem) qs)" for qs flat
    using laws by (simp add: algebra_laws_def)
  have one: "eval sem (if length parts = 1 then hd parts else createJoin lib parts True) =
      join_all (map (eval sem) parts)" for parts
    by (cases parts; cases "tl parts") (auto simp: create)
  show ?thesis
    unfolding regroup_def Let_def snd_conv one
    by (cases "full = []"; cases "partial = []")
      (simp_all add: create join_all_Cons)
qed

lemma regroup_union:
  assumes laws: "algebra_laws lib sem"
  shows "eval sem (snd (regroup (createUnion lib) e full partial others)) =
     sum_list (map (eval sem) full) +
       (filter_mset (sem_holds sem e) (sum_list (map (eval sem) partial)) +
          sum_list (map (eval sem) others))"
proof -
  have create: "eval sem (createUnion lib qs flat) = sum_list (map (eval sem) qs)" for qs flat
    using laws by (simp add: algebra_laws_def)
  have one: "eval sem (if length parts = 1 then hd parts else createUnion lib parts True) =
      sum_list (map (eval sem) parts)" for parts
    by (cases parts; cases "tl parts") (auto simp: create)
  show ?thesis
    unfolding regroup_def Let_def snd_conv one
    by (cases "full = []"; cases "partial = []") (simp_all add: create)
qed

lemma guard_sound:
  assumes "algebra_laws lib sem" and "filter_law sem e vs"
    and "\<not> isExpressionFalse e \<Longrightarrow> eval sem (snd r) = filter_mset (sem_holds sem e) (eval sem q)"
  shows "eval sem (snd (pushdown_guard lib e q r)) = filter_mset (sem_holds sem e) (eval sem q)"
  using assms by (auto simp: pushdown_guard_def algebra_laws_def filter_law_def filter_mset_none)

lemma left_join_filter:
  assumes "depends_on P V" and "unbound_in V B"
  shows "filter_mset P (\<Sum>f \<in># A. left_join_one c B f) = (\<Sum>f \<in># filter_mset P A. left_join_one c B f)"
proof (induction A)
  case empty
  then show ?case by simp
next
  case (add f A)
  have same: "P h = P f" if "h \<in># left_join_one c B f" for h
    using left_join_one_extends [OF that]
  proof
    assume "\<exists>g. g \<in># B \<and> compatible f g \<and> h = f ++ g"
    then obtain g where "g \<in># B" and h: "h = f ++ g" by blast
    then have "h v = f v" if "v \<in> V" for v
      using unbound_inD [OF assms(2) \<open>g \<in># B\<close> that] by (simp add: map_add_def)
    then show ?thesis by (rule depends_onD [OF assms(1)])
  qed simp
  have "filter_mset P (left_join_one c B f) = (if P f then left_join_one c B f else {#})"
    by (cases "P f") (auto intro!: filter_mset_every filter_mset_none dest: same)
  then show ?case using add by simp
qed

lemma filter_extend:
  assumes "depends_on P V" and "v \<notin> V"
  shows "filter_mset P (image_mset (\<lambda>f. case t f of None \<Rightarrow> f | Some x \<Rightarrow> f(v \<mapsto> x)) A) =
    image_mset (\<lambda>f. case t f of None \<Rightarrow> f | Some x \<Rightarrow> f(v \<mapsto> x)) (filter_mset P A)"
proof -
  have "P (case t f of None \<Rightarrow> f | Some x \<Rightarrow> f(v \<mapsto> x)) = P f" for f
    by (rule depends_onD [OF assms(1)]) (use assms(2) in \<open>auto split: option.splits\<close>)
  then show ?thesis by (induction A) simp_all
qed

lemma filter_project:
  assumes "depends_on P V" and "V \<subseteq> W"
  shows "filter_mset P (image_mset (\<lambda>f. f |` W) A) = image_mset (\<lambda>f. f |` W) (filter_mset P A)"
proof -
  have "P (f |` W) = P f" for f
    by (rule depends_onD [OF assms(1)]) (use assms(2) in \<open>auto simp: restrict_map_def\<close>)
  then show ?thesis by (induction A) simp_all
qed

lemma pushable_eq_term:
  assumes "getEqualityExpressionPushableIntoPattern e = Some (v, t)" shows "pushable_term t"
  using assms
  by (auto simp: getEqualityExpressionPushableIntoPattern_def
      split: expression.splits list.splits if_splits)

lemma bound_values_join:
  "algebra_laws lib sem \<Longrightarrow>
     eval sem (createJoin lib [q, bound_values v t] True) = join_sols (eval sem q) {#[v \<mapsto> t]#}"
  by (simp add: algebra_laws_def bound_values_def join_all_Cons)

lemma pushdown_join_sound:
  assumes laws: "algebra_laws lib sem" and dep: "depends_on (sem_holds sem e) (set vs)"
    and some: "fullyOverlapping lib vs qs \<noteq> [] \<or> partiallyOverlapping lib vs qs \<noteq> []"
    and only: "fullyOverlapping lib vs qs = [] \<or> partiallyOverlapping lib vs qs = []"
    and certain: "\<And>i. i \<in> set (fullyOverlapping lib vs qs) \<Longrightarrow> set vs \<subseteq> set (certain_variables i)"
    and IH: "\<And>i. i \<in> set (fullyOverlapping lib vs qs) \<Longrightarrow>
               eval sem (snd (push i)) = filter_mset (sem_holds sem e) (eval sem i)"
  shows "eval sem (snd (regroup (createJoin lib) e (map (\<lambda>i. snd (push i)) (fullyOverlapping lib vs qs))
             (partiallyOverlapping lib vs qs) (notOverlapping lib vs qs))) =
         filter_mset (sem_holds sem e) (eval sem (Op_join qs))"
proof -
  let ?P = "sem_holds sem e" and ?F = "fullyOverlapping lib vs qs" and ?A = "partiallyOverlapping lib vs qs"
  let ?N = "join_all (map (eval sem) (notOverlapping lib vs qs))"
  have N: "unbound_in (set vs) ?N"
    by (rule unbound_in_join_all) (auto simp: notOverlapping_def intro!: scope_unbound [OF laws])
  have F: "map (eval sem) (map (\<lambda>i. snd (push i)) ?F) = map (filter_mset ?P) (map (eval sem) ?F)"
    using IH by simp
  have bF: "bound_in (set vs) A" if "A \<in> set (map (eval sem) ?F)" for A
  proof -
    from that obtain i where "i \<in> set ?F" "A = eval sem i" by auto
    then show ?thesis using bound_in_subset [OF certain_variables_bound [OF laws] certain] by simp
  qed
  show ?thesis
  proof (cases "?F = []")
    case True
    with some filter_join_unbound [OF dep N, of "join_all (map (eval sem) ?A)"] show ?thesis
      by (simp add: regroup_join [OF laws] join_overlap [of "eval sem" qs lib vs])
  next
    case False
    with only have A: "?A = []" by simp
    have "eval sem (snd (regroup (createJoin lib) e (map (\<lambda>i. snd (push i)) ?F) ?A
             (notOverlapping lib vs qs))) = join_sols (join_all (map (filter_mset ?P) (map (eval sem) ?F))) ?N"
      by (simp only: regroup_join [OF laws] F A simp_thms if_True list.map join_all_Nil join_sols_empty_left)
    also have "\<dots> = join_sols (filter_mset ?P (join_all (map (eval sem) ?F))) ?N"
      by (subst filter_join_all [OF dep _ bF]) (use False in simp_all)
    also have "\<dots> = filter_mset ?P (join_sols (join_all (map (eval sem) ?F)) ?N)"
      by (rule filter_join_unbound [OF dep N, symmetric])
    also have "\<dots> = filter_mset ?P (eval sem (Op_join qs))"
      by (simp only: eval.simps join_overlap [of "eval sem" qs lib vs] A list.map join_all_Nil
          join_sols_empty_left)
    finally show ?thesis .
  qed
qed

lemma equality_law_pattern:
  assumes "equality_law lib sem" and "pushable_term t \<and> term_vars t = {}"
    and "mapTermsNested lib (replace_variable v t) (s, p, ob, g) False = ((s', p', ob', g'), True)"
  shows "filter_mset (\<lambda>f. f v = Some t) (sem_base sem (Op_pattern src s p ob g)) =
    join_sols (sem_base sem (Op_pattern src s' p' ob' g')) {#[v \<mapsto> t]#}"
  by (rule assms(1) [unfolded equality_law_def, THEN conjunct1, rule_format, OF assms(2,3)])

lemma equality_law_same:
  assumes "equality_law lib sem"
    and "mapTermsNested lib (replace_variable v t) (s, p, ob, g) False = ((s', p', ob', g'), False)"
  shows "(s', p', ob', g') = (s, p, ob, g)"
  by (rule assms(1) [unfolded equality_law_def, THEN conjunct2, THEN conjunct1, rule_format, OF assms(2)])

lemma equality_law_path:
  assumes "equality_law lib sem" and "pushable_term t \<and> term_vars t = {}" and "s = Variable v \<or> ob = Variable v"
  shows "filter_mset (\<lambda>f. f v = Some t) (sem_base sem (Op_path src s x ob (no_graph lib))) =
    join_sols (sem_base sem (Op_path src (if s = Variable v then t else s) x
      (if ob = Variable v then t else ob) (no_graph lib))) {#[v \<mapsto> t]#}"
  by (rule assms(1) [unfolded equality_law_def, THEN conjunct2, THEN conjunct2, rule_format, OF assms(2,3)])

lemma pushdown_pattern_sound:
  assumes laws: "algebra_laws lib sem" and flt: "filter_law sem e vs"
  shows "eval sem (snd
      (case (if pushEqualityIntoPatterns opts then getEqualityExpressionPushableIntoPattern e else None) of
          None \<Rightarrow> (False, Op_filter (Op_pattern src s p ob g) e)
        | Some (v, t) \<Rightarrow>
            (case mapTermsNested lib (replace_variable v t) (s, p, ob, g) False of
               ((s', p', ob', g'), modified) \<Rightarrow>
                 if modified
                 then (True, createJoin lib [Op_pattern src s' p' ob' g', bound_values v t] True)
                 else (False, Op_filter (Op_pattern src s' p' ob' g') e)))) =
    filter_mset (sem_holds sem e) (eval sem (Op_pattern src s p ob g))"
proof (cases "if pushEqualityIntoPatterns opts then getEqualityExpressionPushableIntoPattern e else None")
  case None
  then show ?thesis by simp
next
  case (Some vt)
  then obtain v t where vt: "vt = (v, t)" and e: "getEqualityExpressionPushableIntoPattern e = Some (v, t)"
    by (cases vt) (simp split: if_splits)
  obtain s' p' ob' g' m where mapped:
    "mapTermsNested lib (replace_variable v t) (s, p, ob, g) False = ((s', p', ob', g'), m)"
    by (metis prod.exhaust)
  from flt e have holds: "sem_holds sem e = (\<lambda>f. f v = Some t)" by (auto simp: filter_law_def)
  from laws have eq: "equality_law lib sem" by (simp add: algebra_laws_def)
  have pushable_ground: "pushable_term t \<and> term_vars t = {}"
    using pushable_eq_term [OF e] flt e by (simp add: filter_law_def)
  show ?thesis
  proof (cases m)
    case True
    have "filter_mset (\<lambda>f. f v = Some t) (sem_base sem (Op_pattern src s p ob g)) =
        join_sols (sem_base sem (Op_pattern src s' p' ob' g')) {#[v \<mapsto> t]#}"
      by (rule equality_law_pattern [OF eq pushable_ground]) (simp add: mapped True)
    with True show ?thesis by (simp add: Some vt mapped bound_values_join [OF laws] holds)
  next
    case False
    then have "(s', p', ob', g') = (s, p, ob, g)" using equality_law_same [OF eq] mapped by simp
    with False show ?thesis by (simp add: Some vt mapped)
  qed
qed

lemma pushdown_path_sound:
  assumes laws: "algebra_laws lib sem" and flt: "filter_law sem e vs" and graph: "g = no_graph lib"
  shows "eval sem (snd
      (case (if pushEqualityIntoPatterns opts then getEqualityExpressionPushableIntoPattern e else None) of
          None \<Rightarrow> (False, Op_filter (Op_path src s x ob g) e)
        | Some (v, t) \<Rightarrow>
            if s = Variable v \<or> ob = Variable v
            then (True, createJoin lib
                    [Op_path src (if s = Variable v then t else s) x
                       (if ob = Variable v then t else ob) (no_graph lib),
                     bound_values v t] True)
            else (False, Op_filter (Op_path src s x ob g) e))) =
    filter_mset (sem_holds sem e) (eval sem (Op_path src s x ob g))"
proof (cases "if pushEqualityIntoPatterns opts then getEqualityExpressionPushableIntoPattern e else None")
  case None
  then show ?thesis by simp
next
  case (Some vt)
  then obtain v t where vt: "vt = (v, t)" and e: "getEqualityExpressionPushableIntoPattern e = Some (v, t)"
    by (cases vt) (simp split: if_splits)
  from flt e have holds: "sem_holds sem e = (\<lambda>f. f v = Some t)" by (auto simp: filter_law_def)
  from laws have eq: "equality_law lib sem" by (simp add: algebra_laws_def)
  have pushable_ground: "pushable_term t \<and> term_vars t = {}"
    using pushable_eq_term [OF e] flt e by (simp add: filter_law_def)
  show ?thesis
  proof (cases "s = Variable v \<or> ob = Variable v")
    case True
    note pushed = equality_law_path [OF eq pushable_ground True]
    from True show ?thesis
      by (simp only: pushed Some vt option.case prod.case if_True snd_conv bound_values_join [OF laws] holds graph eval.simps)
  next
    case False
    then show ?thesis by (simp add: Some vt)
  qed
qed

lemma filterPushdown_eval:
  assumes laws: "algebra_laws lib sem" and flt: "filter_law sem e vs" and safe: "pushdown_safe opts lib e vs q"
  shows "eval sem (snd (filterPushdown opts lib e vs q)) = filter_mset (sem_holds sem e) (eval sem q)"
  using assms
proof (induction opts lib e vs q rule: filterPushdown.induct)
  case (1 opts lib e vs q v ex)
  then have "depends_on (sem_holds sem e) (set vs)" by (simp add: filter_law_def)
  with 1 show ?case unfolding filterPushdown.simps by (intro guard_sound) (auto simp: filter_extend)
next
  case (2 opts lib e vs q ex)
  then show ?case unfolding filterPushdown.simps
    by (intro guard_sound) (auto simp: filter_filter_mset conj_commute split: prod.splits)
next
  case (3 opts lib e vs qs)
  then have dep: "depends_on (sem_holds sem e) (set vs)" by (simp add: filter_law_def)
  show ?case unfolding filterPushdown.simps
  proof (rule guard_sound [OF 3(2,3)])
    show "eval sem (snd (if qs = [] then (False, Op_filter (Op_join qs) e)
        else regroup (createJoin lib) e (map (\<lambda>i. snd (filterPushdown opts lib e vs i)) (fullyOverlapping lib vs qs))
               (partiallyOverlapping lib vs qs) (notOverlapping lib vs qs))) =
      filter_mset (sem_holds sem e) (eval sem (Op_join qs))"
    proof (cases "qs = []")
      case False
      with 3 have "eval sem (snd (filterPushdown opts lib e vs i)) = filter_mset (sem_holds sem e) (eval sem i)"
        if "i \<in> set (fullyOverlapping lib vs qs)" for i
        using that by (auto simp: list_all_iff)
      with False 3(4) show ?thesis
        by (simp only: if_False, intro pushdown_join_sound [OF 3(2) dep]) (auto simp: list_all_iff)
    qed simp
  qed
next
  case (4 opts lib e vs)
  then show ?case by simp
next
  case (5 opts lib e vs q ws)
  then have dep: "depends_on (sem_holds sem e) (set vs)" by (simp add: filter_law_def)
  from 5 show ?case unfolding filterPushdown.simps
    by (intro guard_sound) (auto simp: filter_project [OF dep] neq_Nil_conv)
next
  case (6 opts lib e vs qs)
  have "eval sem (snd (filterPushdown opts lib e vs i)) = filter_mset (sem_holds sem e) (eval sem i)"
    if "i \<in> set (fullyOverlapping lib vs qs)" for i
    using that 6 by (auto simp: list_all_iff)
  then have full: "map (eval sem) (map (\<lambda>i. snd (filterPushdown opts lib e vs i)) (fullyOverlapping lib vs qs)) =
      map (filter_mset (sem_holds sem e)) (map (eval sem) (fullyOverlapping lib vs qs))"
    by simp
  from 6(4) have "notOverlapping lib vs qs = []" by simp
  then show ?case unfolding filterPushdown.simps
    by (intro guard_sound [OF 6(2,3)])
      (simp only: regroup_union [OF 6(2)] full eval.simps union_overlap [of "eval sem" qs lib vs]
        filter_sum_list filter_union_mset list.map sum_list.Nil add_0_right)
next
  case (7 opts lib e vs ws rows)
  then show ?case unfolding filterPushdown.simps by (intro guard_sound) auto
next
  case (8 opts lib e vs l r c)
  then have dep: "depends_on (sem_holds sem e) (set vs)" by (simp add: filter_law_def)
  show ?case unfolding filterPushdown.simps
  proof (rule guard_sound [OF 8(2,3)])
    show "eval sem (snd (if pushIntoLeftJoins opts \<and> \<not> variablesIntersect vs (inScopeVariables lib r)
        then (True, Op_leftjoin (snd (filterPushdown opts lib e vs l)) r c)
        else (False, Op_filter (Op_leftjoin l r c) e))) = filter_mset (sem_holds sem e) (eval sem (Op_leftjoin l r c))"
      using 8 left_join_filter [OF dep scope_unbound [OF 8(2)]] by auto
  qed
next
  case (9 opts lib e vs src s p ob g)
  then show ?case unfolding filterPushdown.simps by (intro guard_sound pushdown_pattern_sound)
next
  case (10 opts lib e vs src s x ob g)
  then show ?case unfolding filterPushdown.simps by (intro guard_sound pushdown_path_sound) simp_all
next
  case (11 opts lib e vs ps)
  then show ?case unfolding filterPushdown.simps by (intro guard_sound) auto
next
  case (12 opts lib e vs ty src qs x)
  then show ?case unfolding filterPushdown.simps by (intro guard_sound) auto
qed

end
