(* ===== verification/Graph_Semantics.thy ===== *)
theory Graph_Semantics
  imports Filter_Pushdown
begin

text \<open>
  A concrete semantics of the algebra: matching of patterns against a list of quads, a small
  expression language, and the plain constructors as the algebra package.  It satisfies the laws
  that the optimizers' theorems assume, and evaluates the example queries.
\<close>

section \<open>Matching\<close>

fun match_term :: "rdf_term \<Rightarrow> rdf_term \<Rightarrow> (string \<rightharpoonup> rdf_term) \<Rightarrow> (string \<rightharpoonup> rdf_term) option" where
  "match_term (Variable v) d f =
     (case f v of None \<Rightarrow> Some (f(v \<mapsto> d)) | Some d' \<Rightarrow> if d' = d then Some f else None)"
| "match_term (Quad s p ob g) d f =
     (case d of
        Quad s' p' ob' g' \<Rightarrow>
          Option.bind (match_term s s' f) (\<lambda>f1.
          Option.bind (match_term p p' f1) (\<lambda>f2.
          Option.bind (match_term ob ob' f2) (\<lambda>f3. match_term g g' f3)))
      | _ \<Rightarrow> None)"
| "match_term t d f = (if t = d then Some f else None)"

fun inst_term :: "(string \<rightharpoonup> rdf_term) \<Rightarrow> rdf_term \<Rightarrow> rdf_term" where
  "inst_term f (Variable v) = (case f v of Some t \<Rightarrow> t | None \<Rightarrow> Variable v)"
| "inst_term f (Quad s p ob g) = Quad (inst_term f s) (inst_term f p) (inst_term f ob) (inst_term f g)"
| "inst_term f t = t"

lemma inst_term_cong: "(\<And>v. v \<in> term_vars x \<Longrightarrow> f v = g v) \<Longrightarrow> inst_term f x = inst_term g x"
  by (induction x) auto

lemma inst_term_le: "h \<subseteq>\<^sub>m g \<Longrightarrow> term_vars x \<subseteq> dom h \<Longrightarrow> inst_term h x = inst_term g x"
  by (rule inst_term_cong) (auto simp: map_le_def)

lemma match_seq:
  "(\<exists>h. (f \<subseteq>\<^sub>m h \<and> dom h = dom f \<union> term_vars x \<and> inst_term h x = d) \<and>
        (h \<subseteq>\<^sub>m g \<and> dom g = dom h \<union> W \<and> C)) \<longleftrightarrow>
     f \<subseteq>\<^sub>m g \<and> dom g = dom f \<union> (term_vars x \<union> W) \<and> inst_term g x = d \<and> C"
proof
  assume "\<exists>h. (f \<subseteq>\<^sub>m h \<and> dom h = dom f \<union> term_vars x \<and> inst_term h x = d) \<and>
        (h \<subseteq>\<^sub>m g \<and> dom g = dom h \<union> W \<and> C)"
  then show "f \<subseteq>\<^sub>m g \<and> dom g = dom f \<union> (term_vars x \<union> W) \<and> inst_term g x = d \<and> C"
    using map_le_trans inst_term_le by (metis Un_assoc Un_upper2)
next
  assume g: "f \<subseteq>\<^sub>m g \<and> dom g = dom f \<union> (term_vars x \<union> W) \<and> inst_term g x = d \<and> C"
  let ?h = "g |` (dom f \<union> term_vars x)"
  have "f \<subseteq>\<^sub>m ?h" "?h \<subseteq>\<^sub>m g" using g by (auto simp: map_le_def)
  moreover have "dom ?h = dom f \<union> term_vars x" using g by auto
  moreover have "inst_term ?h x = d"
    using g by (metis calculation(2,3) inst_term_le Un_upper2)
  ultimately show "\<exists>h. (f \<subseteq>\<^sub>m h \<and> dom h = dom f \<union> term_vars x \<and> inst_term h x = d) \<and>
        (h \<subseteq>\<^sub>m g \<and> dom g = dom h \<union> W \<and> C)"
    using g by (intro exI [of _ ?h]) auto
qed

lemma map_le_same_dom: "f \<subseteq>\<^sub>m g \<Longrightarrow> dom g = dom f \<Longrightarrow> g = f"
  by (simp add: map_le_antisym map_le_def)

lemma match_term_iff:
  "match_term x d f = Some g \<longleftrightarrow>
     f \<subseteq>\<^sub>m g \<and> dom g = dom f \<union> term_vars x \<and> inst_term g x = d"
proof (induction x arbitrary: d f g)
  case (Variable v)
  show ?case
  proof (cases "f v")
    case None
    have "f(v \<mapsto> d) = g" if le: "f \<subseteq>\<^sub>m g" and dg: "dom g = dom f \<union> {v}" and d: "inst_term g (Variable v) = d"
    proof
      fix w
      from dg have "v \<in> dom g" by simp
      with d have "g v = Some d" by auto
      moreover have "f w = g w" if "w \<noteq> v"
      proof (cases "w \<in> dom f")
        case True
        then show ?thesis using le by (simp add: map_le_def)
      next
        case False
        with dg that have "w \<notin> dom g" by simp
        with False show ?thesis by (simp add: domIff)
      qed
      ultimately show "(f(v \<mapsto> d)) w = g w" by simp
    qed
    with None show ?thesis by (auto simp: map_le_def)
  next
    case (Some d')
    then have v: "v \<in> dom f" by blast
    have "f \<subseteq>\<^sub>m g \<and> dom g = dom f \<union> {v} \<and> inst_term g (Variable v) = d \<longleftrightarrow> g = f \<and> d' = d"
    proof
      assume g: "f \<subseteq>\<^sub>m g \<and> dom g = dom f \<union> {v} \<and> inst_term g (Variable v) = d"
      with v have "g = f" by (intro map_le_same_dom) (auto simp: insert_absorb)
      with g Some show "g = f \<and> d' = d" by simp
    qed (use Some v in auto)
    with Some show ?thesis by auto
  qed
next
  case (Quad s p ob gr)
  show ?case
  proof (cases d)
    case (Quad s' p' ob' g')
    have "match_term (Quad s p ob gr) d f = Some g \<longleftrightarrow>
      (\<exists>f1. match_term s s' f = Some f1 \<and> (\<exists>f2. match_term p p' f1 = Some f2 \<and>
        (\<exists>f3. match_term ob ob' f2 = Some f3 \<and> match_term gr g' f3 = Some g)))"
      by (simp add: Quad Option.bind_eq_Some_conv)
    also have "\<dots> \<longleftrightarrow> f \<subseteq>\<^sub>m g \<and> dom g = dom f \<union> term_vars (Quad s p ob gr) \<and>
        inst_term g (Quad s p ob gr) = d"
      unfolding Quad.IH match_seq by (simp add: Quad Un_assoc)
    finally show ?thesis .
  qed simp_all
qed (auto dest: map_le_same_dom)

section \<open>A graph as a semantics\<close>

definition graph_base :: "rdf_term list \<Rightarrow> 'x operation \<Rightarrow> rdf_term solutions" where
  "graph_base quads q =
     (case q of
        Op_pattern src s p ob g \<Rightarrow>
          mset (List.map_filter (\<lambda>d. match_term (Quad s p ob g) d Map.empty) quads)
      | _ \<Rightarrow> {#})"

definition true_term :: rdf_term where
  "true_term = Literal ''true'' [] (xsd @ ''boolean'') []"

definition term_in :: "(string \<rightharpoonup> rdf_term) \<Rightarrow> rdf_term \<Rightarrow> rdf_term option" where
  "term_in f t = (case t of Variable v \<Rightarrow> f v | _ \<Rightarrow> Some t)"

fun simple_holds :: "'q expression \<Rightarrow> (string \<rightharpoonup> rdf_term) \<Rightarrow> bool" where
  "simple_holds (E_term t) f = (term_in f t = Some true_term)"
| "simple_holds (E_operator name args) f =
     (if name = ''&&'' then list_all (\<lambda>a. simple_holds a f) args
      else case args of
        E_term a # E_term b # rest \<Rightarrow>
          if name = ''='' then term_in f a \<noteq> None \<and> term_in f a = term_in f b
          else if name = ''!='' then term_in f a \<noteq> None \<and> term_in f b \<noteq> None \<and> term_in f a \<noteq> term_in f b
          else False
      | _ \<Rightarrow> False)"
| "simple_holds (E_named name args) f = False"
| "simple_holds (E_existence neg q) f = False"
| "simple_holds (E_aggregate name e) f = False"
| "simple_holds E_wildcard f = False"

definition graph_semantics :: "rdf_term list \<Rightarrow> 'x semantics" where
  "graph_semantics quads =
     \<lparr>sem_base = graph_base quads, sem_holds = simple_holds, sem_value = (\<lambda>e f. None)\<rparr>"

fun plain_scope :: "'x operation \<Rightarrow> string list" where
  "plain_scope (Op_extend q v e) = plain_scope q @ [v]"
| "plain_scope (Op_filter q e) = plain_scope q"
| "plain_scope (Op_join qs) = concat (map plain_scope qs)"
| "plain_scope Op_nop = []"
| "plain_scope (Op_project q ws) = ws"
| "plain_scope (Op_union qs) = concat (map plain_scope qs)"
| "plain_scope (Op_values ws rows) = ws @ concat (map (map fst) rows)"
| "plain_scope (Op_leftjoin l r c) = plain_scope l @ plain_scope r"
| "plain_scope (Op_pattern src s p ob g) = term_variables (Quad s p ob g)"
| "plain_scope (Op_path src s x ob g) = term_variables s @ term_variables ob"
| "plain_scope (Op_bgp ps) = concat (map plain_scope ps)"
| "plain_scope (Op_other ty src qs x) = []"

fun map_nested :: "(rdf_term \<Rightarrow> bool \<Rightarrow> rdf_term \<times> bool) \<Rightarrow> rdf_term \<Rightarrow> bool \<Rightarrow> rdf_term \<times> bool" where
  "map_nested h (Quad s p ob g) m =
     (let (s', m1) = map_nested h s m; (p', m2) = map_nested h p m1;
          (ob', m3) = map_nested h ob m2; (g', m4) = map_nested h g m3
      in (Quad s' p' ob' g', m4))"
| "map_nested h t m = h t m"

definition plain_map_terms ::
  "(rdf_term \<Rightarrow> bool \<Rightarrow> rdf_term \<times> bool) \<Rightarrow> quad_terms \<Rightarrow> bool \<Rightarrow> quad_terms \<times> bool" where
  "plain_map_terms h q m =
     (case q of (s, p, ob, g) \<Rightarrow>
        case map_nested h (Quad s p ob g) m of
          (Quad s' p' ob' g', m') \<Rightarrow> ((s', p', ob', g'), m')
        | (_, m') \<Rightarrow> (q, m'))"

definition plain_lib :: "'x algebra_lib" where
  "plain_lib =
     \<lparr>inScopeVariables = plain_scope, createJoin = (\<lambda>qs flat. Op_join qs),
      createUnion = (\<lambda>qs flat. Op_union qs), mapTermsNested = plain_map_terms,
      no_graph = DefaultGraph\<rparr>"

section \<open>The laws hold\<close>

fun subst_term :: "string \<Rightarrow> rdf_term \<Rightarrow> rdf_term \<Rightarrow> rdf_term" where
  "subst_term v t (Variable w) = (if w = v then t else Variable w)"
| "subst_term v t (Quad s p ob g) =
     Quad (subst_term v t s) (subst_term v t p) (subst_term v t ob) (subst_term v t g)"
| "subst_term v t x = x"

lemma map_nested_replace:
  "map_nested (replace_variable v t) x m = (subst_term v t x, m \<or> v \<in> term_vars x)"
  by (induction x arbitrary: m) (auto simp: replace_variable_def)

lemma subst_term_same: "v \<notin> term_vars x \<Longrightarrow> subst_term v t x = x"
  by (induction x) auto

lemma subst_term_vars: "term_vars t = {} \<Longrightarrow> term_vars (subst_term v t x) = term_vars x - {v}"
  by (induction x) auto

lemma inst_ground: "term_vars t = {} \<Longrightarrow> inst_term f t = t"
  by (induction t) auto

lemma inst_subst:
  "term_vars t = {} \<Longrightarrow> f v = Some t \<Longrightarrow> inst_term (f(v := None)) (subst_term v t x) = inst_term f x"
  by (induction x) (auto simp: inst_ground split: option.splits)

lemma match_subst:
  assumes t: "term_vars t = {}" and v: "v \<in> term_vars x"
  shows "match_term x d Map.empty = Some g \<and> g v = Some t \<longleftrightarrow>
    (\<exists>h. match_term (subst_term v t x) d Map.empty = Some h \<and> g = h(v \<mapsto> t) \<and> h v = None)"
proof
  assume g: "match_term x d Map.empty = Some g \<and> g v = Some t"
  have "match_term (subst_term v t x) d Map.empty = Some (g(v := None))"
    using g inst_subst [OF t, of g v x] by (auto simp: match_term_iff subst_term_vars [OF t])
  moreover have "g = (g(v := None))(v \<mapsto> t)" using g by (auto intro!: ext)
  ultimately show "\<exists>h. match_term (subst_term v t x) d Map.empty = Some h \<and> g = h(v \<mapsto> t) \<and> h v = None"
    by (intro exI [of _ "g(v := None)"]) simp
next
  assume "\<exists>h. match_term (subst_term v t x) d Map.empty = Some h \<and> g = h(v \<mapsto> t) \<and> h v = None"
  then obtain h where h: "match_term (subst_term v t x) d Map.empty = Some h" "g = h(v \<mapsto> t)" "h v = None"
    by blast
  then have "inst_term g x = d"
    using inst_subst [OF t, of g v x] by (simp add: match_term_iff fun_upd_idem)
  with h v show "match_term x d Map.empty = Some g \<and> g v = Some t"
    by (auto simp: match_term_iff subst_term_vars [OF t])
qed

lemma match_step:
  assumes "\<And>f. m = Some f \<and> f v = Some t \<longleftrightarrow> (\<exists>h. n = Some h \<and> f = h(v \<mapsto> t) \<and> h v = None)"
    and "\<And>h. n = Some h \<Longrightarrow> h v = None"
  shows "filter_mset (\<lambda>f. f v = Some t) (case m of None \<Rightarrow> {#} | Some f \<Rightarrow> {#f#}) =
    join_sols (case n of None \<Rightarrow> {#} | Some h \<Rightarrow> {#h#}) {#[v \<mapsto> t]#}"
proof (cases n)
  case None
  then show ?thesis using assms(1) by (cases m) (auto simp: join_sols_def)
next
  case (Some h)
  then have "m = Some (h(v \<mapsto> t))" "h v = None" using assms by blast+
  with Some show ?thesis by (simp add: join_sols_def join_one_def compatible_def)
qed

lemma graph_base_Nil: "graph_base [] (Op_pattern src s p ob g) = {#}"
  by (simp add: graph_base_def List.map_filter_def)

lemma graph_base_Cons:
  "graph_base (d # quads) (Op_pattern src s p ob g :: 'x operation) =
     (case match_term (Quad s p ob g) d Map.empty of None \<Rightarrow> {#} | Some f \<Rightarrow> {#f#}) +
       graph_base quads (Op_pattern src s p ob g :: 'x operation)"
  by (simp add: graph_base_def List.map_filter_def del: match_term.simps split: option.splits)

lemma join_sols_add: "join_sols (A + B) C = join_sols A C + join_sols B C"
  by (simp add: join_sols_def)

lemma graph_equality:
  assumes t: "term_vars t = {}" and v: "v \<in> term_vars (Quad s p ob g)"
    and sub: "subst_term v t (Quad s p ob g) = Quad s' p' ob' g'"
  shows "filter_mset (\<lambda>f. f v = Some t) (graph_base quads (Op_pattern src s p ob g :: 'x operation)) =
    join_sols (graph_base quads (Op_pattern src s' p' ob' g' :: 'x operation)) {#[v \<mapsto> t]#}"
proof (induction quads)
  case Nil
  then show ?case by (simp only: graph_base_Nil filter_empty_mset) (simp add: join_sols_def)
next
  case (Cons d quads)
  have unbound: "h v = None" if "match_term (Quad s' p' ob' g') d Map.empty = Some h" for h
  proof -
    from that have "dom h = term_vars (Quad s' p' ob' g')" by (simp only: match_term_iff dom_empty) simp
    also have "\<dots> = term_vars (Quad s p ob g) - {v}" by (simp only: subst_term_vars [OF t] flip: sub)
    finally have "v \<notin> dom h" by blast
    then show ?thesis by (simp add: domIff)
  qed
  have "match_term (Quad s p ob g) d Map.empty = Some f \<and> f v = Some t \<longleftrightarrow>
      (\<exists>h. match_term (Quad s' p' ob' g') d Map.empty = Some h \<and> f = h(v \<mapsto> t) \<and> h v = None)" for f
    using match_subst [OF t v, of d f] by (simp only: sub)
  note same = this
  have "filter_mset (\<lambda>f. f v = Some t)
      (case match_term (Quad s p ob g) d Map.empty of None \<Rightarrow> {#} | Some f \<Rightarrow> {#f#}) =
    join_sols (case match_term (Quad s' p' ob' g') d Map.empty of None \<Rightarrow> {#} | Some h \<Rightarrow> {#h#}) {#[v \<mapsto> t]#}"
    by (rule match_step) (rule same, erule unbound)
  then show ?case
    by (simp only: graph_base_Cons filter_union_mset join_sols_add Cons.IH)
qed

lemma plain_map_replace:
  "plain_map_terms (replace_variable v t) (s, p, ob, g) False = ((s', p', ob', g'), m) \<longleftrightarrow>
     subst_term v t (Quad s p ob g) = Quad s' p' ob' g' \<and> m = (v \<in> term_vars (Quad s p ob g))"
  unfolding plain_map_terms_def prod.case map_nested_replace by auto

lemma graph_equality_law: "equality_law plain_lib (graph_semantics quads :: 'x semantics)"
  unfolding equality_law_def
proof (intro conjI allI impI)
  fix src s p ob g v t s' p' ob' g'
  assume "pushable_term t \<and> term_vars t = {}"
    and "mapTermsNested plain_lib (replace_variable v t) (s, p, ob, g) False = ((s', p', ob', g'), True)"
  then have "term_vars t = {}" "v \<in> term_vars (Quad s p ob g)" "subst_term v t (Quad s p ob g) = Quad s' p' ob' g'"
    unfolding plain_lib_def algebra_lib.simps plain_map_replace by blast+
  from graph_equality [OF this]
  show "filter_mset (\<lambda>f. f v = Some t) (sem_base (graph_semantics quads :: 'x semantics) (Op_pattern src s p ob g)) =
      join_sols (sem_base (graph_semantics quads :: 'x semantics) (Op_pattern src s' p' ob' g')) {#[v \<mapsto> t]#}"
    by (simp only: graph_semantics_def semantics.simps)
next
  fix s p ob g v t s' p' ob' g'
  assume "mapTermsNested plain_lib (replace_variable v t) (s, p, ob, g) False = ((s', p', ob', g'), False)"
  then show "(s', p', ob', g') = (s, p, ob, g)"
    unfolding plain_lib_def algebra_lib.simps plain_map_replace
    by (auto simp: subst_term_same)
next
  fix src s x ob v t
  show "filter_mset (\<lambda>f. f v = Some t) (sem_base (graph_semantics quads :: 'x semantics) (Op_path src s x ob (no_graph plain_lib))) =
      join_sols (sem_base (graph_semantics quads :: 'x semantics) (Op_path src (if s = Variable v then t else s) x
        (if ob = Variable v then t else ob) (no_graph plain_lib))) {#[v \<mapsto> t]#}"
    by (simp add: graph_semantics_def graph_base_def join_sols_def)
qed

lemma graph_pattern_dom:
  "f \<in># graph_base quads (Op_pattern src s p ob g) \<Longrightarrow> dom f = term_vars (Quad s p ob g)"
proof (induction quads)
  case (Cons d quads)
  then show ?case
    unfolding graph_base_Cons
    by (cases "match_term (Quad s p ob g) d Map.empty")
      (auto simp: match_term_iff simp del: match_term.simps term_vars.simps)
qed (simp add: graph_base_Nil)

lemma join_all_dom:
  "(\<And>A f. A \<in> set As \<Longrightarrow> f \<in># A \<Longrightarrow> dom f \<subseteq> D) \<Longrightarrow> f \<in># join_all As \<Longrightarrow> dom f \<subseteq> D"
  by (induction As arbitrary: f) (fastforce simp: join_all_Cons join_sols_mem)+

lemma plain_scope_dom: "f \<in># eval (graph_semantics quads) q \<Longrightarrow> dom f \<subseteq> set (plain_scope q)"
proof (induction q arbitrary: f rule: plain_scope.induct)
  case (1 q v e)
  then show ?case by (auto simp: graph_semantics_def)
next
  case (2 q e)
  then show ?case by simp
next
  case (3 qs)
  show ?case
    by (rule join_all_dom [of "map (eval (graph_semantics quads)) qs"]) (use 3 in \<open>fastforce+\<close>)
next
  case (6 qs)
  then show ?case by (fastforce simp: sum_list_mem)
next
  case (7 ws rows)
  then obtain r where "r \<in> set rows" "f = map_of r" by auto
  show ?case
  proof
    fix v assume "v \<in> dom f"
    then obtain t where "(v, t) \<in> set r" using \<open>f = map_of r\<close> by (auto dest: map_of_SomeD)
    then show "v \<in> set (plain_scope (Op_values ws rows))" using \<open>r \<in> set rows\<close> by force
  qed
next
  case (8 l r c)
  then obtain f' where "f' \<in># eval (graph_semantics quads) l" and
    f: "f \<in># left_join_one (\<lambda>f. case c of None \<Rightarrow> True | Some c \<Rightarrow> sem_holds (graph_semantics quads) c f)
          (eval (graph_semantics quads) r) f'" by auto
  with left_join_one_extends [OF f] 8 show ?case by fastforce
next
  case (9 src s p ob g)
  then show ?case using graph_pattern_dom by (fastforce simp: graph_semantics_def)
next
  case (10 src s x ob g)
  then show ?case by (simp add: graph_semantics_def graph_base_def)
next
  case (11 ps)
  show ?case
    by (rule join_all_dom [of "map (eval (graph_semantics quads)) ps"]) (use 11 in \<open>fastforce+\<close>)
next
  case (12 ty src qs x)
  then show ?case by (simp add: graph_semantics_def graph_base_def)
qed (auto simp: restrict_map_def split: if_splits)

lemma pattern_variables_subset: "set (pattern_variables [s, p, ob, g]) \<subseteq> term_vars (Quad s p ob g)"
  by (cases s; cases p; cases ob; cases g) (simp_all add: pattern_variables_def)

lemma graph_laws: "algebra_laws plain_lib (graph_semantics quads)"
  unfolding algebra_laws_def
proof (intro conjI allI ballI)
  fix q f assume "f \<in># eval (graph_semantics quads) q"
  then show "dom f \<subseteq> set (inScopeVariables plain_lib q)" by (simp add: plain_lib_def plain_scope_dom)
next
  fix src s p ob g
  show "bound_in (set (pattern_variables [s, p, ob, g])) (sem_base (graph_semantics quads) (Op_pattern src s p ob g))"
    unfolding bound_in_def graph_semantics_def semantics.simps
  proof (intro ballI)
    fix f v assume "f \<in># graph_base quads (Op_pattern src s p ob g)" "v \<in> set (pattern_variables [s, p, ob, g])"
    then have "v \<in> dom f" using pattern_variables_subset graph_pattern_dom by blast
    then show "f v \<noteq> None" by blast
  qed
next
  show "equality_law plain_lib (graph_semantics quads)" by (rule graph_equality_law)
qed (simp_all add: plain_lib_def bound_in_def graph_semantics_def graph_base_def)

section \<open>Example queries\<close>

definition iri :: "string \<Rightarrow> rdf_term" where
  "iri v = NamedNode v"

definition pat :: "rdf_term \<Rightarrow> string \<Rightarrow> rdf_term \<Rightarrow> unit operation" where
  "pat s p ob = Op_pattern None s (iri p) ob DefaultGraph"

definition equal_terms :: "rdf_term \<Rightarrow> rdf_term \<Rightarrow> unit expr" where
  "equal_terms a b = E_operator ''='' [E_term a, E_term b]"

definition quad_of :: "string \<Rightarrow> string \<Rightarrow> string \<Rightarrow> rdf_term" where
  "quad_of s p ob = Quad (iri s) (iri p) (iri ob) DefaultGraph"

definition sample_graph :: "rdf_term list" where
  "sample_graph = [quad_of ''a'' ''knows'' ''b'', quad_of ''b'' ''knows'' ''c'', quad_of ''b'' ''name'' ''b'']"

definition sample_sem :: "unit semantics" where
  "sample_sem = graph_semantics sample_graph"

definition sample_options :: pushdown_options where
  "sample_options = \<lparr>aggressivePushdown = False, maxIterations = 10, splitConjunctive = True,
     mergeConjunctive = True, pushIntoLeftJoins = True, pushEqualityIntoPatterns = True\<rparr>"

definition sample_filter :: "unit expr" where
  "sample_filter = equal_terms (Variable ''x'') (iri ''b'')"

definition sample_join :: "unit operation" where
  "sample_join = Op_join [pat (Variable ''x'') ''knows'' (Variable ''y''), pat (Variable ''z'') ''knows'' (Variable ''w'')]"

lemmas sample_defs = sample_graph_def sample_sem_def sample_options_def sample_filter_def sample_join_def
  iri_def pat_def equal_terms_def quad_of_def

lemma sample_filter_law: "filter_law sample_sem sample_filter [''x'']"
  unfolding filter_law_def
proof (intro conjI allI impI depends_onI)
  fix f g :: "string \<rightharpoonup> rdf_term" assume "\<And>v. v \<in> set [''x''] \<Longrightarrow> f v = g v"
  then show "sem_holds sample_sem sample_filter f = sem_holds sample_sem sample_filter g"
    by (simp add: sample_defs graph_semantics_def term_in_def)
qed (auto simp: sample_defs graph_semantics_def isExpressionFalse_def term_in_def
      getEqualityExpressionPushableIntoPattern_def pushable_term_def split: if_splits)

lemma sample_safe: "pushdown_safe sample_options plain_lib sample_filter [''x''] sample_join"
  by (simp add: sample_defs plain_lib_def fullyOverlapping_def partiallyOverlapping_def
      variablesSubSetOf_def pattern_variables_def)

end
