(* ===== verification/Shapes.thy ===== *)
theory Shapes
  imports Algebra
begin

text \<open>
  Fragment selector shapes (\<open>packages/types/lib/IQuerySource.ts\<close>,
  \<open>packages/utils-query-operation/lib/FragmentSelectorShapes.ts\<close>): which operations a query source
  accepts.  The code casts operations and expressions to one type; here they are the two cases of
  \<open>node\<close>.  Types are named by their keys in \<open>Algebra.Types\<close>.
\<close>

section \<open>Operations and expressions as nodes\<close>

datatype 'x node = N_op "'x operation" | N_expr "'x expr"

fun node_type :: "'x node \<Rightarrow> string" where
  "node_type (N_expr e) = ''EXPRESSION''"
| "node_type (N_op q) =
     (case q of
        Op_extend q v e \<Rightarrow> ''EXTEND'' | Op_filter q e \<Rightarrow> ''FILTER'' | Op_join qs \<Rightarrow> ''JOIN''
      | Op_nop \<Rightarrow> ''NOP'' | Op_project q vs \<Rightarrow> ''PROJECT'' | Op_union qs \<Rightarrow> ''UNION''
      | Op_values vs rows \<Rightarrow> ''VALUES'' | Op_leftjoin l r e \<Rightarrow> ''LEFT_JOIN''
      | Op_pattern src s p ob g \<Rightarrow> ''PATTERN'' | Op_path src s p ob g \<Rightarrow> ''PATH''
      | Op_bgp ps \<Rightarrow> ''BGP'' | Op_other ty src qs x \<Rightarrow> ty)"

text \<open>The fields \<open>input\<close> (as a list), \<open>patterns\<close> and \<open>expression\<close> where a node has them.\<close>

fun node_inputs :: "'x node \<Rightarrow> 'x node list" where
  "node_inputs (N_op (Op_extend q v e)) = [N_op q]"
| "node_inputs (N_op (Op_filter q e)) = [N_op q]"
| "node_inputs (N_op (Op_join qs)) = map N_op qs"
| "node_inputs (N_op (Op_project q vs)) = [N_op q]"
| "node_inputs (N_op (Op_union qs)) = map N_op qs"
| "node_inputs (N_op (Op_leftjoin l r e)) = [N_op l, N_op r]"
| "node_inputs (N_op (Op_other ty src qs x)) = map N_op qs"
| "node_inputs (N_expr (E_existence neg q)) = [N_op q]"
| "node_inputs n = []"

fun node_patterns :: "'x node \<Rightarrow> 'x node list" where
  "node_patterns (N_op (Op_bgp ps)) = map N_op ps"
| "node_patterns n = []"

fun node_expression :: "'x node \<Rightarrow> 'x expr option" where
  "node_expression (N_op (Op_extend q v e)) = Some e"
| "node_expression (N_op (Op_filter q e)) = Some e"
| "node_expression (N_op (Op_leftjoin l r e)) = e"
| "node_expression (N_expr (E_aggregate name e)) = Some e"
| "node_expression n = None"

definition isStandardSparqlFunction :: "string \<Rightarrow> bool" where
  "isStandardSparqlFunction iri \<longleftrightarrow>
     take 18 iri = ''http://www.w3.org/'' \<or> take 19 iri = ''https://www.w3.org/''"

fun isExtensionFunction :: "'x node \<Rightarrow> bool" where
  "isExtensionFunction (N_expr (E_named name args)) = (\<not> isStandardSparqlFunction name)"
| "isExtensionFunction n = False"

text \<open>The expressions that \<open>visitOperation\<close> reaches.\<close>

function op_exprs :: "'x operation \<Rightarrow> 'x expr list" and expr_exprs :: "'x expr \<Rightarrow> 'x expr list" where
  "op_exprs (Op_extend q v e) = op_exprs q @ expr_exprs e"
| "op_exprs (Op_filter q e) = op_exprs q @ expr_exprs e"
| "op_exprs (Op_join qs) = concat (map op_exprs qs)"
| "op_exprs Op_nop = []"
| "op_exprs (Op_project q vs) = op_exprs q"
| "op_exprs (Op_union qs) = concat (map op_exprs qs)"
| "op_exprs (Op_values vs rows) = []"
| "op_exprs (Op_leftjoin l r e) =
     op_exprs l @ op_exprs r @ (case e of None \<Rightarrow> [] | Some c \<Rightarrow> expr_exprs c)"
| "op_exprs (Op_pattern src s p ob g) = []"
| "op_exprs (Op_path src s x ob g) = []"
| "op_exprs (Op_bgp ps) = concat (map op_exprs ps)"
| "op_exprs (Op_other ty src qs x) = concat (map op_exprs qs)"
| "expr_exprs (E_term t) = [E_term t]"
| "expr_exprs (E_operator name args) = E_operator name args # concat (map expr_exprs args)"
| "expr_exprs (E_named name args) = E_named name args # concat (map expr_exprs args)"
| "expr_exprs (E_existence neg q) = E_existence neg q # op_exprs q"
| "expr_exprs (E_aggregate name e) = E_aggregate name e # expr_exprs e"
| "expr_exprs E_wildcard = [E_wildcard]"
  by pat_completeness auto
termination
  by (relation "measure (case_sum size (size_expression size))")
    (auto simp: less_Suc_eq_le trans_le_add1 intro!: size_list_estimation' [OF _ order_refl]
      intro: le_SucI)

fun node_exprs :: "'x node \<Rightarrow> 'x expr list" where
  "node_exprs (N_op q) = op_exprs q"
| "node_exprs (N_expr e) = expr_exprs e"

fun node_size :: "'x node \<Rightarrow> nat" where
  "node_size (N_op q) = size q"
| "node_size (N_expr e) = size_expression size e"

lemma size_list_mem: "x \<in> set xs \<Longrightarrow> f x < Suc (size_list f xs)"
  by (simp add: less_Suc_eq_le size_list_estimation' [OF _ order_refl])

lemma node_inputs_size: "m \<in> set (node_inputs n) \<Longrightarrow> node_size m < node_size n"
  by (cases n rule: node_inputs.cases) (auto simp: size_list_mem)

lemma node_patterns_size: "m \<in> set (node_patterns n) \<Longrightarrow> node_size m < node_size n"
  by (cases n rule: node_patterns.cases) (auto simp: size_list_mem)

lemma node_expression_size: "node_expression n = Some e \<Longrightarrow> node_size (N_expr e) < node_size n"
  by (cases n rule: node_expression.cases) (auto simp: less_Suc_eq_le)

lemma size_list_trans: "y \<le> f x \<Longrightarrow> x \<in> set xs \<Longrightarrow> y < Suc (size_list f xs)"
  by (rule le_less_trans [OF _ size_list_mem])

lemma size_concat:
  assumes "\<And>x. x \<in> set xs \<Longrightarrow> e \<in> set (h x) \<Longrightarrow> y = f x \<or> y < f x"
    and "e \<in> set (concat (map h xs))"
  shows "y < Suc (size_list f xs)"
proof -
  from assms(2) obtain x where x: "x \<in> set xs" "e \<in> set (h x)" by auto
  with assms(1) have "y \<le> f x" by fastforce
  with x(1) show ?thesis by (simp add: size_list_trans)
qed

lemma exprs_size:
  "e \<in> set (op_exprs q) \<Longrightarrow> size_expression size e < size q"
  "e \<in> set (expr_exprs d) \<Longrightarrow> e = d \<or> size_expression size e < size_expression size d"
proof (induction q and d rule: op_exprs_expr_exprs.induct)
  case (14 name args)
  then show ?case using size_concat [of args e expr_exprs "size_expression size e" "size_expression size"] by auto
next
  case (15 name args)
  then show ?case using size_concat [of args e expr_exprs "size_expression size e" "size_expression size"] by auto
qed (auto split: option.splits intro: size_list_trans less_imp_le_nat)

lemma node_exprs_size:
  "e \<in> set (node_exprs n) \<Longrightarrow> n = N_expr e \<or> node_size (N_expr e) < node_size n"
  using exprs_size by (cases n) auto

lemma zip_inputs_size: "(c, m) \<in> set (zip cs (node_inputs n)) \<Longrightarrow> node_size m < node_size n"
  by (blast dest: set_zip_rightD intro: node_inputs_size)

section \<open>Shapes\<close>

datatype 'x shape_operation =
    SO_type string "string list option"
  | SO_pattern "'x operation"
  | SO_wildcard

text \<open>An operation shape holds its children and the flags \<open>joinBindings\<close> and \<open>filterBindings\<close>; its
  lists of variables are not read by the code here.\<close>

datatype 'x shape =
    Sh_operation "'x shape_operation" "'x shape list option" bool bool
  | Sh_conjunction "'x shape list"
  | Sh_disjunction "'x shape list"
  | Sh_negation "'x shape"
  | Sh_arity "nat option" "nat option" "'x shape"

record shape_flags =
  sf_joinBindings :: "bool option"
  sf_filterBindings :: "bool option"
  sf_wildcardAcceptAllExtensionFunctions :: bool

definition no_flags :: shape_flags where
  "no_flags = \<lparr>sf_joinBindings = None, sf_filterBindings = None, sf_wildcardAcceptAllExtensionFunctions = False\<rparr>"

text \<open>\<open>(options?.joinBindings && !shape.joinBindings) ?? (options?.filterBindings && ...)\<close>: the second
  operand is evaluated only when \<open>joinBindings\<close> is undefined.\<close>

definition binding_mismatch :: "shape_flags \<Rightarrow> bool \<Rightarrow> bool \<Rightarrow> bool" where
  "binding_mismatch fl jb fb =
     (case sf_joinBindings fl of
        Some j \<Rightarrow> j \<and> \<not> jb
      | None \<Rightarrow> sf_filterBindings fl = Some True \<and> \<not> fb)"

definition extension_of :: "'x node \<Rightarrow> bool" where
  "extension_of n = (case node_expression n of Some e \<Rightarrow> isExtensionFunction (N_expr e) | None \<Rightarrow> False)"

fun node_name :: "'x node \<Rightarrow> string" where
  "node_name (N_expr (E_named name args)) = name"
| "node_name n = []"

function acceptShape :: "shape_flags \<Rightarrow> 'x shape \<Rightarrow> 'x shape \<Rightarrow> 'x node \<Rightarrow> bool" where
  "acceptShape fl shp (Sh_conjunction cs) n = list_all (\<lambda>c. acceptShape fl shp c n) cs"
| "acceptShape fl shp (Sh_disjunction cs) n = list_ex (\<lambda>c. acceptShape fl shp c n) cs"
| "acceptShape fl shp (Sh_negation c) n = (\<not> acceptShape fl c c n)"
| "acceptShape fl shp (Sh_arity lo hi c) n = acceptShape fl shp c n"
| "acceptShape fl shp (Sh_operation so children jb fb) n =
     (if binding_mismatch fl jb fb then False
      else
        let recurseOperationAndShape =
              (if isExtensionFunction n \<or> extension_of n then False
               else case children of
                 None \<Rightarrow> False
               | Some cs \<Rightarrow> length cs \<le> length (node_inputs n) \<and>
                   list_all (\<lambda>(c, i). acceptShape fl shp c i) (zip cs (node_inputs n)));
            recurseOperation =
              (list_all (\<lambda>i. acceptShape fl shp shp i) (node_inputs n) \<and>
               (case node_expression n of
                  None \<Rightarrow> True
                | Some e \<Rightarrow> isExtensionFunction (N_expr e) \<longrightarrow> acceptShape fl shp shp (N_expr e)) \<and>
               list_all (\<lambda>i. acceptShape fl shp shp i) (node_patterns n))
        in case so of
             SO_type ty extensionFunctions \<Rightarrow>
               if ty = ''EXPRESSION'' \<and> isExtensionFunction n \<and>
                  \<not> (case extensionFunctions of None \<Rightarrow> False | Some fs \<Rightarrow> List.member fs (node_name n))
               then False
               else if \<not> recurseOperationAndShape \<and> \<not> recurseOperation then False
               else ty = node_type n
           | SO_pattern p \<Rightarrow>
               if \<not> recurseOperationAndShape \<and> \<not> recurseOperation then False
               else node_type (N_op p) = node_type n
           | SO_wildcard \<Rightarrow>
               if sf_wildcardAcceptAllExtensionFunctions fl then True
               else if isExtensionFunction n then False
               else list_all (\<lambda>e. acceptShape fl shp shp (N_expr e))
                      (filter (\<lambda>e. isExtensionFunction (N_expr e)) (node_exprs n)))"
  by pat_completeness auto

termination
  by (relation "inv_image (less_than <*lex*> less_than)
        (\<lambda>(fl, shp, active, n). (node_size n, size active))")
    (auto simp: size_list_mem dest: node_inputs_size node_patterns_size node_expression_size
       node_exprs_size zip_inputs_size)

definition doesShapeAcceptOperation :: "'x shape \<Rightarrow> 'x node \<Rightarrow> shape_flags \<Rightarrow> bool" where
  "doesShapeAcceptOperation shape n fl = acceptShape fl shape shape n"

section \<open>What the common shapes accept\<close>

definition wildcard_shape :: "'x shape" where
  "wildcard_shape = Sh_operation SO_wildcard None False False"

definition types_shape :: "string list \<Rightarrow> 'x shape" where
  "types_shape types = Sh_disjunction (map (\<lambda>ty. Sh_operation (SO_type ty None) None False False) types)"

lemma node_exprs_self: "e \<in> set (node_exprs (N_expr e))"
  by (cases e) simp_all

lemma accept_wildcard_extension:
  "isExtensionFunction n \<Longrightarrow> \<not> acceptShape no_flags wildcard_shape wildcard_shape n"
  by (simp add: wildcard_shape_def no_flags_def binding_mismatch_def)

text \<open>A source whose shape is the wildcard accepts an operation exactly when no expression anywhere
  in it is an extension function.\<close>

theorem wildcard_accepts_iff:
  "doesShapeAcceptOperation wildcard_shape n no_flags \<longleftrightarrow>
     list_all (\<lambda>e. \<not> isExtensionFunction (N_expr e)) (node_exprs n)"
proof (cases "isExtensionFunction n")
  case True
  then obtain e where "n = N_expr e" by (cases n) simp_all
  with True node_exprs_self [of e] accept_wildcard_extension [OF True] show ?thesis
    by (auto simp: doesShapeAcceptOperation_def list_all_iff)
next
  case False
  then have "doesShapeAcceptOperation wildcard_shape n no_flags \<longleftrightarrow>
      list_all (\<lambda>e. acceptShape no_flags wildcard_shape wildcard_shape (N_expr e))
        (filter (\<lambda>e. isExtensionFunction (N_expr e)) (node_exprs n))"
    unfolding doesShapeAcceptOperation_def
    by (subst (2) wildcard_shape_def) (simp add: no_flags_def binding_mismatch_def)
  then show ?thesis using accept_wildcard_extension by (fastforce simp: list_all_iff)
qed

text \<open>The operations of an operation, itself included.\<close>

fun op_nodes :: "'x operation \<Rightarrow> 'x operation list" where
  "op_nodes (Op_extend q v e) = Op_extend q v e # op_nodes q"
| "op_nodes (Op_filter q e) = Op_filter q e # op_nodes q"
| "op_nodes (Op_join qs) = Op_join qs # concat (map op_nodes qs)"
| "op_nodes (Op_project q vs) = Op_project q vs # op_nodes q"
| "op_nodes (Op_union qs) = Op_union qs # concat (map op_nodes qs)"
| "op_nodes (Op_leftjoin l r e) = Op_leftjoin l r e # op_nodes l @ op_nodes r"
| "op_nodes (Op_bgp ps) = Op_bgp ps # concat (map op_nodes ps)"
| "op_nodes (Op_other ty src qs x) = Op_other ty src qs x # concat (map op_nodes qs)"
| "op_nodes q = [q]"

lemma no_mismatch [simp]: "\<not> binding_mismatch no_flags jb fb"
  by (simp add: no_flags_def binding_mismatch_def)

lemma accept_type_shape:
  "acceptShape no_flags shp (Sh_operation (SO_type ty None) None False False) n \<longleftrightarrow>
     (ty = ''EXPRESSION'' \<longrightarrow> \<not> isExtensionFunction n) \<and> ty = node_type n \<and>
     list_all (\<lambda>i. acceptShape no_flags shp shp i) (node_inputs n) \<and>
     (case node_expression n of
        None \<Rightarrow> True
      | Some e \<Rightarrow> isExtensionFunction (N_expr e) \<longrightarrow> acceptShape no_flags shp shp (N_expr e)) \<and>
     list_all (\<lambda>i. acceptShape no_flags shp shp i) (node_patterns n)"
  by (simp add: Let_def)

lemma accept_types_expr:
  "''EXPRESSION'' \<notin> set types \<Longrightarrow> \<not> acceptShape no_flags shp (types_shape types) (N_expr e)"
  unfolding types_shape_def acceptShape.simps by (simp add: list_ex_iff accept_type_shape del: acceptShape.simps)

lemma accept_types_step:
  assumes "''EXPRESSION'' \<notin> set types"
  shows "acceptShape no_flags (types_shape types) (types_shape types) (N_op q) \<longleftrightarrow>
    node_type (N_op q) \<in> set types \<and> \<not> extension_of (N_op q) \<and>
    list_all (\<lambda>i. acceptShape no_flags (types_shape types) (types_shape types) i)
      (node_inputs (N_op q) @ node_patterns (N_op q))"
  using assms
  by (subst (2) types_shape_def)
    (auto simp: list_ex_iff accept_type_shape accept_types_expr extension_of_def
      simp del: acceptShape.simps(5) node_type.simps split: option.splits)

text \<open>A source whose shape lists the types of operations it supports (other than expressions) accepts
  an operation exactly when every operation in it has one of these types and no operation in it has an
  extension function as its expression.\<close>

theorem types_accept_iff:
  assumes "''EXPRESSION'' \<notin> set types"
  shows "doesShapeAcceptOperation (types_shape types) (N_op q) no_flags \<longleftrightarrow>
    list_all (\<lambda>m. node_type (N_op m) \<in> set types \<and> \<not> extension_of (N_op m)) (op_nodes q)"
  unfolding doesShapeAcceptOperation_def
  by (induction q rule: op_nodes.induct; subst accept_types_step [OF assms];
      auto simp: list_all_iff simp del: acceptShape.simps node_type.simps)

definition sample_types :: "string list" where
  "sample_types = [''JOIN'', ''PATTERN'', ''FILTER'']"

definition sample_query :: "nat operation" where
  "sample_query = Op_join
     [Op_pattern None (Variable ''s'') (NamedNode ''p'') (Variable ''o'') DefaultGraph,
      Op_filter (Op_pattern None (Variable ''s'') (NamedNode ''q'') (Variable ''o'') DefaultGraph)
        (E_operator ''='' [E_term (Variable ''s''), E_term (Variable ''o'')])]"

lemma types_accept_iff_witness:
  "doesShapeAcceptOperation (types_shape sample_types) (N_op sample_query) no_flags \<and>
   \<not> doesShapeAcceptOperation (types_shape [''JOIN'', ''PATTERN'']) (N_op sample_query) no_flags"
proof
  show "doesShapeAcceptOperation (types_shape sample_types) (N_op sample_query) no_flags"
    by (subst types_accept_iff) (simp_all add: sample_types_def sample_query_def extension_of_def)
  show "\<not> doesShapeAcceptOperation (types_shape [''JOIN'', ''PATTERN'']) (N_op sample_query) no_flags"
    by (subst types_accept_iff) (simp_all add: sample_query_def extension_of_def)
qed

end
