(* ===== verification/Pushdown_Run.thy ===== *)
theory Pushdown_Run
  imports Graph_Semantics Shapes
begin

text \<open>
  The rest of the filter pushdown actor: which filters it attempts to push
  (\<open>shouldAttemptPushDown\<close>), the splitting and merging of conjunctive filters, and its loop
  (\<open>run\<close>).  \<open>algebraUtils.mapOperation\<close> on filters is the argument \<open>mapFilters\<close>: it is given the
  transformation in state-passing form, with the local variable \<open>repeat\<close> as the state and \<open>None\<close>
  for a thrown error.
\<close>

type_synonym 'x pass = "'x operation \<Rightarrow> bool \<Rightarrow> ('x operation \<times> bool) option"

section \<open>Which filters to push\<close>

definition is_term :: "bool \<Rightarrow> 'q expression \<Rightarrow> bool" where
  "is_term var e = (case e of E_term t \<Rightarrow> is_variable t = var | _ \<Rightarrow> False)"

definition very_selective :: "'q expression \<Rightarrow> bool" where
  "very_selective e =
     (case e of
        E_operator op_name (a0 # a1 # rest) \<Rightarrow>
          op_name = ''='' \<and> (is_term False a0 \<and> is_term True a1 \<or> is_term True a0 \<and> is_term False a1)
      | _ \<Rightarrow> False)"

definition unsupported_extension ::
  "nat list \<Rightarrow> (nat \<Rightarrow> 'x shape) \<Rightarrow> string list option \<Rightarrow> 'x expr \<Rightarrow> bool" where
  "unsupported_extension sources sourceShapes extensionFunctions e =
     (case (extensionFunctions, e) of
        (Some fs, E_named name args) \<Rightarrow>
          List.member fs name \<and>
          \<not> list_ex (\<lambda>s. doesShapeAcceptOperation (sourceShapes s) (N_expr e) no_flags) sources
      | _ \<Rightarrow> False)"

definition shouldAttemptPushDown ::
  "pushdown_options \<Rightarrow> nat list \<Rightarrow> (nat \<Rightarrow> 'x shape) \<Rightarrow> string list option \<Rightarrow> bool \<Rightarrow>
   'x operation \<Rightarrow> 'x expr \<Rightarrow> bool" where
  "shouldAttemptPushDown opts sources sourceShapes extensionFunctions alwaysPushdown q e =
     (if aggressivePushdown opts then True
      else if very_selective e then True
      else if unsupported_extension sources sourceShapes extensionFunctions e then False
      else list_ex (\<lambda>s. doesShapeAcceptOperation (sourceShapes s) (N_op (Op_filter q e))
             (no_flags\<lparr>sf_wildcardAcceptAllExtensionFunctions := alwaysPushdown\<rparr>)) sources)"

text \<open>\<open>getSources\<close>: the sources assigned to patterns, services and the parts of paths, anywhere in the
  operation; the sources inside the predicate of a path are given by \<open>pathSources\<close>.\<close>

definition operation_sources :: "('x \<Rightarrow> nat list) \<Rightarrow> 'x operation \<Rightarrow> nat list" where
  "operation_sources pathSources q =
     (case q of
        Op_pattern src s p ob g \<Rightarrow> (case getOperationSource q of None \<Rightarrow> [] | Some s \<Rightarrow> [s])
      | Op_path src s x ob g \<Rightarrow> pathSources x
      | Op_other ty src qs x \<Rightarrow>
          if ty = ''SERVICE'' then (case getOperationSource q of None \<Rightarrow> [] | Some s \<Rightarrow> [s]) else []
      | _ \<Rightarrow> [])"

definition all_operations :: "'x operation \<Rightarrow> 'x operation list" where
  "all_operations q =
     op_nodes q @ concat (map (\<lambda>e. case e of E_existence neg p \<Rightarrow> op_nodes p | _ \<Rightarrow> []) (op_exprs q))"

definition getSources :: "('x \<Rightarrow> nat list) \<Rightarrow> 'x operation \<Rightarrow> nat list" where
  "getSources pathSources q = uniq_terms (concat (map (operation_sources pathSources) (all_operations q)))"

section \<open>Conjunctive filters\<close>

definition split_filter :: "'x operation \<Rightarrow> 'x operation" where
  "split_filter q =
     (case q of
        Op_filter i (E_operator op_name args) \<Rightarrow>
          if op_name = ''&&'' then foldl Op_filter i args else q
      | _ \<Rightarrow> q)"

fun getNestedFilterExpressions :: "'x operation \<Rightarrow> 'x expr \<Rightarrow> 'x expr list \<times> 'x operation" where
  "getNestedFilterExpressions (Op_filter i e') e =
     (case getNestedFilterExpressions i e' of (es, r) \<Rightarrow> (e # es, r))"
| "getNestedFilterExpressions i e = ([e], i)"

definition is_filter :: "'x operation \<Rightarrow> bool" where
  "is_filter q = (case q of Op_filter i e \<Rightarrow> True | _ \<Rightarrow> False)"

definition merge_filter :: "'x operation \<Rightarrow> 'x operation" where
  "merge_filter q =
     (case q of
        Op_filter i e \<Rightarrow>
          if is_filter i
          then (case getNestedFilterExpressions i e of
                  (es, r) \<Rightarrow> Op_filter r (foldl (\<lambda>p c. E_operator ''&&'' [p, c]) (hd es) (tl es)))
          else q
      | _ \<Rightarrow> q)"

section \<open>The loop and the actor\<close>

definition pure_pass :: "('x operation \<Rightarrow> 'x operation) \<Rightarrow> 'x pass" where
  "pure_pass h q m = Some (h q, m)"

definition pushdown_pass ::
  "pushdown_options \<Rightarrow> 'x algebra_lib \<Rightarrow> ('x operation \<Rightarrow> 'x expr \<Rightarrow> bool) \<Rightarrow> 'x pass" where
  "pushdown_pass opts lib attempt q repeat =
     (case q of
        Op_filter i e \<Rightarrow>
          if \<not> attempt i e then Some (q, repeat)
          else (case getExpressionVariables (inScopeVariables lib) e of
                  None \<Rightarrow> None
                | Some vs \<Rightarrow>
                    (case filterPushdown opts lib e vs i of
                       (isModified, result) \<Rightarrow> Some (result, if isModified then True else repeat)))
      | _ \<Rightarrow> Some (q, repeat))"

text \<open>The \<open>while\<close> loop: at most \<open>maxIterations\<close> passes, and the number of passes made.\<close>

fun pushdown_loop :: "'x pass \<Rightarrow> nat \<Rightarrow> 'x operation \<Rightarrow> ('x operation \<times> nat) option" where
  "pushdown_loop pass 0 q = Some (q, 0)"
| "pushdown_loop pass (Suc n) q =
     (case pass q False of
        None \<Rightarrow> None
      | Some (r, repeat) \<Rightarrow>
          if repeat
          then (case pushdown_loop pass n r of None \<Rightarrow> None | Some (r', i) \<Rightarrow> Some (r', Suc i))
          else Some (r, 1))"

text \<open>The passes of \<open>run\<close>; the sources are collected after the split, and the passes of the loop
  are given them.\<close>

definition run_passes ::
  "pushdown_options \<Rightarrow> ('x pass \<Rightarrow> 'x pass) \<Rightarrow> ('x \<Rightarrow> nat list) \<Rightarrow> (nat list \<Rightarrow> 'x pass) \<Rightarrow>
   'x operation \<Rightarrow> 'x operation option" where
  "run_passes opts mapFilters pathSources pass q =
     (case (if splitConjunctive opts then mapFilters (pure_pass split_filter) q False else Some (q, False)) of
        None \<Rightarrow> None
      | Some (q1, _) \<Rightarrow>
          (case pushdown_loop (mapFilters (pass (getSources pathSources q1))) (maxIterations opts) q1 of
             None \<Rightarrow> None
           | Some (q2, _) \<Rightarrow>
               if mergeConjunctive opts
               then map_option fst (mapFilters (pure_pass merge_filter) q2 False)
               else Some q2))"

text \<open>The method \<open>run\<close>: \<open>sourceShapes\<close> are the selector shapes of the sources, and the last
  arguments the extension functions of the context and whether they are always pushed down.\<close>

definition run_filter_pushdown ::
  "pushdown_options \<Rightarrow> 'x algebra_lib \<Rightarrow> ('x pass \<Rightarrow> 'x pass) \<Rightarrow> ('x \<Rightarrow> nat list) \<Rightarrow>
   (nat \<Rightarrow> 'x shape) \<Rightarrow> string list option \<Rightarrow> bool \<Rightarrow> 'x operation \<Rightarrow> 'x operation option" where
  "run_filter_pushdown opts lib mapFilters pathSources sourceShapes extensionFunctions alwaysPushdown =
     run_passes opts mapFilters pathSources
       (\<lambda>sources. pushdown_pass opts lib
          (shouldAttemptPushDown opts sources sourceShapes extensionFunctions alwaysPushdown))"

section \<open>The actor keeps the solutions\<close>

definition and_law :: "'x semantics \<Rightarrow> bool" where
  "and_law sem \<longleftrightarrow>
     (\<forall>args f. sem_holds sem (E_operator ''&&'' args) f = list_all (\<lambda>a. sem_holds sem a f) args)"

text \<open>A pass keeps the solutions of what it returns; one pass follows another where it returns.\<close>

definition keeps :: "'x semantics \<Rightarrow> 'x pass \<Rightarrow> bool" where
  "keeps sem pass \<longleftrightarrow> (\<forall>q m r m'. pass q m = Some (r, m') \<longrightarrow> eval sem r = eval sem q)"

definition follows :: "'x pass \<Rightarrow> 'x pass \<Rightarrow> bool" where
  "follows pass pass' \<longleftrightarrow> (\<forall>q m r. pass q m = Some r \<longrightarrow> pass' q m = Some r)"

text \<open>What is used of \<open>mapOperation\<close>: mapping a transformation that keeps the solutions keeps
  them, and where no transformed filter throws, only what is returned for the filters matters.\<close>

definition map_law :: "'x semantics \<Rightarrow> ('x pass \<Rightarrow> 'x pass) \<Rightarrow> bool" where
  "map_law sem mapFilters \<longleftrightarrow>
     (\<forall>pass. keeps sem pass \<longrightarrow> keeps sem (mapFilters pass)) \<and>
     (\<forall>pass pass'. follows pass pass' \<longrightarrow> follows (mapFilters pass) (mapFilters pass'))"

lemma foldl_filter_eval:
  "eval sem (foldl Op_filter q es) = filter_mset (\<lambda>f. list_all (\<lambda>e. sem_holds sem e f) es) (eval sem q)"
  by (induction es arbitrary: q) (simp_all add: filter_filter_mset conj_commute)

lemma and_lawD:
  "and_law sem \<Longrightarrow> sem_holds sem (E_operator ''&&'' args) = (\<lambda>f. list_all (\<lambda>a. sem_holds sem a f) args)"
  by (simp add: and_law_def fun_eq_iff)

lemma split_filter_eval: "and_law sem \<Longrightarrow> eval sem (split_filter q) = eval sem q"
  by (auto simp: split_filter_def and_lawD foldl_filter_eval split: operation.splits expression.splits)

lemma getNested_nonempty: "fst (getNestedFilterExpressions q e) \<noteq> []"
  by (induction q e rule: getNestedFilterExpressions.induct) (simp_all add: case_prod_beta)

lemma getNested_eval:
  "getNestedFilterExpressions q e = (es, r) \<Longrightarrow>
     eval sem (Op_filter q e) = filter_mset (\<lambda>f. list_all (\<lambda>e. sem_holds sem e f) es) (eval sem r)"
proof (induction q e arbitrary: es rule: getNestedFilterExpressions.induct)
  case (1 i e' e)
  obtain ds where ds: "getNestedFilterExpressions i e' = (ds, r)" "es = e # ds"
    using 1(2) by (auto split: prod.splits)
  from 1(1) [OF ds(1)] show ?case by (simp add: ds(2) filter_filter_mset conj_commute)
qed simp_all

lemma conjunction_holds:
  "and_law sem \<Longrightarrow>
     sem_holds sem (foldl (\<lambda>p c. E_operator ''&&'' [p, c]) e es) f = list_all (\<lambda>e. sem_holds sem e f) (e # es)"
  by (induction es arbitrary: e) (simp_all add: and_law_def)

lemma merge_filter_eval:
  assumes "and_law sem" shows "eval sem (merge_filter q) = eval sem q"
proof (cases "\<exists>i e. q = Op_filter i e \<and> is_filter i")
  case True
  then obtain i e where q: "q = Op_filter i e" "is_filter i" by blast
  obtain es r where es: "getNestedFilterExpressions i e = (es, r)" by fastforce
  with getNested_nonempty [of i e] obtain d ds where d: "es = d # ds" by (cases es) auto
  have "sem_holds sem (foldl (\<lambda>p c. E_operator ''&&'' [p, c]) d ds) =
      (\<lambda>f. list_all (\<lambda>e. sem_holds sem e f) (d # ds))"
    by (rule ext) (rule conjunction_holds [OF assms])
  then show ?thesis
    using getNested_eval [OF es, of sem] by (simp add: q merge_filter_def es d)
qed (auto simp: merge_filter_def split: operation.splits)

lemma keeps_pure: "(\<And>q. eval sem (h q) = eval sem q) \<Longrightarrow> keeps sem (pure_pass h)"
  by (simp add: keeps_def pure_pass_def)

text \<open>The run with a monitor, which stops it (\<open>None\<close>) at the first filter that the actor attempts
  to push and that the pushdown is not sound for.\<close>

definition push_is_safe :: "pushdown_options \<Rightarrow> 'x algebra_lib \<Rightarrow> 'x semantics \<Rightarrow> 'x operation \<Rightarrow> 'x expr \<Rightarrow> bool" where
  "push_is_safe opts lib sem i e \<longleftrightarrow>
     (case getExpressionVariables (inScopeVariables lib) e of
        None \<Rightarrow> False
      | Some vs \<Rightarrow> filter_law sem e vs \<and> pushdown_safe opts lib e vs i)"

definition monitored_pass ::
  "pushdown_options \<Rightarrow> 'x algebra_lib \<Rightarrow> 'x semantics \<Rightarrow> ('x operation \<Rightarrow> 'x expr \<Rightarrow> bool) \<Rightarrow> 'x pass" where
  "monitored_pass opts lib sem attempt q repeat =
     (case q of
        Op_filter i e \<Rightarrow>
          if attempt i e \<and> \<not> push_is_safe opts lib sem i e then None
          else pushdown_pass opts lib attempt q repeat
      | _ \<Rightarrow> pushdown_pass opts lib attempt q repeat)"

definition attempts_are_safe ::
  "'x semantics \<Rightarrow> pushdown_options \<Rightarrow> 'x algebra_lib \<Rightarrow> ('x pass \<Rightarrow> 'x pass) \<Rightarrow> ('x \<Rightarrow> nat list) \<Rightarrow>
   (nat \<Rightarrow> 'x shape) \<Rightarrow> string list option \<Rightarrow> bool \<Rightarrow> 'x operation \<Rightarrow> bool" where
  "attempts_are_safe sem opts lib mapFilters pathSources sourceShapes extensionFunctions alwaysPushdown q \<longleftrightarrow>
     run_passes opts mapFilters pathSources
       (\<lambda>sources. monitored_pass opts lib sem
          (shouldAttemptPushDown opts sources sourceShapes extensionFunctions alwaysPushdown)) q \<noteq> None"

lemma keepsD: "keeps sem pass \<Longrightarrow> pass q m = Some (r, m') \<Longrightarrow> eval sem r = eval sem q"
  unfolding keeps_def by blast

lemma followsD: "follows pass pass' \<Longrightarrow> pass q m = Some r \<Longrightarrow> pass' q m = Some r"
  unfolding follows_def by blast

lemma keeps_monitored:
  assumes laws: "algebra_laws lib sem"
  shows "keeps sem (monitored_pass opts lib sem attempt)"
  unfolding keeps_def
proof (intro allI impI)
  fix q m r m'
  assume r: "monitored_pass opts lib sem attempt q m = Some (r, m')"
  show "eval sem r = eval sem q"
  proof (cases "\<exists>i e. q = Op_filter i e \<and> attempt i e")
    case True
    then obtain i e where q: "q = Op_filter i e" and a: "attempt i e" by blast
    with r obtain vs where vs: "getExpressionVariables (inScopeVariables lib) e = Some vs"
      "filter_law sem e vs" "pushdown_safe opts lib e vs i"
      by (auto simp: monitored_pass_def push_is_safe_def split: if_splits option.splits)
    then have "push_is_safe opts lib sem i e" by (simp add: push_is_safe_def)
    with r have "r = snd (filterPushdown opts lib e vs i)"
      by (simp add: monitored_pass_def pushdown_pass_def q a vs(1) case_prod_beta)
    with filterPushdown_eval [OF laws vs(2,3)] show ?thesis by (simp add: q)
  qed (use r in \<open>auto simp: monitored_pass_def pushdown_pass_def split: operation.splits if_splits\<close>)
qed

lemma follows_monitored: "follows (monitored_pass opts lib sem attempt) (pushdown_pass opts lib attempt)"
  by (auto simp: follows_def monitored_pass_def split: operation.splits if_splits)

lemma keeps_loop:
  "keeps sem pass \<Longrightarrow> pushdown_loop pass n q = Some (r, i) \<Longrightarrow> eval sem r = eval sem q"
proof (induction pass n q arbitrary: r i rule: pushdown_loop.induct)
  case (2 pass n q)
  then obtain p m where p: "pass q False = Some (p, m)" by (auto split: option.splits)
  with keepsD [OF 2(2) p] 2(1) [OF p refl _ 2(2)] 2(3) show ?case
    by (cases m) (auto split: option.splits)
qed simp

lemma follows_loop:
  "follows pass pass' \<Longrightarrow> pushdown_loop pass n q = Some (r, i) \<Longrightarrow> pushdown_loop pass' n q = Some (r, i)"
proof (induction n arbitrary: q r i)
  case (Suc n)
  then obtain p m where p: "pass q False = Some (p, m)" by (auto split: option.splits)
  with followsD [OF Suc.prems(1) p] Suc show ?case
    by (cases m) (auto split: option.splits)
qed simp

lemma run_passesE:
  assumes "run_passes opts mapFilters pathSources pass q = Some r"
  obtains q1 m q2 n where
    "(if splitConjunctive opts then mapFilters (pure_pass split_filter) q False else Some (q, False)) = Some (q1, m)"
    and "pushdown_loop (mapFilters (pass (getSources pathSources q1))) (maxIterations opts) q1 = Some (q2, n)"
    and "(if mergeConjunctive opts then map_option fst (mapFilters (pure_pass merge_filter) q2 False)
          else Some q2) = Some r"
  using assms unfolding run_passes_def by (auto split: option.splits prod.splits)

lemma run_passes_keeps:
  assumes split: "keeps sem (mapFilters (pure_pass split_filter))"
    and merge: "keeps sem (mapFilters (pure_pass merge_filter))"
    and push: "\<And>sources. keeps sem (mapFilters (pass sources))"
    and run: "run_passes opts mapFilters pathSources pass q = Some r"
  shows "eval sem r = eval sem q"
  using run
proof (rule run_passesE)
  fix q1 m q2 n
  assume q1: "(if splitConjunctive opts then mapFilters (pure_pass split_filter) q False else Some (q, False)) =
      Some (q1, m)"
    and q2: "pushdown_loop (mapFilters (pass (getSources pathSources q1))) (maxIterations opts) q1 = Some (q2, n)"
    and r: "(if mergeConjunctive opts then map_option fst (mapFilters (pure_pass merge_filter) q2 False)
      else Some q2) = Some r"
  have "eval sem q1 = eval sem q"
    using q1 keepsD [OF split] by (cases "splitConjunctive opts") auto
  moreover have "eval sem q2 = eval sem q1" by (rule keeps_loop [OF push q2])
  moreover have "eval sem r = eval sem q2"
    using r keepsD [OF merge] by (cases "mergeConjunctive opts") auto
  ultimately show "eval sem r = eval sem q" by simp
qed

lemma run_passes_follows:
  assumes follow: "\<And>sources. follows (mapFilters (pass sources)) (mapFilters (pass' sources))"
    and run: "run_passes opts mapFilters pathSources pass q = Some r"
  shows "run_passes opts mapFilters pathSources pass' q = Some r"
  using run
proof (rule run_passesE)
  fix q1 m q2 n
  assume "(if splitConjunctive opts then mapFilters (pure_pass split_filter) q False else Some (q, False)) =
      Some (q1, m)"
    and "pushdown_loop (mapFilters (pass (getSources pathSources q1))) (maxIterations opts) q1 = Some (q2, n)"
    and "(if mergeConjunctive opts then map_option fst (mapFilters (pure_pass merge_filter) q2 False)
      else Some q2) = Some r"
  with follows_loop [OF follow] show ?thesis by (simp add: run_passes_def)
qed

lemma run_keeps:
  assumes laws: "algebra_laws lib sem" and conj: "and_law sem" and maps: "map_law sem mapFilters"
    and safe: "attempts_are_safe sem opts lib mapFilters pathSources sourceShapes ext always q"
  shows "\<exists>r. run_filter_pushdown opts lib mapFilters pathSources sourceShapes ext always q = Some r \<and>
    eval sem r = eval sem q"
proof -
  let ?attempt = "\<lambda>sources. shouldAttemptPushDown opts sources sourceShapes ext always"
  from safe obtain r where r:
    "run_passes opts mapFilters pathSources (\<lambda>s. monitored_pass opts lib sem (?attempt s)) q = Some r"
    by (auto simp: attempts_are_safe_def)
  have "run_filter_pushdown opts lib mapFilters pathSources sourceShapes ext always q = Some r"
    unfolding run_filter_pushdown_def
  proof (rule run_passes_follows [OF _ r])
    fix sources
    show "follows (mapFilters (monitored_pass opts lib sem (?attempt sources)))
        (mapFilters (pushdown_pass opts lib (?attempt sources)))"
      using maps follows_monitored [of opts lib sem "?attempt sources"] by (simp add: map_law_def)
  qed
  moreover have "eval sem r = eval sem q"
    by (rule run_passes_keeps [OF _ _ _ r])
      (use maps keeps_monitored [OF laws] keeps_pure [OF split_filter_eval [OF conj]]
        keeps_pure [OF merge_filter_eval [OF conj]] in \<open>auto simp: map_law_def\<close>)
  ultimately show ?thesis by blast
qed

text \<open>The loop makes at most \<open>n\<close> passes, and stops earlier only after a pass that modified
  nothing.\<close>

lemma loop_bound: "pushdown_loop pass n q = Some (r, i) \<Longrightarrow> i \<le> n"
  by (induction pass n q arbitrary: r i rule: pushdown_loop.induct) (fastforce split: option.splits prod.splits if_splits)+

lemma loop_stable:
  "pushdown_loop pass n q = Some (r, i) \<Longrightarrow> i < n \<Longrightarrow> \<exists>p. pass p False = Some (r, False)"
proof (induction pass n q arbitrary: r i rule: pushdown_loop.induct)
  case (2 pass n q)
  then obtain p m where p: "pass q False = Some (p, m)" by (auto split: option.splits prod.splits)
  show ?case
  proof (cases m)
    case True
    with 2(2) p obtain i' where "pushdown_loop pass n p = Some (r, i')" "i = Suc i'"
      by (auto split: option.splits)
    with 2 p True show ?thesis by auto
  next
    case False
    with 2(2) p show ?thesis by auto
  qed
qed simp

section \<open>Properties\<close>

text \<open>C6. A filter pushed into an operation keeps the solutions of the filtered operation: the operation
  that \<open>filterPushdown\<close> returns has exactly the solutions of the operation that satisfy the filter,
  on every operator for which the pushdown is safe (\<open>pushdown_safe\<close>: in a join, either no input
  or only inputs that certainly bind the filter's variables have all of these variables; in a union,
  every input has some; in a projection, all of them are projected).\<close>

theorem filter_pushdown_sound:
  assumes "algebra_laws lib sem" and "filter_law sem e vs" and "pushdown_safe opts lib e vs q"
  shows "eval sem (snd (filterPushdown opts lib e vs q)) = filter_mset (sem_holds sem e) (eval sem q)"
  by (rule filterPushdown_eval [OF assms])

lemma filter_pushdown_sound_witness:
  "eval sample_sem (snd (filterPushdown sample_options plain_lib sample_filter [''x''] sample_join)) =
     filter_mset (sem_holds sample_sem sample_filter) (eval sample_sem sample_join)"
  by (rule filter_pushdown_sound [OF _ sample_filter_law sample_safe]) (simp add: sample_sem_def graph_laws)

text \<open>C7. The whole actor keeps the solutions of a query, whatever its options for splitting and merging
  conjunctions, the number of its passes and the selector shapes of the sources are: when each filter
  that it attempts to push in this run (\<open>shouldAttemptPushDown\<close>) is one that the pushdown is sound
  for, it returns an operation with the same solutions.\<close>

theorem filter_pushdown_actor_sound:
  assumes "algebra_laws lib sem" and "and_law sem" and "map_law sem mapFilters"
    and "attempts_are_safe sem opts lib mapFilters pathSources sourceShapes extensionFunctions alwaysPushdown q"
  shows "\<exists>r. run_filter_pushdown opts lib mapFilters pathSources sourceShapes extensionFunctions alwaysPushdown q =
      Some r \<and> eval sem r = eval sem q"
  by (rule run_keeps [OF assms])

text \<open>A map over the filters of an operation, from the innermost outwards.\<close>

fun map_filters :: "'x pass \<Rightarrow> 'x pass"
  and map_filters_list :: "'x pass \<Rightarrow> 'x operation list \<Rightarrow> bool \<Rightarrow> ('x operation list \<times> bool) option" where
  "map_filters pass (Op_filter q e) m =
     Option.bind (map_filters pass q m) (\<lambda>(r, m'). pass (Op_filter r e) m')"
| "map_filters pass (Op_extend q v e) m =
     map_option (\<lambda>(r, m'). (Op_extend r v e, m')) (map_filters pass q m)"
| "map_filters pass (Op_project q vs) m =
     map_option (\<lambda>(r, m'). (Op_project r vs, m')) (map_filters pass q m)"
| "map_filters pass (Op_join qs) m =
     map_option (\<lambda>(rs, m'). (Op_join rs, m')) (map_filters_list pass qs m)"
| "map_filters pass (Op_union qs) m =
     map_option (\<lambda>(rs, m'). (Op_union rs, m')) (map_filters_list pass qs m)"
| "map_filters pass (Op_leftjoin q r c) m =
     Option.bind (map_filters pass q m) (\<lambda>(q', m1).
       map_option (\<lambda>(r', m2). (Op_leftjoin q' r' c, m2)) (map_filters pass r m1))"
| "map_filters pass q m = Some (q, m)"
| "map_filters_list pass [] m = Some ([], m)"
| "map_filters_list pass (q # qs) m =
     Option.bind (map_filters pass q m) (\<lambda>(r, m1).
       map_option (\<lambda>(rs, m2). (r # rs, m2)) (map_filters_list pass qs m1))"

lemma map_filters_keeps:
  "keeps sem pass \<Longrightarrow> map_filters pass q m = Some (r, m') \<Longrightarrow> eval sem r = eval sem q"
  "keeps sem pass \<Longrightarrow> map_filters_list pass qs m = Some (rs, m') \<Longrightarrow> map (eval sem) rs = map (eval sem) qs"
proof (induction pass q m and pass qs m arbitrary: r m' and rs m' rule: map_filters_map_filters_list.induct)
  case (1 pass q e m)
  then show ?case by (auto simp: bind_eq_Some_conv dest!: keepsD [OF 1(2)])
qed (force simp: bind_eq_Some_conv simp del: map_eq_conv)+

lemma map_filters_follows:
  "follows pass pass' \<Longrightarrow> map_filters pass q m = Some r \<Longrightarrow> map_filters pass' q m = Some r"
  "follows pass pass' \<Longrightarrow> map_filters_list pass qs m = Some rs \<Longrightarrow> map_filters_list pass' qs m = Some rs"
proof (induction pass q m and pass qs m arbitrary: r and rs rule: map_filters_map_filters_list.induct)
  case (1 pass q e m)
  then show ?case by (auto simp: bind_eq_Some_conv dest!: followsD [OF 1(2)])
qed (force simp: bind_eq_Some_conv)+

lemma map_filters_law: "map_law sem map_filters"
  unfolding map_law_def keeps_def [of sem "map_filters _"] follows_def [of "map_filters _"]
  using map_filters_keeps(1) map_filters_follows(1) by blast

lemma sample_push_is_safe:
  "push_is_safe sample_options plain_lib sample_sem q sample_filter \<longleftrightarrow>
     pushdown_safe sample_options plain_lib sample_filter [''x''] q"
  using sample_filter_law
  by (simp add: push_is_safe_def sample_filter_def equal_terms_def iri_def)

definition sample_shape :: "nat \<Rightarrow> unit shape" where
  "sample_shape s = Sh_operation (SO_type ''PATTERN'' None) None False False"

definition sample_pushed :: "unit operation" where
  "sample_pushed =
     Op_join [Op_join [Op_join [pat (iri ''b'') ''knows'' (Variable ''y''), bound_values ''x'' (iri ''b'')]],
       pat (Variable ''z'') ''knows'' (Variable ''w'')]"

lemma sample_pushdown: "filterPushdown sample_options plain_lib sample_filter [''x''] sample_join = (True, sample_pushed)"
  by code_simp

lemma sample_passes: "\<exists>n. maxIterations sample_options = Suc (Suc n)"
  by (rule exI [of _ 8]) (simp add: sample_options_def)

lemma sample_no_filters: "map_filters pass sample_join m = Some (sample_join, m)"
  "map_filters pass sample_pushed m = Some (sample_pushed, m)"
  by (simp_all add: sample_join_def sample_pushed_def pat_def bound_values_def)

lemma sample_attempt:
  "monitored_pass sample_options plain_lib sample_sem
     (shouldAttemptPushDown sample_options sources sample_shape None False) (Op_filter sample_join sample_filter) m =
     Some (sample_pushed, True)"
proof -
  have "shouldAttemptPushDown sample_options sources sample_shape None False sample_join sample_filter"
    by (simp add: shouldAttemptPushDown_def very_selective_def is_term_def sample_filter_def equal_terms_def iri_def)
  moreover have "getExpressionVariables (inScopeVariables plain_lib) sample_filter = Some [''x'']"
    by (simp add: sample_filter_def equal_terms_def iri_def)
  ultimately show ?thesis
    by (simp add: monitored_pass_def pushdown_pass_def sample_push_is_safe sample_safe sample_pushdown)
qed

lemma filter_pushdown_actor_sound_witness:
  "\<exists>r. run_filter_pushdown sample_options plain_lib map_filters (\<lambda>_. []) sample_shape None False
        (Op_filter sample_join sample_filter) = Some r \<and>
     eval sample_sem r = eval sample_sem (Op_filter sample_join sample_filter)"
proof (rule filter_pushdown_actor_sound)
  show "algebra_laws plain_lib sample_sem" by (simp add: sample_sem_def graph_laws)
  show "and_law sample_sem" by (simp add: and_law_def sample_sem_def graph_semantics_def)
  show "map_law sample_sem map_filters" by (rule map_filters_law)
  have "split_filter (Op_filter sample_join sample_filter) = Op_filter sample_join sample_filter"
    by (simp add: split_filter_def sample_filter_def equal_terms_def)
  moreover obtain n where "maxIterations sample_options = Suc (Suc n)" using sample_passes by blast
  ultimately show "attempts_are_safe sample_sem sample_options plain_lib map_filters (\<lambda>_. []) sample_shape None False
      (Op_filter sample_join sample_filter)"
    by (simp add: attempts_are_safe_def run_passes_def pure_pass_def sample_no_filters sample_attempt)
qed

text \<open>When a join has inputs with all variables of a filter and inputs with only some of them, the
  pushdown also filters the latter on their own: if the filter fails for solutions that do not bind
  one of the variables (as a comparison does), and these inputs never bind it, the rewritten query has
  no solution at all, whatever the solutions of the original one are.\<close>

theorem pushdown_join_loses_solutions:
  assumes laws: "algebra_laws lib sem" and e: "\<not> isExpressionFalse e" "\<not> is_existence e"
    and full: "fullyOverlapping lib vs qs \<noteq> []" and part: "partiallyOverlapping lib vs qs \<noteq> []"
    and strict: "\<And>f. f v = None \<Longrightarrow> \<not> sem_holds sem e f"
    and v: "list_all (\<lambda>i. v \<notin> set (inScopeVariables lib i)) (partiallyOverlapping lib vs qs)"
  shows "eval sem (snd (filterPushdown opts lib e vs (Op_join qs))) = {#}"
proof -
  have "unbound_in {v} (join_all (map (eval sem) (partiallyOverlapping lib vs qs)))"
  proof (rule unbound_in_join_all)
    fix A assume "A \<in> set (map (eval sem) (partiallyOverlapping lib vs qs))"
    then obtain i where i: "i \<in> set (partiallyOverlapping lib vs qs)" "A = eval sem i" by auto
    with v show "unbound_in {v} A"
      using scope_unbound [OF laws, of "[v]" i] by (simp add: list_all_iff)
  qed
  then have none: "filter_mset (sem_holds sem e) (join_all (map (eval sem) (partiallyOverlapping lib vs qs))) = {#}"
    by (intro filter_mset_none strict) (simp add: unbound_in_def)
  from full have "qs \<noteq> []" by (auto simp: fullyOverlapping_def)
  with e have pushed: "snd (filterPushdown opts lib e vs (Op_join qs)) = snd (regroup (createJoin lib) e
      (map (\<lambda>i. snd (filterPushdown opts lib e vs i)) (fullyOverlapping lib vs qs))
      (partiallyOverlapping lib vs qs) (notOverlapping lib vs qs))"
    by (simp add: pushdown_guard_def)
  show ?thesis
    unfolding pushed regroup_join [OF laws] none using part by simp
qed

definition sample_equality :: "unit expr" where
  "sample_equality = equal_terms (Variable ''x'') (Variable ''y'')"

definition sample_self :: "unit operation list" where
  "sample_self = [pat (Variable ''x'') ''name'' (Variable ''y''), pat (Variable ''x'') ''knows'' (Variable ''z'')]"

lemma sample_self_solution:
  "[''x'' \<mapsto> iri ''b'', ''y'' \<mapsto> iri ''b'', ''z'' \<mapsto> iri ''c''] \<in>#
     eval sample_sem (Op_filter (Op_join sample_self) sample_equality)"
proof -
  have "[''x'' \<mapsto> iri ''b'', ''y'' \<mapsto> iri ''b''] \<in># eval sample_sem (sample_self ! 0)"
    "[''x'' \<mapsto> iri ''b'', ''z'' \<mapsto> iri ''c''] \<in># eval sample_sem (sample_self ! 1)"
    by (simp_all add: sample_self_def sample_defs graph_semantics_def graph_base_def List.map_filter_def)
  then have "[''x'' \<mapsto> iri ''b'', ''y'' \<mapsto> iri ''b''] ++ [''x'' \<mapsto> iri ''b'', ''z'' \<mapsto> iri ''c''] \<in>#
      eval sample_sem (Op_join sample_self)"
    by (simp add: sample_self_def join_all_Cons) (fastforce simp: join_sols_mem compatible_def)
  moreover have "[''x'' \<mapsto> iri ''b'', ''y'' \<mapsto> iri ''b''] ++ [''x'' \<mapsto> iri ''b'', ''z'' \<mapsto> iri ''c''] =
      [''x'' \<mapsto> iri ''b'', ''y'' \<mapsto> iri ''b'', ''z'' \<mapsto> iri ''c'']"
    by (simp add: fun_eq_iff map_add_def)
  ultimately show ?thesis
    by (simp add: sample_equality_def equal_terms_def sample_sem_def graph_semantics_def term_in_def)
qed

lemma pushdown_join_loses_solutions_witness:
  "eval sample_sem (snd (filterPushdown sample_options plain_lib sample_equality [''x'', ''y''] (Op_join sample_self))) = {#} \<and>
   eval sample_sem (Op_filter (Op_join sample_self) sample_equality) \<noteq> {#}"
proof
  show "eval sample_sem (snd (filterPushdown sample_options plain_lib sample_equality [''x'', ''y''] (Op_join sample_self))) = {#}"
  proof (rule pushdown_join_loses_solutions)
    show "algebra_laws plain_lib sample_sem" by (simp add: sample_sem_def graph_laws)
    show "\<And>f. f ''y'' = None \<Longrightarrow> \<not> sem_holds sample_sem sample_equality f"
      by (auto simp: sample_equality_def equal_terms_def sample_sem_def graph_semantics_def term_in_def)
  qed (simp_all add: sample_equality_def equal_terms_def isExpressionFalse_def is_existence_def
      sample_self_def fullyOverlapping_def partiallyOverlapping_def plain_lib_def pat_def iri_def
      variablesSubSetOf_def)
  show "eval sample_sem (Op_filter (Op_join sample_self) sample_equality) \<noteq> {#}"
    using sample_self_solution by fastforce
qed

end
