(* ===== verification/Aggregators.thy ===== *)
theory Aggregators
  imports RDF_Terms Bindings
begin

text \<open>
  The aggregators of \<open>GROUP BY\<close>: the base class \<open>AggregateEvaluator\<close> of
  \<open>packages/bus-bindings-aggregator-factory\<close> and the aggregators \<open>count\<close>, \<open>sum\<close>, \<open>avg\<close>, \<open>min\<close>,
  \<open>max\<close>, \<open>sample\<close>, \<open>group_concat\<close> and the wildcard count of
  \<open>packages/actor-bindings-aggregator-factory-*\<close>.

  What an aggregator is constructed with is an argument: the outcome of the expression evaluator for
  a solution, the arithmetic functions on numeric literals, and the term comparator.  A thrown error
  is \<open>None\<close>.  Counts are JavaScript numbers, natural numbers here.
\<close>

section \<open>The base class\<close>

text \<open>What evaluating the aggregate's expression gives: a term, \<open>undefined\<close>, an
  \<open>UnboundVariableError\<close> or another error.\<close>

datatype evaluation = Ev_term rdf_term | Ev_undefined | Ev_unbound_error | Ev_error

text \<open>An aggregator of the subclass: \<open>putTerm\<close>, \<open>termResult\<close> of a defined state, and
  \<open>emptyValueTerm\<close>.  The state is \<open>undefined\<close> (\<open>None\<close>) until a first term is put.\<close>

record 's aggregator =
  putTerm :: "rdf_term \<Rightarrow> 's option \<Rightarrow> 's option"
  termResult :: "'s \<Rightarrow> rdf_term option option"
  emptyValueTerm :: "rdf_term option"
  ag_distinct :: bool
  throwError :: bool

record 's agg_state =
  errorOccurred :: bool
  variableValues :: "string list"
  agg_value :: "'s option"

definition new_aggregator :: "'s agg_state" where
  "new_aggregator = \<lparr>errorOccurred = False, variableValues = [], agg_value = None\<rparr>"

definition emptyValue :: "'s aggregator \<Rightarrow> rdf_term option option" where
  "emptyValue ag =
     (if emptyValueTerm ag = None \<and> throwError ag then None else Some (emptyValueTerm ag))"

definition safeThrow :: "'s aggregator \<Rightarrow> 's agg_state \<Rightarrow> 's agg_state option" where
  "safeThrow ag st = (if throwError ag then None else Some (st\<lparr>errorOccurred := True\<rparr>))"

text \<open>\<open>putBindings\<close>, once the expression has been evaluated; \<open>termToString\<close> is of the package
  rdf-string.\<close>

definition putBindings ::
  "(rdf_term \<Rightarrow> string) \<Rightarrow> 's aggregator \<Rightarrow> evaluation \<Rightarrow> 's agg_state \<Rightarrow> 's agg_state option" where
  "putBindings termToString ag ev st =
     (if errorOccurred st then Some st
      else case ev of
        Ev_undefined \<Rightarrow> Some st
      | Ev_unbound_error \<Rightarrow> Some st
      | Ev_error \<Rightarrow> safeThrow ag st
      | Ev_term t \<Rightarrow>
          if \<not> ag_distinct ag \<or> \<not> List.member (variableValues st) (termToString t)
          then (case putTerm ag t (agg_value st) of
                  None \<Rightarrow> safeThrow ag st
                | Some v \<Rightarrow>
                    Some (st\<lparr>agg_value := Some v,
                             variableValues :=
                               (if ag_distinct ag then termToString t # variableValues st
                                else variableValues st)\<rparr>))
          else Some st)"

definition agg_result :: "'s aggregator \<Rightarrow> 's agg_state \<Rightarrow> rdf_term option option" where
  "agg_result ag st =
     (if errorOccurred st then Some None
      else case agg_value st of None \<Rightarrow> emptyValue ag | Some v \<Rightarrow> termResult ag v)"

fun putAll ::
  "(rdf_term \<Rightarrow> string) \<Rightarrow> 's aggregator \<Rightarrow> evaluation list \<Rightarrow> 's agg_state \<Rightarrow> 's agg_state option" where
  "putAll termToString ag [] st = Some st"
| "putAll termToString ag (ev # evs) st =
     (case putBindings termToString ag ev st of
        None \<Rightarrow> None
      | Some st' \<Rightarrow> putAll termToString ag evs st')"

section \<open>The aggregators\<close>

definition xsd_integer :: string where
  "xsd_integer = xsd @ ''integer''"

definition typedLiteral :: "string \<Rightarrow> string \<Rightarrow> rdf_term" where
  "typedLiteral v ty = Literal v [] ty []"

definition count_aggregator :: "bool \<Rightarrow> bool \<Rightarrow> nat aggregator" where
  "count_aggregator dst throws =
     \<lparr>putTerm = (\<lambda>t s. Some (case s of None \<Rightarrow> 1 | Some n \<Rightarrow> n + 1)),
      termResult = (\<lambda>n. Some (Some (typedLiteral (nat_string n) xsd_integer))),
      emptyValueTerm = Some (typedLiteral ''0'' xsd_integer),
      ag_distinct = dst, throwError = throws\<rparr>"

text \<open>\<open>termToNumericOrError\<close>, with \<open>isSubTypeOf ... SPARQL_NUMERIC\<close> and \<open>transformLiteral\<close> as
  arguments.\<close>

definition termToNumericOrError ::
  "(string \<Rightarrow> bool) \<Rightarrow> (rdf_term \<Rightarrow> 'n option) \<Rightarrow> rdf_term \<Rightarrow> 'n option" where
  "termToNumericOrError is_numeric transform t =
     (case t of
        Literal v l datatype d \<Rightarrow> if is_numeric datatype then transform t else None
      | _ \<Rightarrow> None)"

definition sum_aggregator ::
  "(rdf_term \<Rightarrow> 'n option) \<Rightarrow> ('n \<Rightarrow> 'n \<Rightarrow> 'n option) \<Rightarrow> ('n \<Rightarrow> rdf_term) \<Rightarrow> bool \<Rightarrow> bool \<Rightarrow> 'n aggregator" where
  "sum_aggregator numeric addition toRDF dst throws =
     \<lparr>putTerm = (\<lambda>t s. case s of
          None \<Rightarrow> numeric t
        | Some n \<Rightarrow> Option.bind (numeric t) (\<lambda>m. addition n m)),
      termResult = (\<lambda>n. Some (Some (toRDF n))),
      emptyValueTerm = Some (typedLiteral ''0'' xsd_integer),
      ag_distinct = dst, throwError = throws\<rparr>"

definition average_aggregator ::
  "(rdf_term \<Rightarrow> 'n option) \<Rightarrow> ('n \<Rightarrow> 'n \<Rightarrow> 'n option) \<Rightarrow> ('n \<Rightarrow> nat \<Rightarrow> 'n option) \<Rightarrow>
   ('n \<Rightarrow> rdf_term) \<Rightarrow> bool \<Rightarrow> bool \<Rightarrow> ('n \<times> nat) aggregator" where
  "average_aggregator numeric addition division toRDF dst throws =
     \<lparr>putTerm = (\<lambda>t s. case s of
          None \<Rightarrow> map_option (\<lambda>n. (n, 1)) (numeric t)
        | Some (n, cnt) \<Rightarrow>
            Option.bind (numeric t) (\<lambda>m. map_option (\<lambda>r. (r, cnt + 1)) (addition n m))),
      termResult = (\<lambda>(n, cnt). map_option (\<lambda>r. Some (toRDF r)) (division n cnt)),
      emptyValueTerm = Some (typedLiteral ''0'' xsd_integer),
      ag_distinct = dst, throwError = throws\<rparr>"

text \<open>\<open>min\<close> and \<open>max\<close>: \<open>orderTypes\<close> of the term comparator gives -1, 0 or 1.\<close>

definition extremum_aggregator ::
  "int \<Rightarrow> (rdf_term \<Rightarrow> rdf_term \<Rightarrow> int) \<Rightarrow> bool \<Rightarrow> bool \<Rightarrow> rdf_term aggregator" where
  "extremum_aggregator sign orderTypes dst throws =
     \<lparr>putTerm = (\<lambda>t s.
          if termType t \<noteq> ''Literal'' then None
          else case s of
            None \<Rightarrow> Some t
          | Some u \<Rightarrow> if orderTypes u t = sign then Some t else Some u),
      termResult = (\<lambda>t. Some (Some t)),
      emptyValueTerm = None,
      ag_distinct = dst, throwError = throws\<rparr>"

definition max_aggregator :: "(rdf_term \<Rightarrow> rdf_term \<Rightarrow> int) \<Rightarrow> bool \<Rightarrow> bool \<Rightarrow> rdf_term aggregator" where
  "max_aggregator = extremum_aggregator (-1)"

definition min_aggregator :: "(rdf_term \<Rightarrow> rdf_term \<Rightarrow> int) \<Rightarrow> bool \<Rightarrow> bool \<Rightarrow> rdf_term aggregator" where
  "min_aggregator = extremum_aggregator 1"

definition sample_aggregator :: "bool \<Rightarrow> bool \<Rightarrow> rdf_term aggregator" where
  "sample_aggregator dst throws =
     \<lparr>putTerm = (\<lambda>t s. case s of None \<Rightarrow> Some t | Some u \<Rightarrow> Some u),
      termResult = (\<lambda>t. Some (Some t)), emptyValueTerm = None,
      ag_distinct = dst, throwError = throws\<rparr>"

definition group_concat_aggregator :: "string option \<Rightarrow> bool \<Rightarrow> bool \<Rightarrow> string aggregator" where
  "group_concat_aggregator separator dst throws =
     \<lparr>putTerm = (\<lambda>t s. case s of
          None \<Rightarrow> Some (term_value t)
        | Some c \<Rightarrow> Some (c @ (case separator of None \<Rightarrow> '' '' | Some sep \<Rightarrow> sep) @ term_value t)),
      termResult = (\<lambda>c. Some (Some (typedLiteral c (xsd @ ''string'')))),
      emptyValueTerm = Some (typedLiteral [] (xsd @ ''string'')),
      ag_distinct = dst, throwError = throws\<rparr>"

text \<open>The wildcard count replaces \<open>putBindings\<close>: its \<open>bindingValues\<close> maps the joined variables to the
  set of joined terms.  The sort of the bindings by \<open>localeCompare\<close> is the argument \<open>sort_vars\<close>.\<close>

record wildcard_state =
  bindingValues :: "(string, string list) jsmap"
  wildcard_count :: "nat option"

definition handleDistinct ::
  "(rdf_term \<Rightarrow> string) \<Rightarrow> ((string \<times> rdf_term) list \<Rightarrow> (string \<times> rdf_term) list) \<Rightarrow> bool \<Rightarrow>
   (rdf_term, 'v) bindings \<Rightarrow> wildcard_state \<Rightarrow> bool \<times> wildcard_state" where
  "handleDistinct termToString sort_vars dst b st =
     (if dst
      then let bindingList = sort_vars (entries b);
               variables = join_strings '','' (map fst bindingList);
               terms = join_strings '','' (map (termToString \<circ> snd) bindingList);
               seen = (case js_get (bindingValues st) variables of None \<Rightarrow> [] | Some s \<Rightarrow> s)
           in (List.member seen terms,
               st\<lparr>bindingValues := js_set (bindingValues st) variables
                    (if List.member seen terms then seen else seen @ [terms])\<rparr>)
      else (False, st))"

definition putBindings_wildcard ::
  "(rdf_term \<Rightarrow> string) \<Rightarrow> ((string \<times> rdf_term) list \<Rightarrow> (string \<times> rdf_term) list) \<Rightarrow> bool \<Rightarrow>
   (rdf_term, 'v) bindings \<Rightarrow> wildcard_state \<Rightarrow> wildcard_state" where
  "putBindings_wildcard termToString sort_vars dst b st =
     (case handleDistinct termToString sort_vars dst b st of
        (skip, st') \<Rightarrow>
          if skip then st'
          else st'\<lparr>wildcard_count := Some (case wildcard_count st' of None \<Rightarrow> 1 | Some n \<Rightarrow> n + 1)\<rparr>)"

definition wildcard_result :: "wildcard_state \<Rightarrow> rdf_term" where
  "wildcard_result st =
     (case wildcard_count st of
        None \<Rightarrow> typedLiteral ''0'' xsd_integer
      | Some n \<Rightarrow> typedLiteral (nat_string n) xsd_integer)"

section \<open>What the aggregators compute\<close>

text \<open>The terms that reach \<open>putTerm\<close>: with \<open>distinct\<close>, the first of each string.\<close>

fun fresh_terms :: "(rdf_term \<Rightarrow> string) \<Rightarrow> bool \<Rightarrow> string list \<Rightarrow> evaluation list \<Rightarrow> rdf_term list" where
  "fresh_terms tts dst seen [] = []"
| "fresh_terms tts dst seen (Ev_term t # evs) =
     (if \<not> dst \<or> \<not> List.member seen (tts t)
      then t # fresh_terms tts dst (if dst then tts t # seen else seen) evs
      else fresh_terms tts dst seen evs)"
| "fresh_terms tts dst seen (_ # evs) = fresh_terms tts dst seen evs"

fun put_terms :: "'s aggregator \<Rightarrow> rdf_term list \<Rightarrow> 's option \<Rightarrow> 's option option" where
  "put_terms ag [] s = Some s"
| "put_terms ag (t # ts) s = (case putTerm ag t s of None \<Rightarrow> None | Some v \<Rightarrow> put_terms ag ts (Some v))"

definition aggregate :: "(rdf_term \<Rightarrow> string) \<Rightarrow> 's aggregator \<Rightarrow> evaluation list \<Rightarrow> rdf_term option option" where
  "aggregate tts ag evs = Option.bind (putAll tts ag evs new_aggregator) (agg_result ag)"

lemma putAll_error: "errorOccurred st \<Longrightarrow> putAll tts ag evs st = Some st"
  by (induction evs) (simp_all add: putBindings_def)

lemma putAll_fold:
  "\<not> throwError ag \<Longrightarrow> \<not> errorOccurred st \<Longrightarrow>
     \<exists>st'. putAll tts ag evs st = Some st' \<and>
       (if Ev_error \<in> set evs then errorOccurred st'
        else case put_terms ag (fresh_terms tts (ag_distinct ag) (variableValues st) evs) (agg_value st) of
               None \<Rightarrow> errorOccurred st'
             | Some s \<Rightarrow> \<not> errorOccurred st' \<and> agg_value st' = s)"
proof (induction evs arbitrary: st)
  case Nil
  then show ?case by simp
next
  case (Cons ev evs)
  show ?case
  proof (cases ev)
    case (Ev_term t)
    show ?thesis
    proof (cases "\<not> ag_distinct ag \<or> \<not> List.member (variableValues st) (tts t)")
      case True
      show ?thesis
      proof (cases "putTerm ag t (agg_value st)")
        case None
        with True Cons.prems Ev_term show ?thesis by (simp add: putBindings_def safeThrow_def putAll_error)
      next
        case (Some v)
        define st' where "st' = st\<lparr>agg_value := Some v, variableValues :=
          (if ag_distinct ag then tts t # variableValues st else variableValues st)\<rparr>"
        have step: "putBindings tts ag ev st = Some st'"
          using True Cons.prems Some Ev_term by (simp add: putBindings_def st'_def)
        have all: "putAll tts ag (ev # evs) st = putAll tts ag evs st'" by (simp add: step)
        have fresh: "fresh_terms tts (ag_distinct ag) (variableValues st) (ev # evs) =
            t # fresh_terms tts (ag_distinct ag) (variableValues st') evs"
          using True by (simp add: Ev_term st'_def)
        have put: "put_terms ag (t # ts) (agg_value st) = put_terms ag ts (agg_value st')" for ts
          using Some by (simp add: st'_def)
        have "Ev_error \<in> set (ev # evs) \<longleftrightarrow> Ev_error \<in> set evs" by (simp add: Ev_term)
        then show ?thesis
          unfolding all fresh put using Cons.IH [of st'] Cons.prems by (simp add: st'_def)
      qed
    next
      case False
      then have all: "putAll tts ag (ev # evs) st = putAll tts ag evs st"
        by (simp add: putBindings_def Ev_term)
      have fresh: "fresh_terms tts (ag_distinct ag) (variableValues st) (ev # evs) =
          fresh_terms tts (ag_distinct ag) (variableValues st) evs"
        using False by (simp add: Ev_term)
      have "Ev_error \<in> set (ev # evs) \<longleftrightarrow> Ev_error \<in> set evs" by (simp add: Ev_term)
      then show ?thesis
        unfolding all fresh using Cons.IH [of st] Cons.prems by simp
    qed
  next
    case Ev_error
    with Cons.prems show ?thesis by (simp add: putBindings_def safeThrow_def putAll_error)
  next
    case Ev_undefined
    show ?thesis unfolding Ev_undefined fresh_terms.simps using Cons.IH [of st] Cons.prems
      by (simp add: putBindings_def split del: if_split)
  next
    case Ev_unbound_error
    show ?thesis unfolding Ev_unbound_error fresh_terms.simps using Cons.IH [of st] Cons.prems
      by (simp add: putBindings_def split del: if_split)
  qed
qed

lemma aggregate_fold:
  assumes "\<not> throwError ag"
  shows "aggregate tts ag evs =
    (if Ev_error \<in> set evs then Some None
     else case put_terms ag (fresh_terms tts (ag_distinct ag) [] evs) None of
            None \<Rightarrow> Some None
          | Some None \<Rightarrow> Some (emptyValueTerm ag)
          | Some (Some v) \<Rightarrow> termResult ag v)"
  using putAll_fold [OF assms, of new_aggregator tts evs] assms
  by (auto simp: aggregate_def agg_result_def new_aggregator_def emptyValue_def split: option.splits if_splits)

definition terms_of :: "evaluation list \<Rightarrow> rdf_term list" where
  "terms_of evs = List.map_filter (\<lambda>ev. case ev of Ev_term t \<Rightarrow> Some t | _ \<Rightarrow> None) evs"

lemma terms_of_simps [simp]:
  "terms_of [] = []"
  "terms_of (Ev_term t # evs) = t # terms_of evs"
  "terms_of (Ev_undefined # evs) = terms_of evs"
  "terms_of (Ev_unbound_error # evs) = terms_of evs"
  "terms_of (Ev_error # evs) = terms_of evs"
  by (simp_all add: terms_of_def List.map_filter_def)

lemma fresh_all: "fresh_terms tts False seen evs = terms_of evs"
  by (induction tts False seen evs rule: fresh_terms.induct) simp_all

lemma fresh_distinct:
  "distinct (map tts (fresh_terms tts True seen evs)) \<and>
   tts ` set (fresh_terms tts True seen evs) = tts ` set (terms_of evs) - set seen"
  by (induction tts True seen evs rule: fresh_terms.induct) auto

lemma fresh_subset: "set (fresh_terms tts dst seen evs) \<subseteq> set (terms_of evs)"
  by (induction tts dst seen evs rule: fresh_terms.induct) auto

lemma count_put_terms:
  "put_terms (count_aggregator dst throws) ts s =
     Some (if ts = [] then s else Some (length ts + (case s of None \<Rightarrow> 0 | Some n \<Rightarrow> n)))"
  by (induction ts arbitrary: s) (auto simp: count_aggregator_def split: option.splits)

lemma count_aggregator_simps [simp]:
  "ag_distinct (count_aggregator dst throws) = dst"
  "throwError (count_aggregator dst throws) = throws"
  "termResult (count_aggregator dst throws) n = Some (Some (typedLiteral (nat_string n) xsd_integer))"
  "emptyValueTerm (count_aggregator dst throws) = Some (typedLiteral ''0'' xsd_integer)"
  by (simp_all add: count_aggregator_def)

text \<open>The count aggregator gives the number of solutions for which its expression has a value, with
  \<open>distinct\<close> the number of different values (as strings), \<open>0\<close> when there is none, and no value when the
  expression fails for some solution with another error than an unbound variable.\<close>

theorem count_is_number_of_values:
  "aggregate tts (count_aggregator dst False) evs =
     Some (if Ev_error \<in> set evs then None
           else Some (typedLiteral
             (nat_string (if dst then card (tts ` set (terms_of evs)) else length (terms_of evs)))
             xsd_integer))"
proof -
  have len: "length (fresh_terms tts dst [] evs) =
      (if dst then card (tts ` set (terms_of evs)) else length (terms_of evs))"
  proof (cases dst)
    case True
    with fresh_distinct [of tts "[]" evs] show ?thesis
      by (simp) (metis distinct_card length_map set_map)
  qed (simp add: fresh_all)
  have zero: "nat_string 0 = ''0''" by code_simp
  show ?thesis
    unfolding len [symmetric]
    by (simp add: aggregate_fold count_put_terms zero del: put_terms.simps)
qed

lemma extremum_put_terms:
  fixes key :: "rdf_term \<Rightarrow> int"
  assumes key: "\<And>a b. orderTypes a b = (if key a < key b then -1 else if key b < key a then 1 else 0)"
    and sign: "sign = 1 \<or> sign = -1"
    and lits: "list_all (\<lambda>t. termType t = ''Literal'') (u # ts)"
  shows "\<exists>t \<in> set (u # ts). put_terms (extremum_aggregator sign orderTypes dst throws) ts (Some u) = Some (Some t) \<and>
    list_all (\<lambda>x. sign * key t \<le> sign * key x) (u # ts)"
  using lits
proof (induction ts arbitrary: u)
  case Nil
  then show ?case by simp
next
  case (Cons x ts)
  define w where "w = (if orderTypes u x = sign then x else u)"
  have step: "put_terms (extremum_aggregator sign orderTypes dst throws) (x # ts) (Some u) =
      put_terms (extremum_aggregator sign orderTypes dst throws) ts (Some w)"
    using Cons.prems by (simp add: extremum_aggregator_def w_def)
  have w: "w = u \<or> w = x" "sign * key w \<le> sign * key u" "sign * key w \<le> sign * key x"
    using sign by (auto simp: key w_def)
  have "list_all (\<lambda>t. termType t = ''Literal'') (w # ts)" using Cons.prems w(1) by auto
  from Cons.IH [OF this] obtain t where t: "t \<in> set (w # ts)"
    "put_terms (extremum_aggregator sign orderTypes dst throws) ts (Some w) = Some (Some t)"
    "list_all (\<lambda>x. sign * key t \<le> sign * key x) (w # ts)"
    by blast
  then have le: "sign * key t \<le> sign * key w" by simp
  show ?case
  proof (intro bexI conjI)
    show "t \<in> set (u # x # ts)" using t(1) w(1) by auto
    show "put_terms (extremum_aggregator sign orderTypes dst throws) (x # ts) (Some u) = Some (Some t)"
      using step t(2) by simp
    show "list_all (\<lambda>x. sign * key t \<le> sign * key x) (u # x # ts)"
      using t(3) le w(2,3) by (simp add: list_all_iff)
  qed
qed

text \<open>The min aggregator gives a value that is least, and the max aggregator one that is greatest, in
  the order of the term comparator, among the values of the expression, when all of them are
  literals.\<close>

theorem extremum_is_extreme:
  fixes key :: "rdf_term \<Rightarrow> int"
  assumes order: "\<And>a b. orderTypes a b = (if key a < key b then -1 else if key b < key a then 1 else 0)"
    and lits: "list_all (\<lambda>t. termType t = ''Literal'') (terms_of evs)"
    and some: "terms_of evs \<noteq> []" and ok: "Ev_error \<notin> set evs"
  shows "(\<exists>t \<in> set (terms_of evs). aggregate tts (min_aggregator orderTypes False False) evs = Some (Some t) \<and>
      list_all (\<lambda>x. key t \<le> key x) (terms_of evs)) \<and>
    (\<exists>t \<in> set (terms_of evs). aggregate tts (max_aggregator orderTypes False False) evs = Some (Some t) \<and>
      list_all (\<lambda>x. key x \<le> key t) (terms_of evs))"
proof -
  have "\<exists>t \<in> set (terms_of evs). aggregate tts (extremum_aggregator sign orderTypes False False) evs = Some (Some t) \<and>
      list_all (\<lambda>x. sign * key t \<le> sign * key x) (terms_of evs)" if sign: "sign = 1 \<or> sign = -1" for sign
  proof -
    from some obtain u ts where u: "terms_of evs = u # ts" by (cases "terms_of evs") auto
    from lits have "list_all (\<lambda>t. termType t = ''Literal'') (u # ts)" by (simp add: u)
    from extremum_put_terms [where orderTypes = orderTypes and key = key and dst = False and throws = False,
        OF order sign this] obtain t where
      t: "t \<in> set (u # ts)" "list_all (\<lambda>x. sign * key t \<le> sign * key x) (u # ts)"
      "put_terms (extremum_aggregator sign orderTypes False False) ts (Some u) = Some (Some t)" by blast
    have "put_terms (extremum_aggregator sign orderTypes False False) (u # ts) None = Some (Some t)"
      using t(3) lits by (simp add: u extremum_aggregator_def)
    with t(1,2) ok show ?thesis
      unfolding u by (intro bexI [of _ t]) (auto simp: aggregate_fold extremum_aggregator_def fresh_all u)
  qed
  from this [of 1] this [of "-1"] show ?thesis by (simp add: min_aggregator_def max_aggregator_def)
qed

definition length_order :: "rdf_term \<Rightarrow> rdf_term \<Rightarrow> int" where
  "length_order a b =
     (if length (term_value a) < length (term_value b) then -1
      else if length (term_value b) < length (term_value a) then 1 else 0)"

definition sample_evaluations :: "evaluation list" where
  "sample_evaluations = [Ev_term (typedLiteral ''bb'' (xsd @ ''string'')), Ev_unbound_error,
     Ev_term (typedLiteral ''a'' (xsd @ ''string'')), Ev_term (typedLiteral ''ccc'' (xsd @ ''string''))]"

lemma extremum_is_extreme_witness:
  "(\<exists>t \<in> set (terms_of sample_evaluations).
      aggregate term_value (min_aggregator length_order False False) sample_evaluations = Some (Some t) \<and>
      list_all (\<lambda>x. int (length (term_value t)) \<le> int (length (term_value x))) (terms_of sample_evaluations)) \<and>
   (\<exists>t \<in> set (terms_of sample_evaluations).
      aggregate term_value (max_aggregator length_order False False) sample_evaluations = Some (Some t) \<and>
      list_all (\<lambda>x. int (length (term_value x)) \<le> int (length (term_value t))) (terms_of sample_evaluations))"
  by (rule extremum_is_extreme) (simp_all add: length_order_def sample_evaluations_def typedLiteral_def)

end
