(* ===== verification/Group_State.thy ===== *)
theory Group_State
  imports Aggregators
begin

text \<open>
  \<open>GROUP BY\<close>: \<open>packages/actor-query-operation-group/lib/GroupsState.ts\<close>, with its concurrent
  consumption of bindings.

  \<open>consumeBindings\<close> starts an asynchronous task per solution: the first solution of a group creates the
  aggregators of the group, the others wait for this and then put into them.  A task is the part of
  its body that is still to run, the aggregates it has not put into yet.  The tasks' steps and the
  calls of \<open>consumeBindings\<close> and \<open>collectResults\<close> interleave in any order: they are the events of the
  step function \<open>group_step\<close>.  A promise of \<open>groupsInitializer\<close> is pending, with the local variables
  of its initializer, or resolved.

  The bindings are a type \<open>'b\<close> and the aggregators a type \<open>'a\<close>, whose operations are fields of the
  record \<open>group_env\<close>; \<open>pattern_env\<close> gives the fields that the code fixes.
\<close>

section \<open>State\<close>

record ('b, 'a) group =
  group_bindings :: 'b
  group_aggregators :: "(string, 'a) jsmap"

datatype ('b, 'a) group_promise = Pending 'b "(string, 'a) jsmap" | Resolved

record 'b group_task =
  task_hash :: string
  task_bindings :: 'b
  task_init :: bool
  task_remaining :: "string list"

record ('b, 'a) groups_state =
  groups :: "(string, ('b, 'a) group) jsmap"
  groupsInitializer :: "(string, ('b, 'a) group_promise) jsmap"
  waitCounter :: int
  resultHasBeenCalled :: bool
  group_tasks :: "'b group_task list"
  waitResolved :: "'b list option"

record ('b, 'a) group_env =
  env_hash :: "'b \<Rightarrow> string"
  env_grouper :: "'b \<Rightarrow> 'b"
  env_no_variables :: bool
  env_aggregates :: "string list"
  env_set :: "'b \<Rightarrow> string \<Rightarrow> rdf_term \<Rightarrow> 'b"
  env_bindings :: "(string \<times> rdf_term) list \<Rightarrow> 'b"
  env_new :: "string \<Rightarrow> 'a"
  env_put :: "string \<Rightarrow> 'b \<Rightarrow> 'a \<Rightarrow> 'a"
  env_result :: "string \<Rightarrow> 'a \<Rightarrow> rdf_term option"

section \<open>Operations\<close>

definition new_groups_state :: "('b, 'a) groups_state" where
  "new_groups_state =
     \<lparr>groups = [], groupsInitializer = [], waitCounter = 1, resultHasBeenCalled = False,
      group_tasks = [], waitResolved = None\<rparr>"

text \<open>The grouping bindings and their hash.\<close>

definition grouper :: "string list \<Rightarrow> (rdf_term, 'v) bindings \<Rightarrow> (rdf_term, 'v) bindings" where
  "grouper groupVariables b = b_filter (\<lambda>t v. List.member groupVariables v) b"

definition hashBindings ::
  "(rdf_term \<Rightarrow> string) \<Rightarrow> string list \<Rightarrow> (rdf_term, 'v) bindings \<Rightarrow> string" where
  "hashBindings termToString variables b = bindingsToCompactString termToString b variables"

text \<open>\<open>handleResultCollection\<close>: the row of a group, and the single row for no input.\<close>

fun group_row ::
  "('b, 'a) group_env \<Rightarrow> (string \<times> 'a) list \<Rightarrow> 'b \<Rightarrow> 'b" where
  "group_row env [] b = b"
| "group_row env ((v, ag) # rest) b =
     group_row env rest (case env_result env v ag of None \<Rightarrow> b | Some t \<Rightarrow> env_set env b v t)"

definition empty_row :: "('b, 'a) group_env \<Rightarrow> 'b" where
  "empty_row env =
     env_bindings env
       (List.map_filter (\<lambda>v. map_option (\<lambda>t. (v, t)) (env_result env v (env_new env v))) (env_aggregates env))"

definition handleResultCollection :: "('b, 'a) group_env \<Rightarrow> ('b, 'a) groups_state \<Rightarrow> 'b list" where
  "handleResultCollection env st =
     (let rows = map (\<lambda>(h, g). group_row env (group_aggregators g) (group_bindings g)) (groups st)
      in if length rows = 0 \<and> env_no_variables env then [empty_row env] else rows)"

definition subtractWaitCounterAndCollect ::
  "('b, 'a) group_env \<Rightarrow> ('b, 'a) groups_state \<Rightarrow> ('b, 'a) groups_state" where
  "subtractWaitCounterAndCollect env st =
     (let st' = st\<lparr>waitCounter := waitCounter st - 1\<rparr>
      in if waitCounter st' = 0 then st'\<lparr>waitResolved := Some (handleResultCollection env st')\<rparr> else st')"

text \<open>The part of \<open>consumeBindings\<close> that runs at the call; \<open>None\<close> is the rejection by
  \<open>resultCheck\<close>.\<close>

definition consumeBindings ::
  "('b, 'a) group_env \<Rightarrow> 'b \<Rightarrow> ('b, 'a) groups_state \<Rightarrow> ('b, 'a) groups_state option" where
  "consumeBindings env b st =
     (if resultHasBeenCalled st then None
      else
        let h = env_hash env (env_grouper env b);
            st1 = st\<lparr>waitCounter := waitCounter st + 1\<rparr>
        in Some (case js_get (groupsInitializer st) h of
             Some p \<Rightarrow>
               st1\<lparr>group_tasks := group_tasks st @
                 [\<lparr>task_hash = h, task_bindings = b, task_init = False, task_remaining = env_aggregates env\<rparr>]\<rparr>
           | None \<Rightarrow>
               st1\<lparr>groupsInitializer := js_set (groupsInitializer st) h (Pending (env_grouper env b) []),
                   group_tasks := group_tasks st @
                     [\<lparr>task_hash = h, task_bindings = b, task_init = True, task_remaining = env_aggregates env\<rparr>]\<rparr>))"

text \<open>A task puts into one of its aggregates: \<open>None\<close> when it cannot run yet.\<close>

definition put_step ::
  "('b, 'a) group_env \<Rightarrow> 'b group_task \<Rightarrow> string \<Rightarrow> ('b, 'a) groups_state \<Rightarrow> ('b, 'a) groups_state option" where
  "put_step env t a st =
     (case js_get (groupsInitializer st) (task_hash t) of
        None \<Rightarrow> None
      | Some (Pending g ags) \<Rightarrow>
          if task_init t
          then Some (st\<lparr>groupsInitializer := js_set (groupsInitializer st) (task_hash t)
                 (Pending g (js_set ags a (env_put env a (task_bindings t) (env_new env a))))\<rparr>)
          else None
      | Some Resolved \<Rightarrow>
          if task_init t then None
          else (case js_get (groups st) (task_hash t) of
                  None \<Rightarrow> None
                | Some g \<Rightarrow>
                    (case js_get (group_aggregators g) a of
                       None \<Rightarrow> None
                     | Some ag \<Rightarrow>
                         Some (st\<lparr>groups := js_set (groups st) (task_hash t)
                           (g\<lparr>group_aggregators := js_set (group_aggregators g) a
                                (env_put env a (task_bindings t) ag)\<rparr>)\<rparr>))))"

text \<open>A task that has put into all aggregates: the initializer stores the group, then the counter goes
  down; \<open>None\<close> when a task still has to wait for the group.\<close>

definition finish_task ::
  "'b group_task \<Rightarrow> ('b, 'a) groups_state \<Rightarrow> ('b, 'a) groups_state option" where
  "finish_task t st =
     (case js_get (groupsInitializer st) (task_hash t) of
        None \<Rightarrow> None
      | Some (Pending g ags) \<Rightarrow>
          if task_init t
          then Some (st\<lparr>groups := js_set (groups st) (task_hash t) \<lparr>group_bindings = g, group_aggregators = ags\<rparr>,
                        groupsInitializer := js_set (groupsInitializer st) (task_hash t) Resolved\<rparr>)
          else None
      | Some Resolved \<Rightarrow> if task_init t then None else Some st)"

definition collectResults ::
  "('b, 'a) group_env \<Rightarrow> ('b, 'a) groups_state \<Rightarrow> ('b, 'a) groups_state option" where
  "collectResults env st =
     (if resultHasBeenCalled st then None
      else Some (subtractWaitCounterAndCollect env (st\<lparr>resultHasBeenCalled := True\<rparr>)))"

datatype 'b group_event = Consume 'b | Put_aggregate nat string | Finish nat | Collect

definition remove_nth :: "nat \<Rightarrow> 'c list \<Rightarrow> 'c list" where
  "remove_nth i xs = take i xs @ drop (Suc i) xs"

fun group_step ::
  "('b, 'a) group_env \<Rightarrow> 'b group_event \<Rightarrow> ('b, 'a) groups_state \<Rightarrow> ('b, 'a) groups_state option" where
  "group_step env (Consume b) st = consumeBindings env b st"
| "group_step env Collect st = collectResults env st"
| "group_step env (Put_aggregate i a) st =
     (if i < length (group_tasks st) \<and> List.member (task_remaining (group_tasks st ! i)) a
      then map_option (\<lambda>st'. st'\<lparr>group_tasks := (group_tasks st)[i :=
               (group_tasks st ! i)\<lparr>task_remaining := remove1 a (task_remaining (group_tasks st ! i))\<rparr>]\<rparr>)
             (put_step env (group_tasks st ! i) a st)
      else None)"
| "group_step env (Finish i) st =
     (if i < length (group_tasks st) \<and> task_remaining (group_tasks st ! i) = []
      then map_option (\<lambda>st'. subtractWaitCounterAndCollect env (st'\<lparr>group_tasks := remove_nth i (group_tasks st)\<rparr>))
             (finish_task (group_tasks st ! i) st)
      else None)"

text \<open>The fields that the code fixes: bindings, the grouping variables and their hash.\<close>

definition pattern_env ::
  "(rdf_term \<Rightarrow> string) \<Rightarrow> string list \<Rightarrow> string list \<Rightarrow> string list \<Rightarrow> 
   ((string \<times> rdf_term) list \<Rightarrow> (rdf_term, 'v) bindings) \<Rightarrow> (string \<Rightarrow> 'a) \<Rightarrow>
   (string \<Rightarrow> (rdf_term, 'v) bindings \<Rightarrow> 'a \<Rightarrow> 'a) \<Rightarrow> (string \<Rightarrow> 'a \<Rightarrow> rdf_term option) \<Rightarrow>
   ((rdf_term, 'v) bindings, 'a) group_env" where
  "pattern_env termToString groupVariables variablesInner aggregates createBindings new put_ag res =
     \<lparr>env_hash = hashBindings termToString variablesInner, env_grouper = grouper groupVariables,
      env_no_variables = (groupVariables = []), env_aggregates = aggregates,
      env_set = b_set, env_bindings = createBindings,
      env_new = new, env_put = put_ag, env_result = res\<rparr>"

section \<open>Reachable states\<close>

text \<open>The states after a sequence of events, with the solutions consumed so far.\<close>

inductive group_reach :: "('b, 'a) group_env \<Rightarrow> 'b list \<Rightarrow> ('b, 'a) groups_state \<Rightarrow> bool" for env where
  start: "group_reach env [] new_groups_state"
| step: "group_reach env bs st \<Longrightarrow> group_step env ev st = Some st' \<Longrightarrow>
    group_reach env (case ev of Consume b \<Rightarrow> bs @ [b] | _ \<Rightarrow> bs) st'"

section \<open>The invariant\<close>

definition hash_of :: "('b, 'a) group_env \<Rightarrow> 'b \<Rightarrow> string" where
  "hash_of env b = env_hash env (env_grouper env b)"

definition members :: "('b, 'a) group_env \<Rightarrow> 'b list \<Rightarrow> string \<Rightarrow> 'b multiset" where
  "members env bs h = mset (filter (\<lambda>b. hash_of env b = h) bs)"

text \<open>The solutions of a group that are still to be put into an aggregate.\<close>

definition pending :: "'b group_task list \<Rightarrow> string \<Rightarrow> string \<Rightarrow> 'b multiset" where
  "pending ts h a =
     mset (map task_bindings (filter (\<lambda>t. task_hash t = h \<and> a \<in> set (task_remaining t)) ts))"

definition agg_of :: "('b, 'a) groups_state \<Rightarrow> string \<Rightarrow> string \<Rightarrow> 'a option" where
  "agg_of st h a =
     (case js_get (groupsInitializer st) h of
        None \<Rightarrow> None
      | Some (Pending g ags) \<Rightarrow> js_get ags a
      | Some Resolved \<Rightarrow> Option.bind (js_get (groups st) h) (\<lambda>g. js_get (group_aggregators g) a))"

definition accounted :: "('b, 'a) group_env \<Rightarrow> 'b list \<Rightarrow> ('b, 'a) groups_state \<Rightarrow> string \<Rightarrow> string \<Rightarrow> bool" where
  "accounted env bs st h a \<longleftrightarrow>
     (\<exists>l. mset l + pending (group_tasks st) h a = members env bs h \<and>
       (case agg_of st h a of
          None \<Rightarrow> l = []
        | Some x \<Rightarrow> x = fold (env_put env a) l (env_new env a)))"

definition task_ok :: "('b, 'a) group_env \<Rightarrow> ('b, 'a) groups_state \<Rightarrow> 'b group_task \<Rightarrow> bool" where
  "task_ok env st t \<longleftrightarrow>
     hash_of env (task_bindings t) = task_hash t \<and> distinct (task_remaining t) \<and>
     set (task_remaining t) \<subseteq> set (env_aggregates env) \<and>
     (case js_get (groupsInitializer st) (task_hash t) of
        None \<Rightarrow> False | Some (Pending g ags) \<Rightarrow> True | Some Resolved \<Rightarrow> \<not> task_init t)"

text \<open>A group of a hash: created by the one task that initializes it, or complete.\<close>

definition group_ok :: "('b, 'a) group_env \<Rightarrow> 'b list \<Rightarrow> ('b, 'a) groups_state \<Rightarrow> string \<Rightarrow> bool" where
  "group_ok env bs st h \<longleftrightarrow>
     (case js_get (groupsInitializer st) h of
        None \<Rightarrow> js_get (groups st) h = None \<and> h \<notin> hash_of env ` set bs
      | Some (Pending g ags) \<Rightarrow>
          js_get (groups st) h = None \<and> (\<exists>b \<in> set bs. hash_of env b = h \<and> g = env_grouper env b) \<and>
          (\<exists>t \<in> set (group_tasks st). task_init t \<and> task_hash t = h \<and>
             (\<forall>a \<in> set (env_aggregates env). a \<in> set (task_remaining t) \<longleftrightarrow> js_get ags a = None))
      | Some Resolved \<Rightarrow>
          (\<exists>g. js_get (groups st) h = Some g \<and>
             (\<exists>b \<in> set bs. hash_of env b = h \<and> group_bindings g = env_grouper env b) \<and>
             (\<forall>a \<in> set (env_aggregates env). js_get (group_aggregators g) a \<noteq> None)))"

definition counter_ok :: "('b, 'a) group_env \<Rightarrow> ('b, 'a) groups_state \<Rightarrow> bool" where
  "counter_ok env st \<longleftrightarrow>
     (case waitResolved st of
        None \<Rightarrow> waitCounter st = int (length (group_tasks st)) + (if resultHasBeenCalled st then 0 else 1) \<and>
          (resultHasBeenCalled st \<longrightarrow> group_tasks st \<noteq> [])
      | Some rows \<Rightarrow> resultHasBeenCalled st \<and> group_tasks st = [] \<and> rows = handleResultCollection env st)"

definition group_inv :: "('b, 'a) group_env \<Rightarrow> 'b list \<Rightarrow> ('b, 'a) groups_state \<Rightarrow> bool" where
  "group_inv env bs st \<longleftrightarrow>
     (\<forall>h. \<forall>a \<in> set (env_aggregates env). accounted env bs st h a) \<and>
     (\<forall>t \<in> set (group_tasks st). task_ok env st t) \<and>
     distinct (map task_hash (filter task_init (group_tasks st))) \<and>
     (\<forall>h. group_ok env bs st h) \<and> counter_ok env st"

lemma pending_simps [simp]:
  "pending [] h a = {#}"
  "pending (t # ts) h a =
     (if task_hash t = h \<and> a \<in> set (task_remaining t) then {#task_bindings t#} else {#}) + pending ts h a"
  "pending (ts @ us) h a = pending ts h a + pending us h a"
  by (simp_all add: pending_def)

lemma members_snoc:
  "members env (bs @ [b]) h = members env bs h + (if hash_of env b = h then {#b#} else {#})"
  by (simp add: members_def)

lemma list_split_nth:
  "i < length ts \<Longrightarrow>
     \<exists>xs ys. ts = xs @ ts ! i # ys \<and> (\<forall>t. ts[i := t] = xs @ t # ys) \<and> remove_nth i ts = xs @ ys"
  by (rule exI [of _ "take i ts"], rule exI [of _ "drop (Suc i) ts"])
    (simp add: id_take_nth_drop [symmetric] upd_conv_take_nth_drop remove_nth_def)

lemma inv_start: "group_inv env [] new_groups_state"
  by (simp add: group_inv_def new_groups_state_def accounted_def agg_of_def members_def
      group_ok_def counter_ok_def)

lemma subtract_groups [simp]:
  "groups (subtractWaitCounterAndCollect env st) = groups st"
  "groupsInitializer (subtractWaitCounterAndCollect env st) = groupsInitializer st"
  "group_tasks (subtractWaitCounterAndCollect env st) = group_tasks st"
  "resultHasBeenCalled (subtractWaitCounterAndCollect env st) = resultHasBeenCalled st"
  by (simp_all add: subtractWaitCounterAndCollect_def Let_def)

lemma handle_cong: "groups st = groups st' \<Longrightarrow> handleResultCollection env st = handleResultCollection env st'"
  by (simp add: handleResultCollection_def)

text \<open>Decreasing the counter after a task has ended or the results have been asked for.\<close>

lemma counter_subtract:
  assumes "waitResolved st = None"
    and "waitCounter st - 1 = int (length (group_tasks st)) + (if resultHasBeenCalled st then 0 else 1)"
  shows "counter_ok env (subtractWaitCounterAndCollect env st)"
  using assms
  by (auto simp: counter_ok_def subtractWaitCounterAndCollect_def Let_def intro: handle_cong split: if_splits)

lemma inv_parts_cong:
  assumes "groups st' = groups st" "groupsInitializer st' = groupsInitializer st" "group_tasks st' = group_tasks st"
  shows "accounted env bs st' h a = accounted env bs st h a" "task_ok env st' t = task_ok env st t"
    "group_ok env bs st' h = group_ok env bs st h"
  unfolding accounted_def agg_of_def task_ok_def group_ok_def assms by (rule refl)+

lemma inv_collect:
  assumes "group_inv env bs st" and "collectResults env st = Some st'"
  shows "group_inv env bs st'"
proof -
  let ?st = "st\<lparr>resultHasBeenCalled := True\<rparr>"
  from assms have called: "\<not> resultHasBeenCalled st" and st': "st' = subtractWaitCounterAndCollect env ?st"
    by (auto simp: collectResults_def split: if_splits)
  from assms(1) called have "waitResolved st = None" and
    "waitCounter st = int (length (group_tasks st)) + 1"
    by (auto simp: group_inv_def counter_ok_def split: option.splits)
  then have counter: "counter_ok env st'" unfolding st' by (intro counter_subtract) simp_all
  have same: "groups st' = groups st" "groupsInitializer st' = groupsInitializer st" "group_tasks st' = group_tasks st"
    by (simp_all add: st')
  from assms(1) counter show ?thesis
    unfolding group_inv_def inv_parts_cong [OF same] same by blast
qed

lemma inv_unresolved: "group_inv env bs st \<Longrightarrow> \<not> resultHasBeenCalled st \<or> group_tasks st \<noteq> [] \<Longrightarrow>
    waitResolved st = None \<and>
    waitCounter st = int (length (group_tasks st)) + (if resultHasBeenCalled st then 0 else 1)"
  by (auto simp: group_inv_def counter_ok_def split: option.splits)

lemma agg_of_cong:
  "js_get (groupsInitializer st') h = js_get (groupsInitializer st) h \<Longrightarrow>
     js_get (groups st') h = js_get (groups st) h \<Longrightarrow> agg_of st' h a = agg_of st h a"
  by (simp only: agg_of_def)

lemma accounted_same:
  assumes "accounted env bs st h a" and "agg_of st' h a = agg_of st h a"
    and "pending (group_tasks st') h a = pending (group_tasks st) h a + N"
    and "members env bs' h = members env bs h + N"
  shows "accounted env bs' st' h a"
proof -
  from assms(1) obtain l where "mset l + pending (group_tasks st) h a = members env bs h"
    "case agg_of st h a of None \<Rightarrow> l = [] | Some x \<Rightarrow> x = fold (env_put env a) l (env_new env a)"
    by (auto simp: accounted_def)
  then have "mset l + pending (group_tasks st') h a = members env bs' h" by (simp add: assms(3,4))
  with \<open>case agg_of st h a of None \<Rightarrow> l = [] | Some x \<Rightarrow> x = fold (env_put env a) l (env_new env a)\<close>
  show ?thesis unfolding accounted_def assms(2) by blast
qed

lemma inv_consume:
  assumes agg: "distinct (env_aggregates env)" and inv: "group_inv env bs st"
    and step: "consumeBindings env b st = Some st'"
  shows "group_inv env (bs @ [b]) st'"
proof -
  from step have called: "\<not> resultHasBeenCalled st" by (auto simp: consumeBindings_def split: if_splits)
  let ?h = "hash_of env b"
  have resolved: "waitResolved st = None" and count: "waitCounter st = int (length (group_tasks st)) + 1"
    using inv_unresolved [OF inv] called by simp_all
  from inv have acc: "\<And>h a. a \<in> set (env_aggregates env) \<Longrightarrow> accounted env bs st h a"
    and tasks: "\<And>t. t \<in> set (group_tasks st) \<Longrightarrow> task_ok env st t"
    and uniq: "distinct (map task_hash (filter task_init (group_tasks st)))"
    and grp: "\<And>h. group_ok env bs st h"
    by (simp_all add: group_inv_def)
  show ?thesis
  proof (cases "js_get (groupsInitializer st) ?h")
    case (Some p)
    let ?t = "\<lparr>task_hash = ?h, task_bindings = b, task_init = False, task_remaining = env_aggregates env\<rparr>"
    have st': "st' = st\<lparr>waitCounter := waitCounter st + 1, group_tasks := group_tasks st @ [?t]\<rparr>"
      using step called Some by (simp add: consumeBindings_def Let_def hash_of_def)
    have "accounted env (bs @ [b]) st' h a" if a: "a \<in> set (env_aggregates env)" for h a
    proof (rule accounted_same [OF acc [OF a] _ _ members_snoc])
      show "agg_of st' h a = agg_of st h a" by (rule agg_of_cong) (simp_all add: st')
    qed (simp add: st' a)
    moreover have "task_ok env st' t" if "t \<in> set (group_tasks st')" for t
      using that tasks agg Some by (cases p) (auto simp: st' task_ok_def)
    moreover have "group_ok env (bs @ [b]) st' h" for h
      using grp [of h] Some unfolding group_ok_def st'
      by (auto split: option.splits group_promise.splits)
    ultimately show ?thesis using uniq resolved count called
      by (simp add: group_inv_def counter_ok_def st')
  next
    case None
    let ?t = "\<lparr>task_hash = ?h, task_bindings = b, task_init = True, task_remaining = env_aggregates env\<rparr>"
    have st': "st' = st\<lparr>waitCounter := waitCounter st + 1,
        groupsInitializer := js_set (groupsInitializer st) ?h (Pending (env_grouper env b) []),
        group_tasks := group_tasks st @ [?t]\<rparr>"
      using step called None by (simp add: consumeBindings_def Let_def hash_of_def)
    have old: "task_hash t \<noteq> ?h" if "t \<in> set (group_tasks st)" for t
      using tasks [OF that] None by (auto simp: task_ok_def)
    have "accounted env (bs @ [b]) st' h a" if a: "a \<in> set (env_aggregates env)" for h a
    proof (rule accounted_same [OF acc [OF a] _ _ members_snoc])
      show "agg_of st' h a = agg_of st h a"
      proof (cases "h = ?h")
        case True
        then show ?thesis using None by (simp add: agg_of_def st')
      next
        case False
        then show ?thesis by (intro agg_of_cong) (simp_all add: st')
      qed
    qed (simp add: st' a)
    moreover have "task_ok env st' t" if "t \<in> set (group_tasks st')" for t
      using that tasks agg old by (auto simp: st' task_ok_def)
    moreover have "group_ok env (bs @ [b]) st' h" for h
      using grp [of h] None unfolding group_ok_def st'
      by (auto split: option.splits group_promise.splits)
    moreover have "distinct (map task_hash (filter task_init (group_tasks st')))"
    proof -
      have "?h \<notin> task_hash ` set (filter task_init (group_tasks st))"
      proof
        assume "?h \<in> task_hash ` set (filter task_init (group_tasks st))"
        then obtain t where "t \<in> set (group_tasks st)" "task_hash t = ?h" by auto
        with old show False by blast
      qed
      with uniq show ?thesis by (simp add: st')
    qed
    ultimately show ?thesis using resolved count called
      by (simp add: group_inv_def counter_ok_def st')
  qed
qed

lemma unique_init:
  assumes "distinct (map task_hash (filter task_init (xs @ t # ys)))" and "task_init t"
    and "u \<in> set (xs @ t # ys)" and "task_init u" and "task_hash u = task_hash t"
  shows "u = t"
  using assms by (auto simp: image_iff)

text \<open>A step of a task at a position: the other tasks stay.\<close>

lemma group_ok_same:
  assumes "group_ok env bs st h" and "js_get (groupsInitializer st') h = js_get (groupsInitializer st) h"
    and "js_get (groups st') h = js_get (groups st) h"
    and "\<And>t. t \<in> set (group_tasks st) \<Longrightarrow> task_init t \<Longrightarrow> task_hash t = h \<Longrightarrow> t \<in> set (group_tasks st')"
  shows "group_ok env bs st' h"
  using assms unfolding group_ok_def by (fastforce split: option.splits group_promise.splits)

lemma inv_put_init:
  assumes inv: "group_inv env bs st" and tasks: "group_tasks st = xs @ t # ys"
    and init: "js_get (groupsInitializer st) (task_hash t) = Some (Pending g ags)" "task_init t"
    and a: "a \<in> set (task_remaining t)"
  shows "group_inv env bs
    (st\<lparr>groupsInitializer := js_set (groupsInitializer st) (task_hash t)
          (Pending g (js_set ags a (env_put env a (task_bindings t) (env_new env a)))),
        group_tasks := xs @ t\<lparr>task_remaining := remove1 a (task_remaining t)\<rparr> # ys\<rparr>)"
    (is "group_inv env bs ?st'")
proof -
  let ?h = "task_hash t" and ?t' = "t\<lparr>task_remaining := remove1 a (task_remaining t)\<rparr>"
  from inv have acc: "\<And>h a. a \<in> set (env_aggregates env) \<Longrightarrow> accounted env bs st h a"
    and ok: "\<And>t. t \<in> set (group_tasks st) \<Longrightarrow> task_ok env st t"
    and uniq: "distinct (map task_hash (filter task_init (group_tasks st)))"
    and grp: "\<And>h. group_ok env bs st h"
    by (simp_all add: group_inv_def)
  from ok [of t] have dist: "distinct (task_remaining t)" by (simp add: tasks task_ok_def)
  from grp [of ?h] obtain u where u: "u \<in> set (group_tasks st)" "task_init u" "task_hash u = ?h"
    "\<forall>a \<in> set (env_aggregates env). a \<in> set (task_remaining u) \<longleftrightarrow> js_get ags a = None"
    and rest: "js_get (groups st) ?h = None" "\<exists>b \<in> set bs. hash_of env b = ?h \<and> g = env_grouper env b"
    by (auto simp: group_ok_def init)
  have "u = t"
  proof (rule unique_init)
    show "distinct (map task_hash (filter task_init (xs @ t # ys)))" using uniq by (simp only: tasks)
    show "u \<in> set (xs @ t # ys)" using u(1) by (simp only: tasks)
  qed (use u init in simp_all)
  with u(4) have rem: "\<And>c. c \<in> set (env_aggregates env) \<Longrightarrow> c \<in> set (task_remaining t) \<longleftrightarrow> js_get ags c = None"
    by blast
  have "accounted env bs ?st' h c" if c: "c \<in> set (env_aggregates env)" for h c
  proof (cases "h = ?h \<and> c = a")
    case True
    have "agg_of st h a = None" using True rem [of a] a c by (simp add: agg_of_def init)
    with acc [OF c, of h] True have "pending (group_tasks st) h a = members env bs h"
      by (auto simp: accounted_def)
    moreover have "pending (group_tasks st) h a = {#task_bindings t#} + pending (group_tasks ?st') h a"
      using True a dist by (simp add: tasks)
    ultimately have "mset [task_bindings t] + pending (group_tasks ?st') h c = members env bs h"
      using True by simp
    moreover have "agg_of ?st' h c = Some (fold (env_put env c) [task_bindings t] (env_new env c))"
      using True by (simp add: agg_of_def)
    ultimately show ?thesis unfolding accounted_def by (intro exI [of _ "[task_bindings t]"]) simp
  next
    case False
    show ?thesis
    proof (rule accounted_same [OF acc [OF c]])
      show "agg_of ?st' h c = agg_of st h c"
      proof (cases "h = ?h")
        case True
        then show ?thesis using False init by (simp add: agg_of_def)
      qed (rule agg_of_cong; simp)
      show "pending (group_tasks ?st') h c = pending (group_tasks st) h c + {#}"
        using False by (auto simp: tasks in_set_remove1)
    qed simp
  qed
  moreover have "task_ok env ?st' u" if "u \<in> set (group_tasks ?st')" for u
  proof -
    from that have "u = ?t' \<or> u \<in> set (group_tasks st)" by (auto simp: tasks)
    then show ?thesis
      using ok [of t] ok [of u] init dist set_remove1_subset [of a "task_remaining t"]
      by (auto simp: task_ok_def tasks)
  qed
  moreover have "distinct (map task_hash (filter task_init (group_tasks ?st')))"
    using uniq by (auto simp: tasks)
  moreover have "group_ok env bs ?st' h" for h
  proof (cases "h = ?h")
    case True
    have "c \<in> set (task_remaining ?t') \<longleftrightarrow> js_get (js_set ags a (env_put env a (task_bindings t) (env_new env a))) c = None"
      if "c \<in> set (env_aggregates env)" for c
      using rem [OF that] dist by auto
    with True rest init show ?thesis by (auto simp: group_ok_def)
  next
    case False
    then show ?thesis by (intro group_ok_same [OF grp]) (auto simp: tasks)
  qed
  moreover have "counter_ok env ?st'"
    using inv_unresolved [OF inv] by (simp add: counter_ok_def tasks)
  ultimately show ?thesis by (simp add: group_inv_def)
qed

lemma inv_put_resolved:
  assumes inv: "group_inv env bs st" and tasks: "group_tasks st = xs @ t # ys"
    and init: "js_get (groupsInitializer st) (task_hash t) = Some Resolved" "\<not> task_init t"
    and a: "a \<in> set (task_remaining t)"
    and g: "js_get (groups st) (task_hash t) = Some g" "js_get (group_aggregators g) a = Some ag"
  shows "group_inv env bs
    (st\<lparr>groups := js_set (groups st) (task_hash t)
          (g\<lparr>group_aggregators := js_set (group_aggregators g) a (env_put env a (task_bindings t) ag)\<rparr>),
        group_tasks := xs @ t\<lparr>task_remaining := remove1 a (task_remaining t)\<rparr> # ys\<rparr>)"
    (is "group_inv env bs ?st'")
proof -
  let ?h = "task_hash t" and ?t' = "t\<lparr>task_remaining := remove1 a (task_remaining t)\<rparr>"
  from inv have acc: "\<And>h a. a \<in> set (env_aggregates env) \<Longrightarrow> accounted env bs st h a"
    and ok: "\<And>t. t \<in> set (group_tasks st) \<Longrightarrow> task_ok env st t"
    and uniq: "distinct (map task_hash (filter task_init (group_tasks st)))"
    and grp: "\<And>h. group_ok env bs st h"
    by (simp_all add: group_inv_def)
  from ok [of t] have dist: "distinct (task_remaining t)" by (simp add: tasks task_ok_def)
  have "accounted env bs ?st' h c" if c: "c \<in> set (env_aggregates env)" for h c
  proof (cases "h = ?h \<and> c = a")
    case True
    have "agg_of st h a = Some ag" using True by (simp add: agg_of_def init g)
    with acc [OF c, of h] True obtain l where
      l: "mset l + pending (group_tasks st) h a = members env bs h" "ag = fold (env_put env a) l (env_new env a)"
      by (auto simp: accounted_def)
    have "pending (group_tasks st) h a = {#task_bindings t#} + pending (group_tasks ?st') h a"
      using True a dist by (simp add: tasks)
    with l have "mset (l @ [task_bindings t]) + pending (group_tasks ?st') h c = members env bs h"
      using True by simp
    moreover have "agg_of ?st' h c = Some (fold (env_put env c) (l @ [task_bindings t]) (env_new env c))"
      using True l by (simp add: agg_of_def init)
    ultimately show ?thesis unfolding accounted_def by (intro exI [of _ "l @ [task_bindings t]"]) simp
  next
    case False
    show ?thesis
    proof (rule accounted_same [OF acc [OF c]])
      show "agg_of ?st' h c = agg_of st h c"
      proof (cases "h = ?h")
        case True
        then show ?thesis using False init g by (simp add: agg_of_def)
      qed (rule agg_of_cong; simp)
      show "pending (group_tasks ?st') h c = pending (group_tasks st) h c + {#}"
        using False by (auto simp: tasks in_set_remove1)
    qed simp
  qed
  moreover have "task_ok env ?st' u" if "u \<in> set (group_tasks ?st')" for u
  proof -
    from that have "u = ?t' \<or> u \<in> set (group_tasks st)" by (auto simp: tasks)
    then show ?thesis
      using ok [of t] ok [of u] init dist set_remove1_subset [of a "task_remaining t"]
      by (auto simp: task_ok_def tasks)
  qed
  moreover have "distinct (map task_hash (filter task_init (group_tasks ?st')))"
    using uniq by (auto simp: tasks)
  moreover have "group_ok env bs ?st' h" for h
  proof (cases "h = ?h")
    case True
    with grp [of ?h] init g show ?thesis by (auto simp: group_ok_def)
  next
    case False
    then show ?thesis
    proof (intro group_ok_same [OF grp])
      fix u assume "u \<in> set (group_tasks st)" "task_init u"
      then show "u \<in> set (group_tasks ?st')" using init by (auto simp: tasks)
    qed simp_all
  qed
  moreover have "counter_ok env ?st'"
    using inv_unresolved [OF inv] by (simp add: counter_ok_def tasks)
  ultimately show ?thesis by (simp add: group_inv_def)
qed

lemma inv_put:
  assumes "group_inv env bs st" and "group_step env (Put_aggregate i a) st = Some st'"
  shows "group_inv env bs st'"
proof -
  let ?t = "group_tasks st ! i"
  from assms(2) have i: "i < length (group_tasks st)" and a: "a \<in> set (task_remaining ?t)"
    by (auto split: if_splits)
  from list_split_nth [OF i] obtain xs ys where split: "group_tasks st = xs @ ?t # ys"
    "\<And>t. (group_tasks st)[i := t] = xs @ t # ys" by blast
  from assms(2) i a obtain st1 where st1: "put_step env ?t a st = Some st1"
    and st': "st' = st1\<lparr>group_tasks := xs @ ?t\<lparr>task_remaining := remove1 a (task_remaining ?t)\<rparr> # ys\<rparr>"
    by (auto simp: split(2))
  show ?thesis
  proof (cases "task_init ?t")
    case True
    with st1 obtain g ags where p: "js_get (groupsInitializer st) (task_hash ?t) = Some (Pending g ags)"
      by (auto simp: put_step_def split: option.splits group_promise.splits)
    with st1 st' True inv_put_init [OF assms(1) split(1) p True a] show ?thesis by (simp add: put_step_def)
  next
    case False
    with st1 obtain g ag where p: "js_get (groupsInitializer st) (task_hash ?t) = Some Resolved"
      "js_get (groups st) (task_hash ?t) = Some g" "js_get (group_aggregators g) a = Some ag"
      by (auto simp: put_step_def split: option.splits group_promise.splits)
    with st1 st' False inv_put_resolved [OF assms(1) split(1) p(1) False a p(2,3)] show ?thesis
      by (simp add: put_step_def)
  qed
qed

lemma finish_counter:
  assumes inv: "group_inv env bs st" and tasks: "group_tasks st = xs @ t # ys"
    and st2: "waitResolved st2 = waitResolved st" "waitCounter st2 = waitCounter st"
      "resultHasBeenCalled st2 = resultHasBeenCalled st" "group_tasks st2 = xs @ ys"
  shows "counter_ok env (subtractWaitCounterAndCollect env st2)"
  using inv_unresolved [OF inv] by (intro counter_subtract) (simp_all add: tasks st2)

lemma inv_finish_init:
  assumes inv: "group_inv env bs st" and tasks: "group_tasks st = xs @ t # ys"
    and init: "js_get (groupsInitializer st) (task_hash t) = Some (Pending g ags)" "task_init t"
    and rem: "task_remaining t = []"
  shows "group_inv env bs (subtractWaitCounterAndCollect env
    (st\<lparr>groups := js_set (groups st) (task_hash t) \<lparr>group_bindings = g, group_aggregators = ags\<rparr>,
        groupsInitializer := js_set (groupsInitializer st) (task_hash t) Resolved,
        group_tasks := xs @ ys\<rparr>))" (is "group_inv env bs (subtractWaitCounterAndCollect env ?st2)")
proof -
  let ?h = "task_hash t" and ?st' = "subtractWaitCounterAndCollect env ?st2"
  from inv have acc: "\<And>h a. a \<in> set (env_aggregates env) \<Longrightarrow> accounted env bs st h a"
    and ok: "\<And>t. t \<in> set (group_tasks st) \<Longrightarrow> task_ok env st t"
    and uniq: "distinct (map task_hash (filter task_init (group_tasks st)))"
    and grp: "\<And>h. group_ok env bs st h"
    by (simp_all add: group_inv_def)
  from grp [of ?h] obtain u where u: "u \<in> set (group_tasks st)" "task_init u" "task_hash u = ?h"
    "\<forall>a \<in> set (env_aggregates env). a \<in> set (task_remaining u) \<longleftrightarrow> js_get ags a = None"
    and rest: "\<exists>b \<in> set bs. hash_of env b = ?h \<and> g = env_grouper env b"
    by (auto simp: group_ok_def init)
  have "u = t"
  proof (rule unique_init)
    show "distinct (map task_hash (filter task_init (xs @ t # ys)))" using uniq by (simp only: tasks)
    show "u \<in> set (xs @ t # ys)" using u(1) by (simp only: tasks)
  qed (use u init in simp_all)
  with u(4) rem have full: "\<And>c. c \<in> set (env_aggregates env) \<Longrightarrow> js_get ags c \<noteq> None" by auto
  have other: "task_hash v \<noteq> ?h" if "v \<in> set (xs @ ys)" "task_init v" for v
    using uniq init(2) that by (auto simp: tasks image_iff)
  have same: "groups ?st' = groups ?st2" "groupsInitializer ?st' = groupsInitializer ?st2"
    "group_tasks ?st' = group_tasks ?st2" by simp_all
  have "accounted env bs ?st2 h c" if c: "c \<in> set (env_aggregates env)" for h c
  proof (rule accounted_same [OF acc [OF c]])
    show "agg_of ?st2 h c = agg_of st h c"
    proof (cases "h = ?h")
      case True
      then show ?thesis using init by (simp add: agg_of_def)
    qed (rule agg_of_cong; simp)
    show "pending (group_tasks ?st2) h c = pending (group_tasks st) h c + {#}"
      using rem by (simp add: tasks)
  qed simp
  moreover have "task_ok env ?st2 v" if "v \<in> set (group_tasks ?st2)" for v
    using ok [of v] other [of v] that by (auto simp: task_ok_def tasks)
  moreover have "distinct (map task_hash (filter task_init (group_tasks ?st2)))"
    using uniq by (simp add: tasks split: if_splits)
  moreover have "group_ok env bs ?st2 h" for h
  proof (cases "h = ?h")
    case True
    then show ?thesis using rest full by (auto simp: group_ok_def)
  next
    case False
    then show ?thesis by (intro group_ok_same [OF grp]) (auto simp: tasks)
  qed
  moreover have "counter_ok env ?st'" by (rule finish_counter [OF inv tasks]) simp_all
  ultimately show ?thesis unfolding group_inv_def inv_parts_cong [OF same] same by blast
qed

lemma inv_finish_put:
  assumes inv: "group_inv env bs st" and tasks: "group_tasks st = xs @ t # ys"
    and init: "\<not> task_init t" and rem: "task_remaining t = []"
  shows "group_inv env bs (subtractWaitCounterAndCollect env (st\<lparr>group_tasks := xs @ ys\<rparr>))"
    (is "group_inv env bs (subtractWaitCounterAndCollect env ?st2)")
proof -
  let ?st' = "subtractWaitCounterAndCollect env ?st2"
  from inv have acc: "\<And>h a. a \<in> set (env_aggregates env) \<Longrightarrow> accounted env bs st h a"
    and ok: "\<And>t. t \<in> set (group_tasks st) \<Longrightarrow> task_ok env st t"
    and uniq: "distinct (map task_hash (filter task_init (group_tasks st)))"
    and grp: "\<And>h. group_ok env bs st h"
    by (simp_all add: group_inv_def)
  have same: "groups ?st' = groups ?st2" "groupsInitializer ?st' = groupsInitializer ?st2"
    "group_tasks ?st' = group_tasks ?st2" by simp_all
  have "accounted env bs ?st2 h c" if c: "c \<in> set (env_aggregates env)" for h c
  proof (rule accounted_same [OF acc [OF c]])
    show "agg_of ?st2 h c = agg_of st h c" by (rule agg_of_cong) simp_all
    show "pending (group_tasks ?st2) h c = pending (group_tasks st) h c + {#}"
      using rem by (simp add: tasks)
  qed simp
  moreover have "task_ok env ?st2 v" if "v \<in> set (group_tasks ?st2)" for v
    using ok [of v] that by (auto simp: task_ok_def tasks)
  moreover have "distinct (map task_hash (filter task_init (group_tasks ?st2)))"
    using uniq init by (simp add: tasks)
  moreover have "group_ok env bs ?st2 h" for h
  proof (rule group_ok_same [OF grp])
    fix u assume "u \<in> set (group_tasks st)" "task_init u"
    then show "u \<in> set (group_tasks ?st2)" using init by (auto simp: tasks)
  qed simp_all
  moreover have "counter_ok env ?st'" by (rule finish_counter [OF inv tasks]) simp_all
  ultimately show ?thesis unfolding group_inv_def inv_parts_cong [OF same] same by blast
qed

lemma inv_finish:
  assumes "group_inv env bs st" and "group_step env (Finish i) st = Some st'"
  shows "group_inv env bs st'"
proof -
  let ?t = "group_tasks st ! i"
  from assms(2) have i: "i < length (group_tasks st)" and rem: "task_remaining ?t = []"
    by (auto split: if_splits)
  from list_split_nth [OF i] obtain xs ys where split: "group_tasks st = xs @ ?t # ys"
    "remove_nth i (group_tasks st) = xs @ ys" by blast
  from assms(2) i rem obtain st1 where st1: "finish_task ?t st = Some st1"
    and st': "st' = subtractWaitCounterAndCollect env (st1\<lparr>group_tasks := xs @ ys\<rparr>)"
    by (auto simp: split(2))
  show ?thesis
  proof (cases "task_init ?t")
    case True
    with st1 obtain g ags where p: "js_get (groupsInitializer st) (task_hash ?t) = Some (Pending g ags)"
      by (auto simp: finish_task_def split: option.splits group_promise.splits)
    with st1 st' True inv_finish_init [OF assms(1) split(1) p True rem] show ?thesis by (simp add: finish_task_def)
  next
    case False
    with st1 have "st1 = st" by (auto simp: finish_task_def split: option.splits group_promise.splits)
    with st' inv_finish_put [OF assms(1) split(1) False rem] show ?thesis by simp
  qed
qed

theorem group_reach_inv:
  assumes "distinct (env_aggregates env)" and "group_reach env bs st"
  shows "group_inv env bs st"
  using assms(2)
proof induction
  case start
  show ?case by (rule inv_start)
next
  case (step bs st ev st')
  then show ?case
    using inv_consume [OF assms(1)] inv_put inv_finish inv_collect by (cases ev) auto
qed

section \<open>Properties\<close>

text \<open>C13. Whatever the interleaving of the tasks is, when the rows of a \<open>GROUP BY\<close> are resolved, they have
  been asked for, they are the rows of the groups, there is one group for each hash of a consumed
  solution, its bindings are the grouping bindings of one of its solutions, and each of its
  aggregators has been given every solution of the group exactly once, and no other.\<close>

theorem group_results_complete:
  assumes "distinct (env_aggregates env)" and "group_reach env bs st" and "waitResolved st = Some rows"
  shows "resultHasBeenCalled st \<and> rows = handleResultCollection env st \<and>
    (\<forall>h. case js_get (groups st) h of
       None \<Rightarrow> h \<notin> hash_of env ` set bs
     | Some g \<Rightarrow>
         list_ex (\<lambda>b. hash_of env b = h \<and> group_bindings g = env_grouper env b) bs \<and>
         list_all (\<lambda>a. \<exists>l. mset l = members env bs h \<and>
           js_get (group_aggregators g) a = Some (fold (env_put env a) l (env_new env a))) (env_aggregates env))"
proof (intro conjI allI)
  from group_reach_inv [OF assms(1,2)] have inv: "group_inv env bs st" .
  then have counter: "counter_ok env st" by (simp add: group_inv_def)
  with assms(3) show "resultHasBeenCalled st" "rows = handleResultCollection env st"
    by (simp_all add: counter_ok_def)
  from counter assms(3) have none: "group_tasks st = []" by (simp add: counter_ok_def)
  fix h
  from inv have grp: "group_ok env bs st h"
    and acc: "\<And>a. a \<in> set (env_aggregates env) \<Longrightarrow> accounted env bs st h a"
    by (simp_all add: group_inv_def)
  show "case js_get (groups st) h of
       None \<Rightarrow> h \<notin> hash_of env ` set bs
     | Some g \<Rightarrow>
         list_ex (\<lambda>b. hash_of env b = h \<and> group_bindings g = env_grouper env b) bs \<and>
         list_all (\<lambda>a. \<exists>l. mset l = members env bs h \<and>
           js_get (group_aggregators g) a = Some (fold (env_put env a) l (env_new env a))) (env_aggregates env)"
  proof (cases "js_get (groups st) h")
    case None
    with grp none show ?thesis by (auto simp: group_ok_def split: option.splits group_promise.splits)
  next
    case (Some g)
    with grp none have init: "js_get (groupsInitializer st) h = Some Resolved"
      and g: "list_ex (\<lambda>b. hash_of env b = h \<and> group_bindings g = env_grouper env b) bs"
        "\<forall>a \<in> set (env_aggregates env). js_get (group_aggregators g) a \<noteq> None"
      by (auto simp: group_ok_def list_ex_iff split: option.splits group_promise.splits)
    have "\<exists>l. mset l = members env bs h \<and>
        js_get (group_aggregators g) a = Some (fold (env_put env a) l (env_new env a))"
      if a: "a \<in> set (env_aggregates env)" for a
    proof -
      from g(2) a obtain x where x: "js_get (group_aggregators g) a = Some x" by auto
      then have "agg_of st h a = Some x" by (simp add: agg_of_def init Some)
      with acc [OF a] none x show ?thesis by (auto simp: accounted_def)
    qed
    with Some g(1) show ?thesis by (simp add: list_all_iff)
  qed
qed

text \<open>The steps that the tasks still have to make.\<close>

definition group_work :: "('b, 'a) groups_state \<Rightarrow> nat" where
  "group_work st = sum_list (map (\<lambda>t. Suc (length (task_remaining t))) (group_tasks st))"

lemma task_runs:
  assumes inv: "group_inv env bs st" and "group_tasks st \<noteq> []"
  shows "\<exists>i a. group_step env (Put_aggregate i a) st \<noteq> None \<or> group_step env (Finish i) st \<noteq> None"
proof -
  from inv have ok: "\<And>t. t \<in> set (group_tasks st) \<Longrightarrow> task_ok env st t"
    and grp: "\<And>h. group_ok env bs st h"
    by (simp_all add: group_inv_def)
  obtain t where t: "t \<in> set (group_tasks st)" and ready:
    "(\<exists>g ags. js_get (groupsInitializer st) (task_hash t) = Some (Pending g ags) \<and> task_init t) \<or>
     js_get (groupsInitializer st) (task_hash t) = Some Resolved \<and> \<not> task_init t"
  proof (cases "\<exists>t \<in> set (group_tasks st). task_init t")
    case True
    then obtain t where t: "t \<in> set (group_tasks st)" "task_init t" by blast
    with ok [of t] that [of t] show ?thesis
      by (auto simp: task_ok_def split: option.splits group_promise.splits)
  next
    case False
    from assms(2) obtain t where t: "t \<in> set (group_tasks st)" by (cases "group_tasks st") auto
    with False ok [of t] grp [of "task_hash t"] that [of t] show ?thesis
      by (auto simp: task_ok_def group_ok_def split: option.splits group_promise.splits)
  qed
  from t obtain i where i: "i < length (group_tasks st)" "group_tasks st ! i = t" by (meson in_set_conv_nth)
  show ?thesis
  proof (cases "task_remaining t")
    case Nil
    then have "group_step env (Finish i) st \<noteq> None" using i ready by (auto simp: finish_task_def)
    then show ?thesis by blast
  next
    case (Cons a as)
    with ok [OF t] have a: "a \<in> set (env_aggregates env)" by (simp add: task_ok_def)
    have "put_step env t a st \<noteq> None"
      using ready grp [of "task_hash t"] a by (fastforce simp: put_step_def group_ok_def split: option.splits)
    then have "group_step env (Put_aggregate i a) st \<noteq> None" using i Cons by simp
    then show ?thesis by blast
  qed
qed

lemma task_work:
  assumes "group_step env ev st = Some st'" and "\<And>b. ev \<noteq> Consume b" and "ev \<noteq> Collect"
  shows "group_work st' < group_work st"
proof (cases ev)
  case (Put_aggregate i a)
  with assms(1) have i: "i < length (group_tasks st)" and a: "a \<in> set (task_remaining (group_tasks st ! i))"
    by (auto split: if_splits)
  from list_split_nth [OF i] obtain xs ys where split: "group_tasks st = xs @ group_tasks st ! i # ys"
    "\<And>t. (group_tasks st)[i := t] = xs @ t # ys" by blast
  from assms(1) Put_aggregate i a have "group_tasks st' = xs @ (group_tasks st ! i)
      \<lparr>task_remaining := remove1 a (task_remaining (group_tasks st ! i))\<rparr> # ys"
    by (auto simp: split(2))
  then have "group_work st' = sum_list (map (\<lambda>t. Suc (length (task_remaining t))) xs) +
      Suc (length (remove1 a (task_remaining (group_tasks st ! i)))) +
      sum_list (map (\<lambda>t. Suc (length (task_remaining t))) ys)"
    by (simp add: group_work_def)
  moreover have "group_work st = sum_list (map (\<lambda>t. Suc (length (task_remaining t))) xs) +
      Suc (length (task_remaining (group_tasks st ! i))) +
      sum_list (map (\<lambda>t. Suc (length (task_remaining t))) ys)"
    unfolding group_work_def by (subst split(1)) simp
  ultimately show ?thesis using a length_pos_if_in_set [OF a] by (simp add: length_remove1)
next
  case (Finish i)
  with assms(1) have i: "i < length (group_tasks st)" by (auto split: if_splits)
  from list_split_nth [OF i] obtain xs ys where split: "group_tasks st = xs @ group_tasks st ! i # ys"
    "remove_nth i (group_tasks st) = xs @ ys" by blast
  from assms(1) Finish i have "group_tasks st' = xs @ ys" by (auto simp: split(2) split: if_splits)
  moreover have "group_work st = sum_list (map (\<lambda>t. Suc (length (task_remaining t))) xs) +
      Suc (length (task_remaining (group_tasks st ! i))) +
      sum_list (map (\<lambda>t. Suc (length (task_remaining t))) ys)"
    unfolding group_work_def by (subst split(1)) simp
  ultimately show ?thesis by (simp add: group_work_def)
qed (use assms in auto)

fun group_steps :: "('b, 'a) group_env \<Rightarrow> 'b group_event list \<Rightarrow> ('b, 'a) groups_state \<Rightarrow> ('b, 'a) groups_state option" where
  "group_steps env [] st = Some st"
| "group_steps env (ev # evs) st = Option.bind (group_step env ev st) (group_steps env evs)"

lemma called_step:
  "group_step env ev st = Some st' \<Longrightarrow> resultHasBeenCalled st \<Longrightarrow> resultHasBeenCalled st'"
  by (cases ev) (auto simp: consumeBindings_def collectResults_def put_step_def finish_task_def
      split: if_splits option.splits group_promise.splits)

text \<open>C14. Once the results have been asked for, the tasks that are still running can be run to their end,
  in at most as many steps as they have left, and the rows are then resolved: no task waits forever
  for its group, and the counter reaches zero.\<close>

theorem group_results_eventually:
  assumes "distinct (env_aggregates env)" and "group_reach env bs st" and "resultHasBeenCalled st"
  shows "\<exists>evs st'. length evs \<le> group_work st \<and> group_steps env evs st = Some st' \<and> waitResolved st' \<noteq> None"
  using assms(2,3)
proof (induction "group_work st" arbitrary: st bs rule: less_induct)
  case less
  from group_reach_inv [OF assms(1) less.prems(1)] have inv: "group_inv env bs st" .
  show ?case
  proof (cases "group_tasks st = []")
    case True
    with inv less.prems(2) have "waitResolved st \<noteq> None"
      by (auto simp: group_inv_def counter_ok_def split: option.splits)
    then show ?thesis by (intro exI [of _ "[]"]) auto
  next
    case False
    from task_runs [OF inv False] obtain ev st1 where ev: "group_step env ev st = Some st1"
      "\<And>b. ev \<noteq> Consume b" "ev \<noteq> Collect" by blast
    from task_work [OF ev] have work: "group_work st1 < group_work st" .
    from less.hyps [OF work group_reach.step [OF less.prems(1) ev(1)] called_step [OF ev(1) less.prems(2)]]
    obtain evs st' where "length evs \<le> group_work st1" "group_steps env evs st1 = Some st'" "waitResolved st' \<noteq> None"
      by blast
    with ev(1) work show ?thesis by (intro exI [of _ "ev # evs"] exI [of _ st']) auto
  qed
qed

section \<open>An example run\<close>

definition consumed :: "'b group_event list \<Rightarrow> 'b list" where
  "consumed evs = List.map_filter (\<lambda>ev. case ev of Consume b \<Rightarrow> Some b | _ \<Rightarrow> None) evs"

lemma steps_reach:
  "group_reach env bs st \<Longrightarrow> group_steps env evs st = Some st' \<Longrightarrow> group_reach env (bs @ consumed evs) st'"
proof (induction evs arbitrary: bs st)
  case Nil
  then show ?case by (simp add: consumed_def List.map_filter_def)
next
  case (Cons ev evs)
  then obtain st1 where "group_step env ev st = Some st1" "group_steps env evs st1 = Some st'"
    by (auto simp: Option.bind_eq_Some_conv)
  from Cons.IH [OF group_reach.step [OF Cons.prems(1) this(1)] this(2)] show ?case
    by (cases ev) (simp_all add: consumed_def List.map_filter_def)
qed

definition name_row :: "string \<Rightarrow> string \<Rightarrow> (rdf_term, nat) bindings" where
  "name_row v n = \<lparr>entries = [(v, NamedNode n)], contextHolder = None\<rparr>"

definition sample_group_env :: "((rdf_term, nat) bindings, nat) group_env" where
  "sample_group_env =
     pattern_env term_value [''x'', ''y''] [''x'', ''y''] [''n''] (factory_bindings None) (\<lambda>a. 0) (\<lambda>a b n. Suc n)
       (\<lambda>a n. Some (NamedNode ''count''))"

definition sample_events :: "(rdf_term, nat) bindings group_event list" where
  "sample_events =
     [Consume (name_row ''x'' ''a''), Consume (name_row ''x'' ''b''), Consume (name_row ''x'' ''a''),
      Put_aggregate 1 ''n'', Put_aggregate 0 ''n'', Collect, Finish 0, Put_aggregate 1 ''n'', Finish 1, Finish 0]"

lemmas sample_run = sample_group_env_def sample_events_def pattern_env_def name_row_def
  hashBindings_def grouper_def bindingsToCompactString_def new_groups_state_def consumeBindings_def
  collectResults_def subtractWaitCounterAndCollect_def put_step_def finish_task_def remove_nth_def
  b_filter_def b_get_def

definition sample_final :: "((rdf_term, nat) bindings, nat) groups_state" where
  "sample_final = the (group_steps sample_group_env sample_events new_groups_state)"

lemma sample_final: "group_steps sample_group_env sample_events new_groups_state = Some sample_final"
  by (simp add: sample_final_def sample_run Let_def)

lemma sample_final_resolved: "waitResolved sample_final \<noteq> None"
  by (simp add: sample_final_def sample_run Let_def)

lemma sample_reach: "group_reach sample_group_env (consumed sample_events) sample_final"
  using steps_reach [OF group_reach.start sample_final] by simp

lemma group_results_complete_witness:
  "resultHasBeenCalled sample_final \<and>
   waitResolved sample_final = Some (handleResultCollection sample_group_env sample_final)"
proof -
  from sample_final_resolved obtain rows where rows: "waitResolved sample_final = Some rows" by auto
  have "distinct (env_aggregates sample_group_env)" by (simp add: sample_group_env_def pattern_env_def)
  from group_results_complete [OF this sample_reach rows] rows show ?thesis by simp
qed

lemma group_results_eventually_witness:
  "\<exists>evs st'. length evs \<le> group_work sample_final \<and>
     group_steps sample_group_env evs sample_final = Some st' \<and> waitResolved st' \<noteq> None"
proof (rule group_results_eventually [OF _ sample_reach])
  show "distinct (env_aggregates sample_group_env)" by (simp add: sample_group_env_def pattern_env_def)
  show "resultHasBeenCalled sample_final" by (simp add: sample_final_def sample_run Let_def)
qed

text \<open>The hash of a group leaves out which variable a term belongs to: the solutions that bind only
  \<open>?x\<close> and only \<open>?y\<close> to the same term are put into one group, although they have different grouping
  bindings.\<close>

lemma groups_clash:
  "hash_of sample_group_env (name_row ''x'' ''a'') = hash_of sample_group_env (name_row ''y'' ''a'') \<and>
   env_grouper sample_group_env (name_row ''x'' ''a'') \<noteq> env_grouper sample_group_env (name_row ''y'' ''a'')"
  by (simp add: hash_of_def sample_run)

end
