(* ===== verification/Join_Connected.thy ===== *)
theory Join_Connected
  imports Graph_Semantics
begin

text \<open>
  The optimizer that clusters the entries of a join by shared variables
  (\<open>packages/actor-optimize-query-operation-join-connected\<close>).  An object of variables is the list of
  its keys; the lookup of a key finds the members of \<open>Object.prototype\<close> too, so that a variable named
  \<open>toString\<close> counts as shared with every cluster.
\<close>

record 'x join_cluster =
  cluster_vars :: "string list"
  cluster_entries :: "'x operation list"

definition haveOverlappingVariables :: "string list \<Rightarrow> string list \<Rightarrow> bool" where
  "haveOverlappingVariables variablesA variablesB =
     list_ex (\<lambda>v. List.member variablesB v \<or> v \<in> set object_prototype) variablesA"

definition spread_vars :: "string list \<Rightarrow> string list \<Rightarrow> string list" where
  "spread_vars vs ws = vs @ filter (\<lambda>w. \<not> List.member vs w) ws"

text \<open>The inner loop: the entry joins the first cluster it shares a variable with, or is added.\<close>

fun add_to_clusters :: "'x join_cluster \<Rightarrow> 'x join_cluster list \<Rightarrow> 'x join_cluster list" where
  "add_to_clusters e [] = [e]"
| "add_to_clusters e (c # cs) =
     (if haveOverlappingVariables (cluster_vars e) (cluster_vars c)
      then c\<lparr>cluster_entries := cluster_entries c @ cluster_entries e,
             cluster_vars := spread_vars (cluster_vars c) (cluster_vars e)\<rparr> # cs
      else c # add_to_clusters e cs)"

definition clusterIteration :: "'x join_cluster list \<Rightarrow> 'x join_cluster list" where
  "clusterIteration oldCluster = foldl (\<lambda>new e. add_to_clusters e new) [] oldCluster"

lemma add_to_clusters_length: "length (add_to_clusters e cs) \<le> Suc (length cs)"
  by (induction cs) auto

lemma clusters_fold_length:
  "length (foldl (\<lambda>new e. add_to_clusters e new) cs es) \<le> length cs + length es"
proof (induction es arbitrary: cs)
  case (Cons e es)
  from Cons.IH [of "add_to_clusters e cs"] add_to_clusters_length [of e cs] show ?case by simp
qed simp

lemma clusterIteration_length: "length (clusterIteration cs) \<le> length cs"
  using clusters_fold_length [of "[]" cs] by (simp add: clusterIteration_def)

text \<open>The \<open>do ... while\<close> loop: it stops when an iteration does not change the number of clusters.\<close>

function cluster_loop :: "'x join_cluster list \<Rightarrow> 'x join_cluster list" where
  "cluster_loop oldClusters =
     (let newClusters = clusterIteration oldClusters
      in if length oldClusters \<noteq> length newClusters then cluster_loop newClusters else newClusters)"
  by pat_completeness auto
termination
  by (relation "measure length") (auto simp: le_neq_implies_less [OF clusterIteration_length])

declare cluster_loop.simps [simp del]

definition initial_clusters :: "'x algebra_lib \<Rightarrow> 'x operation list \<Rightarrow> 'x join_cluster list" where
  "initial_clusters lib qs =
     map (\<lambda>q. \<lparr>cluster_vars = remdups (inScopeVariables lib q), cluster_entries = [q]\<rparr>) qs"

definition cluster :: "'x algebra_lib \<Rightarrow> 'x operation list \<Rightarrow> 'x operation" where
  "cluster lib qs =
     (let subJoins = map (\<lambda>c. if length (cluster_entries c) = 1 then hd (cluster_entries c)
                              else createJoin lib (cluster_entries c) True)
                       (cluster_loop (initial_clusters lib qs))
      in if length subJoins = 1 then hd subJoins else createJoin lib subJoins False)"

section \<open>The clusters\<close>

lemma overlapI: "set vs \<inter> set ws \<noteq> {} \<Longrightarrow> haveOverlappingVariables vs ws"
  by (auto simp: haveOverlappingVariables_def list_ex_iff)

lemma overlap_plain: "haveOverlappingVariables vs ws \<Longrightarrow> plain_names (set vs) \<Longrightarrow> set vs \<inter> set ws \<noteq> {}"
  by (auto simp: haveOverlappingVariables_def list_ex_iff plain_names_def)

lemma set_spread_vars [simp]: "set (spread_vars vs ws) = set vs \<union> set ws"
  by (auto simp: spread_vars_def)

lemma add_to_clusters_entries:
  "mset (concat (map cluster_entries (add_to_clusters e cs))) =
     mset (cluster_entries e) + mset (concat (map cluster_entries cs))"
  by (induction cs) auto

lemma clusterIteration_entries:
  "mset (concat (map cluster_entries (clusterIteration cs))) = mset (concat (map cluster_entries cs))"
proof -
  have "mset (concat (map cluster_entries (foldl (\<lambda>new e. add_to_clusters e new) ds cs))) =
      mset (concat (map cluster_entries ds)) + mset (concat (map cluster_entries cs))" for ds
    by (induction cs arbitrary: ds) (simp_all add: add_to_clusters_entries)
  then show ?thesis by (simp add: clusterIteration_def)
qed

lemma cluster_loop_entries:
  "mset (concat (map cluster_entries (cluster_loop cs))) = mset (concat (map cluster_entries cs))"
proof (induction cs rule: cluster_loop.induct)
  case (1 cs)
  then show ?case by (subst cluster_loop.simps) (simp add: Let_def clusterIteration_entries)
qed

text \<open>What holds of each cluster and is kept when a cluster takes the entries of one that it overlaps with.\<close>

definition merged :: "'x join_cluster \<Rightarrow> 'x join_cluster \<Rightarrow> 'x join_cluster" where
  "merged c e = c\<lparr>cluster_entries := cluster_entries c @ cluster_entries e,
     cluster_vars := spread_vars (cluster_vars c) (cluster_vars e)\<rparr>"

lemma cluster_loop_all:
  assumes merge: "\<And>c e. P c \<Longrightarrow> P e \<Longrightarrow> haveOverlappingVariables (cluster_vars e) (cluster_vars c) \<Longrightarrow> P (merged c e)"
  shows "list_all P cs \<Longrightarrow> list_all P (cluster_loop cs)"
proof (induction cs rule: cluster_loop.induct)
  case (1 cs)
  have add: "list_all P (add_to_clusters e ds)" if "P e" "list_all P ds" for e ds
    using that by (induction ds) (use merge in \<open>auto simp flip: merged_def\<close>)
  have "list_all P (foldl (\<lambda>new e. add_to_clusters e new) ds es)" if "list_all P ds" "list_all P es" for ds es
    using that by (induction es arbitrary: ds) (simp_all add: add)
  with 1(2) have "list_all P (clusterIteration cs)" by (simp add: clusterIteration_def)
  with 1(1) show ?case by (subst cluster_loop.simps) (simp add: Let_def)
qed

definition tracks_vars :: "'x algebra_lib \<Rightarrow> 'x join_cluster \<Rightarrow> bool" where
  "tracks_vars lib c \<longleftrightarrow> set (cluster_vars c) = (\<Union>q \<in> set (cluster_entries c). set (inScopeVariables lib q))"

lemma tracks_vars_merged: "tracks_vars lib c \<Longrightarrow> tracks_vars lib e \<Longrightarrow> tracks_vars lib (merged c e)"
  by (simp add: tracks_vars_def merged_def)

text \<open>Entries that share a variable, directly or by other entries of a list.\<close>

definition shares_variable :: "'x algebra_lib \<Rightarrow> 'x operation \<Rightarrow> 'x operation \<Rightarrow> bool" where
  "shares_variable lib p q \<longleftrightarrow> set (inScopeVariables lib p) \<inter> set (inScopeVariables lib q) \<noteq> {}"

definition linked :: "'x algebra_lib \<Rightarrow> 'x operation list \<Rightarrow> 'x operation \<Rightarrow> 'x operation \<Rightarrow> bool" where
  "linked lib es p q \<longleftrightarrow> p \<in> set es \<and> q \<in> set es \<and> shares_variable lib p q"

definition connected :: "'x algebra_lib \<Rightarrow> 'x operation list \<Rightarrow> bool" where
  "connected lib es \<longleftrightarrow> (\<forall>p \<in> set es. \<forall>q \<in> set es. (linked lib es)\<^sup>*\<^sup>* p q)"

lemma linked_more: "(linked lib es)\<^sup>*\<^sup>* p q \<Longrightarrow> set es \<subseteq> set fs \<Longrightarrow> (linked lib fs)\<^sup>*\<^sup>* p q"
  by (erule rtranclp_mono [THEN predicate2D, rotated]) (auto simp: linked_def)

lemma connected_append:
  assumes "connected lib es" "connected lib fs" "p \<in> set es" "q \<in> set fs" "shares_variable lib p q"
  shows "connected lib (es @ fs)"
proof -
  let ?r = "(linked lib (es @ fs))\<^sup>*\<^sup>*"
  have "linked lib (es @ fs) p q"
    using assms(3-5) by (simp add: linked_def)
  then have pq: "?r p q" by (rule r_into_rtranclp)
  have "linked lib (es @ fs) q p"
    using assms(3-5) by (simp add: linked_def shares_variable_def Int_commute)
  then have qp: "?r q p" by (rule r_into_rtranclp)
  have in_es: "?r a b" if "a \<in> set es" "b \<in> set es" for a b
    using that assms(1) linked_more [of lib es a b "es @ fs"] by (simp add: connected_def)
  have in_fs: "?r a b" if "a \<in> set fs" "b \<in> set fs" for a b
    using that assms(2) linked_more [of lib fs a b "es @ fs"] by (simp add: connected_def)
  have via: "?r a p \<and> ?r p a" if "a \<in> set (es @ fs)" for a
  proof (cases "a \<in> set es")
    case False
    with that have a: "a \<in> set fs" by simp
    have "?r a p" by (rule rtranclp_trans [OF in_fs [OF a assms(4)] qp])
    moreover have "?r p a" by (rule rtranclp_trans [OF pq in_fs [OF assms(4) a]])
    ultimately show ?thesis ..
  qed (simp add: in_es assms(3))
  show ?thesis
    unfolding connected_def
  proof (intro ballI)
    fix a b assume "a \<in> set (es @ fs)" "b \<in> set (es @ fs)"
    with via have "?r a p" "?r p b" by blast+
    then show "?r a b" by (rule rtranclp_trans)
  qed
qed

definition plain_connected :: "'x algebra_lib \<Rightarrow> 'x join_cluster \<Rightarrow> bool" where
  "plain_connected lib c \<longleftrightarrow>
     tracks_vars lib c \<and> plain_names (set (cluster_vars c)) \<and> connected lib (cluster_entries c)"

lemma plain_connected_merged:
  assumes "plain_connected lib c" "plain_connected lib e" "haveOverlappingVariables (cluster_vars e) (cluster_vars c)"
  shows "plain_connected lib (merged c e)"
proof -
  have "set (cluster_vars e) \<inter> set (cluster_vars c) \<noteq> {}"
    using overlap_plain [OF assms(3)] assms(2) by (simp add: plain_connected_def)
  then obtain p q where "p \<in> set (cluster_entries c)" "q \<in> set (cluster_entries e)" "shares_variable lib p q"
    using assms(1,2) by (auto simp: plain_connected_def tracks_vars_def shares_variable_def)
  then have "connected lib (cluster_entries (merged c e))"
    using assms(1,2) by (auto simp: plain_connected_def merged_def intro: connected_append)
  moreover have "plain_names (set (cluster_vars (merged c e)))"
    using assms(1,2) by (auto simp: plain_connected_def merged_def plain_names_def)
  ultimately show ?thesis using assms(1,2) by (simp add: plain_connected_def tracks_vars_merged)
qed

text \<open>Clusters without a shared variable.\<close>

fun disjoint_clusters :: "'x join_cluster list \<Rightarrow> bool" where
  "disjoint_clusters [] = True"
| "disjoint_clusters (c # cs) =
     (list_all (\<lambda>d. \<not> haveOverlappingVariables (cluster_vars d) (cluster_vars c)) cs \<and> disjoint_clusters cs)"

lemma disjoint_snoc:
  "disjoint_clusters (cs @ [e]) \<longleftrightarrow>
     disjoint_clusters cs \<and> list_all (\<lambda>c. \<not> haveOverlappingVariables (cluster_vars e) (cluster_vars c)) cs"
  by (induction cs) auto

lemma add_to_clusters_full:
  "length (add_to_clusters e cs) = Suc (length cs) \<Longrightarrow>
     add_to_clusters e cs = cs @ [e] \<and>
     list_all (\<lambda>c. \<not> haveOverlappingVariables (cluster_vars e) (cluster_vars c)) cs"
  by (induction cs) (auto split: if_splits)

lemma clusters_fold_full:
  "length (foldl (\<lambda>new e. add_to_clusters e new) cs es) = length cs + length es \<Longrightarrow> disjoint_clusters cs \<Longrightarrow>
     foldl (\<lambda>new e. add_to_clusters e new) cs es = cs @ es \<and> disjoint_clusters (cs @ es)"
proof (induction es arbitrary: cs)
  case (Cons e es)
  have "length (add_to_clusters e cs) = Suc (length cs)"
    using Cons.prems(1) clusters_fold_length [of "add_to_clusters e cs" es] add_to_clusters_length [of e cs]
    by simp
  from add_to_clusters_full [OF this] have e: "add_to_clusters e cs = cs @ [e]"
    "list_all (\<lambda>c. \<not> haveOverlappingVariables (cluster_vars e) (cluster_vars c)) cs" by blast+
  have "foldl (\<lambda>new e. add_to_clusters e new) (cs @ [e]) es = (cs @ [e]) @ es \<and>
      disjoint_clusters ((cs @ [e]) @ es)"
    by (rule Cons.IH) (use Cons.prems e in \<open>simp_all add: disjoint_snoc\<close>)
  then show ?case by (simp add: e(1))
qed simp

lemma cluster_loop_disjoint: "disjoint_clusters (cluster_loop cs)"
proof (induction cs rule: cluster_loop.induct)
  case (1 cs)
  show ?case
  proof (cases "length cs = length (clusterIteration cs)")
    case True
    with clusters_fold_full [of "[]" cs] show ?thesis
      by (subst cluster_loop.simps) (simp add: clusterIteration_def)
  next
    case False
    with 1 show ?thesis by (subst cluster_loop.simps) simp
  qed
qed

lemma join_all_concat: "join_all (concat Ass) = join_all (map join_all Ass)"
  by (induction Ass) (simp_all add: join_all_append join_all_Cons)

lemma cluster_eval:
  assumes laws: "algebra_laws lib sem"
  shows "eval sem (cluster lib qs) = eval sem (Op_join qs)"
proof -
  have create: "eval sem (createJoin lib rs flat) = join_all (map (eval sem) rs)" for rs flat
    using laws by (simp add: algebra_laws_def)
  have one: "eval sem (if length rs = 1 then hd rs else createJoin lib rs flat) = join_all (map (eval sem) rs)"
    for rs flat
    by (cases rs; cases "tl rs") (auto simp: create)
  let ?cs = "cluster_loop (initial_clusters lib qs)"
  have "eval sem (cluster lib qs) = join_all (map (\<lambda>c. join_all (map (eval sem) (cluster_entries c))) ?cs)"
    unfolding cluster_def Let_def one map_map by (simp only: comp_def one)
  also have "\<dots> = join_all (map (eval sem) (concat (map cluster_entries ?cs)))"
    by (simp add: map_concat join_all_concat comp_def)
  also have "\<dots> = join_all (map (eval sem) qs)"
  proof (rule join_all_perm)
    have "mset (concat (map cluster_entries ?cs)) = mset qs"
      by (simp add: cluster_loop_entries) (simp add: initial_clusters_def comp_def)
    then show "mset (map (eval sem) (concat (map cluster_entries ?cs))) = mset (map (eval sem) qs)"
      by (simp only: mset_map)
  qed
  finally show ?thesis by simp
qed

text \<open>The final clusters, as lists of entries.\<close>

definition final_clusters :: "'x algebra_lib \<Rightarrow> 'x operation list \<Rightarrow> 'x operation list list" where
  "final_clusters lib qs = map cluster_entries (cluster_loop (initial_clusters lib qs))"

definition separate :: "'x algebra_lib \<Rightarrow> 'x operation list \<Rightarrow> 'x operation list \<Rightarrow> bool" where
  "separate lib es fs \<longleftrightarrow> (\<forall>p \<in> set es. \<forall>q \<in> set fs. \<not> shares_variable lib p q)"

lemma disjoint_separate:
  "disjoint_clusters cs \<Longrightarrow> list_all (tracks_vars lib) cs \<Longrightarrow> sorted_wrt (separate lib) (map cluster_entries cs)"
proof (induction cs)
  case (Cons c cs)
  have "separate lib (cluster_entries c) (cluster_entries d)" if "d \<in> set cs" for d
  proof -
    have "set (cluster_vars d) \<inter> set (cluster_vars c) = {}"
      using Cons.prems(1) that overlapI [of "cluster_vars d" "cluster_vars c"] by (auto simp: list_all_iff)
    moreover have "tracks_vars lib c" "tracks_vars lib d" using Cons.prems(2) that by (auto simp: list_all_iff)
    ultimately show ?thesis by (auto simp: separate_def shares_variable_def tracks_vars_def)
  qed
  with Cons show ?case by simp
qed simp

lemma initial_tracks: "list_all (tracks_vars lib) (initial_clusters lib qs)"
  by (simp add: initial_clusters_def list_all_iff tracks_vars_def)

lemma final_separate: "sorted_wrt (separate lib) (final_clusters lib qs)"
  unfolding final_clusters_def
  by (intro disjoint_separate cluster_loop_disjoint cluster_loop_all initial_tracks tracks_vars_merged)

lemma final_connected:
  assumes "\<forall>q \<in> set qs. plain_names (set (inScopeVariables lib q))"
  shows "list_all (connected lib) (final_clusters lib qs)"
proof -
  have "list_all (plain_connected lib) (initial_clusters lib qs)"
    using assms initial_tracks [of lib qs]
    by (simp add: initial_clusters_def list_all_iff plain_connected_def connected_def)
  then have "list_all (plain_connected lib) (cluster_loop (initial_clusters lib qs))"
    by (rule cluster_loop_all [rotated]) (rule plain_connected_merged)
  then show ?thesis by (auto simp: final_clusters_def list_all_iff plain_connected_def)
qed

text \<open>C32. Clustering the entries of a join stops and keeps the solutions of the join; the final clusters have the
  entries of the join between them, no entries of two clusters share a variable, and the entries of one
  cluster are connected by shared variables: the clusters are the connected components.  The last needs that no
  variable is named like a member of \<open>Object.prototype\<close>.\<close>

theorem cluster_keeps_join:
  assumes "algebra_laws lib sem"
  shows "eval sem (cluster lib qs) = eval sem (Op_join qs) \<and>
    mset (concat (final_clusters lib qs)) = mset qs \<and>
    sorted_wrt (separate lib) (final_clusters lib qs) \<and>
    ((\<forall>q \<in> set qs. plain_names (set (inScopeVariables lib q))) \<longrightarrow>
       list_all (connected lib) (final_clusters lib qs))"
  using cluster_eval [OF assms] final_separate [of lib qs] final_connected [of qs lib]
    cluster_loop_entries [of "initial_clusters lib qs"]
  by (simp add: initial_clusters_def final_clusters_def comp_def)

definition sample_entries :: "unit operation list" where
  "sample_entries = [pat (Variable ''x'') ''p'' (Variable ''y''), pat (Variable ''z'') ''p'' (Variable ''w''),
     pat (Variable ''u'') ''q'' (iri ''a''), pat (Variable ''y'') ''q'' (Variable ''z'')]"

lemma cluster_keeps_join_witness:
  "eval sample_sem (cluster plain_lib sample_entries) = eval sample_sem (Op_join sample_entries) \<and>
   list_all (connected plain_lib) (final_clusters plain_lib sample_entries) \<and>
   map (map plain_scope) (final_clusters plain_lib sample_entries) =
     [[[''x'', ''y''], [''y'', ''z''], [''z'', ''w'']], [[''u'']]]"
proof (intro conjI)
  have laws: "algebra_laws plain_lib sample_sem" by (simp add: sample_sem_def graph_laws)
  have plain: "\<forall>q \<in> set sample_entries. plain_names (set (inScopeVariables plain_lib q))" by code_simp
  show "eval sample_sem (cluster plain_lib sample_entries) = eval sample_sem (Op_join sample_entries)"
    "list_all (connected plain_lib) (final_clusters plain_lib sample_entries)"
    using cluster_keeps_join [OF laws, of sample_entries] plain by blast+
  show "map (map plain_scope) (final_clusters plain_lib sample_entries) =
     [[[''x'', ''y''], [''y'', ''z''], [''z'', ''w'']], [[''u'']]]"
    by code_simp
qed

text \<open>A variable named \<open>toString\<close> is taken to be shared with another entry, and a cluster is made of entries
  without a common variable.\<close>

theorem prototype_variable_clusters:
  "map (map plain_scope) (final_clusters plain_lib
     [pat (Variable ''x'') ''p'' (iri ''a''), pat (Variable ''toString'') ''p'' (iri ''a'')]) = [[[''x''], [''toString'']]]"
  by code_simp

end
