(* ===== verification/Type_Handling.thy ===== *)
theory Type_Handling
  imports RDF_Terms
begin

text \<open>
  The types of literals (\<open>packages/utils-expression-evaluator/lib/util/TypeHandling.ts\<close>,
  \<open>Consts.ts\<close>): the table of derived datatypes, the super types of a type, and how the super types
  of unknown datatypes are discovered and cached.

  A datatype IRI is one of the types that the evaluator knows, or another IRI.
\<close>

section \<open>Known types\<close>

datatype known_type =
    XSD_DATE_TIME_STAMP | XSD_DAY_TIME_DURATION | XSD_YEAR_MONTH_DURATION | RDF_LANG_STRING
  | RDF_DIR_LANG_STRING | XSD_STRING | XSD_NORMALIZED_STRING | XSD_TOKEN
  | XSD_LANGUAGE | XSD_NM_TOKEN | XSD_NAME | XSD_NC_NAME
  | XSD_ENTITY | XSD_ID | XSD_ID_REF | XSD_UNTYPED_ATOMIC
  | XSD_DOUBLE | XSD_FLOAT | XSD_DECIMAL | XSD_INTEGER
  | XSD_NON_POSITIVE_INTEGER | XSD_NEGATIVE_INTEGER | XSD_LONG | XSD_INT
  | XSD_SHORT | XSD_BYTE | XSD_NON_NEGATIVE_INTEGER | XSD_POSITIVE_INTEGER
  | XSD_UNSIGNED_LONG | XSD_UNSIGNED_INT | XSD_UNSIGNED_SHORT | XSD_UNSIGNED_BYTE
  | XSD_DATE_TIME | XSD_BOOLEAN | XSD_DATE | XSD_G_MONTH
  | XSD_G_MONTHDAY | XSD_G_YEAR | XSD_G_YEAR_MONTH | XSD_TIME
  | XSD_G_DAY | XSD_DURATION | SPARQL_NUMERIC | SPARQL_STRINGLY
  | XSD_ANY_URI

text \<open>The keys of the table in their order, and each type's direct super type; \<open>None\<close> for \<open>term\<close>.\<close>

definition known_types :: "known_type list" where
  "known_types =
     [XSD_DATE_TIME_STAMP, XSD_DAY_TIME_DURATION, XSD_YEAR_MONTH_DURATION, RDF_LANG_STRING,
      RDF_DIR_LANG_STRING, XSD_STRING, XSD_NORMALIZED_STRING, XSD_TOKEN,
      XSD_LANGUAGE, XSD_NM_TOKEN, XSD_NAME, XSD_NC_NAME,
      XSD_ENTITY, XSD_ID, XSD_ID_REF, XSD_UNTYPED_ATOMIC,
      XSD_DOUBLE, XSD_FLOAT, XSD_DECIMAL, XSD_INTEGER,
      XSD_NON_POSITIVE_INTEGER, XSD_NEGATIVE_INTEGER, XSD_LONG, XSD_INT,
      XSD_SHORT, XSD_BYTE, XSD_NON_NEGATIVE_INTEGER, XSD_POSITIVE_INTEGER,
      XSD_UNSIGNED_LONG, XSD_UNSIGNED_INT, XSD_UNSIGNED_SHORT, XSD_UNSIGNED_BYTE,
      XSD_DATE_TIME, XSD_BOOLEAN, XSD_DATE, XSD_G_MONTH,
      XSD_G_MONTHDAY, XSD_G_YEAR, XSD_G_YEAR_MONTH, XSD_TIME,
      XSD_G_DAY, XSD_DURATION, SPARQL_NUMERIC, SPARQL_STRINGLY,
      XSD_ANY_URI]"

primrec extensionTableInput :: "known_type \<Rightarrow> known_type option" where
  "extensionTableInput XSD_DATE_TIME_STAMP = Some XSD_DATE_TIME"
| "extensionTableInput XSD_DAY_TIME_DURATION = Some XSD_DURATION"
| "extensionTableInput XSD_YEAR_MONTH_DURATION = Some XSD_DURATION"
| "extensionTableInput RDF_LANG_STRING = Some SPARQL_STRINGLY"
| "extensionTableInput RDF_DIR_LANG_STRING = Some SPARQL_STRINGLY"
| "extensionTableInput XSD_STRING = Some SPARQL_STRINGLY"
| "extensionTableInput XSD_NORMALIZED_STRING = Some XSD_STRING"
| "extensionTableInput XSD_TOKEN = Some XSD_NORMALIZED_STRING"
| "extensionTableInput XSD_LANGUAGE = Some XSD_TOKEN"
| "extensionTableInput XSD_NM_TOKEN = Some XSD_TOKEN"
| "extensionTableInput XSD_NAME = Some XSD_TOKEN"
| "extensionTableInput XSD_NC_NAME = Some XSD_NAME"
| "extensionTableInput XSD_ENTITY = Some XSD_NC_NAME"
| "extensionTableInput XSD_ID = Some XSD_NC_NAME"
| "extensionTableInput XSD_ID_REF = Some XSD_NC_NAME"
| "extensionTableInput XSD_UNTYPED_ATOMIC = Some XSD_STRING"
| "extensionTableInput XSD_DOUBLE = Some SPARQL_NUMERIC"
| "extensionTableInput XSD_FLOAT = Some SPARQL_NUMERIC"
| "extensionTableInput XSD_DECIMAL = Some SPARQL_NUMERIC"
| "extensionTableInput XSD_INTEGER = Some XSD_DECIMAL"
| "extensionTableInput XSD_NON_POSITIVE_INTEGER = Some XSD_INTEGER"
| "extensionTableInput XSD_NEGATIVE_INTEGER = Some XSD_NON_POSITIVE_INTEGER"
| "extensionTableInput XSD_LONG = Some XSD_INTEGER"
| "extensionTableInput XSD_INT = Some XSD_LONG"
| "extensionTableInput XSD_SHORT = Some XSD_INT"
| "extensionTableInput XSD_BYTE = Some XSD_SHORT"
| "extensionTableInput XSD_NON_NEGATIVE_INTEGER = Some XSD_INTEGER"
| "extensionTableInput XSD_POSITIVE_INTEGER = Some XSD_NON_NEGATIVE_INTEGER"
| "extensionTableInput XSD_UNSIGNED_LONG = Some XSD_NON_NEGATIVE_INTEGER"
| "extensionTableInput XSD_UNSIGNED_INT = Some XSD_UNSIGNED_LONG"
| "extensionTableInput XSD_UNSIGNED_SHORT = Some XSD_UNSIGNED_INT"
| "extensionTableInput XSD_UNSIGNED_BYTE = Some XSD_UNSIGNED_SHORT"
| "extensionTableInput XSD_DATE_TIME = None"
| "extensionTableInput XSD_BOOLEAN = None"
| "extensionTableInput XSD_DATE = None"
| "extensionTableInput XSD_G_MONTH = None"
| "extensionTableInput XSD_G_MONTHDAY = None"
| "extensionTableInput XSD_G_YEAR = None"
| "extensionTableInput XSD_G_YEAR_MONTH = None"
| "extensionTableInput XSD_TIME = None"
| "extensionTableInput XSD_G_DAY = None"
| "extensionTableInput XSD_DURATION = None"
| "extensionTableInput SPARQL_NUMERIC = None"
| "extensionTableInput SPARQL_STRINGLY = None"
| "extensionTableInput XSD_ANY_URI = None"

primrec type_iri :: "known_type \<Rightarrow> string" where
  "type_iri XSD_DATE_TIME_STAMP = xsd @ ''dateTimeStamp''"
| "type_iri XSD_DAY_TIME_DURATION = xsd @ ''dayTimeDuration''"
| "type_iri XSD_YEAR_MONTH_DURATION = xsd @ ''yearMonthDuration''"
| "type_iri RDF_LANG_STRING = ''http://www.w3.org/1999/02/22-rdf-syntax-ns#langString''"
| "type_iri RDF_DIR_LANG_STRING = ''http://www.w3.org/1999/02/22-rdf-syntax-ns#dirLangString''"
| "type_iri XSD_STRING = xsd @ ''string''"
| "type_iri XSD_NORMALIZED_STRING = xsd @ ''normalizedString''"
| "type_iri XSD_TOKEN = xsd @ ''token''"
| "type_iri XSD_LANGUAGE = xsd @ ''language''"
| "type_iri XSD_NM_TOKEN = xsd @ ''NMTOKEN''"
| "type_iri XSD_NAME = xsd @ ''name''"
| "type_iri XSD_NC_NAME = xsd @ ''NCName''"
| "type_iri XSD_ENTITY = xsd @ ''ENTITY''"
| "type_iri XSD_ID = xsd @ ''ID''"
| "type_iri XSD_ID_REF = xsd @ ''IDREF''"
| "type_iri XSD_UNTYPED_ATOMIC = xsd @ ''untypedAtomic''"
| "type_iri XSD_DOUBLE = xsd @ ''double''"
| "type_iri XSD_FLOAT = xsd @ ''float''"
| "type_iri XSD_DECIMAL = xsd @ ''decimal''"
| "type_iri XSD_INTEGER = xsd @ ''integer''"
| "type_iri XSD_NON_POSITIVE_INTEGER = xsd @ ''nonPositiveInteger''"
| "type_iri XSD_NEGATIVE_INTEGER = xsd @ ''negativeInteger''"
| "type_iri XSD_LONG = xsd @ ''long''"
| "type_iri XSD_INT = xsd @ ''int''"
| "type_iri XSD_SHORT = xsd @ ''short''"
| "type_iri XSD_BYTE = xsd @ ''byte''"
| "type_iri XSD_NON_NEGATIVE_INTEGER = xsd @ ''nonNegativeInteger''"
| "type_iri XSD_POSITIVE_INTEGER = xsd @ ''positiveInteger''"
| "type_iri XSD_UNSIGNED_LONG = xsd @ ''unsignedLong''"
| "type_iri XSD_UNSIGNED_INT = xsd @ ''unsignedInt''"
| "type_iri XSD_UNSIGNED_SHORT = xsd @ ''unsignedShort''"
| "type_iri XSD_UNSIGNED_BYTE = xsd @ ''unsignedByte''"
| "type_iri XSD_DATE_TIME = xsd @ ''dateTime''"
| "type_iri XSD_BOOLEAN = xsd @ ''boolean''"
| "type_iri XSD_DATE = xsd @ ''date''"
| "type_iri XSD_G_MONTH = xsd @ ''gMonth''"
| "type_iri XSD_G_MONTHDAY = xsd @ ''gMonthDay''"
| "type_iri XSD_G_YEAR = xsd @ ''gYear''"
| "type_iri XSD_G_YEAR_MONTH = xsd @ ''gYearMonth''"
| "type_iri XSD_TIME = xsd @ ''time''"
| "type_iri XSD_G_DAY = xsd @ ''gDay''"
| "type_iri XSD_DURATION = xsd @ ''duration''"
| "type_iri SPARQL_NUMERIC = ''SPARQL_NUMERIC''"
| "type_iri SPARQL_STRINGLY = ''SPARQL_STRINGLY''"
| "type_iri XSD_ANY_URI = xsd @ ''anyURI''"

text \<open>The number of super types of a type: it bounds the recursion over the table.\<close>

primrec type_rank :: "known_type \<Rightarrow> nat" where
  "type_rank XSD_DATE_TIME_STAMP = 1"
| "type_rank XSD_DAY_TIME_DURATION = 1"
| "type_rank XSD_YEAR_MONTH_DURATION = 1"
| "type_rank RDF_LANG_STRING = 1"
| "type_rank RDF_DIR_LANG_STRING = 1"
| "type_rank XSD_STRING = 1"
| "type_rank XSD_NORMALIZED_STRING = 2"
| "type_rank XSD_TOKEN = 3"
| "type_rank XSD_LANGUAGE = 4"
| "type_rank XSD_NM_TOKEN = 4"
| "type_rank XSD_NAME = 4"
| "type_rank XSD_NC_NAME = 5"
| "type_rank XSD_ENTITY = 6"
| "type_rank XSD_ID = 6"
| "type_rank XSD_ID_REF = 6"
| "type_rank XSD_UNTYPED_ATOMIC = 2"
| "type_rank XSD_DOUBLE = 1"
| "type_rank XSD_FLOAT = 1"
| "type_rank XSD_DECIMAL = 1"
| "type_rank XSD_INTEGER = 2"
| "type_rank XSD_NON_POSITIVE_INTEGER = 3"
| "type_rank XSD_NEGATIVE_INTEGER = 4"
| "type_rank XSD_LONG = 3"
| "type_rank XSD_INT = 4"
| "type_rank XSD_SHORT = 5"
| "type_rank XSD_BYTE = 6"
| "type_rank XSD_NON_NEGATIVE_INTEGER = 3"
| "type_rank XSD_POSITIVE_INTEGER = 4"
| "type_rank XSD_UNSIGNED_LONG = 4"
| "type_rank XSD_UNSIGNED_INT = 5"
| "type_rank XSD_UNSIGNED_SHORT = 6"
| "type_rank XSD_UNSIGNED_BYTE = 7"
| "type_rank XSD_DATE_TIME = 0"
| "type_rank XSD_BOOLEAN = 0"
| "type_rank XSD_DATE = 0"
| "type_rank XSD_G_MONTH = 0"
| "type_rank XSD_G_MONTHDAY = 0"
| "type_rank XSD_G_YEAR = 0"
| "type_rank XSD_G_YEAR_MONTH = 0"
| "type_rank XSD_TIME = 0"
| "type_rank XSD_G_DAY = 0"
| "type_rank XSD_DURATION = 0"
| "type_rank SPARQL_NUMERIC = 0"
| "type_rank SPARQL_STRINGLY = 0"
| "type_rank XSD_ANY_URI = 0"

lemma known_types_complete: "k \<in> set known_types"
  by (cases k) (simp_all add: known_types_def)

lemma type_rank_super: "extensionTableInput k = Some s \<Longrightarrow> type_rank k = Suc (type_rank s)"
  by (cases k) auto

datatype lit_type = Known known_type | Custom string

definition asKnownLiteralType :: "string \<Rightarrow> known_type option" where
  "asKnownLiteralType ty = List.find (\<lambda>k. type_iri k = ty) known_types"

definition lit_type_of :: "string \<Rightarrow> lit_type" where
  "lit_type_of ty = (case asKnownLiteralType ty of Some k \<Rightarrow> Known k | None \<Rightarrow> Custom ty)"

section \<open>The table of super types\<close>

text \<open>A dictionary of super types: each super type of a type, and the type itself, with its distance
  from the top, and the field \<open>__depth\<close>.\<close>

record super_dict =
  dict_depth :: nat
  dict_types :: "(lit_type, nat) jsmap"

definition base_dict :: "lit_type \<Rightarrow> super_dict" where
  "base_dict ty = \<lparr>dict_depth = 0, dict_types = [(ty, 0)]\<rparr>"

definition extend_dict :: "lit_type \<Rightarrow> super_dict \<Rightarrow> super_dict" where
  "extend_dict ty d =
     \<lparr>dict_depth = dict_depth d + 1, dict_types = js_set (dict_types d) ty (dict_depth d + 1)\<rparr>"

function extensionTableBuilderInitKey ::
  "known_type \<Rightarrow> (known_type, super_dict) jsmap \<Rightarrow> (known_type, super_dict) jsmap" where
  "extensionTableBuilderInitKey k res =
     (case extensionTableInput k of
        None \<Rightarrow> js_set res k (base_dict (Known k))
      | Some v \<Rightarrow>
          let res' = (if js_has res v then res else extensionTableBuilderInitKey v res)
          in case js_get res' v of
               None \<Rightarrow> res'
             | Some d \<Rightarrow> js_set res' k (extend_dict (Known k) d))"
  by pat_completeness auto
termination
  by (relation "measure (type_rank \<circ> fst)") (auto simp: type_rank_super)

declare extensionTableBuilderInitKey.simps [simp del]

definition init_step :: "(known_type, super_dict) jsmap \<Rightarrow> known_type \<Rightarrow> (known_type, super_dict) jsmap" where
  "init_step res k = (if js_has res k then res else extensionTableBuilderInitKey k res)"

definition extensionTableInit :: "(known_type, super_dict) jsmap" where
  "extensionTableInit =
     foldl init_step [] known_types"

definition superTypeDictTable :: "known_type \<Rightarrow> super_dict" where
  "superTypeDictTable k = (case js_get extensionTableInit k of Some d \<Rightarrow> d | None \<Rightarrow> base_dict (Known k))"

text \<open>The chain of super types of a known type, from which the table is characterised.\<close>

function chain_dict :: "known_type \<Rightarrow> super_dict" where
  "chain_dict k =
     (case extensionTableInput k of
        None \<Rightarrow> base_dict (Known k)
      | Some v \<Rightarrow> extend_dict (Known k) (chain_dict v))"
  by pat_completeness auto
termination
  by (relation "measure type_rank") (auto simp: type_rank_super)

declare chain_dict.simps [simp del]

definition table_ok :: "(known_type, super_dict) jsmap \<Rightarrow> bool" where
  "table_ok res \<longleftrightarrow> (\<forall>k d. js_get res k = Some d \<longrightarrow> d = chain_dict k)"

lemma chain_None: "extensionTableInput k = None \<Longrightarrow> chain_dict k = base_dict (Known k)"
  by (subst chain_dict.simps) simp

lemma chain_Some:
  "extensionTableInput k = Some v \<Longrightarrow> chain_dict k = extend_dict (Known k) (chain_dict v)"
  by (subst chain_dict.simps) simp

lemma init_None:
  "extensionTableInput k = None \<Longrightarrow>
     extensionTableBuilderInitKey k res = js_set res k (base_dict (Known k))"
  by (subst extensionTableBuilderInitKey.simps) simp

lemma init_Some:
  assumes "extensionTableInput k = Some v"
    and "js_get (if js_has res v then res else extensionTableBuilderInitKey v res) v = Some d"
  shows "extensionTableBuilderInitKey k res =
    js_set (if js_has res v then res else extensionTableBuilderInitKey v res) k (extend_dict (Known k) d)"
  by (subst extensionTableBuilderInitKey.simps) (simp only: assms option.case Let_def)

lemma table_ok_set: "table_ok res \<Longrightarrow> table_ok (js_set res k (chain_dict k))"
  by (simp add: table_ok_def)

lemma table_okD: "table_ok res \<Longrightarrow> js_get res k = Some d \<Longrightarrow> d = chain_dict k"
  by (simp add: table_ok_def)

lemma init_key_ok:
  "table_ok res \<Longrightarrow>
     table_ok (extensionTableBuilderInitKey k res) \<and>
     js_get (extensionTableBuilderInitKey k res) k = Some (chain_dict k) \<and>
     (\<forall>j. js_get res j \<noteq> None \<longrightarrow> js_get (extensionTableBuilderInitKey k res) j \<noteq> None)"
proof (induction k res rule: extensionTableBuilderInitKey.induct)
  case (1 k res)
  show ?case
  proof (cases "extensionTableInput k")
    case None
    show ?thesis
      unfolding init_None [OF None] chain_None [OF None, symmetric]
      using table_ok_set [OF 1(2)] by simp
  next
    case (Some v)
    define res' where "res' = (if js_has res v then res else extensionTableBuilderInitKey v res)"
    have ok: "table_ok res' \<and> js_get res' v = Some (chain_dict v) \<and>
        (\<forall>j. js_get res j \<noteq> None \<longrightarrow> js_get res' j \<noteq> None)"
    proof (cases "js_has res v")
      case True
      then obtain d where "js_get res v = Some d" by blast
      with table_okD [OF 1(2) this] True 1(2) show ?thesis by (simp add: res'_def)
    next
      case False
      with 1(1) [OF Some False 1(2)] show ?thesis by (simp add: res'_def)
    qed
    have step: "extensionTableBuilderInitKey k res = js_set res' k (chain_dict k)"
      unfolding res'_def chain_Some [OF Some]
      by (rule init_Some [OF Some]) (use ok in \<open>simp only: res'_def\<close>)
    from ok table_ok_set [of res' k] show ?thesis unfolding step by auto
  qed
qed

lemma init_step_ok:
  assumes "table_ok res"
  shows "table_ok (if js_has res k then res else extensionTableBuilderInitKey k res) \<and>
    js_get (if js_has res k then res else extensionTableBuilderInitKey k res) k \<noteq> None \<and>
    (\<forall>j. js_get res j \<noteq> None \<longrightarrow>
       js_get (if js_has res k then res else extensionTableBuilderInitKey k res) j \<noteq> None)"
  using assms init_key_ok [OF assms, of k] by (cases "js_has res k") simp_all

lemma init_ok:
  "table_ok res \<Longrightarrow>
     table_ok (foldl init_step res ks) \<and>
     (\<forall>j. j \<in> set ks \<or> js_get res j \<noteq> None \<longrightarrow> js_get (foldl init_step res ks) j \<noteq> None)"
proof (induction ks arbitrary: res)
  case (Cons k ks)
  have step: "table_ok (init_step res k)" "js_get (init_step res k) k \<noteq> None"
    "\<And>j. js_get res j \<noteq> None \<Longrightarrow> js_get (init_step res k) j \<noteq> None"
    using init_step_ok [OF Cons.prems, of k] unfolding init_step_def by blast+
  note IH = Cons.IH [OF step(1)]
  show ?case
  proof (intro conjI allI impI)
    show "table_ok (foldl init_step res (k # ks))" using IH by simp
    fix j assume "j \<in> set (k # ks) \<or> js_get res j \<noteq> None"
    then have "j \<in> set ks \<or> js_get (init_step res k) j \<noteq> None" using step(2,3) by auto
    with IH show "js_get (foldl init_step res (k # ks)) j \<noteq> None" by (simp only: foldl.simps) blast
  qed
qed simp

lemma superTypeDictTable_chain: "superTypeDictTable k = chain_dict k"
proof -
  have "table_ok extensionTableInit \<and> js_get extensionTableInit k \<noteq> None"
    using init_ok [of "[]" known_types] known_types_complete [of k]
    unfolding extensionTableInit_def by (simp add: table_ok_def)
  then obtain d where d: "table_ok extensionTableInit" "js_get extensionTableInit k = Some d" by blast
  from table_okD [OF d] show ?thesis by (simp add: superTypeDictTable_def d(2))
qed

section \<open>Super types of any type\<close>

text \<open>\<open>getSuperTypes\<close>: the discoverer gives the direct super type of an unknown datatype, \<open>None\<close> for
  \<open>term\<close>; the cache is the state.  The recursion follows the discoverer and may not end; with no fuel
  left the result is \<open>None\<close>.\<close>

type_synonym type_cache = "(string, super_dict) jsmap"

fun getSuperTypes ::
  "nat \<Rightarrow> (string \<Rightarrow> lit_type option) \<Rightarrow> string \<Rightarrow> type_cache \<Rightarrow> (super_dict \<times> type_cache) option" where
  "getSuperTypes 0 discoverer ty cache = None"
| "getSuperTypes (Suc fuel) discoverer ty cache =
     (case js_get cache ty of
        Some d \<Rightarrow> Some (d, cache)
      | None \<Rightarrow>
          (case discoverer ty of
             None \<Rightarrow> Some (base_dict (Custom ty), js_set cache ty (base_dict (Custom ty)))
           | Some (Known k) \<Rightarrow>
               let d = extend_dict (Custom ty) (superTypeDictTable k) in Some (d, js_set cache ty d)
           | Some (Custom super) \<Rightarrow>
               (case getSuperTypes fuel discoverer super cache of
                  None \<Rightarrow> None
                | Some (d0, cache') \<Rightarrow>
                    let d = extend_dict (Custom ty) d0 in Some (d, js_set cache' ty d))))"

definition getSuperTypeDict ::
  "nat \<Rightarrow> (string \<Rightarrow> lit_type option) \<Rightarrow> lit_type \<Rightarrow> type_cache \<Rightarrow> (super_dict \<times> type_cache) option" where
  "getSuperTypeDict fuel discoverer ty cache =
     (case ty of
        Known k \<Rightarrow> Some (superTypeDictTable k, cache)
      | Custom c \<Rightarrow> getSuperTypes fuel discoverer c cache)"

text \<open>\<open>isSubTypeOf\<close> and \<open>isInternalSubType\<close>; the base type \<open>None\<close> is \<open>term\<close>.\<close>

definition isSubTypeOf ::
  "nat \<Rightarrow> (string \<Rightarrow> lit_type option) \<Rightarrow> lit_type option \<Rightarrow> known_type \<Rightarrow> type_cache \<Rightarrow> (bool \<times> type_cache) option" where
  "isSubTypeOf fuel discoverer base arg cache =
     (case base of
        None \<Rightarrow> Some (False, cache)
      | Some ty \<Rightarrow>
          map_option (\<lambda>(d, cache'). (js_has (dict_types d) (Known arg), cache'))
            (getSuperTypeDict fuel discoverer ty cache))"

definition isInternalSubType :: "known_type option \<Rightarrow> known_type \<Rightarrow> bool" where
  "isInternalSubType base arg =
     (case base of None \<Rightarrow> False | Some k \<Rightarrow> js_has (dict_types (superTypeDictTable k)) (Known arg))"

section \<open>The order of types\<close>

text \<open>A type derives from another one when a chain of the table leads from it to the other.\<close>

definition derives :: "known_type \<Rightarrow> known_type \<Rightarrow> bool" where
  "derives = (\<lambda>a b. extensionTableInput a = Some b)\<^sup>*\<^sup>*"

lemma derives_refl: "derives k k"
  by (simp add: derives_def)

lemma derives_None: "extensionTableInput k = None \<Longrightarrow> derives k j \<longleftrightarrow> j = k"
  unfolding derives_def by (auto elim: converse_rtranclpE)

lemma derives_Some: "extensionTableInput k = Some v \<Longrightarrow> derives k j \<longleftrightarrow> j = k \<or> derives v j"
  unfolding derives_def by (auto elim: converse_rtranclpE intro: converse_rtranclp_into_rtranclp)

lemma derives_rank: "derives k j \<Longrightarrow> type_rank j \<le> type_rank k \<and> (type_rank j = type_rank k \<longrightarrow> j = k)"
  unfolding derives_def
proof (induction rule: converse_rtranclp_induct)
  case (step k v)
  from type_rank_super [OF step(1)] step(3) show ?case by simp
qed simp

lemma chain_dict_depth: "dict_depth (chain_dict k) = type_rank k"
proof (induction k rule: chain_dict.induct)
  case (1 k)
  show ?case
  proof (cases "extensionTableInput k")
    case None
    then have "type_rank k = 0" by (cases k) simp_all
    with None show ?thesis by (simp add: chain_None base_dict_def)
  next
    case (Some v)
    with 1 show ?thesis by (simp add: chain_Some extend_dict_def type_rank_super)
  qed
qed

lemma chain_dict_types:
  "js_get (dict_types (chain_dict k)) (Known j) = (if derives k j then Some (type_rank j) else None)"
proof (induction k rule: chain_dict.induct)
  case (1 k)
  show ?case
  proof (cases "extensionTableInput k")
    case None
    then have "type_rank k = 0" by (cases k) simp_all
    with None show ?thesis by (simp add: chain_None base_dict_def derives_None)
  next
    case (Some v)
    from 1 [OF Some] show ?thesis
      unfolding chain_Some [OF Some] derives_Some [OF Some]
      by (simp add: extend_dict_def chain_dict_depth type_rank_super [OF Some])
  qed
qed

text \<open>C33. The table of super types, however it is built up, is the order of derivation of the datatypes: a
  known type is a subtype of exactly those it derives from, no two types are subtypes of each other,
  and the priority of a super type is the length of its own chain, so a more specific super type has a
  higher priority.\<close>

theorem subtypes_are_derivations:
  "isInternalSubType (Some k) j = derives k j \<and>
   (isInternalSubType (Some k) j \<and> isInternalSubType (Some j) k) = (j = k) \<and>
   js_get (dict_types (superTypeDictTable k)) (Known j) = (if derives k j then Some (type_rank j) else None)"
proof -
  have sub: "isInternalSubType (Some k) j = derives k j" for k j
    by (simp add: isInternalSubType_def superTypeDictTable_chain chain_dict_types)
  have "derives k j \<and> derives j k \<Longrightarrow> j = k"
    using derives_rank [of k j] derives_rank [of j k] by auto
  then show ?thesis by (auto simp: sub superTypeDictTable_chain chain_dict_types derives_refl)
qed

section \<open>The cache of discovered types\<close>

fun discovered :: "nat \<Rightarrow> (string \<Rightarrow> lit_type option) \<Rightarrow> string \<Rightarrow> super_dict option" where
  "discovered 0 discoverer ty = None"
| "discovered (Suc fuel) discoverer ty =
     (case discoverer ty of
        None \<Rightarrow> Some (base_dict (Custom ty))
      | Some (Known k) \<Rightarrow> Some (extend_dict (Custom ty) (superTypeDictTable k))
      | Some (Custom super) \<Rightarrow> map_option (extend_dict (Custom ty)) (discovered fuel discoverer super))"

definition cache_ok :: "(string \<Rightarrow> lit_type option) \<Rightarrow> type_cache \<Rightarrow> bool" where
  "cache_ok discoverer cache \<longleftrightarrow>
     (\<forall>ty d. js_get cache ty = Some d \<longrightarrow> (\<exists>n. discovered n discoverer ty = Some d))"

lemma discovered_mono: "discovered n D ty = Some d \<Longrightarrow> n \<le> m \<Longrightarrow> discovered m D ty = Some d"
proof (induction n D ty arbitrary: m d rule: discovered.induct)
  case (2 fuel D ty)
  then obtain m' where "m = Suc m'" "fuel \<le> m'" by (cases m) auto
  note m = this
  show ?case
  proof (cases "D ty")
    case None
    with 2(2) m show ?thesis by simp
  next
    case (Some super)
    note super = this
    show ?thesis
    proof (cases super)
      case (Known k)
      with 2(2) m super show ?thesis by simp
    next
      case (Custom c)
      with 2(2) super obtain d0 where d0: "discovered fuel D c = Some d0" "d = extend_dict (Custom ty) d0"
        by auto
      from 2(1) [OF super Custom d0(1) m(2)] show ?thesis using m(1) super Custom d0(2) by simp
    qed
  qed
qed simp

lemma discovered_unique: "discovered n D ty = Some d \<Longrightarrow> discovered m D ty = Some d' \<Longrightarrow> d = d'"
  using discovered_mono [of n D ty d "max n m"] discovered_mono [of m D ty d' "max n m"] by simp

lemma cache_ok_set:
  "cache_ok D cache \<Longrightarrow> discovered n D ty = Some d \<Longrightarrow> cache_ok D (js_set cache ty d)"
  by (auto simp: cache_ok_def)

lemma getSuperTypes_discovered:
  "cache_ok D cache \<Longrightarrow> getSuperTypes fuel D ty cache = Some (d, cache') \<Longrightarrow>
     (\<exists>n. discovered n D ty = Some d) \<and> cache_ok D cache'"
proof (induction fuel D ty cache arbitrary: d cache' rule: getSuperTypes.induct)
  case (2 fuel D ty cache)
  show ?case
  proof (cases "js_get cache ty")
    case None
    note cached = this
    show ?thesis
    proof (cases "D ty")
      case None
      then have found: "discovered 1 D ty = Some (base_dict (Custom ty))" by simp
      from 2(3) None cached have "d = base_dict (Custom ty) \<and> cache' = js_set cache ty d" by auto
      with found cache_ok_set [OF 2(2) found] show ?thesis by blast
    next
      case (Some super)
      show ?thesis
      proof (cases super)
        case (Known k)
        then have found: "discovered 1 D ty = Some (extend_dict (Custom ty) (superTypeDictTable k))"
          using Some by simp
        from 2(3) Some Known cached
        have "d = extend_dict (Custom ty) (superTypeDictTable k) \<and> cache' = js_set cache ty d"
          by (auto simp: Let_def)
        with found cache_ok_set [OF 2(2) found] show ?thesis by blast
      next
        case (Custom c)
        with 2(3) Some cached obtain d0 cache0 where rec: "getSuperTypes fuel D c cache = Some (d0, cache0)"
          "d = extend_dict (Custom ty) d0" "cache' = js_set cache0 ty d"
          by (auto simp: Let_def split: option.splits)
        with 2(1) [OF cached Some Custom 2(2)] obtain n where n: "discovered n D c = Some d0" "cache_ok D cache0"
          by blast
        have "discovered (Suc n) D ty = Some d" using Some Custom n rec by simp
        with cache_ok_set [OF n(2) this] rec show ?thesis by blast
      qed
    qed
  next
    case (Some d1)
    with 2(2,3) show ?thesis by (auto simp: cache_ok_def)
  qed
qed simp

lemma getSuperTypes_complete:
  "cache_ok D cache \<Longrightarrow> discovered fuel D ty = Some d \<Longrightarrow>
     \<exists>cache'. getSuperTypes fuel D ty cache = Some (d, cache') \<and> cache_ok D cache'"
proof (induction fuel D ty arbitrary: d rule: discovered.induct)
  case (2 fuel D ty)
  note this_ok = cache_ok_set [OF 2(2) 2(3)]
  show ?case
  proof (cases "js_get cache ty")
    case cached: None
    show ?thesis
    proof (cases "D ty")
      case None
      with 2(3) cached this_ok show ?thesis by auto
    next
      case super: (Some super)
      show ?thesis
      proof (cases super)
        case (Known k)
        with 2(3) super cached this_ok show ?thesis by (auto simp: Let_def)
      next
        case (Custom c)
        with 2(3) super obtain d0 where d0: "discovered fuel D c = Some d0" "d = extend_dict (Custom ty) d0"
          by auto
        from 2(1) [OF super Custom 2(2) d0(1)] obtain cache'
          where rec: "getSuperTypes fuel D c cache = Some (d0, cache')" "cache_ok D cache'" by blast
        show ?thesis
          using rec(1) super Custom cached d0(2) cache_ok_set [OF rec(2) 2(3)] by (simp add: Let_def)
      qed
    qed
  next
    case (Some d1)
    then obtain n where "discovered n D ty = Some d1" using 2(2) by (auto simp: cache_ok_def)
    with 2(3) discovered_unique have "d1 = d" by blast
    with Some 2(2) show ?thesis by simp
  qed
qed simp

end
