(* ===== verification/Overload_Tree.thy ===== *)
theory Overload_Tree
  imports Type_Handling
begin

text \<open>
  The overloads of a function
  (\<open>packages/utils-expression-evaluator/lib/functions/OverloadTree.ts\<close>): a trie from the types of the
  arguments to implementations.  Adding an overload also adds it for the types that are promoted to
  its types.  The search is in \<open>Overload_Search\<close>.

  An implementation maps a configuration and the arguments to a result or a thrown error.  The
  functions that convert a promoted argument are a parameter.
\<close>

section \<open>Types of arguments\<close>

datatype term_type = T_namedNode | T_literal | T_blankNode | T_quad | T_defaultGraph

datatype arg_type = Arg_term | Arg_termType term_type | Arg_literal known_type

fun asTermType :: "term_type \<Rightarrow> term_type option" where
  "asTermType T_defaultGraph = None"
| "asTermType ty = Some ty"

text \<open>A general type is a type of terms, or \<open>None\<close> for \<open>term\<close>; an override type is a type of literals, or
  \<open>None\<close> for \<open>term\<close>.\<close>

fun asGeneralType :: "arg_type \<Rightarrow> term_type option option" where
  "asGeneralType Arg_term = Some None"
| "asGeneralType (Arg_termType ty) = map_option Some (asTermType ty)"
| "asGeneralType (Arg_literal k) = None"

fun asOverrideType :: "arg_type \<Rightarrow> known_type option option" where
  "asOverrideType Arg_term = Some None"
| "asOverrideType (Arg_termType ty) = None"
| "asOverrideType (Arg_literal k) = Some (Some k)"

datatype conversion = To_string | To_double | To_float

fun typePromotion :: "arg_type \<Rightarrow> (known_type \<times> conversion) list" where
  "typePromotion (Arg_literal XSD_STRING) = [(XSD_ANY_URI, To_string)]"
| "typePromotion (Arg_literal XSD_DOUBLE) = [(XSD_FLOAT, To_double), (XSD_DECIMAL, To_double)]"
| "typePromotion (Arg_literal XSD_FLOAT) = [(XSD_DECIMAL, To_float)]"
| "typePromotion ty = []"

section \<open>The tree\<close>

text \<open>The entry of \<open>literalOverLoads\<close> for \<open>term\<close> holds the same object as \<open>generalOverloads.term\<close>: it is
  \<open>None\<close>, a reference to it.\<close>

datatype 'f overload_tree = OverloadTree
  (implementation: "'f option")
  (promotionCount: "nat option")
  (generalOverloads: "(term_type option \<times> 'f overload_tree) list")
  (literalOverLoads: "(known_type \<times> 'f overload_tree) option list")
  (depth: nat)

definition new_tree :: "nat \<Rightarrow> 'f overload_tree" where
  "new_tree d = OverloadTree None None [] [] d"

fun find_literal :: "known_type \<Rightarrow> (known_type \<times> 'f) option list \<Rightarrow> 'f option" where
  "find_literal k [] = None"
| "find_literal k (None # es) = find_literal k es"
| "find_literal k (Some (k', t) # es) = (if k = k' then Some t else find_literal k es)"

fun replace_literal :: "known_type \<Rightarrow> 'f \<Rightarrow> (known_type \<times> 'f) option list \<Rightarrow> (known_type \<times> 'f) option list" where
  "replace_literal k t [] = [Some (k, t)]"
| "replace_literal k t (None # es) = None # replace_literal k t es"
| "replace_literal k t (Some (k', t') # es) =
     (if k = k' then Some (k, t) # es else Some (k', t') # replace_literal k t es)"

definition getSubtree :: "'f overload_tree \<Rightarrow> arg_type \<Rightarrow> 'f overload_tree option" where
  "getSubtree t overrideType =
     (case asGeneralType overrideType of
        Some generalType \<Rightarrow> js_get (generalOverloads t) generalType
      | None \<Rightarrow>
          (case overrideType of
             Arg_literal k \<Rightarrow> find_literal k (literalOverLoads t)
           | _ \<Rightarrow> None))"

text \<open>The subtree of a type after a change, or a new one: the entry it has, or new entries.\<close>

definition put_subtree :: "arg_type \<Rightarrow> 'f overload_tree \<Rightarrow> 'f overload_tree \<Rightarrow> 'f overload_tree" where
  "put_subtree ty sub t =
     OverloadTree (implementation t) (promotionCount t)
       (case asGeneralType ty of Some g \<Rightarrow> js_set (generalOverloads t) g sub | None \<Rightarrow> generalOverloads t)
       (case asOverrideType ty of
          None \<Rightarrow> literalOverLoads t
        | Some None \<Rightarrow> (case getSubtree t ty of
              None \<Rightarrow> literalOverLoads t @ [None]
            | Some sub' \<Rightarrow> literalOverLoads t)
        | Some (Some k) \<Rightarrow> replace_literal k sub (literalOverLoads t))
       (depth t)"

text \<open>\<open>getImplementationExact\<close>: \<open>find_node\<close> is its loop.\<close>

fun find_node :: "'f overload_tree \<Rightarrow> arg_type list \<Rightarrow> 'f overload_tree option" where
  "find_node t [] = Some t"
| "find_node t (ty # tys) = (case getSubtree t ty of None \<Rightarrow> None | Some sub \<Rightarrow> find_node sub tys)"

definition getImplementationExact :: "'f overload_tree \<Rightarrow> arg_type list \<Rightarrow> 'f option" where
  "getImplementationExact t args =
     (case find_node t args of None \<Rightarrow> None | Some node \<Rightarrow> implementation node)"

section \<open>Adding overloads\<close>

type_synonym ('c, 'v, 'r) impl = "'c \<Rightarrow> 'v list \<Rightarrow> string + 'r"

text \<open>The implementation with the argument at a position converted first; to convert an argument that
  is not there throws.\<close>

definition promoted_impl ::
  "(conversion \<Rightarrow> 'v \<Rightarrow> 'v) \<Rightarrow> conversion \<Rightarrow> nat \<Rightarrow> ('c, 'v, 'r) impl \<Rightarrow> ('c, 'v, 'r) impl" where
  "promoted_impl conv c d func = (\<lambda>funcConf args.
     if d < length args
     then func funcConf (take d args @ [conv c (args ! d)] @ drop (d + 1) args)
     else Inl ''TypeError'')"

definition nextTree :: "'f overload_tree \<Rightarrow> arg_type \<Rightarrow> 'f overload_tree" where
  "nextTree t ty = (case getSubtree t ty of Some sub \<Rightarrow> sub | None \<Rightarrow> new_tree (depth t + 1))"

primrec addOverload_from ::
  "(conversion \<Rightarrow> 'v \<Rightarrow> 'v) \<Rightarrow> arg_type list \<Rightarrow> ('c, 'v, 'r) impl \<Rightarrow> nat \<Rightarrow>
     ('c, 'v, 'r) impl overload_tree \<Rightarrow> ('c, 'v, 'r) impl overload_tree" where
  "addOverload_from conv [] func n t =
     (if promotionCount t = None \<or> n \<le> the (promotionCount t)
      then OverloadTree (Some func) (Some n) (generalOverloads t) (literalOverLoads t) (depth t)
      else t)"
| "addOverload_from conv (argumentType # argumentTypes) func n t =
     foldl (\<lambda>t (typeToPromote, c).
         put_subtree (Arg_literal typeToPromote)
           (addOverload_from conv argumentTypes (promoted_impl conv c (depth t) func) (n + 1)
             (nextTree t (Arg_literal typeToPromote))) t)
       (put_subtree argumentType (addOverload_from conv argumentTypes func n (nextTree t argumentType)) t)
       (typePromotion argumentType)"

definition addOverload ::
  "(conversion \<Rightarrow> 'v \<Rightarrow> 'v) \<Rightarrow> arg_type list \<Rightarrow> ('c, 'v, 'r) impl \<Rightarrow>
     ('c, 'v, 'r) impl overload_tree \<Rightarrow> ('c, 'v, 'r) impl overload_tree" where
  "addOverload conv argumentTypes func t = addOverload_from conv argumentTypes func 0 t"

section \<open>The tree as a map\<close>

definition valid_arg :: "arg_type \<Rightarrow> bool" where
  "valid_arg ty \<longleftrightarrow> ty \<noteq> Arg_termType T_defaultGraph"

lemma find_replace [simp]:
  "find_literal k (replace_literal k' t es) = (if k = k' then Some t else find_literal k es)"
  by (induction k' t es rule: replace_literal.induct) auto

lemma find_literal_append [simp]: "find_literal k (es @ [None]) = find_literal k es"
  by (induction k es rule: find_literal.induct) auto

lemma invalid_arg [simp]: "getSubtree t (Arg_termType T_defaultGraph) = None"
  by (simp add: getSubtree_def)

lemma getSubtree_put:
  "valid_arg ty \<Longrightarrow> getSubtree (put_subtree ty sub t) ty' = (if ty' = ty then Some sub else getSubtree t ty')"
proof -
  assume "valid_arg ty"
  then show ?thesis
    by (cases ty; cases ty') (auto simp: getSubtree_def put_subtree_def valid_arg_def
        split: option.splits elim!: asTermType.elims)
qed

lemma getSubtree_put_invalid: "\<not> valid_arg ty \<Longrightarrow> put_subtree ty sub t = t"
  by (simp add: valid_arg_def put_subtree_def)

lemma put_subtree_fields [simp]:
  "implementation (put_subtree ty sub t) = implementation t"
  "promotionCount (put_subtree ty sub t) = promotionCount t"
  "depth (put_subtree ty sub t) = depth t"
  by (simp_all add: put_subtree_def)

lemma new_tree_fields [simp]:
  "getSubtree (new_tree d) ty = None" "implementation (new_tree d) = None"
  "promotionCount (new_tree d) = None" "depth (new_tree d) = d"
  by (auto simp: new_tree_def getSubtree_def split: option.splits arg_type.splits)

text \<open>What the tree holds for a list of types: the number of promotions and the implementation.\<close>

definition slot :: "'f overload_tree \<Rightarrow> arg_type list \<Rightarrow> nat option \<times> 'f option" where
  "slot t us =
     (case find_node t us of None \<Rightarrow> (None, None) | Some node \<Rightarrow> (promotionCount node, implementation node))"

definition put_slot :: "nat \<Rightarrow> 'f \<Rightarrow> nat option \<times> 'f option \<Rightarrow> nat option \<times> 'f option" where
  "put_slot n f s = (if fst s = None \<or> n \<le> the (fst s) then (Some n, Some f) else s)"

lemma slot_simps:
  "slot t [] = (promotionCount t, implementation t)"
  "slot t (u # us) = (case getSubtree t u of None \<Rightarrow> (None, None) | Some sub \<Rightarrow> slot sub us)"
  by (auto simp: slot_def split: option.splits)

lemma slot_new_tree: "slot (new_tree d) us = (None, None)"
  by (cases us) (simp_all add: slot_simps)

lemma exact_slot: "getImplementationExact t us = snd (slot t us)"
  by (auto simp: getImplementationExact_def slot_def split: option.splits)

text \<open>The overloads that adding one overload gives: the types themselves, and those with some types
  replaced by types that are promoted to them, with the number of replacements and the implementation
  that converts these arguments.\<close>

fun promoted :: "(conversion \<Rightarrow> 'v \<Rightarrow> 'v) \<Rightarrow> nat \<Rightarrow> arg_type list \<Rightarrow> arg_type list \<Rightarrow> ('c, 'v, 'r) impl \<Rightarrow>
    (nat \<times> ('c, 'v, 'r) impl) option" where
  "promoted conv d [] [] func = Some (0, func)"
| "promoted conv d (t # ts) (u # us) func =
     (if u = t then (if valid_arg t then promoted conv (d + 1) ts us func else None)
      else case u of
             Arg_literal k \<Rightarrow>
               (case map_of (typePromotion t) k of
                  None \<Rightarrow> None
                | Some c \<Rightarrow>
                    map_option (\<lambda>(n, f). (n + 1, f)) (promoted conv (d + 1) ts us (promoted_impl conv c d func)))
           | _ \<Rightarrow> None)"
| "promoted conv d ts us func = None"

text \<open>The shape of the trees: no type of literals has two entries, none is for default graphs, and each
  subtree is one deeper.\<close>

fun literal_keys :: "(known_type \<times> 'f) option list \<Rightarrow> known_type list" where
  "literal_keys [] = []"
| "literal_keys (None # es) = literal_keys es"
| "literal_keys (Some (k, t) # es) = k # literal_keys es"

lemma find_literal_keys: "find_literal k es = None \<longleftrightarrow> k \<notin> set (literal_keys es)"
  by (induction es rule: literal_keys.induct) auto

lemma literal_keys_replace [simp]:
  "literal_keys (replace_literal k t es) =
     (if k \<in> set (literal_keys es) then literal_keys es else literal_keys es @ [k])"
  by (induction k t es rule: replace_literal.induct) auto

lemma literal_keys_append [simp]: "literal_keys (es @ [None]) = literal_keys es"
  by (induction es rule: literal_keys.induct) auto

definition wf_entries :: "'f overload_tree \<Rightarrow> bool" where
  "wf_entries t \<longleftrightarrow>
     distinct (literal_keys (literalOverLoads t)) \<and> js_get (generalOverloads t) (Some T_defaultGraph) = None"

lemma put_subtree_keys: "wf_entries t \<Longrightarrow> wf_entries (put_subtree ty sub t)"
  by (cases ty rule: asGeneralType.cases) (auto simp: put_subtree_def wf_entries_def elim!: asTermType.elims split: option.split)

inductive wf_tree :: "'f overload_tree \<Rightarrow> bool" where
  wf_treeI: "wf_entries t \<Longrightarrow> (\<And>ty sub. getSubtree t ty = Some sub \<Longrightarrow> depth sub = Suc (depth t) \<and> wf_tree sub) \<Longrightarrow> wf_tree t"

inductive_simps wf_tree_iff: "wf_tree t"

lemma wf_new_tree [simp]: "wf_tree (new_tree d)"
  by (simp add: wf_tree_iff [of "new_tree d"]) (simp add: new_tree_def wf_entries_def)

section \<open>Adding an overload to the map\<close>

abbreviation promotion_step ::
  "(conversion \<Rightarrow> 'v \<Rightarrow> 'v) \<Rightarrow> arg_type list \<Rightarrow> ('c, 'v, 'r) impl \<Rightarrow> nat \<Rightarrow>
     ('c, 'v, 'r) impl overload_tree \<Rightarrow> known_type \<times> conversion \<Rightarrow> ('c, 'v, 'r) impl overload_tree" where
  "promotion_step conv tys func n \<equiv> (\<lambda>t (k, c).
     put_subtree (Arg_literal k)
       (addOverload_from conv tys (promoted_impl conv c (depth t) func) (n + 1) (nextTree t (Arg_literal k))) t)"

lemma valid_literal [simp]: "valid_arg (Arg_literal k)" "valid_arg Arg_term"
  by (simp_all add: valid_arg_def)

lemma promotion_steps_fields [simp]:
  "implementation (foldl (promotion_step conv tys func n) t ps) = implementation t"
  "promotionCount (foldl (promotion_step conv tys func n) t ps) = promotionCount t"
  "depth (foldl (promotion_step conv tys func n) t ps) = depth t"
  by (induction ps arbitrary: t) auto

lemma getSubtree_promotions:
  "distinct (map fst ps) \<Longrightarrow>
   getSubtree (foldl (promotion_step conv tys func n) t ps) ty =
     (case ty of
        Arg_literal k \<Rightarrow>
          (case map_of ps k of
             Some c \<Rightarrow> Some (addOverload_from conv tys (promoted_impl conv c (depth t) func) (n + 1)
                              (nextTree t ty))
           | None \<Rightarrow> getSubtree t ty)
      | _ \<Rightarrow> getSubtree t ty)"
proof (induction ps arbitrary: t)
  case Nil
  then show ?case by (simp split: arg_type.split)
next
  case (Cons p ps)
  obtain k c where p: "p = (k, c)" by fastforce
  have ps: "map_of ps k = None" "distinct (map fst ps)"
    using Cons.prems by (simp_all add: p map_of_eq_None_iff)
  let ?t = "promotion_step conv tys func n t p"
  have "getSubtree (foldl (promotion_step conv tys func n) t (p # ps)) ty =
      getSubtree (foldl (promotion_step conv tys func n) ?t ps) ty"
    by simp
  also note Cons.IH [OF ps(2), of ?t]
  finally show ?case
    using ps(1) by (cases ty) (auto simp: p getSubtree_put nextTree_def split: option.splits)
qed

lemma promotions_distinct: "distinct (map fst (typePromotion ty))"
  by (induction ty rule: typePromotion.induct) simp_all

lemma promotions_other: "map_of (typePromotion (Arg_literal k)) k = None"
  by (cases k) simp_all

lemma promotions_valid: "\<not> valid_arg ty \<Longrightarrow> typePromotion ty = []"
  by (simp add: valid_arg_def)

lemma addOverload_fields [simp]: "depth (addOverload_from conv tys func n t) = depth t"
proof (cases tys)
  case (Cons ty tys')
  show ?thesis
    unfolding Cons addOverload_from.simps promotion_steps_fields put_subtree_fields by (rule refl)
qed simp

lemma getSubtree_addOverload:
  "getSubtree (addOverload_from conv (ty # tys) func n t) u =
     (if u = ty then (if valid_arg ty then Some (addOverload_from conv tys func n (nextTree t ty)) else None)
      else case u of
             Arg_literal k \<Rightarrow>
               (case map_of (typePromotion ty) k of
                  Some c \<Rightarrow> Some (addOverload_from conv tys (promoted_impl conv c (depth t) func) (n + 1)
                                   (nextTree t u))
                | None \<Rightarrow> getSubtree t u)
           | _ \<Rightarrow> getSubtree t u)"
proof (cases "valid_arg ty")
  case True
  have "map_of (typePromotion ty) k = None" if "ty = Arg_literal k" for k
    using promotions_other that by simp
  then show ?thesis
    unfolding addOverload_from.simps getSubtree_promotions [OF promotions_distinct]
    by (cases u) (auto simp: getSubtree_put [OF True] True nextTree_def split: option.splits)
next
  case False
  then have ty: "ty = Arg_termType T_defaultGraph" by (simp add: valid_arg_def)
  show ?thesis
    unfolding addOverload_from.simps promotions_valid [OF False] getSubtree_put_invalid [OF False]
    by (cases u) (auto simp: ty valid_arg_def)
qed

lemma addOverload_root [simp]:
  "implementation (addOverload_from conv (ty # tys) func n t) = implementation t"
  "promotionCount (addOverload_from conv (ty # tys) func n t) = promotionCount t"
  unfolding addOverload_from.simps promotion_steps_fields put_subtree_fields by (rule refl)+

lemma wf_nextTree:
  "wf_tree t \<Longrightarrow> wf_tree (nextTree t ty) \<and> depth (nextTree t ty) = Suc (depth t)"
  using wf_tree_iff [of t] by (auto simp: nextTree_def split: option.split)

lemma getSubtree_leaf: "getSubtree (addOverload_from conv [] func n t) u = getSubtree t u"
proof -
  have "generalOverloads (addOverload_from conv [] func n t) = generalOverloads t"
    "literalOverLoads (addOverload_from conv [] func n t) = literalOverLoads t"
    by simp_all
  then show ?thesis by (simp only: getSubtree_def)
qed

lemma addOverload_leaf_entries: "wf_entries (addOverload_from conv [] func n t) = wf_entries t"
  by (simp add: wf_entries_def)

lemma promotion_steps_keys:
  "wf_entries t \<Longrightarrow> wf_entries (foldl (promotion_step conv tys func n) t ps)"
  by (induction ps arbitrary: t) (auto simp del: addOverload_from.simps intro: put_subtree_keys)

lemma addOverload_keys:
  "wf_entries t \<Longrightarrow> wf_entries (addOverload_from conv (ty # tys) func n t)"
  unfolding addOverload_from.simps by (intro promotion_steps_keys put_subtree_keys)

lemma wf_addOverload: "wf_tree t \<Longrightarrow> wf_tree (addOverload_from conv tys func n t)"
proof (induction tys arbitrary: func n t)
  case Nil
  then show ?case
    unfolding wf_tree_iff [of "addOverload_from _ _ _ _ _"] wf_tree_iff [of t] getSubtree_leaf addOverload_fields
      addOverload_leaf_entries .
next
  case (Cons ty tys)
  show ?case
  proof (rule wf_treeI)
    show "wf_entries (addOverload_from conv (ty # tys) func n t)"
      using Cons.prems wf_tree_iff [of t] by (intro addOverload_keys) simp
    fix u sub
    assume sub: "getSubtree (addOverload_from conv (ty # tys) func n t) u = Some sub"
    have old: "getSubtree t u = Some sub \<Longrightarrow> depth sub = Suc (depth t) \<and> wf_tree sub"
      using Cons.prems wf_tree_iff [of t] by simp
    have new: "depth (addOverload_from conv tys g m (nextTree t ty')) = Suc (depth t) \<and>
        wf_tree (addOverload_from conv tys g m (nextTree t ty'))" for g m ty'
      using Cons.IH wf_nextTree [OF Cons.prems] by simp
    have "getSubtree t u = Some sub \<or> (\<exists>g m ty'. sub = addOverload_from conv tys g m (nextTree t ty'))"
      using sub unfolding getSubtree_addOverload by (auto split: if_splits arg_type.splits option.splits)
    with old new show "depth sub = Suc (depth (addOverload_from conv (ty # tys) func n t)) \<and> wf_tree sub"
      by (auto simp del: addOverload_from.simps)
  qed
qed

lemma slot_nextTree: "slot (nextTree t ty) us = slot t (ty # us)"
  by (simp add: slot_simps slot_new_tree nextTree_def split: option.split)

lemma slot_addOverload:
  "wf_tree t \<Longrightarrow>
     slot (addOverload_from conv ts func n t) us =
       (case promoted conv (depth t) ts us func of
          None \<Rightarrow> slot t us
        | Some (m, f) \<Rightarrow> put_slot (n + m) f (slot t us))"
proof (induction ts arbitrary: us func n t)
  case Nil
  show ?case
  proof (cases us)
    case (Cons u us')
    then show ?thesis by (simp add: slot_simps getSubtree_leaf del: addOverload_from.simps)
  qed (simp add: slot_simps put_slot_def)
next
  case (Cons ty tys)
  have IH: "slot (addOverload_from conv tys g m (nextTree t ty')) vs =
      (case promoted conv (Suc (depth t)) tys vs g of
         None \<Rightarrow> slot t (ty' # vs)
       | Some (l, f) \<Rightarrow> put_slot (m + l) f (slot t (ty' # vs)))" for g m ty' vs
    using Cons.IH [of "nextTree t ty'" g m vs] wf_nextTree [OF Cons.prems, of ty']
    unfolding slot_nextTree by simp
  show ?case
  proof (cases us)
    case Nil
    then show ?thesis by (simp add: slot_simps del: addOverload_from.simps)
  next
    case us: (Cons u us')
    show ?thesis
    proof (cases "u = ty")
      case True
      with IH show ?thesis
        unfolding us True by (cases "valid_arg ty")
          (simp_all add: slot_simps getSubtree_addOverload valid_arg_def del: addOverload_from.simps)
    next
      case False
      show ?thesis
      proof (cases "\<exists>k c. u = Arg_literal k \<and> map_of (typePromotion ty) k = Some c")
        case True
        then obtain k c where u: "u = Arg_literal k" "map_of (typePromotion ty) k = Some c" by blast
        from u False have "slot (addOverload_from conv (ty # tys) func n t) (u # us') =
            slot (addOverload_from conv tys (promoted_impl conv c (depth t) func) (n + 1) (nextTree t u)) us'"
          by (simp add: slot_simps getSubtree_addOverload del: addOverload_from.simps)
        moreover have "promoted conv (depth t) (ty # tys) (u # us') func = map_option (\<lambda>(n, f). (n + 1, f))
            (promoted conv (depth t + 1) tys us' (promoted_impl conv c (depth t) func))"
          using u False by simp
        ultimately show ?thesis unfolding us IH by (auto split: option.split)
      next
        case no: False
        then have "getSubtree (addOverload_from conv (ty # tys) func n t) u = getSubtree t u"
          using False by (auto simp: getSubtree_addOverload simp del: addOverload_from.simps
              split: arg_type.split option.split)
        moreover have "promoted conv (depth t) (ty # tys) (u # us') func = None"
          using False no by (auto split: arg_type.split option.split)
        ultimately show ?thesis by (simp add: us slot_simps del: addOverload_from.simps promoted.simps)
      qed
    qed
  qed
qed

lemma promoted_self: "list_all valid_arg ts \<Longrightarrow> promoted conv d ts ts func = Some (0, func)"
  by (induction ts arbitrary: d) simp_all

lemma promoted_count: "promoted conv d ts us func = Some (m, f) \<Longrightarrow> m = 0 \<longleftrightarrow> us = ts"
proof (induction conv d ts us func arbitrary: m f rule: promoted.induct)
  case (2 conv d t ts u us func)
  then show ?case by (auto split: if_splits arg_type.splits option.splits)
qed simp_all

text \<open>The trees that the code builds: overloads added to a new tree.\<close>

definition build_tree ::
  "(conversion \<Rightarrow> 'v \<Rightarrow> 'v) \<Rightarrow> (arg_type list \<times> ('c, 'v, 'r) impl) list \<Rightarrow> ('c, 'v, 'r) impl overload_tree" where
  "build_tree conv overloads = foldl (\<lambda>t (ts, f). addOverload conv ts f t) (new_tree 0) overloads"

lemma build_tree_snoc: "build_tree conv (os @ [(ts, f)]) = addOverload conv ts f (build_tree conv os)"
  by (simp add: build_tree_def)

lemma wf_build_tree: "wf_tree (build_tree conv os) \<and> depth (build_tree conv os) = 0"
proof (induction os rule: rev_induct)
  case Nil
  show ?case by (simp add: build_tree_def)
next
  case (snoc overload os)
  then show ?case
    by (cases overload) (simp add: build_tree_snoc addOverload_def wf_addOverload)
qed

text \<open>Adding an overload to a tree of overloads changes what the tree holds as a map is changed: for the
  overload's types, and for the types that are promoted to them, the new implementation (with the
  promoted arguments converted) is entered unless one with fewer promotions is there; nothing else
  changes.\<close>

theorem addOverload_is_update:
  "slot (addOverload conv ts func (build_tree conv os)) us =
     (case promoted conv 0 ts us func of
        None \<Rightarrow> slot (build_tree conv os) us
      | Some (m, f) \<Rightarrow> put_slot m f (slot (build_tree conv os) us))"
  using slot_addOverload [of "build_tree conv os" conv ts func 0 us] wf_build_tree [of conv os]
  by (simp add: addOverload_def split: option.split)

lemma exact_slot_kept:
  assumes "list_all valid_arg ts" and "ts \<notin> fst ` set os'"
  shows "slot (build_tree conv (os @ (ts, func) # os')) ts = (Some 0, Some func)"
  using assms(2)
proof (induction os' rule: rev_induct)
  case Nil
  show ?case
    using promoted_self [OF assms(1), of conv 0 func]
    by (simp add: build_tree_snoc [of conv os] slot_addOverload wf_build_tree addOverload_def put_slot_def)
next
  case (snoc overload os')
  obtain ts' g where o: "overload = (ts', g)" by fastforce
  have same: "slot (build_tree conv (os @ (ts, func) # os')) ts = (Some 0, Some func)"
    using snoc by simp
  have ne: "ts \<noteq> ts'" using snoc.prems by (auto simp: o)
  have "slot (addOverload conv ts' g (build_tree conv (os @ (ts, func) # os'))) ts = (Some 0, Some func)"
    unfolding addOverload_def slot_addOverload [OF conjunct1 [OF wf_build_tree]] same
    using promoted_count [of conv _ ts' ts g] ne by (auto simp: put_slot_def split: option.split)
  then show ?case using build_tree_snoc [of conv "os @ (ts, func) # os'" ts' g] by (simp add: o)
qed

text \<open>The implementation that was last added for a list of types is the one found for exactly these types,
  however many overloads are added before, and whatever others are added after it: an overload that
  is promoted to the types never takes its place.\<close>

theorem exact_overload_found:
  assumes "list_all valid_arg ts" and "ts \<notin> fst ` set os'"
  shows "getImplementationExact (build_tree conv (os @ (ts, func) # os')) ts = Some func"
  by (simp add: exact_slot exact_slot_kept [OF assms])

lemma exact_overload_found_witness:
  "getImplementationExact
     (build_tree (\<lambda>c (v :: nat). v)
       ([] @ ([Arg_literal XSD_DECIMAL, Arg_literal XSD_DECIMAL], \<lambda>(c :: unit) vs. Inr (sum_list vs)) #
        [([Arg_literal XSD_DOUBLE, Arg_literal XSD_DOUBLE], \<lambda>c vs. Inr (0 :: nat))]))
     [Arg_literal XSD_DECIMAL, Arg_literal XSD_DECIMAL] = Some (\<lambda>c vs. Inr (sum_list vs))"
  by (rule exact_overload_found) simp_all

end
