(* ===== verification/Overload_Search.thy ===== *)
theory Overload_Search
  imports Overload_Tree
begin

text \<open>
  The search for an overload
  (\<open>OverloadTree.search\<close>, \<open>packages/utils-expression-evaluator/lib/functions/OverloadTree.ts\<close>): a depth first
  search with a stack for the most specific overload that accepts the arguments, with a cache of the
  functions found and the cache of the super types of unknown datatypes.
\<close>

section \<open>Searching\<close>

text \<open>An argument, as far as the search reads it: a literal with its datatype, or another term.\<close>

datatype term_expression = Literal_expr string | Term_expr term_type

fun expr_termType :: "term_expression \<Rightarrow> term_type" where
  "expr_termType (Literal_expr dataType) = T_literal"
| "expr_termType (Term_expr ty) = ty"

fun isLiteralTermExpression :: "term_expression \<Rightarrow> string option" where
  "isLiteralTermExpression (Literal_expr dataType) = Some dataType"
| "isLiteralTermExpression (Term_expr ty) = None"

text \<open>The entries of \<open>literalOverLoads\<close> whose type is a super type of the literal's, with its priority.\<close>

fun literal_matches ::
  "super_dict \<Rightarrow> 'f overload_tree \<Rightarrow> (known_type \<times> 'f overload_tree) option list \<Rightarrow> (nat \<times> 'f overload_tree) list" where
  "literal_matches d t [] = []"
| "literal_matches d t (None # es) =
     (case (js_get (dict_types d) (Custom ''term''), js_get (generalOverloads t) None) of
        (Some prio, Some sub) \<Rightarrow> (prio, sub) # literal_matches d t es
      | _ \<Rightarrow> literal_matches d t es)"
| "literal_matches d t (Some (k, sub) # es) =
     (case js_get (dict_types d) (Known k) of
        Some prio \<Rightarrow> (prio, sub) # literal_matches d t es
      | None \<Rightarrow> literal_matches d t es)"

text \<open>\<open>getSubTreeWithArg\<close>: the last element is the next one that should be asked.\<close>

definition general_matches :: "term_type \<Rightarrow> 'f overload_tree \<Rightarrow> 'f overload_tree list" where
  "general_matches ty t =
     (case js_get (generalOverloads t) None of Some sub \<Rightarrow> [sub] | None \<Rightarrow> []) @
     (case js_get (generalOverloads t) (Some ty) of Some sub \<Rightarrow> [sub] | None \<Rightarrow> [])"

definition getSubTreeWithArg ::
  "nat \<Rightarrow> (string \<Rightarrow> lit_type option) \<Rightarrow> term_expression \<Rightarrow> 'f overload_tree \<Rightarrow> type_cache \<Rightarrow>
     ('f overload_tree list \<times> type_cache) option" where
  "getSubTreeWithArg fuel discoverer arg t cache =
     (case isLiteralTermExpression arg of
        None \<Rightarrow> Some (general_matches (expr_termType arg) t, cache)
      | Some dataType \<Rightarrow>
          (case getSuperTypeDict fuel discoverer (lit_type_of dataType) cache of
             None \<Rightarrow> None
           | Some (d, cache') \<Rightarrow>
               Some (general_matches (expr_termType arg) t @
                       map snd (sort_key fst (literal_matches d t (literalOverLoads t))), cache')))"

definition stack_measure :: "term_expression list \<Rightarrow> (nat \<times> 'f overload_tree) list \<Rightarrow> nat multiset" where
  "stack_measure args stack = mset (map (\<lambda>(index, node). length args - index) stack)"

lemma stack_measure_step:
  assumes "stack \<noteq> []" "last stack = (index, node)" "index < length args"
  shows "(stack_measure args (butlast stack @ map (\<lambda>item. (index + 1, item)) items), stack_measure args stack)
    \<in> mult less_than"
proof -
  have "stack_measure args stack = stack_measure args (butlast stack) + {#length args - index#}"
    using assms append_butlast_last_id [OF assms(1)]
    by (metis (no_types, lifting) case_prod_conv list.simps(8,9) map_append mset.simps mset_append stack_measure_def)
  moreover have "stack_measure args (butlast stack @ map (\<lambda>item. (index + 1, item)) items) =
      stack_measure args (butlast stack) + mset (map (\<lambda>item. length args - (index + 1)) items)"
    by (simp add: stack_measure_def comp_def)
  moreover have "(stack_measure args (butlast stack) + mset (map (\<lambda>item. length args - (index + 1)) items),
      stack_measure args (butlast stack) + {#length args - index#}) \<in> mult less_than"
    by (rule one_step_implies_mult) (use assms(3) in auto)
  ultimately show ?thesis by simp
qed

text \<open>The loop of \<open>search\<close>.  Reading an argument beyond the last one throws.  \<open>None\<close> is a search that
  does not end, because the types of an argument have no end.\<close>

function search_loop ::
  "nat \<Rightarrow> (string \<Rightarrow> lit_type option) \<Rightarrow> term_expression list \<Rightarrow> (nat \<times> 'f overload_tree) list \<Rightarrow> type_cache \<Rightarrow>
     ((string + 'f option) \<times> type_cache) option" where
  "search_loop fuel discoverer args searchStack cache =
     (if searchStack = [] then Some (Inr None, cache)
      else
        let (index, node) = last searchStack
        in if index = length args \<and> implementation node \<noteq> None then Some (Inr (implementation node), cache)
           else if length args \<le> index then Some (Inl ''TypeError'', cache)
           else case getSubTreeWithArg fuel discoverer (args ! index) node cache of
                  None \<Rightarrow> None
                | Some (items, cache') \<Rightarrow>
                    search_loop fuel discoverer args
                      (butlast searchStack @ map (\<lambda>item. (index + 1, item)) items) cache')"
  by pat_completeness auto

termination
proof (relation "inv_image (mult less_than)
    (\<lambda>(fuel, discoverer, args, stack, cache). stack_measure args stack)", goal_cases)
  case (2 fuel discoverer args searchStack cache top index node result items cache')
  from 2(2,3) have "last searchStack = (index, node)" by simp
  from stack_measure_step [OF 2(1) this] 2(5) show ?case by simp
qed (simp add: wf_mult)

declare search_loop.simps [simp del]

section \<open>The search without caches\<close>

text \<open>The super types of a literal, whatever the cache holds.\<close>

definition type_dict :: "nat \<Rightarrow> (string \<Rightarrow> lit_type option) \<Rightarrow> string \<Rightarrow> super_dict option" where
  "type_dict fuel D dataType =
     (case lit_type_of dataType of Known k \<Rightarrow> Some (superTypeDictTable k) | Custom c \<Rightarrow> discovered fuel D c)"

definition typed_arg :: "nat \<Rightarrow> (string \<Rightarrow> lit_type option) \<Rightarrow> term_expression \<Rightarrow> bool" where
  "typed_arg fuel D arg =
     (case isLiteralTermExpression arg of None \<Rightarrow> True | Some ty \<Rightarrow> type_dict fuel D ty \<noteq> None)"

definition subtrees_for ::
  "nat \<Rightarrow> (string \<Rightarrow> lit_type option) \<Rightarrow> term_expression \<Rightarrow> 'f overload_tree \<Rightarrow> 'f overload_tree list" where
  "subtrees_for fuel D arg t =
     general_matches (expr_termType arg) t @
     (case isLiteralTermExpression arg of
        None \<Rightarrow> []
      | Some ty \<Rightarrow> map snd (sort_key fst (literal_matches (the (type_dict fuel D ty)) t (literalOverLoads t))))"

lemma getSubTreeWithArg_for:
  assumes "cache_ok D cache" and "typed_arg fuel D arg"
  shows "\<exists>cache'. getSubTreeWithArg fuel D arg t cache = Some (subtrees_for fuel D arg t, cache') \<and> cache_ok D cache'"
proof (cases "isLiteralTermExpression arg")
  case None
  then show ?thesis using assms(1) by (simp add: getSubTreeWithArg_def subtrees_for_def)
next
  case (Some ty)
  with assms(2) obtain d where d: "type_dict fuel D ty = Some d" by (auto simp: typed_arg_def)
  have "\<exists>cache'. getSuperTypeDict fuel D (lit_type_of ty) cache = Some (d, cache') \<and> cache_ok D cache'"
    using d assms(1) getSuperTypes_complete [OF assms(1)]
    by (cases "lit_type_of ty") (auto simp: type_dict_def getSuperTypeDict_def)
  then show ?thesis using Some d by (auto simp: getSubTreeWithArg_def subtrees_for_def)
qed

text \<open>The leaves for all arguments, in the order in which a depth first search meets them.\<close>

fun leaves ::
  "nat \<Rightarrow> (string \<Rightarrow> lit_type option) \<Rightarrow> term_expression list \<Rightarrow> 'f overload_tree \<Rightarrow> 'f overload_tree list" where
  "leaves fuel D [] t = [t]"
| "leaves fuel D (arg # args) t = concat (map (leaves fuel D args) (rev (subtrees_for fuel D arg t)))"

definition first_leaf :: "'f overload_tree list \<Rightarrow> string + 'f option" where
  "first_leaf ts =
     (case ts of
        [] \<Rightarrow> Inr None
      | t # _ \<Rightarrow> (case implementation t of None \<Rightarrow> Inl ''TypeError'' | Some f \<Rightarrow> Inr (Some f)))"

abbreviation stack_leaves where
  "stack_leaves fuel D args stack \<equiv>
     concat (map (\<lambda>(index, node). leaves fuel D (drop index args) node) (rev stack))"

lemma stack_leaves_step:
  assumes "stack \<noteq> []" and "last stack = (index, node)" and "index < length args"
  shows "stack_leaves fuel D args stack =
    stack_leaves fuel D args
      (butlast stack @ map (\<lambda>item. (index + 1, item)) (subtrees_for fuel D (args ! index) node))"
proof -
  have "stack_leaves fuel D args stack =
      leaves fuel D (drop index args) node @ stack_leaves fuel D args (butlast stack)"
    using append_butlast_last_id [OF assms(1)] assms(2)
    by (metis (no_types, lifting) case_prod_conv concat.simps(2) list.simps(9) rev.simps(2)
        append_Cons append_Nil rev_append rev_rev_ident)
  also have "drop index args = args ! index # drop (index + 1) args"
    using assms(3) by (simp add: Cons_nth_drop_Suc)
  finally show ?thesis by (simp add: rev_map comp_def)
qed

lemma search_loop_leaves:
  "list_all (typed_arg fuel D) args \<Longrightarrow> cache_ok D cache \<Longrightarrow> \<forall>(index, node)\<in>set stack. index \<le> length args \<Longrightarrow>
     \<exists>cache'. search_loop fuel D args stack cache = Some (first_leaf (stack_leaves fuel D args stack), cache') \<and>
              cache_ok D cache'"
proof (induction fuel D args stack cache rule: search_loop.induct)
  case (1 fuel D args stack cache)
  show ?case
  proof (cases "stack = []")
    case True
    with 1(3) show ?thesis by (subst search_loop.simps) (simp add: first_leaf_def)
  next
    case False
    obtain index node where top: "last stack = (index, node)" by fastforce
    have le: "index \<le> length args" using 1(4) last_in_set [OF False] top by auto
    have split: "stack_leaves fuel D args stack =
        leaves fuel D (drop index args) node @ stack_leaves fuel D args (butlast stack)"
      using append_butlast_last_id [OF False] top
      by (metis (no_types, lifting) case_prod_conv concat.simps(2) list.simps(9) rev.simps(2)
          append_Cons append_Nil rev_append rev_rev_ident)
    show ?thesis
    proof (cases "index = length args")
      case True
      with False top 1(3) show ?thesis
        unfolding split by (subst search_loop.simps) (auto simp: first_leaf_def)
    next
      case less: False
      with le have less: "index < length args" by simp
      then have "typed_arg fuel D (args ! index)" using 1(2) by (simp add: list_all_length)
      from getSubTreeWithArg_for [OF 1(3) this] obtain cache'
        where sub: "getSubTreeWithArg fuel D (args ! index) node cache =
            Some (subtrees_for fuel D (args ! index) node, cache')" and ok: "cache_ok D cache'" by blast
      let ?stack = "butlast stack @ map (\<lambda>item. (index + 1, item)) (subtrees_for fuel D (args ! index) node)"
      have step: "search_loop fuel D args stack cache = search_loop fuel D args ?stack cache'"
        using False top less sub by (subst search_loop.simps) simp
      have "\<forall>(index, node)\<in>set ?stack. index \<le> length args"
        using 1(4) less by (auto dest: in_set_butlastD)
      from 1(1) [OF False top [symmetric] _ _ _ sub refl 1(2) ok this] less
      show ?thesis unfolding step stack_leaves_step [OF False top less] by auto
    qed
  qed
qed

section \<open>The most specific overload\<close>

text \<open>How specific a type is for an argument, \<open>None\<close> where the type does not accept it: \<open>term\<close> accepts all, a
  type of terms its terms, and a type of literals those with a datatype derived from it, the more
  specific the longer its own chain of super types.\<close>

definition match_rank :: "nat \<Rightarrow> (string \<Rightarrow> lit_type option) \<Rightarrow> term_expression \<Rightarrow> arg_type \<Rightarrow> nat option" where
  "match_rank fuel D arg ty =
     (case ty of
        Arg_term \<Rightarrow> Some 0
      | Arg_termType g \<Rightarrow> (if g = expr_termType arg then Some 1 else None)
      | Arg_literal k \<Rightarrow>
          (case isLiteralTermExpression arg of
             None \<Rightarrow> None
           | Some dataType \<Rightarrow> map_option (\<lambda>prio. prio + 2)
               (js_get (dict_types (the (type_dict fuel D dataType))) (Known k))))"

fun match_ranks ::
  "nat \<Rightarrow> (string \<Rightarrow> lit_type option) \<Rightarrow> term_expression list \<Rightarrow> arg_type list \<Rightarrow> nat list option" where
  "match_ranks fuel D [] [] = Some []"
| "match_ranks fuel D (arg # args) (ty # tys) =
     (case match_rank fuel D arg ty of
        None \<Rightarrow> None
      | Some r \<Rightarrow> map_option (\<lambda>rs. r # rs) (match_ranks fuel D args tys))"
| "match_ranks fuel D args tys = None"

text \<open>Earlier arguments count first.\<close>

fun rank_le :: "nat list \<Rightarrow> nat list \<Rightarrow> bool" where
  "rank_le (r # rs) (s # ss) = (r < s \<or> r = s \<and> rank_le rs ss)"
| "rank_le rs ss = (rs = [])"

definition term_type_names :: "string list" where
  "term_type_names = [''namedNode'', ''literal'', ''blankNode'', ''quad'', ''defaultGraph'']"

text \<open>An argument whose types have an end, and whose datatype is not called like a type of terms, nor
  derived from one that is called \<open>term\<close>.\<close>

definition proper_arg :: "nat \<Rightarrow> (string \<Rightarrow> lit_type option) \<Rightarrow> term_expression \<Rightarrow> bool" where
  "proper_arg fuel D arg \<longleftrightarrow>
     typed_arg fuel D arg \<and>
     (case isLiteralTermExpression arg of
        None \<Rightarrow> True
      | Some ty \<Rightarrow> ty \<notin> set term_type_names \<and>
          js_get (dict_types (the (type_dict fuel D ty))) (Custom ''term'') = None)"

text \<open>No two known super types of a type have the same priority.\<close>

definition prio_inj :: "super_dict \<Rightarrow> bool" where
  "prio_inj d \<longleftrightarrow>
     (\<forall>j j' p. js_get (dict_types d) (Known j) = Some p \<longrightarrow> js_get (dict_types d) (Known j') = Some p \<longrightarrow> j = j')"

lemma derives_linear: "derives k j \<Longrightarrow> derives k j' \<Longrightarrow> type_rank j = type_rank j' \<Longrightarrow> j = j'"
proof (induction k rule: chain_dict.induct)
  case (1 k)
  show ?case
  proof (cases "extensionTableInput k")
    case None
    with 1 show ?thesis by (simp add: derives_None)
  next
    case (Some v)
    have below: "derives v i \<Longrightarrow> type_rank i < type_rank k" for i
      using derives_rank [of v i] type_rank_super [OF Some] by simp
    from 1(2,3) 1(4) below 1(1) [OF Some] show ?thesis
      unfolding derives_Some [OF Some] by (elim disjE) fastforce+
  qed
qed

lemma prio_inj_known: "prio_inj (superTypeDictTable k)"
  unfolding prio_inj_def superTypeDictTable_chain chain_dict_types by (auto split: if_splits intro: derives_linear)

lemma prio_inj_extend: "prio_inj d \<Longrightarrow> prio_inj (extend_dict (Custom ty) d)"
  by (simp add: prio_inj_def extend_dict_def)

lemma prio_inj_discovered: "discovered fuel D ty = Some d \<Longrightarrow> prio_inj d"
proof (induction fuel D ty arbitrary: d rule: discovered.induct)
  case (2 fuel D ty)
  show ?case
  proof (cases "D ty")
    case None
    with 2(2) show ?thesis by (auto simp: prio_inj_def base_dict_def)
  next
    case (Some super)
    with 2 show ?thesis
      by (cases super) (auto intro: prio_inj_extend prio_inj_known)
  qed
qed simp

lemma prio_inj_type_dict: "type_dict fuel D ty = Some d \<Longrightarrow> prio_inj d"
  by (auto simp: type_dict_def prio_inj_known prio_inj_discovered split: lit_type.splits)

lemma literal_matches_None:
  "js_get (dict_types d) (Custom ''term'') = None \<Longrightarrow> literal_matches d t (None # es) = literal_matches d t es"
  by simp

lemma literal_matches_iff:
  assumes "js_get (dict_types d) (Custom ''term'') = None"
  shows "distinct (literal_keys es) \<Longrightarrow>
    (p, sub) \<in> set (literal_matches d t es) \<longleftrightarrow>
      (\<exists>k. find_literal k es = Some sub \<and> js_get (dict_types d) (Known k) = Some p)"
proof (induction es)
  case (Cons e es)
  show ?case
  proof (cases e)
    case None
    with Cons show ?thesis by (simp only: literal_matches_None [OF assms]) simp
  next
    case (Some entry)
    obtain k sub' where e: "e = Some (k, sub')" using Some by (cases entry) auto
    have none: "find_literal k es = None" using Cons.prems by (simp add: e find_literal_keys)
    have "(\<exists>j. find_literal j (e # es) = Some sub \<and> js_get (dict_types d) (Known j) = Some p) \<longleftrightarrow>
        (js_get (dict_types d) (Known k) = Some p \<and> sub = sub') \<or>
        (\<exists>j. find_literal j es = Some sub \<and> js_get (dict_types d) (Known j) = Some p)" (is "?l \<longleftrightarrow> ?r")
    proof
      assume ?r
      then show ?l
      proof
        assume "\<exists>j. find_literal j es = Some sub \<and> js_get (dict_types d) (Known j) = Some p"
        then obtain j where j: "find_literal j es = Some sub" "js_get (dict_types d) (Known j) = Some p" by blast
        with none have "j \<noteq> k" by auto
        with j show ?l by (auto simp: e)
      qed (auto simp: e)
    qed (auto simp: e split: if_splits)
    moreover have "(p, sub) \<in> set (literal_matches d t (e # es)) \<longleftrightarrow>
        (js_get (dict_types d) (Known k) = Some p \<and> sub = sub') \<or> (p, sub) \<in> set (literal_matches d t es)"
      by (cases "js_get (dict_types d) (Known k)") (auto simp: e)
    moreover have "distinct (literal_keys es)" using Cons.prems by (simp add: e)
    ultimately show ?thesis using Cons.IH by simp
  qed
qed simp

lemma literal_matches_distinct:
  assumes "js_get (dict_types d) (Custom ''term'') = None" and inj: "prio_inj d"
  shows "distinct (literal_keys es) \<Longrightarrow> distinct (map fst (literal_matches d t es))"
proof (induction es)
  case (Cons e es)
  show ?case
  proof (cases e)
    case None
    with Cons show ?thesis by (simp only: literal_matches_None [OF assms(1)]) simp
  next
    case (Some entry)
    obtain k sub where e: "e = Some (k, sub)" using Some by (cases entry) auto
    have "p \<notin> fst ` set (literal_matches d t es)" if p: "js_get (dict_types d) (Known k) = Some p" for p
    proof
      assume "p \<in> fst ` set (literal_matches d t es)"
      then obtain sub' where "(p, sub') \<in> set (literal_matches d t es)" by auto
      then obtain k' where k': "find_literal k' es = Some sub'" "js_get (dict_types d) (Known k') = Some p"
        using Cons.prems literal_matches_iff [OF assms(1), of es p sub' t] by (auto simp: e)
      then have "k' = k" using inj p by (auto simp: prio_inj_def)
      with k' Cons.prems show False using find_literal_keys [of k es] by (simp add: e)
    qed
    with Cons show ?thesis by (auto simp: e split: option.split)
  qed
qed simp

text \<open>The subtrees with their ranks, the next one last.\<close>

definition ranked_subtrees ::
  "nat \<Rightarrow> (string \<Rightarrow> lit_type option) \<Rightarrow> term_expression \<Rightarrow> 'f overload_tree \<Rightarrow> (nat \<times> 'f overload_tree) list" where
  "ranked_subtrees fuel D arg t =
     (case js_get (generalOverloads t) None of Some sub \<Rightarrow> [(0, sub)] | None \<Rightarrow> []) @
     (case js_get (generalOverloads t) (Some (expr_termType arg)) of Some sub \<Rightarrow> [(1, sub)] | None \<Rightarrow> []) @
     (case isLiteralTermExpression arg of
        None \<Rightarrow> []
      | Some ty \<Rightarrow> map (\<lambda>(p, sub). (p + 2, sub))
          (sort_key fst (literal_matches (the (type_dict fuel D ty)) t (literalOverLoads t))))"

lemma ranked_subtrees_snd: "map snd (ranked_subtrees fuel D arg t) = subtrees_for fuel D arg t"
  by (auto simp: ranked_subtrees_def subtrees_for_def general_matches_def comp_def split_def split: option.split)

lemma sorted_wrt_less: "sorted (map f xs) \<Longrightarrow> distinct (map f xs) \<Longrightarrow> sorted_wrt (<) (map f xs)"
  by (simp add: strict_sorted_iff)

lemma ranked_subtrees_sorted:
  assumes "wf_tree t" and "proper_arg fuel D arg"
  shows "sorted_wrt (<) (map fst (ranked_subtrees fuel D arg t))"
proof -
  have keys: "distinct (literal_keys (literalOverLoads t))" using assms(1) wf_tree_iff [of t] by (simp add: wf_entries_def)
  have "sorted_wrt (<) (map fst (map (\<lambda>(p, sub). (p + 2, sub))
      (sort_key fst (literal_matches (the (type_dict fuel D ty)) t (literalOverLoads t)))))"
    if lit: "isLiteralTermExpression arg = Some ty" for ty
  proof -
    obtain d where d: "type_dict fuel D ty = Some d" "js_get (dict_types d) (Custom ''term'') = None"
      using assms(2) lit by (auto simp: proper_arg_def typed_arg_def)
    let ?ms = "sort_key fst (literal_matches d t (literalOverLoads t))"
    have "distinct (map fst (literal_matches d t (literalOverLoads t)))"
      by (rule literal_matches_distinct [OF d(2) prio_inj_type_dict [OF d(1)] keys])
    then have "distinct (map fst ?ms)" by (simp add: distinct_map)
    then have "sorted_wrt (<) (map fst ?ms)" by (intro sorted_wrt_less) simp_all
    then show ?thesis by (simp add: d(1) sorted_wrt_map split_def)
  qed
  then show ?thesis
    by (auto simp: ranked_subtrees_def sorted_wrt_append split: option.split)
qed

lemma find_termType:
  "getSubtree t Arg_term = js_get (generalOverloads t) None"
  "ty \<noteq> T_defaultGraph \<Longrightarrow> getSubtree t (Arg_termType ty) = js_get (generalOverloads t) (Some ty)"
  "getSubtree t (Arg_literal k) = find_literal k (literalOverLoads t)"
  by (auto simp: getSubtree_def elim: asTermType.elims) (cases ty; simp)+

lemma ranked_subtrees_iff:
  assumes "wf_tree t" and "proper_arg fuel D arg"
  shows "(r, sub) \<in> set (ranked_subtrees fuel D arg t) \<longleftrightarrow>
    (\<exists>ty. match_rank fuel D arg ty = Some r \<and> getSubtree t ty = Some sub)"
proof -
  have wf: "distinct (literal_keys (literalOverLoads t))"
    "js_get (generalOverloads t) (Some T_defaultGraph) = None"
    using assms(1) wf_tree_iff [of t] by (simp_all add: wf_entries_def)
  have termType: "getSubtree t (Arg_termType ty) = js_get (generalOverloads t) (Some ty)" for ty
    using wf(2) find_termType(2) by (cases "ty = T_defaultGraph") auto
  have lits: "(r, sub) \<in> (\<lambda>(p, sub). (p + 2, sub)) ` set (literal_matches (the (type_dict fuel D ty)) t (literalOverLoads t)) \<longleftrightarrow>
      (\<exists>k. match_rank fuel D arg (Arg_literal k) = Some r \<and> getSubtree t (Arg_literal k) = Some sub)"
    if lit: "isLiteralTermExpression arg = Some ty" for ty
  proof -
    obtain d where d: "type_dict fuel D ty = Some d" "js_get (dict_types d) (Custom ''term'') = None"
      using assms(2) lit by (auto simp: proper_arg_def typed_arg_def)
    show ?thesis
      by (auto simp: image_iff d(1) lit match_rank_def find_termType(3) literal_matches_iff [OF d(2) wf(1)]
          split_paired_Ex Bex_def)
  qed
  have "(\<exists>ty. match_rank fuel D arg ty = Some r \<and> getSubtree t ty = Some sub) \<longleftrightarrow>
      (r = 0 \<and> js_get (generalOverloads t) None = Some sub) \<or>
      (r = 1 \<and> js_get (generalOverloads t) (Some (expr_termType arg)) = Some sub) \<or>
      (\<exists>k. match_rank fuel D arg (Arg_literal k) = Some r \<and> getSubtree t (Arg_literal k) = Some sub)"
    (is "?l \<longleftrightarrow> ?r")
  proof
    assume ?l
    then obtain ty where "match_rank fuel D arg ty = Some r" "getSubtree t ty = Some sub" by blast
    then show ?r by (cases ty) (auto simp: match_rank_def termType find_termType(1) split: if_splits)
  next
    assume ?r
    then show ?l
    proof (elim disjE)
      assume "r = 0 \<and> js_get (generalOverloads t) None = Some sub"
      then have "match_rank fuel D arg Arg_term = Some r \<and> getSubtree t Arg_term = Some sub"
        by (simp add: match_rank_def find_termType(1))
      then show ?thesis by blast
    next
      assume "r = 1 \<and> js_get (generalOverloads t) (Some (expr_termType arg)) = Some sub"
      then have "match_rank fuel D arg (Arg_termType (expr_termType arg)) = Some r \<and>
          getSubtree t (Arg_termType (expr_termType arg)) = Some sub"
        by (simp add: match_rank_def termType)
      then show ?thesis by blast
    qed blast
  qed
  moreover have "(r, sub) \<in> set (ranked_subtrees fuel D arg t) \<longleftrightarrow>
      (r = 0 \<and> js_get (generalOverloads t) None = Some sub) \<or>
      (r = 1 \<and> js_get (generalOverloads t) (Some (expr_termType arg)) = Some sub) \<or>
      (\<exists>k. match_rank fuel D arg (Arg_literal k) = Some r \<and> getSubtree t (Arg_literal k) = Some sub)"
  proof (cases "isLiteralTermExpression arg")
    case None
    then show ?thesis by (auto simp: ranked_subtrees_def match_rank_def split: option.split)
  next
    case (Some ty)
    then show ?thesis unfolding lits [OF Some, symmetric] by (auto simp: ranked_subtrees_def split: option.split)
  qed
  ultimately show ?thesis by simp
qed

lemma concat_first:
  "concat (map f xs) = y # ys \<Longrightarrow> \<exists>us x vs. xs = us @ x # vs \<and> (\<forall>u\<in>set us. f u = []) \<and> (\<exists>zs. f x = y # zs)"
proof (induction xs)
  case (Cons x xs)
  show ?case
  proof (cases "f x")
    case Nil
    with Cons obtain us z vs where "xs = us @ z # vs" "\<forall>u\<in>set us. f u = []" "\<exists>ws. f z = y # ws" by auto
    with Nil have "x # xs = (x # us) @ z # vs \<and> (\<forall>u\<in>set (x # us). f u = []) \<and> (\<exists>ws. f z = y # ws)" by simp
    then show ?thesis by blast
  next
    case (Cons z zs)
    with Cons.prems have "x # xs = [] @ x # xs \<and> (\<forall>u\<in>set []. f u = []) \<and> (\<exists>zs. f x = y # zs)" by simp
    then show ?thesis by blast
  qed
qed simp

lemma leaves_none:
  "wf_tree t \<Longrightarrow> list_all (proper_arg fuel D) args \<Longrightarrow> leaves fuel D args t = [] \<Longrightarrow>
     match_ranks fuel D args us \<noteq> None \<Longrightarrow> find_node t us = None"
proof (induction args arbitrary: t us)
  case Nil
  then show ?case by simp
next
  case (Cons arg args)
  obtain u us' r where us: "us = u # us'" "match_rank fuel D arg u = Some r" "match_ranks fuel D args us' \<noteq> None"
    using Cons.prems(4) by (cases us) (auto split: option.splits)
  show ?case
  proof (cases "getSubtree t u")
    case None
    then show ?thesis by (simp add: us(1))
  next
    case (Some sub)
    have "(r, sub) \<in> set (ranked_subtrees fuel D arg t)"
      using ranked_subtrees_iff [of t fuel D arg r sub] Cons.prems us(2) Some by auto
    then have "sub \<in> set (subtrees_for fuel D arg t)"
      unfolding ranked_subtrees_snd [symmetric] by force
    then have "leaves fuel D args sub = []" using Cons.prems(3) by auto
    moreover have "wf_tree sub" using Cons.prems(1) Some wf_tree_iff [of t] by simp
    ultimately have "find_node sub us' = None" using Cons.IH Cons.prems(2) us(3) by simp
    then show ?thesis by (simp add: us(1) Some)
  qed
qed

lemma leaves_best:
  "wf_tree t \<Longrightarrow> list_all (proper_arg fuel D) args \<Longrightarrow> leaves fuel D args t = node # rest \<Longrightarrow>
     \<exists>us rs. match_ranks fuel D args us = Some rs \<and> find_node t us = Some node \<and>
       (\<forall>vs ss. match_ranks fuel D args vs = Some ss \<and> find_node t vs \<noteq> None \<longrightarrow> rank_le ss rs)"
proof (induction args arbitrary: t node rest)
  case Nil
  then have "match_ranks fuel D [] [] = Some [] \<and> find_node t [] = Some node \<and>
      (\<forall>vs ss. match_ranks fuel D [] vs = Some ss \<and> find_node t vs \<noteq> None \<longrightarrow> rank_le ss [])"
    by (auto elim!: match_ranks.elims)
  then show ?case by blast
next
  case (Cons arg args)
  have arg: "proper_arg fuel D arg" and args: "list_all (proper_arg fuel D) args" using Cons.prems(2) by simp_all
  note sub_iff = ranked_subtrees_iff [OF Cons.prems(1) arg]
  have wf_sub: "wf_tree sub" if "getSubtree t u = Some sub" for u sub
    using that Cons.prems(1) wf_tree_iff [of t] by simp
  let ?rev = "rev (ranked_subtrees fuel D arg t)"
  have "concat (map (\<lambda>(r, sub). leaves fuel D args sub) ?rev) = node # rest"
    using Cons.prems(3) by (simp add: ranked_subtrees_snd [symmetric] rev_map comp_def split_def)
  from concat_first [OF this] obtain xs x ys where x: "?rev = xs @ x # ys"
    "\<forall>(r, s)\<in>set xs. leaves fuel D args s = []" "\<exists>zs. (case x of (r, s) \<Rightarrow> leaves fuel D args s) = node # zs"
    by (auto simp: split_def)
  obtain r sub where "x = (r, sub)" by fastforce
  with x have split: "?rev = xs @ (r, sub) # ys" and empty: "\<forall>(r, s)\<in>set xs. leaves fuel D args s = []"
    and found: "\<exists>zs. leaves fuel D args sub = node # zs" by simp_all
  have sorted: "sorted_wrt (>) (map fst ?rev)"
    using ranked_subtrees_sorted [OF Cons.prems(1) arg] by (simp add: rev_map [symmetric] sorted_wrt_rev)
  have "(r, sub) \<in> set (ranked_subtrees fuel D arg t)" using split by (metis in_set_conv_decomp set_rev)
  then obtain u where u: "match_rank fuel D arg u = Some r" "getSubtree t u = Some sub" using sub_iff by blast
  from found obtain zs where "leaves fuel D args sub = node # zs" by blast
  from Cons.IH [OF wf_sub [OF u(2)] args this] obtain us rs where us: "match_ranks fuel D args us = Some rs"
    "find_node sub us = Some node"
    "\<And>vs ss. match_ranks fuel D args vs = Some ss \<Longrightarrow> find_node sub vs \<noteq> None \<Longrightarrow> rank_le ss rs" by blast
  have "rank_le ss (r # rs)" if vs: "match_ranks fuel D (arg # args) vs = Some ss" "find_node t vs \<noteq> None" for vs ss
  proof -
    obtain v vs' q qs where v: "vs = v # vs'" "ss = q # qs" "match_rank fuel D arg v = Some q"
      "match_ranks fuel D args vs' = Some qs"
      using vs(1) by (cases vs) (auto split: option.splits)
    obtain s where s: "getSubtree t v = Some s" "find_node s vs' \<noteq> None"
      using vs(2) v(1) by (cases "getSubtree t v") auto
    have "leaves fuel D args s \<noteq> []" using leaves_none [OF wf_sub [OF s(1)] args, of vs'] v(4) s(2) by auto
    then have "(q, s) \<notin> set xs" using empty by auto
    moreover have "(q, s) \<in> set ?rev" using sub_iff [of q s] v(3) s(1) by auto
    ultimately have "(q, s) = (r, sub) \<or> (q, s) \<in> set ys" unfolding split by auto
    then show ?thesis
    proof
      assume "(q, s) = (r, sub)"
      then show ?thesis using us(3) [OF v(4)] s(2) v(2) by simp
    next
      assume "(q, s) \<in> set ys"
      then have "q < r" using sorted unfolding split by (auto simp: sorted_wrt_append)
      then show ?thesis using v(2) by simp
    qed
  qed
  moreover have "match_ranks fuel D (arg # args) (u # us) = Some (r # rs) \<and> find_node t (u # us) = Some node"
    using u us(1,2) by simp
  ultimately show ?case by blast
qed

section \<open>The cache of functions\<close>

text \<open>A cache object may hold a function and objects for the types of the next argument.\<close>

datatype 'f fun_cache = Fun_cache
  (cache_func: "'f option")
  (cache_next: "(string \<times> 'f fun_cache) list option")

fun term_type_name :: "term_type \<Rightarrow> string" where
  "term_type_name T_namedNode = ''namedNode''"
| "term_type_name T_literal = ''literal''"
| "term_type_name T_blankNode = ''blankNode''"
| "term_type_name T_quad = ''quad''"
| "term_type_name T_defaultGraph = ''defaultGraph''"

definition cache_key :: "term_expression \<Rightarrow> string" where
  "cache_key arg =
     (case isLiteralTermExpression arg of Some dataType \<Rightarrow> dataType | None \<Rightarrow> term_type_name (expr_termType arg))"

fun read_cache :: "'f fun_cache option \<Rightarrow> string list \<Rightarrow> 'f option" where
  "read_cache None keys = None"
| "read_cache (Some c) [] = cache_func c"
| "read_cache (Some c) (key # keys) =
     (case cache_next c of None \<Rightarrow> None | Some m \<Rightarrow> read_cache (js_get m key) keys)"

primrec write_cache :: "string list \<Rightarrow> 'f \<Rightarrow> 'f fun_cache \<Rightarrow> 'f fun_cache" where
  "write_cache [] f c = Fun_cache (Some f) (cache_next c)"
| "write_cache (key # keys) f c =
     (let m = (case cache_next c of None \<Rightarrow> [] | Some m \<Rightarrow> m);
          c' = (case js_get m key of None \<Rightarrow> Fun_cache None None | Some c' \<Rightarrow> c')
      in Fun_cache (cache_func c) (Some (js_set m key (write_cache keys f c'))))"

definition addToCache ::
  "string \<Rightarrow> (string, 'f fun_cache) jsmap \<Rightarrow> term_expression list \<Rightarrow> 'f \<Rightarrow> (string, 'f fun_cache) jsmap" where
  "addToCache identifier functionArgumentsCache args func =
     (let c = (case js_get functionArgumentsCache identifier of None \<Rightarrow> Fun_cache None None | Some c \<Rightarrow> c)
      in js_set functionArgumentsCache identifier (write_cache (map cache_key args) func c))"

definition search ::
  "nat \<Rightarrow> (string \<Rightarrow> lit_type option) \<Rightarrow> string \<Rightarrow> 'f overload_tree \<Rightarrow> term_expression list \<Rightarrow> type_cache \<Rightarrow>
     (string, 'f fun_cache) jsmap \<Rightarrow> ((string + 'f option) \<times> type_cache \<times> (string, 'f fun_cache) jsmap) option" where
  "search fuel discoverer identifier t args cache functionArgumentsCache =
     (case read_cache (js_get functionArgumentsCache identifier) (map cache_key args) of
        Some func \<Rightarrow> Some (Inr (Some func), cache, functionArgumentsCache)
      | None \<Rightarrow>
          if args = [] then Some (Inr (implementation t), cache, functionArgumentsCache)
          else
            case getSubTreeWithArg fuel discoverer (hd args) t cache of
              None \<Rightarrow> None
            | Some (items, cache') \<Rightarrow>
                (case search_loop fuel discoverer args (map (\<lambda>node. (1, node)) items) cache' of
                   None \<Rightarrow> None
                 | Some (Inr (Some func), cache'') \<Rightarrow>
                     Some (Inr (Some func), cache'', addToCache identifier functionArgumentsCache args func)
                 | Some (result, cache'') \<Rightarrow> Some (result, cache'', functionArgumentsCache)))"

text \<open>The result that a search without caches has.\<close>

definition search_result ::
  "nat \<Rightarrow> (string \<Rightarrow> lit_type option) \<Rightarrow> 'f overload_tree \<Rightarrow> term_expression list \<Rightarrow> string + 'f option" where
  "search_result fuel D t args =
     (if args = [] then Inr (implementation t) else first_leaf (leaves fuel D args t))"

definition fun_cache_ok ::
  "nat \<Rightarrow> (string \<Rightarrow> lit_type option) \<Rightarrow> string \<Rightarrow> 'f overload_tree \<Rightarrow> (string, 'f fun_cache) jsmap \<Rightarrow> bool" where
  "fun_cache_ok fuel D identifier t fcache \<longleftrightarrow>
     (\<forall>args f. list_all (proper_arg fuel D) args \<longrightarrow>
        read_cache (js_get fcache identifier) (map cache_key args) = Some f \<longrightarrow>
        search_result fuel D t args = Inr (Some f))"

lemma read_write_cache:
  "read_cache (Some (write_cache keys f c)) keys' = (if keys' = keys then Some f else read_cache (Some c) keys')"
proof (induction keys arbitrary: c keys')
  case Nil
  show ?case by (cases keys') simp_all
next
  case (Cons key keys)
  show ?case
  proof (cases keys')
    case Nil
    then show ?thesis by (simp add: Let_def)
  next
    case k: (Cons key' keys'')
    have empty: "read_cache (Some (Fun_cache None None)) ks = None" for ks :: "string list"
      by (cases ks) simp_all
    show ?thesis
      using Cons.IH by (cases "cache_next c") (auto simp: k Let_def empty split: option.splits)
  qed
qed

lemma read_addToCache:
  "read_cache (js_get (addToCache identifier fcache args f) identifier) keys =
     (if keys = map cache_key args then Some f else read_cache (js_get fcache identifier) keys)"
proof -
  have empty: "read_cache (Some (Fun_cache None None)) ks = None" for ks :: "string list"
    by (cases ks) simp_all
  show ?thesis
    by (cases "js_get fcache identifier") (simp_all add: addToCache_def Let_def read_write_cache empty)
qed

lemma cache_key_inj:
  "proper_arg fuel D arg \<Longrightarrow> proper_arg fuel D arg' \<Longrightarrow> cache_key arg = cache_key arg' \<Longrightarrow> arg = arg'"
proof -
  assume proper: "proper_arg fuel D arg" "proper_arg fuel D arg'" and key: "cache_key arg = cache_key arg'"
  have names: "term_type_name ty \<in> set term_type_names" for ty
    by (cases ty) (simp_all add: term_type_names_def)
  have inj: "term_type_name ty = term_type_name ty' \<Longrightarrow> ty = ty'" for ty ty'
    by (cases ty; cases ty') simp_all
  show "arg = arg'"
    using proper key names inj by (cases arg; cases arg') (auto simp: proper_arg_def cache_key_def)
qed

lemma cache_keys_inj:
  "list_all (proper_arg fuel D) args \<Longrightarrow> list_all (proper_arg fuel D) args' \<Longrightarrow>
     map cache_key args = map cache_key args' \<Longrightarrow> args = args'"
proof (induction args arbitrary: args')
  case (Cons arg args)
  then show ?case by (cases args') (auto intro: cache_key_inj)
qed simp

lemma fun_cache_ok_add:
  assumes "fun_cache_ok fuel D identifier t fcache" and "list_all (proper_arg fuel D) args"
    and "search_result fuel D t args = Inr (Some f)"
  shows "fun_cache_ok fuel D identifier t (addToCache identifier fcache args f)"
  unfolding fun_cache_ok_def read_addToCache
  using assms cache_keys_inj [OF _ assms(2)] by (auto simp: fun_cache_ok_def)

lemma search_with_caches:
  fixes t :: "'f overload_tree"
  assumes args: "list_all (proper_arg fuel D) args"
    and cache: "cache_ok D cache" and fcache: "fun_cache_ok fuel D identifier t fcache"
  shows "\<exists>cache' fcache'. search fuel D identifier t args cache fcache =
      Some (search_result fuel D t args, cache', fcache') \<and>
    cache_ok D cache' \<and> fun_cache_ok fuel D identifier t fcache'"
proof (cases "read_cache (js_get fcache identifier) (map cache_key args)")
  case (Some f)
  then have "search_result fuel D t args = Inr (Some f)" using args fcache by (auto simp: fun_cache_ok_def)
  with Some cache fcache show ?thesis by (simp add: search_def)
next
  case None
  show ?thesis
  proof (cases args)
    case Nil
    with None cache fcache show ?thesis by (simp add: search_def search_result_def)
  next
    case (Cons arg rest)
    have typed: "list_all (typed_arg fuel D) args" "typed_arg fuel D arg"
      using args by (auto simp: Cons proper_arg_def list_all_iff)
    obtain cache1 where sub: "getSubTreeWithArg fuel D arg t cache = Some (subtrees_for fuel D arg t, cache1)"
      and ok1: "cache_ok D cache1"
      using getSubTreeWithArg_for [OF cache typed(2)] by blast
    let ?stack = "map (\<lambda>node. (1 :: nat, node)) (subtrees_for fuel D arg t)"
    have "\<forall>(index, node)\<in>set ?stack. index \<le> length args" by (auto simp: Cons)
    from search_loop_leaves [OF typed(1) ok1 this] obtain cache2
      where "search_loop fuel D args ?stack cache1 = Some (first_leaf (stack_leaves fuel D args ?stack), cache2)"
        and ok2: "cache_ok D cache2" by blast
    moreover have "stack_leaves fuel D args ?stack = leaves fuel D args t"
      by (simp add: Cons rev_map comp_def)
    moreover have result: "search_result fuel D t args = first_leaf (leaves fuel D args t)"
      by (simp add: search_result_def Cons)
    ultimately have loop: "search_loop fuel D args ?stack cache1 = Some (search_result fuel D t args, cache2)"
      by simp
    have search: "search fuel D identifier t args cache fcache =
        (case search_result fuel D t args of
           Inr (Some func) \<Rightarrow> Some (Inr (Some func), cache2, addToCache identifier fcache args func)
         | r \<Rightarrow> Some (r, cache2, fcache))"
      using None sub loop by (simp add: search_def) (simp add: Cons split: sum.split option.split)
    show ?thesis
    proof (cases "\<exists>f. search_result fuel D t args = Inr (Some f)")
      case True
      then obtain f where f: "search_result fuel D t args = Inr (Some f)" by blast
      show ?thesis unfolding search f using ok2 fun_cache_ok_add [OF fcache args f] by simp
    next
      case False
      then show ?thesis unfolding search using ok2 fcache by (auto split: sum.split option.split)
    qed
  qed
qed

lemma search_result_most_specific:
  assumes "wf_tree t" and "list_all (proper_arg fuel D) args" and "args \<noteq> []"
  shows "case search_result fuel D t args of
      Inr None \<Rightarrow> \<forall>vs. match_ranks fuel D args vs \<noteq> None \<longrightarrow> find_node t vs = None
    | Inr (Some f) \<Rightarrow> \<exists>us rs. match_ranks fuel D args us = Some rs \<and> getImplementationExact t us = Some f \<and>
        (\<forall>vs ss. match_ranks fuel D args vs = Some ss \<and> find_node t vs \<noteq> None \<longrightarrow> rank_le ss rs)
    | Inl e \<Rightarrow> \<exists>us rs. match_ranks fuel D args us = Some rs \<and> find_node t us \<noteq> None \<and>
        getImplementationExact t us = None"
proof (cases "leaves fuel D args t")
  case Nil
  then show ?thesis
    using leaves_none [OF assms(1,2) Nil] assms(3) by (simp add: search_result_def first_leaf_def)
next
  case (Cons node rest)
  from leaves_best [OF assms(1,2) Cons] obtain us rs
    where us: "match_ranks fuel D args us = Some rs" "find_node t us = Some node"
      "\<forall>vs ss. match_ranks fuel D args vs = Some ss \<and> find_node t vs \<noteq> None \<longrightarrow> rank_le ss rs" by blast
  then have exact: "getImplementationExact t us = implementation node" by (simp add: getImplementationExact_def)
  have result: "search_result fuel D t args =
      (case implementation node of None \<Rightarrow> Inl ''TypeError'' | Some f \<Rightarrow> Inr (Some f))"
    using assms(3) Cons by (simp add: search_result_def first_leaf_def)
  show ?thesis
  proof (cases "implementation node")
    case None
    with us exact have "match_ranks fuel D args us = Some rs \<and> find_node t us \<noteq> None \<and>
        getImplementationExact t us = None" by simp
    then show ?thesis unfolding result None option.case sum.case by blast
  next
    case (Some f)
    with us exact have "match_ranks fuel D args us = Some rs \<and> getImplementationExact t us = Some f \<and>
        (\<forall>vs ss. match_ranks fuel D args vs = Some ss \<and> find_node t vs \<noteq> None \<longrightarrow> rank_le ss rs)" by simp
    then show ?thesis unfolding result Some option.case sum.case by blast
  qed
qed

text \<open>The lists of types in the tree that accept the arguments all lead to implementations.  They do when the
  nodes with as many types as there are arguments have one (\<open>implemented_at\<close>).\<close>

definition all_implemented ::
  "nat \<Rightarrow> (string \<Rightarrow> lit_type option) \<Rightarrow> term_expression list \<Rightarrow> 'f overload_tree \<Rightarrow> bool" where
  "all_implemented fuel D args t \<longleftrightarrow>
     (\<forall>us. match_ranks fuel D args us \<noteq> None \<longrightarrow> find_node t us \<noteq> None \<longrightarrow> getImplementationExact t us \<noteq> None)"

fun implemented_at :: "nat \<Rightarrow> 'f overload_tree \<Rightarrow> bool" where
  "implemented_at 0 t = (implementation t \<noteq> None)"
| "implemented_at (Suc n) t =
     (list_all (\<lambda>(k, sub). implemented_at n sub) (generalOverloads t) \<and>
      list_all (\<lambda>e. case e of None \<Rightarrow> True | Some (k, sub) \<Rightarrow> implemented_at n sub) (literalOverLoads t))"

lemma find_literal_mem: "find_literal k es = Some sub \<Longrightarrow> Some (k, sub) \<in> set es"
  by (induction k es rule: find_literal.induct) (auto split: if_splits)

lemma implemented_subtree: "implemented_at (Suc n) t \<Longrightarrow> getSubtree t u = Some sub \<Longrightarrow> implemented_at n sub"
proof -
  assume t: "implemented_at (Suc n) t" and sub: "getSubtree t u = Some sub"
  from sub consider k where "js_get (generalOverloads t) k = Some sub" | k where "find_literal k (literalOverLoads t) = Some sub"
    by (auto simp: getSubtree_def split: option.splits arg_type.splits)
  then show ?thesis
  proof cases
    case 1
    from js_get_mem [OF this] t show ?thesis by (auto simp: list_all_iff)
  next
    case 2
    from find_literal_mem [OF this] t show ?thesis by (fastforce simp: list_all_iff)
  qed
qed

lemma implemented_node:
  "implemented_at (length us) t \<Longrightarrow> find_node t us = Some node \<Longrightarrow> implementation node \<noteq> None"
proof (induction us arbitrary: t)
  case (Cons u us)
  then obtain sub where sub: "getSubtree t u = Some sub" "find_node sub us = Some node"
    by (auto split: option.splits)
  with implemented_subtree [of "length us" t u sub] Cons show ?case by simp
qed simp

lemma match_ranks_length: "match_ranks fuel D args us = Some rs \<Longrightarrow> length us = length args"
  by (induction fuel D args us arbitrary: rs rule: match_ranks.induct) (auto split: option.splits)

lemma implemented_at_all: "implemented_at (length args) t \<Longrightarrow> all_implemented fuel D args t"
  unfolding all_implemented_def getImplementationExact_def
  using implemented_node match_ranks_length by fastforce

text \<open>C16. Searching the implementation for arguments gives the same result with the caches as without them,
  whatever earlier searches have left there: the cache of functions and the cache of the super types
  of discovered datatypes stay true.  It also always ends when the types of the arguments do.\<close>

theorem cached_search_is_search:
  fixes t :: "'f overload_tree"
  assumes args: "list_all (proper_arg fuel D) args"
    and cache: "cache_ok D cache" and fcache: "fun_cache_ok fuel D identifier t fcache"
  shows "\<exists>cache' fcache'. search fuel D identifier t args cache fcache =
      Some (search_result fuel D t args, cache', fcache') \<and>
    cache_ok D cache' \<and> fun_cache_ok fuel D identifier t fcache'"
  by (rule search_with_caches [OF assms])

text \<open>C15. When the lists of types in the tree that accept the arguments all lead to implementations, a search
  returns, and what it finds is the most specific overload: its types accept the arguments, and no other list
  of types in the tree that accepts them ranks higher, the first argument counting first.  It finds
  nothing exactly when no list of types in the tree accepts the arguments.  Without the condition the search may
  throw although an overload accepts the arguments (\<open>search_of_prefix_throws\<close>).\<close>

theorem search_most_specific:
  fixes t :: "'f overload_tree"
  assumes "wf_tree t" and "list_all (proper_arg fuel D) args" and "args \<noteq> []"
    and "cache_ok D cache" and "fun_cache_ok fuel D identifier t fcache"
    and "all_implemented fuel D args t"
  shows "\<exists>found caches. search fuel D identifier t args cache fcache = Some (Inr found, caches) \<and>
    (case found of
      None \<Rightarrow> \<forall>vs. match_ranks fuel D args vs \<noteq> None \<longrightarrow> find_node t vs = None
    | Some f \<Rightarrow> \<exists>us rs. match_ranks fuel D args us = Some rs \<and> getImplementationExact t us = Some f \<and>
        (\<forall>vs ss. match_ranks fuel D args vs = Some ss \<and> find_node t vs \<noteq> None \<longrightarrow> rank_le ss rs))"
proof -
  obtain cache' fcache' where run: "search fuel D identifier t args cache fcache =
      Some (search_result fuel D t args, cache', fcache')"
    using search_with_caches [OF assms(2,4,5)] by blast
  note best = search_result_most_specific [OF assms(1-3)]
  show ?thesis
  proof (cases "search_result fuel D t args")
    case (Inl e)
    then show ?thesis using best assms(6) by (auto simp: all_implemented_def)
  next
    case (Inr found)
    with best run show ?thesis by auto
  qed
qed

text \<open>Sample overloads: with three doubles, or with two terms.\<close>

definition sample_tree :: "(unit, nat, nat) impl overload_tree" where
  "sample_tree = build_tree (\<lambda>c v. v)
     [(replicate 3 (Arg_literal XSD_DOUBLE), \<lambda>c vs. Inr 3), (replicate 2 Arg_term, \<lambda>c vs. Inr 2)]"

definition sample_args :: "term_expression list" where
  "sample_args = replicate 3 (Literal_expr (type_iri XSD_FLOAT))"

lemma sample_proper: "list_all (proper_arg 1 (\<lambda>ty. None)) sample_args"
  by code_simp

lemma cached_search_is_search_witness:
  "\<exists>cache' fcache'. search 1 (\<lambda>ty. None) ''f'' sample_tree sample_args [] [] =
      Some (search_result 1 (\<lambda>ty. None) sample_tree sample_args, cache', fcache') \<and>
    cache_ok (\<lambda>ty. None) cache' \<and> fun_cache_ok 1 (\<lambda>ty. None) ''f'' sample_tree fcache'"
  by (rule cached_search_is_search [OF sample_proper]) (simp_all add: cache_ok_def fun_cache_ok_def)

text \<open>With two strings, or with two terms.\<close>

definition string_tree :: "(unit, nat, nat) impl overload_tree" where
  "string_tree = build_tree (\<lambda>c v. v)
     [(replicate 2 (Arg_literal XSD_STRING), \<lambda>c vs. Inr 3), (replicate 2 Arg_term, \<lambda>c vs. Inr 2)]"

definition string_args :: "term_expression list" where
  "string_args = [Literal_expr (type_iri XSD_STRING), Literal_expr (type_iri XSD_NORMALIZED_STRING)]"

lemma string_proper: "list_all (proper_arg 1 (\<lambda>ty. None)) string_args"
  by code_simp

lemma search_most_specific_witness:
  "\<exists>found caches. search 1 (\<lambda>ty. None) ''f'' string_tree string_args [] [] = Some (Inr found, caches) \<and>
    (case found of
      None \<Rightarrow> \<forall>vs. match_ranks 1 (\<lambda>ty. None) string_args vs \<noteq> None \<longrightarrow> find_node string_tree vs = None
    | Some f \<Rightarrow> \<exists>us rs. match_ranks 1 (\<lambda>ty. None) string_args us = Some rs \<and>
        getImplementationExact string_tree us = Some f \<and>
        (\<forall>vs ss. match_ranks 1 (\<lambda>ty. None) string_args vs = Some ss \<and> find_node string_tree vs \<noteq> None \<longrightarrow>
           rank_le ss rs))"
proof (rule search_most_specific [OF _ string_proper])
  show "wf_tree string_tree" by (simp add: string_tree_def wf_build_tree [THEN conjunct1])
  have "implemented_at (length string_args) string_tree" by code_simp
  then show "all_implemented 1 (\<lambda>ty. None) string_args string_tree" by (rule implemented_at_all)
qed (simp_all add: string_args_def cache_ok_def fun_cache_ok_def)

text \<open>With overloads for three named nodes and for two terms, a search with two named nodes throws, although
  the overload for two terms accepts them: the node for two named nodes has no implementation, and
  there is no third argument.\<close>

definition prefix_tree :: "(unit, nat, nat) impl overload_tree" where
  "prefix_tree = build_tree (\<lambda>c v. v)
     [(replicate 3 (Arg_termType T_namedNode), \<lambda>c vs. Inr 3), (replicate 2 Arg_term, \<lambda>c vs. Inr 2)]"

lemma search_of_prefix_throws:
  "map_sum (\<lambda>e. e) (map_option (\<lambda>f. f () []))
     (search_result 1 (\<lambda>ty. None) prefix_tree (replicate 2 (Term_expr T_namedNode))) = Inl ''TypeError'' \<and>
   match_ranks 1 (\<lambda>ty. None) (replicate 2 (Term_expr T_namedNode)) (replicate 2 Arg_term) = Some [0, 0] \<and>
   map_option (\<lambda>f. f () []) (getImplementationExact prefix_tree (replicate 2 Arg_term)) = Some (Inr 2)"
  by code_simp

end
