(* ===== verification/Path_Iterator.thy ===== *)
theory Path_Iterator
  imports RDF_Terms
begin

text \<open>
  Property paths of any length from a fixed term
  (\<open>packages/actor-abstract-path/lib/PathVariableObjectIterator.ts\<close>): an iterator that follows a path step
  by step from a subject, and emits the terms it comes to.

  \<open>succs t\<close> are the terms to which one step of the path leads from \<open>t\<close>: the results of the
  path operation that the iterator sends to the mediator for \<open>t\<close>.  A term is identified with its
  string, which the library \<open>rdf-string\<close> makes unique.  The methods run up to their next \<open>await\<close> at
  once; each event below is such a piece, and any order of events is a run.
\<close>

section \<open>Searches that keep a frontier\<close>

definition reachable :: "('t \<Rightarrow> 't list) \<Rightarrow> 't set \<Rightarrow> 't set" where
  "reachable succs start = {y. \<exists>x\<in>start. (\<lambda>a b. b \<in> set (succs a))\<^sup>*\<^sup>* x y}"

lemma reachable_start: "start \<subseteq> reachable succs start"
  by (auto simp: reachable_def)

lemma reachable_step: "x \<in> reachable succs start \<Longrightarrow> y \<in> set (succs x) \<Longrightarrow> y \<in> reachable succs start"
  unfolding reachable_def by (auto intro: rtranclp.rtrancl_into_rtrancl)

lemma reachable_least:
  assumes "start \<subseteq> S" and "\<And>x. x \<in> S \<Longrightarrow> set (succs x) \<subseteq> S"
  shows "reachable succs start \<subseteq> S"
proof
  fix y
  assume "y \<in> reachable succs start"
  then obtain x where "x \<in> start" "(\<lambda>a b. b \<in> set (succs a))\<^sup>*\<^sup>* x y" by (auto simp: reachable_def)
  from this(2) this(1) show "y \<in> S"
    by (induction rule: rtranclp_induct) (use assms in auto)
qed

text \<open>The contract of a search for the terms that can be reached: it emits terms, has terms waiting to be
  looked at, and each of its steps may emit a waiting term, whose successors then wait.\<close>

locale frontier_search =
  fixes succs :: "'t \<Rightarrow> 't list"
    and step :: "'s \<Rightarrow> 's \<Rightarrow> bool"
    and ok :: "'s \<Rightarrow> bool"
    and emitted :: "'s \<Rightarrow> 't list"
    and waiting :: "'s \<Rightarrow> 't set"
  assumes ok_step: "ok s \<Longrightarrow> step s s' \<Longrightarrow> ok s'"
    and emits: "ok s \<Longrightarrow> step s s' \<Longrightarrow>
      emitted s' = emitted s \<or> (\<exists>x\<in>waiting s. x \<notin> set (emitted s) \<and> emitted s' = emitted s @ [x])"
    and keeps: "ok s \<Longrightarrow> step s s' \<Longrightarrow> waiting s \<subseteq> waiting s' \<union> set (emitted s')"
    and expands: "ok s \<Longrightarrow> step s s' \<Longrightarrow> x \<in> set (emitted s') - set (emitted s) \<Longrightarrow>
      set (succs x) \<subseteq> waiting s' \<union> set (emitted s')"
    and only: "ok s \<Longrightarrow> step s s' \<Longrightarrow> waiting s' \<subseteq> waiting s \<union> (\<Union>x\<in>set (emitted s'). set (succs x))"
begin

definition search_inv :: "'t set \<Rightarrow> 's \<Rightarrow> bool" where
  "search_inv start s \<longleftrightarrow>
     ok s \<and> distinct (emitted s) \<and> set (emitted s) \<union> waiting s \<subseteq> reachable succs start \<and>
     start \<subseteq> set (emitted s) \<union> waiting s \<and>
     (\<forall>x\<in>set (emitted s). set (succs x) \<subseteq> set (emitted s) \<union> waiting s)"

lemma search_inv_step:
  assumes inv: "search_inv start s" and step: "step s s'"
  shows "search_inv start s'"
proof -
  from inv have ok: "ok s" by (simp add: search_inv_def)
  note laws = emits [OF ok step] keeps [OF ok step] expands [OF ok step] only [OF ok step]
  have grows: "set (emitted s) \<subseteq> set (emitted s')" "distinct (emitted s')"
    "set (emitted s') \<subseteq> set (emitted s) \<union> waiting s"
    using laws(1) inv by (auto simp: search_inv_def)
  have covered: "set (emitted s) \<union> waiting s \<subseteq> set (emitted s') \<union> waiting s'" using grows(1) laws(2) by auto
  have emitted: "set (emitted s') \<subseteq> reachable succs start" using grows(3) inv by (auto simp: search_inv_def)
  have old: "waiting s \<subseteq> reachable succs start" using inv by (simp add: search_inv_def)
  have "waiting s' \<subseteq> reachable succs start"
  proof
    fix y assume "y \<in> waiting s'"
    with laws(4) consider "y \<in> waiting s" | x where "x \<in> set (emitted s')" "y \<in> set (succs x)" by blast
    then show "y \<in> reachable succs start"
      by cases (use old emitted in \<open>blast intro: reachable_step\<close>)+
  qed
  moreover have "set (succs x) \<subseteq> set (emitted s') \<union> waiting s'" if x: "x \<in> set (emitted s')" for x
  proof (cases "x \<in> set (emitted s)")
    case True
    then have "set (succs x) \<subseteq> set (emitted s) \<union> waiting s" using inv by (simp add: search_inv_def)
    with covered show ?thesis by blast
  next
    case False
    with x laws(3) show ?thesis by blast
  qed
  ultimately show ?thesis
    using ok_step [OF ok step] grows(2) emitted covered inv by (auto simp: search_inv_def)
qed

lemma search_inv_steps: "step\<^sup>*\<^sup>* s s' \<Longrightarrow> search_inv start s \<Longrightarrow> search_inv start s'"
  by (induction rule: rtranclp_induct) (auto intro: search_inv_step)

lemma search_sound:
  "search_inv start s \<Longrightarrow> distinct (emitted s) \<and> set (emitted s) \<subseteq> reachable succs start"
  by (simp add: search_inv_def)

lemma search_complete:
  "search_inv start s \<Longrightarrow> waiting s = {} \<Longrightarrow> distinct (emitted s) \<and> set (emitted s) = reachable succs start"
  using reachable_least [of start "set (emitted s)" succs] by (auto simp: search_inv_def)

end

text \<open>A sharper contract, which gives the first one: a step looks at one waiting term, or at none.\<close>

definition visit_effect ::
  "('t \<Rightarrow> 't list) \<Rightarrow> 't list \<Rightarrow> 't set \<Rightarrow> 't list \<Rightarrow> 't set \<Rightarrow> bool" where
  "visit_effect succs seen wait seen' wait' \<longleftrightarrow>
     (seen' = seen \<and> wait' = wait) \<or>
     (\<exists>x\<in>wait.
        if x \<in> set seen then seen' = seen \<and> insert x wait' = wait
        else seen' = seen @ [x] \<and> insert x wait' = wait \<union> set (succs x))"

locale visit_search =
  fixes succs :: "'t \<Rightarrow> 't list"
    and step :: "'s \<Rightarrow> 's \<Rightarrow> bool"
    and ok :: "'s \<Rightarrow> bool"
    and emitted :: "'s \<Rightarrow> 't list"
    and waiting :: "'s \<Rightarrow> 't set"
  assumes ok_visit: "ok s \<Longrightarrow> step s s' \<Longrightarrow> ok s'"
    and visits: "ok s \<Longrightarrow> step s s' \<Longrightarrow> visit_effect succs (emitted s) (waiting s) (emitted s') (waiting s')"
begin

lemma visit_cases:
  assumes "ok s" and "step s s'"
  obtains (same) "emitted s' = emitted s" "waiting s' = waiting s"
    | (seen) x where "x \<in> waiting s" "x \<in> set (emitted s)" "emitted s' = emitted s" "insert x (waiting s') = waiting s"
    | (new) x where "x \<in> waiting s" "x \<notin> set (emitted s)" "emitted s' = emitted s @ [x]"
        "insert x (waiting s') = waiting s \<union> set (succs x)"
  using visits [OF assms] unfolding visit_effect_def by (auto split: if_splits)

end

sublocale visit_search \<subseteq> frontier_search
proof
  fix s s'
  assume ok: "ok s" and step: "step s s'"
  show "ok s'" by (rule ok_visit [OF ok step])
  show "emitted s' = emitted s \<or> (\<exists>x\<in>waiting s. x \<notin> set (emitted s) \<and> emitted s' = emitted s @ [x])"
    by (rule visit_cases [OF ok step]) auto
  show "waiting s \<subseteq> waiting s' \<union> set (emitted s')"
  proof (rule visit_cases [OF ok step])
    fix x assume x: "x \<in> set (emitted s)" "emitted s' = emitted s" "insert x (waiting s') = waiting s"
    from x(3) have "waiting s \<subseteq> insert x (waiting s')" by blast
    with x(1,2) show ?thesis by auto
  next
    fix x assume x: "emitted s' = emitted s @ [x]" "insert x (waiting s') = waiting s \<union> set (succs x)"
    from x(2) have "waiting s \<subseteq> insert x (waiting s')" by blast
    with x(1) show ?thesis by auto
  qed auto
  show "waiting s' \<subseteq> waiting s \<union> (\<Union>x\<in>set (emitted s'). set (succs x))"
  proof (rule visit_cases [OF ok step])
    fix x assume "insert x (waiting s') = waiting s"
    then show ?thesis by blast
  next
    fix x assume x: "emitted s' = emitted s @ [x]" "insert x (waiting s') = waiting s \<union> set (succs x)"
    from x(2) have "waiting s' \<subseteq> waiting s \<union> set (succs x)" by blast
    with x(1) show ?thesis by auto
  qed auto
  show "set (succs x) \<subseteq> waiting s' \<union> set (emitted s')" if x: "x \<in> set (emitted s') - set (emitted s)" for x
  proof (rule visit_cases [OF ok step])
    fix y assume y: "emitted s' = emitted s @ [y]" "insert y (waiting s') = waiting s \<union> set (succs y)"
    from y(2) have "set (succs y) \<subseteq> insert y (waiting s')" by blast
    with y(1) x show ?thesis by auto
  qed (use x in auto)
qed

section \<open>The iterator\<close>

text \<open>\<open>Idle\<close>, or in \<open>_read\<close>: in its first loop, or after it.\<close>

datatype read_phase = Idle | Opening | Reading

text \<open>The values of \<open>termHashes\<close> in the order of insertion are the items pushed to the buffer.
  \<open>awaited\<close> are the operations for which \<open>startNextOperation\<close> awaits the mediator, with the flag that
  is true when \<open>_read\<close> called it.  A pending operation is the term it starts from, a running one the
  items still to be read from it.\<close>

record 't path_iterator =
  termHashes :: "'t list"
  pendingOperations :: "'t list"
  awaited :: "('t \<times> bool) list"
  runningOperations :: "'t list list"
  started :: bool
  phase :: read_phase
  closed :: bool

definition push_item :: "'t \<Rightarrow> bool \<Rightarrow> 't path_iterator \<Rightarrow> 't path_iterator" where
  "push_item item pushAsResult st =
     (if pushAsResult \<and> List.member (termHashes st) item then st
      else st\<lparr>pendingOperations := pendingOperations st @ [item],
              termHashes := (if pushAsResult then termHashes st @ [item] else termHashes st)\<rparr>)"

definition new_iterator :: "'t \<Rightarrow> bool \<Rightarrow> 't path_iterator" where
  "new_iterator subject emitFirstSubject =
     push_item subject emitFirstSubject
       \<lparr>termHashes = [], pendingOperations = [], awaited = [], runningOperations = [], started = False,
        phase = Idle, closed = False\<rparr>"

text \<open>\<open>startNextOperation\<close> up to its \<open>await\<close>; \<open>pop()\<close> of no operation gives \<open>undefined\<close>, whose
  operation cannot be read: \<open>None\<close>.\<close>

definition startNextOperation :: "bool \<Rightarrow> 't path_iterator \<Rightarrow> 't path_iterator option" where
  "startNextOperation fillBuffer st =
     (if pendingOperations st = [] then None
      else Some (st\<lparr>started := True, pendingOperations := butlast (pendingOperations st),
                    awaited := awaited st @ [(last (pendingOperations st), fillBuffer)]\<rparr>))"

definition closeIfNeeded :: "'t path_iterator \<Rightarrow> 't path_iterator" where
  "closeIfNeeded st =
     (if runningOperations st = [] \<and> pendingOperations st = [] then st\<lparr>closed := True\<rparr> else st)"

datatype path_event =
    Request_metadata
  | Mediated nat
  | Read
  | Open_next
  | Opened_all
  | Read_item nat
  | Read_done
  | Ended nat

definition drop_nth :: "nat \<Rightarrow> 'a list \<Rightarrow> 'a list" where
  "drop_nth i xs = take i xs @ drop (Suc i) xs"

definition may_open :: "nat \<Rightarrow> 't path_iterator \<Rightarrow> bool" where
  "may_open maxRunning st \<longleftrightarrow> length (runningOperations st) < maxRunning \<and> pendingOperations st \<noteq> []"

definition awaiting_read :: "'t path_iterator \<Rightarrow> bool" where
  "awaiting_read st = list_ex snd (awaited st)"

text \<open>\<open>Request_metadata\<close>: \<open>getProperty('metadata')\<close> before anything started.  \<open>Mediated i\<close>: the mediator
  answers the \<open>i\<close>-th awaited operation.  \<open>Read\<close>, \<open>Open_next\<close>, \<open>Opened_all\<close>, \<open>Read_item i\<close> and \<open>Read_done\<close>:
  the parts of \<open>_read\<close>, which reads an item of the \<open>i\<close>-th running operation.  \<open>Ended i\<close>: the \<open>i\<close>-th
  running operation ends.  An event that cannot happen is \<open>None\<close>; the part of \<open>_read\<close> after its
  loop runs without a pause.\<close>

fun iterator_event ::
  "('t \<Rightarrow> 't list) \<Rightarrow> nat \<Rightarrow> path_event \<Rightarrow> 't path_iterator \<Rightarrow> 't path_iterator option" where
  "iterator_event succs maxRunning Request_metadata st =
     (if closed st \<or> phase st = Reading \<or> started st then None else startNextOperation False st)"
| "iterator_event succs maxRunning (Mediated i) st =
     (if closed st \<or> phase st = Reading \<or> \<not> i < length (awaited st) then None
      else Some (st\<lparr>awaited := drop_nth i (awaited st),
                    runningOperations := runningOperations st @ [succs (fst (awaited st ! i))]\<rparr>))"
| "iterator_event succs maxRunning Read st =
     (if closed st \<or> phase st \<noteq> Idle then None else Some (st\<lparr>phase := Opening\<rparr>))"
| "iterator_event succs maxRunning Open_next st =
     (if closed st \<or> phase st \<noteq> Opening \<or> awaiting_read st \<or> \<not> may_open maxRunning st then None
      else startNextOperation True st)"
| "iterator_event succs maxRunning Opened_all st =
     (if closed st \<or> phase st \<noteq> Opening \<or> awaiting_read st \<or> may_open maxRunning st then None
      else Some (st\<lparr>phase := Reading\<rparr>))"
| "iterator_event succs maxRunning (Read_item i) st =
     (if closed st \<or> phase st \<noteq> Reading \<or> \<not> i < length (runningOperations st) then None
      else case runningOperations st ! i of
        [] \<Rightarrow> None
      | item # items \<Rightarrow>
          Some (push_item item True (st\<lparr>runningOperations := (runningOperations st)[i := items]\<rparr>)))"
| "iterator_event succs maxRunning Read_done st =
     (if closed st \<or> phase st \<noteq> Reading then None else Some (closeIfNeeded (st\<lparr>phase := Idle\<rparr>)))"
| "iterator_event succs maxRunning (Ended i) st =
     (if closed st \<or> phase st = Reading \<or> \<not> i < length (runningOperations st) \<or>
         runningOperations st ! i \<noteq> [] then None
      else Some (st\<lparr>runningOperations := drop_nth i (runningOperations st)\<rparr>))"

fun iterator_run ::
  "('t \<Rightarrow> 't list) \<Rightarrow> nat \<Rightarrow> path_event list \<Rightarrow> 't path_iterator \<Rightarrow> 't path_iterator option" where
  "iterator_run succs maxRunning [] st = Some st"
| "iterator_run succs maxRunning (e # es) st =
     (case iterator_event succs maxRunning e st of
        None \<Rightarrow> None
      | Some st' \<Rightarrow> iterator_run succs maxRunning es st')"

section \<open>The iterator searches a frontier\<close>

definition iterator_step :: "('t \<Rightarrow> 't list) \<Rightarrow> nat \<Rightarrow> 't path_iterator \<Rightarrow> 't path_iterator \<Rightarrow> bool" where
  "iterator_step succs maxRunning st st' \<longleftrightarrow> (\<exists>e. iterator_event succs maxRunning e st = Some st')"

definition iterator_waiting :: "('t \<Rightarrow> 't list) \<Rightarrow> 't path_iterator \<Rightarrow> 't set" where
  "iterator_waiting succs st =
     (\<Union>t\<in>set (pendingOperations st) \<union> fst ` set (awaited st). set (succs t)) \<union>
     \<Union> (set ` set (runningOperations st))"

definition iterator_ok :: "'t path_iterator \<Rightarrow> bool" where
  "iterator_ok st \<longleftrightarrow>
     (phase st = Reading \<longrightarrow> \<not> awaiting_read st \<and> (runningOperations st = [] \<longrightarrow> pendingOperations st = [])) \<and>
     (closed st \<longrightarrow> \<not> awaiting_read st \<and> runningOperations st = [] \<and> pendingOperations st = [])"

lemma set_drop_nth: "i < length xs \<Longrightarrow> set xs = insert (xs ! i) (set (drop_nth i xs))"
  by (metis Un_insert_right append.assoc drop_nth_def id_take_nth_drop list.simps(15) set_append)

lemma length_drop_nth [simp]: "i < length xs \<Longrightarrow> length (drop_nth i xs) = length xs - 1"
  by (simp add: drop_nth_def)

lemma drop_nth_empty: "i < length xs \<Longrightarrow> drop_nth i xs = [] \<longleftrightarrow> length xs = 1"
  using length_drop_nth [of i xs] by (cases "drop_nth i xs") auto

lemma push_item_simps:
  "runningOperations (push_item x b st) = runningOperations st" "awaited (push_item x b st) = awaited st"
  "phase (push_item x b st) = phase st" "closed (push_item x b st) = closed st"
  "started (push_item x b st) = started st"
  by (simp_all add: push_item_def)

lemma push_item_cases:
  "termHashes (push_item x b st) =
     (if b \<and> x \<notin> set (termHashes st) then termHashes st @ [x] else termHashes st)"
  "set (pendingOperations (push_item x b st)) \<subseteq> insert x (set (pendingOperations st))"
  "\<not> b \<or> x \<notin> set (termHashes st) \<Longrightarrow> set (pendingOperations (push_item x b st)) = insert x (set (pendingOperations st))"
  "b \<and> x \<in> set (termHashes st) \<Longrightarrow> push_item x b st = st"
  by (auto simp: push_item_def)

lemma start_next_waiting:
  assumes "startNextOperation b st = Some st'"
  shows "iterator_waiting succs st' = iterator_waiting succs st" "termHashes st' = termHashes st"
    "runningOperations st' = runningOperations st" "phase st' = phase st" "closed st' = closed st"
    "awaiting_read st' \<longleftrightarrow> b \<or> awaiting_read st"
proof -
  from assms have ne: "pendingOperations st \<noteq> []"
    and st': "st' = st\<lparr>started := True, pendingOperations := butlast (pendingOperations st),
      awaited := awaited st @ [(last (pendingOperations st), b)]\<rparr>"
    by (auto simp: startNextOperation_def split: if_splits)
  have "set (pendingOperations st) = insert (last (pendingOperations st)) (set (butlast (pendingOperations st)))"
    using append_butlast_last_id [OF ne] by (metis Un_insert_right list.simps(15) set_append sup_bot.right_neutral empty_set)
  then show "iterator_waiting succs st' = iterator_waiting succs st"
    by (auto simp: iterator_waiting_def st')
qed (use assms in \<open>auto simp: startNextOperation_def awaiting_read_def split: if_splits\<close>)

lemma waiting_mediated:
  assumes "i < length (awaited st)"
  shows "iterator_waiting succs (st\<lparr>awaited := drop_nth i (awaited st),
      runningOperations := runningOperations st @ [succs (fst (awaited st ! i))]\<rparr>) = iterator_waiting succs st"
  by (auto simp: iterator_waiting_def set_drop_nth [OF assms])

lemma nth_split: "i < length xs \<Longrightarrow> xs ! i = x \<Longrightarrow> \<exists>us vs. xs = us @ x # vs \<and> (\<forall>y. xs[i := y] = us @ y # vs)"
  using id_take_nth_drop [of i xs] upd_conv_take_nth_drop [of i xs] by metis

lemma waiting_read:
  assumes "i < length (runningOperations st)" and "runningOperations st ! i = item # items"
  shows "iterator_waiting succs st =
    insert item (iterator_waiting succs (st\<lparr>runningOperations := (runningOperations st)[i := items]\<rparr>))"
proof -
  obtain us vs where "runningOperations st = us @ (item # items) # vs"
    "(runningOperations st)[i := items] = us @ items # vs"
    using nth_split [OF assms] by blast
  then have "\<Union> (set ` set (runningOperations st)) =
      insert item (\<Union> (set ` set ((runningOperations st)[i := items])))"
    by auto
  then show ?thesis by (simp add: iterator_waiting_def)
qed

lemma waiting_ended:
  assumes "i < length (runningOperations st)" and "runningOperations st ! i = []"
  shows "iterator_waiting succs (st\<lparr>runningOperations := drop_nth i (runningOperations st)\<rparr>) = iterator_waiting succs st"
  using set_drop_nth [OF assms(1)] assms(2) by (simp add: iterator_waiting_def)

lemma waiting_fields [simp]:
  "iterator_waiting succs (st\<lparr>phase := p\<rparr>) = iterator_waiting succs st"
  "iterator_waiting succs (st\<lparr>closed := c\<rparr>) = iterator_waiting succs st"
  by (simp_all add: iterator_waiting_def)

text \<open>What an event does, as the contract of a search needs it.\<close>

abbreviation search_effect ::
  "('t \<Rightarrow> 't list) \<Rightarrow> 't path_iterator \<Rightarrow> 't path_iterator \<Rightarrow> bool" where
  "search_effect succs st st' \<equiv>
     visit_effect succs (termHashes st) (iterator_waiting succs st) (termHashes st') (iterator_waiting succs st')"

lemma read_effect:
  assumes "i < length (runningOperations st)" and "runningOperations st ! i = item # items"
  shows "search_effect succs st
    (push_item item True (st\<lparr>runningOperations := (runningOperations st)[i := items]\<rparr>))"
proof -
  let ?st = "st\<lparr>runningOperations := (runningOperations st)[i := items]\<rparr>"
  have item: "iterator_waiting succs st = insert item (iterator_waiting succs ?st)" by (rule waiting_read [OF assms])
  show ?thesis
  proof (cases "item \<in> set (termHashes st)")
    case True
    then have "push_item item True ?st = ?st" by (simp add: push_item_def)
    with True item show ?thesis by (auto simp: visit_effect_def)
  next
    case False
    then have "iterator_waiting succs (push_item item True ?st) = iterator_waiting succs ?st \<union> set (succs item)"
      by (auto simp: push_item_def iterator_waiting_def)
    moreover have "termHashes (push_item item True ?st) = termHashes st @ [item]"
      using False by (simp add: push_item_def)
    ultimately show ?thesis using False item by (auto simp: visit_effect_def)
  qed
qed

lemma event_effect: "iterator_event succs m e st = Some st' \<Longrightarrow> search_effect succs st st'"
proof (cases e)
  case (Read_item i)
  assume "iterator_event succs m e st = Some st'"
  with Read_item obtain item items where "i < length (runningOperations st)" "runningOperations st ! i = item # items"
    "st' = push_item item True (st\<lparr>runningOperations := (runningOperations st)[i := items]\<rparr>)"
    by (auto split: if_splits list.splits)
  from read_effect [OF this(1,2), of succs] this(3) show ?thesis by simp
qed (auto simp: visit_effect_def closeIfNeeded_def waiting_mediated waiting_ended
    dest: start_next_waiting(1,2) split: if_splits)

lemma event_ok:
  assumes "iterator_event succs m e st = Some st'" and "iterator_ok st" and "0 < m"
  shows "iterator_ok st'"
proof (cases e)
  case Request_metadata
  with assms show ?thesis
    using start_next_waiting(3-6) [of False st st'] by (auto simp: iterator_ok_def split: if_splits)
next
  case Open_next
  with assms show ?thesis
    using start_next_waiting(3-6) [of True st st'] by (auto simp: iterator_ok_def split: if_splits)
next
  case (Mediated i)
  with assms show ?thesis by (auto simp: iterator_ok_def split: if_splits)
next
  case (Read_item i)
  with assms show ?thesis
    by (auto simp: iterator_ok_def push_item_simps awaiting_read_def split: if_splits list.splits)
next
  case Opened_all
  with assms show ?thesis by (auto simp: iterator_ok_def may_open_def awaiting_read_def split: if_splits)
next
  case (Ended i)
  with assms show ?thesis by (auto simp: iterator_ok_def split: if_splits)
qed (use assms in \<open>auto simp: iterator_ok_def closeIfNeeded_def awaiting_read_def split: if_splits\<close>)

interpretation path: visit_search succs "iterator_step succs (Suc m)" iterator_ok termHashes "iterator_waiting succs"
  for succs :: "'t \<Rightarrow> 't list" and m :: nat
  by unfold_locales (auto simp: iterator_step_def intro: event_ok event_effect)

definition path_start :: "('t \<Rightarrow> 't list) \<Rightarrow> 't \<Rightarrow> bool \<Rightarrow> 't set" where
  "path_start succs subject emitFirstSubject = (if emitFirstSubject then {subject} else set (succs subject))"

lemma new_iterator_fields [simp]:
  "pendingOperations (new_iterator s b) = [s]" "termHashes (new_iterator s b) = (if b then [s] else [])"
  "awaited (new_iterator s b) = []" "runningOperations (new_iterator s b) = []"
  "phase (new_iterator s b) = Idle" "closed (new_iterator s b) = False" "started (new_iterator s b) = False"
  by (simp_all add: new_iterator_def push_item_def)

lemma new_iterator_waiting: "iterator_waiting succs (new_iterator s b) = set (succs s)"
  by (simp add: iterator_waiting_def)

lemma new_iterator_inv: "path.search_inv succs (path_start succs s b) (new_iterator s b)"
proof -
  have "set (succs s) \<subseteq> reachable succs (path_start succs s b)"
    using reachable_start [of "path_start succs s b" succs] reachable_step [of s succs "path_start succs s b"]
    by (auto simp: path_start_def)
  then show ?thesis
    using reachable_start [of "path_start succs s b" succs]
    by (auto simp: path.search_inv_def iterator_ok_def new_iterator_waiting path_start_def)
qed

lemma iterator_run_steps:
  "iterator_run succs m es st = Some st' \<Longrightarrow> (iterator_step succs m)\<^sup>*\<^sup>* st st'"
proof (induction es arbitrary: st)
  case (Cons e es)
  then obtain st1 where "iterator_event succs m e st = Some st1" "iterator_run succs m es st1 = Some st'"
    by (auto split: option.splits)
  with Cons.IH show ?case by (auto simp: iterator_step_def intro: converse_rtranclp_into_rtranclp)
qed simp

lemma iterator_run_inv:
  "iterator_run succs (Suc m) es (new_iterator s b) = Some st \<Longrightarrow>
     path.search_inv succs (path_start succs s b) st"
  by (rule path.search_inv_steps [OF iterator_run_steps new_iterator_inv])

lemma closed_waiting:
  "iterator_ok st \<Longrightarrow> closed st \<Longrightarrow> awaited st = [] \<Longrightarrow> iterator_waiting succs st = {}"
  by (simp add: iterator_ok_def iterator_waiting_def)

text \<open>C11. Whatever the order in which the mediator answers, results arrive, operations end and items are read, and
  whatever the bound on running operations: the iterator never emits a term twice and emits only terms that the
  path reaches; and when it is closed while no answer of the mediator is awaited, it has emitted all of
  them, on cyclic graphs too.  It may close while an answer is awaited, and then loses terms
  (\<open>path_iterator_closes_early\<close>).\<close>

theorem path_iterator_closure:
  assumes "iterator_run succs (Suc maxRunning) es (new_iterator subject emitFirst) = Some st"
  shows "distinct (termHashes st) \<and>
    set (termHashes st) \<subseteq> reachable succs (path_start succs subject emitFirst) \<and>
    (closed st \<and> awaited st = [] \<longrightarrow>
       set (termHashes st) = reachable succs (path_start succs subject emitFirst))"
  using path.search_sound [OF iterator_run_inv [OF assms]] path.search_complete [OF iterator_run_inv [OF assms]]
    closed_waiting [of st succs] iterator_run_inv [OF assms]
  by (auto simp: path.search_inv_def)

text \<open>A cycle of two terms, followed from one of them.\<close>

definition sample_succs :: "nat \<Rightarrow> nat list" where
  "sample_succs t = (if t = 0 then [1] else [0])"

definition cycle_events :: "path_event list" where
  "cycle_events = [Read, Open_next, Mediated 0, Opened_all, Read_item 0, Read_done, Ended 0, Read, Open_next,
     Mediated 0, Opened_all, Read_item 0, Read_done, Ended 0, Read, Opened_all, Read_done]"

lemma path_iterator_closure_witness:
  "\<exists>st. iterator_run sample_succs 16 cycle_events (new_iterator 0 True) = Some st \<and> closed st \<and>
     set (termHashes st) = reachable sample_succs (path_start sample_succs 0 True) \<and> termHashes st = [0, 1]"
proof -
  have "map_option (\<lambda>st. (closed st, awaited st, termHashes st))
      (iterator_run sample_succs (Suc 15) cycle_events (new_iterator 0 True)) = Some (True, [], [0, 1])"
    by code_simp
  then obtain st where st: "iterator_run sample_succs (Suc 15) cycle_events (new_iterator 0 True) = Some st"
    "closed st" "awaited st = []" "termHashes st = [0, 1]" by auto
  from path_iterator_closure [OF st(1)] st show ?thesis by (simp add: numeral_eq_Suc)
qed

text \<open>When the metadata is requested first, and the iterator is read while the mediator has not answered yet,
  no operation is pending or running: the iterator closes, and the results of the path are lost.\<close>

lemma path_iterator_closes_early:
  "\<exists>st. iterator_run succs (Suc m) [Request_metadata, Read, Opened_all, Read_done] (new_iterator s b) = Some st \<and>
     closed st \<and> termHashes st = (if b then [s] else []) \<and> awaited st = [(s, False)]"
  by (simp add: startNextOperation_def awaiting_read_def may_open_def closeIfNeeded_def)

section \<open>The iterator ends\<close>

definition iterator_work :: "'t set \<Rightarrow> ('t \<Rightarrow> 't list) \<Rightarrow> 't path_iterator \<Rightarrow> nat" where
  "iterator_work U succs st =
     (\<Sum>u\<in>U - set (termHashes st). 2 * length (succs u) + 6) +
     (\<Sum>t\<leftarrow>pendingOperations st. 2 * length (succs t) + 5) +
     (\<Sum>p\<leftarrow>awaited st. 2 * length (succs (fst p)) + 4) +
     (\<Sum>r\<leftarrow>runningOperations st. 2 * length r + 1)"

fun idle_event :: "path_event \<Rightarrow> bool" where
  "idle_event Read = True"
| "idle_event Opened_all = True"
| "idle_event Read_done = True"
| "idle_event e = False"

lemma sum_list_drop_nth:
  fixes f :: "'a \<Rightarrow> nat"
  shows "i < length xs \<Longrightarrow> (\<Sum>x\<leftarrow>xs. f x) = f (xs ! i) + (\<Sum>x\<leftarrow>drop_nth i xs. f x)"
proof -
  assume "i < length xs"
  then have "xs = take i xs @ xs ! i # drop (Suc i) xs" by (rule id_take_nth_drop)
  then have "(\<Sum>x\<leftarrow>xs. f x) = (\<Sum>x\<leftarrow>take i xs @ xs ! i # drop (Suc i) xs. f x)" by simp
  then show ?thesis by (simp add: drop_nth_def)
qed

lemma start_next_work:
  assumes "startNextOperation b st = Some st'"
  shows "iterator_work U succs st' < iterator_work U succs st"
proof -
  from assms have ne: "pendingOperations st \<noteq> []"
    and st': "st' = st\<lparr>started := True, pendingOperations := butlast (pendingOperations st),
      awaited := awaited st @ [(last (pendingOperations st), b)]\<rparr>"
    by (auto simp: startNextOperation_def split: if_splits)
  have "(\<Sum>t\<leftarrow>pendingOperations st. 2 * length (succs t) + 5) =
      (\<Sum>t\<leftarrow>butlast (pendingOperations st) @ [last (pendingOperations st)]. 2 * length (succs t) + 5)"
    using ne by simp
  then show ?thesis by (simp add: iterator_work_def st')
qed

lemma sum_unseen:
  fixes f :: "'t \<Rightarrow> nat"
  assumes "finite U" and "x \<in> U" and "x \<notin> set hs"
  shows "(\<Sum>u\<in>U - set hs. f u) = f x + (\<Sum>u\<in>U - set (hs @ [x]). f u)"
proof -
  have eq: "U - set hs = insert x (U - set (hs @ [x]))" using assms by auto
  have "sum f (insert x (U - set (hs @ [x]))) = f x + sum f (U - set (hs @ [x]))"
    using assms(1) by (intro sum.insert) auto
  then show ?thesis unfolding eq .
qed

lemma read_work:
  assumes "finite U" and "i < length (runningOperations st)" and "runningOperations st ! i = item # items"
    and "item \<in> U"
  shows "iterator_work U succs (push_item item True (st\<lparr>runningOperations := (runningOperations st)[i := items]\<rparr>))
    < iterator_work U succs st"
proof -
  obtain us vs where "runningOperations st = us @ (item # items) # vs"
    "(runningOperations st)[i := items] = us @ items # vs"
    using nth_split [OF assms(2,3)] by blast
  then have running: "(\<Sum>r\<leftarrow>runningOperations st. 2 * length r + 1) =
      2 + (\<Sum>r\<leftarrow>(runningOperations st)[i := items]. 2 * length r + 1)" by simp
  show ?thesis
  proof (cases "item \<in> set (termHashes st)")
    case True
    then show ?thesis using running by (simp add: push_item_def iterator_work_def)
  next
    case False
    then show ?thesis
      using running sum_unseen [OF assms(1,4) False, of "\<lambda>u. 2 * length (succs u) + 6"]
      by (simp add: push_item_def iterator_work_def)
  qed
qed

lemma event_work:
  assumes "iterator_event succs m e st = Some st'" and "finite U" and "iterator_waiting succs st \<subseteq> U"
  shows "if idle_event e then iterator_work U succs st' = iterator_work U succs st
    else iterator_work U succs st' < iterator_work U succs st"
proof (cases e)
  case (Mediated i)
  with assms(1) have i: "i < length (awaited st)" and st': "st' = st\<lparr>awaited := drop_nth i (awaited st),
      runningOperations := runningOperations st @ [succs (fst (awaited st ! i))]\<rparr>"
    by (auto split: if_splits)
  show ?thesis
    using sum_list_drop_nth [OF i, of "\<lambda>p. 2 * length (succs (fst p)) + 4"] Mediated
    by (simp add: st' iterator_work_def)
next
  case (Read_item i)
  with assms(1) obtain item items where r: "i < length (runningOperations st)" "runningOperations st ! i = item # items"
    "st' = push_item item True (st\<lparr>runningOperations := (runningOperations st)[i := items]\<rparr>)"
    by (auto split: if_splits list.splits)
  have "item \<in> U" using waiting_read [OF r(1,2), of succs] assms(3) by auto
  from read_work [OF assms(2) r(1,2) this] Read_item r(3) show ?thesis by simp
next
  case (Ended i)
  with assms(1) have i: "i < length (runningOperations st)" "runningOperations st ! i = []"
    and st': "st' = st\<lparr>runningOperations := drop_nth i (runningOperations st)\<rparr>"
    by (auto split: if_splits)
  show ?thesis
    using sum_list_drop_nth [OF i(1), of "\<lambda>r. 2 * length r + 1"] i(2) Ended by (simp add: st' iterator_work_def)
next
  case Request_metadata
  with assms(1) start_next_work [of False st st' U succs] show ?thesis by (simp split: if_splits)
next
  case Open_next
  with assms(1) start_next_work [of True st st' U succs] show ?thesis by (simp split: if_splits)
next
  case Read
  with assms(1) have "st' = st\<lparr>phase := Opening\<rparr>" by (simp split: if_splits)
  with Read show ?thesis by (simp add: iterator_work_def)
next
  case Opened_all
  with assms(1) have "st' = st\<lparr>phase := Reading\<rparr>" by (simp split: if_splits)
  with Opened_all show ?thesis by (simp add: iterator_work_def)
next
  case Read_done
  with assms(1) have "st' = closeIfNeeded (st\<lparr>phase := Idle\<rparr>)" by (simp split: if_splits)
  with Read_done show ?thesis by (simp add: iterator_work_def closeIfNeeded_def)
qed

lemma reachable_path_start: "reachable succs (path_start succs s b) \<subseteq> reachable succs {s}"
proof (rule reachable_least)
  show "path_start succs s b \<subseteq> reachable succs {s}"
    using reachable_start [of "{s}" succs] reachable_step [of s succs "{s}"] by (auto simp: path_start_def)
qed (auto intro: reachable_step)

lemma search_inv_waiting:
  "path.search_inv succs (path_start succs s b) st \<Longrightarrow> iterator_waiting succs st \<subseteq> reachable succs {s}"
  using reachable_path_start [of succs s b] by (auto simp: path.search_inv_def)

lemma run_work:
  assumes "finite (reachable succs {s})"
  shows "path.search_inv succs (path_start succs s b) st \<Longrightarrow> iterator_run succs (Suc m) es st = Some st' \<Longrightarrow>
    length (filter (\<lambda>e. \<not> idle_event e) es) + iterator_work (reachable succs {s}) succs st' \<le>
      iterator_work (reachable succs {s}) succs st"
proof (induction es arbitrary: st)
  case (Cons e es)
  from Cons.prems(2) obtain st1 where e: "iterator_event succs (Suc m) e st = Some st1"
    and es: "iterator_run succs (Suc m) es st1 = Some st'" by (auto split: option.splits)
  have "iterator_step succs (Suc m) st st1" using e by (auto simp: iterator_step_def)
  from Cons.IH [OF path.search_inv_step [OF Cons.prems(1) this] es]
    event_work [OF e assms search_inv_waiting [OF Cons.prems(1)]]
  show ?case by (cases "idle_event e") auto
qed simp

text \<open>C34. When the path reaches finitely many terms, no run of the iterator has more than a fixed number of events
  that open, answer, read or end something, however often it is polled.\<close>

theorem path_iterator_bounded_work:
  assumes "finite (reachable succs {subject})"
    and "iterator_run succs (Suc maxRunning) es (new_iterator subject emitFirst) = Some st"
  shows "length (filter (\<lambda>e. \<not> idle_event e) es) \<le>
    iterator_work (reachable succs {subject}) succs (new_iterator subject emitFirst)"
  using run_work [OF assms(1) new_iterator_inv assms(2)] by simp

lemma path_iterator_bounded_work_witness:
  "\<exists>st. iterator_run sample_succs 16 cycle_events (new_iterator 0 True) = Some st \<and>
     length (filter (\<lambda>e. \<not> idle_event e) cycle_events) = 8 \<and>
     8 \<le> iterator_work (reachable sample_succs {0}) sample_succs (new_iterator 0 True)"
proof -
  have "map_option termHashes (iterator_run sample_succs (Suc 15) cycle_events (new_iterator 0 True)) = Some [0, 1]"
    by code_simp
  then obtain st where st: "iterator_run sample_succs (Suc 15) cycle_events (new_iterator 0 True) = Some st" by auto
  have n: "length (filter (\<lambda>e. \<not> idle_event e) cycle_events) = 8" by code_simp
  have "reachable sample_succs {0} \<subseteq> {0, 1}"
    by (rule reachable_least) (auto simp: sample_succs_def)
  then have "finite (reachable sample_succs {0})" by (rule finite_subset) simp
  from path_iterator_bounded_work [OF this st] st n show ?thesis by (simp add: numeral_eq_Suc)
qed

section \<open>A scheduled run\<close>

text \<open>One order of events: what is awaited is answered, what has ended is removed, and all that can be
  read is read.  It ends, so its result is a function.\<close>

fun first_index :: "('a \<Rightarrow> bool) \<Rightarrow> 'a list \<Rightarrow> nat option" where
  "first_index P [] = None"
| "first_index P (x # xs) = (if P x then Some 0 else map_option Suc (first_index P xs))"

definition next_event :: "nat \<Rightarrow> 't path_iterator \<Rightarrow> path_event" where
  "next_event maxRunning st =
     (if awaited st \<noteq> [] then Mediated 0
      else case phase st of
        Idle \<Rightarrow> (case first_index (\<lambda>r. r = []) (runningOperations st) of Some i \<Rightarrow> Ended i | None \<Rightarrow> Read)
      | Opening \<Rightarrow> (if may_open maxRunning st then Open_next else Opened_all)
      | Reading \<Rightarrow>
          (case first_index (\<lambda>r. r \<noteq> []) (runningOperations st) of Some i \<Rightarrow> Read_item i | None \<Rightarrow> Read_done))"

fun drive :: "nat \<Rightarrow> ('t \<Rightarrow> 't list) \<Rightarrow> nat \<Rightarrow> 't path_iterator \<Rightarrow> 't path_iterator option" where
  "drive 0 succs maxRunning st = None"
| "drive (Suc n) succs maxRunning st =
     (if closed st then Some st
      else case iterator_event succs maxRunning (next_event maxRunning st) st of
        None \<Rightarrow> None
      | Some st' \<Rightarrow> drive n succs maxRunning st')"

definition star_terms :: "nat \<Rightarrow> ('t \<Rightarrow> 't list) \<Rightarrow> 't \<Rightarrow> bool \<Rightarrow> 't list option" where
  "star_terms fuel succs subject emitFirst =
     map_option termHashes (drive fuel succs 16 (new_iterator subject emitFirst))"

lemma first_index_Some: "first_index P xs = Some i \<Longrightarrow> i < length xs \<and> P (xs ! i)"
  by (induction xs arbitrary: i) (auto split: if_splits)

lemma first_index_None: "first_index P xs = None \<longleftrightarrow> (\<forall>x\<in>set xs. \<not> P x)"
  by (induction xs) auto

definition driven :: "'t path_iterator \<Rightarrow> bool" where
  "driven st \<longleftrightarrow> iterator_ok st \<and> (awaited st \<noteq> [] \<longrightarrow> phase st = Opening \<and> \<not> closed st)"

definition nothing_left :: "'t path_iterator \<Rightarrow> bool" where
  "nothing_left st \<longleftrightarrow> runningOperations st = [] \<and> pendingOperations st = []"

definition drive_rank :: "'t path_iterator \<Rightarrow> nat" where
  "drive_rank st =
     (if closed st then 0
      else case phase st of
        Idle \<Rightarrow> (if nothing_left st then 3 else if [] \<in> set (runningOperations st) then 1 else 4)
      | Opening \<Rightarrow> (if nothing_left st then 2 else 3)
      | Reading \<Rightarrow> (if nothing_left st then 1 else 2))"

lemma drive_enabled:
  assumes "driven st" and "\<not> closed st" and m: "0 < m"
  shows "\<exists>st'. iterator_event succs m (next_event m st) st = Some st' \<and> driven st' \<and>
    (idle_event (next_event m st) \<longrightarrow> drive_rank st' < drive_rank st)"
proof (cases "awaited st = []")
  case False
  then have phase: "phase st = Opening" using assms(1) by (simp add: driven_def)
  have ev: "next_event m st = Mediated 0" using False by (simp add: next_event_def)
  have "iterator_event succs m (Mediated 0) st = Some (st\<lparr>awaited := drop_nth 0 (awaited st),
      runningOperations := runningOperations st @ [succs (fst (awaited st ! 0))]\<rparr>)"
    using assms(2) phase False by simp
  then show ?thesis using assms phase unfolding ev by (simp add: driven_def iterator_ok_def)
next
  case True
  have ok: "iterator_ok st" using assms(1) by (simp add: driven_def)
  have none: "\<not> awaiting_read st" using True by (simp add: awaiting_read_def)
  show ?thesis
  proof (cases "phase st")
    case Idle
    show ?thesis
    proof (cases "first_index (\<lambda>r. r = []) (runningOperations st)")
      case None
      then have ne: "[] \<notin> set (runningOperations st)" by (auto simp: first_index_None)
      have ev: "next_event m st = Read" using True Idle None by (simp add: next_event_def)
      show ?thesis
        using assms Idle True ne unfolding ev
        by (auto simp: driven_def iterator_ok_def drive_rank_def nothing_left_def)
    next
      case (Some i)
      note i = first_index_Some [OF Some]
      have ev: "next_event m st = Ended i" using True Idle Some by (simp add: next_event_def)
      show ?thesis
        using assms Idle True i unfolding ev by (auto simp: driven_def iterator_ok_def)
    qed
  next
    case Opening
    show ?thesis
    proof (cases "may_open m st")
      case may: True
      have ev: "next_event m st = Open_next" using True Opening may by (simp add: next_event_def)
      obtain st' where st': "startNextOperation True st = Some st'"
        using may by (simp add: startNextOperation_def may_open_def)
      have "iterator_event succs m Open_next st = Some st'" using assms(2) Opening none may st' by simp
      moreover have "driven st'"
        using start_next_waiting(3-6) [OF st'] assms Opening by (simp add: driven_def iterator_ok_def)
      ultimately show ?thesis unfolding ev by simp
    next
      case False
      have ev: "next_event m st = Opened_all" using True Opening False by (simp add: next_event_def)
      have run: "iterator_event succs m Opened_all st = Some (st\<lparr>phase := Reading\<rparr>)"
        using assms(2) Opening none False by simp
      show ?thesis
        using assms False True Opening m unfolding ev run
        by (auto simp: driven_def iterator_ok_def awaiting_read_def may_open_def drive_rank_def nothing_left_def)
    qed
  next
    case Reading
    show ?thesis
    proof (cases "first_index (\<lambda>r. r \<noteq> []) (runningOperations st)")
      case None
      then have all: "\<forall>r\<in>set (runningOperations st). r = []" by (auto simp: first_index_None)
      have ev: "next_event m st = Read_done" using True Reading None by (simp add: next_event_def)
      have run: "iterator_event succs m Read_done st = Some (closeIfNeeded (st\<lparr>phase := Idle\<rparr>))"
        using assms(2) Reading by simp
      show ?thesis
      proof (cases "nothing_left st")
        case left: True
        then show ?thesis
          using assms Reading True unfolding ev run
          by (simp add: closeIfNeeded_def nothing_left_def driven_def iterator_ok_def awaiting_read_def drive_rank_def)
      next
        case False
        then have "runningOperations st \<noteq> []" using ok Reading by (auto simp: iterator_ok_def nothing_left_def)
        with all have "[] \<in> set (runningOperations st)" by (cases "runningOperations st") auto
        then show ?thesis
          using assms Reading True False unfolding ev run
          by (auto simp: closeIfNeeded_def nothing_left_def driven_def iterator_ok_def drive_rank_def)
      qed
    next
      case (Some i)
      note i = first_index_Some [OF Some]
      obtain item items where r: "runningOperations st ! i = item # items" using i by (cases "runningOperations st ! i") auto
      have ev: "next_event m st = Read_item i" using True Reading Some by (simp add: next_event_def)
      show ?thesis
        using assms Reading True i r unfolding ev
        by (auto simp: push_item_simps driven_def iterator_ok_def awaiting_read_def)
    qed
  qed
qed

lemma drive_rank_bound: "drive_rank st < 5"
  by (simp add: drive_rank_def split: read_phase.split)

lemma drive_ends:
  assumes fin: "finite (reachable succs {s})"
  shows "driven st \<Longrightarrow> path.search_inv succs (path_start succs s b) st \<Longrightarrow>
    5 * iterator_work (reachable succs {s}) succs st + drive_rank st < n \<Longrightarrow>
    \<exists>st'. drive n succs (Suc m) st = Some st' \<and> closed st' \<and> awaited st' = [] \<and>
      path.search_inv succs (path_start succs s b) st'"
proof (induction n arbitrary: st)
  case (Suc n)
  show ?case
  proof (cases "closed st")
    case True
    with Suc.prems show ?thesis by (auto simp: driven_def)
  next
    case False
    from drive_enabled [OF Suc.prems(1) False, of "Suc m" succs] obtain st'
      where e: "iterator_event succs (Suc m) (next_event (Suc m) st) st = Some st'" and d: "driven st'"
        and rank: "idle_event (next_event (Suc m) st) \<longrightarrow> drive_rank st' < drive_rank st" by auto
    have inv: "path.search_inv succs (path_start succs s b) st'"
      by (rule path.search_inv_step [OF Suc.prems(2)]) (use e in \<open>auto simp: iterator_step_def\<close>)
    have "5 * iterator_work (reachable succs {s}) succs st' + drive_rank st' < n"
      using event_work [OF e fin search_inv_waiting [OF Suc.prems(2)]] rank Suc.prems(3) drive_rank_bound [of st']
      by (cases "idle_event (next_event (Suc m) st)") auto
    from Suc.IH [OF d inv this] show ?thesis using False e by simp
  qed
qed simp

text \<open>The fuel that the scheduled run needs.\<close>

definition star_fuel :: "('t \<Rightarrow> 't list) \<Rightarrow> 't \<Rightarrow> bool \<Rightarrow> nat" where
  "star_fuel succs s b = 5 * iterator_work (reachable succs {s}) succs (new_iterator s b) + 5"

lemma star_terms_correct:
  assumes "finite (reachable succs {s})" and "star_fuel succs s b \<le> fuel"
  shows "\<exists>out. star_terms fuel succs s b = Some out \<and> distinct out \<and> set out = reachable succs (path_start succs s b)"
proof -
  have d: "driven (new_iterator s b)" by (simp add: driven_def iterator_ok_def)
  have n: "5 * iterator_work (reachable succs {s}) succs (new_iterator s b) + drive_rank (new_iterator s b) < fuel"
    using assms(2) drive_rank_bound [of "new_iterator s b"] by (simp add: star_fuel_def)
  from drive_ends [OF assms(1) d new_iterator_inv n, of 15] obtain st
    where st: "drive fuel succs 16 (new_iterator s b) = Some st" "closed st" "awaited st = []"
      "path.search_inv succs (path_start succs s b) st" by (auto simp: numeral_eq_Suc)
  have "iterator_waiting succs st = {}"
    by (rule closed_waiting) (use st in \<open>simp_all add: path.search_inv_def\<close>)
  from path.search_complete [OF st(4) this] st(1) show ?thesis by (simp add: star_terms_def)
qed

end
