(* ===== verification/Path_Pairs.thy ===== *)
theory Path_Pairs
  imports Path_Iterator
begin

text \<open>
  Property paths of any length between variables
  (\<open>getObjectsPredicateStar\<close> and \<open>getSubjectAndObjectBindingsPredicateStar\<close>,
  \<open>packages/actor-abstract-path/lib/ActorAbstractPath.ts\<close>): recursive searches whose calls run
  concurrently, and that close their iterator when a counter of running calls is zero.

  \<open>succs t\<close> are the terms to which one step of the path leads from \<open>t\<close>.  The graph is fixed.
\<close>

section \<open>The objects of a subject\<close>

text \<open>A call that has pushed its term awaits the mediator, or reads the results.\<close>

datatype 't object_call = Call_mediating 't | Call_streaming "'t list"

record 't objects_state =
  ob_hashes :: "'t list"
  ob_calls :: "'t object_call list"
  ob_counter :: int
  ob_closed :: bool

text \<open>\<open>getObjectsPredicateStar\<close> up to its first \<open>await\<close>.\<close>

definition call_objects :: "'t \<Rightarrow> 't objects_state \<Rightarrow> 't objects_state" where
  "call_objects t st =
     (if List.member (ob_hashes st) t then st
      else st\<lparr>ob_hashes := ob_hashes st @ [t], ob_counter := ob_counter st + 1,
              ob_calls := ob_calls st @ [Call_mediating t]\<rparr>)"

datatype objects_event = Ob_reply nat | Ob_data nat | Ob_end nat

fun objects_handle ::
  "('t \<Rightarrow> 't list) \<Rightarrow> objects_event \<Rightarrow> 't objects_state \<Rightarrow> 't objects_state option" where
  "objects_handle succs (Ob_reply i) st =
     (if i < length (ob_calls st)
      then case ob_calls st ! i of
          Call_mediating t \<Rightarrow> Some (st\<lparr>ob_calls := (ob_calls st)[i := Call_streaming (succs t)]\<rparr>)
        | _ \<Rightarrow> None
      else None)"
| "objects_handle succs (Ob_data i) st =
     (if i < length (ob_calls st)
      then case ob_calls st ! i of
          Call_streaming (t # ts) \<Rightarrow>
            Some (call_objects t (st\<lparr>ob_calls := (ob_calls st)[i := Call_streaming ts]\<rparr>))
        | _ \<Rightarrow> None
      else None)"
| "objects_handle succs (Ob_end i) st =
     (if i < length (ob_calls st)
      then case ob_calls st ! i of
          Call_streaming [] \<Rightarrow>
            Some (st\<lparr>ob_calls := drop_nth i (ob_calls st), ob_counter := ob_counter st - 1,
                     ob_closed := (if ob_counter st - 1 = 0 then True else ob_closed st)\<rparr>)
        | _ \<Rightarrow> None
      else None)"

fun objects_run ::
  "('t \<Rightarrow> 't list) \<Rightarrow> objects_event list \<Rightarrow> 't objects_state \<Rightarrow> 't objects_state option" where
  "objects_run succs [] st = Some st"
| "objects_run succs (e # es) st =
     (case objects_handle succs e st of None \<Rightarrow> None | Some st' \<Rightarrow> objects_run succs es st')"

definition new_objects :: "'t \<Rightarrow> 't objects_state" where
  "new_objects t = call_objects t \<lparr>ob_hashes = [], ob_calls = [], ob_counter = 0, ob_closed = False\<rparr>"

fun call_waiting :: "('t \<Rightarrow> 't list) \<Rightarrow> 't object_call \<Rightarrow> 't set" where
  "call_waiting succs (Call_mediating t) = set (succs t)"
| "call_waiting succs (Call_streaming ts) = set ts"

definition objects_waiting :: "('t \<Rightarrow> 't list) \<Rightarrow> 't objects_state \<Rightarrow> 't set" where
  "objects_waiting succs st = (\<Union>c\<in>set (ob_calls st). call_waiting succs c)"

definition objects_ok :: "'t objects_state \<Rightarrow> bool" where
  "objects_ok st \<longleftrightarrow> ob_counter st = int (length (ob_calls st)) \<and> ob_closed st = (ob_calls st = [])"

definition objects_step :: "('t \<Rightarrow> 't list) \<Rightarrow> 't objects_state \<Rightarrow> 't objects_state \<Rightarrow> bool" where
  "objects_step succs st st' \<longleftrightarrow> (\<exists>e. objects_handle succs e st = Some st')"

lemma call_objects_effect:
  assumes "wait = insert t (objects_waiting succs st)"
  shows "visit_effect succs (ob_hashes st) wait (ob_hashes (call_objects t st)) (objects_waiting succs (call_objects t st))"
  using assms by (auto simp: visit_effect_def call_objects_def objects_waiting_def)

lemma union_drop:
  assumes "i < length xs"
  shows "(\<Union>c\<in>set xs. f c) = f (xs ! i) \<union> (\<Union>c\<in>set (drop_nth i xs). f c)"
  by (simp add: set_drop_nth [OF assms])

lemma union_upd:
  assumes "i < length xs"
  shows "(\<Union>c\<in>set (xs[i := y]). f c) = f y \<union> (\<Union>c\<in>set (drop_nth i xs). f c)"
proof -
  have "xs[i := y] = take i xs @ y # drop (Suc i) xs" by (rule upd_conv_take_nth_drop [OF assms])
  then show ?thesis by (auto simp: drop_nth_def)
qed

lemma objects_effect:
  "objects_handle succs e st = Some st' \<Longrightarrow>
     visit_effect succs (ob_hashes st) (objects_waiting succs st) (ob_hashes st') (objects_waiting succs st')"
proof (cases e)
  case (Ob_reply i)
  assume "objects_handle succs e st = Some st'"
  with Ob_reply obtain t where "i < length (ob_calls st)" "ob_calls st ! i = Call_mediating t"
    "st' = st\<lparr>ob_calls := (ob_calls st)[i := Call_streaming (succs t)]\<rparr>"
    by (auto split: if_splits object_call.splits)
  then show ?thesis
    using union_drop [of i "ob_calls st" "call_waiting succs"]
      union_upd [of i "ob_calls st" "call_waiting succs" "Call_streaming (succs t)"]
    by (simp add: visit_effect_def objects_waiting_def)
next
  case (Ob_data i)
  assume "objects_handle succs e st = Some st'"
  with Ob_data obtain t ts where i: "i < length (ob_calls st)" "ob_calls st ! i = Call_streaming (t # ts)"
    "st' = call_objects t (st\<lparr>ob_calls := (ob_calls st)[i := Call_streaming ts]\<rparr>)"
    by (auto split: if_splits object_call.splits list.splits)
  have "objects_waiting succs st = insert t (objects_waiting succs (st\<lparr>ob_calls := (ob_calls st)[i := Call_streaming ts]\<rparr>))"
    using union_drop [OF i(1), of "call_waiting succs"] union_upd [OF i(1), of "call_waiting succs" "Call_streaming ts"]
    by (simp add: objects_waiting_def i(2))
  from call_objects_effect [OF this] show ?thesis by (simp add: i(3))
next
  case (Ob_end i)
  assume "objects_handle succs e st = Some st'"
  with Ob_end have "i < length (ob_calls st)" "ob_calls st ! i = Call_streaming []"
    "ob_hashes st' = ob_hashes st" "ob_calls st' = drop_nth i (ob_calls st)"
    by (auto split: if_splits object_call.splits list.splits)
  then show ?thesis
    using union_drop [of i "ob_calls st" "call_waiting succs"]
    by (simp add: visit_effect_def objects_waiting_def)
qed

lemma objects_handle_ok: "objects_handle succs e st = Some st' \<Longrightarrow> objects_ok st \<Longrightarrow> objects_ok st'"
  by (cases e)
    (auto simp: objects_ok_def call_objects_def drop_nth_empty of_nat_diff split: if_splits object_call.splits list.splits)

interpretation objects: visit_search succs "objects_step succs" objects_ok ob_hashes "objects_waiting succs"
  for succs :: "'t \<Rightarrow> 't list"
  by unfold_locales (auto simp: objects_step_def intro: objects_handle_ok objects_effect)

lemma new_objects_inv: "objects.search_inv succs {t} (new_objects t)"
  using reachable_start [of "{t}" succs] reachable_step [of t succs "{t}"]
  by (auto simp: objects.search_inv_def new_objects_def call_objects_def objects_ok_def objects_waiting_def)

lemma objects_run_steps: "objects_run succs es st = Some st' \<Longrightarrow> (objects_step succs)\<^sup>*\<^sup>* st st'"
proof (induction es arbitrary: st)
  case (Cons e es)
  then obtain st1 where "objects_handle succs e st = Some st1" "objects_run succs es st1 = Some st'"
    by (auto split: option.splits)
  with Cons.IH show ?case by (auto simp: objects_step_def intro: converse_rtranclp_into_rtranclp)
qed simp

lemma objects_search_complete:
  assumes "objects_run succs es (new_objects t) = Some st" and "ob_closed st"
  shows "distinct (ob_hashes st) \<and> set (ob_hashes st) = reachable succs {t}"
proof -
  note inv = objects.search_inv_steps [OF objects_run_steps [OF assms(1)] new_objects_inv]
  have "objects_waiting succs st = {}"
    using inv assms(2) by (simp add: objects.search_inv_def objects_ok_def objects_waiting_def)
  from objects.search_complete [OF inv this] show ?thesis .
qed

section \<open>The pairs of subjects and objects\<close>

text \<open>\<open>termHashesGlobal\<close> maps a term to the promise of its successors, pending (\<open>None\<close>) or resolved.  A
  call awaits the mediator, reads the results while it collects them for the promise, awaits the
  promise of another search, or goes through the terms of a resolved one.\<close>

datatype 't pairs_call =
    Pair_mediating 't
  | Pair_streaming 't "'t list" "'t list"
  | Pair_awaiting 't
  | Pair_iterating "'t list"

record 't pairs_state =
  currentSubject :: "'t list"
  global :: "('t, 't list option) jsmap"
  pair_calls :: "'t pairs_call list"
  pair_counter :: int
  pair_closed :: bool

text \<open>\<open>getSubjectAndObjectBindingsPredicateStar\<close> up to its first \<open>await\<close>: the pushed bindings are those of
  the terms in \<open>termHashesCurrentSubject\<close>.\<close>

definition call_pairs :: "'t \<Rightarrow> 't pairs_state \<Rightarrow> 't pairs_state" where
  "call_pairs t st =
     (if List.member (currentSubject st) t then st
      else
        let st1 = st\<lparr>pair_counter := pair_counter st + 1, currentSubject := currentSubject st @ [t]\<rparr>
        in if js_has (global st) t then st1\<lparr>pair_calls := pair_calls st @ [Pair_awaiting t]\<rparr>
           else st1\<lparr>pair_calls := pair_calls st @ [Pair_mediating t], global := js_set (global st) t None\<rparr>)"

definition end_pairs :: "nat \<Rightarrow> 't pairs_state \<Rightarrow> 't pairs_state" where
  "end_pairs i st =
     st\<lparr>pair_calls := drop_nth i (pair_calls st), pair_counter := pair_counter st - 1,
        pair_closed := (if pair_counter st - 1 = 0 then True else pair_closed st)\<rparr>"

text \<open>\<open>Other_promise\<close> and \<open>Other_resolved\<close>: a search for another subject adds a promise, or resolves one.\<close>

datatype 't pairs_event =
    Pair_reply nat
  | Pair_data nat
  | Pair_end nat
  | Pair_resolved nat
  | Pair_next nat
  | Pair_done nat
  | Other_promise 't
  | Other_resolved 't

fun pairs_handle ::
  "('t \<Rightarrow> 't list) \<Rightarrow> 't pairs_event \<Rightarrow> 't pairs_state \<Rightarrow> 't pairs_state option" where
  "pairs_handle succs (Pair_reply i) st =
     (if i < length (pair_calls st)
      then case pair_calls st ! i of
          Pair_mediating t \<Rightarrow> Some (st\<lparr>pair_calls := (pair_calls st)[i := Pair_streaming t [] (succs t)]\<rparr>)
        | _ \<Rightarrow> None
      else None)"
| "pairs_handle succs (Pair_data i) st =
     (if i < length (pair_calls st)
      then case pair_calls st ! i of
          Pair_streaming t objectsArray (x # xs) \<Rightarrow>
            Some (call_pairs x (st\<lparr>pair_calls := (pair_calls st)[i := Pair_streaming t (objectsArray @ [x]) xs]\<rparr>))
        | _ \<Rightarrow> None
      else None)"
| "pairs_handle succs (Pair_end i) st =
     (if i < length (pair_calls st)
      then case pair_calls st ! i of
          Pair_streaming t objectsArray [] \<Rightarrow>
            Some ((end_pairs i st)\<lparr>global := js_set (global st) t (Some objectsArray)\<rparr>)
        | _ \<Rightarrow> None
      else None)"
| "pairs_handle succs (Pair_resolved i) st =
     (if i < length (pair_calls st)
      then case pair_calls st ! i of
          Pair_awaiting t \<Rightarrow>
            (case js_get (global st) t of
               Some (Some ts) \<Rightarrow> Some (st\<lparr>pair_calls := (pair_calls st)[i := Pair_iterating ts]\<rparr>)
             | _ \<Rightarrow> None)
        | _ \<Rightarrow> None
      else None)"
| "pairs_handle succs (Pair_next i) st =
     (if i < length (pair_calls st)
      then case pair_calls st ! i of
          Pair_iterating (x # xs) \<Rightarrow>
            Some (call_pairs x (st\<lparr>pair_calls := (pair_calls st)[i := Pair_iterating xs]\<rparr>))
        | _ \<Rightarrow> None
      else None)"
| "pairs_handle succs (Pair_done i) st =
     (if i < length (pair_calls st)
      then case pair_calls st ! i of
          Pair_iterating [] \<Rightarrow> Some (end_pairs i st)
        | _ \<Rightarrow> None
      else None)"
| "pairs_handle succs (Other_promise t) st =
     (if js_has (global st) t then None else Some (st\<lparr>global := js_set (global st) t None\<rparr>))"
| "pairs_handle succs (Other_resolved t) st =
     (if js_get (global st) t = Some None then Some (st\<lparr>global := js_set (global st) t (Some (succs t))\<rparr>) else None)"

fun pairs_run ::
  "('t \<Rightarrow> 't list) \<Rightarrow> 't pairs_event list \<Rightarrow> 't pairs_state \<Rightarrow> 't pairs_state option" where
  "pairs_run succs [] st = Some st"
| "pairs_run succs (e # es) st =
     (case pairs_handle succs e st of None \<Rightarrow> None | Some st' \<Rightarrow> pairs_run succs es st')"

definition new_pairs :: "'t \<Rightarrow> ('t, 't list option) jsmap \<Rightarrow> 't pairs_state" where
  "new_pairs t termHashesGlobal =
     call_pairs t \<lparr>currentSubject = [], global = termHashesGlobal, pair_calls = [], pair_counter = 0,
       pair_closed = False\<rparr>"

fun pair_waiting :: "('t \<Rightarrow> 't list) \<Rightarrow> 't pairs_call \<Rightarrow> 't set" where
  "pair_waiting succs (Pair_mediating t) = set (succs t)"
| "pair_waiting succs (Pair_streaming t objectsArray ts) = set ts"
| "pair_waiting succs (Pair_awaiting t) = set (succs t)"
| "pair_waiting succs (Pair_iterating ts) = set ts"

definition pairs_waiting :: "('t \<Rightarrow> 't list) \<Rightarrow> 't pairs_state \<Rightarrow> 't set" where
  "pairs_waiting succs st = (\<Union>c\<in>set (pair_calls st). pair_waiting succs c)"

text \<open>Resolved promises hold the successors.\<close>

definition global_ok :: "('t \<Rightarrow> 't list) \<Rightarrow> ('t, 't list option) jsmap \<Rightarrow> bool" where
  "global_ok succs g \<longleftrightarrow> (\<forall>t ts. js_get g t = Some (Some ts) \<longrightarrow> ts = succs t)"

fun pairs_call_ok :: "('t \<Rightarrow> 't list) \<Rightarrow> 't pairs_call \<Rightarrow> bool" where
  "pairs_call_ok succs (Pair_streaming t objectsArray ts) = (objectsArray @ ts = succs t)"
| "pairs_call_ok succs c = True"

definition pairs_ok :: "('t \<Rightarrow> 't list) \<Rightarrow> 't pairs_state \<Rightarrow> bool" where
  "pairs_ok succs st \<longleftrightarrow>
     pair_counter st = int (length (pair_calls st)) \<and> pair_closed st = (pair_calls st = []) \<and>
     global_ok succs (global st) \<and> list_all (pairs_call_ok succs) (pair_calls st)"

definition pairs_step :: "('t \<Rightarrow> 't list) \<Rightarrow> 't pairs_state \<Rightarrow> 't pairs_state \<Rightarrow> bool" where
  "pairs_step succs st st' \<longleftrightarrow> (\<exists>e. pairs_handle succs e st = Some st')"

lemma call_pairs_effect:
  assumes "wait = insert t (pairs_waiting succs st)"
  shows "visit_effect succs (currentSubject st) wait (currentSubject (call_pairs t st)) (pairs_waiting succs (call_pairs t st))"
  using assms by (auto simp: visit_effect_def call_pairs_def pairs_waiting_def Let_def)

lemma list_all_upd: "list_all P xs \<Longrightarrow> P y \<Longrightarrow> list_all P (xs[i := y])"
  by (auto simp: list_all_iff dest: set_update_subset_insert [THEN subsetD])

lemma list_all_drop_nth: "list_all P xs \<Longrightarrow> list_all P (drop_nth i xs)"
  by (auto simp: list_all_iff drop_nth_def dest: in_set_takeD in_set_dropD)

lemma call_pairs_ok:
  assumes "pairs_ok succs st" and "pair_calls st \<noteq> []"
  shows "pairs_ok succs (call_pairs t st)"
  using assms by (auto simp: pairs_ok_def call_pairs_def Let_def global_ok_def)

lemma end_pairs_ok:
  "pairs_ok succs st \<Longrightarrow> i < length (pair_calls st) \<Longrightarrow> pairs_ok succs (end_pairs i st)"
  by (auto simp: pairs_ok_def end_pairs_def list_all_drop_nth drop_nth_empty of_nat_diff)

text \<open>The calls that read or iterate, in one equation.\<close>

lemma pairs_look:
  assumes "i < length (pair_calls st)" and "pair_waiting succs (pair_calls st ! i) = insert x (pair_waiting succs c)"
  shows "visit_effect succs (currentSubject st) (pairs_waiting succs st)
    (currentSubject (call_pairs x (st\<lparr>pair_calls := (pair_calls st)[i := c]\<rparr>)))
    (pairs_waiting succs (call_pairs x (st\<lparr>pair_calls := (pair_calls st)[i := c]\<rparr>)))"
proof -
  have "pairs_waiting succs st = insert x (pairs_waiting succs (st\<lparr>pair_calls := (pair_calls st)[i := c]\<rparr>))"
    using union_drop [OF assms(1), of "pair_waiting succs"] union_upd [OF assms(1), of "pair_waiting succs" c] assms(2) by (simp add: pairs_waiting_def)
  from call_pairs_effect [OF this] show ?thesis by simp
qed

lemma pairs_same:
  assumes "i < length (pair_calls st)" and "pair_waiting succs (pair_calls st ! i) = pair_waiting succs c"
  shows "pairs_waiting succs (st\<lparr>pair_calls := (pair_calls st)[i := c]\<rparr>) = pairs_waiting succs st"
  using union_drop [OF assms(1), of "pair_waiting succs"] union_upd [OF assms(1), of "pair_waiting succs" c] assms(2) by (simp add: pairs_waiting_def)

lemma pairs_ended:
  assumes "i < length (pair_calls st)" and "pair_waiting succs (pair_calls st ! i) = {}"
  shows "pairs_waiting succs (end_pairs i st) = pairs_waiting succs st"
    and "currentSubject (end_pairs i st) = currentSubject st"
  using union_drop [OF assms(1), of "pair_waiting succs"] assms(2)
  by (simp_all add: pairs_waiting_def end_pairs_def)

lemma pairs_waiting_global [simp]: "pairs_waiting succs (st\<lparr>global := g\<rparr>) = pairs_waiting succs st"
  by (simp add: pairs_waiting_def)

lemma pairs_effect:
  assumes ok: "pairs_ok succs st" and e: "pairs_handle succs e st = Some st'"
  shows "visit_effect succs (currentSubject st) (pairs_waiting succs st) (currentSubject st') (pairs_waiting succs st')"
proof (cases e)
  case (Pair_reply i)
  with e obtain t where "i < length (pair_calls st)" "pair_calls st ! i = Pair_mediating t"
    "st' = st\<lparr>pair_calls := (pair_calls st)[i := Pair_streaming t [] (succs t)]\<rparr>"
    by (auto split: if_splits pairs_call.splits)
  then show ?thesis by (simp add: visit_effect_def pairs_same)
next
  case (Pair_data i)
  with e obtain t a x xs where "i < length (pair_calls st)" "pair_calls st ! i = Pair_streaming t a (x # xs)"
    "st' = call_pairs x (st\<lparr>pair_calls := (pair_calls st)[i := Pair_streaming t (a @ [x]) xs]\<rparr>)"
    by (auto split: if_splits pairs_call.splits list.splits)
  then show ?thesis using pairs_look [of i st succs x "Pair_streaming t (a @ [x]) xs"] by simp
next
  case (Pair_end i)
  with e obtain t a where "i < length (pair_calls st)" "pair_calls st ! i = Pair_streaming t a []"
    "st' = (end_pairs i st)\<lparr>global := js_set (global st) t (Some a)\<rparr>"
    by (auto split: if_splits pairs_call.splits list.splits)
  then show ?thesis by (simp add: visit_effect_def pairs_ended)
next
  case (Pair_resolved i)
  with e obtain t ts where r: "i < length (pair_calls st)" "pair_calls st ! i = Pair_awaiting t"
    "js_get (global st) t = Some (Some ts)" "st' = st\<lparr>pair_calls := (pair_calls st)[i := Pair_iterating ts]\<rparr>"
    by (auto split: if_splits pairs_call.splits option.splits)
  have "ts = succs t" using ok r(3) by (simp add: pairs_ok_def global_ok_def)
  with r show ?thesis by (simp add: visit_effect_def pairs_same)
next
  case (Pair_next i)
  with e obtain x xs where "i < length (pair_calls st)" "pair_calls st ! i = Pair_iterating (x # xs)"
    "st' = call_pairs x (st\<lparr>pair_calls := (pair_calls st)[i := Pair_iterating xs]\<rparr>)"
    by (auto split: if_splits pairs_call.splits list.splits)
  then show ?thesis using pairs_look [of i st succs x "Pair_iterating xs"] by simp
next
  case (Pair_done i)
  with e have "i < length (pair_calls st)" "pair_calls st ! i = Pair_iterating []" "st' = end_pairs i st"
    by (auto split: if_splits pairs_call.splits list.splits)
  then show ?thesis by (simp add: visit_effect_def pairs_ended)
qed (use e in \<open>auto simp: visit_effect_def split: if_splits\<close>)

lemma pairs_ok_upd:
  "pairs_ok succs st \<Longrightarrow> pairs_call_ok succs c \<Longrightarrow> pairs_ok succs (st\<lparr>pair_calls := (pair_calls st)[i := c]\<rparr>)"
  by (auto simp: pairs_ok_def list_all_upd)

lemma pairs_ok_global: "pairs_ok succs st \<Longrightarrow> global_ok succs g \<Longrightarrow> pairs_ok succs (st\<lparr>global := g\<rparr>)"
  by (simp add: pairs_ok_def)

lemma pairs_handle_ok:
  assumes ok: "pairs_ok succs st" and e: "pairs_handle succs e st = Some st'"
  shows "pairs_ok succs st'"
proof (cases e)
  case (Pair_data i)
  with e obtain t a x xs where r: "i < length (pair_calls st)" "pair_calls st ! i = Pair_streaming t a (x # xs)"
    "st' = call_pairs x (st\<lparr>pair_calls := (pair_calls st)[i := Pair_streaming t (a @ [x]) xs]\<rparr>)"
    by (auto split: if_splits pairs_call.splits list.splits)
  have "pairs_call_ok succs (pair_calls st ! i)" using ok r(1) by (simp add: pairs_ok_def list_all_length)
  then have "pairs_call_ok succs (Pair_streaming t (a @ [x]) xs)" by (simp add: r(2))
  from pairs_ok_upd [OF ok this] r(1) show ?thesis unfolding r(3) by (intro call_pairs_ok) auto
next
  case (Pair_end i)
  with e obtain t a where r: "i < length (pair_calls st)" "pair_calls st ! i = Pair_streaming t a []"
    "st' = (end_pairs i st)\<lparr>global := js_set (global st) t (Some a)\<rparr>"
    by (auto split: if_splits pairs_call.splits list.splits)
  have "pairs_call_ok succs (pair_calls st ! i)" using ok r(1) by (simp add: pairs_ok_def list_all_length)
  then have "global_ok succs (js_set (global st) t (Some a))"
    using ok by (auto simp: r(2) pairs_ok_def global_ok_def)
  from pairs_ok_global [OF end_pairs_ok [OF ok r(1)] this] show ?thesis by (simp add: r(3))
next
  case (Pair_next i)
  with e obtain x xs where r: "i < length (pair_calls st)"
    "st' = call_pairs x (st\<lparr>pair_calls := (pair_calls st)[i := Pair_iterating xs]\<rparr>)"
    by (auto split: if_splits pairs_call.splits list.splits)
  show ?thesis unfolding r(2) by (intro call_pairs_ok pairs_ok_upd [OF ok]) (use r(1) in auto)
next
  case (Pair_done i)
  with e have "i < length (pair_calls st)" "st' = end_pairs i st"
    by (auto split: if_splits pairs_call.splits list.splits)
  with ok show ?thesis by (simp add: end_pairs_ok)
next
  case (Other_promise t)
  have "global_ok succs (js_set (global st) t None)" using ok by (auto simp: pairs_ok_def global_ok_def)
  from pairs_ok_global [OF ok this] e Other_promise show ?thesis by (auto split: if_splits)
next
  case (Other_resolved t)
  have "global_ok succs (js_set (global st) t (Some (succs t)))" using ok by (auto simp: pairs_ok_def global_ok_def)
  from pairs_ok_global [OF ok this] e Other_resolved show ?thesis by (auto split: if_splits)
qed (use ok e in \<open>auto intro!: pairs_ok_upd split: if_splits pairs_call.splits option.splits\<close>)

interpretation pairs: visit_search succs "pairs_step succs" "pairs_ok succs" currentSubject "pairs_waiting succs"
  for succs :: "'t \<Rightarrow> 't list"
  by unfold_locales (auto simp: pairs_step_def intro: pairs_handle_ok pairs_effect)

lemma new_pairs_inv: "global_ok succs g \<Longrightarrow> pairs.search_inv succs {t} (new_pairs t g)"
  using reachable_start [of "{t}" succs] reachable_step [of t succs "{t}"]
  by (auto simp: pairs.search_inv_def new_pairs_def call_pairs_def pairs_ok_def pairs_waiting_def Let_def global_ok_def)

lemma pairs_run_steps: "pairs_run succs es st = Some st' \<Longrightarrow> (pairs_step succs)\<^sup>*\<^sup>* st st'"
proof (induction es arbitrary: st)
  case (Cons e es)
  then obtain st1 where "pairs_handle succs e st = Some st1" "pairs_run succs es st1 = Some st'"
    by (auto split: option.splits)
  with Cons.IH show ?case by (auto simp: pairs_step_def intro: converse_rtranclp_into_rtranclp)
qed simp

text \<open>C12. A search for the pairs of a subject that shares its results with the searches for other subjects:
  whatever the order of its concurrent calls, and whatever the others add to the shared promises
  meanwhile, it pushes each object once, and when the counter closes the iterator it has pushed
  exactly the objects that the path reaches, and the promises stay true for the other searches.\<close>

theorem pairs_search_complete:
  assumes "global_ok succs termHashesGlobal"
    and "pairs_run succs es (new_pairs objectVal termHashesGlobal) = Some st"
  shows "distinct (currentSubject st) \<and> set (currentSubject st) \<subseteq> reachable succs {objectVal} \<and>
    global_ok succs (global st) \<and>
    (pair_closed st \<longrightarrow> set (currentSubject st) = reachable succs {objectVal})"
proof -
  note inv = pairs.search_inv_steps [OF pairs_run_steps [OF assms(2)] new_pairs_inv [OF assms(1)]]
  have ok: "pairs_ok succs st" using inv by (simp add: pairs.search_inv_def)
  then have "pair_closed st \<Longrightarrow> pairs_waiting succs st = {}" by (simp add: pairs_ok_def pairs_waiting_def)
  with pairs.search_sound [OF inv] pairs.search_complete [OF inv] ok show ?thesis by (auto simp: pairs_ok_def)
qed

lemma pairs_search_complete_witness:
  "\<exists>st. pairs_run sample_succs [Pair_reply 0, Pair_data 0, Pair_end 0, Other_resolved 1, Pair_resolved 0, Pair_next 0, Pair_done 0]
      (new_pairs 0 [(1, None)]) = Some st \<and>
    pair_closed st \<and> set (currentSubject st) = reachable sample_succs {0} \<and> currentSubject st = [0, 1]"
proof -
  let ?es = "[Pair_reply 0, Pair_data 0, Pair_end 0, Other_resolved 1, Pair_resolved 0, Pair_next 0, Pair_done 0]"
  have "map_option (\<lambda>st. (pair_closed st, currentSubject st)) (pairs_run sample_succs ?es (new_pairs 0 [(1, None)])) =
      Some (True, [0, 1])"
    by code_simp
  then obtain st where st: "pairs_run sample_succs ?es (new_pairs 0 [(1, None)]) = Some st"
    "pair_closed st" "currentSubject st = [0, 1]" by auto
  have "global_ok sample_succs [(1, None)]" by (simp add: global_ok_def)
  from pairs_search_complete [OF this st(1)] st show ?thesis by auto
qed

section \<open>A scheduled run\<close>

fun call_event :: "nat \<Rightarrow> ('t, 't list option) jsmap \<Rightarrow> 't pairs_call \<Rightarrow> 't pairs_event option" where
  "call_event i g (Pair_mediating t) = Some (Pair_reply i)"
| "call_event i g (Pair_streaming t a xs) = Some (if xs = [] then Pair_end i else Pair_data i)"
| "call_event i g (Pair_awaiting t) =
     (case js_get g t of Some (Some ts) \<Rightarrow> Some (Pair_resolved i) | _ \<Rightarrow> None)"
| "call_event i g (Pair_iterating xs) = Some (if xs = [] then Pair_done i else Pair_next i)"

definition pairs_next :: "'t pairs_state \<Rightarrow> 't pairs_event option" where
  "pairs_next st =
     (case first_index (\<lambda>c. call_event 0 (global st) c \<noteq> None) (pair_calls st) of
        None \<Rightarrow> None
      | Some i \<Rightarrow> call_event i (global st) (pair_calls st ! i))"

fun pairs_drive :: "nat \<Rightarrow> ('t \<Rightarrow> 't list) \<Rightarrow> 't pairs_state \<Rightarrow> 't pairs_state option" where
  "pairs_drive 0 succs st = None"
| "pairs_drive (Suc n) succs st =
     (if pair_closed st then Some st
      else case pairs_next st of
        None \<Rightarrow> None
      | Some e \<Rightarrow> (case pairs_handle succs e st of None \<Rightarrow> None | Some st' \<Rightarrow> pairs_drive n succs st'))"

fun call_work :: "('t \<Rightarrow> 't list) \<Rightarrow> 't pairs_call \<Rightarrow> nat" where
  "call_work succs (Pair_mediating t) = 2 * length (succs t) + 4"
| "call_work succs (Pair_streaming t a xs) = 2 * length xs + 2"
| "call_work succs (Pair_awaiting t) = 2 * length (succs t) + 4"
| "call_work succs (Pair_iterating xs) = 2 * length xs + 2"

definition pairs_work :: "'t set \<Rightarrow> ('t \<Rightarrow> 't list) \<Rightarrow> 't pairs_state \<Rightarrow> nat" where
  "pairs_work U succs st =
     (\<Sum>u\<in>U - set (currentSubject st). 2 * length (succs u) + 5) + (\<Sum>c\<leftarrow>pair_calls st. call_work succs c)"

text \<open>Alone, a search waits only for promises of searches that are over.\<close>

definition pairs_alone :: "'t pairs_state \<Rightarrow> bool" where
  "pairs_alone st \<longleftrightarrow>
     (\<forall>t. js_get (global st) t = Some None \<longrightarrow>
        Pair_mediating t \<in> set (pair_calls st) \<or> (\<exists>a xs. Pair_streaming t a xs \<in> set (pair_calls st))) \<and>
     (\<forall>t. Pair_awaiting t \<in> set (pair_calls st) \<longrightarrow> js_has (global st) t)"

lemma sum_list_upd:
  fixes f :: "'a \<Rightarrow> nat"
  shows "i < length xs \<Longrightarrow> (\<Sum>x\<leftarrow>xs. f x) + f y = (\<Sum>x\<leftarrow>xs[i := y]. f x) + f (xs ! i)"
proof -
  assume i: "i < length xs"
  have "xs[i := y] = take i xs @ y # drop (Suc i) xs" by (rule upd_conv_take_nth_drop [OF i])
  then have "(\<Sum>x\<leftarrow>xs[i := y]. f x) = f y + (\<Sum>x\<leftarrow>drop_nth i xs. f x)" by (simp add: drop_nth_def)
  with sum_list_drop_nth [OF i, of f] show ?thesis by simp
qed

lemma call_pairs_work:
  assumes "finite U" and "t \<in> U"
  shows "pairs_work U succs (call_pairs t st) \<le> pairs_work U succs st"
proof (cases "t \<in> set (currentSubject st)")
  case True
  then show ?thesis by (simp add: call_pairs_def)
next
  case False
  then show ?thesis
    using sum_unseen [OF assms False, of "\<lambda>u. 2 * length (succs u) + 5"]
    by (simp add: call_pairs_def pairs_work_def Let_def)
qed

lemma pairs_work_upd:
  assumes "i < length (pair_calls st)" and "call_work succs c < call_work succs (pair_calls st ! i)"
  shows "pairs_work U succs (st\<lparr>pair_calls := (pair_calls st)[i := c]\<rparr>) < pairs_work U succs st"
  using sum_list_upd [OF assms(1), of "call_work succs" c] assms(2) by (simp add: pairs_work_def)

lemma pairs_work_end:
  assumes "i < length (pair_calls st)"
  shows "pairs_work U succs (end_pairs i st) < pairs_work U succs st"
proof -
  have "0 < call_work succs (pair_calls st ! i)" by (cases "pair_calls st ! i") simp_all
  then show ?thesis
    using sum_list_drop_nth [OF assms, of "call_work succs"] by (simp add: pairs_work_def end_pairs_def)
qed

lemma pairs_look_work:
  assumes "finite U" and "pairs_waiting succs st \<subseteq> U" and "i < length (pair_calls st)"
    and "call_work succs c < call_work succs (pair_calls st ! i)" and "x \<in> pair_waiting succs (pair_calls st ! i)"
  shows "pairs_work U succs (call_pairs x (st\<lparr>pair_calls := (pair_calls st)[i := c]\<rparr>)) < pairs_work U succs st"
proof -
  have "x \<in> U" using assms(2,3,5) by (auto simp: pairs_waiting_def dest!: nth_mem)
  from call_pairs_work [OF assms(1) this, of succs "st\<lparr>pair_calls := (pair_calls st)[i := c]\<rparr>"]
    pairs_work_upd [OF assms(3,4), of U]
  show ?thesis by simp
qed

lemma pairs_work_step:
  assumes fin: "finite U" and wait: "pairs_waiting succs st \<subseteq> U" and ok: "pairs_ok succs st"
    and i: "i < length (pair_calls st)" and e: "call_event i (global st) (pair_calls st ! i) = Some e"
  shows "\<exists>st'. pairs_handle succs e st = Some st' \<and> pairs_work U succs st' < pairs_work U succs st"
proof (cases "pair_calls st ! i")
  case (Pair_mediating t)
  then show ?thesis using e i pairs_work_upd [OF i, of succs "Pair_streaming t [] (succs t)" U] by auto
next
  case (Pair_streaming t a xs)
  show ?thesis
  proof (cases xs)
    case Nil
    then show ?thesis using e i Pair_streaming pairs_work_end [OF i, of U succs] by (auto simp: pairs_work_def)
  next
    case (Cons x xs')
    then show ?thesis
      using e i Pair_streaming pairs_look_work [OF fin wait i, of "Pair_streaming t (a @ [x]) xs'" x] by auto
  qed
next
  case (Pair_awaiting t)
  then obtain ts where ts: "js_get (global st) t = Some (Some ts)" "e = Pair_resolved i"
    using e by (auto split: option.splits)
  have "ts = succs t" using ok ts(1) by (simp add: pairs_ok_def global_ok_def)
  then show ?thesis
    using i Pair_awaiting ts pairs_work_upd [OF i, of succs "Pair_iterating ts" U] by auto
next
  case (Pair_iterating xs)
  show ?thesis
  proof (cases xs)
    case Nil
    then show ?thesis using e i Pair_iterating pairs_work_end [OF i, of U succs] by auto
  next
    case (Cons x xs')
    then show ?thesis
      using e i Pair_iterating pairs_look_work [OF fin wait i, of "Pair_iterating xs'" x] by auto
  qed
qed

lemma call_event_index: "call_event i g c = None \<longleftrightarrow> call_event j g c = None"
  by (cases c) (auto split: option.split)

lemma set_upd_keeps:
  assumes "i < length xs"
  shows "y \<in> set (xs[i := y])" and "x \<in> set xs \<Longrightarrow> x \<noteq> xs ! i \<Longrightarrow> x \<in> set (xs[i := y])"
    and "x \<in> set (xs[i := y]) \<Longrightarrow> x = y \<or> x \<in> set xs"
proof -
  have upd: "xs[i := y] = take i xs @ y # drop (Suc i) xs" by (rule upd_conv_take_nth_drop [OF assms])
  then show "y \<in> set (xs[i := y])" by simp
  show "x \<in> set (xs[i := y])" if "x \<in> set xs" "x \<noteq> xs ! i"
    using that set_drop_nth [OF assms] upd by (auto simp: drop_nth_def)
  show "x = y \<or> x \<in> set xs" if "x \<in> set (xs[i := y])"
    using that set_update_subset_insert [of xs i y] by auto
qed

lemma call_pairs_alone: "pairs_alone st \<Longrightarrow> pairs_alone (call_pairs t st)"
  by (auto simp: pairs_alone_def call_pairs_def Let_def)

lemma pairs_alone_upd:
  assumes alone: "pairs_alone st" and i: "i < length (pair_calls st)"
    and keeps: "\<And>t. pair_calls st ! i = Pair_mediating t \<or> (\<exists>a xs. pair_calls st ! i = Pair_streaming t a xs) \<Longrightarrow>
      (\<exists>a xs. c = Pair_streaming t a xs)"
    and wait: "\<And>t. c \<noteq> Pair_awaiting t"
  shows "pairs_alone (st\<lparr>pair_calls := (pair_calls st)[i := c]\<rparr>)"
proof -
  note upd = set_upd_keeps [OF i, where y = c]
  have "Pair_mediating t \<in> set ((pair_calls st)[i := c]) \<or> (\<exists>a xs. Pair_streaming t a xs \<in> set ((pair_calls st)[i := c]))"
    if "js_get (global st) t = Some None" for t
  proof (cases "pair_calls st ! i = Pair_mediating t \<or> (\<exists>a xs. pair_calls st ! i = Pair_streaming t a xs)")
    case True
    with keeps upd(1) show ?thesis by auto
  next
    case False
    from alone that have "Pair_mediating t \<in> set (pair_calls st) \<or> (\<exists>a xs. Pair_streaming t a xs \<in> set (pair_calls st))"
      by (simp add: pairs_alone_def)
    then show ?thesis using False upd(2) by metis
  qed
  moreover have "js_has (global st) t" if "Pair_awaiting t \<in> set ((pair_calls st)[i := c])" for t
    using alone upd(3) [OF that] wait by (auto simp: pairs_alone_def)
  ultimately show ?thesis by (simp add: pairs_alone_def)
qed

lemma pairs_alone_end:
  assumes alone: "pairs_alone st" and i: "i < length (pair_calls st)" and c: "pair_calls st ! i = Pair_iterating []"
  shows "pairs_alone (end_pairs i st)"
  using alone set_drop_nth [OF i] c by (simp add: pairs_alone_def end_pairs_def)

lemma pairs_alone_resolve:
  assumes alone: "pairs_alone st" and i: "i < length (pair_calls st)" and c: "pair_calls st ! i = Pair_streaming t a []"
  shows "pairs_alone ((end_pairs i st)\<lparr>global := js_set (global st) t (Some b)\<rparr>)"
  using alone set_drop_nth [OF i] c by (auto simp: pairs_alone_def end_pairs_def split: if_splits)

lemma pairs_alone_step:
  assumes alone: "pairs_alone st" and i: "i < length (pair_calls st)"
    and e: "call_event i (global st) (pair_calls st ! i) = Some e" and run: "pairs_handle succs e st = Some st'"
  shows "pairs_alone st'"
proof (cases "pair_calls st ! i")
  case (Pair_mediating t)
  then show ?thesis using e run i by (auto intro!: pairs_alone_upd [OF alone i])
next
  case (Pair_streaming t a xs)
  then show ?thesis
    using e run i
    by (cases xs) (auto intro!: call_pairs_alone pairs_alone_upd [OF alone i] pairs_alone_resolve [OF alone i])
next
  case (Pair_awaiting t)
  then show ?thesis using e run i by (auto split: option.splits intro!: pairs_alone_upd [OF alone i])
next
  case (Pair_iterating xs)
  then show ?thesis
    using e run i
    by (cases xs) (auto intro!: call_pairs_alone pairs_alone_upd [OF alone i] pairs_alone_end [OF alone i])
qed

lemma pairs_next_enabled:
  assumes "pairs_alone st" and "pairs_ok succs st" and "\<not> pair_closed st"
  shows "\<exists>i e. pairs_next st = Some e \<and> i < length (pair_calls st) \<and>
    call_event i (global st) (pair_calls st ! i) = Some e"
proof (cases "first_index (\<lambda>c. call_event 0 (global st) c \<noteq> None) (pair_calls st)")
  case None
  then have none: "call_event 0 (global st) c = None" if "c \<in> set (pair_calls st)" for c
    using that by (auto simp: first_index_None)
  obtain c where c: "c \<in> set (pair_calls st)" using assms(2,3) by (cases "pair_calls st") (auto simp: pairs_ok_def)
  from none [OF c] obtain t where t: "c = Pair_awaiting t" by (cases c) auto
  with c assms(1) have "js_has (global st) t" by (simp add: pairs_alone_def)
  with none [OF c] t have "js_get (global st) t = Some None" by (auto split: option.splits)
  with assms(1) have "Pair_mediating t \<in> set (pair_calls st) \<or> (\<exists>a xs. Pair_streaming t a xs \<in> set (pair_calls st))"
    by (simp add: pairs_alone_def)
  then show ?thesis using none by fastforce
next
  case (Some i)
  note i = first_index_Some [OF Some]
  then obtain e where "call_event i (global st) (pair_calls st ! i) = Some e"
    using call_event_index [of i "global st" _ 0] by fastforce
  with Some i show ?thesis by (auto simp: pairs_next_def)
qed

lemma pairs_drive_ends:
  assumes fin: "finite U" and U: "reachable succs {t} \<subseteq> U"
  shows "pairs_alone st \<Longrightarrow> pairs.search_inv succs {t} st \<Longrightarrow> pairs_work U succs st < n \<Longrightarrow>
    \<exists>st'. pairs_drive n succs st = Some st' \<and> pair_closed st' \<and> pairs_alone st' \<and> pairs.search_inv succs {t} st'"
proof (induction n arbitrary: st)
  case (Suc n)
  show ?case
  proof (cases "pair_closed st")
    case True
    with Suc.prems show ?thesis by simp
  next
    case False
    have ok: "pairs_ok succs st" and wait: "pairs_waiting succs st \<subseteq> U"
      using Suc.prems(2) U by (auto simp: pairs.search_inv_def)
    from pairs_next_enabled [OF Suc.prems(1) ok False] obtain i e where e: "pairs_next st = Some e"
      "i < length (pair_calls st)" "call_event i (global st) (pair_calls st ! i) = Some e" by blast
    from pairs_work_step [OF fin wait ok e(2,3)] obtain st'
      where st': "pairs_handle succs e st = Some st'" "pairs_work U succs st' < pairs_work U succs st" by blast
    have inv: "pairs.search_inv succs {t} st'"
      by (rule pairs.search_inv_step [OF Suc.prems(2)]) (use st'(1) in \<open>auto simp: pairs_step_def\<close>)
    have "pairs_work U succs st' < n" using st'(2) Suc.prems(3) by simp
    from Suc.IH [OF pairs_alone_step [OF Suc.prems(1) e(2,3) st'(1)] inv this]
    show ?thesis using False e(1) st'(1) by simp
  qed
qed simp

text \<open>All promises are resolved, and true.\<close>

definition global_done :: "('t \<Rightarrow> 't list) \<Rightarrow> ('t, 't list option) jsmap \<Rightarrow> bool" where
  "global_done succs g \<longleftrightarrow> (\<forall>t r. js_get g t = Some r \<longrightarrow> r = Some (succs t))"

lemma pairs_drive_correct:
  assumes fin: "finite U" and U: "reachable succs {t} \<subseteq> U" and g: "global_done succs g"
    and n: "(\<Sum>u\<in>U. 2 * length (succs u) + 5) + 2 * length (succs t) + 5 \<le> n"
  shows "\<exists>st. pairs_drive n succs (new_pairs t g) = Some st \<and> distinct (currentSubject st) \<and>
    set (currentSubject st) = reachable succs {t} \<and> global_done succs (global st)"
proof -
  have ok: "global_ok succs g" using g by (auto simp: global_ok_def global_done_def)
  have alone: "pairs_alone (new_pairs t g)"
    using g by (auto simp: pairs_alone_def new_pairs_def call_pairs_def Let_def global_done_def)
  have "t \<in> U" using U reachable_start [of "{t}" succs] by auto
  have "(\<Sum>u\<in>U - {t}. 2 * length (succs u) + 5) \<le> (\<Sum>u\<in>U. 2 * length (succs u) + 5)"
    by (rule sum_mono2) (use fin in auto)
  then have "pairs_work U succs (new_pairs t g) < n"
    using n by (auto simp: pairs_work_def new_pairs_def call_pairs_def Let_def)
  from pairs_drive_ends [OF fin U alone new_pairs_inv [OF ok] this] obtain st
    where st: "pairs_drive n succs (new_pairs t g) = Some st" "pair_closed st" "pairs_alone st"
      "pairs.search_inv succs {t} st" by blast
  have okst: "pairs_ok succs st" using st(4) by (simp add: pairs.search_inv_def)
  with st(2) have none: "pair_calls st = []" by (simp add: pairs_ok_def)
  then have "pairs_waiting succs st = {}" by (simp add: pairs_waiting_def)
  note set = pairs.search_complete [OF st(4) this]
  have "global_done succs (global st)"
    unfolding global_done_def
  proof (intro allI impI)
    fix u r assume r: "js_get (global st) u = Some r"
    show "r = Some (succs u)"
    proof (cases r)
      case None
      with r st(3) none show ?thesis by (simp add: pairs_alone_def)
    next
      case (Some ts)
      with r okst show ?thesis by (simp add: pairs_ok_def global_ok_def)
    qed
  qed
  with set st(1) show ?thesis by blast
qed

end
