(* ===== verification/Distinct_Rows.thy ===== *)
theory Distinct_Rows
  imports RDF_Terms
begin

text \<open>
  The actors of DISTINCT and REDUCED.  The distinct actors filter the rows by a key: the identity
  actor (\<open>packages/actor-query-operation-distinct-identity\<close>) by the joined strings of the terms, the hash actor
  (\<open>packages/actor-query-operation-distinct-hash\<close>) by a number from the bus of hash functions, for which
  \<open>packages/actor-hash-bindings-murmur\<close> is the actor.  The filter keeps the first row of each key, whatever
  the key; it removes only duplicates when different rows have different keys, which holds for the
  identity actor when no term's string has a hyphen, and fails for the hashes of values.  The
  reduced actor remembers keys in a cache of the package \<open>lru-cache\<close>, which is a parameter.
\<close>

section \<open>Filters\<close>

type_synonym row = "(string, rdf_term) jsmap"

text \<open>The filter functions of the actors keep the keys they have seen.\<close>

fun identity_filter :: "('r \<Rightarrow> 'h) \<Rightarrow> 'h list \<Rightarrow> 'r list \<Rightarrow> 'r list" where
  "identity_filter f identities [] = []"
| "identity_filter f identities (r # rs) =
     (if List.member identities (f r) then identity_filter f identities rs
      else r # identity_filter f (f r # identities) rs)"

definition distinct_rows :: "(string list \<Rightarrow> row \<Rightarrow> 'h) \<Rightarrow> string list \<Rightarrow> row list \<Rightarrow> row list" where
  "distinct_rows f variables rows = identity_filter (f variables) [] rows"

text \<open>The key of the identity actor; \<open>join\<close> writes an \<open>undefined\<close> as the empty string.\<close>

definition row_identity :: "(rdf_term \<Rightarrow> string) \<Rightarrow> string list \<Rightarrow> row \<Rightarrow> string" where
  "row_identity termToString variables r =
     join_strings ''-'' (map (\<lambda>v. case js_get r v of None \<Rightarrow> [] | Some t \<Rightarrow> termToString t) variables)"

text \<open>The key of the hash actor, with the murmur hash of a list of strings as a parameter.\<close>

definition row_hash :: "(string list \<Rightarrow> 'h) \<Rightarrow> string list \<Rightarrow> row \<Rightarrow> 'h" where
  "row_hash murmur variables r =
     murmur (map (\<lambda>v. case js_get r v of None \<Rightarrow> ''UNDEF'' | Some t \<Rightarrow> term_value t) variables)"

text \<open>The reduced actor, with the operations \<open>has\<close> and \<open>set\<close> of the cache.\<close>

fun reduced_filter :: "('c \<Rightarrow> 'h \<Rightarrow> bool) \<Rightarrow> ('c \<Rightarrow> 'h \<Rightarrow> 'c) \<Rightarrow> ('r \<Rightarrow> 'h) \<Rightarrow> 'c \<Rightarrow> 'r list \<Rightarrow> 'r list" where
  "reduced_filter has put f hashes [] = []"
| "reduced_filter has put f hashes (r # rs) =
     (if has hashes (f r) then reduced_filter has put f hashes rs
      else r # reduced_filter has put f (put hashes (f r)) rs)"

section \<open>What the filters keep\<close>

lemma identity_filter_cong: "(\<And>r. r \<in> set rs \<Longrightarrow> f r = g r) \<Longrightarrow> identity_filter f ks rs = identity_filter g ks rs"
  by (induction rs arbitrary: ks) auto

lemma identity_filter_keys:
  "f ` set (identity_filter f ks rs) = f ` set rs - set ks \<and> distinct (map f (identity_filter f ks rs))"
proof (induction rs arbitrary: ks)
  case (Cons r rs)
  from Cons.IH [of ks] Cons.IH [of "f r # ks"] show ?case by (auto simp: image_iff)
qed simp

lemma identity_filter_sub: "set (identity_filter f ks rs) \<subseteq> set rs"
  by (induction rs arbitrary: ks) auto

text \<open>The first row of each key, as a specification.\<close>

fun first_of_each :: "('r \<Rightarrow> 'k) \<Rightarrow> 'r list \<Rightarrow> 'r list" where
  "first_of_each f [] = []"
| "first_of_each f (r # rs) = r # filter (\<lambda>q. f q \<noteq> f r) (first_of_each f rs)"

lemma identity_filter_first:
  "identity_filter f ks rs = filter (\<lambda>r. f r \<notin> set ks) (first_of_each f rs)"
proof (induction rs arbitrary: ks)
  case (Cons r rs)
  have "filter (\<lambda>q. f q \<notin> set (f r # ks)) xs = filter (\<lambda>q. f q \<notin> set ks) (filter (\<lambda>q. f q \<noteq> f r) xs)" for xs
    by (induction xs) auto
  moreover have "filter (\<lambda>q. f q \<notin> set ks) (filter (\<lambda>q. f q \<noteq> f r) xs) = filter (\<lambda>q. f q \<notin> set ks) xs"
    if "f r \<in> set ks" for xs
    using that by (induction xs) auto
  ultimately show ?case using Cons.IH by simp
qed simp

lemma first_of_each_key:
  assumes "\<And>r q. r \<in> set rs \<Longrightarrow> q \<in> set rs \<Longrightarrow> f r = f q \<longleftrightarrow> g r = g q"
  shows "first_of_each f rs = first_of_each g rs"
  using assms
proof (induction rs)
  case (Cons r rs)
  have sub: "set (first_of_each g rs) \<subseteq> set rs" for rs by (induction rs) auto
  have "first_of_each f rs = first_of_each g rs" using Cons by simp
  moreover have "filter (\<lambda>q. f q \<noteq> f r) (first_of_each g rs) = filter (\<lambda>q. g q \<noteq> g r) (first_of_each g rs)"
  proof (rule filter_cong [OF refl])
    fix q assume "q \<in> set (first_of_each g rs)"
    with sub [of rs] Cons.prems [of q r] show "f q \<noteq> f r \<longleftrightarrow> g q \<noteq> g r" by auto
  qed
  ultimately show ?case by simp
qed simp

text \<open>The rows as far as the variables of the operation go.\<close>

definition projected :: "string list \<Rightarrow> row \<Rightarrow> rdf_term option list" where
  "projected variables r = map (js_get r) variables"

lemma row_identity_projected:
  assumes inj: "inj_on termToString T" and hyphen: "\<And>t. t \<in> T \<Longrightarrow> CHR ''-'' \<notin> set (termToString t)"
    and empty: "\<And>t. t \<in> T \<Longrightarrow> termToString t \<noteq> []"
    and r: "\<Union> (set_option ` set (projected variables r)) \<subseteq> T" and q: "\<Union> (set_option ` set (projected variables q)) \<subseteq> T"
  shows "row_identity termToString variables r = row_identity termToString variables q \<longleftrightarrow>
    projected variables r = projected variables q"
proof -
  let ?s = "\<lambda>u. case u of None \<Rightarrow> [] | Some t \<Rightarrow> termToString t"
  have key: "row_identity termToString variables r = join_strings ''-'' (map ?s (projected variables r))" for r
    by (simp add: row_identity_def projected_def comp_def)
  have no: "list_all (\<lambda>s. CHR ''-'' \<notin> set s) (map ?s (projected variables r))"
    if "\<Union> (set_option ` set (projected variables r)) \<subseteq> T" for r
    using that hyphen by (auto simp: list_all_iff split: option.split)
  have "inj_on ?s (insert None (Some ` T))"
    using inj empty by (auto simp: inj_on_def dest!: sym [of "[]"])
  moreover have "set (projected variables r) \<subseteq> insert None (Some ` T)"
    if "\<Union> (set_option ` set (projected variables r)) \<subseteq> T" for r
  proof
    fix u assume "u \<in> set (projected variables r)"
    with that show "u \<in> insert None (Some ` T)" by (cases u) auto
  qed
  ultimately have "map ?s (projected variables r) = map ?s (projected variables q) \<longleftrightarrow> projected variables r = projected variables q"
    using r q by (intro inj_on_map_eq_map) (blast intro: inj_on_subset)
  moreover have "length (map ?s (projected variables r)) = length (map ?s (projected variables q))"
    by (simp add: projected_def)
  ultimately show ?thesis
    unfolding key using join_strings_parts [OF no [OF r] no [OF q]] by metis
qed

text \<open>The identity actor of DISTINCT keeps exactly the first row of every solution, in the order of the
  rows, when the package gives different strings, without a hyphen, for the different terms of the rows: rows
  that differ in a variable of the operation, also by a missing value, are all kept.\<close>

theorem distinct_identity_keeps_first:
  assumes "inj_on termToString T" and "\<And>t. t \<in> T \<Longrightarrow> CHR ''-'' \<notin> set (termToString t)"
    and "\<And>t. t \<in> T \<Longrightarrow> termToString t \<noteq> []"
    and rows: "\<And>r. r \<in> set rows \<Longrightarrow> \<Union> (set_option ` set (projected variables r)) \<subseteq> T"
  shows "distinct_rows (row_identity termToString) variables rows = first_of_each (projected variables) rows"
proof -
  have "first_of_each (row_identity termToString variables) rows = first_of_each (projected variables) rows"
    by (rule first_of_each_key) (rule row_identity_projected [OF assms(1-3) rows rows])
  then show ?thesis by (simp add: distinct_rows_def identity_filter_first)
qed

definition sample_string :: "rdf_term \<Rightarrow> string" where
  "sample_string t = (case t of NamedNode v \<Rightarrow> v | _ \<Rightarrow> ''x'')"

lemma distinct_identity_keeps_first_witness:
  "distinct_rows (row_identity sample_string) [''s'', ''t'']
     [[(''s'', NamedNode ''a'')], [(''t'', NamedNode ''a'')], [(''s'', NamedNode ''a'')]] =
   first_of_each (projected [''s'', ''t'']) [[(''s'', NamedNode ''a'')], [(''t'', NamedNode ''a'')], [(''s'', NamedNode ''a'')]] \<and>
   length (distinct_rows (row_identity sample_string) [''s'', ''t'']
     [[(''s'', NamedNode ''a'')], [(''t'', NamedNode ''a'')], [(''s'', NamedNode ''a'')]]) = 2"
proof (rule conjI)
  show "distinct_rows (row_identity sample_string) [''s'', ''t'']
     [[(''s'', NamedNode ''a'')], [(''t'', NamedNode ''a'')], [(''s'', NamedNode ''a'')]] =
   first_of_each (projected [''s'', ''t'']) [[(''s'', NamedNode ''a'')], [(''t'', NamedNode ''a'')], [(''s'', NamedNode ''a'')]]"
    by (rule distinct_identity_keeps_first [where T = "{NamedNode ''a''}"])
      (auto simp: sample_string_def projected_def split: if_splits)
  show "length (distinct_rows (row_identity sample_string) [''s'', ''t'']
     [[(''s'', NamedNode ''a'')], [(''t'', NamedNode ''a'')], [(''s'', NamedNode ''a'')]]) = 2"
    by code_simp
qed

text \<open>With hyphens in the terms, the joined strings of different rows can be equal, and DISTINCT loses a solution.\<close>

lemma distinct_identity_loses_solution:
  "distinct_rows (row_identity sample_string) [''s'', ''t'']
     [[(''s'', NamedNode ''a-b''), (''t'', NamedNode ''c'')], [(''s'', NamedNode ''a''), (''t'', NamedNode ''b-c'')]] =
   [[(''s'', NamedNode ''a-b''), (''t'', NamedNode ''c'')]]"
  by code_simp

text \<open>The hash actor of DISTINCT with the murmur actor loses solutions, whatever the hash of the strings: the
  hash is taken of the values of the terms only, so a literal, a literal of another datatype or language and an
  IRI with the same characters count as the same term.\<close>

theorem distinct_hash_loses_solution:
  "distinct_rows (row_hash murmur) [x] [[(x, Literal ''1'' [] (xsd @ ''integer'') [])], [(x, Literal ''1'' [] (xsd @ ''string'') [])],
     [(x, NamedNode ''1'')]] = [[(x, Literal ''1'' [] (xsd @ ''integer'') [])]]"
  by (simp add: distinct_rows_def row_hash_def)

text \<open>Whatever the cache forgets, the rows of the reduced actor are rows of its input in their order, and
  every key of the input is there, when the cache has only keys that were put there.\<close>

theorem reduced_keeps_keys:
  assumes keys: "\<And>c k j. has (put c k) j \<Longrightarrow> has c j \<or> j = k" and fresh_cache: "\<And>k. \<not> has fresh_cache k"
  shows "(\<exists>keep. reduced_filter has put f fresh_cache rows = map fst (filter snd (zip rows keep))) \<and>
    f ` set (reduced_filter has put f fresh_cache rows) = f ` set rows"
proof (rule conjI)
  have "\<exists>keep. length keep = length rows \<and> reduced_filter has put f c rows = map fst (filter snd (zip rows keep))" for c
  proof (induction rows arbitrary: c)
    case (Cons r rows)
    obtain keep where keep: "length keep = length rows"
      "reduced_filter has put f (if has c (f r) then c else put c (f r)) rows = map fst (filter snd (zip rows keep))"
      using Cons.IH by blast
    show ?case by (rule exI [of _ "(\<not> has c (f r)) # keep"]) (use keep in auto)
  qed simp
  then show "\<exists>keep. reduced_filter has put f fresh_cache rows = map fst (filter snd (zip rows keep))" by blast
  have "f ` set rows \<subseteq> f ` set (reduced_filter has put f c rows) \<union> {k. has c k} \<and>
      f ` set (reduced_filter has put f c rows) \<subseteq> f ` set rows" for c
  proof (induction rows arbitrary: c)
    case (Cons r rows)
    show ?case
    proof (cases "has c (f r)")
      case True
      with Cons.IH [of c] show ?thesis by auto
    next
      case False
      have "{k. has (put c (f r)) k} \<subseteq> insert (f r) {k. has c k}" using keys by auto
      with Cons.IH [of "put c (f r)"] False show ?thesis by auto
    qed
  qed simp
  from this [of fresh_cache] fresh_cache show "f ` set (reduced_filter has put f fresh_cache rows) = f ` set rows" by blast
qed

lemma reduced_keeps_keys_witness:
  "f ` set (reduced_filter (\<lambda>c k. c = Some k) (\<lambda>c k. Some k) f None [1, 1, 2, 1 :: nat]) = f ` set [1, 1, 2, 1]"
  using reduced_keeps_keys [where has = "\<lambda>c k. c = Some k" and put = "\<lambda>c k. Some k" and fresh_cache = None and f = f
      and rows = "[1, 1, 2, 1]"] by auto

end
