(* ===== verification/Path_Eval.thy ===== *)
theory Path_Eval
  imports Path_Pairs Distinct_Rows
begin

text \<open>
  The property path actors (\<open>packages/actor-query-operation-path-*\<close>,
  \<open>actor-query-operation-nodes\<close>, \<open>actor-abstract-path\<close>) as one function from a path between two
  terms to its rows, each actor calling the mediator for smaller paths.  The data are the triples of
  the graph of the operation, which is not a variable; a source answers a pattern with the rows
  that match.  Metadata of the results is not part of the model.
\<close>

section \<open>Paths and rows\<close>

datatype path_expr =
    P_link rdf_term
  | P_inv path_expr
  | P_seq "path_expr list"
  | P_alt "path_expr list"
  | P_nps "rdf_term list"
  | P_zero_or_one path_expr
  | P_zero_or_more path_expr
  | P_one_or_more path_expr

type_synonym triple = "rdf_term \<times> rdf_term \<times> rdf_term"

text \<open>Rows from entries: an entry of a variable replaces an earlier one.\<close>

definition bindings_of :: "(string \<times> rdf_term) list \<Rightarrow> row" where
  "bindings_of es = foldl (\<lambda>r (v, t). js_set r v t) [] es"

text \<open>Matching a position of a pattern against a term: a variable is bound, or has its value already.\<close>

definition match_position :: "rdf_term \<Rightarrow> rdf_term \<Rightarrow> row \<Rightarrow> row option" where
  "match_position p t r =
     (case p of
        Variable v \<Rightarrow>
          (case js_get r v of None \<Rightarrow> Some (js_set r v t) | Some t' \<Rightarrow> if t' = t then Some r else None)
      | _ \<Rightarrow> if p = t then Some r else None)"

definition match_triple :: "rdf_term \<Rightarrow> rdf_term \<Rightarrow> rdf_term \<Rightarrow> triple \<Rightarrow> row option" where
  "match_triple s p ob d =
     (case d of (a, b, c) \<Rightarrow>
        Option.bind (match_position s a []) (\<lambda>r1. Option.bind (match_position p b r1) (match_position ob c)))"

definition pattern_rows :: "triple list \<Rightarrow> rdf_term \<Rightarrow> rdf_term \<Rightarrow> rdf_term \<Rightarrow> row list" where
  "pattern_rows G s p ob = List.map_filter (match_triple s p ob) G"

section \<open>Helpers of the actors\<close>

text \<open>\<open>generateVariable\<close> for a path: the name with letters \<open>b\<close> added until neither end of the path has its
  value.\<close>

function generateVariable :: "rdf_term \<Rightarrow> rdf_term \<Rightarrow> string \<Rightarrow> string" where
  "generateVariable s ob name =
     (if term_value s = name \<or> term_value ob = name then generateVariable s ob (name @ ''b'') else name)"
  by pat_completeness auto
termination
  by (relation "measure (\<lambda>(s, ob, name). Suc (max (length (term_value s)) (length (term_value ob))) - length name)") auto

declare generateVariable.simps [simp del]

text \<open>The nodes actor, whose distinct is over the node and two variables of its own, and \<open>getNodes\<close>.
  \<open>f\<close> is the key of the distinct actor.\<close>

definition nodes :: "(string list \<Rightarrow> row \<Rightarrow> 'h) \<Rightarrow> triple list \<Rightarrow> string \<Rightarrow> row list" where
  "nodes f G v =
     map (\<lambda>r. js_delete (js_delete r ''__p'') ''__x'')
       (distinct_rows f [v, ''__p'', ''__x'']
         (pattern_rows G (Variable v) (Variable ''__p'') (Variable ''__x'') @
          pattern_rows G (Variable ''__x'') (Variable ''__p'') (Variable v)))"

definition getNodes :: "(string list \<Rightarrow> row \<Rightarrow> 'h) \<Rightarrow> triple list \<Rightarrow> string \<Rightarrow> string \<Rightarrow> row list" where
  "getNodes f G s ob =
     map (\<lambda>r. case js_get r s of Some t \<Rightarrow> js_set r ob t | None \<Rightarrow> r) (nodes f G s)"

text \<open>The terms at the ends of the triples.\<close>

definition graph_nodes :: "triple list \<Rightarrow> rdf_term list" where
  "graph_nodes G = map fst G @ map (snd \<circ> snd) G"

text \<open>The ends of the parts of a sequence.\<close>

definition seq_ends :: "nat \<Rightarrow> rdf_term \<Rightarrow> rdf_term \<Rightarrow> (rdf_term \<times> rdf_term) list" where
  "seq_ends n s ob =
     (let inner = map (\<lambda>i. Variable (generateVariable s ob (''b'' @ nat_string i))) [0..<n - 1]
      in zip (s # inner) (inner @ [ob]))"

fun merge_rows :: "row \<Rightarrow> row \<Rightarrow> row option" where
  "merge_rows r [] = Some r"
| "merge_rows r ((v, t) # es) =
     (case js_get r v of
        None \<Rightarrow> merge_rows (js_set r v t) es
      | Some t' \<Rightarrow> if t' = t then merge_rows r es else None)"

definition join_rows :: "row list \<Rightarrow> row list \<Rightarrow> row list" where
  "join_rows rs qs = concat (map (\<lambda>r. List.map_filter (merge_rows r) qs) rs)"

text \<open>The runs of the searches from one subject, and from the rows of another operation one after the
  other; all terms that a search can reach are in the list \<open>universe\<close>.\<close>

definition star_list :: "rdf_term list \<Rightarrow> (rdf_term \<Rightarrow> rdf_term list) \<Rightarrow> rdf_term \<Rightarrow> bool \<Rightarrow> rdf_term list" where
  "star_list universe succs subject emitFirst =
     (let fuel = 5 * ((\<Sum>u\<leftarrow>remdups universe. 2 * length (succs u) + 6) + (2 * length (succs subject) + 5)) + 5
      in case star_terms fuel succs subject emitFirst of None \<Rightarrow> [] | Some out \<Rightarrow> out)"

fun pairs_list ::
  "rdf_term list \<Rightarrow> (rdf_term \<Rightarrow> rdf_term list) \<Rightarrow> (rdf_term \<times> rdf_term) list \<Rightarrow>
     (rdf_term, rdf_term list option) jsmap \<Rightarrow> (rdf_term \<times> rdf_term) list" where
  "pairs_list universe succs [] g = []"
| "pairs_list universe succs ((s, ob) # starts) g =
     (let fuel = (\<Sum>u\<leftarrow>remdups universe. 2 * length (succs u) + 5) + 2 * length (succs ob) + 5
      in case pairs_drive fuel succs (new_pairs ob g) of
        None \<Rightarrow> []
      | Some st \<Rightarrow> map (\<lambda>c. (s, c)) (currentSubject st) @ pairs_list universe succs starts (global st))"

definition row_vars :: "rdf_term \<Rightarrow> rdf_term \<Rightarrow> string list" where
  "row_vars s ob = map term_value (filter is_variable [s, ob])"

definition row_terms :: "string \<Rightarrow> row list \<Rightarrow> rdf_term list" where
  "row_terms v rows = List.map_filter (\<lambda>r. js_get r v) rows"

section \<open>The actors\<close>

text \<open>The variable of the steps of a search.\<close>

definition step_var :: string where
  "step_var = ''b''"

definition path_link :: "triple list \<Rightarrow> rdf_term \<Rightarrow> rdf_term \<Rightarrow> rdf_term \<Rightarrow> row list" where
  "path_link G iri s ob = pattern_rows G s iri ob"

definition path_alt :: "row list list \<Rightarrow> row list" where
  "path_alt subOperations = concat subOperations"

text \<open>The entries are the rows of the parts between \<open>ends\<close>; the join is the inner join.\<close>

definition path_seq :: "(rdf_term \<times> rdf_term) list \<Rightarrow> row list list \<Rightarrow> row list" where
  "path_seq ends entries =
     (let generated = map (\<lambda>(a, b). term_value b) (butlast ends)
      in map (\<lambda>r. foldl (\<lambda>r v. js_delete r v) r generated) (foldl join_rows [[]] entries))"

definition path_nps :: "triple list \<Rightarrow> rdf_term list \<Rightarrow> rdf_term \<Rightarrow> rdf_term \<Rightarrow> row list" where
  "path_nps G iris s ob =
     (let blank = generateVariable s ob ''b''
      in List.map_filter
           (\<lambda>r. if list_ex (\<lambda>iri. js_get r blank = Some iri) iris then None else Some (js_delete r blank))
           (pattern_rows G s (Variable blank) ob))"

text \<open>The results of the path itself are \<open>bindingsOne\<close>.\<close>

definition path_zero_or_one :: "(string list \<Rightarrow> row \<Rightarrow> 'h) \<Rightarrow> triple list \<Rightarrow> rdf_term \<Rightarrow> rdf_term \<Rightarrow> row list \<Rightarrow> row list" where
  "path_zero_or_one f G s ob bindingsOne =
     (if \<not> is_variable s \<and> \<not> is_variable ob \<and> s = ob then [[]]
      else distinct_rows f (row_vars s ob)
        ((if is_variable s \<and> is_variable ob
          then getNodes f G (term_value s) (term_value ob)
          else (if is_variable s then [[(term_value s, ob)]] else []) @
               (if is_variable ob then [[(term_value ob, s)]] else [])) @
         bindingsOne))"

text \<open>\<open>forward\<close> and \<open>backward\<close> are the terms one step of the path, or of its inverse, away.\<close>

definition path_zero_or_more ::
  "(string list \<Rightarrow> row \<Rightarrow> 'h) \<Rightarrow> triple list \<Rightarrow> rdf_term \<Rightarrow> rdf_term \<Rightarrow> (rdf_term \<Rightarrow> rdf_term list) \<Rightarrow> (rdf_term \<Rightarrow> rdf_term list) \<Rightarrow> row list" where
  "path_zero_or_more f G s ob forward backward =
     distinct_rows f (row_vars s ob)
       (if is_variable s \<and> is_variable ob
        then map (\<lambda>(a, c). bindings_of [(term_value s, a), (term_value ob, c)])
               (pairs_list (graph_nodes G) forward (map (\<lambda>n. (n, n)) (row_terms (term_value s) (getNodes f G (term_value s) (term_value ob)))) [])
        else if is_variable s
        then map (\<lambda>c. [(term_value s, c)]) (star_list (ob # graph_nodes G) backward ob True)
        else if is_variable ob
        then map (\<lambda>c. [(term_value ob, c)]) (star_list (s # graph_nodes G) forward s True)
        else List.map_filter (\<lambda>c. if c = ob then Some [] else None) (star_list (s # graph_nodes G) forward s True))"

definition path_one_or_more ::
  "(string list \<Rightarrow> row \<Rightarrow> 'h) \<Rightarrow> triple list \<Rightarrow> rdf_term \<Rightarrow> rdf_term \<Rightarrow> (rdf_term \<Rightarrow> rdf_term list) \<Rightarrow> (rdf_term \<Rightarrow> rdf_term list) \<Rightarrow>
     row list \<Rightarrow> row list" where
  "path_one_or_more f G s ob forward backward single =
     distinct_rows f (row_vars s ob)
       (if is_variable s \<and> is_variable ob
        then map (\<lambda>(a, c). bindings_of [(term_value s, a), (term_value ob, c)])
               (pairs_list (graph_nodes G) forward
                 (List.map_filter (\<lambda>r. case (js_get r (term_value s), js_get r (term_value ob)) of
                      (Some a, Some c) \<Rightarrow> Some (a, c) | _ \<Rightarrow> None)
                   (distinct_rows f (row_vars s ob) single)) [])
        else if is_variable s
        then distinct_rows f (row_vars s ob) (map (\<lambda>c. [(term_value s, c)]) (star_list (ob # graph_nodes G) backward ob False))
        else if is_variable ob
        then map (\<lambda>c. [(term_value ob, c)]) (star_list (s # graph_nodes G) forward s False)
        else List.map_filter (\<lambda>c. if c = ob then Some [] else None)
               (row_terms step_var (distinct_rows f [step_var]
                 (map (\<lambda>c. [(step_var, c)]) (star_list (s # graph_nodes G) forward s False)))))"

text \<open>The mediator chooses the actor by the type of the path; what an actor asks of the mediator for a
  smaller path is the recursive call.\<close>

function eval_path :: "(string list \<Rightarrow> row \<Rightarrow> 'h) \<Rightarrow> triple list \<Rightarrow> path_expr \<Rightarrow> rdf_term \<Rightarrow> rdf_term \<Rightarrow> row list" where
  "eval_path f G (P_link iri) s ob = path_link G iri s ob"
| "eval_path f G (P_inv e) s ob = eval_path f G e ob s"
| "eval_path f G (P_alt es) s ob = path_alt (map (\<lambda>e. eval_path f G e s ob) es)"
| "eval_path f G (P_seq es) s ob =
     (let ends = seq_ends (length es) s ob
      in path_seq ends (map (\<lambda>(e, a, b). eval_path f G e a b) (zip es ends)))"
| "eval_path f G (P_nps iris) s ob = path_nps G iris s ob"
| "eval_path f G (P_zero_or_one e) s ob = path_zero_or_one f G s ob (eval_path f G e s ob)"
| "eval_path f G (P_zero_or_more e) s ob =
     path_zero_or_more f G s ob
       (\<lambda>t. row_terms step_var (eval_path f G e t (Variable step_var)))
       (\<lambda>t. row_terms step_var (eval_path f G e (Variable step_var) t))"
| "eval_path f G (P_one_or_more e) s ob =
     path_one_or_more f G s ob
       (\<lambda>t. row_terms step_var (eval_path f G e t (Variable step_var)))
       (\<lambda>t. row_terms step_var (eval_path f G e (Variable step_var) t))
       (eval_path f G e s ob)"
  by pat_completeness auto
termination
  by (relation "measure (\<lambda>(f, G, e, s, ob). size e)")
    (auto dest!: set_zip_leftD simp: less_Suc_eq_le size_list_estimation' dest: size_list_estimation'
      intro: le_imp_less_Suc)

declare eval_path.simps [simp del]

lemmas path_actors = path_link_def path_alt_def path_seq_def path_nps_def path_zero_or_one_def
  path_zero_or_more_def path_one_or_more_def

text \<open>The actors with their results for smaller paths put in.\<close>

lemmas eval_path_eqs = eval_path.simps [unfolded path_actors Let_def]

section \<open>The semantics of paths\<close>

text \<open>The pairs of terms that a path connects (SPARQL 1.1, sections 9.3 and 18.4), between ends that are given
  terms, or variables (\<open>None\<close>): a path of length zero connects a given term with itself, and
  between two variables the nodes of the graph with themselves.\<close>

definition accepts :: "rdf_term option \<Rightarrow> rdf_term \<Rightarrow> bool" where
  "accepts S a \<longleftrightarrow> S = None \<or> S = Some a"

fun seq_pairs ::
  "(rdf_term option \<Rightarrow> rdf_term option \<Rightarrow> (rdf_term \<times> rdf_term) set) list \<Rightarrow>
     rdf_term option \<Rightarrow> rdf_term option \<Rightarrow> (rdf_term \<times> rdf_term) set" where
  "seq_pairs [] S T = {}"
| "seq_pairs [R] S T = R S T"
| "seq_pairs (R # Rs) S T = R S None O seq_pairs Rs None T"

definition forward_step :: "(rdf_term option \<Rightarrow> rdf_term option \<Rightarrow> (rdf_term \<times> rdf_term) set) \<Rightarrow> (rdf_term \<times> rdf_term) set" where
  "forward_step R = {(a, b). (a, b) \<in> R (Some a) None}"

definition backward_step :: "(rdf_term option \<Rightarrow> rdf_term option \<Rightarrow> (rdf_term \<times> rdf_term) set) \<Rightarrow> (rdf_term \<times> rdf_term) set" where
  "backward_step R = {(a, b). (b, a) \<in> R None (Some a)}"

definition zero_pairs :: "triple list \<Rightarrow> rdf_term option \<Rightarrow> rdf_term option \<Rightarrow> (rdf_term \<times> rdf_term) set" where
  "zero_pairs G S T =
     (case (S, T) of
        (None, None) \<Rightarrow> Id_on (set (graph_nodes G))
      | (Some s, None) \<Rightarrow> {(s, s)}
      | (None, Some t) \<Rightarrow> {(t, t)}
      | (Some s, Some t) \<Rightarrow> if s = t then {(s, s)} else {})"

definition closure_pairs ::
  "triple list \<Rightarrow> (rdf_term \<times> rdf_term) set \<Rightarrow> (rdf_term \<times> rdf_term) set \<Rightarrow>
     rdf_term option \<Rightarrow> rdf_term option \<Rightarrow> (rdf_term \<times> rdf_term) set" where
  "closure_pairs G F B S T =
     (case (S, T) of
        (None, None) \<Rightarrow> {(a, c). a \<in> set (graph_nodes G) \<and> (a, c) \<in> F}
      | (Some s, _) \<Rightarrow> {(a, c). a = s \<and> (a, c) \<in> F \<and> accepts T c}
      | (None, Some t) \<Rightarrow> {(a, c). c = t \<and> (c, a) \<in> B})"

fun path_pairs ::
  "triple list \<Rightarrow> path_expr \<Rightarrow> rdf_term option \<Rightarrow> rdf_term option \<Rightarrow> (rdf_term \<times> rdf_term) set" where
  "path_pairs G (P_link iri) S T = {(a, c). (a, iri, c) \<in> set G \<and> accepts S a \<and> accepts T c}"
| "path_pairs G (P_inv e) S T = (path_pairs G e T S)\<inverse>"
| "path_pairs G (P_alt es) S T = (\<Union>e\<in>set es. path_pairs G e S T)"
| "path_pairs G (P_seq es) S T = seq_pairs (map (\<lambda>e S T. path_pairs G e S T) es) S T"
| "path_pairs G (P_nps iris) S T =
     {(a, c). (\<exists>p. (a, p, c) \<in> set G \<and> p \<notin> set iris) \<and> accepts S a \<and> accepts T c}"
| "path_pairs G (P_zero_or_one e) S T = zero_pairs G S T \<union> path_pairs G e S T"
| "path_pairs G (P_zero_or_more e) S T =
     closure_pairs G ((forward_step (path_pairs G e))\<^sup>*) ((backward_step (path_pairs G e))\<^sup>*) S T"
| "path_pairs G (P_one_or_more e) S T =
     closure_pairs G ((forward_step (path_pairs G e))\<^sup>+) ((backward_step (path_pairs G e))\<^sup>+) S T"

section \<open>Where the pairs lie\<close>

lemma set_graph_nodes: "set (graph_nodes G) = {a. \<exists>p c. (a, p, c) \<in> set G \<or> (c, p, a) \<in> set G}"
proof -
  have "set (graph_nodes G) = fst ` set G \<union> (\<lambda>(a, p, c). c) ` set G"
    by (auto simp: graph_nodes_def image_Un image_image split_def)
  then show ?thesis by (force simp: image_iff)
qed

lemma accepts_simps [simp]: "accepts None a" "accepts (Some b) a \<longleftrightarrow> a = b"
  by (auto simp: accepts_def)

definition confined :: "triple list \<Rightarrow> (rdf_term option \<Rightarrow> rdf_term option \<Rightarrow> (rdf_term \<times> rdf_term) set) \<Rightarrow> bool" where
  "confined G R \<longleftrightarrow>
     (\<forall>S T a c. (a, c) \<in> R S T \<longrightarrow> accepts S a \<and> accepts T c \<and>
        (a \<in> set (graph_nodes G) \<and> c \<in> set (graph_nodes G) \<or> a = c \<and> (S = Some a \<or> T = Some a)))"

lemma confinedD:
  "confined G R \<Longrightarrow> (a, c) \<in> R S T \<Longrightarrow> accepts S a \<and> accepts T c \<and>
     (a \<in> set (graph_nodes G) \<and> c \<in> set (graph_nodes G) \<or> a = c \<and> (S = Some a \<or> T = Some a))"
  by (simp add: confined_def)

lemma confined_seq: "\<forall>R\<in>set Rs. confined G R \<Longrightarrow> confined G (seq_pairs Rs)"
proof (induction Rs)
  case Nil
  show ?case by (simp add: confined_def)
next
  case (Cons R Rs)
  show ?case
  proof (cases Rs)
    case Nil
    then have "seq_pairs (R # Rs) = R" by (intro ext) simp
    with Cons.prems show ?thesis by simp
  next
    case R: (Cons R' Rs')
    have R1: "confined G R" and R2: "confined G (seq_pairs Rs)" using Cons by simp_all
    have eq: "seq_pairs (R # Rs) S T = R S None O seq_pairs Rs None T" for S T by (simp add: R)
    show ?thesis
      unfolding confined_def eq
    proof (intro allI impI)
      fix S T a c
      assume "(a, c) \<in> R S None O seq_pairs Rs None T"
      then obtain b where "(a, b) \<in> R S None" "(b, c) \<in> seq_pairs Rs None T" by blast
      from confinedD [OF R1 this(1)] confinedD [OF R2 this(2)]
      show "accepts S a \<and> accepts T c \<and>
        (a \<in> set (graph_nodes G) \<and> c \<in> set (graph_nodes G) \<or> a = c \<and> (S = Some a \<or> T = Some a))" by auto
    qed
  qed
qed

lemma steps_confined:
  assumes "confined G R"
  shows "(a, c) \<in> (forward_step R)\<^sup>* \<Longrightarrow> a = c \<or> a \<in> set (graph_nodes G) \<and> c \<in> set (graph_nodes G)"
    and "(a, c) \<in> (backward_step R)\<^sup>* \<Longrightarrow> a = c \<or> a \<in> set (graph_nodes G) \<and> c \<in> set (graph_nodes G)"
proof -
  show "a = c \<or> a \<in> set (graph_nodes G) \<and> c \<in> set (graph_nodes G)" if "(a, c) \<in> (forward_step R)\<^sup>*"
    using that
  proof (induction rule: rtrancl_induct)
    case (step b c)
    then have "(b, c) \<in> R (Some b) None" by (simp add: forward_step_def)
    from confinedD [OF assms this] step.IH show ?case by auto
  qed simp
  show "a = c \<or> a \<in> set (graph_nodes G) \<and> c \<in> set (graph_nodes G)" if "(a, c) \<in> (backward_step R)\<^sup>*"
    using that
  proof (induction rule: rtrancl_induct)
    case (step b c)
    then have "(c, b) \<in> R None (Some b)" by (simp add: backward_step_def)
    from confinedD [OF assms this] step.IH show ?case by auto
  qed simp
qed

lemma closure_confined:
  assumes "confined G R"
  shows "confined G (closure_pairs G ((forward_step R)\<^sup>*) ((backward_step R)\<^sup>*))"
    and "confined G (closure_pairs G ((forward_step R)\<^sup>+) ((backward_step R)\<^sup>+))"
proof -
  have closed: "confined G (closure_pairs G F B)"
    if "F \<subseteq> (forward_step R)\<^sup>*" "B \<subseteq> (backward_step R)\<^sup>*" for F B
    unfolding confined_def
  proof (intro allI impI)
    fix S T a c assume ac: "(a, c) \<in> closure_pairs G F B S T"
    have F: "(a, c) \<in> F \<Longrightarrow> a = c \<or> a \<in> set (graph_nodes G) \<and> c \<in> set (graph_nodes G)"
      using that(1) steps_confined(1) [OF assms] by blast
    have B: "(c, a) \<in> B \<Longrightarrow> a = c \<or> a \<in> set (graph_nodes G) \<and> c \<in> set (graph_nodes G)"
      using that(2) steps_confined(2) [OF assms, of c a] by blast
    show "accepts S a \<and> accepts T c \<and>
        (a \<in> set (graph_nodes G) \<and> c \<in> set (graph_nodes G) \<or> a = c \<and> (S = Some a \<or> T = Some a))"
      using ac F B by (cases S; cases T) (auto simp: closure_pairs_def)
  qed
  show "confined G (closure_pairs G ((forward_step R)\<^sup>*) ((backward_step R)\<^sup>*))"
    by (rule closed) simp_all
  show "confined G (closure_pairs G ((forward_step R)\<^sup>+) ((backward_step R)\<^sup>+))"
    by (rule closed) (auto intro: trancl_into_rtrancl)
qed

lemma path_pairs_confined: "confined G (path_pairs G e)"
proof (induction e)
  case (P_link iri)
  show ?case by (auto simp: confined_def set_graph_nodes)
next
  case (P_inv e)
  then show ?case by (auto simp: confined_def)
next
  case (P_seq es)
  then have "confined G (seq_pairs (map (path_pairs G) es))" by (intro confined_seq) auto
  then show ?case by (simp add: confined_def)
next
  case (P_alt es)
  show ?case
    unfolding confined_def
  proof (intro allI impI)
    fix S T a c assume "(a, c) \<in> path_pairs G (P_alt es) S T"
    then obtain e where e: "e \<in> set es" "(a, c) \<in> path_pairs G e S T" by auto
    from confinedD [OF P_alt [OF e(1)] e(2)]
    show "accepts S a \<and> accepts T c \<and>
        (a \<in> set (graph_nodes G) \<and> c \<in> set (graph_nodes G) \<or> a = c \<and> (S = Some a \<or> T = Some a))" .
  qed
next
  case (P_nps iris)
  show ?case by (auto simp: confined_def set_graph_nodes)
next
  case (P_zero_or_one e)
  then show ?case by (auto simp: confined_def zero_pairs_def split: option.splits if_splits)
next
  case (P_zero_or_more e)
  from closure_confined(1) [OF this] show ?case by (simp add: confined_def)
next
  case (P_one_or_more e)
  from closure_confined(2) [OF this] show ?case by (simp add: confined_def)
qed

text \<open>Between nodes, ends that are given only restrict the pairs.\<close>

definition restricts :: "triple list \<Rightarrow> (rdf_term option \<Rightarrow> rdf_term option \<Rightarrow> (rdf_term \<times> rdf_term) set) \<Rightarrow> bool" where
  "restricts G R \<longleftrightarrow>
     (\<forall>S T. set_option S \<subseteq> set (graph_nodes G) \<longrightarrow> set_option T \<subseteq> set (graph_nodes G) \<longrightarrow>
        R S T = {(a, c). (a, c) \<in> R None None \<and> accepts S a \<and> accepts T c})"

lemma restrictsD:
  "restricts G R \<Longrightarrow> set_option S \<subseteq> set (graph_nodes G) \<Longrightarrow> set_option T \<subseteq> set (graph_nodes G) \<Longrightarrow>
     (a, c) \<in> R S T \<longleftrightarrow> (a, c) \<in> R None None \<and> accepts S a \<and> accepts T c"
  unfolding restricts_def by blast

lemma restricts_seq: "\<forall>R\<in>set Rs. restricts G R \<Longrightarrow> restricts G (seq_pairs Rs)"
proof (induction Rs)
  case Nil
  show ?case by (simp add: restricts_def)
next
  case (Cons R Rs)
  show ?case
  proof (cases Rs)
    case Nil
    then have "seq_pairs (R # Rs) = R" by (intro ext) simp
    with Cons.prems show ?thesis by simp
  next
    case (Cons R' Rs')
    have R1: "restricts G R" and R2: "restricts G (seq_pairs Rs)" using Cons.prems Cons.IH by simp_all
    have eq: "seq_pairs (R # Rs) S T = R S None O seq_pairs Rs None T" for S T by (simp add: Cons)
    show ?thesis
      unfolding restricts_def eq
    proof (intro allI impI)
      fix S T assume S: "set_option S \<subseteq> set (graph_nodes G)" "set_option T \<subseteq> set (graph_nodes G)"
      have "(a, b) \<in> R S None \<longleftrightarrow> (a, b) \<in> R None None \<and> accepts S a" for a b
        using restrictsD [OF R1 S(1), of None] by simp
      moreover have "(b, c) \<in> seq_pairs Rs None T \<longleftrightarrow> (b, c) \<in> seq_pairs Rs None None \<and> accepts T c" for b c
        using restrictsD [OF R2 _ S(2), of None] by simp
      ultimately show "R S None O seq_pairs Rs None T =
          {(a, c). (a, c) \<in> R None None O seq_pairs Rs None None \<and> accepts S a \<and> accepts T c}"
        by (auto simp: relcomp_unfold)
    qed
  qed
qed

lemma steps_between_nodes:
  assumes "confined G R" and "restricts G R" and "a \<in> set (graph_nodes G)"
  shows "(a, b) \<in> forward_step R \<longleftrightarrow> (a, b) \<in> R None None"
    and "(a, b) \<in> backward_step R \<longleftrightarrow> (b, a) \<in> R None None"
  using restrictsD [OF assms(2), of "Some a" None] restrictsD [OF assms(2), of None "Some a"] assms(3)
  by (auto simp: forward_step_def backward_step_def)

lemma closure_between_nodes:
  assumes w: "confined G R" and r: "restricts G R" and a: "a \<in> set (graph_nodes G)"
  shows "(a, c) \<in> (backward_step R)\<^sup>* \<longleftrightarrow> c \<in> set (graph_nodes G) \<and> (c, a) \<in> (forward_step R)\<^sup>*"
proof
  assume "(a, c) \<in> (backward_step R)\<^sup>*"
  then show "c \<in> set (graph_nodes G) \<and> (c, a) \<in> (forward_step R)\<^sup>*"
  proof (induction rule: rtrancl_induct)
    case (step b c)
    then have "(c, b) \<in> R None None" using steps_between_nodes(2) [OF w r] by blast
    then have "c \<in> set (graph_nodes G)" "(c, b) \<in> forward_step R"
      using confinedD [OF w, of c b None None] steps_between_nodes(1) [OF w r] by auto
    with step.IH show ?case by (auto intro: converse_rtrancl_into_rtrancl)
  qed (use a in simp)
next
  have "(c, a) \<in> (forward_step R)\<^sup>* \<Longrightarrow> c \<in> set (graph_nodes G) \<Longrightarrow> (a, c) \<in> (backward_step R)\<^sup>*"
  proof (induction rule: converse_rtrancl_induct)
    case (step c b)
    then have "(c, b) \<in> R None None" using steps_between_nodes(1) [OF w r] by blast
    then have "b \<in> set (graph_nodes G)" "(b, c) \<in> backward_step R"
      using confinedD [OF w, of c b None None] steps_between_nodes(2) [OF w r] by auto
    with step.IH show ?case by (auto intro: rtrancl_into_rtrancl)
  qed simp
  then show "c \<in> set (graph_nodes G) \<and> (c, a) \<in> (forward_step R)\<^sup>* \<Longrightarrow> (a, c) \<in> (backward_step R)\<^sup>*" by blast
qed

lemma closure_between_nodes_plus:
  assumes w: "confined G R" and r: "restricts G R" and a: "a \<in> set (graph_nodes G)"
  shows "(a, c) \<in> (backward_step R)\<^sup>+ \<longleftrightarrow> c \<in> set (graph_nodes G) \<and> (c, a) \<in> (forward_step R)\<^sup>+"
proof -
  have node: "b \<in> set (graph_nodes G)" if "(b, d) \<in> R None None \<or> (d, b) \<in> R None None" for b d
    using that confinedD [OF w, of b d None None] confinedD [OF w, of d b None None] by auto
  have "(a, c) \<in> (backward_step R)\<^sup>+ \<longleftrightarrow> (\<exists>b. (a, b) \<in> (backward_step R)\<^sup>* \<and> (b, c) \<in> backward_step R)"
    unfolding trancl_unfold_right by blast
  also have "\<dots> \<longleftrightarrow> (\<exists>b. (b \<in> set (graph_nodes G) \<and> (b, a) \<in> (forward_step R)\<^sup>*) \<and> (b, c) \<in> backward_step R)"
    unfolding closure_between_nodes [OF w r a] ..
  also have "\<dots> \<longleftrightarrow> (\<exists>b. (b, a) \<in> (forward_step R)\<^sup>* \<and> (c, b) \<in> R None None)"
  proof (rule iff_exI)
    fix b
    show "(b \<in> set (graph_nodes G) \<and> (b, a) \<in> (forward_step R)\<^sup>*) \<and> (b, c) \<in> backward_step R \<longleftrightarrow>
        (b, a) \<in> (forward_step R)\<^sup>* \<and> (c, b) \<in> R None None"
      using node [of b c] steps_between_nodes(2) [OF w r, of b c] by blast
  qed
  also have "\<dots> \<longleftrightarrow> (\<exists>b. c \<in> set (graph_nodes G) \<and> (c, b) \<in> forward_step R \<and> (b, a) \<in> (forward_step R)\<^sup>*)"
  proof (rule iff_exI)
    fix b
    show "(b, a) \<in> (forward_step R)\<^sup>* \<and> (c, b) \<in> R None None \<longleftrightarrow>
        c \<in> set (graph_nodes G) \<and> (c, b) \<in> forward_step R \<and> (b, a) \<in> (forward_step R)\<^sup>*"
      using node [of c b] steps_between_nodes(1) [OF w r, of c b] by blast
  qed
  also have "\<dots> \<longleftrightarrow> c \<in> set (graph_nodes G) \<and> (c, a) \<in> (forward_step R)\<^sup>+"
    unfolding trancl_unfold_left by blast
  finally show ?thesis .
qed

lemma closure_restricts:
  assumes w: "confined G R" and r: "restricts G R"
  shows "restricts G (closure_pairs G ((forward_step R)\<^sup>*) ((backward_step R)\<^sup>*))"
    and "restricts G (closure_pairs G ((forward_step R)\<^sup>+) ((backward_step R)\<^sup>+))"
proof -
  have closed: "restricts G (closure_pairs G F B)"
    if bw: "\<And>a c. a \<in> set (graph_nodes G) \<Longrightarrow> (a, c) \<in> B \<longleftrightarrow> c \<in> set (graph_nodes G) \<and> (c, a) \<in> F" for F B
    unfolding restricts_def
  proof (intro allI impI)
    fix S T assume ST: "set_option S \<subseteq> set (graph_nodes G)" "set_option T \<subseteq> set (graph_nodes G)"
    show "closure_pairs G F B S T = {(a, c). (a, c) \<in> closure_pairs G F B None None \<and> accepts S a \<and> accepts T c}"
      using ST bw by (cases S; cases T) (auto simp: closure_pairs_def)
  qed
  show "restricts G (closure_pairs G ((forward_step R)\<^sup>*) ((backward_step R)\<^sup>*))"
    by (rule closed) (rule closure_between_nodes [OF w r])
  show "restricts G (closure_pairs G ((forward_step R)\<^sup>+) ((backward_step R)\<^sup>+))"
    by (rule closed) (rule closure_between_nodes_plus [OF w r])
qed

lemma path_pairs_restricts: "restricts G (path_pairs G e)"
proof (induction e)
  case (P_link iri)
  show ?case by (auto simp: restricts_def)
next
  case (P_inv e)
  show ?case
    unfolding restricts_def
  proof (intro allI impI)
    fix S T assume ST: "set_option S \<subseteq> set (graph_nodes G)" "set_option T \<subseteq> set (graph_nodes G)"
    show "path_pairs G (P_inv e) S T =
        {(a, c). (a, c) \<in> path_pairs G (P_inv e) None None \<and> accepts S a \<and> accepts T c}"
      using restrictsD [OF P_inv ST(2,1)] by auto
  qed
next
  case (P_seq es)
  then have "restricts G (seq_pairs (map (path_pairs G) es))" by (intro restricts_seq) auto
  moreover have "path_pairs G (P_seq es) = seq_pairs (map (path_pairs G) es)" by (intro ext) simp
  ultimately show ?case by simp
next
  case (P_alt es)
  show ?case
    unfolding restricts_def
  proof (intro allI impI)
    fix S T assume ST: "set_option S \<subseteq> set (graph_nodes G)" "set_option T \<subseteq> set (graph_nodes G)"
    have "(a, c) \<in> path_pairs G e S T \<longleftrightarrow> (a, c) \<in> path_pairs G e None None \<and> accepts S a \<and> accepts T c"
      if "e \<in> set es" for e a c
      using restrictsD [OF P_alt [OF that] ST] .
    then show "path_pairs G (P_alt es) S T =
        {(a, c). (a, c) \<in> path_pairs G (P_alt es) None None \<and> accepts S a \<and> accepts T c}"
      by auto
  qed
next
  case (P_nps iris)
  show ?case by (auto simp: restricts_def)
next
  case (P_zero_or_one e)
  show ?case
    unfolding restricts_def
  proof (intro allI impI)
    fix S T assume ST: "set_option S \<subseteq> set (graph_nodes G)" "set_option T \<subseteq> set (graph_nodes G)"
    have "zero_pairs G S T = {(a, c). (a, c) \<in> zero_pairs G None None \<and> accepts S a \<and> accepts T c}"
      using ST by (cases S; cases T) (auto simp: zero_pairs_def)
    then show "path_pairs G (P_zero_or_one e) S T =
        {(a, c). (a, c) \<in> path_pairs G (P_zero_or_one e) None None \<and> accepts S a \<and> accepts T c}"
      using restrictsD [OF P_zero_or_one ST] by auto
  qed
next
  case (P_zero_or_more e)
  have "path_pairs G (P_zero_or_more e) = closure_pairs G ((forward_step (path_pairs G e))\<^sup>*)
      ((backward_step (path_pairs G e))\<^sup>*)" by (intro ext) simp
  with closure_restricts(1) [OF path_pairs_confined P_zero_or_more] show ?case by simp
next
  case (P_one_or_more e)
  have "path_pairs G (P_one_or_more e) = closure_pairs G ((forward_step (path_pairs G e))\<^sup>+)
      ((backward_step (path_pairs G e))\<^sup>+)" by (intro ext) simp
  with closure_restricts(2) [OF path_pairs_confined P_one_or_more] show ?case by simp
qed

end
