(* ===== verification/Path_Semantics.thy ===== *)
theory Path_Semantics
  imports Path_Eval
begin

text \<open>
  The rows of the property path actors are the solutions of the path: the rows denote, as mappings
  from variables to terms, exactly the bindings of the two ends that the pairs of the path give.
  Each actor has its lemma, and an induction on the path composes them.
\<close>

section \<open>Rows as solutions\<close>

fun end_vars :: "rdf_term \<Rightarrow> string set" where
  "end_vars (Variable v) = {v}"
| "end_vars t = {}"

fun end_value :: "(string \<rightharpoonup> rdf_term) \<Rightarrow> rdf_term \<Rightarrow> rdf_term" where
  "end_value m (Variable v) = the (m v)"
| "end_value m t = t"

definition given :: "rdf_term \<Rightarrow> rdf_term option" where
  "given t = (if is_variable t then None else Some t)"

text \<open>The solutions of a path between two ends.\<close>

definition path_solutions ::
  "(rdf_term option \<Rightarrow> rdf_term option \<Rightarrow> (rdf_term \<times> rdf_term) set) \<Rightarrow> rdf_term \<Rightarrow> rdf_term \<Rightarrow>
     (string \<rightharpoonup> rdf_term) set" where
  "path_solutions R s ob =
     {m. dom m = end_vars s \<union> end_vars ob \<and> (end_value m s, end_value m ob) \<in> R (given s) (given ob)}"

definition denote :: "row list \<Rightarrow> (string \<rightharpoonup> rdf_term) set \<Rightarrow> bool" where
  "denote rows M \<longleftrightarrow> (\<forall>r\<in>set rows. wf_map r) \<and> map_of ` set rows = M"

lemma denoteI: "(\<And>r. r \<in> set rows \<Longrightarrow> wf_map r) \<Longrightarrow> map_of ` set rows = M \<Longrightarrow> denote rows M"
  by (simp add: denote_def)

lemma not_variable_simps:
  assumes "\<not> is_variable t"
  shows "end_vars t = {}" "end_value m t = t" "given t = Some t" "match_position t a r = (if t = a then Some r else None)"
  using assms by (cases t; simp add: given_def match_position_def)+

lemma variable_cases: obtains (var) v where "t = Variable v" | (const) "\<not> is_variable t"
  by (cases t) auto

lemma given_variable [simp]: "given (Variable v) = None"
  by (simp add: given_def)

lemma set_map_filter: "set (List.map_filter f xs) = {y. \<exists>x\<in>set xs. f x = Some y}"
  by (force simp: List.map_filter_def)

lemma dom_two: "dom m = {x, y} \<Longrightarrow> x \<noteq> y \<Longrightarrow> m = [x \<mapsto> the (m x), y \<mapsto> the (m y)]"
proof
  fix v
  assume d: "dom m = {x, y}" "x \<noteq> y"
  have "m v = None" if "v \<noteq> x" "v \<noteq> y" using d that by (auto simp: domIff)
  moreover have "x \<in> dom m" "y \<in> dom m" using d by auto
  ultimately show "m v = [x \<mapsto> the (m x), y \<mapsto> the (m y)] v" by (auto simp: domIff)
qed

lemma dom_one: "dom m = {x} \<Longrightarrow> m = [x \<mapsto> the (m x)]"
proof
  fix v
  assume d: "dom m = {x}"
  have "m v = None" if "v \<noteq> x" using d that by (auto simp: domIff)
  moreover have "x \<in> dom m" using d by auto
  ultimately show "m v = [x \<mapsto> the (m x)] v" by (auto simp: domIff)
qed

text \<open>The solutions in the four cases of ends.\<close>

lemma path_solutions_vars:
  "x \<noteq> y \<Longrightarrow> path_solutions R (Variable x) (Variable y) = (\<lambda>(a, c). [x \<mapsto> a, y \<mapsto> c]) ` R None None"
proof (rule set_eqI)
  fix m assume ne: "x \<noteq> y"
  show "m \<in> path_solutions R (Variable x) (Variable y) \<longleftrightarrow> m \<in> (\<lambda>(a, c). [x \<mapsto> a, y \<mapsto> c]) ` R None None"
  proof
    assume "m \<in> path_solutions R (Variable x) (Variable y)"
    then have d: "dom m = {x, y}" and "(the (m x), the (m y)) \<in> R None None"
      by (auto simp: path_solutions_def insert_commute)
    then show "m \<in> (\<lambda>(a, c). [x \<mapsto> a, y \<mapsto> c]) ` R None None"
      by (intro image_eqI [where x = "(the (m x), the (m y))"]) (simp_all add: dom_two [OF d ne, symmetric])
  qed (auto simp: path_solutions_def ne split: if_splits)
qed

lemma path_solutions_left:
  "\<not> is_variable t \<Longrightarrow> path_solutions R (Variable x) t = {[x \<mapsto> a] | a. (a, t) \<in> R None (Some t)}"
  by (auto simp: path_solutions_def not_variable_simps dest: dom_one split: if_splits)

lemma path_solutions_right:
  "\<not> is_variable t \<Longrightarrow> path_solutions R t (Variable y) = {[y \<mapsto> c] | c. (t, c) \<in> R (Some t) None}"
  by (auto simp: path_solutions_def not_variable_simps dest: dom_one split: if_splits)

lemma path_solutions_none:
  "\<not> is_variable t \<Longrightarrow> \<not> is_variable u \<Longrightarrow>
     path_solutions R t u = (if (t, u) \<in> R (Some t) (Some u) then {Map.empty} else {})"
  by (auto simp: path_solutions_def not_variable_simps)

definition ends_ok :: "rdf_term \<Rightarrow> rdf_term \<Rightarrow> bool" where
  "ends_ok s ob \<longleftrightarrow> \<not> (is_variable s \<and> s = ob)"

lemma path_solutions_converse: "path_solutions (\<lambda>S T. (R T S)\<inverse>) s ob = path_solutions R ob s"
  by (auto simp: path_solutions_def)

lemma path_solutions_cong: "R = R' \<Longrightarrow> path_solutions R s ob = path_solutions R' s ob"
  by simp

section \<open>Distinct rows\<close>

text \<open>The key of the distinct actor tells rows over the terms \<open>T\<close> apart.\<close>

definition tells_apart :: "(string list \<Rightarrow> row \<Rightarrow> 'h) \<Rightarrow> rdf_term set \<Rightarrow> bool" where
  "tells_apart f T \<longleftrightarrow>
     (\<forall>vs a b. ran (js_get a) \<subseteq> T \<longrightarrow> ran (js_get b) \<subseteq> T \<longrightarrow> (f vs a = f vs b \<longleftrightarrow> projected vs a = projected vs b))"

lemma tells_apartD:
  "tells_apart f T \<Longrightarrow> ran (js_get a) \<subseteq> T \<Longrightarrow> ran (js_get b) \<subseteq> T \<Longrightarrow> f vs a = f vs b \<longleftrightarrow> projected vs a = projected vs b"
  unfolding tells_apart_def by blast

lemma projected_ran: "\<Union> (set_option ` set (projected vs r)) \<subseteq> ran (js_get r)"
  by (auto simp: projected_def ran_def)

lemma row_identity_tells_apart:
  assumes "inj_on termToString T" and "\<And>t. t \<in> T \<Longrightarrow> CHR ''-'' \<notin> set (termToString t)"
    and "\<And>t. t \<in> T \<Longrightarrow> termToString t \<noteq> []"
  shows "tells_apart (row_identity termToString) T"
  unfolding tells_apart_def
proof (intro allI impI)
  fix vs and a b :: row assume "ran (js_get a) \<subseteq> T" "ran (js_get b) \<subseteq> T"
  with projected_ran [of vs a] projected_ran [of vs b]
  show "row_identity termToString vs a = row_identity termToString vs b \<longleftrightarrow> projected vs a = projected vs b"
    by (intro row_identity_projected [where T = T] assms) auto
qed

lemma projected_map_of:
  "dom (js_get a) \<subseteq> set vs \<Longrightarrow> dom (js_get b) \<subseteq> set vs \<Longrightarrow> projected vs a = projected vs b \<longleftrightarrow> js_get a = js_get b"
proof
  assume d: "dom (js_get a) \<subseteq> set vs" "dom (js_get b) \<subseteq> set vs" and eq: "projected vs a = projected vs b"
  show "js_get a = js_get b"
  proof
    fix v
    show "js_get a v = js_get b v"
    proof (cases "v \<in> set vs")
      case True
      with eq show ?thesis by (auto simp: projected_def)
    next
      case False
      with d have "v \<notin> dom (js_get a)" "v \<notin> dom (js_get b)" by auto
      then show ?thesis by (simp add: domIff)
    qed
  qed
qed (simp add: projected_def)

text \<open>Rows that a set of mappings over \<open>T\<close> describes.\<close>

definition over :: "rdf_term set \<Rightarrow> string list \<Rightarrow> (string \<rightharpoonup> rdf_term) set \<Rightarrow> bool" where
  "over T vs M \<longleftrightarrow> (\<forall>m\<in>M. dom m \<subseteq> set vs \<and> ran m \<subseteq> T)"

lemma overD: "over T vs M \<Longrightarrow> m \<in> M \<Longrightarrow> dom m \<subseteq> set vs \<and> ran m \<subseteq> T"
  by (simp add: over_def)

lemma distinct_key:
  assumes "denote rs M" and "tells_apart f T" and "over T vs M" and "a \<in> set rs" and "b \<in> set rs"
  shows "f vs a = f vs b \<longleftrightarrow> map_of a = map_of b"
proof -
  have "map_of a \<in> M" "map_of b \<in> M" using assms(1,4,5) by (auto simp: denote_def)
  note a = overD [OF assms(3) this(1)] and b = overD [OF assms(3) this(2)]
  have "f vs a = f vs b \<longleftrightarrow> projected vs a = projected vs b"
    using a b by (intro tells_apartD [OF assms(2)]) auto
  also have "\<dots> \<longleftrightarrow> map_of a = map_of b" using a b by (intro projected_map_of) auto
  finally show ?thesis .
qed

lemma denote_distinct:
  assumes "denote rs M" and "tells_apart f T" and "over T vs M"
  shows "denote (distinct_rows f vs rs) M"
proof (rule denoteI)
  have sub: "set (distinct_rows f vs rs) \<subseteq> set rs"
    by (simp add: distinct_rows_def identity_filter_sub)
  then show "wf_map r" if "r \<in> set (distinct_rows f vs rs)" for r using that assms(1) by (auto simp: denote_def)
  have "map_of r \<in> map_of ` set (distinct_rows f vs rs)" if r: "r \<in> set rs" for r
  proof -
    have "f vs r \<in> f vs ` set (distinct_rows f vs rs)"
      using identity_filter_keys [of "f vs" "[]" rs] r by (simp add: distinct_rows_def)
    then obtain q where q: "q \<in> set (distinct_rows f vs rs)" "f vs r = f vs q" by auto
    with distinct_key [OF assms r, of q] sub show ?thesis by auto
  qed
  with sub have "map_of ` set (distinct_rows f vs rs) = map_of ` set rs" by blast
  with assms(1) show "map_of ` set (distinct_rows f vs rs) = M" by (simp add: denote_def)
qed

lemma distinct_rows_once:
  assumes "denote (distinct_rows f vs rs) M" and "tells_apart f T" and "over T vs M"
  shows "distinct (map map_of (distinct_rows f vs rs))"
proof -
  have "distinct (map (f vs) (distinct_rows f vs rs))"
    using identity_filter_keys [of "f vs" "[]" rs] by (simp add: distinct_rows_def)
  then have "distinct (distinct_rows f vs rs)" "inj_on (f vs) (set (distinct_rows f vs rs))"
    by (simp_all add: distinct_map)
  moreover from this(2) have "inj_on map_of (set (distinct_rows f vs rs))"
    using distinct_key [OF assms] unfolding inj_on_def by blast
  ultimately show ?thesis by (simp add: distinct_map)
qed

section \<open>Patterns\<close>

definition ground_data :: "triple list \<Rightarrow> bool" where
  "ground_data G \<longleftrightarrow> list_all (\<lambda>(a, p, c). \<not> is_variable a \<and> \<not> is_variable p \<and> \<not> is_variable c) G"

lemma set_pattern_rows:
  "set (pattern_rows G s p ob) = {r. \<exists>a b c. (a, b, c) \<in> set G \<and> match_triple s p ob (a, b, c) = Some r}"
  by (force simp: pattern_rows_def set_map_filter)

lemma match_triple_ends:
  assumes "ends_ok s ob" and "\<not> is_variable p"
  shows "s = Variable x \<Longrightarrow> ob = Variable y \<Longrightarrow>
      match_triple s p ob (a, b, c) = (if b = p then Some [(x, a), (y, c)] else None)"
    and "s = Variable x \<Longrightarrow> \<not> is_variable ob \<Longrightarrow>
      match_triple s p ob (a, b, c) = (if b = p \<and> c = ob then Some [(x, a)] else None)"
    and "\<not> is_variable s \<Longrightarrow> ob = Variable y \<Longrightarrow>
      match_triple s p ob (a, b, c) = (if a = s \<and> b = p then Some [(y, c)] else None)"
    and "\<not> is_variable s \<Longrightarrow> \<not> is_variable ob \<Longrightarrow>
      match_triple s p ob (a, b, c) = (if a = s \<and> b = p \<and> c = ob then Some [] else None)"
  using assms by (auto simp: match_triple_def match_position_def [of "Variable _"] not_variable_simps ends_ok_def)

lemma link_rows:
  assumes ends: "ends_ok s ob" and iri: "\<not> is_variable iri"
  shows "denote (pattern_rows G s iri ob)
    (path_solutions (\<lambda>S T. {(a, c). (a, iri, c) \<in> set G \<and> accepts S a \<and> accepts T c}) s ob)"
proof (cases s rule: variable_cases)
  case s: (var x)
  show ?thesis
  proof (cases ob rule: variable_cases)
    case ob: (var y)
    with s ends have ne: "x \<noteq> y" by (auto simp: ends_ok_def)
    show ?thesis
      using match_triple_ends(1) [OF ends iri s ob] ne unfolding s ob path_solutions_vars [OF ne]
      by (intro denoteI) (force simp: set_pattern_rows wf_map_def image_iff fun_upd_twist split: if_splits)+
  next
    case const
    show ?thesis
      using match_triple_ends(2) [OF ends iri s const] unfolding s path_solutions_left [OF const]
      by (intro denoteI) (force simp: set_pattern_rows wf_map_def image_iff split: if_splits)+
  qed
next
  case s: const
  show ?thesis
  proof (cases ob rule: variable_cases)
    case ob: (var y)
    show ?thesis
      using match_triple_ends(3) [OF ends iri s ob] unfolding ob path_solutions_right [OF s]
      by (intro denoteI) (force simp: set_pattern_rows wf_map_def image_iff split: if_splits)+
  next
    case const
    show ?thesis
      using match_triple_ends(4) [OF ends iri s const] unfolding path_solutions_none [OF s const]
      by (intro denoteI) (force simp: set_pattern_rows wf_map_def image_iff split: if_splits)+
  qed
qed

section \<open>Searches over a closed set of terms\<close>

definition closed_under :: "('t \<Rightarrow> 't list) \<Rightarrow> 't set \<Rightarrow> bool" where
  "closed_under succs U \<longleftrightarrow> (\<forall>t\<in>U. set (succs t) \<subseteq> U)"

lemma reachable_closed: "closed_under succs U \<Longrightarrow> X \<subseteq> U \<Longrightarrow> reachable succs X \<subseteq> U"
  by (rule reachable_least) (auto simp: closed_under_def)

lemma reachable_rtrancl:
  assumes "closed_under succs U" and "X \<subseteq> U" and F: "\<And>t. t \<in> U \<Longrightarrow> set (succs t) = F `` {t}"
  shows "reachable succs X = F\<^sup>* `` X"
proof
  show "reachable succs X \<subseteq> F\<^sup>* `` X"
  proof
    fix y assume "y \<in> reachable succs X"
    then obtain x where "x \<in> X" "(\<lambda>a b. b \<in> set (succs a))\<^sup>*\<^sup>* x y" by (auto simp: reachable_def)
    from this(2) have "(x, y) \<in> F\<^sup>* \<and> y \<in> U"
    proof (induction rule: rtranclp_induct)
      case base
      with \<open>x \<in> X\<close> assms(2) show ?case by auto
    next
      case (step y z)
      then have "z \<in> U" using assms(1) by (auto simp: closed_under_def)
      moreover have "(y, z) \<in> F" using F [of y] step by auto
      ultimately show ?case using step.IH by (auto intro: rtrancl_into_rtrancl)
    qed
    with \<open>x \<in> X\<close> show "y \<in> F\<^sup>* `` X" by auto
  qed
next
  have "y \<in> reachable succs X" if "(x, y) \<in> F\<^sup>*" "x \<in> X" for x y
    using that
  proof (induction rule: rtrancl_induct)
    case base
    then show ?case using reachable_start [of X succs] by auto
  next
    case (step y z)
    then have "y \<in> U" using reachable_closed [OF assms(1,2)] by auto
    with F [of y] step show ?case using reachable_step [of y succs X z] by auto
  qed
  then show "F\<^sup>* `` X \<subseteq> reachable succs X" by blast
qed

lemma star_list_set:
  assumes closed: "closed_under succs (set U)" and s: "s \<in> set U"
    and F: "\<And>t. t \<in> set U \<Longrightarrow> set (succs t) = F `` {t}"
  shows "set (star_list U succs s b) = (if b then F\<^sup>* `` {s} else F\<^sup>+ `` {s})"
proof -
  have sub: "reachable succs {s} \<subseteq> set U" using reachable_closed [OF closed] s by simp
  then have fin: "finite (reachable succs {s})" by (rule finite_subset) simp
  have "(\<Sum>u\<in>reachable succs {s} - (if b then {s} else {}). 2 * length (succs u) + 6) \<le>
      (\<Sum>u\<in>set U. 2 * length (succs u) + 6)"
    by (rule sum_mono2) (use sub in auto)
  then have "star_fuel succs s b \<le> 5 * ((\<Sum>u\<leftarrow>remdups U. 2 * length (succs u) + 6) + (2 * length (succs s) + 5)) + 5"
    by (cases b) (simp_all add: star_fuel_def iterator_work_def sum_list_distinct_conv_sum_set)
  from star_terms_correct [OF fin this] obtain out
    where "star_terms (5 * ((\<Sum>u\<leftarrow>remdups U. 2 * length (succs u) + 6) + (2 * length (succs s) + 5)) + 5) succs s b = Some out"
      "set out = reachable succs (path_start succs s b)" by blast
  then have "set (star_list U succs s b) = reachable succs (path_start succs s b)"
    unfolding star_list_def Let_def by (simp only: option.case)
  also have "\<dots> = F\<^sup>* `` path_start succs s b"
    by (rule reachable_rtrancl [OF closed _ F]) (use s closed in \<open>auto simp: path_start_def closed_under_def\<close>)
  also have "\<dots> = (if b then F\<^sup>* `` {s} else F\<^sup>+ `` {s})"
    unfolding path_start_def F [OF s] trancl_unfold_left relcomp_Image by simp
  finally show ?thesis .
qed

lemma pairs_list_set:
  assumes closed: "closed_under succs (set U)" and F: "\<And>t. t \<in> set U \<Longrightarrow> set (succs t) = F `` {t}"
  shows "snd ` set starts \<subseteq> set U \<Longrightarrow> global_done succs g \<Longrightarrow>
    set (pairs_list U succs starts g) = {(s, c). \<exists>ob. (s, ob) \<in> set starts \<and> (ob, c) \<in> F\<^sup>*}"
proof (induction starts arbitrary: g)
  case (Cons p starts)
  obtain s ob where p: "p = (s, ob)" by (cases p)
  have ob: "ob \<in> set U" using Cons.prems(1) p by auto
  have sub: "reachable succs {ob} \<subseteq> set U" using reachable_closed [OF closed] ob by simp
  have n: "(\<Sum>u\<in>set U. 2 * length (succs u) + 5) + 2 * length (succs ob) + 5 \<le>
      (\<Sum>u\<leftarrow>remdups U. 2 * length (succs u) + 5) + 2 * length (succs ob) + 5"
    by (simp add: sum_list_distinct_conv_sum_set)
  from pairs_drive_correct [OF _ sub Cons.prems(2) n] obtain st
    where st: "pairs_drive ((\<Sum>u\<leftarrow>remdups U. 2 * length (succs u) + 5) + 2 * length (succs ob) + 5) succs
        (new_pairs ob g) = Some st"
      "set (currentSubject st) = reachable succs {ob}" "global_done succs (global st)" by auto
  have "reachable succs {ob} = F\<^sup>* `` {ob}" by (rule reachable_rtrancl [OF closed _ F]) (use ob in auto)
  then show ?case
    using Cons.IH [OF _ st(3)] Cons.prems(1) st(1,2) by (auto simp: p Let_def)
qed simp

section \<open>The actors\<close>

text \<open>A graph of ground triples over terms that the key of the distinct actor tells apart, and ends over them;
  the two names are those of the nodes actor.\<close>

definition path_world :: "(string list \<Rightarrow> row \<Rightarrow> 'h) \<Rightarrow> rdf_term set \<Rightarrow> triple list \<Rightarrow> bool" where
  "path_world f T G \<longleftrightarrow> ground_data G \<and> tells_apart f T \<and> (\<forall>(a, p, c)\<in>set G. a \<in> T \<and> p \<in> T \<and> c \<in> T)"

definition own_end :: "rdf_term set \<Rightarrow> rdf_term \<Rightarrow> bool" where
  "own_end T t \<longleftrightarrow> t \<noteq> Variable ''__p'' \<and> t \<noteq> Variable ''__x'' \<and> (is_variable t \<or> t \<in> T)"

definition good_ends :: "rdf_term set \<Rightarrow> rdf_term \<Rightarrow> rdf_term \<Rightarrow> bool" where
  "good_ends T s ob \<longleftrightarrow> ends_ok s ob \<and> own_end T s \<and> own_end T ob"

definition computes :: "(string list \<Rightarrow> row \<Rightarrow> 'h) \<Rightarrow> rdf_term set \<Rightarrow> triple list \<Rightarrow> path_expr \<Rightarrow> bool" where
  "computes f T G e \<longleftrightarrow>
     (\<forall>s ob. good_ends T s ob \<longrightarrow> denote (eval_path f G e s ob) (path_solutions (path_pairs G e) s ob))"

lemma computesD: "computes f T G e \<Longrightarrow> good_ends T s ob \<Longrightarrow> denote (eval_path f G e s ob) (path_solutions (path_pairs G e) s ob)"
  by (simp add: computes_def)

lemma ends_ok_const [simp]: "\<not> is_variable t \<Longrightarrow> ends_ok t ob" "\<not> is_variable t \<Longrightarrow> ends_ok s t"
  by (auto simp: ends_ok_def)

lemma good_ends_ok: "good_ends T s ob \<Longrightarrow> ends_ok s ob"
  by (simp add: good_ends_def)

lemma own_end_const [simp]: "\<not> is_variable t \<Longrightarrow> own_end T t \<longleftrightarrow> t \<in> T"
  by (auto simp: own_end_def)

lemma good_step [simp]:
  "\<not> is_variable t \<Longrightarrow> t \<in> T \<Longrightarrow> good_ends T t (Variable step_var)"
  "\<not> is_variable t \<Longrightarrow> t \<in> T \<Longrightarrow> good_ends T (Variable step_var) t"
  by (auto simp: good_ends_def own_end_def step_var_def)

lemma world_ground: "path_world f T G \<Longrightarrow> ground_data G"
  and world_apart: "path_world f T G \<Longrightarrow> tells_apart f T"
  by (simp_all add: path_world_def)

lemma world_node: "path_world f T G \<Longrightarrow> t \<in> set (graph_nodes G) \<Longrightarrow> t \<in> T"
  by (auto simp: path_world_def set_graph_nodes)

lemma set_row_vars: "set (row_vars s ob) = end_vars s \<union> end_vars ob"
  by (cases s; cases ob) (auto simp: row_vars_def)

lemma over_solutions:
  assumes w: "path_world f T G" and ends: "good_ends T s ob" and R: "confined G R"
  shows "over T (row_vars s ob) (path_solutions R s ob)"
  unfolding over_def
proof
  fix m assume m: "m \<in> path_solutions R s ob"
  then have d: "dom m = set (row_vars s ob)" by (simp add: path_solutions_def set_row_vars)
  have given: "t \<in> T" if "given s = Some t \<or> given ob = Some t" for t
    using that ends by (auto simp: good_ends_def own_end_def given_def split: if_splits)
  from m have "(end_value m s, end_value m ob) \<in> R (given s) (given ob)" by (simp add: path_solutions_def)
  from confinedD [OF R this] have vals: "end_value m s \<in> T" "end_value m ob \<in> T"
    using given world_node [OF w] by auto
  have "ran m \<subseteq> T"
  proof
    fix t assume "t \<in> ran m"
    then obtain v where v: "m v = Some t" by (auto simp: ran_def)
    with d have "v \<in> end_vars s \<or> v \<in> end_vars ob" by (auto simp: set_row_vars)
    then have "s = Variable v \<or> ob = Variable v" by (cases s; cases ob) auto
    with v vals show "t \<in> T" by auto
  qed
  with d show "dom m \<subseteq> set (row_vars s ob) \<and> ran m \<subseteq> T" by simp
qed

lemma denoteD: "denote rows M \<Longrightarrow> r \<in> set rows \<Longrightarrow> wf_map r \<and> map_of r \<in> M"
  by (auto simp: denote_def)

lemma denote_Un: "denote rs M \<Longrightarrow> denote qs N \<Longrightarrow> denote (rs @ qs) (M \<union> N)"
  by (auto simp: denote_def image_Un)

lemma denote_concat: "(\<And>x. x \<in> set xs \<Longrightarrow> denote (f x) (M x)) \<Longrightarrow> denote (concat (map f xs)) (\<Union>x\<in>set xs. M x)"
  by (auto simp: denote_def image_UN)

lemma path_solutions_Un:
  "path_solutions (\<lambda>S T. R S T \<union> Q S T) s ob = path_solutions R s ob \<union> path_solutions Q s ob"
  by (auto simp: path_solutions_def)

lemma set_row_terms: "denote rows M \<Longrightarrow> set (row_terms v rows) = {c. \<exists>m\<in>M. m v = Some c}"
  by (auto simp: row_terms_def set_map_filter denote_def)

lemma node_ground: "ground_data G \<Longrightarrow> t \<in> set (graph_nodes G) \<Longrightarrow> \<not> is_variable t"
  by (auto simp: ground_data_def list_all_iff set_graph_nodes)

lemma forward_set:
  assumes "computes f T G e" and "\<not> is_variable t" and "t \<in> T"
  shows "set (row_terms step_var (eval_path f G e t (Variable step_var))) = forward_step (path_pairs G e) `` {t}"
  using set_row_terms [OF computesD [OF assms(1), of t "Variable step_var"]] assms(2,3)
  by (auto simp: path_solutions_right forward_step_def)

lemma backward_set:
  assumes "computes f T G e" and "\<not> is_variable t" and "t \<in> T"
  shows "set (row_terms step_var (eval_path f G e (Variable step_var) t)) = backward_step (path_pairs G e) `` {t}"
  using set_row_terms [OF computesD [OF assms(1), of "Variable step_var" t]] assms(2,3)
  by (auto simp: path_solutions_left backward_step_def)

lemma steps_closed:
  assumes "X \<subseteq> insert t (set (graph_nodes G))" and "set (graph_nodes G) \<subseteq> X"
    and "\<And>u. u \<in> X \<Longrightarrow> set (succs u) = forward_step (path_pairs G e) `` {u}
      \<or> set (succs u) = backward_step (path_pairs G e) `` {u}"
  shows "closed_under succs X"
  unfolding closed_under_def
proof (intro ballI subsetI)
  fix u c assume u: "u \<in> X" and c: "c \<in> set (succs u)"
  then have "(u, c) \<in> path_pairs G e (Some u) None \<or> (c, u) \<in> path_pairs G e None (Some u)"
    using assms(3) [OF u] by (auto simp: forward_step_def backward_step_def)
  then have "c \<in> set (graph_nodes G) \<or> c = u"
    using confinedD [OF path_pairs_confined, of u c G e] confinedD [OF path_pairs_confined, of c u G e] by auto
  with u assms(2) show "c \<in> X" by auto
qed

lemma star_forward:
  assumes e: "computes f T G e" and w: "path_world f T G" and t: "\<not> is_variable t" and T: "t \<in> T"
  shows "set (star_list (t # graph_nodes G) (\<lambda>t. row_terms step_var (eval_path f G e t (Variable step_var))) t b) =
    (if b then (forward_step (path_pairs G e))\<^sup>* `` {t} else (forward_step (path_pairs G e))\<^sup>+ `` {t})"
proof -
  have F: "set (row_terms step_var (eval_path f G e u (Variable step_var))) = forward_step (path_pairs G e) `` {u}"
    if "u \<in> set (t # graph_nodes G)" for u
    using that t T node_ground [OF world_ground [OF w], of u] world_node [OF w, of u] by (intro forward_set [OF e]) auto
  show ?thesis
    by (rule star_list_set [OF steps_closed [where t = t and e = e]]) (use F in auto)
qed

lemma star_backward:
  assumes e: "computes f T G e" and w: "path_world f T G" and t: "\<not> is_variable t" and T: "t \<in> T"
  shows "set (star_list (t # graph_nodes G) (\<lambda>t. row_terms step_var (eval_path f G e (Variable step_var) t)) t b) =
    (if b then (backward_step (path_pairs G e))\<^sup>* `` {t} else (backward_step (path_pairs G e))\<^sup>+ `` {t})"
proof -
  have F: "set (row_terms step_var (eval_path f G e (Variable step_var) u)) = backward_step (path_pairs G e) `` {u}"
    if "u \<in> set (t # graph_nodes G)" for u
    using that t T node_ground [OF world_ground [OF w], of u] world_node [OF w, of u] by (intro backward_set [OF e]) auto
  show ?thesis
    by (rule star_list_set [OF steps_closed [where t = t and e = e]]) (use F in auto)
qed

lemma pairs_forward:
  assumes e: "computes f T G e" and w: "path_world f T G" and starts: "snd ` set starts \<subseteq> set (graph_nodes G)"
  shows "set (pairs_list (graph_nodes G) (\<lambda>t. row_terms step_var (eval_path f G e t (Variable step_var))) starts []) =
    {(s, c). \<exists>ob. (s, ob) \<in> set starts \<and> (ob, c) \<in> (forward_step (path_pairs G e))\<^sup>*}"
proof -
  have F: "set (row_terms step_var (eval_path f G e u (Variable step_var))) = forward_step (path_pairs G e) `` {u}"
    if "u \<in> set (graph_nodes G)" for u
    using node_ground [OF world_ground [OF w] that] world_node [OF w that] by (intro forward_set [OF e])
  have "closed_under (\<lambda>t. row_terms step_var (eval_path f G e t (Variable step_var))) (set (graph_nodes G))"
    by (rule steps_closed [where e = e]) (use F in auto)
  from pairs_list_set [OF this F starts] show ?thesis by (simp add: global_done_def)
qed

lemma inv_rows:
  assumes "computes f T G e"
  shows "computes f T G (P_inv e)"
  unfolding computes_def
proof (intro allI impI)
  fix s ob assume "good_ends T s ob"
  then have "good_ends T ob s" by (auto simp: good_ends_def ends_ok_def)
  from computesD [OF assms this] show "denote (eval_path f G (P_inv e) s ob) (path_solutions (path_pairs G (P_inv e)) s ob)"
    using path_solutions_converse [of "path_pairs G e" s ob] by (simp add: eval_path_eqs path_solutions_def)
qed

lemma alt_rows:
  assumes "\<And>e. e \<in> set es \<Longrightarrow> computes f T G e"
  shows "computes f T G (P_alt es)"
  unfolding computes_def
proof (intro allI impI)
  fix s ob assume "good_ends T s ob"
  from denote_concat [of es "\<lambda>e. eval_path f G e s ob" "\<lambda>e. path_solutions (path_pairs G e) s ob",
      OF computesD [OF assms this]]
  have "denote (eval_path f G (P_alt es) s ob) (\<Union>e\<in>set es. path_solutions (path_pairs G e) s ob)"
    by (simp add: eval_path_eqs)
  moreover have "(\<Union>e\<in>set es. path_solutions (path_pairs G e) s ob) = path_solutions (path_pairs G (P_alt es)) s ob"
    by (auto simp: path_solutions_def)
  ultimately show "denote (eval_path f G (P_alt es) s ob) (path_solutions (path_pairs G (P_alt es)) s ob)" by simp
qed

lemma denote_vars:
  "x \<noteq> y \<Longrightarrow> set ps = R None None \<Longrightarrow>
     denote (map (\<lambda>(a, c). [(x, a), (y, c)]) ps) (path_solutions R (Variable x) (Variable y))"
  by (intro denoteI) (force simp: wf_map_def path_solutions_vars fun_upd_twist image_iff)+

lemma denote_left:
  "\<not> is_variable t \<Longrightarrow> set cs = {a. (a, t) \<in> R None (Some t)} \<Longrightarrow>
     denote (map (\<lambda>c. [(x, c)]) cs) (path_solutions R (Variable x) t)"
  by (intro denoteI) (auto simp: wf_map_def path_solutions_left image_iff)

lemma denote_right:
  "\<not> is_variable t \<Longrightarrow> set cs = {c. (t, c) \<in> R (Some t) None} \<Longrightarrow>
     denote (map (\<lambda>c. [(y, c)]) cs) (path_solutions R t (Variable y))"
  by (intro denoteI) (auto simp: wf_map_def path_solutions_right image_iff)

lemma denote_none:
  "\<not> is_variable t \<Longrightarrow> \<not> is_variable u \<Longrightarrow> u \<in> set cs \<longleftrightarrow> (t, u) \<in> R (Some t) (Some u) \<Longrightarrow>
     denote (List.map_filter (\<lambda>c. if c = u then Some [] else None) cs) (path_solutions R t u)"
  by (intro denoteI) (auto simp: path_solutions_none set_map_filter split: if_splits)


lemma match_triple_blank:
  assumes "ends_ok s ob" and "w \<notin> end_vars s" and "w \<notin> end_vars ob"
  shows "s = Variable x \<Longrightarrow> ob = Variable y \<Longrightarrow>
      match_triple s (Variable w) ob (a, b, c) = Some [(x, a), (w, b), (y, c)]"
    and "s = Variable x \<Longrightarrow> \<not> is_variable ob \<Longrightarrow>
      match_triple s (Variable w) ob (a, b, c) = (if c = ob then Some [(x, a), (w, b)] else None)"
    and "\<not> is_variable s \<Longrightarrow> ob = Variable y \<Longrightarrow>
      match_triple s (Variable w) ob (a, b, c) = (if a = s then Some [(w, b), (y, c)] else None)"
    and "\<not> is_variable s \<Longrightarrow> \<not> is_variable ob \<Longrightarrow>
      match_triple s (Variable w) ob (a, b, c) = (if a = s \<and> c = ob then Some [(w, b)] else None)"
  using assms by (auto simp: match_triple_def match_position_def [of "Variable _"] not_variable_simps ends_ok_def)

lemma deletes_get: "js_get (foldl (\<lambda>r v. js_delete r v) r ws) = js_get r |` (- set ws)"
proof (induction ws arbitrary: r)
  case (Cons w ws)
  show ?case unfolding foldl_Cons Cons js_get_delete by (rule ext) (simp add: restrict_map_def)
qed (simp add: restrict_map_def)

lemma deletes_wf: "wf_map r \<Longrightarrow> wf_map (foldl (\<lambda>r v. js_delete r v) r ws)"
  by (induction ws arbitrary: r) auto

lemma denote_deletes:
  assumes "denote rows M"
  shows "denote (map (\<lambda>r. foldl (\<lambda>r v. js_delete r v) r ws) rows) ((\<lambda>k. k |` (- set ws)) ` M)"
proof (rule denoteI)
  show "wf_map r" if "r \<in> set (map (\<lambda>r. foldl (\<lambda>r v. js_delete r v) r ws) rows)" for r
    using that denoteD [OF assms] deletes_wf by auto
  have "M = map_of ` set rows" using assms by (simp add: denote_def)
  then show "map_of ` set (map (\<lambda>r. foldl (\<lambda>r v. js_delete r v) r ws) rows) = (\<lambda>k. k |` (- set ws)) ` M"
    by (simp only: set_map image_image deletes_get)
qed

text \<open>The nodes of the graph, for a variable that is none of the two of the nodes actor.\<close>

lemma nodes_rows:
  assumes w: "path_world f T G" and x: "x \<noteq> ''__p''" "x \<noteq> ''__x''"
  shows "denote (nodes f G x) {[x \<mapsto> n] | n. n \<in> set (graph_nodes G)}"
proof -
  define M where "M = {[x \<mapsto> a, ''__p'' \<mapsto> p, ''__x'' \<mapsto> c] | a p c. (a, p, c) \<in> set G \<or> (c, p, a) \<in> set G}"
  have ok: "ends_ok (Variable x) (Variable ''__x'')" "ends_ok (Variable ''__x'') (Variable x)"
    using x by (simp_all add: ends_ok_def)
  have 1: "match_triple (Variable x) (Variable ''__p'') (Variable ''__x'') (a, b, c) = Some [(x, a), (''__p'', b), (''__x'', c)]" for a b c
    by (rule match_triple_blank(1) [OF ok(1)]) (use x in auto)
  have 2: "match_triple (Variable ''__x'') (Variable ''__p'') (Variable x) (a, b, c) = Some [(''__x'', a), (''__p'', b), (x, c)]" for a b c
    by (rule match_triple_blank(1) [OF ok(2)]) (use x in auto)
  have get: "map_of [(x, a), (''__p'', b), (''__x'', c)] = [x \<mapsto> a, ''__p'' \<mapsto> b, ''__x'' \<mapsto> c]"
    "map_of [(''__x'', c), (''__p'', b), (x, a)] = [x \<mapsto> a, ''__p'' \<mapsto> b, ''__x'' \<mapsto> c]" for a b c
    using x by (auto simp: fun_eq_iff)
  have rows: "denote (pattern_rows G (Variable x) (Variable ''__p'') (Variable ''__x'') @
      pattern_rows G (Variable ''__x'') (Variable ''__p'') (Variable x)) M"
  proof (rule denoteI)
    show "map_of ` set (pattern_rows G (Variable x) (Variable ''__p'') (Variable ''__x'') @
      pattern_rows G (Variable ''__x'') (Variable ''__p'') (Variable x)) = M"
    proof -
      have rows: "map_of ` {r. \<exists>a b c. (a, b, c) \<in> set G \<and> Some (g a b c) = Some r} =
          {map_of (g a b c) | a b c. (a, b, c) \<in> set G}" for g :: "rdf_term \<Rightarrow> rdf_term \<Rightarrow> rdf_term \<Rightarrow> row"
        by blast
      have "map_of [(''__x'', a), (''__p'', b), (x, c)] = [x \<mapsto> c, ''__p'' \<mapsto> b, ''__x'' \<mapsto> a]" for a b c
        by (rule get(2))
      then show ?thesis
        unfolding set_append image_Un set_pattern_rows 1 2 rows get(1) M_def by auto
    qed
  qed (use x in \<open>auto simp: set_pattern_rows 1 2 wf_map_def\<close>)
  have over: "over T [x, ''__p'', ''__x''] M"
    using w by (auto simp: over_def M_def path_world_def ran_def split: if_splits)
  have "denote (map (\<lambda>r. foldl (\<lambda>r v. js_delete r v) r [''__p'', ''__x''])
      (distinct_rows f [x, ''__p'', ''__x''] (pattern_rows G (Variable x) (Variable ''__p'') (Variable ''__x'') @
        pattern_rows G (Variable ''__x'') (Variable ''__p'') (Variable x))))
      ((\<lambda>k. k |` (- set [''__p'', ''__x''])) ` M)"
    by (rule denote_deletes [OF denote_distinct [OF rows world_apart [OF w] over]])
  moreover have "[x \<mapsto> a, ''__p'' \<mapsto> p, ''__x'' \<mapsto> c] |` (- set [''__p'', ''__x'']) = [x \<mapsto> a]" for a p c
    using x by (auto simp: restrict_map_def fun_eq_iff)
  then have "(\<lambda>k. k |` (- set [''__p'', ''__x''])) ` M = {[x \<mapsto> a] | a p c. (a, p, c) \<in> set G \<or> (c, p, a) \<in> set G}"
    unfolding M_def setcompr_eq_image image_image by (force simp: image_iff)
  then have "(\<lambda>k. k |` (- set [''__p'', ''__x''])) ` M = {[x \<mapsto> n] | n. n \<in> set (graph_nodes G)}"
    unfolding set_graph_nodes by blast
  ultimately show ?thesis by (simp add: nodes_def)
qed

lemma getNodes_rows:
  assumes w: "path_world f T G" and x: "x \<noteq> ''__p''" "x \<noteq> ''__x''" and ne: "x \<noteq> y"
  shows "denote (getNodes f G x y) (path_solutions (zero_pairs G) (Variable x) (Variable y))"
proof (rule denoteI)
  note nodes = nodes_rows [OF w x]
  show "wf_map r" if "r \<in> set (getNodes f G x y)" for r
    using that denoteD [OF nodes] by (auto simp: getNodes_def split: option.split)
  have row: "map_of (case js_get r x of Some t \<Rightarrow> js_set r y t | None \<Rightarrow> r) = (case map_of r x of Some t \<Rightarrow> (map_of r)(y \<mapsto> t) | None \<Rightarrow> map_of r)" for r :: row
    by (cases "js_get r x") simp_all
  have "map_of ` set (getNodes f G x y) =
      (\<lambda>m. case m x of Some t \<Rightarrow> m(y \<mapsto> t) | None \<Rightarrow> m) ` map_of ` set (nodes f G x)"
    unfolding getNodes_def set_map image_image row ..
  also have "map_of ` set (nodes f G x) = {[x \<mapsto> n] | n. n \<in> set (graph_nodes G)}"
    using nodes by (simp add: denote_def)
  also have "(\<lambda>m. case m x of Some t \<Rightarrow> m(y \<mapsto> t) | None \<Rightarrow> m) ` \<dots> = path_solutions (zero_pairs G) (Variable x) (Variable y)"
    unfolding path_solutions_vars [OF ne] by (force simp: zero_pairs_def Id_on_def image_iff)
  finally show "map_of ` set (getNodes f G x y) = path_solutions (zero_pairs G) (Variable x) (Variable y)" .
qed

lemma zero_or_one_rows:
  assumes e: "computes f T G e" and w: "path_world f T G"
  shows "computes f T G (P_zero_or_one e)"
  unfolding computes_def
proof (intro allI impI)
  fix s ob assume ends: "good_ends T s ob"
  note tail = computesD [OF e ends]
  have split: "path_solutions (path_pairs G (P_zero_or_one e)) s ob =
      path_solutions (zero_pairs G) s ob \<union> path_solutions (path_pairs G e) s ob"
    by (auto simp: path_solutions_def)
  have all: "denote (distinct_rows f (row_vars s ob) (rows @ eval_path f G e s ob))
      (path_solutions (path_pairs G (P_zero_or_one e)) s ob)"
    if "denote rows (path_solutions (zero_pairs G) s ob)" for rows
    using denote_distinct [OF denote_Un [OF that tail] world_apart [OF w]] over_solutions [OF w ends path_pairs_confined]
    unfolding split [symmetric] by blast
  show "denote (eval_path f G (P_zero_or_one e) s ob) (path_solutions (path_pairs G (P_zero_or_one e)) s ob)"
  proof (cases s rule: variable_cases)
    case s: (var x)
    show ?thesis
    proof (cases ob rule: variable_cases)
      case ob: (var y)
      from s ob ends have "x \<noteq> ''__p''" "x \<noteq> ''__x''" "x \<noteq> y"
        by (auto simp: good_ends_def ends_ok_def own_end_def)
      from all [unfolded s ob, OF getNodes_rows [OF w this]] show ?thesis
        unfolding s ob eval_path_eqs by simp
    next
      case ob: const
      have "denote (map (\<lambda>c. [(x, c)]) [ob]) (path_solutions (zero_pairs G) s ob)"
        unfolding s by (rule denote_left [OF ob]) (auto simp: zero_pairs_def)
      from all [OF this] show ?thesis using ob by (simp add: eval_path_eqs s)
    qed
  next
    case s: const
    show ?thesis
    proof (cases ob rule: variable_cases)
      case ob: (var y)
      have "denote (map (\<lambda>c. [(y, c)]) [s]) (path_solutions (zero_pairs G) s ob)"
        unfolding ob by (rule denote_right [OF s]) (auto simp: zero_pairs_def)
      from all [OF this] show ?thesis using s by (simp add: eval_path_eqs ob)
    next
      case ob: const
      show ?thesis
      proof (cases "s = ob")
        case True
        then show ?thesis
          using s ob by (simp add: eval_path_eqs path_solutions_none zero_pairs_def denote_def)
      next
        case False
        have "denote [] (path_solutions (zero_pairs G) s ob)"
          using False by (simp add: denote_def path_solutions_none [OF s ob] zero_pairs_def)
        from all [OF this] show ?thesis using False s ob by (simp add: eval_path_eqs)
      qed
    qed
  qed
qed

lemma node_terms:
  assumes "path_world f T G" and "x \<noteq> ''__p''" and "x \<noteq> ''__x''" and ne: "x \<noteq> y"
  shows "set (row_terms x (getNodes f G x y)) = set (graph_nodes G)"
proof -
  have "{c. \<exists>m\<in>(\<lambda>(a, c). [x \<mapsto> a, y \<mapsto> c]) ` Id_on (set (graph_nodes G)). m x = Some c} = set (graph_nodes G)"
    using ne by (auto simp: Id_on_def)
  then show ?thesis
    using set_row_terms [OF getNodes_rows [OF assms], of x] by (simp add: path_solutions_vars [OF ne] zero_pairs_def)
qed

lemma bindings_of_two [simp]:
  "x \<noteq> y \<Longrightarrow> bindings_of [(x, a), (y, c)] = [(x, a), (y, c)]"
  by (simp add: bindings_of_def)

lemma zero_or_more_rows:
  assumes e: "computes f T G e" and w: "path_world f T G"
  shows "computes f T G (P_zero_or_more e)"
  unfolding computes_def
proof (intro allI impI)
  fix s ob assume ends: "good_ends T s ob"
  note over = over_solutions [OF w ends path_pairs_confined, of "P_zero_or_more e"]
  note once = denote_distinct [OF _ world_apart [OF w] over]
  show "denote (eval_path f G (P_zero_or_more e) s ob) (path_solutions (path_pairs G (P_zero_or_more e)) s ob)"
  proof (cases s rule: variable_cases)
    case s: (var x)
    show ?thesis
    proof (cases ob rule: variable_cases)
      case ob: (var y)
      from s ob ends have ne: "x \<noteq> y" and x: "x \<noteq> ''__p''" "x \<noteq> ''__x''"
        by (auto simp: good_ends_def ends_ok_def own_end_def)
      have "set (pairs_list (graph_nodes G) (\<lambda>t. row_terms step_var (eval_path f G e t (Variable step_var)))
            (map (\<lambda>n. (n, n)) (row_terms x (getNodes f G x y))) []) = path_pairs G (P_zero_or_more e) None None"
        using pairs_forward [OF e w, of "map (\<lambda>n. (n, n)) (row_terms x (getNodes f G x y))"] node_terms [OF w x ne]
        by (simp add: closure_pairs_def image_image) (auto simp: image_iff)
      from once [unfolded s ob, OF denote_vars [where R = "path_pairs G (P_zero_or_more e)", OF ne this]] show ?thesis
        unfolding s ob eval_path_eqs by (simp add: ne del: path_pairs.simps)
    next
      case ob: const
      have T: "ob \<in> T" using ends ob by (simp add: good_ends_def)
      have "set (star_list (ob # graph_nodes G) (\<lambda>t. row_terms step_var (eval_path f G e (Variable step_var) t)) ob True) =
          {a. (a, ob) \<in> path_pairs G (P_zero_or_more e) None (Some ob)}"
        by (subst star_backward [OF e w ob T]) (auto simp: closure_pairs_def)
      from once [unfolded s, OF denote_left [where R = "path_pairs G (P_zero_or_more e)", OF ob this]] show ?thesis
        unfolding s eval_path_eqs by (simp add: Let_def ob del: path_pairs.simps)
    qed
  next
    case s: const
    have T: "s \<in> T" using ends s by (simp add: good_ends_def)
    note star = star_forward [OF e w s T, of True]
    show ?thesis
    proof (cases ob rule: variable_cases)
      case ob: (var y)
      have "set (star_list (s # graph_nodes G) (\<lambda>t. row_terms step_var (eval_path f G e t (Variable step_var))) s True) =
          {c. (s, c) \<in> path_pairs G (P_zero_or_more e) (Some s) None}"
        unfolding star by (auto simp: closure_pairs_def)
      from once [unfolded ob, OF denote_right [where R = "path_pairs G (P_zero_or_more e)", OF s this]] show ?thesis
        unfolding ob eval_path_eqs by (simp add: Let_def s del: path_pairs.simps)
    next
      case ob: const
      have "ob \<in> set (star_list (s # graph_nodes G) (\<lambda>t. row_terms step_var (eval_path f G e t (Variable step_var))) s True)
          \<longleftrightarrow> (s, ob) \<in> path_pairs G (P_zero_or_more e) (Some s) (Some ob)"
        unfolding star by (auto simp: closure_pairs_def)
      from once [OF denote_none [where R = "path_pairs G (P_zero_or_more e)", OF s ob this]] show ?thesis
        unfolding eval_path_eqs by (simp add: Let_def s ob del: path_pairs.simps)
    qed
  qed
qed

lemma start_pairs:
  assumes "x \<noteq> y" and rows: "denote rows (path_solutions R (Variable x) (Variable y))"
  shows "set (List.map_filter (\<lambda>r. case (js_get r x, js_get r y) of (Some a, Some c) \<Rightarrow> Some (a, c) | _ \<Rightarrow> None) rows) =
    R None None"
proof -
  have get: "map_of ` set rows = (\<lambda>(a, c). [x \<mapsto> a, y \<mapsto> c]) ` R None None"
    using rows assms(1) by (simp add: denote_def path_solutions_vars)
  have "set (List.map_filter (\<lambda>r. case (js_get r x, js_get r y) of (Some a, Some c) \<Rightarrow> Some (a, c) | _ \<Rightarrow> None) rows) =
      {p. \<exists>m\<in>map_of ` set rows. (case (m x, m y) of (Some a, Some c) \<Rightarrow> Some (a, c) | _ \<Rightarrow> None) = Some p}"
    by (auto simp: set_map_filter)
  also have "\<dots> = R None None"
    unfolding get using assms(1) by (auto simp: split_def)
  finally show ?thesis .
qed

lemma row_terms_distinct:
  assumes "tells_apart f T" and "set cs \<subseteq> T"
  shows "set (row_terms v (distinct_rows f [v] (map (\<lambda>c. [(v, c)]) cs))) = set cs"
proof -
  have rows: "denote (map (\<lambda>c. [(v, c)]) cs) {[v \<mapsto> c] | c. c \<in> set cs}"
    by (intro denoteI) (auto simp: wf_map_def image_iff)
  have over: "over T [v] {[v \<mapsto> c] | c. c \<in> set cs}"
    using assms(2) by (auto simp: over_def split: if_splits)
  from set_row_terms [OF denote_distinct [OF rows assms(1) over], of v] show ?thesis by auto
qed

lemma one_or_more_pairs:
  assumes e: "computes f T G e" and w: "path_world f T G" and ends: "good_ends T (Variable x) (Variable y)"
  shows "set (pairs_list (graph_nodes G) (\<lambda>t. row_terms step_var (eval_path f G e t (Variable step_var)))
      (List.map_filter (\<lambda>r. case (js_get r x, js_get r y) of (Some a, Some c) \<Rightarrow> Some (a, c) | _ \<Rightarrow> None)
        (distinct_rows f (row_vars (Variable x) (Variable y)) (eval_path f G e (Variable x) (Variable y)))) []) =
    path_pairs G (P_one_or_more e) None None"
proof -
  have ne: "x \<noteq> y" using ends by (auto simp: good_ends_def ends_ok_def)
  note over = over_solutions [OF w ends path_pairs_confined]
  define starts where "starts = List.map_filter
    (\<lambda>r. case (js_get r x, js_get r y) of (Some a, Some c) \<Rightarrow> Some (a, c) | _ \<Rightarrow> None)
    (distinct_rows f (row_vars (Variable x) (Variable y)) (eval_path f G e (Variable x) (Variable y)))"
  have set: "set starts = path_pairs G e None None"
    unfolding starts_def by (rule start_pairs [OF ne denote_distinct [OF computesD [OF e ends] world_apart [OF w] over]])
  have node: "a \<in> set (graph_nodes G) \<and> c \<in> set (graph_nodes G)" if "(a, c) \<in> path_pairs G e None None" for a c
    using confinedD [OF path_pairs_confined that] by simp
  have step: "(a, c) \<in> path_pairs G e None None \<longleftrightarrow> a \<in> set (graph_nodes G) \<and> (a, c) \<in> forward_step (path_pairs G e)" for a c
    using node [of a c] steps_between_nodes(1) [OF path_pairs_confined path_pairs_restricts, of a G c e] by blast
  have "snd ` set starts \<subseteq> set (graph_nodes G)" unfolding set using node by auto
  from pairs_forward [OF e w this] have "set (pairs_list (graph_nodes G)
      (\<lambda>t. row_terms step_var (eval_path f G e t (Variable step_var))) starts []) =
    {(s, c). s \<in> set (graph_nodes G) \<and> (s, c) \<in> (forward_step (path_pairs G e))\<^sup>+}"
    unfolding set step trancl_unfold_left by blast
  then show ?thesis unfolding starts_def by (simp add: closure_pairs_def)
qed

lemma one_or_more_rows:
  assumes e: "computes f T G e" and w: "path_world f T G"
  shows "computes f T G (P_one_or_more e)"
  unfolding computes_def
proof (intro allI impI)
  fix s ob assume ends: "good_ends T s ob"
  note over = over_solutions [OF w ends path_pairs_confined, of "P_one_or_more e"]
  note once = denote_distinct [OF _ world_apart [OF w] over]
  show "denote (eval_path f G (P_one_or_more e) s ob) (path_solutions (path_pairs G (P_one_or_more e)) s ob)"
  proof (cases s rule: variable_cases)
    case s: (var x)
    show ?thesis
    proof (cases ob rule: variable_cases)
      case ob: (var y)
      from s ob ends have ne: "x \<noteq> y" and x: "x \<noteq> ''__p''" "x \<noteq> ''__x''"
        by (auto simp: good_ends_def ends_ok_def own_end_def)
      from once [unfolded s ob, OF denote_vars [where R = "path_pairs G (P_one_or_more e)", OF ne one_or_more_pairs [OF e w ends [unfolded s ob]]]] show ?thesis
        unfolding s ob eval_path_eqs by (simp add: ne del: path_pairs.simps)
    next
      case ob: const
      have T: "ob \<in> T" using ends ob by (simp add: good_ends_def)
      have "set (star_list (ob # graph_nodes G) (\<lambda>t. row_terms step_var (eval_path f G e (Variable step_var) t)) ob False) =
          {a. (a, ob) \<in> path_pairs G (P_one_or_more e) None (Some ob)}"
        by (subst star_backward [OF e w ob T]) (auto simp: closure_pairs_def)
      from once [unfolded s, OF once [unfolded s, OF denote_left [where R = "path_pairs G (P_one_or_more e)", OF ob this]]] show ?thesis
        unfolding s eval_path_eqs by (simp add: Let_def ob del: path_pairs.simps)
    qed
  next
    case s: const
    have T: "s \<in> T" using ends s by (simp add: good_ends_def)
    note star = star_forward [OF e w s T, of False]
    have starT: "set (star_list (s # graph_nodes G) (\<lambda>t. row_terms step_var (eval_path f G e t (Variable step_var))) s False) \<subseteq> T"
      unfolding star using steps_confined(1) [OF path_pairs_confined, of s _ G e] world_node [OF w] T
      by (auto dest!: trancl_into_rtrancl)
    show ?thesis
    proof (cases ob rule: variable_cases)
      case ob: (var y)
      have "set (star_list (s # graph_nodes G) (\<lambda>t. row_terms step_var (eval_path f G e t (Variable step_var))) s False) =
          {c. (s, c) \<in> path_pairs G (P_one_or_more e) (Some s) None}"
        unfolding star by (auto simp: closure_pairs_def)
      from once [unfolded ob, OF denote_right [where R = "path_pairs G (P_one_or_more e)", OF s this]] show ?thesis
        unfolding ob eval_path_eqs by (simp add: Let_def s del: path_pairs.simps)
    next
      case ob: const
      have "ob \<in> set (row_terms step_var (distinct_rows f [step_var] (map (\<lambda>c. [(step_var, c)])
            (star_list (s # graph_nodes G) (\<lambda>t. row_terms step_var (eval_path f G e t (Variable step_var))) s False))))
          \<longleftrightarrow> (s, ob) \<in> path_pairs G (P_one_or_more e) (Some s) (Some ob)"
        using row_terms_distinct [OF world_apart [OF w] starT] star by (auto simp: closure_pairs_def)
      from once [OF denote_none [where R = "path_pairs G (P_one_or_more e)", OF s ob this]] show ?thesis
        unfolding eval_path_eqs by (simp add: Let_def s ob del: path_pairs.simps)
    qed
  qed
qed

subsection \<open>Generated variables\<close>

lemma generateVariable_fresh: "generateVariable s ob name \<noteq> term_value s \<and> generateVariable s ob name \<noteq> term_value ob"
proof (induction s ob name rule: generateVariable.induct)
  case (1 s ob name)
  then show ?case by (subst (1 2) generateVariable.simps) auto
qed

lemma generateVariable_extends: "\<exists>k. generateVariable s ob name = name @ replicate k CHR ''b''"
proof (induction s ob name rule: generateVariable.induct)
  case (1 s ob name)
  show ?case
  proof (cases "term_value s = name \<or> term_value ob = name")
    case True
    from 1 [OF this] obtain k where "generateVariable s ob (name @ ''b'') = (name @ ''b'') @ replicate k CHR ''b''" ..
    with True have "generateVariable s ob name = name @ replicate (Suc k) CHR ''b''"
      by (subst generateVariable.simps) simp
    then show ?thesis ..
  next
    case False
    then have "generateVariable s ob name = name @ replicate 0 CHR ''b''" by (subst generateVariable.simps) simp
    then show ?thesis ..
  qed
qed

lemma digit_char_inj: "i < 10 \<Longrightarrow> j < 10 \<Longrightarrow> digit_char i = digit_char j \<Longrightarrow> i = j"
  unfolding digit_char_def by (drule arg_cong [where f = "of_char :: char \<Rightarrow> nat"]) simp

lemma digit_not_b: "i < 10 \<Longrightarrow> digit_char i \<noteq> CHR ''b''"
proof
  assume "i < 10" "digit_char i = CHR ''b''"
  from arg_cong [OF this(2), of "of_char :: char \<Rightarrow> nat"] this(1) show False by (simp add: digit_char_def)
qed

lemma nat_string_no_b: "CHR ''b'' \<notin> set (nat_string n)"
proof (induction n rule: nat_string.induct)
  case (1 n)
  then show ?case by (subst nat_string.simps) (auto simp: digit_not_b [THEN not_sym])
qed

lemma nat_string_nonempty: "nat_string n \<noteq> []"
  by (subst nat_string.simps) simp

lemma nat_string_inj: "nat_string m = nat_string n \<Longrightarrow> m = n"
proof (induction m arbitrary: n rule: nat_string.induct)
  case (1 m)
  show ?case
  proof (cases "m < 10 \<or> n < 10")
    case True
    with 1(2) show ?thesis
      by (subst (asm) (1 2) nat_string.simps) (auto split: if_splits simp: nat_string_nonempty nat_string_nonempty [THEN not_sym] intro: digit_char_inj)
  next
    case False
    with 1(2) have "nat_string (m div 10) = nat_string (n div 10)" "digit_char (m mod 10) = digit_char (n mod 10)"
      by (subst (asm) (1 2) nat_string.simps, simp)+
    with 1(1) [of "n div 10"] False digit_char_inj [of "m mod 10" "n mod 10"] have "m div 10 = n div 10" "m mod 10 = n mod 10"
      by auto
    then show ?thesis by (metis div_mult_mod_eq)
  qed
qed

lemma nat_string_part: "takeWhile (\<lambda>c. c \<noteq> CHR ''b'') (nat_string n @ replicate k CHR ''b'') = nat_string n"
  using nat_string_no_b [of n] by (subst takeWhile_append2; cases k) auto

lemma generated_distinct: "distinct (map (\<lambda>i. generateVariable s ob (''b'' @ nat_string i)) [0..<n])"
proof -
  have "i = j" if eq: "generateVariable s ob (''b'' @ nat_string i) = generateVariable s ob (''b'' @ nat_string j)" for i j
  proof -
    obtain k l where "generateVariable s ob (''b'' @ nat_string i) = (''b'' @ nat_string i) @ replicate k CHR ''b''"
      "generateVariable s ob (''b'' @ nat_string j) = (''b'' @ nat_string j) @ replicate l CHR ''b''"
      using generateVariable_extends by metis
    with eq have "nat_string i @ replicate k CHR ''b'' = nat_string j @ replicate l CHR ''b''" by simp
    from arg_cong [OF this, of "takeWhile (\<lambda>c. c \<noteq> CHR ''b'')"]
    show ?thesis unfolding nat_string_part by (rule nat_string_inj)
  qed
  then show ?thesis by (auto simp: distinct_map inj_on_def)
qed

subsection \<open>Negated property sets\<close>

lemma delete_other: "w \<notin> fst ` set l \<Longrightarrow> filter (\<lambda>(k, _). w \<noteq> k) l = l"
  by (induction l) auto

lemma set_nps_rows:
  assumes "\<And>a b c. match_triple s (Variable w) ob (a, b, c) = map_option (\<lambda>(l, r). l @ (w, b) # r) (f a c)"
    and "\<And>a c l r. f a c = Some (l, r) \<Longrightarrow> w \<notin> fst ` set l \<and> w \<notin> fst ` set r"
  shows "set (List.map_filter
      (\<lambda>r. if list_ex (\<lambda>iri. js_get r w = Some iri) iris then None else Some (js_delete r w))
      (pattern_rows G s (Variable w) ob)) =
    {q. \<exists>a b c l r. (a, b, c) \<in> set G \<and> b \<notin> set iris \<and> f a c = Some (l, r) \<and> q = l @ r}"
proof -
  have "js_delete (l @ (w, b) # r) w = l @ r" if "f a c = Some (l, r)" for a b c l r
    using assms(2) [OF that] by (simp add: AList.delete_eq delete_other)
  moreover have "js_get (l @ (w, b) # r) w = Some b" if "f a c = Some (l, r)" for a b c l r
    using assms(2) [OF that] by (simp add: map_of_append map_add_Some_iff map_of_eq_None_iff)
  ultimately have keep: "(if list_ex (\<lambda>iri. js_get (l @ (w, b) # r) w = Some iri) iris then None
      else Some (js_delete (l @ (w, b) # r) w)) = (if b \<in> set iris then None else Some (l @ r))"
    if "f a c = Some (l, r)" for a b c l r using that by (auto simp: list_ex_iff)
  have rows: "set (pattern_rows G s (Variable w) ob) =
      {q. \<exists>a b c l r. (a, b, c) \<in> set G \<and> f a c = Some (l, r) \<and> q = l @ (w, b) # r}"
    unfolding set_pattern_rows assms(1) map_option_eq_Some split_paired_Ex prod.case by blast
  show ?thesis
    unfolding set_map_filter rows
  proof (rule set_eqI, rule iffI)
    fix q
    assume "q \<in> {y. \<exists>x\<in>{q. \<exists>a b c l r. (a, b, c) \<in> set G \<and> f a c = Some (l, r) \<and> q = l @ (w, b) # r}.
      (if list_ex (\<lambda>iri. js_get x w = Some iri) iris then None else Some (js_delete x w)) = Some y}"
    then obtain a b c l r where 1: "(a, b, c) \<in> set G" "f a c = Some (l, r)"
      and "(if list_ex (\<lambda>iri. js_get (l @ (w, b) # r) w = Some iri) iris then None
        else Some (js_delete (l @ (w, b) # r) w)) = Some q" by blast
    with keep [OF 1(2)] have "b \<notin> set iris \<and> q = l @ r" by (simp split: if_splits)
    with 1 show "q \<in> {q. \<exists>a b c l r. (a, b, c) \<in> set G \<and> b \<notin> set iris \<and> f a c = Some (l, r) \<and> q = l @ r}" by blast
  next
    fix q
    assume "q \<in> {q. \<exists>a b c l r. (a, b, c) \<in> set G \<and> b \<notin> set iris \<and> f a c = Some (l, r) \<and> q = l @ r}"
    then obtain a b c l r where 1: "(a, b, c) \<in> set G" "f a c = Some (l, r)" "b \<notin> set iris" "q = l @ r" by blast
    have "(if list_ex (\<lambda>iri. js_get (l @ (w, b) # r) w = Some iri) iris then None
        else Some (js_delete (l @ (w, b) # r) w)) = Some q" unfolding keep [OF 1(2)] using 1 by simp
    with 1 show "q \<in> {y. \<exists>x\<in>{q. \<exists>a b c l r. (a, b, c) \<in> set G \<and> f a c = Some (l, r) \<and> q = l @ (w, b) # r}.
      (if list_ex (\<lambda>iri. js_get x w = Some iri) iris then None else Some (js_delete x w)) = Some y}" by blast
  qed
qed

lemma nps_rows: "computes f T G (P_nps iris)"
  unfolding computes_def
proof (intro allI impI)
  fix s ob assume "good_ends T s ob"
  then have ends: "ends_ok s ob" by (rule good_ends_ok)
  define w where "w = generateVariable s ob ''b''"
  have "w \<noteq> term_value s \<and> w \<noteq> term_value ob" unfolding w_def by (rule generateVariable_fresh)
  then have w: "w \<notin> end_vars s" "w \<notin> end_vars ob" by (cases s; cases ob; simp)+
  note mt = match_triple_blank [OF ends w]
  note eval = eval_path_eqs(5) [of f G iris s ob, folded w_def, unfolded Let_def]
  show "denote (eval_path f G (P_nps iris) s ob) (path_solutions (path_pairs G (P_nps iris)) s ob)"
  proof (cases s rule: variable_cases)
    case s: (var x)
    show ?thesis
    proof (cases ob rule: variable_cases)
      case ob: (var y)
      with s ends have ne: "x \<noteq> y" by (auto simp: ends_ok_def)
      have "set (eval_path f G (P_nps iris) s ob) = {[(x, a), (y, c)] | a c. \<exists>b. (a, b, c) \<in> set G \<and> b \<notin> set iris}"
        unfolding eval
        by (subst set_nps_rows [where f = "\<lambda>a c. Some ([(x, a)], [(y, c)])"])
          (use mt(1) [OF s ob] w s ob in \<open>auto split: if_splits\<close>)
      then show ?thesis
        unfolding s ob path_solutions_vars [OF ne] using ne
        by (intro denoteI) (force simp: wf_map_def image_iff fun_upd_twist)+
    next
      case ob: const
      have "set (eval_path f G (P_nps iris) s ob) = {[(x, a)] | a. \<exists>b. (a, b, ob) \<in> set G \<and> b \<notin> set iris}"
        unfolding eval
        by (subst set_nps_rows [where f = "\<lambda>a c. if c = ob then Some ([(x, a)], []) else None"])
          (use mt(2) [OF s ob] w s in \<open>auto split: if_splits\<close>)
      then show ?thesis
        unfolding s path_solutions_left [OF ob] by (intro denoteI) (force simp: wf_map_def image_iff)+
    qed
  next
    case s: const
    show ?thesis
    proof (cases ob rule: variable_cases)
      case ob: (var y)
      have "set (eval_path f G (P_nps iris) s ob) = {[(y, c)] | c. \<exists>b. (s, b, c) \<in> set G \<and> b \<notin> set iris}"
        unfolding eval
        by (subst set_nps_rows [where f = "\<lambda>a c. if a = s then Some ([], [(y, c)]) else None"])
          (use mt(3) [OF s ob] w ob in \<open>auto split: if_splits\<close>)
      then show ?thesis
        unfolding ob path_solutions_right [OF s] by (intro denoteI) (force simp: wf_map_def image_iff)+
    next
      case ob: const
      have "set (eval_path f G (P_nps iris) s ob) = {[] | b. (s, b, ob) \<in> set G \<and> b \<notin> set iris}"
        unfolding eval
        by (subst set_nps_rows [where f = "\<lambda>a c. if a = s \<and> c = ob then Some ([], []) else None"])
          (use mt(4) [OF s ob] in \<open>auto split: if_splits\<close>)
      then show ?thesis
        unfolding path_solutions_none [OF s ob] by (intro denoteI) (force simp: wf_map_def image_iff)+
    qed
  qed
qed

subsection \<open>Sequences\<close>

definition agree :: "('k \<rightharpoonup> 'v) \<Rightarrow> ('k \<rightharpoonup> 'v) \<Rightarrow> bool" where
  "agree m n \<longleftrightarrow> (\<forall>v a b. m v = Some a \<longrightarrow> n v = Some b \<longrightarrow> a = b)"

lemma merge_rows_agree:
  "wf_map r \<Longrightarrow> wf_map q \<Longrightarrow>
     (case merge_rows r q of None \<Rightarrow> \<not> agree (map_of r) (map_of q)
      | Some k \<Rightarrow> agree (map_of r) (map_of q) \<and> wf_map k \<and> map_of k = map_of r ++ map_of q)"
proof (induction r q rule: merge_rows.induct)
  case (1 r)
  then show ?case by (simp add: agree_def)
next
  case (2 r v t es)
  define M where "M = map_of ((v, t) # es)"
  have v: "map_of es v = None" and wf: "wf_map es" using 2(4) by (auto simp: wf_map_def map_of_eq_None_iff)
  have M: "M = (map_of es)(v \<mapsto> t)" by (simp add: M_def)
  have add: "(map_of r)(v \<mapsto> t) ++ map_of es = map_of r ++ M"
    using v by (auto simp: M map_add_def split: option.split)
  show ?case
  proof (cases "js_get r v")
    case None
    have "agree ((map_of r)(v \<mapsto> t)) (map_of es) = agree (map_of r) M"
      using None v by (auto simp: agree_def M)
    with 2(1) [OF None _ wf] 2(3) None add show ?thesis unfolding M_def [symmetric] by (simp split: option.splits)
  next
    case (Some t')
    show ?thesis
    proof (cases "t' = t")
      case True
      have r: "(map_of r)(v \<mapsto> t) = map_of r" using Some True by auto
      have "agree (map_of r) (map_of es) = agree (map_of r) M"
        using Some True v unfolding agree_def M fun_upd_apply by (metis option.distinct(1) option.inject)
      with 2(2) [OF Some True 2(3) wf] Some True add r show ?thesis unfolding M_def [symmetric]
        by (simp split: option.splits)
    next
      case False
      with Some have "\<not> agree (map_of r) M" by (auto simp: agree_def M)
      with Some False show ?thesis unfolding M_def [symmetric] by simp
    qed
  qed
qed

lemma set_join_rows: "set (join_rows rs qs) = {k. \<exists>r\<in>set rs. \<exists>q\<in>set qs. merge_rows r q = Some k}"
  by (auto simp: join_rows_def set_map_filter)

lemma restrict_add:
  assumes "agree m n" and "dom m = D" and "dom n = E"
  shows "(m ++ n) |` D = m" and "(m ++ n) |` E = n"
proof -
  show "(m ++ n) |` D = m"
  proof
    fix v
    have "m v = n v" if "m v \<noteq> None" "n v \<noteq> None" using assms(1) that by (auto simp: agree_def)
    moreover have "v \<in> D \<longleftrightarrow> m v \<noteq> None" using assms(2) by auto
    ultimately show "((m ++ n) |` D) v = m v"
      by (cases "m v"; cases "n v") (auto simp: restrict_map_def map_add_def)
  qed
  show "(m ++ n) |` E = n"
  proof
    fix v show "((m ++ n) |` E) v = n v"
      using assms(3) by (cases "n v") (auto simp: restrict_map_def map_add_def)
  qed
qed

lemma add_restrict:
  assumes "dom k = D \<union> E"
  shows "k |` D ++ k |` E = k" and "agree (k |` D) (k |` E)"
proof -
  show "k |` D ++ k |` E = k"
  proof
    fix v show "(k |` D ++ k |` E) v = k v"
      using assms by (cases "k v") (auto simp: restrict_map_def map_add_def)
  qed
  show "agree (k |` D) (k |` E)" by (auto simp: agree_def restrict_map_def split: if_splits)
qed

lemma denote_join:
  assumes rs: "denote rs {m. dom m = D \<and> P m}" and qs: "denote qs {n. dom n = E \<and> Q n}"
  shows "denote (join_rows rs qs) {k. dom k = D \<union> E \<and> P (k |` D) \<and> Q (k |` E)}"
proof (rule denoteI)
  have merge: "agree (map_of r) (map_of q) \<and> wf_map k \<and> map_of k = map_of r ++ map_of q"
    if "r \<in> set rs" "q \<in> set qs" "merge_rows r q = Some k" for r q k
  proof -
    have "wf_map r" "wf_map q" using denoteD [OF rs that(1)] denoteD [OF qs that(2)] by auto
    from merge_rows_agree [OF this] that(3) show ?thesis by simp
  qed
  show "wf_map k" if "k \<in> set (join_rows rs qs)" for k using that merge unfolding set_join_rows by blast
  show "map_of ` set (join_rows rs qs) = {k. dom k = D \<union> E \<and> P (k |` D) \<and> Q (k |` E)}"
  proof (rule set_eqI, rule iffI)
    fix k assume "k \<in> map_of ` set (join_rows rs qs)"
    then obtain r q where rq: "r \<in> set rs" "q \<in> set qs" and a: "agree (map_of r) (map_of q)"
      and k: "k = map_of r ++ map_of q" using merge unfolding set_join_rows by blast
    have r: "dom (map_of r) = D" "P (map_of r)" using denoteD [OF rs rq(1)] by auto
    have q: "dom (map_of q) = E" "Q (map_of q)" using denoteD [OF qs rq(2)] by auto
    from restrict_add [OF a r(1) q(1)] r q show "k \<in> {k. dom k = D \<union> E \<and> P (k |` D) \<and> Q (k |` E)}"
      by (auto simp: k)
  next
    fix k assume "k \<in> {k. dom k = D \<union> E \<and> P (k |` D) \<and> Q (k |` E)}"
    then have k: "dom k = D \<union> E" "P (k |` D)" "Q (k |` E)" by auto
    then have "k |` D \<in> {m. dom m = D \<and> P m}" "k |` E \<in> {n. dom n = E \<and> Q n}" by auto
    then have "k |` D \<in> map_of ` set rs" "k |` E \<in> map_of ` set qs"
      using rs qs unfolding denote_def by blast+
    then obtain r q where r: "r \<in> set rs" "map_of r = k |` D" and q: "q \<in> set qs" "map_of q = k |` E" unfolding image_iff by metis
    have "wf_map r" "wf_map q" using denoteD [OF rs r(1)] denoteD [OF qs q(1)] by auto
    from merge_rows_agree [OF this] add_restrict [OF k(1)] obtain j
      where "merge_rows r q = Some j" "map_of j = k" by (auto simp: r(2) q(2) split: option.splits)
    with r(1) q(1) show "k \<in> map_of ` set (join_rows rs qs)" by (force simp: set_join_rows)
  qed
qed

lemma denote_joins:
  assumes "list_all2 (\<lambda>rows (D, Q). denote rows {n. dom n = D \<and> Q n}) entries parts"
  shows "denote acc {k. dom k = D0 \<and> P k} \<Longrightarrow>
    denote (foldl join_rows acc entries)
      {k. dom k = D0 \<union> (\<Union>p\<in>set parts. fst p) \<and> P (k |` D0) \<and> (\<forall>(D, Q)\<in>set parts. Q (k |` D))}"
  using assms
proof (induction entries parts arbitrary: acc D0 P rule: list_all2_induct)
  case Nil
  have "k |` dom k = k" for k :: "string \<rightharpoonup> rdf_term" by (rule ext) (auto simp: restrict_map_def domIff)
  then have "{k. dom k = D0 \<and> P (k |` D0)} = {k. dom k = D0 \<and> P k}" by auto
  with Nil show ?case by simp
next
  case (Cons rows entries p parts)
  obtain D Q where p: "p = (D, Q)" by (cases p)
  from Cons have "denote rows {n. dom n = D \<and> Q n}" by (simp add: p)
  from Cons.IH [OF denote_join [OF Cons.prems this]]
  have "denote (foldl join_rows acc (rows # entries)) {k. dom k = D0 \<union> D \<union> (\<Union>p\<in>set parts. fst p) \<and>
      (P (k |` (D0 \<union> D) |` D0) \<and> Q (k |` (D0 \<union> D) |` D)) \<and> (\<forall>(D, Q)\<in>set parts. Q (k |` D))}" by simp
  moreover have "k |` (D0 \<union> D) |` D0 = k |` D0" "k |` (D0 \<union> D) |` D = k |` D" for k :: "string \<rightharpoonup> rdf_term"
    by (simp_all add: Int_absorb1 inf_commute)
  ultimately show ?case by (simp add: p Un_assoc conj_assoc)
qed

text \<open>The parts of a sequence between a chain of ends.\<close>

fun links ::
  "(rdf_term option \<Rightarrow> rdf_term option \<Rightarrow> (rdf_term \<times> rdf_term) set) list \<Rightarrow> rdf_term list \<Rightarrow>
     (string \<rightharpoonup> rdf_term) \<Rightarrow> bool" where
  "links (R # Rs) (a # b # ts) m \<longleftrightarrow>
     (end_value m a, end_value m b) \<in> R (given a) (given b) \<and> links Rs (b # ts) m"
| "links _ _ m \<longleftrightarrow> True"

lemma end_value_restrict: "end_vars t \<subseteq> D \<Longrightarrow> end_value (m |` D) t = end_value m t"
  by (cases t) auto

lemma links_parts:
  "(\<forall>(D, Q)\<in>set (map (\<lambda>(R, a, b). (end_vars a \<union> end_vars b, \<lambda>n. (end_value n a, end_value n b) \<in> R (given a) (given b)))
       (zip Rs (zip ts (tl ts)))). Q (k |` D)) \<longleftrightarrow> links Rs ts k"
proof (induction Rs ts k rule: links.induct)
  case (1 R Rs a b ts m)
  then show ?case by (simp add: end_value_restrict)
qed simp_all

lemma links_seq:
  "length Rs = Suc (length ws) \<Longrightarrow> distinct ws \<Longrightarrow> dom m \<inter> set ws = {} \<Longrightarrow> end_vars s \<union> end_vars ob \<subseteq> dom m \<Longrightarrow>
     (\<exists>k. dom k = dom m \<union> set ws \<and> k |` (- set ws) = m \<and> links Rs (s # map Variable ws @ [ob]) k) \<longleftrightarrow>
     (end_value m s, end_value m ob) \<in> seq_pairs Rs (given s) (given ob)"
proof (induction ws arbitrary: Rs m s)
  case Nil
  then obtain R where R: "Rs = [R]" by (cases Rs) auto
  show ?case by (auto simp: R)
next
  case (Cons w ws)
  obtain R R' Rs' where Rs: "Rs = R # R' # Rs'" using Cons.prems(1) by (cases Rs; cases "tl Rs") auto
  have ends: "end_value (m(w \<mapsto> b)) s = end_value m s" "end_value (m(w \<mapsto> b)) ob = end_value m ob" for b
    using Cons.prems(3,4) by (cases s; cases ob; auto)+
  have IH: "(\<exists>k. dom k = dom (m(w \<mapsto> b)) \<union> set ws \<and> k |` (- set ws) = m(w \<mapsto> b) \<and>
      links (R' # Rs') (Variable w # map Variable ws @ [ob]) k) \<longleftrightarrow>
      (b, end_value m ob) \<in> seq_pairs (R' # Rs') None (given ob)" for b
  proof -
    have "length (R' # Rs') = Suc (length ws)" using Cons.prems(1) by (simp add: Rs)
    moreover have "distinct ws" using Cons.prems(2) by simp
    moreover have "dom (m(w \<mapsto> b)) \<inter> set ws = {}" using Cons.prems(2,3) by auto
    moreover have "end_vars (Variable w) \<union> end_vars ob \<subseteq> dom (m(w \<mapsto> b))" using Cons.prems(4) by auto
    ultimately show ?thesis
      by (rule Cons.IH [of "R' # Rs'" "m(w \<mapsto> b)" "Variable w", unfolded ends given_variable end_value.simps
            fun_upd_same option.sel])
  qed
  have "(\<exists>k. dom k = dom m \<union> set (w # ws) \<and> k |` (- set (w # ws)) = m \<and> links Rs (s # map Variable (w # ws) @ [ob]) k) \<longleftrightarrow>
      (\<exists>b. (end_value m s, b) \<in> R (given s) None \<and> (\<exists>k. dom k = dom (m(w \<mapsto> b)) \<union> set ws \<and>
        k |` (- set ws) = m(w \<mapsto> b) \<and> links (R' # Rs') (Variable w # map Variable ws @ [ob]) k))"
    (is "(\<exists>k. ?L k) \<longleftrightarrow> (\<exists>b. ?R b)")
  proof
    assume "\<exists>k. ?L k"
    then obtain k where k: "?L k" ..
    have "w \<in> dom k" using k by auto
    then obtain b where b: "k w = Some b" by blast
    have m: "k |` (- set ws) = m(w \<mapsto> b)"
    proof
      fix v
      have "(k |` (- set (w # ws))) v = m v" using k by simp
      then show "(k |` (- set ws)) v = (m(w \<mapsto> b)) v"
        using b Cons.prems(2) by (auto simp: restrict_map_def split: if_splits)
    qed
    have "end_value k s = end_value m s"
      using end_value_restrict [of s "- set (w # ws)" k] k Cons.prems(3,4) by auto
    with k b have "(end_value m s, b) \<in> R (given s) None" by (simp add: Rs)
    moreover have "dom k = dom (m(w \<mapsto> b)) \<union> set ws" using k by auto
    ultimately show "\<exists>b. ?R b" using k m by (auto simp: Rs)
  next
    assume "\<exists>b. ?R b"
    then obtain b k where b: "(end_value m s, b) \<in> R (given s) None" and k: "dom k = dom (m(w \<mapsto> b)) \<union> set ws"
      "k |` (- set ws) = m(w \<mapsto> b)" "links (R' # Rs') (Variable w # map Variable ws @ [ob]) k" by blast
    have kw: "k w = Some b" using fun_cong [OF k(2), of w] Cons.prems(2) by (simp add: restrict_map_def split: if_splits)
    have m: "k |` (- set (w # ws)) = m"
    proof
      fix v show "(k |` (- set (w # ws))) v = m v"
        using fun_cong [OF k(2), of v] Cons.prems(3) by (auto simp: restrict_map_def domIff split: if_splits)
    qed
    have "end_value k s = end_value m s"
      using end_value_restrict [of s "- set (w # ws)" k] m Cons.prems(3,4) by auto
    with b k(1,3) m kw have "?L k" by (auto simp: Rs)
    then show "\<exists>k. ?L k" by blast
  qed
  also have "\<dots> \<longleftrightarrow> (end_value m s, end_value m ob) \<in> seq_pairs Rs (given s) (given ob)"
    unfolding IH by (simp add: Rs relcomp_unfold)
  finally show ?case .
qed

text \<open>The ends of the parts are a chain through generated variables.\<close>

lemma seq_ends_chain:
  obtains ws where "seq_ends (Suc n) s ob = zip (s # map Variable ws) (map Variable ws @ [ob])" "length ws = n"
    "distinct ws" "set ws \<inter> (end_vars s \<union> end_vars ob) = {}" "set ws \<inter> {''__p'', ''__x''} = {}"
proof
  let ?ws = "map (\<lambda>i. generateVariable s ob (''b'' @ nat_string i)) [0..<n]"
  show "seq_ends (Suc n) s ob = zip (s # map Variable ?ws) (map Variable ?ws @ [ob])"
    by (simp add: seq_ends_def Let_def comp_def)
  show "distinct ?ws" by (rule generated_distinct)
  have "generateVariable s ob name \<notin> end_vars s \<union> end_vars ob" for name
    using generateVariable_fresh [of s ob name] by (cases s; cases ob) auto
  then show "set ?ws \<inter> (end_vars s \<union> end_vars ob) = {}" by auto
  have "generateVariable s ob (''b'' @ nat_string i) \<noteq> ''__p'' \<and> generateVariable s ob (''b'' @ nat_string i) \<noteq> ''__x''" for i
  proof -
    obtain k where "generateVariable s ob (''b'' @ nat_string i) = (''b'' @ nat_string i) @ replicate k CHR ''b''"
      using generateVariable_extends by blast
    then show ?thesis by simp
  qed
  then have "\<forall>w\<in>set ?ws. w \<noteq> ''__p'' \<and> w \<noteq> ''__x''" by simp
  then show "set ?ws \<inter> {''__p'', ''__x''} = {}" by blast
qed simp

lemma chain_vars:
  "\<Union> ((\<lambda>(a, b). end_vars a \<union> end_vars b) ` set (zip (s # map Variable ws) (map Variable ws @ [ob]))) =
    end_vars s \<union> set ws \<union> end_vars ob"
  by (induction ws arbitrary: s) auto

lemma chain_ok:
  "distinct ws \<Longrightarrow> set ws \<inter> (end_vars s \<union> end_vars ob) = {} \<Longrightarrow> ws \<noteq> [] \<or> ends_ok s ob \<Longrightarrow>
    (a, b) \<in> set (zip (s # map Variable ws) (map Variable ws @ [ob])) \<Longrightarrow> ends_ok a b"
proof (induction ws arbitrary: s)
  case Nil
  then show ?case by simp
next
  case (Cons w ws)
  have first: "ends_ok s (Variable w)" using Cons.prems(2) by (cases s) (auto simp: ends_ok_def)
  have last: "ws \<noteq> [] \<or> ends_ok (Variable w) ob" using Cons.prems(2) by (cases ob) (auto simp: ends_ok_def)
  show ?case
  proof (cases "(a, b) = (s, Variable w)")
    case True
    with first show ?thesis by simp
  next
    case False
    with Cons.prems(4) have "(a, b) \<in> set (zip (Variable w # map Variable ws) (map Variable ws @ [ob]))" by auto
    with Cons.IH [of "Variable w"] Cons.prems(1,2) last show ?thesis by auto
  qed
qed

lemma generated_names:
  "map (\<lambda>(a, b). term_value b) (butlast (zip (s # map Variable ws) (map Variable ws @ [ob]))) = ws"
  by (induction ws arbitrary: s) auto

lemma chain_zip: "zip (s # xs) (xs @ [ob]) = zip (s # xs @ [ob]) (xs @ [ob])"
  by (induction xs arbitrary: s) auto

lemma seq_solutions:
  assumes "length Rs = Suc (length ws)" and "distinct ws" and fresh: "set ws \<inter> (end_vars s \<union> end_vars ob) = {}"
  shows "(\<lambda>k. k |` (- set ws)) ` {k. dom k = end_vars s \<union> set ws \<union> end_vars ob \<and>
      links Rs (s # map Variable ws @ [ob]) k} = path_solutions (seq_pairs Rs) s ob"
proof (rule set_eqI)
  fix m
  have seq: "(\<exists>k. dom k = dom m \<union> set ws \<and> k |` (- set ws) = m \<and> links Rs (s # map Variable ws @ [ob]) k) \<longleftrightarrow>
      (end_value m s, end_value m ob) \<in> seq_pairs Rs (given s) (given ob)" if "dom m = end_vars s \<union> end_vars ob"
    using that fresh by (intro links_seq assms) auto
  have "m \<in> (\<lambda>k. k |` (- set ws)) ` {k. dom k = end_vars s \<union> set ws \<union> end_vars ob \<and>
      links Rs (s # map Variable ws @ [ob]) k} \<longleftrightarrow> (\<exists>k. dom k = end_vars s \<union> set ws \<union> end_vars ob \<and> k |` (- set ws) = m \<and>
      links Rs (s # map Variable ws @ [ob]) k)" by blast
  also have "\<dots> \<longleftrightarrow> dom m = end_vars s \<union> end_vars ob \<and>
      (\<exists>k. dom k = dom m \<union> set ws \<and> k |` (- set ws) = m \<and> links Rs (s # map Variable ws @ [ob]) k)"
  proof -
    have "dom m = end_vars s \<union> end_vars ob" if "dom k = end_vars s \<union> set ws \<union> end_vars ob" "k |` (- set ws) = m"
      for k :: "string \<rightharpoonup> rdf_term"
      using that(1) fresh unfolding that(2) [symmetric] dom_restrict by auto
    moreover have "end_vars s \<union> set ws \<union> end_vars ob = (end_vars s \<union> end_vars ob) \<union> set ws" by blast
    ultimately show ?thesis by metis
  qed
  also have "\<dots> \<longleftrightarrow> m \<in> path_solutions (seq_pairs Rs) s ob" unfolding path_solutions_def mem_Collect_eq
    by (rule conj_cong [OF refl]) (rule seq)
  finally show "m \<in> (\<lambda>k. k |` (- set ws)) ` {k. dom k = end_vars s \<union> set ws \<union> end_vars ob \<and>
      links Rs (s # map Variable ws @ [ob]) k} \<longleftrightarrow> m \<in> path_solutions (seq_pairs Rs) s ob" .
qed

lemma seq_rows:
  assumes es: "es \<noteq> []" and computes: "\<And>e. e \<in> set es \<Longrightarrow> computes f T G e"
  shows "computes f T G (P_seq es)"
  unfolding computes_def
proof (intro allI impI)
  fix s ob assume good: "good_ends T s ob"
  then have ends: "ends_ok s ob" by (rule good_ends_ok)
  obtain n where n: "length es = Suc n" using es by (cases es) auto
  obtain ws where ws: "seq_ends (Suc n) s ob = zip (s # map Variable ws) (map Variable ws @ [ob])" "length ws = n"
    "distinct ws" "set ws \<inter> (end_vars s \<union> end_vars ob) = {}" "set ws \<inter> {''__p'', ''__x''} = {}"
    by (rule seq_ends_chain)
  let ?ends = "zip (s # map Variable ws) (map Variable ws @ [ob])"
  let ?part = "\<lambda>(R, a, b). (end_vars a \<union> end_vars b, \<lambda>n. (end_value n a, end_value n b) \<in> R (given a) (given b))"
  let ?parts = "map ?part (zip (map (path_pairs G) es) ?ends)"
  let ?rows = "foldl join_rows [[]] (map (\<lambda>(e, a, b). eval_path f G e a b) (zip es ?ends))"
  have ok: "good_ends T a b" if "(a, b) \<in> set ?ends" for a b
  proof -
    have "own_end T (Variable w)" if "w \<in> set ws" for w using that ws(5) by (auto simp: own_end_def)
    then have "own_end T a" "own_end T b"
      using set_zip_leftD [OF that] set_zip_rightD [OF that] good by (auto simp: good_ends_def)
    with chain_ok [OF ws(3,4) _ that] ends show ?thesis by (auto simp: good_ends_def)
  qed
  have "denote (eval_path f G e a b) {n. dom n = end_vars a \<union> end_vars b \<and>
      (end_value n a, end_value n b) \<in> path_pairs G e (given a) (given b)}" if "(e, a, b) \<in> set (zip es ?ends)" for e a b
    using computesD [OF computes [OF set_zip_leftD [OF that]] ok [OF set_zip_rightD [OF that]]]
    by (simp add: path_solutions_def)
  then have "list_all2 (\<lambda>rows (D, Q). denote rows {n. dom n = D \<and> Q n})
      (map (\<lambda>(e, a, b). eval_path f G e a b) (zip es ?ends)) ?parts"
    unfolding zip_map1 map_map list.rel_map by (intro list.rel_refl_strong) auto
  from denote_joins [OF this, of "[[]]" "{}" "\<lambda>_. True"]
  have rows: "denote ?rows {k. dom k = (\<Union>p\<in>set ?parts. fst p) \<and> (\<forall>(D, Q)\<in>set ?parts. Q (k |` D))}"
    by (simp add: denote_def del: set_map)
  have vars: "(\<Union>p\<in>set ?parts. fst p) = end_vars s \<union> set ws \<union> end_vars ob"
  proof -
    have "map fst ?parts = map (\<lambda>(a, b). end_vars a \<union> end_vars b) (map snd (zip (map (path_pairs G) es) ?ends))"
      by (simp add: split_def)
    also have "map snd (zip (map (path_pairs G) es) ?ends) = ?ends" using n ws(2) by simp
    finally show ?thesis unfolding chain_vars [symmetric] by (metis image_set)
  qed
  have "?parts = map ?part (zip (map (path_pairs G) es) (zip (s # map Variable ws @ [ob]) (tl (s # map Variable ws @ [ob]))))"
    by (simp add: chain_zip del: zip_Cons_Cons)
  then have parts: "(\<forall>(D, Q)\<in>set ?parts. Q (k |` D)) \<longleftrightarrow> links (map (path_pairs G) es) (s # map Variable ws @ [ob]) k" for k
    by (simp only: links_parts)
  have "denote (map (\<lambda>r. foldl (\<lambda>r v. js_delete r v) r ws) ?rows)
      ((\<lambda>k. k |` (- set ws)) ` {k. dom k = end_vars s \<union> set ws \<union> end_vars ob \<and>
        links (map (path_pairs G) es) (s # map Variable ws @ [ob]) k})"
    using denote_deletes [OF rows] unfolding vars parts .
  moreover have "eval_path f G (P_seq es) s ob = map (\<lambda>r. foldl (\<lambda>r v. js_delete r v) r ws) ?rows"
    unfolding eval_path_eqs n Let_def ws(1) generated_names ..
  moreover have "path_solutions (path_pairs G (P_seq es)) s ob = path_solutions (seq_pairs (map (path_pairs G) es)) s ob"
    by (simp add: path_solutions_def)
  ultimately show "denote (eval_path f G (P_seq es) s ob) (path_solutions (path_pairs G (P_seq es)) s ob)"
    using seq_solutions [of "map (path_pairs G) es" ws s ob] n ws by simp
qed

section \<open>Paths follow the semantics\<close>

text \<open>Sequences have parts, and the predicates of links are not variables.\<close>

fun wf_path :: "path_expr \<Rightarrow> bool" where
  "wf_path (P_link iri) \<longleftrightarrow> \<not> is_variable iri"
| "wf_path (P_inv e) \<longleftrightarrow> wf_path e"
| "wf_path (P_seq es) \<longleftrightarrow> es \<noteq> [] \<and> list_all wf_path es"
| "wf_path (P_alt es) \<longleftrightarrow> list_all wf_path es"
| "wf_path (P_nps iris) \<longleftrightarrow> True"
| "wf_path (P_zero_or_one e) \<longleftrightarrow> wf_path e"
| "wf_path (P_zero_or_more e) \<longleftrightarrow> wf_path e"
| "wf_path (P_one_or_more e) \<longleftrightarrow> wf_path e"

lemma link_computes: "\<not> is_variable iri \<Longrightarrow> computes f T G (P_link iri)"
  unfolding computes_def eval_path_eqs using link_rows [of _ _ iri G] by (auto simp: path_solutions_def dest: good_ends_ok)

lemma computes_wf: "path_world f T G \<Longrightarrow> wf_path e \<Longrightarrow> computes f T G e"
proof (induction e)
  case (P_seq es)
  then show ?case by (intro seq_rows) (auto simp: list_all_iff)
next
  case (P_alt es)
  then show ?case by (intro alt_rows) (auto simp: list_all_iff)
qed (auto intro: link_computes inv_rows nps_rows zero_or_one_rows zero_or_more_rows one_or_more_rows)

text \<open>C1. The rows that the property path actors return, for every path of links, inverses,
  sequences, alternatives, negated property sets and the three repetitions, nested in any way, are as a set the
  solutions of the path in the sense of SPARQL 1.1: read as mappings from variables to terms they are the bindings of
  the two ends to a pair that the path connects, and no row binds a variable twice.  How often a row is returned is
  not compared.  The conditions: the graph is ground, the key of the distinct actor tells its terms and the given
  ends apart, and the two ends are different variables, if both are variables, and not named as those of the nodes
  actor (for \<open>?x p+ ?x\<close> the rows are others, \<open>one_or_more_same_variable\<close>).\<close>

theorem paths_follow_semantics:
  assumes "path_world f T G" and "wf_path e" and "good_ends T s ob"
  shows "(\<forall>r\<in>set (eval_path f G e s ob). wf_map r) \<and>
    map_of ` set (eval_path f G e s ob) = path_solutions (path_pairs G e) s ob"
  using computesD [OF computes_wf [OF assms(1,2)] assms(3)] unfolding denote_def .

definition path_graph :: "triple list" where
  "path_graph = [(NamedNode ''a'', NamedNode ''p'', NamedNode ''c''), (NamedNode ''c'', NamedNode ''p'', NamedNode ''a''),
     (NamedNode ''c'', NamedNode ''q'', NamedNode ''d'')]"

definition sample_path :: path_expr where
  "sample_path = P_seq [P_one_or_more (P_link (NamedNode ''p'')), P_nps [NamedNode ''p'']]"

definition sample_terms :: "rdf_term set" where
  "sample_terms = {NamedNode ''a'', NamedNode ''c'', NamedNode ''d'', NamedNode ''p'', NamedNode ''q''}"

lemma path_sample_world: "path_world (row_identity sample_string) sample_terms path_graph"
proof -
  have "tells_apart (row_identity sample_string) sample_terms"
    by (rule row_identity_tells_apart) (auto simp: sample_terms_def sample_string_def)
  moreover have "ground_data path_graph" by code_simp
  ultimately show ?thesis by (simp add: path_world_def path_graph_def sample_terms_def)
qed

lemma sample_ends: "good_ends sample_terms (NamedNode ''a'') (Variable ''o'')"
  by (simp add: good_ends_def own_end_def sample_terms_def)

lemma paths_follow_semantics_witness:
  "map_of ` set (eval_path (row_identity sample_string) path_graph sample_path (NamedNode ''a'') (Variable ''o'')) =
     path_solutions (path_pairs path_graph sample_path) (NamedNode ''a'') (Variable ''o'') \<and>
   eval_path (row_identity sample_string) path_graph sample_path (NamedNode ''a'') (Variable ''o'') = [[(''o'', NamedNode ''d'')]]"
proof (rule conjI)
  have "wf_path sample_path" by code_simp
  from paths_follow_semantics [OF path_sample_world this sample_ends]
  show "map_of ` set (eval_path (row_identity sample_string) path_graph sample_path (NamedNode ''a'') (Variable ''o'')) =
     path_solutions (path_pairs path_graph sample_path) (NamedNode ''a'') (Variable ''o'')"
    by (rule conjunct2)
  show "eval_path (row_identity sample_string) path_graph sample_path (NamedNode ''a'') (Variable ''o'') = [[(''o'', NamedNode ''d'')]]"
    by code_simp
qed

lemma eval_rows_once:
  assumes "path_world f T G" and "wf_path e" and "good_ends T s ob" and eq: "eval_path f G e s ob = distinct_rows f (row_vars s ob) rows"
  shows "distinct (map map_of (eval_path f G e s ob))"
  using computesD [OF computes_wf [OF assms(1,2)] assms(3)] over_solutions [OF assms(1,3) path_pairs_confined]
  unfolding eq by (intro distinct_rows_once [OF _ world_apart [OF assms(1)]])

text \<open>The three repetition actors return every solution once: no two of their rows are the same mapping.\<close>

theorem repeated_paths_distinct:
  assumes w: "path_world f T G" and e: "wf_path e" and ends: "good_ends T s ob"
  shows "distinct (map map_of (eval_path f G (P_zero_or_one e) s ob)) \<and>
    distinct (map map_of (eval_path f G (P_zero_or_more e) s ob)) \<and>
    distinct (map map_of (eval_path f G (P_one_or_more e) s ob))"
proof (intro conjI)
  show "distinct (map map_of (eval_path f G (P_zero_or_one e) s ob))"
  proof (cases "\<not> is_variable s \<and> \<not> is_variable ob \<and> s = ob")
    case True
    then show ?thesis by (simp add: eval_path_eqs)
  next
    case False
    show ?thesis
      by (rule eval_rows_once [OF w _ ends eval_path_eqs(6) [of f G e s ob, unfolded if_not_P [OF False]]])
        (use e in simp)
  qed
  show "distinct (map map_of (eval_path f G (P_zero_or_more e) s ob))"
    by (rule eval_rows_once [OF w _ ends eval_path_eqs(7)]) (use e in simp)
  show "distinct (map map_of (eval_path f G (P_one_or_more e) s ob))"
    by (rule eval_rows_once [OF w _ ends eval_path_eqs(8)]) (use e in simp)
qed

lemma repeated_paths_distinct_witness:
  "distinct (map map_of (eval_path (row_identity sample_string) path_graph (P_zero_or_one (P_link (NamedNode ''p''))) (NamedNode ''a'') (Variable ''o''))) \<and>
   length (eval_path (row_identity sample_string) path_graph (P_zero_or_one (P_link (NamedNode ''p''))) (NamedNode ''a'') (Variable ''o'')) = 2"
proof (rule conjI)
  have "wf_path (P_link (NamedNode ''p''))" by code_simp
  from repeated_paths_distinct [OF path_sample_world this sample_ends]
  show "distinct (map map_of (eval_path (row_identity sample_string) path_graph (P_zero_or_one (P_link (NamedNode ''p''))) (NamedNode ''a'') (Variable ''o'')))"
    by (rule conjunct1)
  show "length (eval_path (row_identity sample_string) path_graph (P_zero_or_one (P_link (NamedNode ''p''))) (NamedNode ''a'') (Variable ''o'')) = 2"
    by code_simp
qed

text \<open>With the same variable at both ends one-or-more-path is wrong: it evaluates its first step between that
  variable and itself, and pairs of different terms become rows of their second term.  On a cycle of two terms
  it returns nothing, where the path connects each with itself, and next to a loop it returns a term
  that is on no cycle.\<close>

theorem one_or_more_same_variable:
  "eval_path (row_identity sample_string) path_graph (P_one_or_more (P_link (NamedNode ''p''))) (Variable ''x'') (Variable ''x'') = [] \<and>
   (NamedNode ''a'', NamedNode ''a'') \<in> path_pairs path_graph (P_one_or_more (P_link (NamedNode ''p''))) None None \<and>
   eval_path (row_identity sample_string) [(NamedNode ''a'', NamedNode ''p'', NamedNode ''a''), (NamedNode ''a'', NamedNode ''p'', NamedNode ''c'')]
     (P_one_or_more (P_link (NamedNode ''p''))) (Variable ''x'') (Variable ''x'') =
   [[(''x'', NamedNode ''a'')], [(''x'', NamedNode ''c'')]] \<and>
   (NamedNode ''c'', NamedNode ''c'') \<notin> path_pairs
     [(NamedNode ''a'', NamedNode ''p'', NamedNode ''a''), (NamedNode ''a'', NamedNode ''p'', NamedNode ''c'')]
     (P_one_or_more (P_link (NamedNode ''p''))) None None"
proof (intro conjI)
  show "eval_path (row_identity sample_string) path_graph (P_one_or_more (P_link (NamedNode ''p''))) (Variable ''x'') (Variable ''x'') = []"
    by code_simp
  have "(NamedNode ''a'', NamedNode ''c'') \<in> forward_step (path_pairs path_graph (P_link (NamedNode ''p'')))"
    "(NamedNode ''c'', NamedNode ''a'') \<in> forward_step (path_pairs path_graph (P_link (NamedNode ''p'')))"
    by (auto simp: forward_step_def path_graph_def)
  then show "(NamedNode ''a'', NamedNode ''a'') \<in> path_pairs path_graph (P_one_or_more (P_link (NamedNode ''p''))) None None"
    by (auto simp: closure_pairs_def set_graph_nodes path_graph_def)
  show "eval_path (row_identity sample_string) [(NamedNode ''a'', NamedNode ''p'', NamedNode ''a''), (NamedNode ''a'', NamedNode ''p'', NamedNode ''c'')]
     (P_one_or_more (P_link (NamedNode ''p''))) (Variable ''x'') (Variable ''x'') =
   [[(''x'', NamedNode ''a'')], [(''x'', NamedNode ''c'')]]" by code_simp
  show "(NamedNode ''c'', NamedNode ''c'') \<notin> path_pairs
     [(NamedNode ''a'', NamedNode ''p'', NamedNode ''a''), (NamedNode ''a'', NamedNode ''p'', NamedNode ''c'')]
     (P_one_or_more (P_link (NamedNode ''p''))) None None"
    by (auto simp: closure_pairs_def forward_step_def dest!: tranclD)
qed

text \<open>A variable named as one of the nodes actor's own: its distinct nodes are only those with a loop.\<close>

lemma nodes_own_variable:
  "nodes (row_identity sample_string) path_graph ''__x'' = []"
  by code_simp

end
