(* ===== verification/Term_Values.thy ===== *)
theory Term_Values
  imports Type_Handling Date_Text JS_Number
begin

text \<open>
  The typed terms on which expressions are evaluated (\<open>expressions/Term.ts\<close>,
  \<open>transformers/TermTransformer.ts\<close> and the numbers of \<open>util/Parsing.ts\<close> in
  \<open>packages/utils-expression-evaluator/lib/\<close>): how an RDF term becomes one, its string, its effective
  boolean value and its way back to RDF.
\<close>

section \<open>Numbers in texts\<close>

text \<open>\<open>Number(s)\<close> of a string: surrounding white space is dropped, the empty text is zero, and the rest is a
  decimal literal with an optional sign or a hexadecimal, octal or binary literal.  The value is the exact one,
  up to the bound from which a double is infinite.\<close>

definition is_space :: "char \<Rightarrow> bool" where
  "is_space c \<longleftrightarrow> (of_char c :: nat) \<in> {9, 10, 11, 12, 13, 32, 160}"

definition js_trim :: "string \<Rightarrow> string" where
  "js_trim s = rev (dropWhile is_space (rev (dropWhile is_space s)))"

definition split_sign :: "string \<Rightarrow> bool \<times> string" where
  "split_sign s =
     (case s of
        [] \<Rightarrow> (False, s)
      | c # cs \<Rightarrow> if c = CHR ''-'' then (True, cs) else if c = CHR ''+'' then (False, cs) else (False, s))"

definition fraction_part :: "string \<Rightarrow> string \<times> string" where
  "fraction_part s =
     (case s of
        [] \<Rightarrow> ([], s)
      | c # cs \<Rightarrow> if c = CHR ''.'' then (takeWhile is_digit cs, dropWhile is_digit cs) else ([], s))"

definition exponent_part :: "string \<Rightarrow> int option" where
  "exponent_part s =
     (case s of
        [] \<Rightarrow> Some 0
      | c # cs \<Rightarrow>
          (case split_sign cs of (neg, ds) \<Rightarrow>
             if c \<in> {CHR ''e'', CHR ''E''} \<and> ds \<noteq> [] \<and> list_all is_digit ds
             then Some (if neg then - int (nat_value ds) else int (nat_value ds)) else None))"

definition ten_power :: "int \<Rightarrow> rat" where
  "ten_power e = (if 0 \<le> e then 10 ^ nat e else 1 / 10 ^ nat (- e))"

definition unsigned_decimal :: "string \<Rightarrow> rat option" where
  "unsigned_decimal s =
     (let whole = takeWhile is_digit s; (fraction, rest) = fraction_part (dropWhile is_digit s)
      in if whole = [] \<and> fraction = [] then None
         else map_option (\<lambda>e. (of_nat (nat_value whole) + frac_value fraction) * ten_power e) (exponent_part rest))"

definition radix_digit :: "nat \<Rightarrow> char \<Rightarrow> nat option" where
  "radix_digit radix c =
     (let n = of_char c;
          d = (if 48 \<le> n \<and> n \<le> 57 then n - 48 else if 97 \<le> n \<and> n \<le> 102 then n - 87
               else if 65 \<le> n \<and> n \<le> 70 then n - 55 else radix)
      in if d < radix then Some d else None)"

definition radix_value :: "nat \<Rightarrow> string \<Rightarrow> nat option" where
  "radix_value radix s =
     (if s = [] then None
      else foldl (\<lambda>n c. case n of None \<Rightarrow> None | Some m \<Rightarrow> map_option (\<lambda>d. radix * m + d) (radix_digit radix c)) (Some 0) s)"

definition radix_of :: "string \<Rightarrow> nat option" where
  "radix_of prefix =
     (if prefix = ''0x'' \<or> prefix = ''0X'' then Some 16
      else if prefix = ''0o'' \<or> prefix = ''0O'' then Some 8
      else if prefix = ''0b'' \<or> prefix = ''0B'' then Some 2 else None)"

definition double_limit :: rat where
  "double_limit = 2 ^ 1024 - 2 ^ 970"

definition to_double :: "rat \<Rightarrow> jsnum" where
  "to_double x = (if double_limit \<le> x then PInf else if x \<le> - double_limit then NInf else Num x)"

definition js_Number :: "string \<Rightarrow> jsnum" where
  "js_Number str =
     (let s = js_trim str
      in if s = [] then Num 0
         else (case radix_of (take 2 s) of
                 Some radix \<Rightarrow>
                   (case radix_value radix (drop 2 s) of None \<Rightarrow> NaN | Some n \<Rightarrow> to_double (of_nat n))
               | None \<Rightarrow>
                   (case split_sign s of (neg, u) \<Rightarrow>
                      if u = ''Infinity'' then (if neg then NInf else PInf)
                      else (case unsigned_decimal u of
                              None \<Rightarrow> NaN
                            | Some x \<Rightarrow> to_double (if neg then - x else x)))))"

definition parseXSDFloat :: "string \<Rightarrow> jsnum option" where
  "parseXSDFloat str =
     (let numb = js_Number str
      in if numb = NaN
         then (if str = ''NaN'' then Some NaN
               else if str = ''INF'' \<or> str = ''+INF'' then Some PInf
               else if str = ''-INF'' then Some NInf else None)
         else Some numb)"

definition parseXSDDecimal :: "string \<Rightarrow> jsnum option" where
  "parseXSDDecimal str = (let numb = js_Number str in if numb = NaN then None else Some numb)"

section \<open>Typed terms\<close>

text \<open>The classes of numeric literals, and the typed value of a literal by its class.  A plain \<open>Literal\<close> of an
  unknown type holds its text.\<close>

datatype numeric_class = IntegerLiteral | DecimalLiteral | FloatLiteral | DoubleLiteral

datatype typed_value =
    NumericValue numeric_class jsnum
  | BooleanValue bool
  | LangStringValue string
  | DirLangStringValue string
  | StringValue string
  | DateTimeValue date_time
  | TimeValue time_fields
  | DateValue date_fields
  | DurationValue partial_duration
  | DayTimeDurationValue partial_duration
  | YearMonthDurationValue partial_duration
  | NonLexicalValue
  | OtherValue string

record term_literal =
  typedValue :: typed_value
  dataType :: string
  strValue :: "string option"
  language :: "string option"
  direction :: "string option"

datatype eval_term =
    NamedNodeTerm string
  | BlankNodeTerm string
  | QuadTerm eval_term eval_term eval_term eval_term
  | DefaultGraphTerm
  | LiteralTerm term_literal
  | VariableTerm string

text \<open>The errors of expressions; \<open>TypeError\<close> and \<open>InvalidExpression\<close> are not among the \<open>ExpressionError\<close>s.\<close>

datatype expr_error =
    InvalidLexicalForm
  | UnboundVariableError string
  | EBVCoercionError
  | RDFEqualTypeError
  | CoalesceError "expr_error list"
  | InError "expr_error option list"
  | InvalidArgumentTypes
  | CastError
  | InvalidTimezoneCall
  | IncompatibleLanguageOperation
  | EmptyAggregateError
  | ParsingError parse_error
  | UnexpectedError
  | InvalidArity
  | InvalidExpression
  | ExtensionFunctionError
  | NoAggregator
  | JSTypeError
  | MediatorError

fun isExpressionError :: "expr_error \<Rightarrow> bool" where
  "isExpressionError UnexpectedError = False"
| "isExpressionError InvalidArity = False"
| "isExpressionError InvalidExpression = False"
| "isExpressionError ExtensionFunctionError = False"
| "isExpressionError NoAggregator = False"
| "isExpressionError JSTypeError = False"
| "isExpressionError MediatorError = False"
| "isExpressionError _ = True"

section \<open>The string of a term\<close>

text \<open>The printing of finite numbers by the methods \<open>toFixed(0)\<close>, \<open>toString()\<close> and \<open>toExponential()\<close>, which
  depends on the digits of the double, is an argument.\<close>

record js_printer =
  print_fixed :: "rat \<Rightarrow> string"
  print_string :: "rat \<Rightarrow> string"
  print_exponential :: "rat \<Rightarrow> string"

fun num_print :: "(rat \<Rightarrow> string) \<Rightarrow> jsnum \<Rightarrow> string" where
  "num_print pr NaN = ''NaN''"
| "num_print pr PInf = ''Infinity''"
| "num_print pr NInf = ''-Infinity''"
| "num_print pr (Num x) = pr x"

definition remove_plus :: "string \<Rightarrow> string" where
  "remove_plus s = takeWhile (\<lambda>c. c \<noteq> CHR ''+'') s @ tl (dropWhile (\<lambda>c. c \<noteq> CHR ''+'') s)"

definition exponential_text :: "string \<Rightarrow> string" where
  "exponential_text jsExponential =
     (let jsMantisse = takeWhile (\<lambda>c. c \<noteq> CHR ''e'') jsExponential;
          jsExponent = takeWhile (\<lambda>c. c \<noteq> CHR ''e'') (tl (dropWhile (\<lambda>c. c \<noteq> CHR ''e'') jsExponential));
          exponent = remove_plus jsExponent;
          mantisse = (if CHR ''.'' \<in> set jsMantisse then jsMantisse else jsMantisse @ ''.0'')
      in mantisse @ ''E'' @ exponent)"

fun specificFormatter :: "js_printer \<Rightarrow> numeric_class \<Rightarrow> jsnum \<Rightarrow> string" where
  "specificFormatter pr IntegerLiteral x = num_print (print_fixed pr) x"
| "specificFormatter pr DecimalLiteral x = num_print (print_string pr) x"
| "specificFormatter pr FloatLiteral x = num_print (print_string pr) x"
| "specificFormatter pr DoubleLiteral PInf = ''INF''"
| "specificFormatter pr DoubleLiteral NInf = ''-INF''"
| "specificFormatter pr DoubleLiteral NaN = ''NaN''"
| "specificFormatter pr DoubleLiteral (Num x) = exponential_text (print_exponential pr x)"

fun typed_string :: "js_printer \<Rightarrow> typed_value \<Rightarrow> string" where
  "typed_string pr (NumericValue c x) = specificFormatter pr c x"
| "typed_string pr (BooleanValue b) = (if b then ''true'' else ''false'')"
| "typed_string pr (LangStringValue s) = s"
| "typed_string pr (DirLangStringValue s) = s"
| "typed_string pr (StringValue s) = s"
| "typed_string pr (DateTimeValue d) = serializeDateTime d"
| "typed_string pr (TimeValue t) = serializeTime t"
| "typed_string pr (DateValue d) = serializeDate d"
| "typed_string pr (DurationValue d) = serializeDuration d ''PT0S''"
| "typed_string pr (DayTimeDurationValue d) = serializeDuration d ''PT0S''"
| "typed_string pr (YearMonthDurationValue d) = serializeDuration d ''P0M''"
| "typed_string pr NonLexicalValue = []"
| "typed_string pr (OtherValue s) = s"

text \<open>The classes of dates, times and durations serialize their value also where the literal has a text.\<close>

fun serializes_value :: "typed_value \<Rightarrow> bool" where
  "serializes_value (DateTimeValue d) = True"
| "serializes_value (TimeValue t) = True"
| "serializes_value (DateValue d) = True"
| "serializes_value (DurationValue d) = True"
| "serializes_value (DayTimeDurationValue d) = True"
| "serializes_value (YearMonthDurationValue d) = True"
| "serializes_value _ = False"

definition literal_str :: "js_printer \<Rightarrow> term_literal \<Rightarrow> string" where
  "literal_str pr l =
     (if serializes_value (typedValue l) then typed_string pr (typedValue l)
      else or_else (strValue l) (typed_string pr (typedValue l)))"

fun term_str :: "js_printer \<Rightarrow> eval_term \<Rightarrow> expr_error + string" where
  "term_str pr (NamedNodeTerm v) = Inr v"
| "term_str pr (BlankNodeTerm v) = Inl InvalidArgumentTypes"
| "term_str pr (QuadTerm s p ob g) =
     bind_res (term_str pr s) (\<lambda>s'. bind_res (term_str pr p) (\<lambda>p'. bind_res (term_str pr ob) (\<lambda>o'.
       bind_res (term_str pr g) (\<lambda>g'.
         Inr (''Quad: ['' @ s' @ '', '' @ p' @ '', '' @ o' @ '', '' @ g' @ '']'')))))"
| "term_str pr DefaultGraphTerm = Inr ''DefaultGraph''"
| "term_str pr (LiteralTerm l) = Inr (literal_str pr l)"
| "term_str pr (VariableTerm n) = Inl JSTypeError"

section \<open>The effective boolean value\<close>

fun coerceEBV :: "js_printer \<Rightarrow> eval_term \<Rightarrow> expr_error + bool" where
  "coerceEBV pr (LiteralTerm l) =
     (case typedValue l of
        NumericValue c x \<Rightarrow> Inr (x \<noteq> NaN \<and> x \<noteq> Num 0)
      | BooleanValue b \<Rightarrow> Inr b
      | StringValue s \<Rightarrow> Inr (literal_str pr l \<noteq> [])
      | _ \<Rightarrow> Inl EBVCoercionError)"
| "coerceEBV pr (VariableTerm n) = Inl JSTypeError"
| "coerceEBV pr _ = Inl EBVCoercionError"

section \<open>Back to RDF\<close>

text \<open>The data factory is an argument: \<open>literal\<close> gets the text and a language, a language with a direction, or
  the datatype.\<close>

datatype literal_tag = LangTag string | DirTag string string | TypeTag string

type_synonym literal_factory = "string \<Rightarrow> literal_tag \<Rightarrow> rdf_term"

text \<open>\<open>text.replace(pattern, replacement)\<close>: the first occurrence.\<close>

fun replace_first :: "string \<Rightarrow> string \<Rightarrow> string \<Rightarrow> string" where
  "replace_first pat rep [] = []"
| "replace_first pat rep (c # s) =
     (if take (length pat) (c # s) = pat then rep @ drop (length pat) (c # s) else c # replace_first pat rep s)"

fun with_value :: "rdf_term \<Rightarrow> string \<Rightarrow> rdf_term" where
  "with_value (Literal v l d b) w = Literal w l d b"
| "with_value t w = t"

definition literal_toRDF :: "literal_factory \<Rightarrow> js_printer \<Rightarrow> term_literal \<Rightarrow> rdf_term" where
  "literal_toRDF factory pr l =
     factory (or_else (strValue l) (literal_str pr l))
       (if or_else (direction l) [] \<noteq> [] \<and> or_else (language l) [] \<noteq> []
        then DirTag (or_else (language l) []) (or_else (direction l) [])
        else (case language l of Some lang \<Rightarrow> LangTag lang | None \<Rightarrow> TypeTag (dataType l)))"

definition numeric_toRDF :: "literal_factory \<Rightarrow> js_printer \<Rightarrow> term_literal \<Rightarrow> jsnum \<Rightarrow> rdf_term" where
  "numeric_toRDF factory pr l x =
     (let t = literal_toRDF factory pr l
      in case x of Num q \<Rightarrow> t | _ \<Rightarrow> with_value t (replace_first ''Infinity'' ''INF'' (term_value t)))"

definition nonlexical_toRDF :: "literal_factory \<Rightarrow> js_printer \<Rightarrow> term_literal \<Rightarrow> rdf_term" where
  "nonlexical_toRDF factory pr l =
     factory (literal_str pr l) (case language l of Some lang \<Rightarrow> LangTag lang | None \<Rightarrow> TypeTag (dataType l))"

fun toRDF :: "literal_factory \<Rightarrow> js_printer \<Rightarrow> eval_term \<Rightarrow> expr_error + rdf_term" where
  "toRDF factory pr (NamedNodeTerm v) = Inr (NamedNode v)"
| "toRDF factory pr (BlankNodeTerm v) = Inr (BlankNode v)"
| "toRDF factory pr (QuadTerm s p ob g) =
     bind_res (toRDF factory pr s) (\<lambda>s'. bind_res (toRDF factory pr p) (\<lambda>p'. bind_res (toRDF factory pr ob) (\<lambda>o'.
       bind_res (toRDF factory pr g) (\<lambda>g'. Inr (Quad s' p' o' g')))))"
| "toRDF factory pr DefaultGraphTerm = Inr DefaultGraph"
| "toRDF factory pr (LiteralTerm l) =
     Inr (case typedValue l of
            NumericValue c x \<Rightarrow> numeric_toRDF factory pr l x
          | NonLexicalValue \<Rightarrow> nonlexical_toRDF factory pr l
          | _ \<Rightarrow> literal_toRDF factory pr l)"
| "toRDF factory pr (VariableTerm n) = Inl JSTypeError"

section \<open>From RDF\<close>

text \<open>The constructors used below: the value, the datatype and the text of a literal.\<close>

definition plain_literal :: "typed_value \<Rightarrow> string \<Rightarrow> string \<Rightarrow> term_literal" where
  "plain_literal val ty str =
     \<lparr>typedValue = val, dataType = ty, strValue = Some str, language = None, direction = None\<rparr>"

definition new_LangStringLiteral :: "string \<Rightarrow> string \<Rightarrow> term_literal" where
  "new_LangStringLiteral val lang =
     \<lparr>typedValue = LangStringValue val, dataType = type_iri RDF_LANG_STRING, strValue = Some val,
      language = Some lang, direction = None\<rparr>"

definition new_DirLangStringLiteral :: "string \<Rightarrow> string \<Rightarrow> string \<Rightarrow> term_literal" where
  "new_DirLangStringLiteral val lang dir =
     \<lparr>typedValue = DirLangStringValue val, dataType = type_iri RDF_DIR_LANG_STRING, strValue = Some val,
      language = Some lang, direction = Some dir\<rparr>"

text \<open>A parse error, which is an expression error, gives a non-lexical literal.\<close>

definition parsed_literal :: "('a \<Rightarrow> typed_value) \<Rightarrow> parse_error + 'a \<Rightarrow> string \<Rightarrow> string \<Rightarrow> term_literal" where
  "parsed_literal mk res ty str =
     (case res of Inr val \<Rightarrow> plain_literal (mk val) ty str | Inl e \<Rightarrow> plain_literal NonLexicalValue ty str)"

definition optional_literal :: "('a \<Rightarrow> typed_value) \<Rightarrow> 'a option \<Rightarrow> string \<Rightarrow> string \<Rightarrow> term_literal" where
  "optional_literal mk res ty str =
     (case res of Some val \<Rightarrow> plain_literal (mk val) ty str | None \<Rightarrow> plain_literal NonLexicalValue ty str)"

text \<open>The cases of \<open>transformLiteral\<close> for a literal with a datatype; \<open>inDict\<close> tells the super types of it, and
  \<open>dateParses\<close> the texts for which \<open>new Date\<close> is a valid date.\<close>

definition literal_of_type ::
  "(string \<Rightarrow> bool) \<Rightarrow> (known_type \<Rightarrow> bool) \<Rightarrow> string \<Rightarrow> string \<Rightarrow> string \<Rightarrow> string \<Rightarrow> term_literal" where
  "literal_of_type dateParses inDict val lang ty dir =
     (if inDict XSD_STRING then plain_literal (StringValue val) ty val
      else if inDict RDF_LANG_STRING then new_LangStringLiteral val lang
      else if inDict RDF_DIR_LANG_STRING then new_DirLangStringLiteral val lang dir
      else if inDict XSD_YEAR_MONTH_DURATION
        then parsed_literal YearMonthDurationValue (parseYearMonthDuration val) ty val
      else if inDict XSD_DAY_TIME_DURATION
        then parsed_literal DayTimeDurationValue (parseDayTimeDuration val) ty val
      else if inDict XSD_DURATION then parsed_literal DurationValue (parseDuration val) ty val
      else if inDict XSD_DATE_TIME
        then (if \<not> dateParses val then plain_literal NonLexicalValue ty val
              else parsed_literal DateTimeValue (parseDateTime val) ty val)
      else if inDict XSD_DATE then parsed_literal DateValue (parseDate val) ty val
      else if inDict XSD_TIME then parsed_literal TimeValue (parseTime val) ty val
      else if inDict XSD_BOOLEAN
        then (if val \<noteq> ''true'' \<and> val \<noteq> ''false'' \<and> val \<noteq> ''1'' \<and> val \<noteq> ''0''
              then plain_literal NonLexicalValue ty val
              else plain_literal (BooleanValue (val = ''true'' \<or> val = ''1'')) (type_iri XSD_BOOLEAN) val)
      else if inDict XSD_DECIMAL
        then optional_literal (NumericValue (if inDict XSD_INTEGER then IntegerLiteral else DecimalLiteral))
               (parseXSDDecimal val) ty val
      else if inDict XSD_FLOAT \<or> inDict XSD_DOUBLE
        then optional_literal (NumericValue (if inDict XSD_FLOAT then FloatLiteral else DoubleLiteral))
               (parseXSDFloat val) ty val
      else plain_literal (OtherValue val) ty val)"

text \<open>The super type provider: the discoverer, its cache, and the bound on the chains it is followed along.  The
  result is \<open>None\<close> when a chain is longer than the bound.\<close>

definition transformLiteral ::
  "(string \<Rightarrow> bool) \<Rightarrow> nat \<Rightarrow> (string \<Rightarrow> lit_type option) \<Rightarrow> string \<Rightarrow> string \<Rightarrow> string \<Rightarrow> string \<Rightarrow>
   type_cache \<Rightarrow> (term_literal \<times> type_cache) option" where
  "transformLiteral dateParses fuel discoverer val lang ty dir cache =
     (if ty = [] then
        Some (if lang \<noteq> [] then new_LangStringLiteral val lang else plain_literal (StringValue val) (type_iri XSD_STRING) val, cache)
      else map_option (\<lambda>(d, cache'). (literal_of_type dateParses (\<lambda>k. js_has (dict_types d) (Known k)) val lang ty dir, cache'))
             (getSuperTypeDict fuel discoverer (lit_type_of ty) cache))"

text \<open>\<open>termToString\<close> of the package \<open>rdf-string\<close>, which gives the name of a variable, is an argument.\<close>

fun transformTerm ::
  "(rdf_term \<Rightarrow> string) \<Rightarrow> (string \<Rightarrow> bool) \<Rightarrow> nat \<Rightarrow> (string \<Rightarrow> lit_type option) \<Rightarrow> rdf_term \<Rightarrow>
   type_cache \<Rightarrow> (eval_term \<times> type_cache) option" where
  "transformTerm termToString dateParses fuel discoverer (Variable v) cache =
     Some (VariableTerm (termToString (Variable v)), cache)"
| "transformTerm termToString dateParses fuel discoverer (Literal val lang ty dir) cache =
     map_option (\<lambda>(l, cache'). (LiteralTerm l, cache')) (transformLiteral dateParses fuel discoverer val lang ty dir cache)"
| "transformTerm termToString dateParses fuel discoverer (NamedNode v) cache = Some (NamedNodeTerm v, cache)"
| "transformTerm termToString dateParses fuel discoverer (BlankNode v) cache = Some (BlankNodeTerm v, cache)"
| "transformTerm termToString dateParses fuel discoverer (Quad s p ob g) cache =
     Option.bind (transformTerm termToString dateParses fuel discoverer s cache) (\<lambda>(s', c1).
     Option.bind (transformTerm termToString dateParses fuel discoverer p c1) (\<lambda>(p', c2).
     Option.bind (transformTerm termToString dateParses fuel discoverer ob c2) (\<lambda>(o', c3).
     Option.bind (transformTerm termToString dateParses fuel discoverer g c3) (\<lambda>(g', c4).
       Some (QuadTerm s' p' o' g', c4)))))"
| "transformTerm termToString dateParses fuel discoverer DefaultGraph cache = Some (DefaultGraphTerm, cache)"

section \<open>The round trip\<close>

text \<open>The data factory of \<open>@rdfjs/types\<close>, as its documentation has it.\<close>

definition data_factory :: "literal_factory \<Rightarrow> bool" where
  "data_factory factory \<longleftrightarrow>
     (\<forall>v l. factory v (LangTag l) = Literal v l (type_iri RDF_LANG_STRING) []) \<and>
     (\<forall>v l d. factory v (DirTag l d) = Literal v l (type_iri RDF_DIR_LANG_STRING) d) \<and>
     (\<forall>v ty. factory v (TypeTag ty) = Literal v [] ty [])"

text \<open>A literal of RDF: it has a datatype, which is one of the two language types exactly if it has a language.
  Its text may have \<open>Infinity\<close> only in a string.\<close>

definition literal_ok :: "string \<Rightarrow> string \<Rightarrow> string \<Rightarrow> string \<Rightarrow> bool" where
  "literal_ok val lang ty dir \<longleftrightarrow>
     ty \<noteq> [] \<and> (ty = type_iri RDF_LANG_STRING \<longleftrightarrow> lang \<noteq> [] \<and> dir = []) \<and>
     (ty = type_iri RDF_DIR_LANG_STRING \<longleftrightarrow> lang \<noteq> [] \<and> dir \<noteq> []) \<and> (lang = [] \<longrightarrow> dir = []) \<and>
     (replace_first ''Infinity'' ''INF'' val = val \<or> ty = type_iri XSD_STRING)"

fun ground_ok :: "rdf_term \<Rightarrow> bool" where
  "ground_ok (Variable v) = False"
| "ground_ok (Literal val lang ty dir) = literal_ok val lang ty dir"
| "ground_ok (Quad s p ob g) = (ground_ok s \<and> ground_ok p \<and> ground_ok ob \<and> ground_ok g)"
| "ground_ok t = True"

text \<open>The super types that the code keeps apart: the classes of these types forget the datatype.\<close>

definition dict_apart :: "(known_type \<Rightarrow> bool) \<Rightarrow> string \<Rightarrow> bool" where
  "dict_apart inDict ty \<longleftrightarrow>
     (inDict RDF_LANG_STRING \<longleftrightarrow> ty = type_iri RDF_LANG_STRING) \<and>
     (inDict RDF_DIR_LANG_STRING \<longleftrightarrow> ty = type_iri RDF_DIR_LANG_STRING) \<and>
     (inDict XSD_BOOLEAN \<longrightarrow> ty = type_iri XSD_BOOLEAN) \<and> (ty = type_iri XSD_STRING \<longrightarrow> inDict XSD_STRING) \<and>
     (inDict XSD_STRING \<longrightarrow> \<not> inDict RDF_LANG_STRING \<and> \<not> inDict RDF_DIR_LANG_STRING)"

lemma type_iri_distinct [simp]:
  "type_iri RDF_LANG_STRING \<noteq> type_iri RDF_DIR_LANG_STRING" "type_iri RDF_DIR_LANG_STRING \<noteq> type_iri RDF_LANG_STRING"
  by simp_all

lemma plain_back:
  assumes "data_factory factory" "lang = [] \<and> dir = []"
    "replace_first ''Infinity'' ''INF'' val = val \<or> (\<exists>s. v = StringValue s)"
  shows "toRDF factory pr (LiteralTerm (plain_literal v ty val)) = Inr (Literal val lang ty dir)"
proof -
  have "literal_toRDF factory pr (plain_literal v ty val) = Literal val [] ty []"
    using assms(1) by (simp add: literal_toRDF_def plain_literal_def data_factory_def)
  moreover have "nonlexical_toRDF factory pr (plain_literal NonLexicalValue ty val) = Literal val [] ty []"
    using assms(1) by (simp add: nonlexical_toRDF_def plain_literal_def data_factory_def literal_str_def)
  ultimately show ?thesis using assms(2-)
    by (cases v) (auto simp: numeric_toRDF_def Let_def plain_literal_def split: jsnum.splits)
qed

text \<open>The literals that keep the datatype and the text.\<close>

definition keeps_text :: "string \<Rightarrow> string \<Rightarrow> term_literal \<Rightarrow> bool" where
  "keeps_text ty val l \<longleftrightarrow> (\<exists>v. l = plain_literal v ty val)"

lemma keeps_text_intros:
  "keeps_text ty val (plain_literal v ty val)"
  "keeps_text ty val (parsed_literal mk res ty val)"
  "keeps_text ty val (optional_literal mk opt ty val)"
  "(c \<Longrightarrow> keeps_text ty val l) \<Longrightarrow> (\<not> c \<Longrightarrow> keeps_text ty val l') \<Longrightarrow> keeps_text ty val (if c then l else l')"
  by (auto simp: keeps_text_def parsed_literal_def optional_literal_def split: sum.splits option.splits)

lemma literal_of_type_keeps:
  assumes "\<not> inDict RDF_LANG_STRING" "\<not> inDict RDF_DIR_LANG_STRING" "inDict XSD_BOOLEAN \<Longrightarrow> ty = type_iri XSD_BOOLEAN"
  shows "keeps_text ty val (literal_of_type dateParses inDict val lang ty dir)"
  unfolding literal_of_type_def if_not_P [OF assms(1)] if_not_P [OF assms(2)]
proof (intro keeps_text_intros)
  assume "inDict XSD_BOOLEAN"
  then show "keeps_text ty val (plain_literal (BooleanValue (val = ''true'' \<or> val = ''1'')) (type_iri XSD_BOOLEAN) val)"
    using assms(3) keeps_text_intros(1) by metis
qed

lemma literal_back:
  assumes factory: "data_factory factory" and ok: "literal_ok val lang ty dir" and apart: "dict_apart inDict ty"
  shows "toRDF factory pr (LiteralTerm (literal_of_type dateParses inDict val lang ty dir)) = Inr (Literal val lang ty dir)"
proof -
  consider (lang) "ty = type_iri RDF_LANG_STRING" | (dir) "ty = type_iri RDF_DIR_LANG_STRING"
    | (plain) "ty \<noteq> type_iri RDF_LANG_STRING" "ty \<noteq> type_iri RDF_DIR_LANG_STRING" by blast
  then show ?thesis
  proof cases
    case lang
    with ok apart have "literal_of_type dateParses inDict val lang ty dir = new_LangStringLiteral val lang" "dir = []"
      by (auto simp: literal_of_type_def dict_apart_def literal_ok_def)
    with factory lang show ?thesis
      by (simp add: new_LangStringLiteral_def literal_toRDF_def data_factory_def del: type_iri.simps)
  next
    case dir
    with ok apart have "literal_of_type dateParses inDict val lang ty dir = new_DirLangStringLiteral val lang dir"
      "dir \<noteq> []" "lang \<noteq> []"
      by (auto simp: literal_of_type_def dict_apart_def literal_ok_def)
    with factory dir show ?thesis
      by (simp add: new_DirLangStringLiteral_def literal_toRDF_def data_factory_def del: type_iri.simps)
  next
    case plain
    have empty: "lang = [] \<and> dir = []" using ok plain by (auto simp: literal_ok_def)
    have no_lang: "\<not> inDict RDF_LANG_STRING" "\<not> inDict RDF_DIR_LANG_STRING" using apart plain by (auto simp: dict_apart_def)
    show ?thesis
    proof (cases "inDict XSD_STRING")
      case True
      then show ?thesis by (simp add: literal_of_type_def plain_back [OF factory empty] del: toRDF.simps)
    next
      case False
      with ok apart have finite_text: "replace_first ''Infinity'' ''INF'' val = val"
        by (auto simp: literal_ok_def dict_apart_def)
      have kept: "toRDF factory pr (LiteralTerm (plain_literal v ty val)) = Inr (Literal val lang ty dir)" for v
        by (rule plain_back [OF factory empty]) (simp_all add: finite_text)
      have "keeps_text ty val (literal_of_type dateParses inDict val lang ty dir)"
        using no_lang apart by (intro literal_of_type_keeps) (simp_all add: dict_apart_def)
      then show ?thesis by (auto simp: keeps_text_def kept simp del: toRDF.simps)
    qed
  qed
qed

text \<open>The discoverer has no type below the ones that are kept apart.\<close>

definition discoverer_apart :: "(string \<Rightarrow> lit_type option) \<Rightarrow> bool" where
  "discoverer_apart discoverer \<longleftrightarrow>
     (\<forall>n ty d. discovered n discoverer ty = Some d \<longrightarrow>
        \<not> js_has (dict_types d) (Known RDF_LANG_STRING) \<and> \<not> js_has (dict_types d) (Known RDF_DIR_LANG_STRING) \<and>
        \<not> js_has (dict_types d) (Known XSD_BOOLEAN))"

lemma derives_apart:
  "derives k RDF_LANG_STRING \<longleftrightarrow> k = RDF_LANG_STRING" "derives k RDF_DIR_LANG_STRING \<longleftrightarrow> k = RDF_DIR_LANG_STRING"
  "derives k XSD_BOOLEAN \<longleftrightarrow> k = XSD_BOOLEAN"
  by (cases k; simp add: derives_None derives_Some)+

lemma type_iri_apart:
  "type_iri k = type_iri RDF_LANG_STRING \<longleftrightarrow> k = RDF_LANG_STRING"
  "type_iri k = type_iri RDF_DIR_LANG_STRING \<longleftrightarrow> k = RDF_DIR_LANG_STRING"
  "type_iri k = type_iri XSD_STRING \<longleftrightarrow> k = XSD_STRING"
  by (cases k; simp)+

lemma lit_type_Known: "lit_type_of ty = Known k \<Longrightarrow> type_iri k = ty"
  by (auto simp: lit_type_of_def asKnownLiteralType_def find_Some_iff split: option.splits)

lemma lit_type_Custom: "lit_type_of ty = Custom c \<Longrightarrow> c = ty \<and> ty \<noteq> type_iri k"
  using known_types_complete [of k]
  by (auto simp: lit_type_of_def asKnownLiteralType_def find_None_iff split: option.splits)

lemma dict_of_type:
  assumes "discoverer_apart D" "cache_ok D cache" "getSuperTypeDict fuel D (lit_type_of ty) cache = Some (d, cache')"
  shows "dict_apart (\<lambda>k. js_has (dict_types d) (Known k)) ty \<and> cache_ok D cache'"
proof (cases "lit_type_of ty")
  case (Known k)
  have has: "js_has (dict_types d) (Known j) = derives k j" for j
    using assms(3) Known by (auto simp: getSuperTypeDict_def superTypeDictTable_chain chain_dict_types split: if_splits)
  have strings: "derives XSD_STRING XSD_STRING" "\<not> derives RDF_LANG_STRING XSD_STRING" "\<not> derives RDF_DIR_LANG_STRING XSD_STRING"
    by (simp_all add: derives_refl derives_None derives_Some)
  have ty: "ty = type_iri k" using lit_type_Known [OF Known] by simp
  have "dict_apart (\<lambda>k. js_has (dict_types d) (Known k)) ty"
    unfolding dict_apart_def has derives_apart ty type_iri_apart using strings by blast
  with assms(2,3) Known show ?thesis by (simp add: getSuperTypeDict_def)
next
  case (Custom c)
  note custom = lit_type_Custom [OF Custom]
  from assms(3) Custom custom have "getSuperTypes fuel D ty cache = Some (d, cache')"
    by (simp add: getSuperTypeDict_def)
  from getSuperTypes_discovered [OF assms(2) this] obtain n where "discovered n D ty = Some d" "cache_ok D cache'"
    by blast
  with assms(1) custom show ?thesis
    unfolding dict_apart_def discoverer_apart_def by blast
qed

lemma transformLiteral_back:
  assumes "data_factory factory" "literal_ok val lang ty dir" "discoverer_apart D" "cache_ok D cache"
    "transformLiteral dateParses fuel D val lang ty dir cache = Some (l, cache')"
  shows "toRDF factory pr (LiteralTerm l) = Inr (Literal val lang ty dir) \<and> cache_ok D cache'"
proof -
  from assms(2,5) obtain d where "getSuperTypeDict fuel D (lit_type_of ty) cache = Some (d, cache')"
    "l = literal_of_type dateParses (\<lambda>k. js_has (dict_types d) (Known k)) val lang ty dir"
    by (auto simp: transformLiteral_def literal_ok_def)
  with dict_of_type [OF assms(3,4) this(1)] literal_back [OF assms(1,2)] show ?thesis by blast
qed

text \<open>The super types of the datatypes in a term, which a function of the user gives for the unknown ones, end
  within the fuel.\<close>

definition type_ends :: "nat \<Rightarrow> (string \<Rightarrow> lit_type option) \<Rightarrow> string \<Rightarrow> bool" where
  "type_ends fuel D ty = (case lit_type_of ty of Known k \<Rightarrow> True | Custom c \<Rightarrow> discovered fuel D c \<noteq> None)"

fun types_end :: "nat \<Rightarrow> (string \<Rightarrow> lit_type option) \<Rightarrow> rdf_term \<Rightarrow> bool" where
  "types_end fuel D (Literal val lang ty dir) = type_ends fuel D ty"
| "types_end fuel D (Quad s p ob g) =
     (types_end fuel D s \<and> types_end fuel D p \<and> types_end fuel D ob \<and> types_end fuel D g)"
| "types_end fuel D t = True"

lemma transformLiteral_ends:
  assumes "cache_ok D cache" "type_ends fuel D ty"
  shows "transformLiteral dateParses fuel D val lang ty dir cache \<noteq> None"
proof (cases "lit_type_of ty")
  case (Custom c)
  with assms(2) obtain d where "discovered fuel D c = Some d" by (auto simp: type_ends_def)
  from getSuperTypes_complete [OF assms(1) this] Custom show ?thesis
    by (auto simp: transformLiteral_def getSuperTypeDict_def)
qed (simp add: transformLiteral_def getSuperTypeDict_def)

text \<open>C20. A ground RDF term becomes a typed term that converts back to the same RDF term, text, language, direction
  and datatype included; a literal with an invalid text is kept as it is.  The conditions: the super types of
  its datatypes end within the fuel (then the conversion does not fail), no datatype is derived from the boolean
  or a language-tagged type (\<open>derived_boolean_lost\<close>), and only texts of strings may contain \<open>Infinity\<close>
  (\<open>decimal_texts\<close>).\<close>

theorem term_roundtrip:
  assumes "data_factory factory" "discoverer_apart D" "cache_ok D cache" "ground_ok t" "types_end fuel D t"
  shows "\<exists>e cache'. transformTerm termToString dateParses fuel D t cache = Some (e, cache') \<and>
    toRDF factory pr e = Inr t \<and> cache_ok D cache'"
  using assms(3-)
proof (induction t arbitrary: cache)
  case (Literal val lang ty dir)
  then have "transformLiteral dateParses fuel D val lang ty dir cache \<noteq> None"
    by (intro transformLiteral_ends) simp_all
  then obtain l cache' where l: "transformLiteral dateParses fuel D val lang ty dir cache = Some (l, cache')" by auto
  have "literal_ok val lang ty dir" using Literal.prems by simp
  from transformLiteral_back [OF assms(1) this assms(2) Literal.prems(1) l] l show ?case by (simp del: toRDF.simps)
next
  case (Quad s p ob g)
  from Quad.prems have ok: "ground_ok s" "ground_ok p" "ground_ok ob" "ground_ok g"
    "types_end fuel D s" "types_end fuel D p" "types_end fuel D ob" "types_end fuel D g" by simp_all
  from Quad.IH(1) [OF Quad.prems(1) ok(1,5)] obtain s' c1 where 1:
    "transformTerm termToString dateParses fuel D s cache = Some (s', c1)" "toRDF factory pr s' = Inr s" "cache_ok D c1" by blast
  from Quad.IH(2) [OF 1(3) ok(2,6)] obtain p' c2 where 2:
    "transformTerm termToString dateParses fuel D p c1 = Some (p', c2)" "toRDF factory pr p' = Inr p" "cache_ok D c2" by blast
  from Quad.IH(3) [OF 2(3) ok(3,7)] obtain o' c3 where 3:
    "transformTerm termToString dateParses fuel D ob c2 = Some (o', c3)" "toRDF factory pr o' = Inr ob" "cache_ok D c3" by blast
  from Quad.IH(4) [OF 3(3) ok(4,8)] obtain g' c4 where 4:
    "transformTerm termToString dateParses fuel D g c3 = Some (g', c4)" "toRDF factory pr g' = Inr g" "cache_ok D c4" by blast
  from 1 2 3 4 show ?case by simp
qed auto

definition plain_factory :: literal_factory where
  "plain_factory v tag =
     (case tag of
        LangTag l \<Rightarrow> Literal v l (type_iri RDF_LANG_STRING) []
      | DirTag l d \<Rightarrow> Literal v l (type_iri RDF_DIR_LANG_STRING) d
      | TypeTag ty \<Rightarrow> Literal v [] ty [])"

definition no_printer :: js_printer where
  "no_printer = \<lparr>print_fixed = (\<lambda>x. []), print_string = (\<lambda>x. []), print_exponential = (\<lambda>x. [])\<rparr>"

definition five :: rdf_term where
  "five = Literal ''5'' [] (type_iri XSD_INTEGER) []"

definition annotated :: rdf_term where
  "annotated = Quad (NamedNode ''s'') (NamedNode ''p'') five DefaultGraph"

lemma plain_factory_ok: "data_factory plain_factory"
  by (simp add: data_factory_def plain_factory_def)

lemma no_discoverer_ok: "discoverer_apart (\<lambda>ty. None)"
proof -
  have "discovered n (\<lambda>ty. None) ty = Some d \<Longrightarrow> d = base_dict (Custom ty)" for n ty d by (cases n) auto
  from this show ?thesis unfolding discoverer_apart_def
    by (intro allI impI) (metis (no_types, lifting) base_dict_def lit_type.distinct(1) map_of.simps super_dict.select_convs(2) fst_conv option.simps(3) fun_upd_apply)
qed

lemma lit_type_of_iri: "lit_type_of (type_iri k) = Known k"
  by (cases k; simp add: lit_type_of_def asKnownLiteralType_def known_types_def)

lemma known_dict: "(\<lambda>j. js_has (dict_types (superTypeDictTable k)) (Known j)) = derives k"
  by (rule ext) (auto simp: superTypeDictTable_chain chain_dict_types split: if_splits)

lemma type_iri_not_Nil: "type_iri k \<noteq> []"
  by (cases k; simp add: xsd_def)

lemma transformLiteral_known:
  "transformLiteral dateParses fuel D val lang (type_iri k) dir cache =
     Some (literal_of_type dateParses (derives k) val lang (type_iri k) dir, cache)"
  unfolding transformLiteral_def getSuperTypeDict_def lit_type_of_iri if_not_P [OF type_iri_not_Nil]
  by (simp only: lit_type.case option.map prod.case known_dict)

lemma read_five: "parseXSDDecimal ''5'' = Some (Num 5)"
  by (simp add: parseXSDDecimal_def js_Number_def js_trim_def is_space_def radix_of_def split_sign_def unsigned_decimal_def
      is_digit_def fraction_part_def exponent_part_def nat_value_def digit_value_def ten_power_def to_double_def double_limit_def)

lemma annotated_transformed:
  "transformTerm (\<lambda>v. []) (\<lambda>s. True) 1 (\<lambda>ty. None) annotated [] =
     Some (QuadTerm (NamedNodeTerm ''s'') (NamedNodeTerm ''p'')
       (LiteralTerm (plain_literal (NumericValue IntegerLiteral (Num 5)) (type_iri XSD_INTEGER) ''5'')) DefaultGraphTerm, [])"
proof -
  have "literal_of_type (\<lambda>s. True) (derives XSD_INTEGER) ''5'' [] (type_iri XSD_INTEGER) [] =
      plain_literal (NumericValue IntegerLiteral (Num 5)) (type_iri XSD_INTEGER) ''5''"
    by (simp add: literal_of_type_def derives_Some derives_None optional_literal_def read_five)
  then show ?thesis by (simp add: annotated_def five_def transformLiteral_known del: type_iri.simps)
qed

lemma term_roundtrip_witness:
  "toRDF plain_factory no_printer
     (QuadTerm (NamedNodeTerm ''s'') (NamedNodeTerm ''p'')
       (LiteralTerm (plain_literal (NumericValue IntegerLiteral (Num 5)) (type_iri XSD_INTEGER) ''5'')) DefaultGraphTerm) =
   Inr annotated"
proof -
  have "ground_ok annotated" by (simp add: annotated_def five_def literal_ok_def)
  moreover have "types_end 1 (\<lambda>ty. None) annotated"
    by (simp add: annotated_def five_def type_ends_def lit_type_of_iri del: type_iri.simps)
  moreover have "cache_ok (\<lambda>ty. None) []" by (simp add: cache_ok_def)
  ultimately have "\<exists>e cache'. transformTerm (\<lambda>v. []) (\<lambda>s. True) 1 (\<lambda>ty. None) annotated [] = Some (e, cache') \<and>
      toRDF plain_factory no_printer e = Inr annotated \<and> cache_ok (\<lambda>ty. None) cache'"
    by (intro term_roundtrip [OF plain_factory_ok no_discoverer_ok])
  then show ?thesis unfolding annotated_transformed option.inject prod.inject by blast
qed

section \<open>Effective boolean values of RDF literals\<close>

definition ebv_spec :: "known_type \<Rightarrow> string \<Rightarrow> expr_error + bool" where
  "ebv_spec k val =
     (let number = (\<lambda>x. case x of None \<Rightarrow> Inl EBVCoercionError | Some n \<Rightarrow> Inr (n \<noteq> NaN \<and> n \<noteq> Num 0))
      in if derives k XSD_STRING then Inr (val \<noteq> [])
         else if k = XSD_BOOLEAN
           then (if val \<in> {''true'', ''1''} then Inr True else if val \<in> {''false'', ''0''} then Inr False else Inl EBVCoercionError)
         else if derives k XSD_DECIMAL then number (parseXSDDecimal val)
         else if k = XSD_FLOAT \<or> k = XSD_DOUBLE then number (parseXSDFloat val)
         else Inl EBVCoercionError)"

lemmas plain_ebv = plain_literal_def new_LangStringLiteral_def new_DirLangStringLiteral_def literal_str_def
  parsed_literal_def optional_literal_def

lemma ebv_of_type:
  "coerceEBV pr (LiteralTerm (literal_of_type dateParses (derives k) val lang ty dir)) = ebv_spec k val"
  by (cases k; simp add: literal_of_type_def derives_Some derives_None ebv_spec_def plain_ebv split: sum.split option.split)

text \<open>The effective boolean value of a literal with a known datatype: a string is true unless it is empty,
  whatever its place below \<open>xsd:string\<close>, a boolean has its value, a number is true unless it is zero or not a
  number, and a literal of another type, or with an invalid text, has none.\<close>

theorem ebv_of_literal:
  "map_option (\<lambda>(l, cache'). coerceEBV pr (LiteralTerm l))
     (transformLiteral dateParses fuel D val lang (type_iri k) dir cache) = Some (ebv_spec k val)"
  unfolding transformLiteral_known by (simp only: option.map prod.case ebv_of_type)

section \<open>Texts that are not kept\<close>

text \<open>\<open>transformLiteral\<close> takes the text that JavaScript reads as a number for the text of a decimal: the empty
  text, an exponent, a hexadecimal literal and \<open>Infinity\<close>, which then is written back as another text.\<close>

theorem decimal_texts:
  "parseXSDDecimal [] = Some (Num 0) \<and> parseXSDDecimal ''1e3'' = Some (Num 1000) \<and>
   parseXSDDecimal ''0x1F'' = Some (Num 31) \<and> parseXSDDecimal ''Infinity'' = Some PInf \<and>
   map_option (\<lambda>(l, cache'). toRDF plain_factory pr (LiteralTerm l))
     (transformLiteral dateParses fuel D ''Infinity'' [] (type_iri XSD_DECIMAL) [] cache) =
   Some (Inr (Literal ''INF'' [] (type_iri XSD_DECIMAL) []))"
proof (intro conjI)
  note reads = parseXSDDecimal_def js_Number_def js_trim_def is_space_def radix_of_def split_sign_def unsigned_decimal_def
      is_digit_def fraction_part_def exponent_part_def nat_value_def digit_value_def ten_power_def to_double_def double_limit_def
      radix_value_def radix_digit_def
  show "parseXSDDecimal [] = Some (Num 0)" by (simp add: reads)
  show "parseXSDDecimal ''1e3'' = Some (Num 1000)" by (simp add: reads)
  show "parseXSDDecimal ''0x1F'' = Some (Num 31)" by (simp add: reads Let_def)
  show infinity: "parseXSDDecimal ''Infinity'' = Some PInf" by (simp add: reads)
  have "literal_of_type dateParses (derives XSD_DECIMAL) ''Infinity'' [] (type_iri XSD_DECIMAL) [] =
      plain_literal (NumericValue DecimalLiteral PInf) (type_iri XSD_DECIMAL) ''Infinity''"
    by (simp add: literal_of_type_def derives_Some derives_None optional_literal_def infinity)
  then show "map_option (\<lambda>(l, cache'). toRDF plain_factory pr (LiteralTerm l))
     (transformLiteral dateParses fuel D ''Infinity'' [] (type_iri XSD_DECIMAL) [] cache) =
   Some (Inr (Literal ''INF'' [] (type_iri XSD_DECIMAL) []))"
    by (simp add: transformLiteral_known numeric_toRDF_def Let_def literal_toRDF_def plain_literal_def plain_factory_def del: type_iri.simps)
qed

text \<open>The string of a time is its serialization and not its text: \<open>24:00:00\<close> has the string \<open>00:00:00\<close>, while the
  RDF term that the typed term converts to keeps \<open>24:00:00\<close>.\<close>

theorem time_string:
  "map_option (\<lambda>(l, cache'). (literal_str pr l, toRDF plain_factory pr (LiteralTerm l)))
     (transformLiteral dateParses fuel D ''24:00:00'' [] (type_iri XSD_TIME) [] cache) =
   Some (''00:00:00'', Inr (Literal ''24:00:00'' [] (type_iri XSD_TIME) []))"
proof -
  define midnight where "midnight = \<lparr>tz_hours = None, tz_minutes = None, t_hours = 0, t_minutes = 0, t_seconds = 0\<rparr>"
  have "parseTime ''24:00:00'' = Inr midnight"
    by (simp add: midnight_def parseTime_def parseTime_raw_def match_time_def match_fraction_def parse_simps decimal_value_def)
  then have "literal_of_type dateParses (derives XSD_TIME) ''24:00:00'' [] (type_iri XSD_TIME) [] =
      plain_literal (TimeValue midnight) (type_iri XSD_TIME) ''24:00:00''"
    by (simp add: literal_of_type_def derives_Some derives_None parsed_literal_def)
  moreover have "numSerializer 0 2 = ''00''"
    using numSerializer_int [of 0 2] by (simp add: pad_left_def nat_string.simps digit_chars)
  then have "serializeTime midnight = ''00:00:00''"
    by (simp add: midnight_def serializeTime_def serializeTimeZone_def)
  ultimately show ?thesis
    by (simp add: transformLiteral_known literal_str_def literal_toRDF_def plain_literal_def plain_factory_def del: type_iri.simps)
qed

text \<open>A literal of a datatype below \<open>xsd:boolean\<close> that the discoverer knows loses its datatype: it is written back
  as an \<open>xsd:boolean\<close>.\<close>

theorem derived_boolean_lost:
  "map_option (\<lambda>(l, cache'). toRDF plain_factory pr (LiteralTerm l))
     (transformLiteral dateParses 1 (\<lambda>ty. Some (Known XSD_BOOLEAN)) ''true'' [] ''flag'' [] []) =
   Some (Inr (Literal ''true'' [] (type_iri XSD_BOOLEAN) []))"
proof -
  have custom: "lit_type_of ''flag'' = Custom ''flag''"
    by (simp add: lit_type_of_def asKnownLiteralType_def known_types_def xsd_def)
  have "js_has (dict_types (extend_dict (Custom ''flag'') (superTypeDictTable XSD_BOOLEAN))) (Known j) = derives XSD_BOOLEAN j" for j
    by (auto simp: extend_dict_def superTypeDictTable_chain chain_dict_types split: if_splits)
  then have "(\<lambda>j. js_has (dict_types (extend_dict (Custom ''flag'') (superTypeDictTable XSD_BOOLEAN))) (Known j)) = derives XSD_BOOLEAN"
    by (rule ext)
  then have "transformLiteral dateParses 1 (\<lambda>ty. Some (Known XSD_BOOLEAN)) ''true'' [] ''flag'' [] [] =
      Some (literal_of_type dateParses (derives XSD_BOOLEAN) ''true'' [] ''flag'' [],
        js_set [] ''flag'' (extend_dict (Custom ''flag'') (superTypeDictTable XSD_BOOLEAN)))"
    unfolding transformLiteral_def getSuperTypeDict_def custom by (simp add: Let_def)
  then show ?thesis
    by (simp add: literal_of_type_def derives_Some derives_None literal_toRDF_def plain_literal_def plain_factory_def)
qed

end
