(* ===== verification/Expression_Eval.thy ===== *)
theory Expression_Eval
  imports Term_Values Bindings Algebra
begin

text \<open>
  The evaluation of expressions (\<open>packages/actor-expression-evaluator-factory-default/lib/\<close>) and the functions
  whose arguments are expressions and not terms
  (\<open>packages/actor-function-factory-expression-*/lib/\<close>): the logical connectives, \<open>IF\<close>, \<open>COALESCE\<close>,
  \<open>IN\<close>, \<open>NOT IN\<close>, \<open>BOUND\<close> and \<open>sameTerm\<close>.  A promise that is rejected is an \<open>Inl\<close>, and of several
  arguments that fail the first one counts.  Evaluating an argument twice, as the connectives do, gives
  the same result.
\<close>

section \<open>Expressions\<close>

datatype 'q eval_expr =
    Term_expr eval_term
  | Variable_expr string
  | Operator_expr string "'q eval_expr list"
  | Existence_expr bool 'q
  | Aggregate_expr string

text \<open>What the evaluation reaches over buses or takes from the context: the data factory, the transformer of
  terms, the functions on terms with their overloads, the other functions on expressions, the execution
  of a subquery up to its first solution, and the arities that the functions accept.  A function that no
  actor provides has no arity.\<close>

record ('q, 'v) eval_env =
  env_printer :: js_printer
  env_factory :: literal_factory
  env_transform :: "rdf_term \<Rightarrow> expr_error + eval_term"
  env_termFunction :: "string \<Rightarrow> (eval_term list \<Rightarrow> expr_error + eval_term) option"
  env_otherFunction :: "string \<Rightarrow> (expr_error + eval_term) list \<Rightarrow> expr_error + eval_term"
  env_exists :: "'q \<Rightarrow> (rdf_term, 'v) bindings \<Rightarrow> expr_error + bool"
  env_checkArity :: "string \<Rightarrow> (nat \<Rightarrow> bool) option"

section \<open>Functions on expressions\<close>

text \<open>\<open>bool(val)\<close>, and the truth that JavaScript gives to the typed value of a term.\<close>

definition boolean_term :: "bool \<Rightarrow> eval_term" where
  "boolean_term b = LiteralTerm \<lparr>typedValue = BooleanValue b, dataType = type_iri XSD_BOOLEAN, strValue = None,
     language = None, direction = None\<rparr>"

fun truthy_value :: "typed_value \<Rightarrow> bool" where
  "truthy_value (BooleanValue b) = b"
| "truthy_value (NumericValue c x) = (x \<noteq> NaN \<and> x \<noteq> Num 0)"
| "truthy_value (LangStringValue s) = (s \<noteq> [])"
| "truthy_value (DirLangStringValue s) = (s \<noteq> [])"
| "truthy_value (StringValue s) = (s \<noteq> [])"
| "truthy_value (OtherValue s) = (s \<noteq> [])"
| "truthy_value _ = True"

fun truthy_typedValue :: "eval_term \<Rightarrow> bool" where
  "truthy_typedValue (LiteralTerm l) = truthy_value (typedValue l)"
| "truthy_typedValue _ = False"

definition result_ebv :: "js_printer \<Rightarrow> expr_error + eval_term \<Rightarrow> expr_error + bool" where
  "result_ebv pr r = bind_res r (coerceEBV pr)"

definition logicalAnd :: "js_printer \<Rightarrow> expr_error + eval_term \<Rightarrow> expr_error + eval_term \<Rightarrow> expr_error + eval_term" where
  "logicalAnd pr leftExpr rightExpr =
     (let recover = (\<lambda>error. bind_res (result_ebv pr rightExpr) (\<lambda>rightError.
            if rightError then Inl error else Inr (boolean_term False)))
      in case result_ebv pr leftExpr of
           Inl error \<Rightarrow> recover error
         | Inr left \<Rightarrow>
             if \<not> left then Inr (boolean_term False)
             else (case result_ebv pr rightExpr of Inl error \<Rightarrow> recover error | Inr right \<Rightarrow> Inr (boolean_term right)))"

definition logicalOr :: "js_printer \<Rightarrow> expr_error + eval_term \<Rightarrow> expr_error + eval_term \<Rightarrow> expr_error + eval_term" where
  "logicalOr pr leftExpr rightExpr =
     (let recover = (\<lambda>error. bind_res (result_ebv pr rightExpr) (\<lambda>rightError.
            if \<not> rightError then Inl error else Inr (boolean_term True)))
      in case result_ebv pr leftExpr of
           Inl error \<Rightarrow> recover error
         | Inr left \<Rightarrow>
             if left then Inr (boolean_term True)
             else (case result_ebv pr rightExpr of Inl error \<Rightarrow> recover error | Inr right \<Rightarrow> Inr (boolean_term right)))"

definition if_function ::
  "js_printer \<Rightarrow> expr_error + eval_term \<Rightarrow> expr_error + eval_term \<Rightarrow> expr_error + eval_term \<Rightarrow> expr_error + eval_term" where
  "if_function pr c t e = bind_res (result_ebv pr c) (\<lambda>ebv. if ebv then t else e)"

fun coalesce_loop :: "(expr_error + eval_term) list \<Rightarrow> expr_error list \<Rightarrow> expr_error + eval_term" where
  "coalesce_loop [] errors = Inl (CoalesceError errors)"
| "coalesce_loop (r # rs) errors = (case r of Inr t \<Rightarrow> Inr t | Inl e \<Rightarrow> coalesce_loop rs (errors @ [e]))"

definition coalesce :: "(expr_error + eval_term) list \<Rightarrow> expr_error + eval_term" where
  "coalesce args = coalesce_loop args []"

fun inRecursive ::
  "(eval_term \<Rightarrow> eval_term \<Rightarrow> expr_error + eval_term) \<Rightarrow> eval_term \<Rightarrow> (expr_error + eval_term) list \<Rightarrow>
   expr_error option list \<Rightarrow> expr_error + eval_term" where
  "inRecursive eq needle [] results =
     (if list_all (\<lambda>r. r = None) results then Inr (boolean_term False) else Inl (InError results))"
| "inRecursive eq needle (arg # args) results =
     (case bind_res arg (eq needle) of
        Inr t \<Rightarrow> if truthy_typedValue t then Inr (boolean_term True) else inRecursive eq needle args (results @ [None])
      | Inl error \<Rightarrow> inRecursive eq needle args (results @ [Some error]))"

definition in_function ::
  "(eval_term \<Rightarrow> eval_term \<Rightarrow> expr_error + eval_term) \<Rightarrow> expr_error + eval_term \<Rightarrow> (expr_error + eval_term) list \<Rightarrow>
   expr_error + eval_term" where
  "in_function eq leftExpr remaining = bind_res leftExpr (\<lambda>left. inRecursive eq left remaining [])"

definition not_in_function ::
  "(eval_term \<Rightarrow> eval_term \<Rightarrow> expr_error + eval_term) \<Rightarrow> expr_error + eval_term \<Rightarrow> (expr_error + eval_term) list \<Rightarrow>
   expr_error + eval_term" where
  "not_in_function eq leftExpr remaining =
     bind_res (in_function eq leftExpr remaining) (\<lambda>isIn. Inr (boolean_term (\<not> truthy_typedValue isIn)))"

text \<open>\<open>expressionToVar\<close> drops the question mark of the name.\<close>

fun bound_function :: "(rdf_term, 'v) bindings \<Rightarrow> 'q eval_expr \<Rightarrow> expr_error + eval_term" where
  "bound_function mapping (Variable_expr name) = Inr (boolean_term (b_has mapping (drop 1 name)))"
| "bound_function mapping _ = Inl InvalidArgumentTypes"

definition same_term :: "literal_factory \<Rightarrow> js_printer \<Rightarrow> expr_error + eval_term \<Rightarrow> expr_error + eval_term \<Rightarrow> expr_error + eval_term" where
  "same_term factory pr leftExpr rightExpr =
     bind_res leftExpr (\<lambda>left. bind_res rightExpr (\<lambda>right.
     bind_res (toRDF factory pr left) (\<lambda>l. bind_res (toRDF factory pr right) (\<lambda>r. Inr (boolean_term (l = r))))))"

section \<open>The evaluator\<close>

text \<open>The function of an operator, by its name.  A dedicated function has the arity of its \<open>checkArity\<close>, which is
  tested when the operator is made.\<close>

definition equality :: "('q, 'v) eval_env \<Rightarrow> eval_term \<Rightarrow> eval_term \<Rightarrow> expr_error + eval_term" where
  "equality env a b = (case env_termFunction env ''='' of None \<Rightarrow> Inl MediatorError | Some f \<Rightarrow> f [a, b])"

definition apply_operator ::
  "('q, 'v) eval_env \<Rightarrow> (rdf_term, 'v) bindings \<Rightarrow> string \<Rightarrow> 'q eval_expr list \<Rightarrow> (expr_error + eval_term) list \<Rightarrow>
   expr_error + eval_term" where
  "apply_operator env mapping name args results =
     (if name = ''&&'' then logicalAnd (env_printer env) (results ! 0) (results ! 1)
      else if name = ''||'' then logicalOr (env_printer env) (results ! 0) (results ! 1)
      else if name = ''if'' then if_function (env_printer env) (results ! 0) (results ! 1) (results ! 2)
      else if name = ''coalesce'' then coalesce results
      else if name = ''in'' then in_function (equality env) (hd results) (tl results)
      else if name = ''notin'' then not_in_function (equality env) (hd results) (tl results)
      else if name = ''bound'' then bound_function mapping (hd args)
      else if name = ''sameterm'' then same_term (env_factory env) (env_printer env) (results ! 0) (results ! 1)
      else (case env_termFunction env name of
              Some f \<Rightarrow> bind_res (map_res id results) f
            | None \<Rightarrow> env_otherFunction env name results))"

definition eval_variable :: "('q, 'v) eval_env \<Rightarrow> (rdf_term, 'v) bindings \<Rightarrow> string \<Rightarrow> expr_error + eval_term" where
  "eval_variable env mapping name =
     (case b_get mapping (drop 1 name) of
        None \<Rightarrow> Inl (UnboundVariableError name)
      | Some t \<Rightarrow> env_transform env t)"

definition evalExistence :: "('q, 'v) eval_env \<Rightarrow> (rdf_term, 'v) bindings \<Rightarrow> bool \<Rightarrow> 'q \<Rightarrow> expr_error + eval_term" where
  "evalExistence env mapping no q =
     bind_res (env_exists env q mapping) (\<lambda>exists. Inr (boolean_term (if no then \<not> exists else exists)))"

fun exprEvaluation :: "('q, 'v) eval_env \<Rightarrow> (rdf_term, 'v) bindings \<Rightarrow> 'q eval_expr \<Rightarrow> expr_error + eval_term" where
  "exprEvaluation env mapping (Term_expr t) = Inr t"
| "exprEvaluation env mapping (Variable_expr name) = eval_variable env mapping name"
| "exprEvaluation env mapping (Operator_expr name args) =
     apply_operator env mapping name args (map (exprEvaluation env mapping) args)"
| "exprEvaluation env mapping (Existence_expr no q) = evalExistence env mapping no q"
| "exprEvaluation env mapping (Aggregate_expr name) = Inl NoAggregator"

definition evaluate :: "('q, 'v) eval_env \<Rightarrow> 'q eval_expr \<Rightarrow> (rdf_term, 'v) bindings \<Rightarrow> expr_error + rdf_term" where
  "evaluate env e mapping = bind_res (exprEvaluation env mapping e) (toRDF (env_factory env) (env_printer env))"

definition evaluateAsEBV :: "('q, 'v) eval_env \<Rightarrow> 'q eval_expr \<Rightarrow> (rdf_term, 'v) bindings \<Rightarrow> expr_error + bool" where
  "evaluateAsEBV env e mapping = result_ebv (env_printer env) (exprEvaluation env mapping e)"

section \<open>From the algebra\<close>

text \<open>\<open>AlgebraTransformer\<close>: a term becomes a term or a variable, a triple term and an operator become operators
  with a function that a mediator provides and whose arity is checked.\<close>

definition dedicated_arity :: "string \<Rightarrow> (nat \<Rightarrow> bool) option" where
  "dedicated_arity name =
     (if name \<in> {''&&'', ''||'', ''sameterm''} then Some (\<lambda>n. n = 2)
      else if name = ''if'' then Some (\<lambda>n. n = 3)
      else if name = ''bound'' then Some (\<lambda>n. n = 1)
      else if name = ''coalesce'' then Some (\<lambda>n. True)
      else if name \<in> {''in'', ''notin''} then Some (\<lambda>n. 0 < n)
      else None)"

definition provided_arity :: "('q, 'v) eval_env \<Rightarrow> string \<Rightarrow> (nat \<Rightarrow> bool) option" where
  "provided_arity env name =
     (case dedicated_arity name of
        Some check \<Rightarrow> if name \<in> {''in'', ''notin''} \<and> env_termFunction env ''='' = None then None else Some check
      | None \<Rightarrow> env_checkArity env name)"

definition getOperator :: "('q, 'v) eval_env \<Rightarrow> string \<Rightarrow> expr_error + 'q eval_expr list \<Rightarrow> expr_error + 'q eval_expr" where
  "getOperator env operator operatorArgs =
     (case provided_arity env operator of
        None \<Rightarrow> Inl MediatorError
      | Some checkArity \<Rightarrow>
          bind_res operatorArgs (\<lambda>args.
            if \<not> checkArity (length args) then Inl InvalidArity else Inr (Operator_expr operator args)))"

definition lower_char :: "char \<Rightarrow> char" where
  "lower_char c = (let n = of_char c :: nat in if 65 \<le> n \<and> n \<le> 90 then char_of (n + 32) else c)"

definition expression_of_term :: "('q, 'v) eval_env \<Rightarrow> rdf_term \<Rightarrow> expr_error + 'q eval_expr" where
  "expression_of_term env t =
     bind_res (env_transform env t) (\<lambda>e. case e of VariableTerm n \<Rightarrow> Inr (Variable_expr n) | _ \<Rightarrow> Inr (Term_expr e))"

fun transform_term_expression :: "('q, 'v) eval_env \<Rightarrow> rdf_term \<Rightarrow> expr_error + 'q eval_expr" where
  "transform_term_expression env (Quad s p ob g) =
     getOperator env ''triple''
       (map_res id [transform_term_expression env s, transform_term_expression env p, transform_term_expression env ob])"
| "transform_term_expression env t = expression_of_term env t"

lemma map_res_cong [fundef_cong]:
  "xs = ys \<Longrightarrow> (\<And>x. x \<in> set ys \<Longrightarrow> f x = g x) \<Longrightarrow> map_res f xs = map_res g ys"
  by (induction ys arbitrary: xs) auto

fun transformAlgebra :: "('q, 'v) eval_env \<Rightarrow> 'q expression \<Rightarrow> expr_error + 'q eval_expr" where
  "transformAlgebra env (E_term t) = transform_term_expression env t"
| "transformAlgebra env (E_operator operator args) =
     getOperator env (map lower_char operator) (map_res (transformAlgebra env) args)"
| "transformAlgebra env (E_named name args) = getOperator env name (map_res (transformAlgebra env) args)"
| "transformAlgebra env (E_existence no q) = Inr (Existence_expr no q)"
| "transformAlgebra env (E_aggregate name e) = Inr (Aggregate_expr name)"
| "transformAlgebra env E_wildcard = Inr (Term_expr (NamedNodeTerm ''*''))"

section \<open>Three-valued logic\<close>

text \<open>The truth of a result, \<open>None\<close> for an error, and the connectives of SPARQL on it.\<close>

definition truth :: "js_printer \<Rightarrow> expr_error + eval_term \<Rightarrow> bool option" where
  "truth pr r = (case result_ebv pr r of Inr b \<Rightarrow> Some b | Inl e \<Rightarrow> None)"

fun kleene_and :: "bool option \<Rightarrow> bool option \<Rightarrow> bool option" where
  "kleene_and (Some True) b = b"
| "kleene_and (Some False) b = Some False"
| "kleene_and None (Some False) = Some False"
| "kleene_and None b = None"

fun kleene_or :: "bool option \<Rightarrow> bool option \<Rightarrow> bool option" where
  "kleene_or (Some False) b = b"
| "kleene_or (Some True) b = Some True"
| "kleene_or None (Some True) = Some True"
| "kleene_or None b = None"

definition kleene_not :: "bool option \<Rightarrow> bool option" where
  "kleene_not a = map_option Not a"

lemma kleene_or_simps [simp]:
  "kleene_or a (Some False) = a" "kleene_or a (Some True) = Some True"
  by (cases a; simp; rename_tac b; case_tac b; simp)+

lemma ebv_boolean_term [simp]: "coerceEBV pr (boolean_term b) = Inr b" "truthy_typedValue (boolean_term b) = b"
  by (simp_all add: boolean_term_def)

lemma truth_simps [simp]:
  "truth pr (Inr (boolean_term b)) = Some b" "truth pr (Inl e) = None"
  by (simp_all add: truth_def result_ebv_def)

lemma truth_and: "truth pr (logicalAnd pr a b) = kleene_and (truth pr a) (truth pr b)"
  by (cases "result_ebv pr a"; cases "result_ebv pr b") (auto simp: logicalAnd_def truth_def [of pr a] truth_def [of pr b])

lemma truth_or: "truth pr (logicalOr pr a b) = kleene_or (truth pr a) (truth pr b)"
  by (cases "result_ebv pr a"; cases "result_ebv pr b") (auto simp: logicalOr_def truth_def [of pr a] truth_def [of pr b])

lemma truth_if:
  "truth pr (if_function pr c t e) = (case truth pr c of None \<Rightarrow> None | Some b \<Rightarrow> truth pr (if b then t else e))"
  by (cases "result_ebv pr c") (auto simp: if_function_def truth_def [of pr c])

text \<open>The value of a logical expression: the connectives and \<open>IF\<close> by their tables, and the truth of the
  evaluation elsewhere.\<close>

fun boolean_value :: "('q, 'v) eval_env \<Rightarrow> (rdf_term, 'v) bindings \<Rightarrow> 'q eval_expr \<Rightarrow> bool option" where
  "boolean_value env mapping (Operator_expr name [a, b]) =
     (if name = ''&&'' then kleene_and (boolean_value env mapping a) (boolean_value env mapping b)
      else if name = ''||'' then kleene_or (boolean_value env mapping a) (boolean_value env mapping b)
      else truth (env_printer env) (exprEvaluation env mapping (Operator_expr name [a, b])))"
| "boolean_value env mapping (Operator_expr name [a, b, c]) =
     (if name = ''if'' then
        (case boolean_value env mapping a of
           None \<Rightarrow> None
         | Some v \<Rightarrow> if v then boolean_value env mapping b else boolean_value env mapping c)
      else truth (env_printer env) (exprEvaluation env mapping (Operator_expr name [a, b, c])))"
| "boolean_value env mapping e = truth (env_printer env) (exprEvaluation env mapping e)"

text \<open>C8. The evaluation of \<open>&&\<close>, \<open>||\<close> and \<open>IF\<close>, nested in any way, is the three-valued logic of SPARQL over the
  results of the other expressions: an error is the third value, \<open>false && error\<close> is false, \<open>true || error\<close> is
  true on either side, and the evaluator of the code never turns an error into a value otherwise.\<close>

theorem connectives_three_valued:
  "truth (env_printer env) (exprEvaluation env mapping e) = boolean_value env mapping e"
  by (induction env mapping e rule: boolean_value.induct)
    (simp_all add: apply_operator_def truth_and truth_or truth_if split: option.split)

text \<open>The truth of an equality in an \<open>IN\<close>.\<close>

definition equal_truth :: "(eval_term \<Rightarrow> eval_term \<Rightarrow> expr_error + eval_term) \<Rightarrow> eval_term \<Rightarrow> expr_error + eval_term \<Rightarrow> bool option" where
  "equal_truth eq needle arg =
     (case bind_res arg (eq needle) of Inl e \<Rightarrow> None | Inr t \<Rightarrow> Some (truthy_typedValue t))"

lemma kleene_cases [case_names error true false]:
  "(a = None \<Longrightarrow> P) \<Longrightarrow> (a = Some True \<Longrightarrow> P) \<Longrightarrow> (a = Some False \<Longrightarrow> P) \<Longrightarrow> P" for a :: "bool option"
  by (cases a) auto

lemma kleene_or_None [simp]: "kleene_or None (kleene_or None b) = kleene_or None b"
  by (cases b rule: kleene_cases) simp_all

lemma truth_inRecursive:
  "truth pr (inRecursive eq needle args results) =
     (let v = foldr kleene_or (map (equal_truth eq needle) args) (Some False)
      in if list_all (\<lambda>r. r = None) results then v else kleene_or None v)"
proof (induction eq needle args results rule: inRecursive.induct)
  case (2 eq needle arg args results)
  show ?case
  proof (cases "bind_res arg (eq needle)")
    case (Inl error)
    then have "equal_truth eq needle arg = None" by (simp add: equal_truth_def)
    with 2(1) [OF Inl] Inl show ?thesis by (simp add: Let_def)
  next
    case (Inr t)
    then have "equal_truth eq needle arg = Some (truthy_typedValue t)" by (simp add: equal_truth_def)
    with 2(2) [OF Inr] Inr show ?thesis by (cases "truthy_typedValue t") (simp_all add: Let_def)
  qed
qed simp

lemma inRecursive_boolean: "inRecursive eq needle args results = Inr t \<Longrightarrow> \<exists>b. t = boolean_term b"
  by (induction eq needle args results rule: inRecursive.induct) (auto split: sum.splits if_splits)

lemma truth_not_in:
  "truth pr (not_in_function eq left args) = kleene_not (truth pr (in_function eq left args))"
proof (cases "in_function eq left args")
  case (Inl error)
  then show ?thesis by (simp add: not_in_function_def kleene_not_def)
next
  case (Inr t)
  then obtain needle where "inRecursive eq needle args [] = Inr t"
    by (auto simp: in_function_def bind_res_eq_Inr)
  from inRecursive_boolean [OF this] obtain b where "t = boolean_term b" by blast
  with Inr show ?thesis by (simp add: not_in_function_def kleene_not_def)
qed

definition in_disjunction ::
  "('q, 'v) eval_env \<Rightarrow> (rdf_term, 'v) bindings \<Rightarrow> 'q eval_expr \<Rightarrow> 'q eval_expr list \<Rightarrow> bool option" where
  "in_disjunction env mapping e es =
     (case exprEvaluation env mapping e of
        Inl error \<Rightarrow> None
      | Inr needle \<Rightarrow>
          foldr kleene_or (map (\<lambda>x. equal_truth (equality env) needle (exprEvaluation env mapping x)) es) (Some False))"

text \<open>C21. \<open>IN\<close> is the three-valued disjunction of the equalities with the members of its list and \<open>NOT IN\<close> its
  negation: one equal member makes it true whatever the others do, and with none an error of a member or of an
  equality is an error.\<close>

theorem in_is_disjunction:
  "truth (env_printer env) (exprEvaluation env mapping (Operator_expr ''in'' (e # es))) = in_disjunction env mapping e es \<and>
   truth (env_printer env) (exprEvaluation env mapping (Operator_expr ''notin'' (e # es))) =
     kleene_not (in_disjunction env mapping e es)"
  by (simp add: in_disjunction_def apply_operator_def truth_not_in in_function_def truth_inRecursive comp_def split: sum.split)

text \<open>\<open>COALESCE\<close> is the first argument without an error, or an error with those of all arguments.\<close>

lemma coalesce_loop_first:
  "coalesce_loop rs errors =
     (case dropWhile isl rs of r # rest \<Rightarrow> r | [] \<Rightarrow> Inl (CoalesceError (errors @ map projl rs)))"
  by (induction rs errors rule: coalesce_loop.induct) (auto split: sum.splits list.splits dest: arg_cong [where f = set] simp flip: dropWhile_eq_Nil_conv)

lemma coalesce_first:
  "exprEvaluation env mapping (Operator_expr ''coalesce'' es) =
     (case dropWhile (\<lambda>e. isl (exprEvaluation env mapping e)) es of
        e # rest \<Rightarrow> exprEvaluation env mapping e
      | [] \<Rightarrow> Inl (CoalesceError (map (\<lambda>e. projl (exprEvaluation env mapping e)) es)))"
  by (auto simp: apply_operator_def coalesce_def coalesce_loop_first dropWhile_map comp_def simp flip: dropWhile_eq_Nil_conv split: list.split)

end
