(* ===== verification/Query_Operations.thy ===== *)
theory Query_Operations
  imports Expression_Eval Rdf_Join
begin

text \<open>
  The actors of single query operations (\<open>packages/actor-query-operation-*/lib/\<close>): FILTER, EXTEND, PROJECT,
  SLICE, VALUES, UNION, ASK and the left join, on the results of the operations that they have as inputs.
  A stream is the list of its items; the transformation of a stream pushes items, emits errors and logs
  warnings.  The stream iterators of the package asynciterator that cut or merge streams are arguments.

  An object that is used as a table also has the members of \<open>Object.prototype\<close>, which a variable may be
  named like; \<open>__proto__\<close>, whose writes go to another object, is left out.
\<close>

section \<open>Results of operations\<close>

datatype ('t, 'v) query_result =
    BindingsResult "('t, 'v) bindings list" metadata
  | QuadsResult "'t list" metadata
  | BooleanResult bool
  | VoidResult

datatype op_error =
    InvalidOutputType string string
  | IllegalBinding string
  | UnionMismatch string string
  | UnionUnsupported string
  | EvaluatorFailure expr_error

fun result_type :: "('t, 'v) query_result \<Rightarrow> string" where
  "result_type (BindingsResult bs md) = ''bindings''"
| "result_type (QuadsResult qs md) = ''quads''"
| "result_type (BooleanResult b) = ''boolean''"
| "result_type VoidResult = ''void''"

fun getSafeBindings :: "('t, 'v) query_result \<Rightarrow> op_error + ('t, 'v) bindings list \<times> metadata" where
  "getSafeBindings (BindingsResult bs md) = Inr (bs, md)"
| "getSafeBindings r = Inl (InvalidOutputType ''bindings'' (result_type r))"


text \<open>What a transformation of a stream does.\<close>

record 'b transformed =
  pushed :: "'b list"
  emitted :: "expr_error list"
  warned :: "expr_error list"

definition run_transform :: "('a \<Rightarrow> 'b transformed) \<Rightarrow> 'a list \<Rightarrow> 'b transformed" where
  "run_transform f items =
     \<lparr>pushed = concat (map (\<lambda>x. pushed (f x)) items), emitted = concat (map (\<lambda>x. emitted (f x)) items),
      warned = concat (map (\<lambda>x. warned (f x)) items)\<rparr>"

fun evaluator_for :: "expr_error + 'a \<Rightarrow> op_error + 'a" where
  "evaluator_for (Inl e) = Inl (EvaluatorFailure e)"
| "evaluator_for (Inr a) = Inr a"

section \<open>FILTER and EXTEND\<close>

definition filter_item ::
  "('q, 'v) eval_env \<Rightarrow> 'q eval_expr \<Rightarrow> (rdf_term, 'v) bindings \<Rightarrow> (rdf_term, 'v) bindings transformed" where
  "filter_item env e item =
     (case evaluateAsEBV env e item of
        Inr result \<Rightarrow> \<lparr>pushed = (if result then [item] else []), emitted = [], warned = []\<rparr>
      | Inl error \<Rightarrow>
          if isExpressionError error then \<lparr>pushed = [], emitted = [], warned = [error]\<rparr>
          else \<lparr>pushed = [], emitted = [error], warned = []\<rparr>)"

definition filter_operation ::
  "('q, 'v) eval_env \<Rightarrow> 'q expression \<Rightarrow> (rdf_term, 'v) query_result \<Rightarrow>
   op_error + (rdf_term, 'v) bindings transformed \<times> metadata" where
  "filter_operation env e output =
     bind_res (getSafeBindings output) (\<lambda>(items, md).
     bind_res (evaluator_for (transformAlgebra env e)) (\<lambda>evaluator.
       Inr (run_transform (filter_item env evaluator) items, md)))"

definition extend_item ::
  "('q, 'v) eval_env \<Rightarrow> string \<Rightarrow> 'q eval_expr \<Rightarrow> (rdf_term, 'v) bindings \<Rightarrow> (rdf_term, 'v) bindings transformed" where
  "extend_item env variable e item =
     (case evaluate env e item of
        Inr result \<Rightarrow> \<lparr>pushed = [b_set item variable result], emitted = [], warned = []\<rparr>
      | Inl error \<Rightarrow>
          if isExpressionError error then \<lparr>pushed = [item], emitted = [], warned = [error]\<rparr>
          else \<lparr>pushed = [], emitted = [error], warned = []\<rparr>)"

definition extend_operation ::
  "('q, 'v) eval_env \<Rightarrow> string \<Rightarrow> 'q expression \<Rightarrow> (rdf_term, 'v) query_result \<Rightarrow>
   op_error + (rdf_term, 'v) bindings transformed \<times> metadata" where
  "extend_operation env variable e output =
     bind_res (getSafeBindings output) (\<lambda>(items, md).
       if list_ex (\<lambda>(v, u). v = variable) (md_variables md) then Inl (IllegalBinding variable)
       else bind_res (evaluator_for (transformAlgebra env e)) (\<lambda>evaluator.
         Inr (run_transform (extend_item env variable evaluator) items,
              md\<lparr>md_variables := md_variables md @ [(variable, False)]\<rparr>)))"

section \<open>Objects as tables\<close>

definition from_entries :: "(string \<times> 'a) list \<Rightarrow> (string, 'a) jsmap" where
  "from_entries es = fold (\<lambda>(k, x) m. js_set m k x) es []"

section \<open>PROJECT\<close>

definition delete_variables :: "string list \<Rightarrow> metadata \<Rightarrow> string list" where
  "delete_variables variables md =
     (let variablesOperationIndexed = from_entries (map (\<lambda>v. (v, False)) variables)
      in map fst (filter (\<lambda>(v, u). \<not> in_object variablesOperationIndexed v) (md_variables md)))"

definition project_variables :: "string list \<Rightarrow> metadata \<Rightarrow> (string \<times> bool) list" where
  "project_variables variables md =
     (let variablesOutputIndexed = from_entries (md_variables md)
      in map (\<lambda>v. (v, \<not> in_object variablesOutputIndexed v \<or> js_get variablesOutputIndexed v = Some True)) variables)"

text \<open>The blank nodes that belong to one solution get the number of the solution at the end of their label;
  \<open>scoped\<close> tells them, with their value.  The cache of a row avoids making the same node twice.\<close>

definition scope_row ::
  "('t \<Rightarrow> string option) \<Rightarrow> (string \<Rightarrow> 't) \<Rightarrow> nat \<Rightarrow> ('t, 'v) bindings \<Rightarrow> ('t, 'v) bindings" where
  "scope_row scoped blankNode blankNodeCounter b =
     b_map (\<lambda>t k. case scoped t of Some val \<Rightarrow> blankNode (val @ nat_string blankNodeCounter) | None \<Rightarrow> t) b"

fun scope_rows ::
  "('t \<Rightarrow> string option) \<Rightarrow> (string \<Rightarrow> 't) \<Rightarrow> nat \<Rightarrow> ('t, 'v) bindings list \<Rightarrow> ('t, 'v) bindings list" where
  "scope_rows scoped blankNode counter [] = []"
| "scope_rows scoped blankNode counter (b # bs) =
     scope_row scoped blankNode (counter + 1) b # scope_rows scoped blankNode (counter + 1) bs"

definition project_operation ::
  "('t \<Rightarrow> string option) \<Rightarrow> (string \<Rightarrow> 't) \<Rightarrow> string list \<Rightarrow> ('t, 'v) query_result \<Rightarrow> op_error + ('t, 'v) query_result" where
  "project_operation scoped blankNode variables output =
     bind_res (getSafeBindings output) (\<lambda>(items, md).
       let deleteVariables = delete_variables variables md;
           rows = (if deleteVariables = [] then items
                   else map (\<lambda>b. fold (\<lambda>v b. b_delete b v) deleteVariables b) items)
       in Inr (BindingsResult (scope_rows scoped blankNode 0 rows) (md\<lparr>md_variables := project_variables variables md\<rparr>)))"

section \<open>SLICE\<close>

text \<open>The stream transformation with an offset and a limit, \<open>None\<close> for an infinite one, is an argument.\<close>

definition slice_stream :: "(nat \<Rightarrow> nat option \<Rightarrow> 'a list \<Rightarrow> 'a list) \<Rightarrow> nat \<Rightarrow> nat option \<Rightarrow> 'a list \<Rightarrow> 'a list" where
  "slice_stream limit_stream start len items =
     (let limit = (case len of None \<Rightarrow> None
                   | Some n \<Rightarrow> Some (nat (max ((int start + int n - 1) - int start + 1) 0)))
      in limit_stream start limit items)"

definition slice_metadata :: "nat \<Rightarrow> nat option \<Rightarrow> metadata \<Rightarrow> metadata" where
  "slice_metadata start len md =
     (let card = md_cardinality md
      in if is_finite (card_value card)
         then (let rest = num_max (Num 0) (num_sub (card_value card) (Num (of_nat start)));
                   v = (case len of None \<Rightarrow> rest | Some n \<Rightarrow> num_min rest (Num (of_nat n)))
               in md\<lparr>md_cardinality := card\<lparr>card_value := v\<rparr>\<rparr>)
         else md)"

text \<open>The limit that the context gets for planning.\<close>

definition limit_indicator :: "nat option \<Rightarrow> nat option" where
  "limit_indicator len = (case len of Some n \<Rightarrow> if n = 0 then None else Some n | None \<Rightarrow> None)"

fun slice_operation ::
  "(nat \<Rightarrow> nat option \<Rightarrow> ('t, 'v) bindings list \<Rightarrow> ('t, 'v) bindings list) \<Rightarrow>
   (nat \<Rightarrow> nat option \<Rightarrow> 't list \<Rightarrow> 't list) \<Rightarrow> nat \<Rightarrow> nat option \<Rightarrow> ('t, 'v) query_result \<Rightarrow> ('t, 'v) query_result" where
  "slice_operation limit_b limit_q start len (BindingsResult bs md) =
     BindingsResult (slice_stream limit_b start len bs) (slice_metadata start len md)"
| "slice_operation limit_b limit_q start len (QuadsResult qs md) =
     QuadsResult (slice_stream limit_q start len qs) (slice_metadata start len md)"
| "slice_operation limit_b limit_q start len output = output"

section \<open>VALUES, ASK and the left join\<close>


definition ask_operation ::
  "(nat \<Rightarrow> ('t, 'v) bindings list \<Rightarrow> ('t, 'v) bindings list) \<Rightarrow> ('t, 'v) query_result \<Rightarrow> op_error + ('t, 'v) query_result" where
  "ask_operation take_stream output =
     bind_res (getSafeBindings output) (\<lambda>(items, md). Inr (BooleanResult (length (take_stream 1 items) = 1)))"

text \<open>The entries that a left join gives to the join bus: the result, the operation, and whether the operation
  must be used.\<close>

record ('t, 'v, 'x) left_join_entry =
  lj_output :: "('t, 'v) bindings list \<times> metadata"
  lj_operation :: "'x operation"
  lj_required :: bool

fun left_join_entries ::
  "nat \<Rightarrow> 'x expr option \<Rightarrow> ('x operation \<times> ('t, 'v) query_result) list \<Rightarrow> op_error + ('t, 'v, 'x) left_join_entry list" where
  "left_join_entries index expression [] = Inr []"
| "left_join_entries index expression ((subOperation, raw) # inputs) =
     bind_res (getSafeBindings raw) (\<lambda>out.
     bind_res (left_join_entries (index + 1) expression inputs) (\<lambda>rest.
       Inr ((case expression of
               Some e \<Rightarrow> if index = 1 then \<lparr>lj_output = out, lj_operation = Op_filter subOperation e, lj_required = True\<rparr>
                         else \<lparr>lj_output = out, lj_operation = subOperation, lj_required = False\<rparr>
             | None \<Rightarrow> \<lparr>lj_output = out, lj_operation = subOperation, lj_required = False\<rparr>) # rest)))"

section \<open>UNION\<close>

text \<open>The table of variables with \<open>canBeUndef\<close> and the number of occurrences.  A name that \<open>Object.prototype\<close> has
  is found there: the table gets no entry for it.\<close>

definition union_index ::
  "(string, bool \<times> nat) jsmap \<Rightarrow> string \<times> bool \<Rightarrow> (string, bool \<times> nat) jsmap" where
  "union_index idx var =
     (case js_get idx (fst var) of
        Some (u, n) \<Rightarrow> js_set idx (fst var) (u \<or> snd var, n + 1)
      | None \<Rightarrow> if fst var \<in> set object_prototype then idx else js_set idx (fst var) (snd var \<or> snd var, 0 + 1))"

definition unionVariables :: "(string \<times> bool) list list \<Rightarrow> (string \<times> bool) list" where
  "unionVariables variables =
     map (\<lambda>(v, (u, n)). if n = length variables then (v, u) else (v, True)) (foldl (foldl union_index) [] variables)"




section \<open>Filters by conjunctions\<close>

lemma filter_item_pushed:
  "pushed (filter_item env e item) = (if truth (env_printer env) (exprEvaluation env item e) = Some True then [item] else [])"
  by (simp add: filter_item_def evaluateAsEBV_def truth_def split: sum.split)

lemma filter_pushed:
  "pushed (run_transform (filter_item env e) items) =
     filter (\<lambda>b. truth (env_printer env) (exprEvaluation env b e) = Some True) items"
  by (induction items) (simp_all add: run_transform_def filter_item_pushed)

lemma kleene_and_true [simp]: "kleene_and a b = Some True \<longleftrightarrow> a = Some True \<and> b = Some True"
  by (cases a rule: kleene_cases; cases b rule: kleene_cases; simp)

lemma kleene_or_true [simp]: "kleene_or a b = Some True \<longleftrightarrow> a = Some True \<or> b = Some True"
  by (cases a rule: kleene_cases; cases b rule: kleene_cases; simp)

lemma transform_connective:
  assumes "name \<in> {''&&'', ''||''}" "transformAlgebra env (E_operator name [e1, e2]) = Inr x"
  obtains x1 x2 where "transformAlgebra env e1 = Inr x1" "transformAlgebra env e2 = Inr x2" "x = Operator_expr name [x1, x2]"
proof -
  have lower: "map lower_char name = name" using assms(1) by (auto simp: lower_char_def)
  have "provided_arity env name = Some (\<lambda>n. n = 2)"
    using assms(1) by (auto simp: provided_arity_def dedicated_arity_def)
  with assms(2) that show thesis by (auto simp: getOperator_def lower res_simps split: if_splits)
qed

lemma filter_operation_Inr:
  "filter_operation env e (BindingsResult items md) = Inr (out, md') \<longleftrightarrow>
     (\<exists>x. transformAlgebra env e = Inr x \<and> out = run_transform (filter_item env x) items \<and> md' = md)"
  by (cases "transformAlgebra env e") (auto simp: filter_operation_def)

text \<open>C10. A filter by a conjunction passes exactly the solutions, in the same order, that pass the filter by the first
  part and then the filter by the second part, whatever errors the parts have; a filter by a disjunction passes
  the solutions that pass the filter by one of the parts.\<close>

theorem filter_by_connective:
  assumes "filter_operation env (E_operator name [e1, e2]) (BindingsResult items md) = Inr (out, md')"
    and "name = ''&&'' \<or> name = ''||''"
  shows "\<exists>out1 out2. filter_operation env e1 (BindingsResult items md) = Inr (out1, md) \<and>
    filter_operation env e2 (BindingsResult (if name = ''&&'' then pushed out1 else items) md) = Inr (out2, md) \<and>
    (if name = ''&&'' then pushed out = pushed out2
     else pushed out = filter (\<lambda>b. b \<in> set (pushed out1) \<or> b \<in> set (pushed out2)) items)"
proof -
  from assms(1) obtain x where x: "transformAlgebra env (E_operator name [e1, e2]) = Inr x"
    "out = run_transform (filter_item env x) items" by (auto simp: filter_operation_Inr)
  from assms(2) have "name \<in> {''&&'', ''||''}" by auto
  from transform_connective [OF this x(1)] obtain x1 x2 where
    parts: "transformAlgebra env e1 = Inr x1" "transformAlgebra env e2 = Inr x2" "x = Operator_expr name [x1, x2]" .
  have "truth (env_printer env) (exprEvaluation env b x) =
      (if name = ''&&'' then kleene_and else kleene_or) (truth (env_printer env) (exprEvaluation env b x1))
        (truth (env_printer env) (exprEvaluation env b x2))" for b
    using assms(2) by (auto simp: parts(3) apply_operator_def truth_and truth_or)
  then show ?thesis using assms(2)
    by (auto simp: filter_operation_Inr parts x(2) filter_pushed conj_commute intro!: filter_cong)
qed

section \<open>Slices\<close>

text \<open>What the stream transformation with an offset and a limit is documented to do.\<close>

definition limits_stream :: "(nat \<Rightarrow> nat option \<Rightarrow> 'a list \<Rightarrow> 'a list) \<Rightarrow> bool" where
  "limits_stream limit_stream \<longleftrightarrow>
     (\<forall>offset limit items. limit_stream offset limit items =
        (case limit of None \<Rightarrow> drop offset items | Some n \<Rightarrow> take n (drop offset items)))"

lemma slice_stream_limits:
  "limits_stream f \<Longrightarrow> slice_stream f start len items = (case len of None \<Rightarrow> drop start items | Some n \<Rightarrow> take n (drop start items))"
  by (simp add: slice_stream_def limits_stream_def split: option.split)

text \<open>C36. A slice has the solutions from the offset on, as many as the limit allows, and if the cardinality of its
  input is the number of the input's solutions then the cardinality of the slice is the number of its own,
  also where the offset is behind the last solution.\<close>

theorem slice_cardinality:
  assumes "limits_stream limit_b"
    and "card_value (md_cardinality md) = Num (of_nat (length bs))"
    and "slice_operation limit_b limit_q start len (BindingsResult bs md) = BindingsResult out md'"
  shows "out = take (case len of None \<Rightarrow> length bs | Some n \<Rightarrow> n) (drop start bs) \<and>
    card_value (md_cardinality md') = Num (of_nat (length out)) \<and> md_variables md' = md_variables md"
proof -
  have rest: "num_max (Num 0) (num_sub (Num (of_nat (length bs))) (Num (of_nat start))) = Num (of_nat (length bs - start))"
    by (simp add: num_max_def num_sub_def of_nat_diff)
  have limit: "num_min (Num (of_nat k)) (Num (of_nat n)) = Num (of_nat (min k n))" for k n
    by (simp add: num_min_def min_def)
  show ?thesis
    using assms(2,3) rest limit
    by (cases len) (auto simp: slice_stream_limits [OF assms(1)] slice_metadata_def is_finite_def Let_def)
qed

section \<open>Solutions and their metadata\<close>










subsection \<open>The other operations\<close>


lemma extended_conforms:
  assumes "md_variables md' = md_variables md @ [(variable, False)]" and "conforms md b"
  shows "conforms md' (b_set b variable t)"
proof -
  have "dom (b_get (b_set b variable t)) = insert variable (dom (b_get b))" by (auto simp: b_get_def b_set_def)
  with assms show ?thesis by (auto simp: conforms_def md_vars_def)
qed

lemma extended_not_conforms:
  assumes "md_variables md' = md_variables md @ [(variable, False)]" and "variable \<notin> md_vars md" and "conforms md b"
  shows "\<not> conforms md' b"
proof
  assume c: "conforms md' b"
  have "(variable, True) \<notin> set (md_variables md)" using assms(2) unfolding md_vars_def by force
  then have "(variable, True) \<notin> set (md_variables md')" "variable \<in> md_vars md'"
    by (simp_all add: assms(1) md_vars_def)
  with c have "variable \<in> dom (b_get b)" unfolding conforms_def by blast
  with assms(2,3) show False unfolding conforms_def by blast
qed




subsection \<open>Unions\<close>




















subsection \<open>Computed results\<close>




section \<open>Where results are not as their metadata says\<close>

definition plain_env :: "(unit, unit) eval_env" where
  "plain_env = \<lparr>env_printer = no_printer, env_factory = plain_factory,
     env_transform = (\<lambda>t. case t of
         Variable v \<Rightarrow> Inr (VariableTerm (CHR ''?'' # v))
       | NamedNode v \<Rightarrow> Inr (NamedNodeTerm v)
       | Literal val lang ty dir \<Rightarrow> Inr (LiteralTerm (plain_literal (StringValue val) ty val))
       | _ \<Rightarrow> Inl JSTypeError),
     env_termFunction = (\<lambda>name. None), env_otherFunction = (\<lambda>name results. Inl MediatorError),
     env_exists = (\<lambda>q b. Inr True), env_checkArity = (\<lambda>name. None)\<rparr>"

definition bound_row :: "(string \<times> 't) list \<Rightarrow> ('t, unit) bindings" where
  "bound_row es = \<lparr>entries = es, contextHolder = None\<rparr>"

text \<open>C37. Which solutions of an extension are not as its metadata says: when those of its input are, they are exactly
  the solutions, unchanged and in the same order, for which the expression has an error.  They lack the
  variable that the metadata says is always bound.\<close>

theorem extend_error_not_conforming:
  assumes "extend_operation env variable e (BindingsResult bs md) = Inr (out, md')"
    and "transformAlgebra env e = Inr evaluator" and "\<forall>b \<in> set bs. conforms md b"
  shows "filter (\<lambda>b. \<not> conforms md' b) (pushed out) =
    filter (\<lambda>b. case evaluate env evaluator b of Inl error \<Rightarrow> isExpressionError error | Inr _ \<Rightarrow> False) bs"
proof -
  from assms(1,2) have out: "pushed out = concat (map (\<lambda>b. pushed (extend_item env variable evaluator b)) bs)"
    and md': "md_variables md' = md_variables md @ [(variable, False)]" "variable \<notin> md_vars md"
    by (auto simp: extend_operation_def res_simps run_transform_def md_vars_def list_ex_iff split: if_splits)
  show ?thesis unfolding out using assms(3)
  proof (induction bs)
    case (Cons b bs)
    then have "conforms md b" by simp
    then have "\<not> conforms md' b" "\<And>t. conforms md' (b_set b variable t)"
      using extended_conforms [OF md'(1)] extended_not_conforms [OF md'] by auto
    with Cons show ?case by (auto simp: extend_item_def split: sum.splits)
  qed simp
qed

lemma extend_error_not_conforming_witness:
  "filter (\<lambda>b. \<not> conforms (sample_md [(''x'', True), (''y'', False)] (Num 2)) b)
     [bound_row [], bound_row [(''x'', NamedNode ''a''), (''y'', NamedNode ''a'')]] = [bound_row [] :: (rdf_term, unit) bindings]"
proof -
  let ?rows = "[bound_row [], bound_row [(''x'', NamedNode ''a'')]] :: (rdf_term, unit) bindings list"
  have evals: "evaluate plain_env (Variable_expr ''?x'') (bound_row [] :: (rdf_term, unit) bindings) = Inl (UnboundVariableError ''?x'')"
    "evaluate plain_env (Variable_expr ''?x'') (bound_row [(''x'', NamedNode ''a'')] :: (rdf_term, unit) bindings) = Inr (NamedNode ''a'')"
    by (simp_all add: plain_env_def evaluate_def eval_variable_def b_get_def bound_row_def)
  have transform: "transformAlgebra plain_env (E_term (Variable ''x'')) = Inr (Variable_expr ''?x'')"
    by (simp add: plain_env_def expression_of_term_def)
  have set_y: "b_set (bound_row [(''x'', NamedNode ''a'')]) ''y'' t = (bound_row [(''x'', NamedNode ''a''), (''y'', t)] :: (rdf_term, unit) bindings)" for t
    by (simp add: b_set_def bound_row_def)
  have "extend_operation plain_env ''y'' (E_term (Variable ''x'')) (BindingsResult ?rows (sample_md [(''x'', True)] (Num 2))) =
      Inr (\<lparr>pushed = [bound_row [], bound_row [(''x'', NamedNode ''a''), (''y'', NamedNode ''a'')]], emitted = [],
        warned = [UnboundVariableError ''?x'']\<rparr>, sample_md [(''x'', True), (''y'', False)] (Num 2))"
    unfolding extend_operation_def getSafeBindings.simps transform evaluator_for.simps res_simps
    by (simp add: sample_md_def run_transform_def extend_item_def evals set_y)
  moreover have "\<forall>b \<in> set ?rows. conforms (sample_md [(''x'', True)] (Num 2)) b"
    by (simp add: conforms_def md_vars_def sample_md_def b_get_def [abs_def] bound_row_def)
  moreover have "filter (\<lambda>b. case evaluate plain_env (Variable_expr ''?x'') b of Inl error \<Rightarrow> isExpressionError error | Inr _ \<Rightarrow> False)
      ?rows = [bound_row []]"
    by (simp only: filter.simps evals sum.case) simp
  ultimately show ?thesis
    using extend_error_not_conforming [OF _ transform, of "''y''" ?rows "sample_md [(''x'', True)] (Num 2)"] by fastforce
qed

text \<open>A projection does not remove a variable that is named like a member of \<open>Object.prototype\<close>: the solutions
  of \<open>SELECT ?x\<close> still bind \<open>?constructor\<close>; and a union loses such a variable from its metadata.\<close>

theorem prototype_variables:
  "project_operation (\<lambda>t. None) id [''x'']
     (BindingsResult [bound_row [(''x'', ''1''), (''constructor'', ''2'')]] (sample_md [(''x'', False), (''constructor'', False)] (Num 1))) =
   Inr (BindingsResult [bound_row [(''x'', ''1''), (''constructor'', ''2'')]] (sample_md [(''x'', False)] (Num 1))) \<and>
   unionVariables [[(''x'', False), (''constructor'', False)], [(''x'', False), (''constructor'', False)]] = [(''x'', False)]"
proof
  show "project_operation (\<lambda>t. None) id [''x'']
     (BindingsResult [bound_row [(''x'', ''1''), (''constructor'', ''2'')]] (sample_md [(''x'', False), (''constructor'', False)] (Num 1))) =
   Inr (BindingsResult [bound_row [(''x'', ''1''), (''constructor'', ''2'')]] (sample_md [(''x'', False)] (Num 1)))"
    by (simp add: project_operation_def sample_md_def delete_variables_def in_object_def from_entries_def object_prototype_def
        project_variables_def scope_row_def b_map_def bound_row_def)
  show "unionVariables [[(''x'', False), (''constructor'', False)], [(''x'', False), (''constructor'', False)]] = [(''x'', False)]"
    by (simp add: unionVariables_def union_index_def object_prototype_def)
qed

definition blank_label :: "rdf_term \<Rightarrow> string option" where
  "blank_label t = (case t of BlankNode v \<Rightarrow> Some v | _ \<Rightarrow> None)"

definition labelled_rows :: "(rdf_term, unit) bindings list" where
  "labelled_rows = map (\<lambda>v. bound_row [(''b'', BlankNode v)]) (''a1'' # replicate 9 ''c'' @ [''a''])"

text \<open>The blank nodes of two different solutions become the same one where a label with the number of its solution
  reads the same: \<open>a1\<close> in the first solution and \<open>a\<close> in the eleventh.\<close>

theorem scoped_blank_nodes_clash:
  "b_get (scope_rows blank_label BlankNode 0 labelled_rows ! 0) ''b'' = Some (BlankNode ''a11'') \<and>
   b_get (scope_rows blank_label BlankNode 0 labelled_rows ! 10) ''b'' = Some (BlankNode ''a11'')"
proof -
  have "nat_string 1 = ''1''" "nat_string 11 = ''11''" by code_simp+
  then show ?thesis
    by (simp add: labelled_rows_def blank_label_def eval_nat_numeral scope_row_def b_map_def b_get_def bound_row_def)
qed

section \<open>Examples\<close>

definition literal_row :: "string \<Rightarrow> (rdf_term, unit) bindings" where
  "literal_row v = bound_row [(''x'', Literal v [] (type_iri XSD_STRING) [])]"

lemma filter_by_connective_witness:
  "\<exists>out1 out2. filter_operation plain_env (E_term (Variable ''x''))
       (BindingsResult [literal_row ''a'', literal_row []] (sample_md [(''x'', False)] (Num 2))) =
       Inr (out1, sample_md [(''x'', False)] (Num 2)) \<and>
     filter_operation plain_env (E_term (Variable ''x''))
       (BindingsResult (pushed out1) (sample_md [(''x'', False)] (Num 2))) = Inr (out2, sample_md [(''x'', False)] (Num 2)) \<and>
     pushed out2 = [literal_row ''a'']"
proof -
  note defs = plain_env_def getOperator_def provided_arity_def dedicated_arity_def expression_of_term_def lower_char_def
  have transform: "transformAlgebra plain_env (E_operator ''&&'' [E_term (Variable ''x''), E_term (Variable ''x'')]) =
      Inr (Operator_expr ''&&'' [Variable_expr ''?x'', Variable_expr ''?x''])"
    by (simp add: defs)
  have ebv: "truth no_printer (exprEvaluation plain_env (literal_row v) (Variable_expr ''?x'')) = Some (v \<noteq> [])" for v
    by (simp add: plain_env_def eval_variable_def literal_row_def bound_row_def b_get_def truth_def result_ebv_def plain_literal_def literal_str_def)
  have "pushed (run_transform (filter_item plain_env (Operator_expr ''&&'' [Variable_expr ''?x'', Variable_expr ''?x'']))
      [literal_row ''a'', literal_row []]) = [literal_row ''a'']"
    using ebv [of "''a''"] ebv [of "[]"] by (simp add: filter_pushed apply_operator_def truth_and) (simp add: plain_env_def)
  with filter_by_connective [of plain_env "''&&''" "E_term (Variable ''x'')" "E_term (Variable ''x'')"
      "[literal_row ''a'', literal_row []]" "sample_md [(''x'', False)] (Num 2)"] transform
  show ?thesis by (force simp: filter_operation_Inr)
qed

lemma slice_cardinality_witness:
  "slice_operation (\<lambda>offset limit items. case limit of None \<Rightarrow> drop offset items | Some n \<Rightarrow> take n (drop offset items))
     (\<lambda>offset limit items. items) 1 (Some 5) (BindingsResult [literal_row ''a'', literal_row ''b''] (sample_md [(''x'', False)] (Num 2))) =
   BindingsResult [literal_row ''b''] (sample_md [(''x'', False)] (Num 1)) \<and>
   card_value (md_cardinality (sample_md [(''x'', False)] (Num 1))) = Num (of_nat (length [literal_row ''b'']))"
proof -
  let ?limit = "\<lambda>offset limit items. case limit of None \<Rightarrow> drop offset items | Some n \<Rightarrow> take n (drop offset items)"
  have run: "slice_operation ?limit (\<lambda>offset limit items. items) 1 (Some 5)
      (BindingsResult [literal_row ''a'', literal_row ''b''] (sample_md [(''x'', False)] (Num 2))) =
    BindingsResult [literal_row ''b''] (sample_md [(''x'', False)] (Num 1))"
    by (simp add: slice_stream_def slice_metadata_def sample_md_def is_finite_def Let_def num_max_def num_min_def num_sub_def)
  have "limits_stream ?limit" by (simp add: limits_stream_def)
  from slice_cardinality [OF this _ run] run show ?thesis by (simp add: sample_md_def)
qed


end
