(* ===== verification/Materialize.thy ===== *)
theory Materialize
  imports Graph_Semantics Query_Operations
begin

text \<open>
  Materializing an operation with a solution (\<open>packages/utils-query-operation/lib/MaterializeBindings.ts\<close>): its
  variables are replaced by the terms that the solution binds them to.  The visitor \<open>mapOperation\<close> of the
  algebra package is the recursion: the inputs first, then the operation.  The content of an
  \<open>Op_other\<close>, as the variables of a GROUP, is left as it is, only its inputs are materialized.
\<close>

section \<open>Materializing terms\<close>

text \<open>\<open>someTermsNested\<close> and \<open>mapTermsNested\<close> of the package rdf-terms, on one term.\<close>

record terms_lib =
  someTermsNested :: "(rdf_term \<Rightarrow> bool) \<Rightarrow> rdf_term \<Rightarrow> bool"
  mapQuadNested :: "(rdf_term \<Rightarrow> rdf_term) \<Rightarrow> rdf_term \<Rightarrow> rdf_term"

type_synonym term_row = "(string, rdf_term) jsmap"

text \<open>\<open>materializeTerm\<close> on a term that is not a quad, to which the mapping of a quad applies it.\<close>

definition materialize_leaf :: "term_row \<Rightarrow> rdf_term \<Rightarrow> rdf_term" where
  "materialize_leaf b t =
     (case t of Variable v \<Rightarrow> (case js_get b v of Some val \<Rightarrow> val | None \<Rightarrow> t) | _ \<Rightarrow> t)"

definition materializeTerm :: "terms_lib \<Rightarrow> term_row \<Rightarrow> rdf_term \<Rightarrow> rdf_term" where
  "materializeTerm tms b t =
     (case t of
        Variable v \<Rightarrow> materialize_leaf b t
      | Quad s p ob g \<Rightarrow> if someTermsNested tms is_variable t then mapQuadNested tms (materialize_leaf b) t else t
      | _ \<Rightarrow> t)"

section \<open>Materializing operations\<close>

record materialize_options =
  strictTargetVariables :: bool
  bindFilter :: bool
  originalBindings :: term_row

text \<open>\<open>createValuesFromBindings\<close>, for all variables or for some.\<close>

definition createValuesFromBindings :: "term_row \<Rightarrow> string list option \<Rightarrow> 'x operation list" where
  "createValuesFromBindings b variables =
     map (\<lambda>(v, t). Op_values [v] [[(v, t)]])
       (filter (\<lambda>(v, t). case variables of None \<Rightarrow> True | Some vs \<Rightarrow> v \<in> set vs) b)"

text \<open>A row of VALUES without the variables of the solution, \<open>None\<close> if it has another term for one.\<close>

definition materialize_row :: "term_row \<Rightarrow> term_row \<Rightarrow> term_row option" where
  "materialize_row b binding =
     (if list_all (\<lambda>(v, t). in_object binding v \<longrightarrow> js_get binding v = Some t) b
      then Some (fold (\<lambda>v r. js_delete r v) (js_keys b) binding) else None)"

text \<open>\<open>BOUND\<close> of a variable that the solution binds.\<close>

definition bound_call :: "term_row \<Rightarrow> string \<Rightarrow> 'q expression list \<Rightarrow> bool" where
  "bound_call b operator args \<longleftrightarrow>
     operator = ''bound'' \<and> length args = 1 \<and>
     (case hd args of E_term t \<Rightarrow> list_ex (\<lambda>v. t = Variable v) (js_keys b) | _ \<Rightarrow> False)"

definition is_operator :: "'q expression \<Rightarrow> bool" where
  "is_operator e = (case e of E_operator operator args \<Rightarrow> True | _ \<Rightarrow> False)"

definition true_literal :: rdf_term where
  "true_literal = Literal ''true'' [] (xsd @ ''boolean'') []"

lemma bind_res_cong [fundef_cong]: "r = r' \<Longrightarrow> (\<And>a. r' = Inr a \<Longrightarrow> f a = g a) \<Longrightarrow> bind_res r f = bind_res r' g"
  by (cases r') auto

lemma size_member: "x \<in> set xs \<Longrightarrow> f x < Suc (size_list f xs)"
  by (induction xs) auto

text \<open>An EXTEND of a variable that the solution binds is dropped and its input, already materialized by the visitor,
  is materialized once more; the first argument bounds how often.  A target variable of a strict call is an
  error.\<close>

function (sequential) materializeOperation ::
  "nat \<Rightarrow> terms_lib \<Rightarrow> 'x algebra_lib \<Rightarrow> materialize_options \<Rightarrow> term_row \<Rightarrow> 'x operation \<Rightarrow> string + 'x operation"
and materializeExpression ::
  "nat \<Rightarrow> terms_lib \<Rightarrow> 'x algebra_lib \<Rightarrow> materialize_options \<Rightarrow> term_row \<Rightarrow> 'x expr \<Rightarrow> string + 'x expr" where
  "materializeOperation n tms lib opts b (Op_path src s p ob g) =
     Inr (Op_path src (materializeTerm tms b s) p (materializeTerm tms b ob) (materializeTerm tms b g))"
| "materializeOperation n tms lib opts b (Op_pattern src s p ob g) =
     Inr (Op_pattern src (materializeTerm tms b s) (materializeTerm tms b p) (materializeTerm tms b ob) (materializeTerm tms b g))"
| "materializeOperation n tms lib opts b (Op_join qs) =
     bind_res (map_res (materializeOperation n tms lib opts b) qs) (\<lambda>qs'.
       Inr (createJoin lib qs' (list_all (\<lambda>q. getOperationSource q = None) qs)))"
| "materializeOperation n tms lib opts b (Op_extend q v e) =
     bind_res (materializeOperation n tms lib opts b q) (\<lambda>q'.
     bind_res (materializeExpression n tms lib opts b e) (\<lambda>e'.
       if js_has b v then
         (if strictTargetVariables opts then Inl (''Tried to bind variable ?'' @ v @ '' in a BIND operator.'')
          else (case n of 0 \<Rightarrow> Inl ''fuel'' | Suc m \<Rightarrow> materializeOperation m tms lib opts b q'))
       else Inr (Op_extend q' v e')))"
| "materializeOperation n tms lib opts b (Op_filter q e) =
     (if originalBindings opts = [] then Inr (Op_filter q e)
      else if is_existence e then
        bind_res (materializeExpression n tms lib opts b e) (\<lambda>e'.
        bind_res (materializeOperation n tms lib opts b q) (\<lambda>q'. Inr (Op_filter q' e')))
      else if \<not> is_operator e then Inr (Op_filter q e)
      else
        bind_res (materializeExpression n tms lib opts b e) (\<lambda>e'.
        bind_res (materializeOperation n tms lib opts b q) (\<lambda>q'.
          Inr (Op_filter (createJoin lib (createValuesFromBindings (originalBindings opts) None @ [q']) True) e'))))"
| "materializeOperation n tms lib opts b (Op_project q vs) =
     bind_res (materializeOperation n tms lib opts b q) (\<lambda>q'.
       let vals = createValuesFromBindings (originalBindings opts) (Some vs)
       in Inr (Op_project (if vals = [] then q' else createJoin lib (vals @ [q']) True) vs))"
| "materializeOperation n tms lib opts b (Op_values vs rows) =
     (if strictTargetVariables opts then
        (if list_ex (js_has b) vs then Inl (''Tried to bind variable ?'' @ hd (filter (js_has b) vs) @ '' in a VALUES operator.'')
         else Inr (Op_values vs rows))
      else Inr (Op_values (filter (\<lambda>v. \<not> js_has b v) vs) (List.map_filter (materialize_row b) rows)))"
| "materializeOperation n tms lib opts b Op_nop = Inr Op_nop"
| "materializeOperation n tms lib opts b (Op_union qs) =
     bind_res (map_res (materializeOperation n tms lib opts b) qs) (\<lambda>qs'. Inr (Op_union qs'))"
| "materializeOperation n tms lib opts b (Op_bgp qs) =
     bind_res (map_res (materializeOperation n tms lib opts b) qs) (\<lambda>qs'. Inr (Op_bgp qs'))"
| "materializeOperation n tms lib opts b (Op_leftjoin l r c) =
     bind_res (materializeOperation n tms lib opts b l) (\<lambda>l'.
     bind_res (materializeOperation n tms lib opts b r) (\<lambda>r'.
     (case c of
        None \<Rightarrow> Inr (Op_leftjoin l' r' None)
      | Some e \<Rightarrow> bind_res (materializeExpression n tms lib opts b e) (\<lambda>e'. Inr (Op_leftjoin l' r' (Some e'))))))"
| "materializeOperation n tms lib opts b (Op_other ty src qs x) =
     bind_res (map_res (materializeOperation n tms lib opts b) qs) (\<lambda>qs'. Inr (Op_other ty src qs' x))"
| "materializeExpression n tms lib opts b (E_term t) =
     Inr (if bindFilter opts then E_term (materializeTerm tms b t) else E_term t)"
| "materializeExpression n tms lib opts b (E_operator operator args) =
     (if \<not> bindFilter opts then Inr (E_operator operator args)
      else if bound_call b operator args then Inr (E_term true_literal)
      else bind_res (map_res (materializeExpression n tms lib opts b) args) (\<lambda>args'. Inr (E_operator operator args')))"
| "materializeExpression n tms lib opts b (E_named name args) =
     (if \<not> bindFilter opts then Inr (E_named name args)
      else bind_res (map_res (materializeExpression n tms lib opts b) args) (\<lambda>args'. Inr (E_named name args')))"
| "materializeExpression n tms lib opts b (E_existence no q) =
     (if \<not> bindFilter opts then Inr (E_existence no q)
      else bind_res (materializeOperation n tms lib opts b q) (\<lambda>q'. Inr (E_existence no q')))"
| "materializeExpression n tms lib opts b (E_aggregate name e) =
     (if \<not> bindFilter opts then Inr (E_aggregate name e)
      else bind_res (materializeExpression n tms lib opts b e) (\<lambda>e'. Inr (E_aggregate name e')))"
| "materializeExpression n tms lib opts b E_wildcard = Inr E_wildcard"
  by pat_completeness auto

termination
proof (relation "measures [case_sum (\<lambda>(n, tms, lib, opts, b, q). n) (\<lambda>(n, tms, lib, opts, b, e). n),
    case_sum (\<lambda>(n, tms, lib, opts, b, q). size q) (\<lambda>(n, tms, lib, opts, b, e). size_expression size e)]", goal_cases)
qed (auto dest: size_member)

declare materializeOperation.simps [simp del] materializeExpression.simps [simp del]

section \<open>Materializing returns\<close>

text \<open>The EXTENDs of an operation, at most as many of which are dropped.\<close>

function (sequential) count_extends :: "'x operation \<Rightarrow> nat" and count_in :: "'x expr \<Rightarrow> nat" where
  "count_extends (Op_extend q v e) = Suc (count_extends q + count_in e)"
| "count_extends (Op_filter q e) = count_extends q + count_in e"
| "count_extends (Op_join qs) = sum_list (map count_extends qs)"
| "count_extends (Op_project q vs) = count_extends q"
| "count_extends (Op_union qs) = sum_list (map count_extends qs)"
| "count_extends (Op_bgp qs) = sum_list (map count_extends qs)"
| "count_extends (Op_leftjoin l r c) = count_extends l + count_extends r + (case c of None \<Rightarrow> 0 | Some e \<Rightarrow> count_in e)"
| "count_extends (Op_other ty src qs x) = sum_list (map count_extends qs)"
| "count_extends q = 0"
| "count_in (E_operator name args) = sum_list (map count_in args)"
| "count_in (E_named name args) = sum_list (map count_in args)"
| "count_in (E_existence no q) = count_extends q"
| "count_in (E_aggregate name e) = count_in e"
| "count_in e = 0"
  by pat_completeness auto

termination
proof (relation "measure (case_sum size (size_expression size))", goal_cases)
qed (auto dest: size_member)

definition joins_inputs :: "'x algebra_lib \<Rightarrow> bool" where
  "joins_inputs lib \<longleftrightarrow> (\<forall>qs flat. count_extends (createJoin lib qs flat) \<le> sum_list (map count_extends qs))"

lemma map_res_total:
  assumes "\<And>x. x \<in> set xs \<Longrightarrow> \<exists>y. f x = Inr y \<and> P x y"
  obtains ys where "map_res f xs = Inr ys" "list_all2 P xs ys"
proof -
  from assms have "\<exists>ys. map_res f xs = Inr ys \<and> list_all2 P xs ys"
  proof (induction xs)
    case (Cons x xs)
    then obtain y ys where "f x = Inr y" "P x y" "map_res f xs = Inr ys" "list_all2 P xs ys" by (metis list.set_intros)
    then show ?case by (simp add: res_simps)
  qed simp
  with that show thesis by blast
qed

lemma map_res_counts:
  assumes "\<And>x. x \<in> set xs \<Longrightarrow> c x \<le> n \<Longrightarrow> \<exists>y. f x = Inr y \<and> c y \<le> (c x :: nat)" and "sum_list (map c xs) \<le> n"
  obtains ys where "map_res f xs = Inr ys" "sum_list (map c ys) \<le> sum_list (map c xs)"
proof -
  have "c x \<le> sum_list (map c xs)" if "x \<in> set xs" for x using that by (induction xs) auto
  then obtain ys where ys: "map_res f xs = Inr ys" "list_all2 (\<lambda>x y. c y \<le> c x) xs ys"
    using assms map_res_total [of xs f "\<lambda>x y. c y \<le> c x"] by (metis le_trans)
  from ys(2) have "sum_list (map c ys) \<le> sum_list (map c xs)" by (induction rule: list_all2_induct) simp_all
  with ys(1) that show thesis by blast
qed

lemma count_values: "sum_list (map count_extends (createValuesFromBindings b vs)) = 0"
  by (auto simp: createValuesFromBindings_def)

lemma count_joined:
  assumes "joins_inputs lib"
  shows "count_extends (createJoin lib (createValuesFromBindings b vs @ [q]) flat) \<le> count_extends q"
proof -
  from assms have "count_extends (createJoin lib (createValuesFromBindings b vs @ [q]) flat) \<le>
      sum_list (map count_extends (createValuesFromBindings b vs @ [q]))" unfolding joins_inputs_def by blast
  also have "\<dots> = count_extends q" by (simp only: map_append sum_list_append count_values) simp
  finally show ?thesis .
qed

lemma materialize_counts:
  "joins_inputs lib \<Longrightarrow> \<not> strictTargetVariables opts \<Longrightarrow> count_extends q \<le> n \<Longrightarrow>
      \<exists>q'. materializeOperation n tms lib opts b q = Inr q' \<and> count_extends q' \<le> count_extends q"
  "joins_inputs lib \<Longrightarrow> \<not> strictTargetVariables opts \<Longrightarrow> count_in e \<le> n \<Longrightarrow>
      \<exists>e'. materializeExpression n tms lib opts b e = Inr e' \<and> count_in e' \<le> count_in e"
proof (induction n tms lib opts b q and n tms lib opts b e rule: materializeOperation_materializeExpression.induct)
  case (3 n tms lib opts b qs)
  from 3(4) have "sum_list (map count_extends qs) \<le> n" by simp
  with 3(1) [OF _ 3(2,3)] obtain qs' where "map_res (materializeOperation n tms lib opts b) qs = Inr qs'"
    "sum_list (map count_extends qs') \<le> sum_list (map count_extends qs)" by (rule map_res_counts)
  then show ?case using 3(2) by (auto simp: materializeOperation.simps(3) res_simps joins_inputs_def intro: le_trans)
next
  case (4 n tms lib opts b q v e)
  from 4(6) obtain m where m: "n = Suc m" "count_extends q + count_in e \<le> m" by (cases n) auto
  with 4(1) [OF 4(4,5)] obtain q' where q': "materializeOperation n tms lib opts b q = Inr q'" "count_extends q' \<le> count_extends q" by auto
  from 4(2) [OF q'(1) 4(4,5)] m obtain e' where e': "materializeExpression n tms lib opts b e = Inr e'" "count_in e' \<le> count_in e" by auto
  show ?case
  proof (cases "js_has b v")
    case True
    from 4(3) [OF q'(1) e'(1) True 4(5) m(1) 4(4,5)] m(2) q'(2) obtain q'' where
      "materializeOperation m tms lib opts b q' = Inr q''" "count_extends q'' \<le> count_extends q'" by auto
    with q' e' True 4(5) m(1) show ?thesis by (simp add: materializeOperation.simps(4) res_simps)
  qed (use q' e' in \<open>simp add: materializeOperation.simps(4) res_simps\<close>)
next
  case (5 n tms lib opts b q e)
  show ?case
  proof (cases "originalBindings opts = [] \<or> \<not> is_existence e \<and> \<not> is_operator e")
    case False
    with 5 obtain e' q' where parts: "materializeExpression n tms lib opts b e = Inr e'" "count_in e' \<le> count_in e"
      "materializeOperation n tms lib opts b q = Inr q'" "count_extends q' \<le> count_extends q" by fastforce
    from count_joined [OF 5(5), of "originalBindings opts" None q' True] False parts show ?thesis by (auto simp: materializeOperation.simps(5) res_simps)
  qed (auto simp: materializeOperation.simps(5))
next
  case (6 n tms lib opts b q vs)
  then obtain q' where q': "materializeOperation n tms lib opts b q = Inr q'" "count_extends q' \<le> count_extends q" by auto
  with count_joined [OF 6(2), of "originalBindings opts" "Some vs" q' True] show ?case by (simp add: materializeOperation.simps(6) res_simps Let_def)
next
  case (9 n tms lib opts b qs)
  from 9(4) have "sum_list (map count_extends qs) \<le> n" by simp
  with 9(1) [OF _ 9(2,3)] obtain qs' where "map_res (materializeOperation n tms lib opts b) qs = Inr qs'"
    "sum_list (map count_extends qs') \<le> sum_list (map count_extends qs)" by (rule map_res_counts)
  then show ?case by (simp add: materializeOperation.simps(9) res_simps)
next
  case (10 n tms lib opts b qs)
  from 10(4) have "sum_list (map count_extends qs) \<le> n" by simp
  with 10(1) [OF _ 10(2,3)] obtain qs' where "map_res (materializeOperation n tms lib opts b) qs = Inr qs'"
    "sum_list (map count_extends qs') \<le> sum_list (map count_extends qs)" by (rule map_res_counts)
  then show ?case by (simp add: materializeOperation.simps(10) res_simps)
next
  case (12 n tms lib opts b ty src qs x)
  from 12(4) have "sum_list (map count_extends qs) \<le> n" by simp
  with 12(1) [OF _ 12(2,3)] obtain qs' where "map_res (materializeOperation n tms lib opts b) qs = Inr qs'"
    "sum_list (map count_extends qs') \<le> sum_list (map count_extends qs)" by (rule map_res_counts)
  then show ?case by (simp add: materializeOperation.simps(12) res_simps)
next
  case (11 n tms lib opts b l r c)
  from 11(1) [OF 11(4,5)] 11(6) obtain l' where l': "materializeOperation n tms lib opts b l = Inr l'" "count_extends l' \<le> count_extends l" by auto
  from 11(2) [OF l'(1) 11(4,5)] 11(6) obtain r' where r': "materializeOperation n tms lib opts b r = Inr r'" "count_extends r' \<le> count_extends r" by auto
  show ?case
  proof (cases c)
    case (Some e)
    from 11(3) [OF l'(1) r'(1) Some 11(4,5)] 11(6) Some l' r' show ?thesis by (auto simp: materializeOperation.simps(11) res_simps)
  qed (use l' r' in \<open>simp add: materializeOperation.simps(11) res_simps\<close>)
next
  case (14 n tms lib opts b operator args)
  show ?case
  proof (cases "bindFilter opts \<and> \<not> bound_call b operator args")
    case True
    with 14(4) obtain args' where "map_res (materializeExpression n tms lib opts b) args = Inr args'"
      "sum_list (map count_in args') \<le> sum_list (map count_in args)" by (auto intro: map_res_counts [OF 14(1) [OF _ _ _ 14(2,3)]])
    then show ?thesis using True by (simp add: materializeExpression.simps(2) res_simps)
  qed (auto simp: materializeExpression.simps(2))
next
  case (15 n tms lib opts b name args)
  show ?case
  proof (cases "bindFilter opts")
    case True
    with 15(4) obtain args' where "map_res (materializeExpression n tms lib opts b) args = Inr args'"
      "sum_list (map count_in args') \<le> sum_list (map count_in args)" by (auto intro: map_res_counts [OF 15(1) [OF _ _ 15(2,3)]])
    then show ?thesis using True by (simp add: materializeExpression.simps(3) res_simps)
  qed (simp add: materializeExpression.simps(3))
qed (force simp: materializeOperation.simps materializeExpression.simps res_simps)+

text \<open>
  C39. Materializing an operation returns: with as much fuel as the operation has EXTENDs, and without strict target
  variables, it is an operation with at most as many EXTENDs.
\<close>

theorem materialize_returns:
  assumes "joins_inputs lib" "\<not> strictTargetVariables opts" "count_extends q \<le> n"
  shows "\<exists>q'. materializeOperation n tms lib opts b q = Inr q' \<and> count_extends q' \<le> count_extends q"
  using assms by (rule materialize_counts)

theorem materialize_returns_witness:
  "\<exists>q'. materializeOperation 1 \<lparr>someTermsNested = (\<lambda>P. P), mapQuadNested = (\<lambda>f. f)\<rparr> plain_lib
      \<lparr>strictTargetVariables = False, bindFilter = True, originalBindings = [(''x'', NamedNode ''a'')]\<rparr>
      [(''x'', NamedNode ''a'')] (Op_extend (Op_join []) ''x'' (E_term (NamedNode ''b'')) :: unit operation) = Inr q' \<and>
    count_extends q' \<le> count_extends (Op_extend (Op_join []) ''x'' (E_term (NamedNode ''b'')) :: unit operation)"
  by (rule materialize_returns) (simp_all add: joins_inputs_def plain_lib_def)

section \<open>Terms\<close>

text \<open>What the package rdf-terms is documented to do: the functions go through all terms in nested quads.\<close>

fun term_leaves :: "rdf_term \<Rightarrow> rdf_term set" where
  "term_leaves (Quad s p ob g) = term_leaves s \<union> term_leaves p \<union> term_leaves ob \<union> term_leaves g"
| "term_leaves t = {t}"

fun map_leaves :: "(rdf_term \<Rightarrow> rdf_term) \<Rightarrow> rdf_term \<Rightarrow> rdf_term" where
  "map_leaves f (Quad s p ob g) = Quad (map_leaves f s) (map_leaves f p) (map_leaves f ob) (map_leaves f g)"
| "map_leaves f t = f t"

definition terms_law :: "terms_lib \<Rightarrow> bool" where
  "terms_law tms \<longleftrightarrow>
     (\<forall>P t. someTermsNested tms P t \<longleftrightarrow> (\<exists>x \<in> term_leaves t. P x)) \<and> (\<forall>f t. mapQuadNested tms f t = map_leaves f t)"

lemma map_leaves_inst: "map_leaves (materialize_leaf b) t = inst_term (js_get b) t"
  by (induction t) (auto simp: materialize_leaf_def split: option.split)

lemma inst_no_variable: "\<not> (\<exists>x \<in> term_leaves t. is_variable x) \<Longrightarrow> inst_term f t = t"
  by (induction t) auto

lemma materializeTerm_inst:
  assumes "terms_law tms" shows "materializeTerm tms b t = inst_term (js_get b) t"
proof (cases t)
  case (Quad s p ob g)
  with assms show ?thesis
    using map_leaves_inst [of b t] inst_no_variable [of t "js_get b"]
    by (simp add: materializeTerm_def terms_law_def)
qed (auto simp: materializeTerm_def materialize_leaf_def split: option.split)

section \<open>Joins with one solution\<close>

lemma join_single: "join_sols A {#b#} = image_mset (\<lambda>a. a ++ b) (filter_mset (\<lambda>a. compatible a b) A)"
  by (induction A) (simp_all add: join_sols_def join_one_def)

declare compatible_refl [simp]

lemma map_add_self [simp]: "f ++ f = f"
  by (simp add: map_add_def fun_eq_iff split: option.split)

lemma join_single_self [simp]: "join_sols {#b#} {#b#} = {#b#}"
  by (simp add: join_single)

lemma join_twice: "join_sols (join_sols A {#b#}) {#b#} = join_sols A {#b#}"
  by (simp only: join_sols_assoc join_single_self)

lemma join_spread: "join_sols (join_sols A R) {#b#} = join_sols (join_sols A {#b#}) (join_sols R {#b#})"
  by (metis join_sols_assoc join_sols_comm join_single_self)

lemma joins_single:
  "list_all2 (\<lambda>q' q. join_sols (E q') {#b#} = join_sols (E q) {#b#}) qs' qs \<Longrightarrow>
     join_sols (join_all (map E qs')) {#b#} = join_sols (join_all (map E qs)) {#b#}"
proof (induction rule: list_all2_induct)
  case (Cons q' qs' q qs)
  then show ?case by (simp only: list.map join_all_Cons join_spread)
qed simp

lemma sums_single:
  "list_all2 (\<lambda>q' q. join_sols (E q') {#b#} = join_sols (E q) {#b#}) qs' qs \<Longrightarrow>
     join_sols (sum_list (map E qs')) {#b#} = join_sols (sum_list (map E qs)) {#b#}"
  by (induction rule: list_all2_induct) (simp_all add: join_sols_add)

lemma map_res_list_all2: "map_res f xs = Inr ys \<Longrightarrow> list_all2 (\<lambda>x y. f x = Inr y) xs ys"
  by (induction xs arbitrary: ys) (auto simp: res_simps)

text \<open>The VALUES that stand for a solution.\<close>

lemma join_values:
  "wf_map b \<Longrightarrow> join_all (map (\<lambda>(v, t). eval sem (Op_values [v] [[(v, t)]])) b) = {#js_get b#}"
proof (induction b)
  case Nil
  then show ?case by simp
next
  case (Cons x b)
  obtain v t where x: "x = (v, t)" by fastforce
  from Cons(2) have b: "wf_map b" "v \<notin> set (js_keys b)" by (auto simp: wf_map_def x)
  then have none: "js_get b v = None" using js_get_None by metis
  then have "compatible [v \<mapsto> t] (js_get b)" "[v \<mapsto> t] ++ js_get b = (js_get b)(v \<mapsto> t)"
    by (auto simp: compatible_def map_add_def split: option.splits)
  then show ?case
    using Cons(1) [OF b(1)] by (simp add: join_all_Cons x join_single) (simp add: fun_upd_def)
qed

lemma wf_map_filter: "wf_map b \<Longrightarrow> wf_map (filter P b)"
  by (auto simp: wf_map_def intro: distinct_map_filter)

lemma js_get_filter_keys: "js_get (filter (\<lambda>(v, t). v \<in> V) b) = js_get b |` V"
  by (induction b) (auto simp: restrict_map_def fun_eq_iff)

lemma eval_createValues:
  assumes "wf_map b"
  shows "join_all (map (eval sem) (createValuesFromBindings b None)) = {#js_get b#}"
    and "join_all (map (eval sem) (createValuesFromBindings b (Some vs))) = {#js_get b |` set vs#}"
  using join_values [OF wf_map_filter [OF assms], of sem "\<lambda>x. True"]
    join_values [OF wf_map_filter [OF assms], of sem "\<lambda>(v, t). v \<in> set vs"]
  by (simp_all add: createValuesFromBindings_def comp_def case_prod_beta' js_get_filter_keys [unfolded case_prod_beta'])

section \<open>Solutions of materialized operations\<close>

text \<open>The variables that the solutions of an operation can bind.\<close>

fun operation_variables :: "'x operation \<Rightarrow> string set" where
  "operation_variables (Op_extend q v e) = insert v (operation_variables q)"
| "operation_variables (Op_filter q e) = operation_variables q"
| "operation_variables (Op_join qs) = (\<Union>q \<in> set qs. operation_variables q)"
| "operation_variables Op_nop = {}"
| "operation_variables (Op_project q vs) = operation_variables q \<inter> set vs"
| "operation_variables (Op_union qs) = (\<Union>q \<in> set qs. operation_variables q)"
| "operation_variables (Op_values vs rows) = (\<Union>r \<in> set rows. fst ` set r)"
| "operation_variables (Op_leftjoin l r c) = operation_variables l \<union> operation_variables r"
| "operation_variables (Op_pattern src s p ob g) = term_vars s \<union> term_vars p \<union> term_vars ob \<union> term_vars g"
| "operation_variables (Op_path src s p ob g) = term_vars s \<union> term_vars ob \<union> term_vars g"
| "operation_variables (Op_bgp qs) = (\<Union>q \<in> set qs. operation_variables q)"
| "operation_variables (Op_other ty src qs x) = UNIV"

text \<open>What is relied on: the solutions of a pattern or a path bind its variables only, and those of it with the
  variables replaced are, joined with the solution, the ones that agree with it; the algebra package makes
  joins; a solution of terms.\<close>

definition binding_law :: "'x semantics \<Rightarrow> term_row \<Rightarrow> bool" where
  "binding_law sem b \<longleftrightarrow>
     (\<forall>src s p ob g. let q = Op_pattern src s p ob g in \<forall>f \<in># sem_base sem q. dom f \<subseteq> operation_variables q) \<and>
     (\<forall>src s p ob g. let q = Op_path src s p ob g in \<forall>f \<in># sem_base sem q. dom f \<subseteq> operation_variables q) \<and>
     (\<forall>src s p ob g. let inst = inst_term (js_get b) in
        join_sols (sem_base sem (Op_pattern src (inst s) (inst p) (inst ob) (inst g))) {#js_get b#} =
        join_sols (sem_base sem (Op_pattern src s p ob g)) {#js_get b#}) \<and>
     (\<forall>src s p ob g. let inst = inst_term (js_get b) in
        join_sols (sem_base sem (Op_path src (inst s) p (inst ob) (inst g))) {#js_get b#} =
        join_sols (sem_base sem (Op_path src s p ob g)) {#js_get b#})"

definition join_law :: "'x algebra_lib \<Rightarrow> 'x semantics \<Rightarrow> bool" where
  "join_law lib sem \<longleftrightarrow> (\<forall>qs flat. eval sem (createJoin lib qs flat) = join_all (map (eval sem) qs))"

definition ground_row :: "term_row \<Rightarrow> bool" where
  "ground_row b \<longleftrightarrow> wf_map b \<and> (\<forall>(v, t) \<in> set b. term_vars t = {})"

text \<open>An expression whose materialization has the same value on every solution that agrees.\<close>

definition expression_law ::
  "terms_lib \<Rightarrow> 'x algebra_lib \<Rightarrow> 'x semantics \<Rightarrow> term_row \<Rightarrow> 'x expr \<Rightarrow> bool" where
  "expression_law tms lib sem b e \<longleftrightarrow>
     (\<forall>n opts. bindFilter opts \<longrightarrow>
        (\<exists>e'. materializeExpression n tms lib opts b e = Inr e' \<and>
          (\<forall>f. js_get b \<subseteq>\<^sub>m f \<longrightarrow> sem_holds sem e' f = sem_holds sem e f)))"

text \<open>Where materializing keeps the solutions: a filter reads a variable of the solution only if its input binds it,
  and a subquery has no variable of the solution that it does not project.\<close>

fun bind_ok :: "('x expr \<Rightarrow> bool) \<Rightarrow> 'x semantics \<Rightarrow> term_row \<Rightarrow> 'x operation \<Rightarrow> bool" where
  "bind_ok ok sem b (Op_pattern src s p ob g) = True"
| "bind_ok ok sem b (Op_path src s p ob g) = True"
| "bind_ok ok sem b Op_nop = True"
| "bind_ok ok sem b (Op_join qs) = list_all (bind_ok ok sem b) qs"
| "bind_ok ok sem b (Op_union qs) = list_all (bind_ok ok sem b) qs"
| "bind_ok ok sem b (Op_bgp qs) = list_all (bind_ok ok sem b) qs"
| "bind_ok ok sem b (Op_values vs rows) = (plain_names (dom (js_get b)) \<and> list_all wf_map rows)"
| "bind_ok ok sem b (Op_filter q e) =
     (b = [] \<or> \<not> is_operator e \<and> \<not> is_existence e \<or>
      is_operator e \<and> ok e \<and> bind_ok ok sem b q \<and>
      (\<exists>V. depends_on (sem_holds sem e) V \<and> V \<inter> dom (js_get b) \<subseteq> set (certain_variables q)) \<and>
      bound_in (set (certain_variables q)) (eval sem q))"
| "bind_ok ok sem b (Op_project q vs) =
     (bind_ok ok sem b q \<and> operation_variables q \<inter> dom (js_get b) \<subseteq> set vs)"
| "bind_ok ok sem b q = False"

lemma join_variables_bind:
  assumes "\<And>q f. q \<in> set qs \<Longrightarrow> f \<in># eval sem q \<Longrightarrow> dom f \<subseteq> operation_variables q" "f \<in># join_all (map (eval sem) qs)"
  shows "dom f \<subseteq> (\<Union>q \<in> set qs. operation_variables q)"
  by (rule join_all_dom [OF _ assms(2)]) (use assms(1) in fastforce)

lemma operation_variables_bind:
  assumes "binding_law sem b"
  shows "f \<in># eval sem q \<Longrightarrow> dom f \<subseteq> operation_variables q"
proof (induction q arbitrary: f rule: operation_variables.induct)
  case (1 q v e)
  then obtain g where g: "g \<in># eval sem q" "f = (case sem_value sem e g of None \<Rightarrow> g | Some t \<Rightarrow> g(v \<mapsto> t))" by auto
  with 1(1) [OF g(1)] show ?case by (auto split: option.splits if_splits)
next
  case (3 qs)
  then show ?case using join_variables_bind [of qs sem f] by simp
next
  case (6 qs)
  then show ?case by (fastforce simp: sum_list_mem)
next
  case (5 q vs)
  then obtain g where "g \<in># eval sem q" "f = g |` set vs" by auto
  with 5(1) [of g] show ?case by auto
next
  case (7 vs rows)
  then obtain r where "r \<in> set rows" "f = map_of r" by auto
  then show ?case by (auto simp: dom_map_of_conv_image_fst)
next
  case (8 l r c)
  from 8(3) obtain g where g: "g \<in># eval sem l"
    "f \<in># left_join_one (\<lambda>f. case c of None \<Rightarrow> True | Some e \<Rightarrow> sem_holds sem e f) (eval sem r) g" by auto
  from left_join_one_extends [OF g(2)] 8(1) [OF g(1)] 8(2) show ?case by fastforce
next
  case (11 qs)
  then show ?case using join_variables_bind [of qs sem f] by simp
qed (use assms in \<open>auto simp: binding_law_def Let_def dom_map_of_conv_image_fst\<close>)

text \<open>A solution that binds only variables of a set, or as the given solution does.\<close>

definition within_row :: "string set \<Rightarrow> (string \<rightharpoonup> rdf_term) \<Rightarrow> (string \<rightharpoonup> rdf_term) \<Rightarrow> bool" where
  "within_row D b m \<longleftrightarrow> (\<forall>x \<in> dom m. x \<in> D \<or> m x = b x)"

lemma within_row_intros:
  "within_row D b b" "within_row D b (b |` V)" "dom m \<subseteq> D \<Longrightarrow> within_row D b m"
  "within_row D b f \<Longrightarrow> within_row D b g \<Longrightarrow> within_row D b (f ++ g)"
  "within_row D b f \<Longrightarrow> within_row (D \<inter> V) b (f |` V)"
  "within_row D b f \<Longrightarrow> D \<subseteq> E \<Longrightarrow> within_row E b f"
  by (auto simp: within_row_def restrict_map_def map_add_def split: option.splits if_splits)

lemma join_all_within:
  "(\<And>A f. A \<in> set As \<Longrightarrow> f \<in># A \<Longrightarrow> within_row D b f) \<Longrightarrow> f \<in># join_all As \<Longrightarrow> within_row D b f"
proof (induction As arbitrary: f)
  case Nil
  then show ?case by (simp add: within_row_def)
next
  case (Cons A As)
  from Cons(3) obtain g h where "g \<in># A" "h \<in># join_all As" "f = g ++ h" by (auto simp: join_all_Cons join_sols_mem)
  with Cons(1) [of h] Cons(2) show ?case by (auto intro: within_row_intros(4))
qed

lemma inst_term_vars:
  "(\<And>v x. f v = Some x \<Longrightarrow> term_vars x = {}) \<Longrightarrow> term_vars (inst_term f t) \<subseteq> term_vars t"
  by (induction t) (auto split: option.split)

lemma ground_row_get: "ground_row b \<Longrightarrow> js_get b v = Some x \<Longrightarrow> term_vars x = {}"
  by (force simp: ground_row_def dest: js_get_mem)

text \<open>What materializing an operation keeps.\<close>

definition keeps_solutions :: "'x semantics \<Rightarrow> term_row \<Rightarrow> 'x operation \<Rightarrow> 'x operation \<Rightarrow> bool" where
  "keeps_solutions sem b q q' \<longleftrightarrow>
     join_sols (eval sem q') {#js_get b#} = join_sols (eval sem q) {#js_get b#} \<and>
     (\<forall>m \<in># eval sem q'. within_row (operation_variables q) (js_get b) m)"

lemma keeps_same: "binding_law sem b \<Longrightarrow> keeps_solutions sem b q q"
  using operation_variables_bind [of sem b _ q] by (auto simp: keeps_solutions_def intro: within_row_intros(3))

lemma keeps_join:
  assumes "list_all2 (keeps_solutions sem b) qs qs'"
  shows "join_sols (join_all (map (eval sem) qs')) {#js_get b#} = join_sols (join_all (map (eval sem) qs)) {#js_get b#}"
    and "m \<in># join_all (map (eval sem) qs') \<Longrightarrow> within_row (\<Union>q \<in> set qs. operation_variables q) (js_get b) m"
    and "join_sols (sum_list (map (eval sem) qs')) {#js_get b#} = join_sols (sum_list (map (eval sem) qs)) {#js_get b#}"
    and "m \<in># sum_list (map (eval sem) qs') \<Longrightarrow> within_row (\<Union>q \<in> set qs. operation_variables q) (js_get b) m"
proof -
  have all: "list_all2 (\<lambda>q' q. join_sols (eval sem q') {#js_get b#} = join_sols (eval sem q) {#js_get b#}) qs' qs"
    using assms by (auto simp: list_all2_conv_all_nth keeps_solutions_def)
  then show "join_sols (join_all (map (eval sem) qs')) {#js_get b#} = join_sols (join_all (map (eval sem) qs)) {#js_get b#}"
    by (rule joins_single)
  from all show "join_sols (sum_list (map (eval sem) qs')) {#js_get b#} = join_sols (sum_list (map (eval sem) qs)) {#js_get b#}"
    by (rule sums_single)
  have each: "within_row (\<Union>q \<in> set qs. operation_variables q) (js_get b) f" if "q' \<in> set qs'" "f \<in># eval sem q'" for q' f
  proof -
    from that(1) assms obtain q where "q \<in> set qs" "keeps_solutions sem b q q'"
      by (metis in_set_conv_nth list_all2_conv_all_nth)
    with that(2) show ?thesis by (auto simp: keeps_solutions_def intro: within_row_intros(6))
  qed
  show "m \<in># join_all (map (eval sem) qs') \<Longrightarrow> within_row (\<Union>q \<in> set qs. operation_variables q) (js_get b) m"
    by (rule join_all_within) (use each in auto)
  show "m \<in># sum_list (map (eval sem) qs') \<Longrightarrow> within_row (\<Union>q \<in> set qs. operation_variables q) (js_get b) m"
    using each by (auto simp: sum_list_mem)
qed

text \<open>A condition on the solutions that agree with the solution holds as its materialization does.\<close>

lemma filter_materialized:
  assumes join: "join_law lib sem" and keeps: "keeps_solutions sem b q q'" and row: "wf_map b"
    and law: "\<And>f. js_get b \<subseteq>\<^sub>m f \<Longrightarrow> sem_holds sem e' f = sem_holds sem e f"
  shows "eval sem (Op_filter (createJoin lib (createValuesFromBindings b None @ [q']) True) e') =
    filter_mset (sem_holds sem e) (join_sols (eval sem q) {#js_get b#})"
proof -
  have "eval sem (createJoin lib (createValuesFromBindings b None @ [q']) True) = join_sols (eval sem q') {#js_get b#}"
    using join eval_createValues(1) [OF row, of sem] by (simp add: join_law_def join_all_append join_sols_comm)
  moreover have "js_get b \<subseteq>\<^sub>m f" if "f \<in># join_sols A {#js_get b#}" for A f
    using that by (auto simp: join_single map_le_def)
  then have "filter_mset (sem_holds sem e') (join_sols A {#js_get b#}) = filter_mset (sem_holds sem e) (join_sols A {#js_get b#})" for A
    by (intro filter_mset_cong0 law)
  ultimately show ?thesis using keeps by (simp add: keeps_solutions_def)
qed

lemma keeps_filter:
  assumes join: "join_law lib sem" and keeps: "keeps_solutions sem b q q'" and row: "wf_map b"
    and law: "\<And>f. js_get b \<subseteq>\<^sub>m f \<Longrightarrow> sem_holds sem e' f = sem_holds sem e f"
    and dep: "depends_on (sem_holds sem e) V" "V \<inter> dom (js_get b) \<subseteq> W" "bound_in W (eval sem q)"
  shows "keeps_solutions sem b (Op_filter q e) (Op_filter (createJoin lib (createValuesFromBindings b None @ [q']) True) e')"
proof -
  let ?b = "js_get b" let ?q = "Op_filter (createJoin lib (createValuesFromBindings b None @ [q']) True) e'"
  have made: "eval sem ?q = filter_mset (sem_holds sem e) (join_sols (eval sem q) {#?b#})"
    by (rule filter_materialized [OF join keeps row law])
  also have "\<dots> = join_sols (filter_mset (sem_holds sem e) (eval sem q)) {#?b#}"
  proof (rule filter_join_left [OF dep(1)])
    fix f g v assume f: "f \<in># eval sem q" "g \<in># {#?b#}" "compatible f g" "v \<in> V"
    show "(f ++ g) v = f v"
    proof (cases "?b v")
      case (Some t)
      with dep(2) f(4) have "v \<in> W" by auto
      with dep(3) f(1) obtain t' where "f v = Some t'" by (auto simp: bound_in_def)
      with f(2,3) Some show ?thesis by (auto simp: compatible_def)
    qed (use f in \<open>auto simp: map_add_def\<close>)
  qed
  finally have filtered: "eval sem ?q = join_sols (filter_mset (sem_holds sem e) (eval sem q)) {#?b#}" .
  have "within_row (operation_variables q) ?b m" if m: "m \<in># eval sem ?q" for m
  proof -
    from m have "m \<in># join_sols (eval sem q') {#?b#}" using keeps by (simp add: made keeps_solutions_def del: eval.simps)
    then obtain h where h: "h \<in># eval sem q'" "m = h ++ ?b" by (auto simp: join_single)
    from keeps h(1) have "within_row (operation_variables q) ?b h" by (simp add: keeps_solutions_def)
    then show ?thesis unfolding h(2) by (intro within_row_intros(1,4))
  qed
  then show ?thesis
    unfolding keeps_solutions_def filtered operation_variables.simps by (simp add: join_twice)
qed

lemma restricted_compatible:
  assumes "within_row D b m" "D \<inter> dom b \<subseteq> V"
  shows "compatible m (b |` V) \<longleftrightarrow> compatible m b" and "compatible (m |` V) b \<longleftrightarrow> compatible m b"
proof -
  have "x = y" if "k \<notin> V" "m k = Some x" "b k = Some y" for k x y
  proof -
    have "k \<notin> D" using assms(2) that by blast
    with assms(1) that show ?thesis by (force simp: within_row_def)
  qed
  note out = this
  show "compatible m (b |` V) \<longleftrightarrow> compatible m b"
    unfolding compatible_def restrict_map_def by (metis option.distinct(1) out)
  show "compatible (m |` V) b \<longleftrightarrow> compatible m b"
    unfolding compatible_def restrict_map_def by (metis option.distinct(1) out)
qed

text \<open>A projection of the solutions, joined with the solution, with and without the VALUES of the projected variables.\<close>

lemma join_add_single:
  "join_sols (add_mset a A) {#b#} = (if compatible a b then add_mset (a ++ b) (join_sols A {#b#}) else join_sols A {#b#})"
  by (simp add: join_single)

lemma project_spread:
  assumes "D \<inter> dom b \<subseteq> V" and "\<forall>m \<in># M. within_row D b m"
  shows "join_sols (image_mset (\<lambda>m. m |` V) M) {#b#} = image_mset (\<lambda>h. h |` V ++ b) (join_sols M {#b#})"
    and "join_sols (image_mset (\<lambda>m. m |` V) (join_sols M {#b |` V#})) {#b#} = image_mset (\<lambda>h. h |` V ++ b) (join_sols M {#b#})"
proof -
  have absorb: "(m ++ b) |` V ++ b = m |` V ++ b" "(m ++ b |` V) |` V ++ b = m |` V ++ b" for m :: "string \<rightharpoonup> rdf_term"
    by (auto simp: map_add_def restrict_map_def fun_eq_iff split: option.split)
  have agree: "compatible ((m ++ b |` V) |` V) b" if "compatible m b" for m
    using that unfolding compatible_def map_add_def restrict_map_def by (auto split: option.splits)
  show "join_sols (image_mset (\<lambda>m. m |` V) M) {#b#} = image_mset (\<lambda>h. h |` V ++ b) (join_sols M {#b#})"
    using assms(2)
    by (induction M) (simp_all add: join_add_single absorb restricted_compatible(2) [OF _ assms(1)])
  show "join_sols (image_mset (\<lambda>m. m |` V) (join_sols M {#b |` V#})) {#b#} = image_mset (\<lambda>h. h |` V ++ b) (join_sols M {#b#})"
    using assms(2)
    by (induction M) (simp_all add: join_add_single absorb agree restricted_compatible(1) [OF _ assms(1)])
qed

lemma keeps_project:
  fixes sem :: "'x semantics"
  assumes join: "join_law lib sem" and keeps: "keeps_solutions sem b q q'" and row: "wf_map b"
    and bind: "binding_law sem b" and vars: "operation_variables q \<inter> dom (js_get b) \<subseteq> set vs"
  shows "keeps_solutions sem b (Op_project q vs)
    (Op_project (if createValuesFromBindings b (Some vs) = ([] :: 'x operation list) then q'
                 else createJoin lib (createValuesFromBindings b (Some vs) @ [q']) True) vs)"
    (is "keeps_solutions _ _ _ (Op_project ?q vs)")
proof -
  let ?b = "js_get b"
  have made: "eval sem ?q = join_sols (eval sem q') {#?b |` set vs#}"
  proof (cases "createValuesFromBindings b (Some vs) = ([] :: 'x operation list)")
    case True
    have "?b |` set vs = Map.empty" using eval_createValues(2) [OF row, of sem vs] unfolding True by simp
    with True show ?thesis by simp
  next
    case False
    then show ?thesis
      using join eval_createValues(2) [OF row, of sem vs] by (simp add: join_law_def join_all_append join_sols_comm)
  qed
  have within: "\<forall>m \<in># eval sem q'. within_row (operation_variables q) ?b m"
    using keeps by (simp add: keeps_solutions_def)
  have own: "\<forall>m \<in># eval sem q. within_row (operation_variables q) ?b m"
    by (intro ballI within_row_intros(3) operation_variables_bind [OF bind])
  have "within_row (operation_variables q \<inter> set vs) ?b (m |` set vs)" if "m \<in># join_sols (eval sem q') {#?b |` set vs#}" for m
  proof (rule within_row_intros(5))
    from that obtain h where h: "h \<in># eval sem q'" "m = h ++ ?b |` set vs" by (auto simp: join_single)
    from within h(1) show "within_row (operation_variables q) ?b m"
      unfolding h(2) by (intro within_row_intros(2,4)) blast
  qed
  moreover have "join_sols (image_mset (\<lambda>m. m |` set vs) (join_sols (eval sem q') {#?b |` set vs#})) {#?b#} =
      join_sols (image_mset (\<lambda>m. m |` set vs) (eval sem q)) {#?b#}"
    using keeps project_spread(1) [OF vars own] project_spread(2) [OF vars within] by (simp add: keeps_solutions_def)
  ultimately show ?thesis
    unfolding keeps_solutions_def eval.simps made operation_variables.simps by auto
qed

text \<open>VALUES: the rows that agree, without the variables of the solution.\<close>

lemma js_get_deletes: "js_get (fold (\<lambda>v r. js_delete r v) ws r) = js_get r |` (- set ws)"
  by (induction ws arbitrary: r) (auto simp: restrict_map_def fun_eq_iff)

lemma materialize_row_get:
  assumes "plain_names (dom (js_get b))" "wf_map b"
  shows "materialize_row b r = (if compatible (js_get r) (js_get b)
    then Some (fold (\<lambda>v r. js_delete r v) (js_keys b) r) else None)"
proof -
  have "in_object r v \<longleftrightarrow> js_has r v" if "(v, t) \<in> set b" for v t
    using that assms js_get_in [of b v t] by (auto simp: in_object_def plain_names_def)
  then have "list_all (\<lambda>(v, t). in_object r v \<longrightarrow> js_get r v = Some t) b \<longleftrightarrow>
      (\<forall>(v, t) \<in> set b. js_has r v \<longrightarrow> js_get r v = Some t)"
    by (fastforce simp: list_all_iff)
  also have "\<dots> \<longleftrightarrow> compatible (js_get r) (js_get b)"
    using js_get_in [OF assms(2)] by (fastforce simp: compatible_def dest: js_get_mem)
  finally show ?thesis by (simp add: materialize_row_def)
qed

lemma map_filter_Cons: "List.map_filter f (x # xs) = (case f x of None \<Rightarrow> List.map_filter f xs | Some y \<Rightarrow> y # List.map_filter f xs)"
  by (simp add: List.map_filter_def split: option.split)

lemma keeps_values:
  assumes names: "plain_names (dom (js_get b))" and row: "wf_map b"
  shows "keeps_solutions sem b (Op_values vs rows) (Op_values ws (List.map_filter (materialize_row b) rows))"
proof -
  let ?b = "js_get b"
  have "set (js_keys b) = dom ?b" by (simp add: dom_map_of_conv_image_fst)
  note got = materialize_row_get [OF names row] js_get_deletes [of "js_keys b", unfolded this]
  have over: "f |` (- dom ?b) ++ ?b = f ++ ?b" "compatible (f |` (- dom ?b)) ?b" for f
    by (auto simp: map_add_def restrict_map_def fun_eq_iff compatible_def split: option.split)
  have "join_sols (mset (map map_of (List.map_filter (materialize_row b) rows))) {#?b#} = join_sols (mset (map map_of rows)) {#?b#}"
    by (induction rows) (simp_all add: map_filter_Cons got join_add_single over)
  moreover have "within_row (\<Union>r \<in> set rows. fst ` set r) ?b (map_of r')"
    if "r' \<in> set (List.map_filter (materialize_row b) rows)" for r'
  proof -
    from that obtain r where "r \<in> set rows" "materialize_row b r = Some r'"
      by (induction rows) (auto simp: map_filter_Cons split: option.splits)
    then have "r \<in> set rows" "dom (map_of r') \<subseteq> fst ` set r"
      by (auto simp: got dom_map_of_conv_image_fst [symmetric] restrict_map_def split: if_splits)
    then show ?thesis by (auto intro!: within_row_intros(3))
  qed
  ultimately show ?thesis by (auto simp: keeps_solutions_def)
qed

section \<open>Materializing keeps the solutions that agree\<close>

lemma keeps_pattern:
  assumes "terms_law tms" "ground_row b" "binding_law sem b"
  shows "keeps_solutions sem b (Op_pattern src s p ob g)
      (Op_pattern src (materializeTerm tms b s) (materializeTerm tms b p) (materializeTerm tms b ob) (materializeTerm tms b g))"
    and "keeps_solutions sem b (Op_path src s x ob g)
      (Op_path src (materializeTerm tms b s) x (materializeTerm tms b ob) (materializeTerm tms b g))"
proof -
  have vars: "term_vars (inst_term (js_get b) t) \<subseteq> term_vars t" for t
    by (rule inst_term_vars) (rule ground_row_get [OF assms(2)])
  note inst = materializeTerm_inst [OF assms(1)]
  have "dom f \<subseteq> operation_variables (Op_pattern src s p ob g)"
    if "f \<in># eval sem (Op_pattern src (inst_term (js_get b) s) (inst_term (js_get b) p) (inst_term (js_get b) ob) (inst_term (js_get b) g))" for f
    using operation_variables_bind [OF assms(3) that] vars by (auto dest!: subsetD)
  with assms(3) show "keeps_solutions sem b (Op_pattern src s p ob g)
      (Op_pattern src (materializeTerm tms b s) (materializeTerm tms b p) (materializeTerm tms b ob) (materializeTerm tms b g))"
    unfolding inst keeps_solutions_def binding_law_def Let_def
    by (intro conjI ballI within_row_intros(3)) simp_all
  have "dom f \<subseteq> operation_variables (Op_path src s x ob g)"
    if "f \<in># eval sem (Op_path src (inst_term (js_get b) s) x (inst_term (js_get b) ob) (inst_term (js_get b) g))" for f
    using operation_variables_bind [OF assms(3) that] vars by (auto dest!: subsetD)
  with assms(3) show "keeps_solutions sem b (Op_path src s x ob g)
      (Op_path src (materializeTerm tms b s) x (materializeTerm tms b ob) (materializeTerm tms b g))"
    unfolding inst keeps_solutions_def binding_law_def Let_def
    by (intro conjI ballI within_row_intros(3)) simp_all
qed

lemma materialize_keeps:
  assumes laws: "terms_law tms" "join_law lib sem" "ground_row b" "binding_law sem b"
    and opts: "bindFilter opts" "originalBindings opts = b" "\<not> strictTargetVariables opts"
  shows "bind_ok (expression_law tms lib sem b) sem b q \<Longrightarrow>
     \<exists>q'. materializeOperation n tms lib opts b q = Inr q' \<and> keeps_solutions sem b q q'"
proof (induction q rule: operation_variables.induct)
  case (2 q e)
  note simps = materializeOperation.simps(5) [of n tms lib opts b q e] keeps_same [OF laws(4)]
  show ?case
  proof (cases "b = [] \<or> \<not> is_operator e \<and> \<not> is_existence e")
    case False
    with 2(2) obtain V where e: "is_operator e" "expression_law tms lib sem b e" "bind_ok (expression_law tms lib sem b) sem b q"
      and V: "depends_on (sem_holds sem e) V" "V \<inter> dom (js_get b) \<subseteq> set (certain_variables q)"
      "bound_in (set (certain_variables q)) (eval sem q)" by auto
    from 2(1) [OF e(3)] obtain q' where q': "materializeOperation n tms lib opts b q = Inr q'" "keeps_solutions sem b q q'" by blast
    from e(2) opts(1) obtain e' where e': "materializeExpression n tms lib opts b e = Inr e'"
      "\<And>f. js_get b \<subseteq>\<^sub>m f \<Longrightarrow> sem_holds sem e' f = sem_holds sem e f" unfolding expression_law_def by blast
    from laws(3) have "wf_map b" by (simp add: ground_row_def)
    from keeps_filter [OF laws(2) q'(2) this e'(2) V] False e(1) q'(1) e'(1) show ?thesis
      by (simp add: simps(1) opts res_simps is_operator_def is_existence_def split: expression.splits)
  qed (use simps opts in auto)
next
  case (3 qs)
  then obtain qs' where "map_res (materializeOperation n tms lib opts b) qs = Inr qs'" "list_all2 (keeps_solutions sem b) qs qs'"
    by (auto simp: list_all_iff intro: map_res_total)
  with keeps_join [OF this(2)] laws(2) show ?case
    by (simp add: materializeOperation.simps(3) keeps_solutions_def join_law_def)
next
  case (5 q vs)
  then obtain q' where q': "materializeOperation n tms lib opts b q = Inr q'" "keeps_solutions sem b q q'" by auto
  from laws(3) have "wf_map b" by (simp add: ground_row_def)
  from keeps_project [OF laws(2) q'(2) this laws(4), of vs] 5(2) q'(1) show ?case
    by (simp add: materializeOperation.simps(6) opts Let_def)
next
  case (6 qs)
  then obtain qs' where "map_res (materializeOperation n tms lib opts b) qs = Inr qs'" "list_all2 (keeps_solutions sem b) qs qs'"
    by (auto simp: list_all_iff intro: map_res_total)
  with keeps_join [OF this(2)] show ?case by (simp add: materializeOperation.simps(9) keeps_solutions_def)
next
  case (7 vs rows)
  then show ?case
    using keeps_values [of b sem] laws(3) by (simp add: materializeOperation.simps(7) opts ground_row_def)
next
  case (11 qs)
  then obtain qs' where "map_res (materializeOperation n tms lib opts b) qs = Inr qs'" "list_all2 (keeps_solutions sem b) qs qs'"
    by (auto simp: list_all_iff intro: map_res_total)
  with keeps_join [OF this(2)] show ?case by (simp add: materializeOperation.simps(10) keeps_solutions_def)
qed (use keeps_pattern [OF laws(1,3,4)] keeps_same [OF laws(4)] in
     \<open>simp_all add: materializeOperation.simps(1,2,8) del: operation_variables.simps\<close>)

text \<open>A filter with an operator sees the solution: the condition of a left join is attached to the right operation.\<close>

lemma join_extending: "(\<And>m. m \<in># X \<Longrightarrow> b \<subseteq>\<^sub>m m) \<Longrightarrow> join_sols X {#b#} = X"
proof (induction X)
  case (add m X)
  then have "b \<subseteq>\<^sub>m m" by simp
  then have "compatible m b" "m ++ b = m"
    by (auto simp: compatible_def map_le_def dom_def map_add_def fun_eq_iff split: option.split)
  with add show ?case by (simp add: join_add_single)
qed (simp add: join_single)

lemma materialize_condition:
  assumes laws: "terms_law tms" "join_law lib sem" "ground_row b" "binding_law sem b"
    and opts: "bindFilter opts" "originalBindings opts = b" "\<not> strictTargetVariables opts"
    and e: "is_operator e" "expression_law tms lib sem b e" and q: "bind_ok (expression_law tms lib sem b) sem b q"
  obtains q' where "materializeOperation n tms lib opts b (Op_filter q e) = Inr q'"
    "join_sols (eval sem q') {#js_get b#} = filter_mset (sem_holds sem e) (join_sols (eval sem q) {#js_get b#})"
proof (cases "b = []")
  case True
  have "join_sols X {#Map.empty#} = X" for X :: "rdf_term solutions" by (rule join_extending) simp
  with True opts that [of "Op_filter q e"] show thesis by (simp add: materializeOperation.simps(5))
next
  case False
  from e opts(1) obtain e' where e': "materializeExpression n tms lib opts b e = Inr e'"
    "\<And>f. js_get b \<subseteq>\<^sub>m f \<Longrightarrow> sem_holds sem e' f = sem_holds sem e f" unfolding expression_law_def by blast
  from materialize_keeps [OF laws opts q] obtain q' where
    q': "materializeOperation n tms lib opts b q = Inr q'" "keeps_solutions sem b q q'" by blast
  from laws(3) have "wf_map b" by (simp add: ground_row_def)
  note made = filter_materialized [OF laws(2) q'(2) this e'(2)]
  have "join_sols (filter_mset P (join_sols A {#js_get b#})) {#js_get b#} = filter_mset P (join_sols A {#js_get b#})" for P A
    by (rule join_extending) (auto simp: join_single map_le_def)
  with made that [of "Op_filter (createJoin lib (createValuesFromBindings b None @ [q']) True) e'"] show thesis
    using False e(1) q'(1) e'(1) opts(2)
    by (simp add: materializeOperation.simps(5) res_simps is_operator_def is_existence_def del: eval.simps
        split: expression.splits)
qed

section \<open>The laws hold for a graph\<close>

lemma inst_inst:
  "(\<And>v x. b v = Some x \<Longrightarrow> term_vars x = {}) \<Longrightarrow> inst_term h (inst_term b t) = inst_term (h ++ b) t"
  by (induction t) (auto simp: inst_ground map_add_def split: option.split)

lemma inst_vars: "(\<And>v x. b v = Some x \<Longrightarrow> term_vars x = {}) \<Longrightarrow> term_vars (inst_term b t) = term_vars t - dom b"
  by (induction t) (auto split: option.split)

lemma match_inst:
  assumes ground: "\<And>v x. b v = Some x \<Longrightarrow> term_vars x = {}"
  shows "match_term t d Map.empty = Some f \<Longrightarrow> compatible f b \<Longrightarrow>
      match_term (inst_term b t) d Map.empty = Some (f |` (- dom b))"
    and "match_term (inst_term b t) d Map.empty = Some h \<Longrightarrow>
      match_term t d Map.empty = Some (h ++ b |` term_vars t) \<and> dom h \<inter> dom b = {}"
proof -
  assume f: "match_term t d Map.empty = Some f" "compatible f b"
  have "inst_term (f |` (- dom b)) (inst_term b t) = inst_term (f |` (- dom b) ++ b) t" by (rule inst_inst [OF ground])
  also have "\<dots> = inst_term f t"
  proof (rule inst_term_cong)
    fix v assume "v \<in> term_vars t"
    with f(1) have "v \<in> dom f" by (simp add: match_term_iff)
    with f(2) show "(f |` (- dom b) ++ b) v = f v"
      unfolding compatible_def map_add_def restrict_map_def by (cases "b v"; cases "f v") (fastforce split: option.split)+
  qed
  finally show "match_term (inst_term b t) d Map.empty = Some (f |` (- dom b))"
    using f(1) inst_vars [OF ground] by (auto simp: match_term_iff)
next
  assume h: "match_term (inst_term b t) d Map.empty = Some h"
  then have "dom h = term_vars t - dom b" using inst_vars [OF ground] by (simp add: match_term_iff)
  moreover have "inst_term (h ++ b |` term_vars t) t = inst_term (h ++ b) t"
    by (rule inst_term_cong) (simp add: map_add_def)
  then have "inst_term (h ++ b |` term_vars t) t = d"
    using h inst_inst [OF ground, where h = h] by (simp add: match_term_iff)
  ultimately show "match_term t d Map.empty = Some (h ++ b |` term_vars t) \<and> dom h \<inter> dom b = {}"
    by (auto simp: match_term_iff)
qed

lemma match_inst_join:
  assumes ground: "\<And>v x. b v = Some x \<Longrightarrow> term_vars x = {}"
  shows "join_sols (case match_term (inst_term b t) d Map.empty of None \<Rightarrow> {#} | Some h \<Rightarrow> {#h#}) {#b#} =
    join_sols (case match_term t d Map.empty of None \<Rightarrow> {#} | Some f \<Rightarrow> {#f#}) {#b#}"
proof (cases "match_term (inst_term b t) d Map.empty")
  case None
  then show ?thesis
    using match_inst(1) [OF ground, where t = t and d = d] by (auto simp: join_single split: option.split)
next
  case (Some h)
  have "match_term t d Map.empty = Some (h ++ b |` term_vars t) \<and> dom h \<inter> dom b = {}"
    by (rule match_inst(2) [OF _ Some]) (rule ground)
  then have m: "match_term t d Map.empty = Some (h ++ b |` term_vars t)" "dom h \<inter> dom b = {}" by blast+
  from m(2) have h: "h v = None" if "b v \<noteq> None" for v using that by blast
  have "h ++ b |` term_vars t ++ b = h ++ b"
    by (auto simp: map_add_def restrict_map_def fun_eq_iff split: option.split)
  moreover have "compatible h b" "compatible (h ++ b |` term_vars t) b"
    using h by (auto simp: compatible_def map_add_def restrict_map_def split: option.splits)
  ultimately show ?thesis by (simp add: Some m(1) join_single)
qed

lemma graph_binding_law:
  assumes row: "ground_row b" shows "binding_law (graph_semantics quads :: 'x semantics) b"
proof -
  have "join_sols (graph_base quads (Op_pattern src (inst_term (js_get b) s) (inst_term (js_get b) p)
        (inst_term (js_get b) ob) (inst_term (js_get b) g) :: 'x operation)) {#js_get b#} =
      join_sols (graph_base quads (Op_pattern src s p ob g :: 'x operation)) {#js_get b#}" for src s p ob g
  proof (induction quads)
    case Nil
    show ?case by (simp only: graph_base_Nil)
  next
    case (Cons d quads)
    from match_inst_join [OF ground_row_get [OF row], where t = "Quad s p ob g" and d = d] Cons show ?case
      by (simp only: graph_base_Cons join_sols_add inst_term.simps)
  qed
  then show ?thesis
    using graph_pattern_dom
    by (fastforce simp: binding_law_def Let_def graph_semantics_def graph_base_def [of _ "Op_path _ _ _ _ _"])
qed

lemma plain_join_law: "join_law plain_lib sem"
  by (simp add: join_law_def plain_lib_def)

text \<open>Expressions of terms, comparisons and conjunctions keep their values.\<close>

fun plain_expression :: "'q expression \<Rightarrow> bool" where
  "plain_expression (E_term t) = (is_variable t \<or> term_vars t = {})"
| "plain_expression (E_operator name args) = (name \<noteq> ''bound'' \<and> list_all plain_expression args)"
| "plain_expression e = False"

fun inst_expression :: "(string \<rightharpoonup> rdf_term) \<Rightarrow> 'q expression \<Rightarrow> 'q expression" where
  "inst_expression b (E_term t) = E_term (inst_term b t)"
| "inst_expression b (E_operator name args) = E_operator name (map (inst_expression b) args)"
| "inst_expression b e = e"

lemma map_res_same: "(\<And>x. x \<in> set xs \<Longrightarrow> f x = Inr (g x)) \<Longrightarrow> map_res f xs = Inr (map g xs)"
  by (induction xs) (auto simp: res_simps)

lemma materialize_plain:
  assumes "terms_law tms" "bindFilter opts"
  shows "plain_expression e \<Longrightarrow> materializeExpression n tms lib opts b e = Inr (inst_expression (js_get b) e)"
proof (induction e rule: plain_expression.induct)
  case (2 name args)
  then have "map_res (materializeExpression n tms lib opts b) args = Inr (map (inst_expression (js_get b)) args)"
    by (intro map_res_same) (simp add: list_all_iff)
  with 2(2) assms(2) show ?case by (simp add: materializeExpression.simps bound_call_def)
qed (simp_all add: materializeExpression.simps assms(2) materializeTerm_inst [OF assms(1)])

lemma term_in_inst:
  assumes "\<And>v x. b v = Some x \<Longrightarrow> term_vars x = {}" "b \<subseteq>\<^sub>m f" "is_variable t \<or> term_vars t = {}"
  shows "term_in f (inst_term b t) = term_in f t"
proof (cases t)
  case (Variable v)
  show ?thesis
  proof (cases "b v")
    case (Some x)
    with assms(2) have "f v = Some x" by (auto simp: map_le_def dom_def)
    with assms(1) [OF Some] Some Variable show ?thesis by (cases x) (auto simp: term_in_def)
  qed (simp add: Variable)
qed (use assms(3) in \<open>auto simp: inst_ground\<close>)

lemma simple_holds_inst:
  assumes "\<And>v x. b v = Some x \<Longrightarrow> term_vars x = {}" "b \<subseteq>\<^sub>m f"
  shows "plain_expression e \<Longrightarrow> simple_holds (inst_expression b e) f = simple_holds e f"
proof (induction e rule: plain_expression.induct)
  case (2 name args)
  show ?case
  proof (cases "name = ''&&''")
    case True
    with 2 show ?thesis by (auto simp: list_all_iff)
  next
    case False
    show ?thesis
    proof (cases args)
      case (Cons a as)
      show ?thesis
      proof (cases as)
        case (Cons c cs)
        from 2(2) have "plain_expression a" "plain_expression c" by (simp_all add: \<open>args = a # as\<close> Cons)
        with False show ?thesis
          by (cases a; cases c) (simp_all add: \<open>args = a # as\<close> Cons term_in_inst [OF assms])
      qed (use False in \<open>cases a, simp_all add: \<open>args = a # as\<close>\<close>)
    qed simp
  qed
qed (simp_all add: term_in_inst [OF assms])

lemma graph_expression_law:
  "terms_law tms \<Longrightarrow> ground_row b \<Longrightarrow> plain_expression e \<Longrightarrow> expression_law tms lib (graph_semantics quads) b e"
  using materialize_plain simple_holds_inst [OF ground_row_get]
  by (fastforce simp: expression_law_def graph_semantics_def)

definition plain_terms_lib :: terms_lib where
  "plain_terms_lib = \<lparr>someTermsNested = (\<lambda>P t. \<exists>x \<in> term_leaves t. P x), mapQuadNested = map_leaves\<rparr>"

lemma plain_terms_law: "terms_law plain_terms_lib"
  by (simp add: terms_law_def plain_terms_lib_def)

end
