(* ===== verification/Bind_Join.thy ===== *)
theory Bind_Join
  imports Materialize
begin

text \<open>
  The bind joins (\<open>packages/actor-rdf-join-inner-multi-bind\<close> and \<open>packages/actor-rdf-join-optional-bind\<close>): each
  solution of the first entry is bound into the operations of the other entries, which are then evaluated.  Streams
  are lists; the iterators of the package asynciterator that run a stream for each element, and the bus that
  evaluates an operation, are arguments.  An error of one element is the error of the whole.
\<close>

section \<open>The operations of the actors\<close>

datatype bind_order = Depth_first | Breadth_first | Unknown_order string

text \<open>\<open>MultiTransformIterator\<close> on the elements with the streams that they are mapped to, the mapping of a stream to
  streams (its first argument is the option \<open>optional\<close>), \<open>UnionIterator\<close>, and the mapping of a stream with a function
  that may have no result.\<close>

record 'b stream_lib =
  multi_stream :: "bool \<Rightarrow> ('b \<times> 'b list) list \<Rightarrow> 'b list"
  streams_of :: "bool \<Rightarrow> ('b \<times> 'b list) list \<Rightarrow> 'b list list"
  union_stream :: "'b list list \<Rightarrow> 'b list"
  transform_map :: "('b \<Rightarrow> 'b option) \<Rightarrow> 'b list \<Rightarrow> 'b list"

type_synonym ('v, 'x) operation_binder =
  "'x operation list \<Rightarrow> (rdf_term, 'v) bindings \<Rightarrow> string + (rdf_term, 'v) bindings list"

text \<open>The function that binds an element in \<open>createBindStream\<close>.\<close>

definition bound_operations ::
  "nat \<Rightarrow> terms_lib \<Rightarrow> 'x algebra_lib \<Rightarrow> (rdf_term, 'v) bindings \<Rightarrow> 'x operation list \<Rightarrow> string + 'x operation list" where
  "bound_operations n tms lib b operations =
     map_res (materializeOperation n tms lib
       \<lparr>strictTargetVariables = False, bindFilter = True, originalBindings = entries b\<rparr> (entries b)) operations"

definition bind_row ::
  "(rdf_term, 'v) bindings stream_lib \<Rightarrow> 'v \<Rightarrow> ('v \<Rightarrow> bool) \<Rightarrow> nat \<Rightarrow> terms_lib \<Rightarrow> 'x algebra_lib \<Rightarrow>
     'x operation list \<Rightarrow> ('v, 'x) operation_binder \<Rightarrow> (rdf_term, 'v) bindings \<Rightarrow> string + (rdf_term, 'v) bindings list" where
  "bind_row its u truthy n tms lib operations operationBinder b =
     bind_res (bound_operations n tms lib b operations) (\<lambda>subOperations.
     bind_res (operationBinder subOperations b) (\<lambda>rows.
       Inr (transform_map its (\<lambda>sub. b_merge u truthy sub b) rows)))"

definition createBindStream ::
  "(rdf_term, 'v) bindings stream_lib \<Rightarrow> 'v \<Rightarrow> ('v \<Rightarrow> bool) \<Rightarrow> nat \<Rightarrow> terms_lib \<Rightarrow> 'x algebra_lib \<Rightarrow> bind_order \<Rightarrow>
     (rdf_term, 'v) bindings list \<Rightarrow> 'x operation list \<Rightarrow> ('v, 'x) operation_binder \<Rightarrow> bool \<Rightarrow>
     string + (rdf_term, 'v) bindings list" where
  "createBindStream its u truthy n tms lib bindOrder baseStream operations operationBinder optional =
     (let streams = map_res (bind_row its u truthy n tms lib operations operationBinder) baseStream
      in case bindOrder of
        Depth_first \<Rightarrow> bind_res streams (\<lambda>ss. Inr (multi_stream its optional (zip baseStream ss)))
      | Breadth_first \<Rightarrow> bind_res streams (\<lambda>ss. Inr (union_stream its (streams_of its optional (zip baseStream ss))))
      | Unknown_order order \<Rightarrow> Inl (''Received request for unknown bind order: '' @ order))"

text \<open>The callback of the inner bind join: one operation is evaluated as it is, several are joined.\<close>

definition joined_operation :: "'x algebra_lib \<Rightarrow> 'x operation list \<Rightarrow> 'x operation" where
  "joined_operation lib operations =
     (if length operations = 1 then operations ! 0
      else createJoin lib operations (list_all (\<lambda>q. getOperationSource q = None) operations))"

definition multi_bind_stream ::
  "(rdf_term, 'v) bindings stream_lib \<Rightarrow> 'v \<Rightarrow> ('v \<Rightarrow> bool) \<Rightarrow> nat \<Rightarrow> terms_lib \<Rightarrow> 'x algebra_lib \<Rightarrow> bind_order \<Rightarrow>
     ('x operation \<Rightarrow> (rdf_term, 'v) bindings \<Rightarrow> string + (rdf_term, 'v) bindings list) \<Rightarrow>
     (rdf_term, 'v, 'x operation) join_entry list \<Rightarrow> string + (rdf_term, 'v) bindings list" where
  "multi_bind_stream its u truthy n tms lib bindOrder query entriesSorted =
     createBindStream its u truthy n tms lib bindOrder (je_bindings (entriesSorted ! 0))
       (map je_operation (drop 1 entriesSorted)) (\<lambda>ops b. query (joined_operation lib ops) b) False"

definition optional_bind_stream ::
  "(rdf_term, 'v) bindings stream_lib \<Rightarrow> 'v \<Rightarrow> ('v \<Rightarrow> bool) \<Rightarrow> nat \<Rightarrow> terms_lib \<Rightarrow> 'x algebra_lib \<Rightarrow> bind_order \<Rightarrow>
     ('x operation \<Rightarrow> (rdf_term, 'v) bindings \<Rightarrow> string + (rdf_term, 'v) bindings list) \<Rightarrow>
     (rdf_term, 'v, 'x operation) join_entry list \<Rightarrow> string + (rdf_term, 'v) bindings list" where
  "optional_bind_stream its u truthy n tms lib bindOrder query es =
     createBindStream its u truthy n tms lib bindOrder (je_bindings (es ! 0))
       [je_operation (es ! 1)] (\<lambda>ops b. query (ops ! 0) b) True"

section \<open>What the actors rely on\<close>

definition stream_law :: "'b stream_lib \<Rightarrow> bool" where
  "stream_law its \<longleftrightarrow>
     (\<forall>optional ps. mset (multi_stream its optional ps) =
        (\<Sum>p \<in># mset ps. if optional \<and> snd p = [] then {#fst p#} else mset (snd p))) \<and>
     (\<forall>optional ps. streams_of its optional ps = map snd ps) \<and>
     (\<forall>ss. mset (union_stream its ss) = sum_list (map mset ss)) \<and>
     (\<forall>f xs. transform_map its f xs = List.map_filter f xs)"

text \<open>The bus evaluates an operation: the rows are its solutions.\<close>

definition solutions_of :: "(rdf_term, 'v) bindings list \<Rightarrow> rdf_term solutions" where
  "solutions_of rows = image_mset b_get (mset rows)"

definition answers ::
  "('x operation \<Rightarrow> (rdf_term, 'v) bindings \<Rightarrow> string + (rdf_term, 'v) bindings list) \<Rightarrow> 'x semantics \<Rightarrow>
     'x operation \<Rightarrow> (rdf_term, 'v) bindings \<Rightarrow> bool" where
  "answers query sem q b \<longleftrightarrow>
     (case query q b of Inl e \<Rightarrow> False | Inr rows \<Rightarrow> list_all wf_bindings rows \<and> solutions_of rows = eval sem q)"

text \<open>A solution that can be bound into operations.\<close>

definition bindable ::
  "nat \<Rightarrow> terms_lib \<Rightarrow> 'x algebra_lib \<Rightarrow> 'x semantics \<Rightarrow>
     ('x operation \<Rightarrow> (rdf_term, 'v) bindings \<Rightarrow> string + (rdf_term, 'v) bindings list) \<Rightarrow> 'x operation list \<Rightarrow>
     (rdf_term, 'v) bindings \<Rightarrow> bool" where
  "bindable n tms lib sem query ops b \<longleftrightarrow>
     ground_row (entries b) \<and> binding_law sem (entries b) \<and>
     (\<forall>ops'. bound_operations n tms lib b ops = Inr ops' \<longrightarrow> answers query sem (joined_operation lib ops') b)"

definition binds_well :: "terms_lib \<Rightarrow> 'x algebra_lib \<Rightarrow> 'x semantics \<Rightarrow> (rdf_term, 'v) bindings \<Rightarrow> 'x operation \<Rightarrow> bool" where
  "binds_well tms lib sem b q \<longleftrightarrow> bind_ok (expression_law tms lib sem (entries b)) sem (entries b) q"

section \<open>One solution\<close>

lemma bound_operations_keep:
  assumes "terms_law tms" "join_law lib sem" "ground_row (entries b)" "binding_law sem (entries b)"
    and "\<And>q. q \<in> set ops \<Longrightarrow> binds_well tms lib sem b q"
  obtains ops' where "bound_operations n tms lib b ops = Inr ops'" "list_all2 (keeps_solutions sem (entries b)) ops ops'"
proof (rule map_res_total)
  fix q assume "q \<in> set ops"
  then show "\<exists>q'. materializeOperation n tms lib
        \<lparr>strictTargetVariables = False, bindFilter = True, originalBindings = entries b\<rparr> (entries b) q = Inr q' \<and>
      keeps_solutions sem (entries b) q q'"
    using assms by (intro materialize_keeps) (simp_all add: binds_well_def)
qed (simp add: bound_operations_def that)

lemma eval_joined_operation:
  "join_law lib sem \<Longrightarrow> eval sem (joined_operation lib ops) = join_all (map (eval sem) ops)"
  by (cases ops) (auto simp: joined_operation_def join_law_def join_all_Cons)

lemma merged_rows:
  assumes "wf_bindings b" "list_all wf_bindings rows"
  shows "solutions_of (List.map_filter (\<lambda>sub. b_merge u truthy sub b) rows) = join_sols (solutions_of rows) {#b_get b#}"
  using assms(2)
proof (induction rows)
  case (Cons r rows)
  then have "wf_bindings r" by simp
  from b_merge_spec [OF this assms(1), of u truthy] Cons show ?case
    by (auto simp: solutions_of_def map_filter_Cons join_add_single split: option.splits)
qed (simp add: solutions_of_def List.map_filter_def)

lemma b_get_entries: "js_get (entries b) = b_get b"
  by (simp add: b_get_def [abs_def])

text \<open>The rows for one solution: the solutions of the bound operations that agree with it.\<close>

lemma bind_row_rows:
  assumes "stream_law its" "bindable n tms lib sem query ops b" "bound_operations n tms lib b ops = Inr ops'"
  obtains rows where
    "bind_row its u truthy n tms lib ops (\<lambda>ops b. query (joined_operation lib ops) b) b = Inr rows"
    "solutions_of rows = join_sols (eval sem (joined_operation lib ops')) {#b_get b#}"
proof -
  from assms(2,3) have "answers query sem (joined_operation lib ops') b" by (simp add: bindable_def)
  then obtain rs where rs: "query (joined_operation lib ops') b = Inr rs" "list_all wf_bindings rs"
    "solutions_of rs = eval sem (joined_operation lib ops')" by (auto simp: answers_def split: sum.splits)
  from assms(2) have "wf_bindings b" by (simp add: bindable_def ground_row_def wf_bindings_def)
  from merged_rows [OF this rs(2), of u truthy] that [of "List.map_filter (\<lambda>sub. b_merge u truthy sub b) rs"] show thesis
    using assms(1) by (simp add: bind_row_def assms(3) rs res_simps stream_law_def)
qed

text \<open>The rows for all solutions, in both orders.\<close>

lemma stream_rows:
  assumes "stream_law its" "list_all2 (\<lambda>b rows. solutions_of rows = R b) base ss"
  shows "solutions_of (multi_stream its optional (zip base ss)) =
      (\<Sum>b \<in># mset base. if optional \<and> R b = {#} then {#b_get b#} else R b)"
    and "solutions_of (union_stream its (streams_of its optional (zip base ss))) = (\<Sum>b \<in># mset base. R b)"
proof -
  have empty: "rows = [] \<longleftrightarrow> solutions_of rows = {#}" for rows :: "(rdf_term, 'a) bindings list"
    by (simp add: solutions_of_def)
  have "image_mset b_get (\<Sum>p \<in># mset (zip base ss). if optional \<and> snd p = [] then {#fst p#} else mset (snd p)) =
      (\<Sum>b \<in># mset base. if optional \<and> R b = {#} then {#b_get b#} else R b)"
    using assms(2)
  proof (induction rule: list_all2_induct)
    case (Cons b bs rows ss)
    from Cons(1) have "image_mset b_get (mset rows) = R b" by (simp add: solutions_of_def)
    moreover from Cons(1) have "rows = [] \<longleftrightarrow> R b = {#}" by (simp add: empty)
    ultimately show ?case using Cons(3) by simp
  qed simp
  with assms(1) show "solutions_of (multi_stream its optional (zip base ss)) =
      (\<Sum>b \<in># mset base. if optional \<and> R b = {#} then {#b_get b#} else R b)"
    by (simp add: stream_law_def solutions_of_def)
  have "image_mset b_get (sum_list (map mset (map snd (zip base ss)))) = (\<Sum>b \<in># mset base. R b)"
    using assms(2) by (induction rule: list_all2_induct) (simp_all add: solutions_of_def)
  with assms(1) show "solutions_of (union_stream its (streams_of its optional (zip base ss))) = (\<Sum>b \<in># mset base. R b)"
    by (simp add: stream_law_def solutions_of_def)
qed

lemma bind_stream_rows:
  assumes law: "stream_law its" "\<And>b. b \<in> set base \<Longrightarrow> bindable n tms lib sem query ops b"
    and R: "\<And>b. b \<in> set base \<Longrightarrow> \<exists>ops'. bound_operations n tms lib b ops = Inr ops' \<and>
      join_sols (eval sem (joined_operation lib ops')) {#b_get b#} = R b"
  obtains depth breadth where
    "createBindStream its u truthy n tms lib Depth_first base ops (\<lambda>ops b. query (joined_operation lib ops) b) optional = Inr depth"
    "solutions_of depth = (\<Sum>b \<in># mset base. if optional \<and> R b = {#} then {#b_get b#} else R b)"
    "createBindStream its u truthy n tms lib Breadth_first base ops (\<lambda>ops b. query (joined_operation lib ops) b) optional = Inr breadth"
    "solutions_of breadth = (\<Sum>b \<in># mset base. R b)"
proof -
  obtain ss where ss: "map_res (bind_row its u truthy n tms lib ops (\<lambda>ops b. query (joined_operation lib ops) b)) base = Inr ss"
    "list_all2 (\<lambda>b rows. solutions_of rows = R b) base ss"
  proof (rule map_res_total)
    fix b assume b: "b \<in> set base"
    from R [OF b] obtain ops' where ops': "bound_operations n tms lib b ops = Inr ops'"
      "join_sols (eval sem (joined_operation lib ops')) {#b_get b#} = R b" by blast
    obtain rows where "bind_row its u truthy n tms lib ops (\<lambda>ops b. query (joined_operation lib ops) b) b = Inr rows"
      "solutions_of rows = join_sols (eval sem (joined_operation lib ops')) {#b_get b#}"
      by (rule bind_row_rows [OF law(1) law(2) [OF b] ops'(1)])
    with ops'(2) show "\<exists>rows. bind_row its u truthy n tms lib ops (\<lambda>ops b. query (joined_operation lib ops) b) b = Inr rows \<and>
        solutions_of rows = R b" by simp
  qed
  show thesis
    by (rule that [OF _ stream_rows(1) [OF law(1) ss(2)] _ stream_rows(2) [OF law(1) ss(2)]])
      (simp_all add: createBindStream_def ss(1) res_simps)
qed

section \<open>The inner bind join\<close>

lemma sum_join_single: "(\<Sum>b \<in># mset base. join_sols B {#b_get b#}) = join_sols (solutions_of base) B"
  by (induction base) (simp_all add: solutions_of_def join_sols_def join_one_comm [of _ "b_get _"])

lemma multi_bind_rows:
  assumes laws: "stream_law its" "terms_law tms" "join_law lib sem" and order: "bindOrder \<in> {Depth_first, Breadth_first}"
    and base: "\<And>b. b \<in> set (je_bindings e) \<Longrightarrow> bindable n tms lib sem query (map je_operation es) b"
      "\<And>b e'. b \<in> set (je_bindings e) \<Longrightarrow> e' \<in> set es \<Longrightarrow> binds_well tms lib sem b (je_operation e')"
  obtains rows where "multi_bind_stream its u truthy n tms lib bindOrder query (e # es) = Inr rows"
    "solutions_of rows = join_sols (solutions_of (je_bindings e)) (join_all (map (\<lambda>e'. eval sem (je_operation e')) es))"
proof -
  let ?B = "join_all (map (eval sem) (map je_operation es))"
  have "\<exists>ops'. bound_operations n tms lib b (map je_operation es) = Inr ops' \<and>
      join_sols (eval sem (joined_operation lib ops')) {#b_get b#} = join_sols ?B {#b_get b#}"
    if b: "b \<in> set (je_bindings e)" for b
  proof -
    from base(1) [OF b] have row: "ground_row (entries b)" "binding_law sem (entries b)" by (simp_all add: bindable_def)
    obtain ops' where ops': "bound_operations n tms lib b (map je_operation es) = Inr ops'"
      "list_all2 (keeps_solutions sem (entries b)) (map je_operation es) ops'"
      by (rule bound_operations_keep [OF laws(2,3) row]) (use base(2) [OF b] in auto)
    with keeps_join(1) [OF ops'(2)] show ?thesis by (simp add: eval_joined_operation [OF laws(3)] b_get_entries)
  qed
  note R = this
  obtain depth breadth where
    "createBindStream its u truthy n tms lib Depth_first (je_bindings e) (map je_operation es)
       (\<lambda>ops b. query (joined_operation lib ops) b) False = Inr depth"
    "solutions_of depth = (\<Sum>b \<in># mset (je_bindings e). if False \<and> join_sols ?B {#b_get b#} = {#} then {#b_get b#}
       else join_sols ?B {#b_get b#})"
    "createBindStream its u truthy n tms lib Breadth_first (je_bindings e) (map je_operation es)
       (\<lambda>ops b. query (joined_operation lib ops) b) False = Inr breadth"
    "solutions_of breadth = (\<Sum>b \<in># mset (je_bindings e). join_sols ?B {#b_get b#})"
    by (rule bind_stream_rows [OF laws(1) base(1) R]) blast
  then have "multi_bind_stream its u truthy n tms lib Depth_first query (e # es) = Inr depth"
    "solutions_of depth = join_sols (solutions_of (je_bindings e)) ?B"
    "multi_bind_stream its u truthy n tms lib Breadth_first query (e # es) = Inr breadth"
    "solutions_of breadth = join_sols (solutions_of (je_bindings e)) ?B"
    by (simp_all add: multi_bind_stream_def sum_join_single)
  with order that show thesis by (auto simp: comp_def)
qed

section \<open>The optional bind join\<close>

text \<open>The operation of the right entry: that of the left join, filtered with its condition.\<close>

definition right_operation :: "'x operation \<Rightarrow> 'x expr option \<Rightarrow> 'x operation" where
  "right_operation q c = (case c of None \<Rightarrow> q | Some e \<Rightarrow> Op_filter q e)"

definition condition_holds :: "'x semantics \<Rightarrow> 'x expr option \<Rightarrow> (string \<rightharpoonup> rdf_term) \<Rightarrow> bool" where
  "condition_holds sem c f = (case c of None \<Rightarrow> True | Some e \<Rightarrow> sem_holds sem e f)"

definition condition_ok :: "terms_lib \<Rightarrow> 'x algebra_lib \<Rightarrow> 'x semantics \<Rightarrow> (rdf_term, 'v) bindings \<Rightarrow> 'x expr option \<Rightarrow> bool" where
  "condition_ok tms lib sem b c =
     (case c of None \<Rightarrow> True | Some e \<Rightarrow> is_operator e \<and> expression_law tms lib sem (entries b) e)"

lemma condition_bound:
  assumes laws: "terms_law tms" "join_law lib sem" "ground_row (entries b)" "binding_law sem (entries b)"
    and ok: "binds_well tms lib sem b q" "condition_ok tms lib sem b c"
  obtains q' where "bound_operations n tms lib b [right_operation q c] = Inr [q']"
    "join_sols (eval sem q') {#b_get b#} = filter_mset (condition_holds sem c) (join_sols (eval sem q) {#b_get b#})"
proof -
  let ?opts = "\<lparr>strictTargetVariables = False, bindFilter = True, originalBindings = entries b\<rparr>"
  have opts: "bindFilter ?opts" "originalBindings ?opts = entries b" "\<not> strictTargetVariables ?opts" by simp_all
  note q = ok(1) [unfolded binds_well_def]
  have "\<exists>q'. materializeOperation n tms lib ?opts (entries b) (right_operation q c) = Inr q' \<and>
      join_sols (eval sem q') {#b_get b#} = filter_mset (condition_holds sem c) (join_sols (eval sem q) {#b_get b#})"
  proof (cases c)
    case None
    have "filter_mset (condition_holds sem c) X = X" for X by (simp add: None condition_holds_def filter_mset_every)
    with materialize_keeps [OF laws opts q, of n] None show ?thesis
      by (auto simp: right_operation_def keeps_solutions_def b_get_entries)
  next
    case (Some e)
    with ok(2) have e: "is_operator e" "expression_law tms lib sem (entries b) e" by (simp_all add: condition_ok_def)
    obtain q' where "materializeOperation n tms lib ?opts (entries b) (Op_filter q e) = Inr q'"
      "join_sols (eval sem q') {#js_get (entries b)#} = filter_mset (sem_holds sem e) (join_sols (eval sem q) {#js_get (entries b)#})"
      by (rule materialize_condition [OF laws opts e q])
    then show ?thesis by (auto simp: Some right_operation_def condition_holds_def [abs_def] b_get_entries)
  qed
  with that show thesis by (auto simp: bound_operations_def res_simps)
qed

lemma left_join_one_single:
  "left_join_one P B f = (if filter_mset P (join_sols B {#f#}) = {#} then {#f#} else filter_mset P (join_sols B {#f#}))"
proof -
  have "(\<Sum>g \<in># B. join_one f g) = join_sols B {#f#}" by (simp add: join_sols_def join_one_comm [of f])
  then show ?thesis by (simp only: left_join_one_def Let_def)
qed

lemma optional_stream:
  "createBindStream its u truthy n tms lib bindOrder base [q] (\<lambda>ops b. query (ops ! 0) b) optional =
     createBindStream its u truthy n tms lib bindOrder base [q] (\<lambda>ops b. query (joined_operation lib ops) b) optional"
proof -
  have "bind_row its u truthy n tms lib [q] (\<lambda>ops b. query (ops ! 0) b) b =
      bind_row its u truthy n tms lib [q] (\<lambda>ops b. query (joined_operation lib ops) b) b" for b
    by (cases "materializeOperation n tms lib \<lparr>strictTargetVariables = False, bindFilter = True, originalBindings = entries b\<rparr> (entries b) q")
      (simp_all add: bind_row_def bound_operations_def joined_operation_def res_simps)
  then have "bind_row its u truthy n tms lib [q] (\<lambda>ops b. query (ops ! 0) b) =
      bind_row its u truthy n tms lib [q] (\<lambda>ops b. query (joined_operation lib ops) b)" by (rule ext)
  then show ?thesis by (simp only: createBindStream_def)
qed

lemma optional_bind_rows:
  assumes laws: "stream_law its" "terms_law tms" "join_law lib sem" and right: "je_operation r = right_operation q c"
    and base: "\<And>b. b \<in> set (je_bindings l) \<Longrightarrow> bindable n tms lib sem query [je_operation r] b"
      "\<And>b. b \<in> set (je_bindings l) \<Longrightarrow> binds_well tms lib sem b q \<and> condition_ok tms lib sem b c"
  obtains depth breadth where
    "optional_bind_stream its u truthy n tms lib Depth_first query [l, r] = Inr depth"
    "solutions_of depth = (\<Sum>f \<in># solutions_of (je_bindings l). left_join_one (condition_holds sem c) (eval sem q) f)"
    "optional_bind_stream its u truthy n tms lib Breadth_first query [l, r] = Inr breadth"
    "solutions_of breadth = (\<Sum>f \<in># solutions_of (je_bindings l). filter_mset (condition_holds sem c) (join_sols (eval sem q) {#f#}))"
proof -
  let ?R = "\<lambda>b. filter_mset (condition_holds sem c) (join_sols (eval sem q) {#b_get b#})"
  have R: "\<exists>ops'. bound_operations n tms lib b [je_operation r] = Inr ops' \<and>
      join_sols (eval sem (joined_operation lib ops')) {#b_get b#} = ?R b" if b: "b \<in> set (je_bindings l)" for b
  proof -
    from base(1) [OF b] have row: "ground_row (entries b)" "binding_law sem (entries b)" by (simp_all add: bindable_def)
    from base(2) [OF b] obtain q' where "bound_operations n tms lib b [right_operation q c] = Inr [q']"
      "join_sols (eval sem q') {#b_get b#} = ?R b" using condition_bound [OF laws(2,3) row, of q c n] by blast
    then show ?thesis unfolding right by (intro exI [of _ "[q']"]) (simp add: joined_operation_def)
  qed
  obtain depth breadth where rows:
    "createBindStream its u truthy n tms lib Depth_first (je_bindings l) [je_operation r]
       (\<lambda>ops b. query (joined_operation lib ops) b) True = Inr depth"
    "solutions_of depth = (\<Sum>b \<in># mset (je_bindings l). if True \<and> ?R b = {#} then {#b_get b#} else ?R b)"
    "createBindStream its u truthy n tms lib Breadth_first (je_bindings l) [je_operation r]
       (\<lambda>ops b. query (joined_operation lib ops) b) True = Inr breadth"
    "solutions_of breadth = (\<Sum>b \<in># mset (je_bindings l). ?R b)"
    by (rule bind_stream_rows [OF laws(1) base(1) R]) blast
  then show thesis
    by (intro that [of depth breadth])
      (simp_all add: optional_bind_stream_def optional_stream left_join_one_single solutions_of_def multiset.map_comp comp_def)
qed

lemma filter_join_sum: "(\<Sum>f \<in># A. filter_mset P (join_sols B {#f#})) = filter_mset P (join_sols A B)"
proof (induction A)
  case (add f A)
  have "join_sols (add_mset f A) B = join_sols {#f#} B + join_sols A B" by (simp add: join_sols_def)
  with add show ?case by (simp add: join_sols_comm [of B])
qed (simp add: join_sols_def)

section \<open>Example streams\<close>

definition plain_streams :: "'b stream_lib" where
  "plain_streams =
     \<lparr>multi_stream = (\<lambda>optional ps. concat (map (\<lambda>(b, rows). if optional \<and> rows = [] then [b] else rows) ps)),
      streams_of = (\<lambda>optional ps. map snd ps), union_stream = concat, transform_map = List.map_filter\<rparr>"

lemma plain_stream_law: "stream_law plain_streams"
proof -
  have "mset (concat (map (\<lambda>(b, rows). if optional \<and> rows = [] then [b] else rows) ps)) =
      (\<Sum>p \<in># mset ps. if optional \<and> snd p = [] then {#fst p#} else mset (snd p))" for optional and ps :: "('a \<times> 'a list) list"
    by (induction ps) auto
  then show ?thesis by (simp add: stream_law_def plain_streams_def mset_concat)
qed

definition row_of :: "(string \<times> rdf_term) list \<Rightarrow> (rdf_term, bool) bindings" where
  "row_of es = \<lparr>entries = es, contextHolder = None\<rparr>"

lemma b_get_row [simp]: "b_get (row_of es) = map_of es"
  by (simp add: row_of_def b_get_def [abs_def])

lemma name_order:
  "f(''y'' \<mapsto> s, ''x'' \<mapsto> t) = f(''x'' \<mapsto> t, ''y'' \<mapsto> s)"
  "f(''z'' \<mapsto> s, ''x'' \<mapsto> t) = f(''x'' \<mapsto> t, ''z'' \<mapsto> s)"
  "f(''z'' \<mapsto> s, ''y'' \<mapsto> t) = f(''y'' \<mapsto> t, ''z'' \<mapsto> s)"
  by (simp_all add: fun_upd_twist)

definition entry_of :: "(rdf_term, bool) bindings list \<Rightarrow> 'o \<Rightarrow> (rdf_term, bool, 'o) join_entry" where
  "entry_of rows q = \<lparr>je_type = [], je_bindings = rows, je_metadata = sample_metadata,
     je_operation = q, je_operationModified = False, je_operationRequired = False\<rparr>"

definition sample_rows :: "(rdf_term, bool) bindings list" where
  "sample_rows = [row_of [(''x'', iri ''a''), (''y'', iri ''b'')], row_of [(''x'', iri ''b''), (''y'', iri ''c'')]]"

definition sample_right :: "unit operation" where
  "sample_right = pat (Variable ''y'') ''knows'' (Variable ''z'')"

definition sample_condition :: "unit expr" where
  "sample_condition = equal_terms (Variable ''x'') (iri ''a'')"

definition sample_query ::
  "(string \<times> rdf_term) list \<Rightarrow> unit operation \<Rightarrow> (rdf_term, bool) bindings \<Rightarrow> string + (rdf_term, bool) bindings list" where
  "sample_query row q b = Inr (if b_get b ''x'' = Some (iri ''a'') then [row_of row] else [])"

lemmas sample_bind_defs = sample_rows_def sample_right_def sample_condition_def sample_query_def row_of_def entry_of_def sample_defs

lemma sample_ground: "b \<in> set sample_rows \<Longrightarrow> ground_row (entries b) \<and> binding_law sample_sem (entries b)"
  using graph_binding_law [of "entries b" sample_graph]
  by (auto simp: sample_rows_def row_of_def ground_row_def wf_map_def iri_def sample_sem_def)

definition bound_right :: "string \<Rightarrow> unit operation" where
  "bound_right y = pat (iri y) ''knows'' (Variable ''z'')"

definition bound_filter :: "string \<Rightarrow> string \<Rightarrow> unit operation" where
  "bound_filter x y = Op_filter (Op_join [Op_values [''x''] [[(''x'', iri x)]], Op_values [''y''] [[(''y'', iri y)]], bound_right y])
     (equal_terms (iri x) (iri ''a''))"

lemma sample_operations:
  "bound_operations 0 plain_terms_lib plain_lib (row_of [(''x'', iri x), (''y'', iri y)]) [sample_right] = Inr [bound_right y]"
  "bound_operations 0 plain_terms_lib plain_lib (row_of [(''x'', iri x), (''y'', iri y)]) [Op_filter sample_right sample_condition] =
     Inr [bound_filter x y]"
  by (simp_all add: bound_operations_def row_of_def sample_right_def sample_condition_def pat_def iri_def equal_terms_def
      materializeOperation.simps materializeExpression.simps materializeTerm_def materialize_leaf_def res_simps
      bound_right_def bound_filter_def is_existence_def is_operator_def bound_call_def createValuesFromBindings_def plain_lib_def)

lemma sample_solutions:
  "eval sample_sem (bound_right ''b'') = {#[''z'' \<mapsto> iri ''c'']#}" "eval sample_sem (bound_right ''c'') = {#}"
  by (simp_all add: bound_right_def pat_def iri_def sample_sem_def sample_graph_def quad_of_def graph_semantics_def
      graph_base_def List.map_filter_def)

lemma sample_filtered:
  "eval sample_sem (bound_filter ''a'' ''b'') = {#[''x'' \<mapsto> iri ''a'', ''y'' \<mapsto> iri ''b'', ''z'' \<mapsto> iri ''c'']#}"
  "eval sample_sem (bound_filter ''b'' ''c'') = {#}"
proof -
  have [simp]: "sem_holds sample_sem (equal_terms (iri v) (iri ''a'')) f \<longleftrightarrow> v = ''a''" for v f
    by (simp add: sample_sem_def graph_semantics_def equal_terms_def term_in_def iri_def)
  have "compatible [''y'' \<mapsto> iri ''b''] [''z'' \<mapsto> iri ''c'']"
    "compatible [''x'' \<mapsto> iri ''a''] ([''y'' \<mapsto> iri ''b''] ++ [''z'' \<mapsto> iri ''c''])" "compatible f Map.empty" for f :: "string \<rightharpoonup> rdf_term"
    by (simp_all add: compatible_def)
  then show "eval sample_sem (bound_filter ''a'' ''b'') = {#[''x'' \<mapsto> iri ''a'', ''y'' \<mapsto> iri ''b'', ''z'' \<mapsto> iri ''c'']#}"
    by (simp add: bound_filter_def sample_solutions join_all_Cons join_sols_def join_one_def map_add_def fun_eq_iff)
  show "eval sample_sem (bound_filter ''b'' ''c'') = {#}" by (simp add: bound_filter_def)
qed

lemma sample_row:
  assumes "b \<in> set sample_rows"
  obtains x y where "b = row_of [(''x'', iri x), (''y'', iri y)]" "(x, y) = (''a'', ''b'') \<or> (x, y) = (''b'', ''c'')"
  using assms by (auto simp: sample_rows_def)

lemma sample_bindable:
  assumes "b \<in> set sample_rows"
  shows "bindable 0 plain_terms_lib plain_lib sample_sem (sample_query [(''z'', iri ''c'')]) [sample_right] b"
    and "bindable 0 plain_terms_lib plain_lib sample_sem (sample_query [(''x'', iri ''a''), (''y'', iri ''b''), (''z'', iri ''c'')])
      [Op_filter sample_right sample_condition] b"
proof -
  obtain x y where b: "b = row_of [(''x'', iri x), (''y'', iri y)]" and xy: "(x, y) = (''a'', ''b'') \<or> (x, y) = (''b'', ''c'')"
    using sample_row [OF assms] by metis
  have query: "sample_query row q b = Inr (if x = ''a'' then [row_of row] else [])" for row q
    by (simp add: sample_query_def b row_of_def b_get_def iri_def)
  have rows: "wf_bindings (row_of row) \<longleftrightarrow> distinct (map fst row)" "solutions_of [row_of row] = {#map_of row#}" for row
    by (simp_all add: wf_bindings_def wf_map_def solutions_of_def) (simp add: row_of_def)
  show "bindable 0 plain_terms_lib plain_lib sample_sem (sample_query [(''z'', iri ''c'')]) [sample_right] b"
    using xy sample_ground [OF assms] rows sample_solutions
    by (auto simp: bindable_def answers_def query) (auto simp: b sample_operations joined_operation_def solutions_of_def)
  show "bindable 0 plain_terms_lib plain_lib sample_sem (sample_query [(''x'', iri ''a''), (''y'', iri ''b''), (''z'', iri ''c'')])
      [Op_filter sample_right sample_condition] b"
    using xy sample_ground [OF assms] rows sample_filtered
    by (auto simp: bindable_def answers_def query) (auto simp: b sample_operations joined_operation_def solutions_of_def name_order)
qed

lemma sample_binds_well:
  assumes "b \<in> set sample_rows"
  shows "binds_well plain_terms_lib plain_lib sample_sem b sample_right"
    and "condition_ok plain_terms_lib plain_lib sample_sem b (Some sample_condition)"
proof -
  show "binds_well plain_terms_lib plain_lib sample_sem b sample_right" by (simp add: binds_well_def sample_right_def pat_def)
  have "plain_expression sample_condition" by (simp add: sample_condition_def equal_terms_def iri_def)
  then show "condition_ok plain_terms_lib plain_lib sample_sem b (Some sample_condition)"
    using sample_ground [OF assms] unfolding condition_ok_def sample_sem_def option.case
    by (intro conjI graph_expression_law [OF plain_terms_law])
      (simp_all add: sample_condition_def equal_terms_def is_operator_def)
qed

section \<open>Properties\<close>

text \<open>
  C3. The inner bind join is the join, on the operations that \<open>bind_ok\<close> admits: the rows that \<open>createBindStream\<close>
  produces by materializing the operations of the other entries with each solution of the first, in either order,
  are the solutions of the first entry joined with those of all the operations.  \<open>bind_ok\<close> admits patterns, paths,
  VALUES, and the joins, unions, basic graph patterns, filters and projections of admitted operations, when the
  variables of the solution that a filter by an operator depends on are bound by its input, and a projection
  projects the variables of the solution that its input has; a filter by anything but an operator or EXISTS is
  admitted and not materialized.  It does not admit EXTEND, OPTIONAL, filters by EXISTS and the other operations;
  \<open>local_variable_bound\<close> shows a projection without the condition for which the join is not computed.
\<close>

theorem bind_join_is_join:
  assumes "stream_law its" "terms_law tms" "join_law lib sem" "bindOrder \<in> {Depth_first, Breadth_first}"
    and "\<forall>b \<in> set (je_bindings e). bindable n tms lib sem query (map je_operation es) b \<and>
      (\<forall>e' \<in> set es. binds_well tms lib sem b (je_operation e'))"
  shows "\<exists>rows. multi_bind_stream its u truthy n tms lib bindOrder query (e # es) = Inr rows \<and>
    solutions_of rows = join_sols (solutions_of (je_bindings e)) (join_all (map (\<lambda>e'. eval sem (je_operation e')) es))"
  by (rule multi_bind_rows [OF assms(1-4), of e n query es]) (use assms(5) in blast)+

theorem bind_join_is_join_witness:
  "\<exists>rows. multi_bind_stream plain_streams False id 0 plain_terms_lib plain_lib Depth_first
      (sample_query [(''z'', iri ''c'')]) [entry_of sample_rows Op_nop, entry_of [] sample_right] = Inr rows \<and>
    solutions_of rows = join_sols (solutions_of sample_rows) (join_all [eval sample_sem sample_right])"
  using bind_join_is_join [OF plain_stream_law plain_terms_law plain_join_law, where bindOrder = Depth_first and
      e = "entry_of sample_rows Op_nop" and es = "[entry_of [] sample_right]" and sem = sample_sem and n = 0 and
      query = "sample_query [(''z'', iri ''c'')]" and u = False and truthy = id] sample_bindable(1) sample_binds_well(1)
  by (simp add: entry_of_def)

text \<open>
  C4. The optional bind join in depth-first order is the left join of the algebra, when there is no condition or it
  is an operator expression, and the right operation is one that \<open>bind_ok\<close> admits, as for the inner bind join: the
  solutions of the left operation, each with those of the right operation for which the condition holds, or alone.
  The left join attaches its condition to the right operation as a filter; with a condition that is a variable the
  result is not the left join (\<open>variable_condition_lost\<close>), and neither is it in breadth-first order.
\<close>

theorem optional_bind_is_left_join:
  assumes "stream_law its" "terms_law tms" "join_law lib sem"
    and "solutions_of (je_bindings l) = eval sem p" "je_operation r = right_operation q c"
    and "\<forall>b \<in> set (je_bindings l). bindable n tms lib sem query [je_operation r] b \<and>
      binds_well tms lib sem b q \<and> condition_ok tms lib sem b c"
  shows "\<exists>rows. optional_bind_stream its u truthy n tms lib Depth_first query [l, r] = Inr rows \<and>
    solutions_of rows = eval sem (Op_leftjoin p q c)"
  by (rule optional_bind_rows [OF assms(1-3,5), of l n query])
    (use assms(4,6) in \<open>auto simp: condition_holds_def [abs_def]\<close>)

theorem optional_bind_is_left_join_witness:
  "\<exists>rows. optional_bind_stream plain_streams False id 0 plain_terms_lib plain_lib Depth_first
      (sample_query [(''x'', iri ''a''), (''y'', iri ''b''), (''z'', iri ''c'')])
      [entry_of sample_rows Op_nop, entry_of [] (Op_filter sample_right sample_condition)] = Inr rows \<and>
    solutions_of rows = eval sample_sem (Op_leftjoin (pat (Variable ''x'') ''knows'' (Variable ''y'')) sample_right (Some sample_condition))"
proof (rule optional_bind_is_left_join [OF plain_stream_law plain_terms_law plain_join_law])
  show "solutions_of (je_bindings (entry_of sample_rows Op_nop)) = eval sample_sem (pat (Variable ''x'') ''knows'' (Variable ''y''))"
    by (simp add: solutions_of_def entry_of_def sample_rows_def pat_def iri_def sample_sem_def sample_graph_def
        quad_of_def graph_semantics_def graph_base_def List.map_filter_def name_order)
qed (use sample_bindable(2) sample_binds_well in \<open>auto simp: entry_of_def right_operation_def\<close>)

text \<open>
  In breadth-first order the optional bind join is not a left join but an inner join: the option
  \<open>optional\<close> of the mapping concerns the streams, and every element has one, so that a solution without a match
  is lost.
\<close>

theorem breadth_first_optional_is_inner:
  assumes "stream_law its" "terms_law tms" "join_law lib sem" "je_operation r = right_operation q c"
    and "\<forall>b \<in> set (je_bindings l). bindable n tms lib sem query [je_operation r] b \<and>
      binds_well tms lib sem b q \<and> condition_ok tms lib sem b c"
  shows "\<exists>rows. optional_bind_stream its u truthy n tms lib Breadth_first query [l, r] = Inr rows \<and>
    solutions_of rows = filter_mset (condition_holds sem c) (join_sols (solutions_of (je_bindings l)) (eval sem q))"
  by (rule optional_bind_rows [OF assms(1-4), of l n query]) (use assms(5) in \<open>auto simp: filter_join_sum\<close>)

theorem breadth_first_optional_is_inner_witness:
  "(\<exists>rows. optional_bind_stream plain_streams False id 0 plain_terms_lib plain_lib Breadth_first
      (sample_query [(''x'', iri ''a''), (''y'', iri ''b''), (''z'', iri ''c'')])
      [entry_of sample_rows Op_nop, entry_of [] (Op_filter sample_right sample_condition)] = Inr rows \<and>
    solutions_of rows = filter_mset (condition_holds sample_sem (Some sample_condition))
      (join_sols (solutions_of sample_rows) (eval sample_sem sample_right))) \<and> length sample_rows = 2"
proof (rule conjI)
  have "je_bindings (entry_of sample_rows Op_nop) = sample_rows" by (simp add: entry_of_def)
  then show "\<exists>rows. optional_bind_stream plain_streams False id 0 plain_terms_lib plain_lib Breadth_first
      (sample_query [(''x'', iri ''a''), (''y'', iri ''b''), (''z'', iri ''c'')])
      [entry_of sample_rows Op_nop, entry_of [] (Op_filter sample_right sample_condition)] = Inr rows \<and>
    solutions_of rows = filter_mset (condition_holds sample_sem (Some sample_condition))
      (join_sols (solutions_of sample_rows) (eval sample_sem sample_right))"
    using breadth_first_optional_is_inner [OF plain_stream_law plain_terms_law plain_join_law,
        of "entry_of [] (Op_filter sample_right sample_condition)" sample_right "Some sample_condition"
        "entry_of sample_rows Op_nop" 0 sample_sem "sample_query [(''x'', iri ''a''), (''y'', iri ''b''), (''z'', iri ''c'')]" False id]
      sample_bindable(2) sample_binds_well by (simp add: entry_of_def right_operation_def)
qed (simp add: sample_rows_def)

text \<open>A condition that is a variable is not materialized: on a right operation that does not bind it, it fails, and the
  match is lost.\<close>

definition variable_condition :: "unit operation" where
  "variable_condition = Op_filter (Op_values [''y''] [[(''y'', iri ''b'')]]) (E_term (Variable ''x''))"

theorem variable_condition_lost:
  "(\<forall>b. answers (\<lambda>q b. Inr []) sample_sem variable_condition b) \<and>
   optional_bind_stream plain_streams False id 0 plain_terms_lib plain_lib Depth_first (\<lambda>q b. Inr [])
     [entry_of [row_of [(''x'', true_term)]] Op_nop, entry_of [] variable_condition] = Inr [row_of [(''x'', true_term)]] \<and>
   eval sample_sem (Op_leftjoin (Op_values [''x''] [[(''x'', true_term)]]) (Op_values [''y''] [[(''y'', iri ''b'')]])
     (Some (E_term (Variable ''x'')))) = {#[''x'' \<mapsto> true_term, ''y'' \<mapsto> iri ''b'']#}"
proof (intro conjI allI)
  show "answers (\<lambda>q b. Inr []) sample_sem variable_condition b" for b :: "(rdf_term, 'v) bindings"
    by (simp add: answers_def solutions_of_def variable_condition_def sample_sem_def graph_semantics_def term_in_def)
  show "optional_bind_stream plain_streams False id 0 plain_terms_lib plain_lib Depth_first (\<lambda>q b. Inr [])
     [entry_of [row_of [(''x'', true_term)]] Op_nop, entry_of [] variable_condition] = Inr [row_of [(''x'', true_term)]]"
    by (simp add: optional_bind_stream_def createBindStream_def bind_row_def bound_operations_def res_simps entry_of_def
        variable_condition_def materializeOperation.simps row_of_def is_existence_def is_operator_def plain_streams_def
        List.map_filter_def)
  have "compatible [''x'' \<mapsto> true_term] [''y'' \<mapsto> iri ''b'']" by (simp add: compatible_def)
  moreover have "[''x'' \<mapsto> true_term] ++ [''y'' \<mapsto> iri ''b''] = [''x'' \<mapsto> true_term, ''y'' \<mapsto> iri ''b'']" by simp
  ultimately show "eval sample_sem (Op_leftjoin (Op_values [''x''] [[(''x'', true_term)]]) (Op_values [''y''] [[(''y'', iri ''b'')]])
     (Some (E_term (Variable ''x'')))) = {#[''x'' \<mapsto> true_term, ''y'' \<mapsto> iri ''b'']#}"
    by (simp add: left_join_one_def Let_def join_one_def sample_sem_def graph_semantics_def term_in_def del: map_add_upd)
qed

text \<open>A variable that a subquery does not project is another variable than one of the same name outside, but it is replaced
  as well: solutions that agree are lost.\<close>

definition local_variable :: "unit operation" where
  "local_variable = Op_project (pat (Variable ''y'') ''knows'' (Variable ''x'')) [''y'']"

theorem local_variable_bound:
  "bound_operations 0 plain_terms_lib plain_lib (row_of [(''x'', iri ''b'')]) [local_variable] =
     Inr [Op_project (pat (Variable ''y'') ''knows'' (iri ''b'')) [''y'']] \<and>
   eval sample_sem (Op_project (pat (Variable ''y'') ''knows'' (iri ''b'')) [''y'']) = {#[''y'' \<mapsto> iri ''a'']#} \<and>
   eval sample_sem local_variable = {#[''y'' \<mapsto> iri ''a''], [''y'' \<mapsto> iri ''b'']#}"
proof (intro conjI)
  show "bound_operations 0 plain_terms_lib plain_lib (row_of [(''x'', iri ''b'')]) [local_variable] =
     Inr [Op_project (pat (Variable ''y'') ''knows'' (iri ''b'')) [''y'']]"
    by (simp add: bound_operations_def local_variable_def row_of_def pat_def iri_def materializeOperation.simps
        materializeTerm_def materialize_leaf_def res_simps createValuesFromBindings_def Let_def)
qed (simp_all add: local_variable_def pat_def iri_def sample_sem_def sample_graph_def quad_of_def graph_semantics_def
    graph_base_def List.map_filter_def restrict_map_insert)

end
