(* ===== verification/Spec2Isabelle.thy ===== *)
theory Spec2Isabelle
  imports Order_By Date_Elapsed Date_Text Mediator_Kinds Join_Selectivity Pushdown_Run Group_State Join_Connected
    Overload_Search Path_Semantics Bind_Join
begin

text \<open>
  \<^bold>\<open>Comunica: a verification development.\<close>

  Comunica is a query engine for linked data: a bus for each task, actors that are subscribed to it, and a
  mediator that chooses among the actors that can handle an action.  A query is a tree of operations of the
  SPARQL algebra; each operation is an action on the bus of query operations, whose actor evaluates its inputs
  through the mediator and gives a stream of bindings with metadata.  The development follows the paths of the
  program on which the result of a query depends: the core, solution mappings and their indexes, joins and
  their order, rewrites of the algebra, grouping, ordering, property paths, single operations, and the evaluator of expressions.

  \<^bold>\<open>Conventions.\<close>  Definitions have the names of the source.  A class is a record, an enumeration or union a
  datatype; a thrown error or a rejected promise is the left side of a sum or \<open>None\<close>, \<open>undefined\<close> is
  \<open>None\<close>; a JavaScript map is the list of its entries in iteration order (\<open>Prelude\<close>); a loop is a recursive
  function that is total, with a measure where the recursion is not structural.  An array or object that the code
  shares by reference lives in a store (\<open>Metadata\<close>, \<open>Join_Hash\<close>, \<open>Bindings_Index\<close>).  Numbers are exact:
  \<open>JS_Number\<close> has the infinities and \<open>NaN\<close>, the dates have integers and rationals.  A stream is the list of
  what it produces, except where the order of events matters; there a method runs up to its next \<open>await\<close> as
  one event of a step function and the theorems are about every order of events (\<open>Group_State\<close>, \<open>Path_Iterator\<close>,
  \<open>Path_Pairs\<close>, \<open>Order_By\<close>), and so are the orders in which promises settle (\<open>Mediator_Kinds\<close>).  Code of
  other packages is an argument with its documented laws as hypotheses, instantiated by concrete functions in the
  witnesses.

  \<^bold>\<open>Theories.\<close>
  \<^item> \<open>Prelude\<close>, \<open>JS_Number\<close>, \<open>RDF_Terms\<close>: JavaScript maps, errors and numbers, and RDF terms.
  \<^item> \<open>Action_Context\<close>, \<open>Bus\<close>, \<open>Indexed_Bus\<close>, \<open>Mediators\<close>, \<open>Mediator_Kinds\<close>: \<open>packages/core/lib\<close> and the
    mediator packages.  Reordering for dependencies gives a topological order or throws exactly on a cycle; the
    indexed bus files its actors as an abstract log of subscriptions says; a mediator gives a reply of an actor that
    accepts the action (locale \<open>mediator_law\<close>, interpreted on the mediators), the best one for its kind.
  \<^item> \<open>Bindings\<close>, \<open>Bindings_Index\<close>: \<open>utils-bindings-factory\<close> and \<open>utils-bindings-index\<close>.  Merging is the
    union of compatible solutions; both indexes find exactly the compatible entries (locale \<open>bindings_lookup\<close>).
  \<^item> \<open>Metadata\<close>: \<open>utils-metadata\<close> and the accumulation actors.  Metadata that is cached
    while its state is valid is kept and is cleared with its state, for every order of invalidations; metadata that
    is stale when its promise resolves stays cached.
  \<^item> \<open>Rdf_Join\<close>, \<open>Join_Costs\<close>, \<open>Join_Hash\<close>, \<open>Join_Order\<close>, \<open>Join_Selectivity\<close>: the join actors, their cost
    estimates and their order.  The hash joins compute the join and, under the conditions on undefined values
    that their theorems state, the left join and MINUS of SPARQL (locale \<open>bucket_lookup\<close>), joining the smallest pair first is the join, the mediator takes an actor of least cost.
  \<^item> \<open>Algebra\<close>, \<open>Graph_Semantics\<close>, \<open>Filter_Pushdown\<close>, \<open>Pushdown_Run\<close>, \<open>Join_Connected\<close>, \<open>Shapes\<close>: rewrites of
    the algebra against its semantics, and what sources accept.  A pushed filter keeps the solutions, with the
    conditions on the algebra that this takes, and so does the actor when each filter that it attempts to push in
    its run meets them; the clusters are the connected components of a join and keep it.
  \<^item> \<open>Aggregators\<close>, \<open>Group_State\<close>: GROUP BY with concurrent tasks.  In every order of events, each group has the
    aggregate of exactly its solutions, and every run can be completed.
  \<^item> \<open>Order_By\<close>, \<open>Distinct_Rows\<close>: ORDER BY by iterated binary insertion, DISTINCT and REDUCED.
  \<^item> \<open>Path_Iterator\<close>, \<open>Path_Pairs\<close>, \<open>Path_Eval\<close>, \<open>Path_Semantics\<close>: property paths.  The concurrent searches
    give the terms that are reachable, each once, with bounded work (locales \<open>frontier_search\<close> and
    \<open>visit_search\<close>), all of them unless the iterator closes while an answer is awaited; the actors together give
    the set of the solutions of a path between two ends that are not the same variable.
  \<^item> \<open>Type_Handling\<close>, \<open>Overload_Tree\<close>, \<open>Overload_Search\<close>: types of literals and the choice of an overload, which
    is the most specific one where the accepting types have implementations, with and without the cache.
  \<^item> \<open>Date_Arith\<close>, \<open>Date_Add\<close>, \<open>Date_Elapsed\<close>, \<open>Number_Text\<close>, \<open>Date_Text\<close>: dates and durations of the
    evaluator.  Adding a duration is the algorithm of XML Schema exactly when the new month has the day of the
    date; instants do not depend on a clock that reads the local time back; texts are read back as they were
    written, within the digits and without the exponents that the theorems name.
  \<^item> \<open>Term_Values\<close>, \<open>Expression_Eval\<close>: the typed terms of the evaluator, its expressions and the functions whose
    arguments are expressions.  A term converts back to the RDF term that it was made from, but for datatypes
    below \<open>xsd:boolean\<close> and texts with \<open>Infinity\<close>; the connectives and \<open>IN\<close> are the three-valued logic of SPARQL.
  \<^item> \<open>Query_Operations\<close>: FILTER, EXTEND, PROJECT, SLICE, VALUES, UNION, ASK and the left join.  The solutions of
    a plan are as the metadata of its result says, except those for which an EXTEND has an error; a filter by a conjunction is two filters.
  \<^item> \<open>Materialize\<close>, \<open>Bind_Join\<close>: the replacement of variables by the terms of a solution, and the joins that
    evaluate an operation with each solution bound into it.  Materializing returns and keeps the solutions that
    agree; the inner bind join is the join and the depth-first optional one the left join of the algebra, for the
    operations and conditions that \<open>bind_ok\<close> and \<open>condition_ok\<close> admit.
  \<^bold>\<open>Bounds and fuel.\<close>  The discovery of super types (\<open>Type_Handling\<close>) calls a user function in a loop that may not
  end: it has fuel, and its results do not depend on the fuel once there is one.  The loop of the filter pushdown is
  bounded by its option for the number of iterations, as in the code.  \<open>star_fuel\<close> of the paths is the number of
  edges and nodes, which \<open>path_iterator_bounded_work\<close> shows to be enough.  The join of the smallest entries first has fuel, and
  \<open>smallest_join_is_join\<close> shows that more of it than entries is enough.  Materializing an operation has
  fuel for the EXTENDs that it drops, and \<open>materialize_returns\<close> shows that as much as there are EXTENDs is enough.  All other recursions are total.

  \<^bold>\<open>Findings.\<close>  Theorems that show a behaviour which the code does not mean to have are stated as such, mostly by
  evaluating the model at a concrete input.  The properties state the conditions that exclude these behaviours and
  name the theorems that show them.

  \<^bold>\<open>Not modelled.\<close>  Rounding of numbers to 53 bits, the negative zero and the order of keys that look like integers; keys
  that \<open>Object.prototype\<close> has, except in the tables of variables (\<open>Rdf_Join\<close>, \<open>Join_Connected\<close>,
  \<open>Query_Operations\<close>, \<open>Materialize\<close>); the texts of error messages except where they are compared.  Streams of the package
  asynciterator are lists and their buffers are left out.  Sources, HTTP, parsers, serializers, updates, loggers and
  the command line are input and output around the modelled parts or wrappers of other packages; the packages
  rdf-string, rdf-terms, asyncjoin, traqula, lru-cache and the murmur hash are parameters.
\<close>

end
